(* ===== verification/Prelude.thy ===== *)
theory Prelude
  imports Main "HOL-Library.Word"
begin

unbundle bit_operations_syntax

text \<open>
  Shared vocabulary of the development: the names of the C integer types at the widths of
  an LP64 target (\<open>unsigned long\<close> and \<open>size_t\<close> have 64 bits), the sequencing
  combinators that stand for ``call, test the return code, return early'', and the generic
  lemmas on words, lists and majorities that the components use.
\<close>

type_synonym u8 = "8 word"
type_synonym u16 = "16 word"
type_synonym u32 = "32 word"
type_synonym u64 = "64 word"
type_synonym ulong = "64 word"
type_synonym bytes = "8 word list"

text \<open>\<open>ULONG_MAX\<close> and the largest 64-bit value: all bits set.\<close>

abbreviation (input) ULONG_MAX :: ulong where
  "ULONG_MAX \<equiv> - 1"

text \<open>
  \<open>rc = f(s); if (rc != OK) return rc; ...\<close>: the state \<open>f\<close> leaves is kept on the error
  path. \<open>bind_val\<close> is the same for a call that also yields a value through an out parameter
  (\<open>Inl rc\<close> is an early return with the code \<open>rc\<close>), \<open>bind_rc\<close> when what follows yields a code.
\<close>

definition seq_ok :: "'rc \<Rightarrow> 's \<times> 'rc \<Rightarrow> ('s \<Rightarrow> 's \<times> 'rc) \<Rightarrow> 's \<times> 'rc" where
  "seq_ok ok r k = (if snd r = ok then k (fst r) else r)"

definition bind_val :: "'s \<times> ('rc + 'a) \<Rightarrow> ('s \<Rightarrow> 'a \<Rightarrow> 's \<times> ('rc + 'b)) \<Rightarrow> 's \<times> ('rc + 'b)" where
  "bind_val r k = (case snd r of Inl rc \<Rightarrow> (fst r, Inl rc) | Inr x \<Rightarrow> k (fst r) x)"

definition bind_rc :: "'s \<times> ('rc + 'a) \<Rightarrow> ('s \<Rightarrow> 'a \<Rightarrow> 's \<times> 'rc) \<Rightarrow> 's \<times> 'rc" where
  "bind_rc r k = (case snd r of Inl rc \<Rightarrow> (fst r, rc) | Inr x \<Rightarrow> k (fst r) x)"

definition majority_of :: "'a list \<Rightarrow> 'a set \<Rightarrow> bool" where
  "majority_of ms S \<longleftrightarrow> S \<subseteq> set ms \<and> length ms div 2 < card S"

section \<open>Sequencing\<close>

lemma seq_ok_simps [simp]:
  "seq_ok ok (s, ok) k = k s"
  "rc \<noteq> ok \<Longrightarrow> seq_ok ok (s, rc) k = (s, rc)"
  by (simp_all add: seq_ok_def)

lemma bind_val_simps [simp]:
  "bind_val (s, Inl rc) k = (s, Inl rc)"
  "bind_val (s, Inr x) k = k s x"
  by (simp_all add: bind_val_def)

lemma bind_rc_simps [simp]:
  "bind_rc (s, Inl rc) k = (s, rc)"
  "bind_rc (s, Inr x) k = k s x"
  by (simp_all add: bind_rc_def)

lemma apfst_Some_eq [simp]: "apfst Some r = (Some a, b) \<longleftrightarrow> r = (a, b)"
  by (cases r) simp

text \<open>Preservation of a state predicate through each combinator.\<close>

lemma seq_ok_keeps:
  assumes "P (fst r)" and "\<And>s. P s \<Longrightarrow> P (fst (k s))"
  shows "P (fst (seq_ok ok r k))"
  using assms by (simp add: seq_ok_def)

lemma bind_val_keeps:
  assumes "P (fst r)" and "\<And>s x. P s \<Longrightarrow> P (fst (k s x))"
  shows "P (fst (bind_val r k))"
  using assms by (simp add: bind_val_def split: sum.split)

lemma bind_rc_keeps:
  assumes "P (fst r)" and "\<And>s x. P s \<Longrightarrow> P (fst (k s x))"
  shows "P (fst (bind_rc r k))"
  using assms by (simp add: bind_rc_def split: sum.split)

section \<open>Words\<close>

lemma unat_inc: "(a :: 'a::len word) \<noteq> - 1 \<Longrightarrow> unat (a + 1) = Suc (unat a)"
  by (metis add.commute add_eq_0_iff2 unatSuc)

lemma unat_dec: "(a :: 'a::len word) \<noteq> 0 \<Longrightarrow> unat (a - 1) = unat a - 1"
  by (rule unat_minus_one)

lemma unat_dec_less: "(a :: 'a::len word) \<noteq> 0 \<Longrightarrow> unat (a - 1) < unat a"
  by (metis unat_dec diff_less unat_gt_0 zero_less_one)

lemma dec_less_of_less: "(b :: 'a::len word) < a \<Longrightarrow> unat (a - 1) < unat a"
  by (rule unat_dec_less) (auto simp: word_less_nat_alt)

lemma unat_max_minus: "unat (- 1 - (a :: 'a::len word)) = 2 ^ LENGTH('a) - 1 - unat a"
proof -
  have "unat (- 1 - a) = unat (- 1 :: 'a word) - unat a"
    by (rule unat_sub) (rule word_order.extremum)
  then show ?thesis by (simp add: unsigned_minus_1_eq_mask mask_eq_exp_minus_1)
qed

text \<open>Sums that the code has tested against \<open>MAX - b\<close> do not wrap.\<close>

lemma le_max_minus_iff:
  "(a :: 'a::len word) \<le> - 1 - b \<longleftrightarrow> unat a + unat b < 2 ^ LENGTH('a)"
proof -
  have "a \<le> - 1 - b \<longleftrightarrow> unat a \<le> 2 ^ LENGTH('a) - 1 - unat b"
    by (simp add: word_le_nat_alt unat_max_minus)
  with unsigned_less [where ?'a = nat, of b] show ?thesis by linarith
qed

lemma unat_add_no_wrap:
  "unat (a :: 'a::len word) + unat b < 2 ^ LENGTH('a) \<Longrightarrow> unat (a + b) = unat a + unat b"
  by (simp add: unat_word_ariths)

section \<open>Lists\<close>

text \<open>A loop that counts in a machine word counts, modulo the width.\<close>

lemma fold_count:
  "fold (\<lambda>x c. if P x then c + 1 else c) xs (c :: 'b::len word) = c + of_nat (length (filter P xs))"
  by (induction xs arbitrary: c) (simp_all add: algebra_simps)

lemma fold_list_update: "k \<le> length vs \<Longrightarrow> fold (\<lambda>i vs. vs[i := x]) [0..<k] vs = replicate k x @ drop k vs"
proof (induction k)
  case (Suc k)
  then show ?case
    by (simp add: list_update_append replicate_append_same Cons_nth_drop_Suc [symmetric])
qed simp

section \<open>Majorities\<close>

lemma majorities_meet:
  assumes "majority_of ms A" and "majority_of ms B"
  shows "A \<inter> B \<noteq> {}"
proof
  assume disj: "A \<inter> B = {}"
  from assms have sub: "A \<union> B \<subseteq> set ms" and "length ms < card A + card B"
    by (auto simp: majority_of_def)
  moreover from assms have "finite A" "finite B"
    by (auto simp: majority_of_def intro: finite_subset)
  ultimately have "length ms < card (A \<union> B)"
    using disj by (simp add: card_Un_disjoint)
  also from sub have "\<dots> \<le> card (set ms)" by (simp add: card_mono)
  also have "\<dots> \<le> length ms" by (rule card_length)
  finally show False by simp
qed

text \<open>
  What the voting argument needs of a quorum: two quorums share a member. The cluster's
  quorums are the majorities of its membership list.
\<close>

locale quorum_system =
  fixes quorum :: "'a set \<Rightarrow> bool"
  assumes meet: "quorum A \<Longrightarrow> quorum B \<Longrightarrow> A \<inter> B \<noteq> {}"
begin

lemma common_member:
  assumes "quorum A" and "quorum B"
  obtains x where "x \<in> A" and "x \<in> B"
  using meet [OF assms] by blast

lemma agree:
  assumes "quorum A" and "quorum B"
    and "\<And>x. x \<in> A \<Longrightarrow> choice x = Some a" and "\<And>x. x \<in> B \<Longrightarrow> choice x = Some b"
  shows "a = b"
  by (rule common_member [OF assms(1,2)]) (use assms(3,4) in fastforce)

end

interpretation majority: quorum_system "majority_of ms" for ms
  by unfold_locales (rule majorities_meet)

end
