(* ===== verification/Raft_Types.thy ===== *)
theory Raft_Types
  imports Prelude
begin

unbundle bit_operations_syntax

text \<open>
  The public data model of \<open>libraft89/include/raft89.h\<close> (results, roles, messages, entries,
  actions, configuration) and the scalar helpers of \<open>libraft89/src/raft89_u64.c\<close>.

  A C union with its tag is one datatype; a tag outside the enum (which the code rejects) has a
  constructor of its own. A nullable pointer to an array is an \<open>option\<close> of a list, always kept
  next to the element count that the C structure carries.
\<close>

section \<open>Portable 64-bit scalars\<close>

record raft89_u64 =
  u64_hi :: u32
  u64_lo :: u32

abbreviation (input) RAFT89__U64_MAX :: u64 where
  "RAFT89__U64_MAX \<equiv> - 1"

definition raft89_u64_cmp :: "raft89_u64 \<Rightarrow> raft89_u64 \<Rightarrow> int" where
  "raft89_u64_cmp a b =
     (if u64_hi a < u64_hi b then - 1
      else if u64_hi b < u64_hi a then 1
      else if u64_lo a < u64_lo b then - 1
      else if u64_lo b < u64_lo a then 1
      else 0)"

definition raft89_u64_equal :: "raft89_u64 \<Rightarrow> raft89_u64 \<Rightarrow> bool" where
  "raft89_u64_equal a b =
     (if u64_hi a \<noteq> u64_hi b then False
      else if u64_lo a \<noteq> u64_lo b then False
      else True)"

definition raft89_u64_zero :: raft89_u64 where
  "raft89_u64_zero = \<lparr>u64_hi = 0, u64_lo = 0\<rparr>"

definition raft89_u64_from_u32 :: "u32 \<Rightarrow> raft89_u64" where
  "raft89_u64_from_u32 value = \<lparr>u64_hi = 0, u64_lo = value\<rparr>"

definition raft89__from_public :: "raft89_u64 \<Rightarrow> u64" where
  "raft89__from_public v = push_bit 32 (ucast (u64_hi v)) OR ucast (u64_lo v)"

definition raft89__to_public :: "u64 \<Rightarrow> raft89_u64" where
  "raft89__to_public v =
     \<lparr>u64_hi = ucast (drop_bit 32 v), u64_lo = ucast (v AND 0xFFFFFFFF)\<rparr>"

definition raft89__u64_is_zero :: "u64 \<Rightarrow> bool" where
  "raft89__u64_is_zero v \<longleftrightarrow> v = 0"

definition raft89__u64_add :: "u64 \<Rightarrow> u64 \<Rightarrow> u64 option" where
  "raft89__u64_add a b = (let sum = a + b in if sum < a then None else Some sum)"

definition raft89__u64_inc :: "u64 \<Rightarrow> u64" where
  "raft89__u64_inc a = a + 1"

definition raft89__u64_dec :: "u64 \<Rightarrow> u64" where
  "raft89__u64_dec a = a - 1"

definition raft89__u64_to_size :: "u64 \<Rightarrow> ulong option" where
  "raft89__u64_to_size v = (if ULONG_MAX < v then None else Some v)"

definition raft89__size_to_u64 :: "ulong \<Rightarrow> u64" where
  "raft89__size_to_u64 v = v"

section \<open>Results, roles, entries\<close>

datatype raft89_result =
    RAFT89_OK | RAFT89_EMPTY | RAFT89_NOT_LEADER | RAFT89_BUSY
  | RAFT89_ERR | RAFT89_ERR_ARG | RAFT89_ERR_NOMEM | RAFT89_ERR_STATE | RAFT89_ERR_STORE
  | RAFT89_ERR_CORRUPT | RAFT89_ERR_PROTOCOL | RAFT89_ERR_LIMIT | RAFT89_ERR_FAULTED

datatype raft89_role = RAFT89_FOLLOWER | RAFT89_CANDIDATE | RAFT89_LEADER

type_synonym raft89_id = ulong
type_synonym raft89_size = ulong
type_synonym raft89_time = ulong

abbreviation (input) RAFT89_ID_NONE :: raft89_id where
  "RAFT89_ID_NONE \<equiv> 0"

abbreviation (input) RAFT89_TERM_NONE :: raft89_u64 where
  "RAFT89_TERM_NONE \<equiv> raft89_u64_zero"

abbreviation (input) RAFT89_INDEX_NONE :: raft89_u64 where
  "RAFT89_INDEX_NONE \<equiv> raft89_u64_zero"

record raft89_hard_state =
  hs_current_term :: raft89_u64
  hs_voted_for :: raft89_id

record raft89_entry =
  entry_term :: raft89_u64
  entry_index :: raft89_u64
  entry_data :: "bytes option"
  entry_size :: raft89_size

section \<open>Messages\<close>

record raft89_request_vote =
  rv_term :: raft89_u64
  rv_last_log_index :: raft89_u64
  rv_last_log_term :: raft89_u64

record raft89_request_vote_response =
  rvr_term :: raft89_u64
  rvr_vote_granted :: int

record raft89_append_entries =
  aeq_term :: raft89_u64
  aeq_prev_log_index :: raft89_u64
  aeq_prev_log_term :: raft89_u64
  aeq_leader_commit :: raft89_u64
  aeq_entries :: "raft89_entry list option"
  aeq_entry_count :: raft89_size

record raft89_append_entries_response =
  aer_term :: raft89_u64
  aer_success :: int
  aer_match_index :: raft89_u64
  aer_conflict_term :: raft89_u64
  aer_conflict_index :: raft89_u64

datatype raft89_message_u =
    RAFT89_MSG_REQUEST_VOTE raft89_request_vote
  | RAFT89_MSG_REQUEST_VOTE_RESPONSE raft89_request_vote_response
  | RAFT89_MSG_APPEND_ENTRIES raft89_append_entries
  | RAFT89_MSG_APPEND_ENTRIES_RESPONSE raft89_append_entries_response
  | RAFT89_MSG_OTHER int

record raft89_message =
  msg_from :: raft89_id
  msg_to :: raft89_id
  msg_u :: raft89_message_u

text \<open>A message structure filled with zero bytes: its type tag is no message type.\<close>

definition raft89_message_zero :: raft89_message where
  "raft89_message_zero = \<lparr>msg_from = 0, msg_to = 0, msg_u = RAFT89_MSG_OTHER 0\<rparr>"

section \<open>Actions\<close>

datatype raft89_action_type =
  RAFT89_ACT_SEND | RAFT89_ACT_HARD_STATE | RAFT89_ACT_LOG_APPEND
  | RAFT89_ACT_LOG_TRUNCATE | RAFT89_ACT_APPLY

datatype raft89_action_result = RAFT89_ACTION_OK | RAFT89_ACTION_LOST | RAFT89_ACTION_FATAL
  | RAFT89_ACTION_OTHER int

text \<open>
  The tagged union of an action. \<open>ActNone\<close> is the zero-filled structure of a fresh node. The
  entries of an append action are the array its pointer points to, with the count.
\<close>

datatype raft89_action_u =
    ActNone
  | ActSend raft89_message
  | ActHardState raft89_hard_state
  | ActLogAppend "raft89_entry list" raft89_size
  | ActLogTruncate raft89_u64
  | ActApply raft89_entry

record raft89_action =
  act_id :: ulong
  act_u :: raft89_action_u

definition raft89_entry_zero :: raft89_entry where
  "raft89_entry_zero =
     \<lparr>entry_term = raft89_u64_zero, entry_index = raft89_u64_zero, entry_data = None, entry_size = 0\<rparr>"

text \<open>The union after \<open>memset(&node->action.u, 0, sizeof(node->action.u))\<close>, for each tag.\<close>

fun action_zero :: "raft89_action_type \<Rightarrow> raft89_action_u" where
  "action_zero RAFT89_ACT_SEND = ActSend raft89_message_zero"
| "action_zero RAFT89_ACT_HARD_STATE =
     ActHardState \<lparr>hs_current_term = raft89_u64_zero, hs_voted_for = 0\<rparr>"
| "action_zero RAFT89_ACT_LOG_APPEND = ActLogAppend [] 0"
| "action_zero RAFT89_ACT_LOG_TRUNCATE = ActLogTruncate raft89_u64_zero"
| "action_zero RAFT89_ACT_APPLY = ActApply raft89_entry_zero"

section \<open>Host callbacks and configuration\<close>

text \<open>
  The storage read interface: \<open>None\<close> is a callback that did not return \<open>RAFT89_OK\<close>. The
  callbacks only read, so during one library call they are functions of the durable state.
\<close>

record raft89_store =
  store_hard_state :: "raft89_hard_state option"
  store_log_last :: "(raft89_u64 \<times> raft89_u64) option"
  store_log_term :: "raft89_u64 \<Rightarrow> raft89_u64 option"
  store_log_size :: "raft89_u64 \<Rightarrow> raft89_size option"
  store_log_read :: "raft89_u64 \<Rightarrow> raft89_size \<Rightarrow> bytes option"

text \<open>
  The environment of one library call: the store as it can be read now, the random source
  (the value of the \<open>k\<close>-th draw for a given upper bound), the outcome of the \<open>k\<close>-th
  allocation, and what a freshly allocated word holds before it is written.
\<close>

record host =
  host_store :: raft89_store
  host_random :: "nat \<Rightarrow> ulong \<Rightarrow> ulong"
  host_malloc :: "nat \<Rightarrow> bool"
  host_uninit :: u64

text \<open>The configuration; for the callbacks it records which pointers are not \<open>NULL\<close>.\<close>

record raft89_config =
  cfg_self :: raft89_id
  cfg_members :: "raft89_id list option"
  cfg_member_count :: raft89_size
  cfg_heartbeat_interval :: raft89_time
  cfg_election_timeout_min :: raft89_time
  cfg_election_timeout_max :: raft89_time
  cfg_max_append_entries :: raft89_size
  cfg_max_append_bytes :: raft89_size
  cfg_store_hard_state :: bool
  cfg_store_log_last :: bool
  cfg_store_log_term :: bool
  cfg_store_log_size :: bool
  cfg_store_log_read :: bool
  cfg_random_next :: bool
  cfg_applied_index :: raft89_u64

record raft89_status =
  status_self :: raft89_id
  status_role :: raft89_role
  status_current_term :: raft89_u64
  status_voted_for :: raft89_id
  status_leader_id :: raft89_id
  status_last_log_index :: raft89_u64
  status_commit_index :: raft89_u64
  status_applied_index :: raft89_u64
  status_faulted :: bool

record raft89_command =
  command_data :: "bytes option"
  command_size :: raft89_size

section \<open>Properties of the scalars\<close>

lemma from_to_public [simp]: "raft89__from_public (raft89__to_public v) = v"
proof -
  have "push_bit 32 (ucast (ucast (drop_bit 32 v) :: u32)) OR ucast (ucast (v AND 0xFFFFFFFF) :: u32) = v"
    (is "?l = v")
  proof (rule bit_word_eqI)
    fix n assume n: "n < LENGTH(64)"
    have m: "(0xFFFFFFFF :: u64) = mask 32" by (simp add: mask_eq_exp_minus_1)
    show "bit ?l n = bit v n"
      using n unfolding m by (cases "n < 32") (auto simp add: bit_simps)
  qed
  then show ?thesis by (simp add: raft89__from_public_def raft89__to_public_def)
qed

lemma to_from_public [simp]: "raft89__to_public (raft89__from_public p) = p"
proof -
  have hi: "ucast (drop_bit 32 (raft89__from_public p)) = u64_hi p"
    by (rule bit_word_eqI) (auto simp add: raft89__from_public_def bit_simps dest: bit_imp_le_length)
  have m: "(0xFFFFFFFF :: u64) = mask 32" by (simp add: mask_eq_exp_minus_1)
  have lo: "ucast (raft89__from_public p AND 0xFFFFFFFF) = u64_lo p"
    unfolding m by (rule bit_word_eqI) (auto simp add: raft89__from_public_def bit_simps)
  show ?thesis unfolding raft89__to_public_def hi lo by simp
qed

lemma to_public_inject [simp]: "raft89__to_public a = raft89__to_public b \<longleftrightarrow> a = b"
  by (metis from_to_public)

lemma from_public_inject [simp]: "raft89__from_public a = raft89__from_public b \<longleftrightarrow> a = b"
  by (metis to_from_public)

lemma from_public_zero [simp]: "raft89__from_public raft89_u64_zero = 0"
  by (simp add: raft89__from_public_def raft89_u64_zero_def)

lemma to_public_zero [simp]: "raft89__to_public 0 = raft89_u64_zero"
  by (metis from_public_zero to_from_public)

lemma from_public_eq_zero [simp]: "raft89__from_public p = 0 \<longleftrightarrow> p = raft89_u64_zero"
  by (metis from_public_zero from_public_inject)

lemma u64_equal_eq [simp]: "raft89_u64_equal a b \<longleftrightarrow> a = b"
  by (cases a, cases b) (simp add: raft89_u64_equal_def)

text \<open>The value a pair denotes: high word times \<open>2 ^ 32\<close> plus low word.\<close>

lemma unat_from_public: "unat (raft89__from_public p) = unat (u64_hi p) * 2 ^ 32 + unat (u64_lo p)"
proof -
  have hi: "unat (u64_hi p) < 2 ^ 32" and lo: "unat (u64_lo p) < 2 ^ 32"
    using unsigned_less [where ?'a = nat, of "u64_hi p"] unsigned_less [where ?'a = nat, of "u64_lo p"]
    by simp_all
  have "raft89__from_public p = push_bit 32 (ucast (u64_hi p)) + ucast (u64_lo p)"
    unfolding raft89__from_public_def
    by (rule disjunctive_add [symmetric]) (auto simp: bit_simps dest: bit_imp_le_length)
  also have "unat \<dots> = unat (u64_hi p) * 2 ^ 32 + unat (u64_lo p)"
    using hi lo by (simp add: unat_word_ariths push_bit_eq_mult unsigned_ucast_eq take_bit_nat_eq_self)
  finally show ?thesis .
qed

end
