(* ===== verification/Raft_Node.thy ===== *)
theory Raft_Node
  imports Raft_Types
begin

text \<open>
  The node object of \<open>libraft89/src/raft89_internal.h\<close> with its validation, lifecycle, action
  slot and clocks: \<open>raft89_config.c\<close>, \<open>raft89_node.c\<close>, \<open>raft89_timer.c\<close> (the clock part),
  the member helpers of \<open>raft89_election.c\<close> and the action constructors of \<open>raft89_action.c\<close>.

  The C object also stores the callback pointers; the model passes the host as an argument. In
  return the node carries \<open>rand_seq\<close> and \<open>alloc_seq\<close>, the number of values drawn and of
  allocations made so far. Integers that only ever hold 0 or 1 (\<open>faulted\<close>, \<open>has_action\<close>)
  are Booleans.
\<close>

section \<open>Configuration validation\<close>

definition cfg_member :: "raft89_config \<Rightarrow> nat \<Rightarrow> raft89_id" where
  "cfg_member cfg i = (case cfg_members cfg of None \<Rightarrow> RAFT89_ID_NONE | Some ms \<Rightarrow> ms ! i)"

definition raft89__config_has_zero :: "raft89_config \<Rightarrow> bool" where
  "raft89__config_has_zero cfg =
     list_ex (\<lambda>i. cfg_member cfg i = RAFT89_ID_NONE) [0..<unat (cfg_member_count cfg)]"

definition raft89__config_has_duplicate :: "raft89_config \<Rightarrow> bool" where
  "raft89__config_has_duplicate cfg =
     (let n = unat (cfg_member_count cfg) in
      list_ex (\<lambda>i. list_ex (\<lambda>j. cfg_member cfg i = cfg_member cfg j) [Suc i..<n]) [0..<n])"

definition raft89__config_count_id :: "raft89_config \<Rightarrow> raft89_id \<Rightarrow> ulong" where
  "raft89__config_count_id cfg ident =
     fold (\<lambda>i count. if cfg_member cfg i = ident then count + 1 else count)
       [0..<unat (cfg_member_count cfg)] 0"

definition raft89__members_valid :: "raft89_config \<Rightarrow> raft89_result" where
  "raft89__members_valid cfg =
     (if raft89__config_has_zero cfg then RAFT89_ERR_ARG
      else if raft89__config_has_duplicate cfg then RAFT89_ERR_ARG
      else if raft89__config_count_id cfg (cfg_self cfg) \<noteq> 1 then RAFT89_ERR_ARG
      else RAFT89_OK)"

definition raft89__timeouts_valid :: "raft89_config \<Rightarrow> raft89_result" where
  "raft89__timeouts_valid cfg =
     (if cfg_heartbeat_interval cfg = 0 then RAFT89_ERR_ARG
      else if cfg_election_timeout_min cfg \<le> cfg_heartbeat_interval cfg then RAFT89_ERR_ARG
      else if cfg_election_timeout_max cfg < cfg_election_timeout_min cfg then RAFT89_ERR_ARG
      else RAFT89_OK)"

definition raft89__limits_valid :: "raft89_config \<Rightarrow> raft89_result" where
  "raft89__limits_valid cfg =
     (if cfg_max_append_entries cfg = 0 then RAFT89_ERR_ARG
      else if cfg_max_append_bytes cfg = 0 then RAFT89_ERR_ARG
      else RAFT89_OK)"

definition raft89__store_valid :: "raft89_config \<Rightarrow> raft89_result" where
  "raft89__store_valid cfg =
     (if \<not> cfg_store_hard_state cfg then RAFT89_ERR_ARG
      else if \<not> cfg_store_log_last cfg then RAFT89_ERR_ARG
      else if \<not> cfg_store_log_term cfg then RAFT89_ERR_ARG
      else if \<not> cfg_store_log_size cfg then RAFT89_ERR_ARG
      else if \<not> cfg_store_log_read cfg then RAFT89_ERR_ARG
      else RAFT89_OK)"

definition raft89__random_valid :: "raft89_config \<Rightarrow> raft89_result" where
  "raft89__random_valid cfg = (if \<not> cfg_random_next cfg then RAFT89_ERR_ARG else RAFT89_OK)"

definition raft89__config_validate :: "raft89_config option \<Rightarrow> raft89_result" where
  "raft89__config_validate config =
     (case config of None \<Rightarrow> RAFT89_ERR_ARG
      | Some cfg \<Rightarrow>
        if cfg_members cfg = None then RAFT89_ERR_ARG
        else if cfg_member_count cfg = 0 then RAFT89_ERR_ARG
        else if cfg_self cfg = RAFT89_ID_NONE then RAFT89_ERR_ARG
        else if raft89__members_valid cfg \<noteq> RAFT89_OK then raft89__members_valid cfg
        else if raft89__timeouts_valid cfg \<noteq> RAFT89_OK then raft89__timeouts_valid cfg
        else if raft89__limits_valid cfg \<noteq> RAFT89_OK then raft89__limits_valid cfg
        else if raft89__store_valid cfg \<noteq> RAFT89_OK then raft89__store_valid cfg
        else raft89__random_valid cfg)"

section \<open>The node object\<close>

datatype raft89_step =
    RAFT89_STEP_NONE | RAFT89_STEP_ELECTION_BROADCAST | RAFT89_STEP_VOTE_RESPONSE
  | RAFT89_STEP_STEP_DOWN | RAFT89_STEP_AE_HARD_STATE | RAFT89_STEP_AE_TRUNCATE
  | RAFT89_STEP_AE_APPEND | RAFT89_STEP_AE_REPLY | RAFT89_STEP_APPLY
  | RAFT89_STEP_LEADER_APPEND | RAFT89_STEP_LEADER_BROADCAST

record raft89 =
  self :: raft89_id
  role :: raft89_role
  current_term :: u64
  voted_for :: raft89_id
  leader_id :: raft89_id
  last_log_index :: u64
  last_log_term :: u64
  commit_index :: u64
  applied_index :: u64
  members :: "raft89_id list"
  member_count :: raft89_size
  peers :: "raft89_id list"
  peer_count :: raft89_size
  votes :: "u8 list"
  votes_granted :: raft89_size
  next_index :: "u64 list"
  match_index :: "u64 list"
  heartbeat_interval :: raft89_time
  election_timeout_min :: raft89_time
  election_timeout_max :: raft89_time
  election_timeout :: raft89_time
  election_elapsed :: raft89_time
  heartbeat_elapsed :: raft89_time
  max_append_entries :: raft89_size
  max_append_bytes :: raft89_size
  faulted :: bool
  action_seq :: ulong
  has_action :: bool
  action :: raft89_action
  step :: raft89_step
  peer_cursor :: raft89_size
  pending_msg :: raft89_message
  pending_entries :: "raft89_entry list option"
  pending_count :: raft89_size
  ae_prev_index :: u64
  ae_prev_term :: u64
  ae_leader_commit :: u64
  ae_leader_id :: raft89_id
  ae_match_index :: u64
  ae_truncate_first :: u64
  ae_conflict_term :: u64
  ae_conflict_index :: u64
  ae_append_offset :: raft89_size
  ae_reply_success :: bool
  apply_buffer :: "bytes option"
  apply_size :: raft89_size
  after_apply :: raft89_step
  out_entries :: "raft89_entry list option"
  out_count :: raft89_size
  rand_seq :: nat
  alloc_seq :: nat

text \<open>A return code with the node it leaves, and the sequencing of two such calls.\<close>

abbreviation then_ok :: "raft89 \<times> raft89_result \<Rightarrow> (raft89 \<Rightarrow> raft89 \<times> raft89_result) \<Rightarrow> raft89 \<times> raft89_result" where
  "then_ok \<equiv> seq_ok RAFT89_OK"

text \<open>One allocation: the node with the counter advanced, and whether it succeeded.\<close>

definition host_alloc :: "host \<Rightarrow> raft89 \<Rightarrow> raft89 \<times> bool" where
  "host_alloc h n = (n\<lparr>alloc_seq := Suc (alloc_seq n)\<rparr>, host_malloc h (alloc_seq n))"

definition raft89__node_has_member :: "raft89 \<Rightarrow> raft89_id \<Rightarrow> bool" where
  "raft89__node_has_member n ident =
     list_ex (\<lambda>i. members n ! i = ident) [0..<unat (member_count n)]"

text \<open>The loop of \<open>raft89__member_index\<close> from position \<open>i\<close> with \<open>k\<close> members left to look at.\<close>

fun member_index_from :: "raft89_id list \<Rightarrow> raft89_id \<Rightarrow> nat \<Rightarrow> nat \<Rightarrow> nat" where
  "member_index_from ms ident i 0 = i"
| "member_index_from ms ident i (Suc k) =
     (if ms ! i = ident then i else member_index_from ms ident (Suc i) k)"

definition raft89__member_index :: "raft89 \<Rightarrow> raft89_id \<Rightarrow> nat" where
  "raft89__member_index n ident = member_index_from (members n) ident 0 (unat (member_count n))"

definition raft89__quorum :: "raft89 \<Rightarrow> raft89_size" where
  "raft89__quorum n = member_count n div 2 + 1"

section \<open>The action slot\<close>

fun raft89__action_result_valid :: "raft89_action \<Rightarrow> raft89_action_result \<Rightarrow> bool" where
  "raft89__action_result_valid a RAFT89_ACTION_OK = True"
| "raft89__action_result_valid a RAFT89_ACTION_FATAL = True"
| "raft89__action_result_valid a RAFT89_ACTION_LOST = (case act_u a of ActSend _ \<Rightarrow> True | _ \<Rightarrow> False)"
| "raft89__action_result_valid a (RAFT89_ACTION_OTHER _) = False"

definition raft89__action_begin :: "raft89 \<Rightarrow> raft89_action_type \<Rightarrow> raft89 \<times> raft89_result" where
  "raft89__action_begin n ty =
     (if action_seq n = ULONG_MAX then (n\<lparr>faulted := True\<rparr>, RAFT89_ERR_LIMIT)
      else
        (n\<lparr>action_seq := action_seq n + 1,
           action := \<lparr>act_id = action_seq n + 1, act_u = action_zero ty\<rparr>,
           has_action := True\<rparr>, RAFT89_OK))"

definition raft89__emit_send :: "raft89 \<Rightarrow> raft89_message \<Rightarrow> raft89 \<times> raft89_result" where
  "raft89__emit_send n msg =
     then_ok (raft89__action_begin n RAFT89_ACT_SEND)
       (\<lambda>n. (n\<lparr>action := (action n)\<lparr>act_u := ActSend msg\<rparr>\<rparr>, RAFT89_OK))"

definition raft89__emit_hard_state :: "raft89 \<Rightarrow> u64 \<Rightarrow> raft89_id \<Rightarrow> raft89 \<times> raft89_result" where
  "raft89__emit_hard_state n trm vote =
     then_ok (raft89__action_begin n RAFT89_ACT_HARD_STATE)
       (\<lambda>n. (n\<lparr>action := (action n)\<lparr>act_u :=
              ActHardState \<lparr>hs_current_term = raft89__to_public trm, hs_voted_for = vote\<rparr>\<rparr>\<rparr>, RAFT89_OK))"

definition raft89__apply_hard_state :: "raft89 \<Rightarrow> raft89" where
  "raft89__apply_hard_state n =
     (case act_u (action n) of
        ActHardState hs \<Rightarrow>
          n\<lparr>current_term := raft89__from_public (hs_current_term hs), voted_for := hs_voted_for hs\<rparr>
      | _ \<Rightarrow> n)"

definition vote_response_send :: "raft89 \<Rightarrow> raft89 \<times> raft89_result" where
  "vote_response_send n = raft89__emit_send (n\<lparr>step := RAFT89_STEP_NONE\<rparr>) (pending_msg n)"

section \<open>Clocks\<close>

definition raft89__sat_add :: "ulong \<Rightarrow> ulong \<Rightarrow> ulong" where
  "raft89__sat_add a b = (if ULONG_MAX - a < b then ULONG_MAX else a + b)"

definition raft89__pick_timeout :: "host \<Rightarrow> raft89 \<Rightarrow> raft89 \<times> raft89_time" where
  "raft89__pick_timeout h n =
     (let span = election_timeout_max n - election_timeout_min n + 1;
          pick = host_random h (rand_seq n) span
      in (n\<lparr>rand_seq := Suc (rand_seq n)\<rparr>, election_timeout_min n + pick))"

text \<open>\<open>node->election_timeout = raft89__pick_timeout(node)\<close>\<close>

definition set_timeout :: "host \<Rightarrow> raft89 \<Rightarrow> raft89" where
  "set_timeout h n = (case raft89__pick_timeout h n of (n, t) \<Rightarrow> n\<lparr>election_timeout := t\<rparr>)"

definition raft89__advance_clocks :: "raft89 \<Rightarrow> raft89_time \<Rightarrow> raft89" where
  "raft89__advance_clocks n elapsed =
     n\<lparr>election_elapsed := raft89__sat_add (election_elapsed n) elapsed,
       heartbeat_elapsed := raft89__sat_add (heartbeat_elapsed n) elapsed\<rparr>"

section \<open>Lifecycle\<close>

text \<open>A freshly allocated node: the arrays are \<open>NULL\<close>, the rest is uninitialised.\<close>

definition raft89_blank :: "host \<Rightarrow> raft89" where
  "raft89_blank h =
     \<lparr>self = host_uninit h, role = RAFT89_FOLLOWER, current_term = host_uninit h,
      voted_for = host_uninit h, leader_id = host_uninit h,
      last_log_index = host_uninit h, last_log_term = host_uninit h,
      commit_index = host_uninit h, applied_index = host_uninit h,
      members = [], member_count = 0, peers = [], peer_count = 0, votes = [],
      votes_granted = host_uninit h, next_index = [], match_index = [],
      heartbeat_interval = host_uninit h, election_timeout_min = host_uninit h,
      election_timeout_max = host_uninit h, election_timeout = host_uninit h,
      election_elapsed = host_uninit h, heartbeat_elapsed = host_uninit h,
      max_append_entries = host_uninit h, max_append_bytes = host_uninit h,
      faulted = False, action_seq = host_uninit h, has_action = False,
      action = \<lparr>act_id = host_uninit h, act_u = ActNone\<rparr>,
      step = RAFT89_STEP_NONE, peer_cursor = host_uninit h, pending_msg = raft89_message_zero,
      pending_entries = None, pending_count = host_uninit h,
      ae_prev_index = host_uninit h, ae_prev_term = host_uninit h,
      ae_leader_commit = host_uninit h, ae_leader_id = host_uninit h,
      ae_match_index = host_uninit h, ae_truncate_first = host_uninit h,
      ae_conflict_term = host_uninit h, ae_conflict_index = host_uninit h,
      ae_append_offset = host_uninit h, ae_reply_success = False,
      apply_buffer = None, apply_size = host_uninit h, after_apply = RAFT89_STEP_NONE,
      out_entries = None, out_count = host_uninit h, rand_seq = 0, alloc_seq = 1\<rparr>"

definition members_copy :: "host \<Rightarrow> raft89 \<Rightarrow> raft89_config \<Rightarrow> raft89 \<times> raft89_id list option" where
  "members_copy h n cfg =
     (case host_alloc h n of (n, ok) \<Rightarrow>
        (n, if ok then Some (map (cfg_member cfg) [0..<unat (cfg_member_count cfg)]) else None))"

definition peers_add :: "raft89_id list \<Rightarrow> raft89_id \<Rightarrow> raft89_id list" where
  "peers_add ps ident = ps @ [ident]"

definition peers_copy :: "host \<Rightarrow> raft89 \<Rightarrow> raft89_config \<Rightarrow> raft89 \<times> raft89_id list option" where
  "peers_copy h n cfg =
     (case host_alloc h n of (n, ok) \<Rightarrow>
        (n, if ok then
              Some (fold (\<lambda>i ps. if cfg_member cfg i \<noteq> cfg_self cfg
                                 then peers_add ps (cfg_member cfg i) else ps)
                     [0..<unat (cfg_member_count cfg)] [])
            else None))"

definition state_alloc :: "host \<Rightarrow> raft89 \<Rightarrow> raft89_config \<Rightarrow> raft89 \<times> raft89_result" where
  "state_alloc h n cfg =
     (case members_copy h n cfg of
        (n, None) \<Rightarrow> (n, RAFT89_ERR_NOMEM)
      | (n, Some ms) \<Rightarrow>
     (case peers_copy h (n\<lparr>members := ms\<rparr>) cfg of
        (n, None) \<Rightarrow> (n, RAFT89_ERR_NOMEM)
      | (n, Some ps) \<Rightarrow>
     (case host_alloc h (n\<lparr>peers := ps\<rparr>) of (n, ok1) \<Rightarrow>
      if \<not> ok1 then (n, RAFT89_ERR_NOMEM) else
     (case host_alloc h (n\<lparr>votes := replicate (unat (cfg_member_count cfg)) 0\<rparr>) of (n, ok2) \<Rightarrow>
      if \<not> ok2 then (n, RAFT89_ERR_NOMEM) else
     (case host_alloc h (n\<lparr>next_index := replicate (unat (cfg_member_count cfg)) 0\<rparr>) of (n, ok3) \<Rightarrow>
      if \<not> ok3 then (n, RAFT89_ERR_NOMEM) else
        (n\<lparr>match_index := replicate (unat (cfg_member_count cfg)) 0,
           member_count := cfg_member_count cfg,
           peer_count := cfg_member_count cfg - 1\<rparr>, RAFT89_OK))))))"

definition raft89__node_init :: "raft89 \<Rightarrow> raft89_config \<Rightarrow> raft89" where
  "raft89__node_init n cfg =
     n\<lparr>self := cfg_self cfg, role := RAFT89_FOLLOWER, current_term := 0,
       voted_for := RAFT89_ID_NONE, leader_id := RAFT89_ID_NONE,
       last_log_index := 0, last_log_term := 0, commit_index := 0, applied_index := 0,
       votes_granted := 0, heartbeat_interval := cfg_heartbeat_interval cfg,
       election_timeout_min := cfg_election_timeout_min cfg,
       election_timeout_max := cfg_election_timeout_max cfg,
       election_timeout := cfg_election_timeout_min cfg,
       election_elapsed := 0, heartbeat_elapsed := 0,
       max_append_entries := cfg_max_append_entries cfg,
       max_append_bytes := cfg_max_append_bytes cfg,
       faulted := False, action_seq := 0, has_action := False,
       action := \<lparr>act_id = 0, act_u = ActNone\<rparr>,
       step := RAFT89_STEP_NONE, peer_cursor := 0, pending_msg := raft89_message_zero,
       pending_entries := None, pending_count := 0,
       ae_prev_index := 0, ae_prev_term := 0, ae_leader_commit := 0,
       ae_leader_id := RAFT89_ID_NONE, ae_match_index := 0, ae_truncate_first := 0,
       ae_append_offset := 0, ae_reply_success := False,
       apply_buffer := None, apply_size := 0, after_apply := RAFT89_STEP_NONE,
       out_entries := None, out_count := 0\<rparr>"

definition node_alloc :: "host \<Rightarrow> raft89_config \<Rightarrow> raft89 option" where
  "node_alloc h cfg =
     (if \<not> host_malloc h 0 then None
      else case state_alloc h (raft89_blank h) cfg of (n, rc) \<Rightarrow>
        if rc \<noteq> RAFT89_OK then None else Some (raft89__node_init n cfg))"

definition raft89__store_read_hard_state :: "host \<Rightarrow> raft89 \<Rightarrow> raft89 \<times> raft89_result" where
  "raft89__store_read_hard_state h n =
     (case store_hard_state (host_store h) of
        None \<Rightarrow> (n, RAFT89_ERR_STORE)
      | Some hs \<Rightarrow>
          (n\<lparr>current_term := raft89__from_public (hs_current_term hs),
             voted_for := hs_voted_for hs\<rparr>, RAFT89_OK))"

definition raft89__store_read_log_last :: "host \<Rightarrow> raft89 \<Rightarrow> raft89 \<times> raft89_result" where
  "raft89__store_read_log_last h n =
     (case store_log_last (host_store h) of
        None \<Rightarrow> (n, RAFT89_ERR_STORE)
      | Some (i, t) \<Rightarrow>
          (n\<lparr>last_log_index := raft89__from_public i, last_log_term := raft89__from_public t\<rparr>,
           RAFT89_OK))"

definition raft89__check_restored :: "raft89 \<Rightarrow> raft89_result" where
  "raft89__check_restored n =
     (if raft89__u64_is_zero (last_log_index n) \<and> \<not> raft89__u64_is_zero (last_log_term n)
      then RAFT89_ERR_CORRUPT
      else if \<not> raft89__u64_is_zero (last_log_index n) \<and> raft89__u64_is_zero (last_log_term n)
      then RAFT89_ERR_CORRUPT
      else if voted_for n \<noteq> RAFT89_ID_NONE \<and> \<not> raft89__node_has_member n (voted_for n)
      then RAFT89_ERR_CORRUPT
      else RAFT89_OK)"

definition raft89__node_load :: "host \<Rightarrow> raft89 \<Rightarrow> raft89 \<times> raft89_result" where
  "raft89__node_load h n =
     then_ok (raft89__store_read_hard_state h n) (\<lambda>n.
     then_ok (raft89__store_read_log_last h n) (\<lambda>n.
       (n, raft89__check_restored n)))"

definition raft89__recover_applied :: "host \<Rightarrow> raft89 \<Rightarrow> u64 \<Rightarrow> raft89 \<times> raft89_result" where
  "raft89__recover_applied h n applied =
     (if last_log_index n < applied then (n, RAFT89_ERR_CORRUPT)
      else if raft89__u64_is_zero applied then (n, RAFT89_OK)
      else case store_log_term (host_store h) (raft89__to_public applied) of
        None \<Rightarrow> (n, RAFT89_ERR_STORE)
      | Some _ \<Rightarrow> (n\<lparr>applied_index := applied, commit_index := applied\<rparr>, RAFT89_OK))"

text \<open>
  The return code and \<open>*out\<close>. \<open>out_given\<close> is whether the out pointer is not \<open>NULL\<close>; a node that
  is discarded on an error path is not returned.
\<close>

definition raft89_create :: "host \<Rightarrow> raft89_config option \<Rightarrow> bool \<Rightarrow> raft89_result \<times> raft89 option" where
  "raft89_create h config out_given =
     (if \<not> out_given then (RAFT89_ERR_ARG, None)
      else if raft89__config_validate config \<noteq> RAFT89_OK
      then (raft89__config_validate config, None)
      else case config of None \<Rightarrow> (RAFT89_ERR_ARG, None) | Some cfg \<Rightarrow>
        (case node_alloc h cfg of
           None \<Rightarrow> (RAFT89_ERR_NOMEM, None)
         | Some n \<Rightarrow>
           (case raft89__node_load h n of (n, rc) \<Rightarrow>
            if rc \<noteq> RAFT89_OK then (rc, None)
            else case raft89__recover_applied h n (raft89__from_public (cfg_applied_index cfg)) of (n, rc) \<Rightarrow>
              if rc \<noteq> RAFT89_OK then (rc, None)
              else (RAFT89_OK, Some (set_timeout h n)))))"

definition raft89_status_get :: "raft89 option \<Rightarrow> bool \<Rightarrow> raft89_result \<times> raft89_status option" where
  "raft89_status_get node status_given =
     (case node of None \<Rightarrow> (RAFT89_ERR_ARG, None)
      | Some n \<Rightarrow>
        if \<not> status_given then (RAFT89_ERR_ARG, None)
        else (RAFT89_OK, Some
          \<lparr>status_self = self n, status_role = role n,
           status_current_term = raft89__to_public (current_term n),
           status_voted_for = voted_for n, status_leader_id = leader_id n,
           status_last_log_index = raft89__to_public (last_log_index n),
           status_commit_index = raft89__to_public (commit_index n),
           status_applied_index = raft89__to_public (applied_index n),
           status_faulted = faulted n\<rparr>))"

definition raft89_next_action :: "raft89 option \<Rightarrow> bool \<Rightarrow> raft89_result \<times> raft89_action option" where
  "raft89_next_action node action_given =
     (case node of None \<Rightarrow> (RAFT89_ERR_ARG, None)
      | Some n \<Rightarrow>
        if \<not> action_given then (RAFT89_ERR_ARG, None)
        else if faulted n then (RAFT89_ERR_FAULTED, None)
        else if \<not> has_action n then (RAFT89_EMPTY, None)
        else (RAFT89_OK, Some (action n)))"

end
