(* ===== verification/Raft_Config.thy ===== *)
theory Raft_Config
  imports Raft_Node
begin

text \<open>
  What \<open>raft89__config_validate\<close> accepts: exactly the configurations whose membership is a list of
  distinct non-zero identifiers with the node itself among them, whose timeouts are ordered and
  whose limits and callbacks are present.
\<close>

definition config_members :: "raft89_config \<Rightarrow> raft89_id list" where
  "config_members cfg = map (cfg_member cfg) [0..<unat (cfg_member_count cfg)]"

definition config_ok :: "raft89_config \<Rightarrow> bool" where
  "config_ok cfg \<longleftrightarrow>
     cfg_members cfg \<noteq> None \<and> config_members cfg \<noteq> []
   \<and> 0 \<notin> set (config_members cfg) \<and> distinct (config_members cfg) \<and> cfg_self cfg \<in> set (config_members cfg)
   \<and> 0 < cfg_heartbeat_interval cfg \<and> cfg_heartbeat_interval cfg < cfg_election_timeout_min cfg
   \<and> cfg_election_timeout_min cfg \<le> cfg_election_timeout_max cfg
   \<and> 0 < cfg_max_append_entries cfg \<and> 0 < cfg_max_append_bytes cfg
   \<and> cfg_store_hard_state cfg \<and> cfg_store_log_last cfg \<and> cfg_store_log_term cfg
   \<and> cfg_store_log_size cfg \<and> cfg_store_log_read cfg \<and> cfg_random_next cfg"

lemma config_has_zero_iff: "raft89__config_has_zero cfg \<longleftrightarrow> 0 \<in> set (config_members cfg)"
  by (auto simp: raft89__config_has_zero_def config_members_def list_ex_iff)

lemma config_has_duplicate_iff: "raft89__config_has_duplicate cfg \<longleftrightarrow> \<not> distinct (config_members cfg)"
proof -
  let ?n = "unat (cfg_member_count cfg)"
  have "distinct (config_members cfg) \<longleftrightarrow> (\<forall>i < ?n. \<forall>j < ?n. i < j \<longrightarrow> cfg_member cfg i \<noteq> cfg_member cfg j)"
    by (auto simp: config_members_def distinct_conv_nth linorder_neq_iff)
  also have "\<dots> \<longleftrightarrow> (\<forall>i \<in> {0..<?n}. \<forall>j \<in> {Suc i..<?n}. cfg_member cfg i \<noteq> cfg_member cfg j)"
    by (simp add: Ball_def Suc_le_eq) (meson less_trans)
  finally show ?thesis
    by (simp add: raft89__config_has_duplicate_def Let_def list_ex_iff)
qed

lemma config_count_id: "raft89__config_count_id cfg ident = of_nat (count_list (config_members cfg) ident)"
proof -
  have "length (filter (\<lambda>i. cfg_member cfg i = ident) xs) = count_list (map (cfg_member cfg) xs) ident" for xs
    by (induction xs) auto
  then show ?thesis by (simp add: raft89__config_count_id_def fold_count config_members_def)
qed

lemma config_self_iff:
  "distinct (config_members cfg) \<Longrightarrow>
     raft89__config_count_id cfg ident = 1 \<longleftrightarrow> ident \<in> set (config_members cfg)"
proof -
  have "count_list xs x = (if x \<in> set xs then 1 else 0)" if "distinct xs" for xs and x :: raft89_id
    using that by (induction xs) auto
  then show "distinct (config_members cfg) \<Longrightarrow>
      raft89__config_count_id cfg ident = 1 \<longleftrightarrow> ident \<in> set (config_members cfg)"
    by (simp add: config_count_id)
qed

lemma members_valid_iff:
  "raft89__members_valid cfg = RAFT89_OK \<longleftrightarrow>
     0 \<notin> set (config_members cfg) \<and> distinct (config_members cfg) \<and> cfg_self cfg \<in> set (config_members cfg)"
  by (auto simp: raft89__members_valid_def config_has_zero_iff config_has_duplicate_iff config_self_iff)

lemma config_members_nil: "config_members cfg = [] \<longleftrightarrow> cfg_member_count cfg = 0"
  by (simp add: config_members_def unat_eq_zero)

text \<open>A configuration is accepted exactly when it is well formed, and every other one is refused
  with the argument error.\<close>

theorem config_validate_iff:
  "raft89__config_validate (Some cfg) = (if config_ok cfg then RAFT89_OK else RAFT89_ERR_ARG)"
proof -
  have codes: "raft89__members_valid cfg \<noteq> RAFT89_OK \<Longrightarrow> raft89__members_valid cfg = RAFT89_ERR_ARG"
    by (simp add: raft89__members_valid_def split: if_splits)
  have self: "cfg_self cfg \<noteq> 0" if "0 \<notin> set (config_members cfg)" "cfg_self cfg \<in> set (config_members cfg)"
    using that by metis
  show ?thesis
    using codes self
    by (auto simp: raft89__config_validate_def members_valid_iff config_ok_def raft89__timeouts_valid_def
        raft89__limits_valid_def raft89__store_valid_def raft89__random_valid_def config_members_nil
        word_neq_0_conv not_le not_less)
qed

lemma config_members_ok:
  assumes "raft89__config_validate (Some cfg) = RAFT89_OK"
  shows "0 \<notin> set (config_members cfg)" "distinct (config_members cfg)" "cfg_self cfg \<in> set (config_members cfg)"
  using assms members_valid_iff [of cfg]
  by (simp_all add: raft89__config_validate_def split: if_splits)

end
