(* ===== verification/Raft_Message.thy ===== *)
theory Raft_Message
  imports Raft_Node
begin

text \<open>
  Message validation and construction: \<open>libraft89/src/raft89_message.c\<close> (the receive dispatch,
  which needs every handler, is in \<open>Raft_Api\<close>).
\<close>

section \<open>Validation\<close>

definition raft89__request_vote_valid :: "raft89_request_vote \<Rightarrow> bool" where
  "raft89__request_vote_valid rv =
     (if raft89_u64_equal (rv_last_log_index rv) RAFT89_INDEX_NONE
         \<and> \<not> raft89_u64_equal (rv_last_log_term rv) RAFT89_TERM_NONE then False
      else if \<not> raft89_u64_equal (rv_last_log_index rv) RAFT89_INDEX_NONE
         \<and> raft89_u64_equal (rv_last_log_term rv) RAFT89_TERM_NONE then False
      else True)"

definition raft89__vote_response_valid :: "raft89_request_vote_response \<Rightarrow> bool" where
  "raft89__vote_response_valid r =
     (if rvr_vote_granted r \<noteq> 0 \<and> rvr_vote_granted r \<noteq> 1 then False else True)"

definition aeq_entry :: "raft89_append_entries \<Rightarrow> nat \<Rightarrow> raft89_entry" where
  "aeq_entry ae i = (case aeq_entries ae of None \<Rightarrow> raft89_entry_zero | Some es \<Rightarrow> es ! i)"

definition entry_shape_valid :: "raft89_append_entries \<Rightarrow> nat \<Rightarrow> bool" where
  "entry_shape_valid ae i =
     (let entry = aeq_entry ae i in
      if raft89_u64_equal (entry_index entry) RAFT89_INDEX_NONE then False
      else if raft89_u64_equal (entry_term entry) RAFT89_TERM_NONE then False
      else let prev = raft89__from_public (aeq_prev_log_index ae);
               want = prev + 1 + raft89__size_to_u64 (of_nat i);
               got = raft89__from_public (entry_index entry) in
        if got \<noteq> want then False
        else if entry_size entry \<noteq> 0 \<and> entry_data entry = None then False
        else True)"

definition entries_shape_valid :: "raft89_append_entries \<Rightarrow> bool" where
  "entries_shape_valid ae = list_all (entry_shape_valid ae) [0..<unat (aeq_entry_count ae)]"

definition raft89__append_entries_valid :: "raft89_append_entries \<Rightarrow> raft89_size \<Rightarrow> raft89_size \<Rightarrow> bool" where
  "raft89__append_entries_valid ae max_entries max_bytes =
     (if max_entries < aeq_entry_count ae then False
      else if aeq_entry_count ae = 0 then True
      else if aeq_entries ae = None then False
      else if RAFT89__U64_MAX - raft89__size_to_u64 (aeq_entry_count ae)
              < raft89__from_public (aeq_prev_log_index ae) then False
      else let total_bytes = fold (\<lambda>i t. raft89__sat_add t (entry_size (aeq_entry ae i)))
                         [0..<unat (aeq_entry_count ae)] 0 in
        if max_bytes < total_bytes then False
        else entries_shape_valid ae)"

definition raft89__append_entries_response_valid :: "raft89_append_entries_response \<Rightarrow> bool" where
  "raft89__append_entries_response_valid r =
     (if aer_success r \<noteq> 0 \<and> aer_success r \<noteq> 1 then False
      else let term_none = raft89_u64_equal (aer_conflict_term r) RAFT89_TERM_NONE;
               index_none = raft89_u64_equal (aer_conflict_index r) RAFT89_INDEX_NONE in
        if aer_success r \<noteq> 0 then
          (if \<not> term_none then False else if \<not> index_none then False else True)
        else if \<not> raft89_u64_equal (aer_match_index r) RAFT89_INDEX_NONE then False
        else if index_none then False
        else True)"

definition raft89__msg_envelope_valid :: "raft89 \<Rightarrow> raft89_message \<Rightarrow> bool" where
  "raft89__msg_envelope_valid n msg =
     (if msg_to msg \<noteq> self n then False
      else if msg_from msg = self n then False
      else if msg_from msg = RAFT89_ID_NONE then False
      else if \<not> raft89__node_has_member n (msg_from msg) then False
      else case msg_u msg of
        RAFT89_MSG_REQUEST_VOTE rv \<Rightarrow> raft89__request_vote_valid rv
      | RAFT89_MSG_REQUEST_VOTE_RESPONSE r \<Rightarrow> raft89__vote_response_valid r
      | RAFT89_MSG_APPEND_ENTRIES ae \<Rightarrow>
          raft89__append_entries_valid ae (max_append_entries n) (max_append_bytes n)
      | RAFT89_MSG_APPEND_ENTRIES_RESPONSE r \<Rightarrow> raft89__append_entries_response_valid r
      | RAFT89_MSG_OTHER _ \<Rightarrow> False)"

section \<open>Construction\<close>

definition raft89__build_request_vote :: "raft89 \<Rightarrow> raft89_id \<Rightarrow> raft89_message" where
  "raft89__build_request_vote n peer =
     \<lparr>msg_from = self n, msg_to = peer,
      msg_u = RAFT89_MSG_REQUEST_VOTE
        \<lparr>rv_term = raft89__to_public (current_term n),
         rv_last_log_index = raft89__to_public (last_log_index n),
         rv_last_log_term = raft89__to_public (last_log_term n)\<rparr>\<rparr>"

definition raft89__build_vote_response :: "raft89_id \<Rightarrow> raft89_id \<Rightarrow> raft89_u64 \<Rightarrow> int \<Rightarrow> raft89_message" where
  "raft89__build_vote_response sender peer trm granted =
     \<lparr>msg_from = sender, msg_to = peer,
      msg_u = RAFT89_MSG_REQUEST_VOTE_RESPONSE \<lparr>rvr_term = trm, rvr_vote_granted = granted\<rparr>\<rparr>"

definition raft89__build_ae_response :: "raft89_id \<Rightarrow> raft89_id \<Rightarrow> raft89_u64 \<Rightarrow> int \<Rightarrow> raft89_u64
    \<Rightarrow> raft89_u64 \<Rightarrow> raft89_u64 \<Rightarrow> raft89_message" where
  "raft89__build_ae_response sender peer trm success match conflict_trm conflict_idx =
     \<lparr>msg_from = sender, msg_to = peer,
      msg_u = RAFT89_MSG_APPEND_ENTRIES_RESPONSE
        \<lparr>aer_term = trm, aer_success = success, aer_match_index = match,
         aer_conflict_term = conflict_trm, aer_conflict_index = conflict_idx\<rparr>\<rparr>"

end
