(* ===== verification/Raft_Log.thy ===== *)
theory Raft_Log
  imports Raft_Message
begin

text \<open>
  Entry copying, commit advancement and the ordered application of committed entries:
  \<open>libraft89/src/raft89_log.c\<close>. The acknowledgement of an application, which resumes the
  interrupted operation, is in \<open>Raft_Api\<close>.
\<close>

definition raft89__min_index :: "u64 \<Rightarrow> u64 \<Rightarrow> u64" where
  "raft89__min_index a b = (if a < b then a else b)"

definition payload_total :: "raft89_entry list \<Rightarrow> ulong" where
  "payload_total src = fold (\<lambda>e total_bytes. raft89__sat_add total_bytes (entry_size e)) src 0"

text \<open>The term of a log position, or the code of an early return.\<close>

definition raft89__log_term_at :: "host \<Rightarrow> raft89 \<Rightarrow> u64 \<Rightarrow> raft89 \<times> (raft89_result + u64)" where
  "raft89__log_term_at h n index =
     (if raft89__u64_is_zero index then (n, Inr 0)
      else case store_log_term (host_store h) (raft89__to_public index) of
        None \<Rightarrow> (n\<lparr>faulted := True\<rparr>, Inl RAFT89_ERR_STORE)
      | Some t \<Rightarrow> (n, Inr (raft89__from_public t)))"

text \<open>\<open>sizeof(raft89_entry)\<close> on an LP64 target: two 64-bit pairs, a pointer and a size.\<close>

definition sizeof_entry :: ulong where
  "sizeof_entry = 32"

text \<open>Whether the buffer for \<open>count\<close> descriptors and \<open>total_bytes\<close> payload bytes was obtained.\<close>

definition raft89__entries_buffer_alloc :: "host \<Rightarrow> raft89 \<Rightarrow> raft89_size \<Rightarrow> ulong \<Rightarrow> raft89 \<times> bool" where
  "raft89__entries_buffer_alloc h n count total_bytes =
     (if ULONG_MAX div sizeof_entry < count then (n, False)
      else let desc = count * sizeof_entry in
        if ULONG_MAX - desc < total_bytes then (n, False)
        else host_alloc h n)"

text \<open>
  Copy one entry into the buffer: the stored entry owns its bytes. The second component is the
  offset after the copy.
\<close>

definition entry_store :: "raft89_entry \<Rightarrow> ulong \<Rightarrow> raft89_entry \<times> ulong" where
  "entry_store src offset =
     (\<lparr>entry_term = entry_term src, entry_index = entry_index src,
       entry_data = Some (if entry_size src \<noteq> 0
                          then (case entry_data src of None \<Rightarrow> [] | Some d \<Rightarrow> take (unat (entry_size src)) d)
                          else []),
       entry_size = entry_size src\<rparr>,
      offset + entry_size src)"

fun entries_store :: "raft89_entry list \<Rightarrow> ulong \<Rightarrow> raft89_entry list \<times> ulong" where
  "entries_store [] offset = ([], offset)"
| "entries_store (e # es) offset =
     (case entry_store e offset of (d, offset) \<Rightarrow>
        (case entries_store es offset of (ds, offset) \<Rightarrow> (d # ds, offset)))"

definition raft89__entries_clear :: "raft89 \<Rightarrow> raft89" where
  "raft89__entries_clear n = n\<lparr>pending_entries := None, pending_count := 0\<rparr>"

definition raft89__entries_stash :: "host \<Rightarrow> raft89 \<Rightarrow> raft89_entry list option \<Rightarrow> raft89_size
    \<Rightarrow> raft89 \<times> raft89_result" where
  "raft89__entries_stash h n src count =
     (let n = raft89__entries_clear n in
      if count = 0 then (n, RAFT89_OK)
      else let es = (case src of None \<Rightarrow> [] | Some es \<Rightarrow> take (unat count) es);
               total_bytes = payload_total es in
        (case raft89__entries_buffer_alloc h n count total_bytes of (n, ok) \<Rightarrow>
         if \<not> ok then (n, RAFT89_ERR_NOMEM)
         else (n\<lparr>pending_entries := Some (fst (entries_store es (count * sizeof_entry))),
                 pending_count := count\<rparr>, RAFT89_OK)))"

section \<open>Application\<close>

definition load_entry_meta :: "host \<Rightarrow> raft89 \<Rightarrow> raft89_entry \<Rightarrow> raft89 \<times> (raft89_result + raft89_entry)" where
  "load_entry_meta h n entry =
     (case store_log_term (host_store h) (entry_index entry) of
        None \<Rightarrow> (n\<lparr>faulted := True\<rparr>, Inl RAFT89_ERR_STORE)
      | Some trm \<Rightarrow>
        (case store_log_size (host_store h) (entry_index entry) of
           None \<Rightarrow> (n\<lparr>faulted := True\<rparr>, Inl RAFT89_ERR_STORE)
         | Some sz \<Rightarrow> (n, Inr (entry\<lparr>entry_term := trm, entry_size := sz\<rparr>))))"

definition store_fault :: "raft89 \<Rightarrow> raft89 \<times> raft89_result" where
  "store_fault n = (n\<lparr>faulted := True\<rparr>, RAFT89_ERR_STORE)"

definition apply_buffer_discard :: "raft89 \<Rightarrow> raft89" where
  "apply_buffer_discard n = n\<lparr>apply_buffer := None, apply_size := 0\<rparr>"

definition load_entry_payload :: "host \<Rightarrow> raft89 \<Rightarrow> raft89_entry \<Rightarrow> raft89 \<times> (raft89_result + raft89_entry)" where
  "load_entry_payload h n entry =
     (if entry_size entry = 0 then (n, Inr (entry\<lparr>entry_data := None\<rparr>))
      else case host_alloc h n of (n, ok) \<Rightarrow>
        if \<not> ok then (n, Inl RAFT89_ERR_NOMEM)
        else (case store_log_read (host_store h) (entry_index entry) (entry_size entry) of
          None \<Rightarrow> (case store_fault n of (n, rc) \<Rightarrow> (n, Inl rc))
        | Some buffer \<Rightarrow>
            (n\<lparr>apply_buffer := Some buffer, apply_size := entry_size entry\<rparr>,
             Inr (entry\<lparr>entry_data := Some buffer\<rparr>))))"

definition emit_next_apply :: "host \<Rightarrow> raft89 \<Rightarrow> raft89 \<times> raft89_result" where
  "emit_next_apply h n =
     (let entry = \<lparr>entry_term = raft89_u64_zero,
                   entry_index = raft89__to_public (raft89__u64_inc (applied_index n)),
                   entry_data = None, entry_size = 0\<rparr> in
      bind_rc (load_entry_meta h n entry) (\<lambda>n entry.
      bind_rc (load_entry_payload h n entry) (\<lambda>n entry.
        (case raft89__action_begin n RAFT89_ACT_APPLY of (n, rc) \<Rightarrow>
         if rc \<noteq> RAFT89_OK then (apply_buffer_discard n, rc)
         else (n\<lparr>action := (action n)\<lparr>act_u := ActApply entry\<rparr>\<rparr>, RAFT89_OK)))))"

definition raft89__apply_next :: "host \<Rightarrow> raft89 \<Rightarrow> raft89 \<times> raft89_result" where
  "raft89__apply_next h n =
     (if commit_index n \<le> applied_index n then (n, RAFT89_OK)
      else then_ok (emit_next_apply h n) (\<lambda>n. (n\<lparr>step := RAFT89_STEP_APPLY\<rparr>, RAFT89_OK)))"

definition raft89__advance_commit :: "host \<Rightarrow> raft89 \<Rightarrow> u64 \<Rightarrow> raft89_step \<Rightarrow> raft89 \<times> raft89_result" where
  "raft89__advance_commit h n new_commit after =
     (if new_commit \<le> commit_index n then (n, RAFT89_OK)
      else raft89__apply_next h (n\<lparr>commit_index := new_commit, after_apply := after\<rparr>))"

end
