(* ===== verification/Raft_Leader.thy ===== *)
theory Raft_Leader
  imports Raft_Log
begin

text \<open>
  Leader replication, the commit rule and proposals: \<open>libraft89/src/raft89_leader.c\<close>. The
  \<open>while\<close> and \<open>for\<close> loops over 64-bit counters are recursive functions with a termination
  proof; the loop over the entries of a batch is recursion on their number.
\<close>

section \<open>Building one AppendEntries batch\<close>

definition out_entries_clear :: "raft89 \<Rightarrow> raft89" where
  "out_entries_clear n = n\<lparr>out_entries := None, out_count := 0\<rparr>"

text \<open>Fill one descriptor; the result holds the entry and the buffer offset after its payload.\<close>

definition out_entry_fill :: "host \<Rightarrow> raft89 \<Rightarrow> u64 \<Rightarrow> ulong
    \<Rightarrow> raft89 \<times> (raft89_result + raft89_entry \<times> ulong)" where
  "out_entry_fill h n index offset =
     bind_val (raft89__log_term_at h n index) (\<lambda>n trm.
       (case store_log_size (host_store h) (raft89__to_public index) of
          None \<Rightarrow> (n\<lparr>faulted := True\<rparr>, Inl RAFT89_ERR_STORE)
        | Some sz \<Rightarrow>
          let dst = \<lparr>entry_term = raft89__to_public trm, entry_index = raft89__to_public index,
                     entry_data = Some [], entry_size = sz\<rparr> in
          if sz \<noteq> 0 then
            (case store_log_read (host_store h) (raft89__to_public index) sz of
               None \<Rightarrow> (n\<lparr>faulted := True\<rparr>, Inl RAFT89_ERR_STORE)
             | Some d \<Rightarrow> (n, Inr (dst\<lparr>entry_data := Some d\<rparr>, offset + sz)))
          else (n, Inr (dst, offset + sz))))"

text \<open>The filling loop: \<open>k\<close> entries from log position \<open>index\<close> on.\<close>

fun out_entries_fill :: "host \<Rightarrow> raft89 \<Rightarrow> u64 \<Rightarrow> nat \<Rightarrow> ulong
    \<Rightarrow> raft89 \<times> (raft89_result + raft89_entry list \<times> ulong)" where
  "out_entries_fill h n index 0 offset = (n, Inr ([], offset))"
| "out_entries_fill h n index (Suc k) offset =
     bind_val (out_entry_fill h n index offset) (\<lambda>n (e, offset).
     bind_val (out_entries_fill h n (index + 1) k offset) (\<lambda>n (es, offset).
       (n, Inr (e # es, offset))))"

definition out_entries_build :: "host \<Rightarrow> raft89 \<Rightarrow> u64 \<Rightarrow> u64 \<Rightarrow> ulong \<Rightarrow> raft89 \<times> raft89_result" where
  "out_entries_build h n start count total_bytes =
     (let n = out_entries_clear n in
      if raft89__u64_is_zero count then (n, RAFT89_OK)
      else case raft89__u64_to_size count of
        None \<Rightarrow> (n, RAFT89_ERR_LIMIT)
      | Some count_size \<Rightarrow>
        (case raft89__entries_buffer_alloc h n count_size total_bytes of (n, ok) \<Rightarrow>
         if \<not> ok then (n, RAFT89_ERR_NOMEM)
         else bind_rc (out_entries_fill h n start (unat count) (count_size * sizeof_entry)) (\<lambda>n (es, offset).
           (n\<lparr>out_entries := Some es, out_count := count_size\<rparr>, RAFT89_OK))))"

definition sum_one :: "host \<Rightarrow> raft89 \<Rightarrow> u64 \<Rightarrow> ulong \<Rightarrow> raft89 \<times> (raft89_result + ulong)" where
  "sum_one h n index acc =
     (case store_log_size (host_store h) (raft89__to_public index) of
        None \<Rightarrow> (n\<lparr>faulted := True\<rparr>, Inl RAFT89_ERR_STORE)
      | Some sz \<Rightarrow> (n, Inr (raft89__sat_add acc sz)))"

fun entry_sum_from :: "host \<Rightarrow> raft89 \<Rightarrow> u64 \<Rightarrow> nat \<Rightarrow> ulong \<Rightarrow> raft89 \<times> (raft89_result + ulong)" where
  "entry_sum_from h n index 0 acc = (n, Inr acc)"
| "entry_sum_from h n index (Suc k) acc =
     bind_val (sum_one h n index acc) (\<lambda>n acc. entry_sum_from h n (index + 1) k acc)"

definition entry_sum :: "host \<Rightarrow> raft89 \<Rightarrow> u64 \<Rightarrow> u64 \<Rightarrow> raft89 \<times> (raft89_result + ulong)" where
  "entry_sum h n start count = entry_sum_from h n start (unat count) 0"

text \<open>
  One step of the shrinking loop: \<open>-1\<close> a store failure, \<open>1\<close> the batch fits, \<open>0\<close> one entry was
  dropped; with the count and the byte total it leaves.
\<close>

definition shrink_step :: "host \<Rightarrow> raft89 \<Rightarrow> u64 \<Rightarrow> u64 \<Rightarrow> raft89 \<times> int \<times> u64 \<times> ulong" where
  "shrink_step h n start count =
     (case entry_sum h n start count of
        (n, Inl rc) \<Rightarrow> (n, - 1, count, 0)
      | (n, Inr total_bytes) \<Rightarrow>
          if total_bytes \<le> max_append_bytes n then (n, 1, count, total_bytes)
          else (n, 0, raft89__u64_dec count, total_bytes))"

lemma shrink_step_zero:
  "shrink_step h n start count = (n', 0, count', t) \<Longrightarrow> count \<noteq> 0 \<and> count' = count - 1"
  by (auto simp: shrink_step_def entry_sum_def raft89__u64_dec_def split: prod.splits sum.splits if_splits)

function shrink_to_fit :: "host \<Rightarrow> raft89 \<Rightarrow> u64 \<Rightarrow> u64 \<Rightarrow> raft89 \<times> (raft89_result + u64 \<times> ulong)" where
  "shrink_to_fit h n start count =
     (case shrink_step h n start count of (n', status, count', total_bytes) \<Rightarrow>
        if status < 0 then (n', Inl RAFT89_ERR_STORE)
        else if status = 0 then shrink_to_fit h n' start count'
        else (n', Inr (count', total_bytes)))"
  by pat_completeness auto
termination
  by (relation "measure (\<lambda>(h, n, start, count). unat count)")
     (auto dest!: shrink_step_zero [OF sym] simp: unat_dec_less)

declare shrink_to_fit.simps [simp del]

definition plan_batch :: "host \<Rightarrow> raft89 \<Rightarrow> u64 \<Rightarrow> raft89 \<times> (raft89_result + u64 \<times> ulong)" where
  "plan_batch h n start =
     (if last_log_index n < start then (n, Inr (0, 0))
      else let avail = raft89__u64_inc (last_log_index n - start);
               avail = raft89__min_index avail (raft89__size_to_u64 (max_append_entries n)) in
        shrink_to_fit h n start avail)"

definition build_leader_ae :: "host \<Rightarrow> raft89 \<Rightarrow> raft89_id \<Rightarrow> raft89 \<times> (raft89_result + raft89_message)" where
  "build_leader_ae h n peer =
     (let idx = raft89__member_index n peer;
          next = next_index n ! idx;
          prev = raft89__u64_dec next in
      bind_val (raft89__log_term_at h n prev) (\<lambda>n prev_term.
      bind_val (plan_batch h n next) (\<lambda>n (count, total_bytes).
        (case out_entries_build h n next count total_bytes of (n, rc) \<Rightarrow>
         if rc \<noteq> RAFT89_OK then (n, Inl rc)
         else (case raft89__u64_to_size count of
           None \<Rightarrow> (n, Inl RAFT89_ERR_LIMIT)
         | Some count_size \<Rightarrow>
           (n, Inr \<lparr>msg_from = self n, msg_to = peer,
             msg_u = RAFT89_MSG_APPEND_ENTRIES
               \<lparr>aeq_term = raft89__to_public (current_term n),
                aeq_prev_log_index = raft89__to_public prev,
                aeq_prev_log_term = raft89__to_public prev_term,
                aeq_leader_commit = raft89__to_public (commit_index n),
                aeq_entries = out_entries n, aeq_entry_count = count_size\<rparr>\<rparr>))))))"

definition raft89__leader_send_to :: "host \<Rightarrow> raft89 \<Rightarrow> raft89_id \<Rightarrow> raft89 \<times> raft89_result" where
  "raft89__leader_send_to h n peer = bind_rc (build_leader_ae h n peer) raft89__emit_send"

section \<open>The commit rule\<close>

definition peer_replicated :: "raft89 \<Rightarrow> nat \<Rightarrow> u64 \<Rightarrow> bool" where
  "peer_replicated n i index =
     (if members n ! i = self n then False
      else if index \<le> match_index n ! i then True
      else False)"

definition count_replicated :: "raft89 \<Rightarrow> u64 \<Rightarrow> ulong" where
  "count_replicated n index =
     fold (\<lambda>i count. if peer_replicated n i index then count + 1 else count)
       [0..<unat (member_count n)] 1"

function majority_search :: "raft89 \<Rightarrow> u64 \<Rightarrow> u64 \<Rightarrow> ulong \<Rightarrow> u64" where
  "majority_search n index stop need =
     (if stop < index then
        if need \<le> count_replicated n index then index
        else majority_search n (raft89__u64_dec index) stop need
      else stop)"
  by pat_completeness auto
termination
  by (relation "measure (\<lambda>(n, index, stop, need). unat index)")
     (auto simp: raft89__u64_dec_def dec_less_of_less)

declare majority_search.simps [simp del]

definition raft89__leader_maybe_commit :: "host \<Rightarrow> raft89 \<Rightarrow> raft89 \<times> raft89_result" where
  "raft89__leader_maybe_commit h n =
     (let index = majority_search n (last_log_index n) (commit_index n) (raft89__quorum n) in
      if index \<le> commit_index n then (n, RAFT89_OK)
      else bind_rc (raft89__log_term_at h n index) (\<lambda>n trm.
        if trm \<noteq> current_term n then (n, RAFT89_OK)
        else raft89__advance_commit h n index RAFT89_STEP_NONE))"

definition broadcast_finish :: "host \<Rightarrow> raft89 \<Rightarrow> raft89 \<times> raft89_result" where
  "broadcast_finish h n = raft89__leader_maybe_commit h (n\<lparr>step := RAFT89_STEP_NONE\<rparr>)"

definition raft89__leader_broadcast_next :: "host \<Rightarrow> raft89 \<Rightarrow> raft89 \<times> raft89_result" where
  "raft89__leader_broadcast_next h n =
     (if peer_count n \<le> peer_cursor n then broadcast_finish h n
      else let peer = peers n ! unat (peer_cursor n) in
        raft89__leader_send_to h
          (n\<lparr>peer_cursor := peer_cursor n + 1, step := RAFT89_STEP_LEADER_BROADCAST\<rparr>) peer)"

definition raft89__leader_after_append :: "host \<Rightarrow> raft89 \<Rightarrow> raft89 \<times> raft89_result" where
  "raft89__leader_after_append h n =
     (case pending_entries n of
        None \<Rightarrow> (n\<lparr>step := RAFT89_STEP_NONE\<rparr>, RAFT89_OK)
      | Some es \<Rightarrow>
        let entry = es ! unat (pending_count n - 1);
            n = raft89__entries_clear
              (n\<lparr>last_log_index := raft89__from_public (entry_index entry),
                 last_log_term := raft89__from_public (entry_term entry)\<rparr>) in
        raft89__leader_broadcast_next h
          (n\<lparr>peer_cursor := 0, step := RAFT89_STEP_LEADER_BROADCAST\<rparr>))"

section \<open>AppendEntries responses\<close>

definition advance_next :: "raft89 \<Rightarrow> nat \<Rightarrow> u64 \<Rightarrow> raft89" where
  "advance_next n idx match = n\<lparr>next_index := (next_index n)[idx := raft89__u64_inc match]\<rparr>"

text \<open>One downward step: the position to continue at and whether the term was found.\<close>

definition leader_term_step :: "host \<Rightarrow> raft89 \<Rightarrow> u64 \<Rightarrow> u64 \<Rightarrow> raft89 \<times> (raft89_result + u64 \<times> bool)" where
  "leader_term_step h n trm index =
     bind_val (raft89__log_term_at h n index) (\<lambda>n got.
       if got = trm then (n, Inr (index, True))
       else (n, Inr (raft89__u64_dec index, False)))"

lemma leader_term_step_down:
  "leader_term_step h n trm index = (n', Inr (index', False)) \<Longrightarrow> index' = index - 1"
  by (auto simp: leader_term_step_def bind_val_def raft89__u64_dec_def split: sum.splits if_splits)

function leader_find_loop :: "host \<Rightarrow> raft89 \<Rightarrow> u64 \<Rightarrow> u64 \<Rightarrow> raft89 \<times> (raft89_result + u64 \<times> bool)" where
  "leader_find_loop h n trm index =
     (if 0 < index then
        (case leader_term_step h n trm index of
           (n', Inl rc) \<Rightarrow> (n', Inl rc)
         | (n', Inr (index', found)) \<Rightarrow>
             if found then (n', Inr (index', True)) else leader_find_loop h n' trm index')
      else (n, Inr (index, False)))"
  by pat_completeness auto
termination
  by (relation "measure (\<lambda>(h, n, trm, index). unat index)")
     (auto dest!: leader_term_step_down [OF sym] simp: dec_less_of_less)

declare leader_find_loop.simps [simp del]

definition leader_find_term :: "host \<Rightarrow> raft89 \<Rightarrow> u64 \<Rightarrow> u64 \<Rightarrow> raft89 \<times> (raft89_result + u64)" where
  "leader_find_term h n trm start =
     bind_val (leader_find_loop h n trm start) (\<lambda>n (index, found).
       (n, Inr (if found then raft89__u64_inc index else 0)))"

definition clamp_next :: "raft89 \<Rightarrow> u64 \<Rightarrow> u64" where
  "clamp_next n next =
     (let limit = raft89__u64_inc (last_log_index n) in
      if next < 1 then 1 else if limit < next then limit else next)"

definition handle_ae_failure :: "host \<Rightarrow> raft89 \<Rightarrow> nat \<Rightarrow> raft89_id \<Rightarrow> raft89_append_entries_response
    \<Rightarrow> raft89 \<times> raft89_result" where
  "handle_ae_failure h n idx sender r =
     (let conflict_trm = raft89__from_public (aer_conflict_term r);
          conflict_idx = raft89__from_public (aer_conflict_index r) in
      bind_rc
        (if raft89__u64_is_zero conflict_trm then (n, Inr conflict_idx)
         else bind_val (leader_find_term h n conflict_trm (raft89__u64_dec (next_index n ! idx))) (\<lambda>n next.
           (n, Inr (if raft89__u64_is_zero next then conflict_idx else next))))
        (\<lambda>n next. raft89__leader_send_to h
           (n\<lparr>next_index := (next_index n)[idx := clamp_next n next]\<rparr>) sender))"

section \<open>Proposals\<close>

definition command_at :: "raft89_command list \<Rightarrow> nat \<Rightarrow> raft89_command" where
  "command_at cs i = cs ! i"

definition commands_bad :: "raft89_command list \<Rightarrow> raft89_size \<Rightarrow> bool" where
  "commands_bad cs count =
     list_ex (\<lambda>i. command_size (command_at cs i) \<noteq> 0 \<and> command_data (command_at cs i) = None)
       [0..<unat count]"

definition commands_total :: "raft89_command list \<Rightarrow> raft89_size \<Rightarrow> ulong" where
  "commands_total cs count =
     fold (\<lambda>i acc. raft89__sat_add acc (command_size (command_at cs i))) [0..<unat count] 0"

definition command_fill :: "u64 \<Rightarrow> u64 \<Rightarrow> raft89_command \<Rightarrow> raft89_entry" where
  "command_fill index trm command =
     \<lparr>entry_term = raft89__to_public trm, entry_index = raft89__to_public index,
      entry_data = command_data command, entry_size = command_size command\<rparr>"

text \<open>The entries the proposal loop fills: consecutive indices from \<open>first\<close> on.\<close>

definition command_entries :: "u64 \<Rightarrow> u64 \<Rightarrow> raft89_command list \<Rightarrow> raft89_size \<Rightarrow> raft89_entry list" where
  "command_entries first trm cs count =
     map (\<lambda>i. command_fill (first + raft89__size_to_u64 (of_nat i)) trm (command_at cs i))
       [0..<unat count]"

text \<open>
  The return code, the node and the value stored through \<open>first_index\<close> (only on success; the
  pointer itself may be \<open>NULL\<close>, which changes nothing else).
\<close>

definition raft89_proposev :: "host \<Rightarrow> raft89 option \<Rightarrow> raft89_command list option \<Rightarrow> raft89_size
    \<Rightarrow> raft89 option \<times> raft89_result \<times> raft89_u64 option" where
  "raft89_proposev h node commands count =
     (case node of None \<Rightarrow> (None, RAFT89_ERR_ARG, None) | Some n \<Rightarrow>
     (case commands of None \<Rightarrow> (Some n, RAFT89_ERR_ARG, None) | Some cs \<Rightarrow>
      if count = 0 then (Some n, RAFT89_ERR_ARG, None)
      else if commands_bad cs count then (Some n, RAFT89_ERR_ARG, None)
      else if faulted n then (Some n, RAFT89_ERR_FAULTED, None)
      else if has_action n then (Some n, RAFT89_BUSY, None)
      else if role n \<noteq> RAFT89_LEADER then (Some n, RAFT89_NOT_LEADER, None)
      else if max_append_entries n < count then (Some n, RAFT89_ERR_LIMIT, None)
      else if ULONG_MAX div sizeof_entry < count then (Some n, RAFT89_ERR_LIMIT, None)
      else if max_append_bytes n < commands_total cs count then (Some n, RAFT89_ERR_LIMIT, None)
      else if RAFT89__U64_MAX - raft89__size_to_u64 count < last_log_index n
      then (Some (n\<lparr>faulted := True\<rparr>), RAFT89_ERR_LIMIT, None)
      else (case host_alloc h n of (n, ok) \<Rightarrow>
        if \<not> ok then (Some n, RAFT89_ERR_NOMEM, None)
        else let first = raft89__u64_inc (last_log_index n);
                 entries = command_entries first (current_term n) cs count in
          (case raft89__entries_stash h n (Some entries) count of (n, rc) \<Rightarrow>
           if rc \<noteq> RAFT89_OK then (Some n, rc, None)
           else (case raft89__action_begin n RAFT89_ACT_LOG_APPEND of (n, rc) \<Rightarrow>
             if rc \<noteq> RAFT89_OK then (Some (raft89__entries_clear n), rc, None)
             else (Some (n\<lparr>action := (action n)\<lparr>act_u :=
                              ActLogAppend (case pending_entries n of None \<Rightarrow> [] | Some es \<Rightarrow> es) count\<rparr>,
                           step := RAFT89_STEP_LEADER_APPEND\<rparr>),
                   RAFT89_OK, Some (raft89__to_public first)))))))"

definition raft89_propose :: "host \<Rightarrow> raft89 option \<Rightarrow> bytes option \<Rightarrow> raft89_size
    \<Rightarrow> raft89 option \<times> raft89_result \<times> raft89_u64 option" where
  "raft89_propose h node data sz =
     raft89_proposev h node (Some [\<lparr>command_data = data, command_size = sz\<rparr>]) 1"

end
