(* ===== verification/Raft_Election.thy ===== *)
theory Raft_Election
  imports Raft_Leader
begin

text \<open>
  Elections, votes and leadership: \<open>libraft89/src/raft89_election.c\<close>, with the handler for
  AppendEntries responses of \<open>raft89_leader.c\<close>, which may step down.
\<close>

definition raft89__log_is_fresh :: "u64 \<Rightarrow> u64 \<Rightarrow> u64 \<Rightarrow> u64 \<Rightarrow> bool" where
  "raft89__log_is_fresh cand_term cand_index our_term our_index =
     (if cand_term \<noteq> our_term then our_term < cand_term else our_index \<le> cand_index)"

definition reset_votes :: "raft89 \<Rightarrow> raft89" where
  "reset_votes n =
     (let cleared = fold (\<lambda>i vs. vs[i := 0]) [0..<unat (member_count n)] (votes n) in
      n\<lparr>votes := cleared[raft89__member_index n (self n) := 1]\<rparr>)"

definition reply_vote :: "raft89 \<Rightarrow> raft89_id \<Rightarrow> u64 \<Rightarrow> int \<Rightarrow> raft89 \<times> raft89_result" where
  "reply_vote n peer trm granted =
     raft89__emit_send n (raft89__build_vote_response (self n) peer (raft89__to_public trm) granted)"

definition persist_vote_then_reply :: "raft89 \<Rightarrow> raft89_id \<Rightarrow> u64 \<Rightarrow> raft89_id \<Rightarrow> int
    \<Rightarrow> raft89 \<times> raft89_result" where
  "persist_vote_then_reply n peer trm vote granted =
     (let n = n\<lparr>pending_msg := raft89__build_vote_response (self n) peer (raft89__to_public trm) granted\<rparr> in
      then_ok (raft89__emit_hard_state n trm vote)
        (\<lambda>n. (n\<lparr>step := RAFT89_STEP_VOTE_RESPONSE\<rparr>, RAFT89_OK)))"

definition raft89__step_down_new_term :: "host \<Rightarrow> raft89 \<Rightarrow> u64 \<Rightarrow> raft89 \<times> raft89_result" where
  "raft89__step_down_new_term h n trm =
     (let n = n\<lparr>role := RAFT89_FOLLOWER, leader_id := RAFT89_ID_NONE, election_elapsed := 0\<rparr>;
          n = set_timeout h n in
      raft89__emit_hard_state (n\<lparr>step := RAFT89_STEP_STEP_DOWN\<rparr>) trm RAFT89_ID_NONE)"

definition raft89__start_election :: "host \<Rightarrow> raft89 \<Rightarrow> raft89 \<times> raft89_result" where
  "raft89__start_election h n =
     (if current_term n = RAFT89__U64_MAX then (n, RAFT89_ERR_LIMIT)
      else let trm = raft89__u64_inc (current_term n);
               n = n\<lparr>role := RAFT89_CANDIDATE, leader_id := RAFT89_ID_NONE, election_elapsed := 0\<rparr>;
               n = set_timeout h n;
               n = (reset_votes n)\<lparr>votes_granted := 1\<rparr> in
        then_ok (raft89__emit_hard_state n trm (self n))
          (\<lambda>n. (n\<lparr>peer_cursor := 0, step := RAFT89_STEP_ELECTION_BROADCAST\<rparr>, RAFT89_OK)))"

definition init_peer_state :: "raft89 \<Rightarrow> nat \<Rightarrow> raft89" where
  "init_peer_state n i =
     n\<lparr>next_index := (next_index n)[i := raft89__u64_inc (last_log_index n)],
       match_index := (match_index n)[i := 0]\<rparr>"

definition raft89__become_leader :: "host \<Rightarrow> raft89 \<Rightarrow> raft89 \<times> raft89_result" where
  "raft89__become_leader h n =
     (if last_log_index n = RAFT89__U64_MAX then (n\<lparr>faulted := True\<rparr>, RAFT89_ERR_LIMIT)
      else let n = n\<lparr>role := RAFT89_LEADER, leader_id := self n, heartbeat_elapsed := 0,
                     election_elapsed := 0\<rparr>;
               n = fold (\<lambda>i n. init_peer_state n i) [0..<unat (member_count n)] n in
        raft89__leader_broadcast_next h
          (n\<lparr>peer_cursor := 0, step := RAFT89_STEP_LEADER_BROADCAST\<rparr>))"

definition become_leader_after_quorum :: "host \<Rightarrow> raft89 \<Rightarrow> raft89 \<times> raft89_result" where
  "become_leader_after_quorum h n = raft89__become_leader h (n\<lparr>step := RAFT89_STEP_NONE\<rparr>)"

definition raft89__election_send_next :: "host \<Rightarrow> raft89 \<Rightarrow> raft89 \<times> raft89_result" where
  "raft89__election_send_next h n =
     (if raft89__quorum n \<le> votes_granted n then become_leader_after_quorum h n
      else if peer_count n \<le> peer_cursor n then (n\<lparr>step := RAFT89_STEP_NONE\<rparr>, RAFT89_OK)
      else let peer = peers n ! unat (peer_cursor n);
               n = n\<lparr>peer_cursor := peer_cursor n + 1\<rparr>;
               msg = raft89__build_request_vote n peer in
        raft89__emit_send (n\<lparr>step := RAFT89_STEP_ELECTION_BROADCAST\<rparr>) msg)"

definition fresh_vote :: "raft89_id \<Rightarrow> bool \<Rightarrow> raft89_id" where
  "fresh_vote sender fresh = (if fresh then sender else RAFT89_ID_NONE)"

definition vote_new_term :: "host \<Rightarrow> raft89 \<Rightarrow> raft89_id \<Rightarrow> raft89_request_vote \<Rightarrow> bool
    \<Rightarrow> raft89 \<times> raft89_result" where
  "vote_new_term h n sender rv fresh =
     (let trm = raft89__from_public (rv_term rv);
          vote = fresh_vote sender fresh;
          n = n\<lparr>role := RAFT89_FOLLOWER, leader_id := RAFT89_ID_NONE, election_elapsed := 0\<rparr>;
          n = set_timeout h n in
      persist_vote_then_reply n sender trm vote (if fresh then 1 else 0))"

definition raft89__recv_request_vote :: "host \<Rightarrow> raft89 \<Rightarrow> raft89_id \<Rightarrow> raft89_request_vote
    \<Rightarrow> raft89 \<times> raft89_result" where
  "raft89__recv_request_vote h n sender rv =
     (let trm = raft89__from_public (rv_term rv) in
      if trm < current_term n then reply_vote n sender (current_term n) 0
      else let fresh = raft89__log_is_fresh
                 (raft89__from_public (rv_last_log_term rv))
                 (raft89__from_public (rv_last_log_index rv))
                 (last_log_term n) (last_log_index n) in
        if current_term n < trm then vote_new_term h n sender rv fresh
        else if voted_for n = sender then reply_vote n sender trm 1
        else if voted_for n \<noteq> RAFT89_ID_NONE then reply_vote n sender trm 0
        else if role n = RAFT89_LEADER then reply_vote n sender trm 0
        else if \<not> fresh then reply_vote n sender trm 0
        else persist_vote_then_reply n sender trm sender 1)"

definition raft89__recv_vote_response :: "host \<Rightarrow> raft89 \<Rightarrow> raft89_id \<Rightarrow> raft89_request_vote_response
    \<Rightarrow> raft89 \<times> raft89_result" where
  "raft89__recv_vote_response h n sender r =
     (let trm = raft89__from_public (rvr_term r) in
      if trm < current_term n then (n, RAFT89_OK)
      else if current_term n < trm then raft89__step_down_new_term h n trm
      else if role n \<noteq> RAFT89_CANDIDATE then (n, RAFT89_OK)
      else if rvr_vote_granted r = 0 then (n, RAFT89_OK)
      else let index = raft89__member_index n sender in
        if votes n ! index \<noteq> 0 then (n, RAFT89_OK)
        else let n = n\<lparr>votes := (votes n)[index := 1], votes_granted := votes_granted n + 1\<rparr> in
          if votes_granted n < raft89__quorum n then (n, RAFT89_OK)
          else raft89__become_leader h n)"

definition raft89__recv_ae_response :: "host \<Rightarrow> raft89 \<Rightarrow> raft89_id \<Rightarrow> raft89_append_entries_response
    \<Rightarrow> raft89 \<times> raft89_result" where
  "raft89__recv_ae_response h n sender r =
     (let trm = raft89__from_public (aer_term r) in
      if trm < current_term n then (n, RAFT89_OK)
      else if current_term n < trm then raft89__step_down_new_term h n trm
      else if role n \<noteq> RAFT89_LEADER then (n, RAFT89_OK)
      else let idx = raft89__member_index n sender in
        if aer_success r = 0 then handle_ae_failure h n idx sender r
        else let match = raft89__from_public (aer_match_index r) in
          if match \<le> match_index n ! idx then (n, RAFT89_OK)
          else if last_log_index n < match then (n, RAFT89_OK)
          else let n = n\<lparr>match_index := (match_index n)[idx := match]\<rparr>;
                   n = (if match < RAFT89__U64_MAX then advance_next n idx match else n) in
            raft89__leader_maybe_commit h n)"

end
