(* ===== verification/Raft_Replication.thy ===== *)
theory Raft_Replication
  imports Raft_Election
begin

text \<open>
  AppendEntries handling on the follower: the consistency check, conflict repair, commit
  advancement and the reply, \<open>libraft89/src/raft89_replication.c\<close>.
\<close>

section \<open>Replies\<close>

definition send_ae_failure :: "raft89 \<Rightarrow> raft89_id \<Rightarrow> u64 \<Rightarrow> raft89 \<times> raft89_result" where
  "send_ae_failure n leader trm =
     raft89__emit_send n
       (raft89__build_ae_response (self n) leader (raft89__to_public trm) 0 RAFT89_INDEX_NONE
          RAFT89_TERM_NONE (raft89__to_public (raft89__u64_inc (last_log_index n))))"

definition ae_stash :: "host \<Rightarrow> raft89 \<Rightarrow> raft89_id \<Rightarrow> raft89_append_entries \<Rightarrow> raft89 \<times> raft89_result" where
  "ae_stash h n sender ae =
     (let n = n\<lparr>ae_prev_index := raft89__from_public (aeq_prev_log_index ae),
                ae_prev_term := raft89__from_public (aeq_prev_log_term ae),
                ae_leader_commit := raft89__from_public (aeq_leader_commit ae),
                ae_leader_id := sender,
                ae_match_index := raft89__from_public (aeq_prev_log_index ae),
                ae_truncate_first := 0, ae_conflict_term := 0, ae_conflict_index := 0,
                ae_append_offset := 0, ae_reply_success := False\<rparr> in
      raft89__entries_stash h n (aeq_entries ae) (aeq_entry_count ae))"

text \<open>\<open>1\<close> the prefix matches, \<open>0\<close> it does not, \<open>-1\<close> the store failed.\<close>

definition ae_prefix_matches :: "host \<Rightarrow> raft89 \<Rightarrow> raft89 \<times> int" where
  "ae_prefix_matches h n =
     (if raft89__u64_is_zero (ae_prev_index n) then (n, 1)
      else if last_log_index n < ae_prev_index n then (n, 0)
      else case store_log_term (host_store h) (raft89__to_public (ae_prev_index n)) of
        None \<Rightarrow> (n\<lparr>faulted := True\<rparr>, - 1)
      | Some t \<Rightarrow> if raft89__from_public t = ae_prev_term n then (n, 1) else (n, 0))"

definition mark_empty_log :: "raft89 \<Rightarrow> raft89" where
  "mark_empty_log n = n\<lparr>last_log_index := 0, last_log_term := 0\<rparr>"

definition ae_update_last :: "host \<Rightarrow> raft89 \<Rightarrow> u64 \<Rightarrow> raft89 \<times> raft89_result" where
  "ae_update_last h n index =
     (if raft89__u64_is_zero index then (mark_empty_log n, RAFT89_OK)
      else case store_log_term (host_store h) (raft89__to_public index) of
        None \<Rightarrow> (n\<lparr>faulted := True\<rparr>, RAFT89_ERR_STORE)
      | Some t \<Rightarrow> (n\<lparr>last_log_index := index, last_log_term := raft89__from_public t\<rparr>, RAFT89_OK))"

definition raft89__ae_send_reply :: "raft89 \<Rightarrow> raft89 \<times> raft89_result" where
  "raft89__ae_send_reply n =
     (let n = n\<lparr>step := RAFT89_STEP_NONE\<rparr> in
      raft89__emit_send n
        (raft89__build_ae_response (self n) (ae_leader_id n) (raft89__to_public (current_term n))
           (if ae_reply_success n then 1 else 0) (raft89__to_public (ae_match_index n))
           (raft89__to_public (ae_conflict_term n)) (raft89__to_public (ae_conflict_index n))))"

definition ae_finish :: "host \<Rightarrow> raft89 \<Rightarrow> raft89 \<times> raft89_result" where
  "ae_finish h n =
     (let new_commit = ae_leader_commit n;
          new_commit = raft89__min_index new_commit (last_log_index n);
          new_commit = raft89__min_index new_commit (ae_match_index n);
          n = raft89__entries_clear n in
      then_ok (raft89__advance_commit h n new_commit RAFT89_STEP_AE_REPLY)
        (\<lambda>n. if step n = RAFT89_STEP_APPLY then (n, RAFT89_OK) else raft89__ae_send_reply n))"

section \<open>Log repair\<close>

definition emit_log_truncate :: "raft89 \<Rightarrow> u64 \<Rightarrow> raft89 \<times> raft89_result" where
  "emit_log_truncate n first =
     then_ok (raft89__action_begin n RAFT89_ACT_LOG_TRUNCATE)
       (\<lambda>n. (n\<lparr>action := (action n)\<lparr>act_u := ActLogTruncate (raft89__to_public first)\<rparr>\<rparr>, RAFT89_OK))"

text \<open>The array behind \<open>pending_entries\<close>, empty when the pointer is \<open>NULL\<close>.\<close>

definition pending_array :: "raft89 \<Rightarrow> raft89_entry list" where
  "pending_array n = (case pending_entries n of None \<Rightarrow> [] | Some es \<Rightarrow> es)"

definition ae_emit_append :: "host \<Rightarrow> raft89 \<Rightarrow> raft89 \<times> raft89_result" where
  "ae_emit_append h n =
     (let count = pending_count n - ae_append_offset n in
      if count = 0 then ae_finish h n
      else then_ok (raft89__action_begin n RAFT89_ACT_LOG_APPEND)
        (\<lambda>n. (n\<lparr>action := (action n)\<lparr>act_u :=
                   ActLogAppend (drop (unat (ae_append_offset n)) (pending_array n)) count\<rparr>,
                 step := RAFT89_STEP_AE_APPEND\<rparr>, RAFT89_OK)))"

definition mark_missing_suffix :: "raft89 \<Rightarrow> nat \<Rightarrow> raft89" where
  "mark_missing_suffix n i = n\<lparr>ae_truncate_first := 0, ae_append_offset := of_nat i\<rparr>"

definition ae_scan_one :: "host \<Rightarrow> raft89 \<Rightarrow> nat \<Rightarrow> raft89 \<times> int" where
  "ae_scan_one h n i =
     (let index = ae_prev_index n + 1 + raft89__size_to_u64 (of_nat i) in
      if last_log_index n < index then (mark_missing_suffix n i, 1)
      else case store_log_term (host_store h) (raft89__to_public index) of
        None \<Rightarrow> (n\<lparr>faulted := True\<rparr>, - 1)
      | Some t \<Rightarrow>
          if raft89__from_public t = raft89__from_public (entry_term (pending_array n ! i)) then (n, 0)
          else (n\<lparr>ae_truncate_first := index, ae_append_offset := of_nat i\<rparr>, 1))"

text \<open>The scanning loop from position \<open>i\<close> with \<open>k\<close> entries left.\<close>

fun ae_scan_from :: "host \<Rightarrow> raft89 \<Rightarrow> nat \<Rightarrow> nat \<Rightarrow> raft89 \<times> int" where
  "ae_scan_from h n i 0 = (n, 0)"
| "ae_scan_from h n i (Suc k) =
     (case ae_scan_one h n i of (n', result) \<Rightarrow>
        if result \<noteq> 0 then (n', result) else ae_scan_from h n' (Suc i) k)"

definition ae_scan :: "host \<Rightarrow> raft89 \<Rightarrow> raft89 \<times> int" where
  "ae_scan h n = ae_scan_from h n 0 (unat (pending_count n))"

definition ae_apply_entries :: "host \<Rightarrow> raft89 \<Rightarrow> raft89 \<times> raft89_result" where
  "ae_apply_entries h n =
     (case ae_scan h n of (n, scan) \<Rightarrow>
      if scan < 0 then (n, RAFT89_ERR_STORE)
      else if scan = 0 then ae_finish h n
      else if raft89__u64_is_zero (ae_truncate_first n) then ae_emit_append h n
      else if ae_truncate_first n \<le> commit_index n then (n, RAFT89_ERR_PROTOCOL)
      else emit_log_truncate (n\<lparr>step := RAFT89_STEP_AE_TRUNCATE\<rparr>) (ae_truncate_first n))"

section \<open>Conflict hints\<close>

text \<open>One backward step: the position and \<open>1\<close> found, \<open>0\<close> continue, \<open>-1\<close> store failure.\<close>

definition conflict_walk :: "host \<Rightarrow> raft89 \<Rightarrow> u64 \<Rightarrow> raft89 \<times> u64 \<times> int" where
  "conflict_walk h n first =
     (case store_log_term (host_store h) (raft89__to_public (raft89__u64_dec first)) of
        None \<Rightarrow> (n\<lparr>faulted := True\<rparr>, first, - 1)
      | Some t \<Rightarrow>
          if raft89__from_public t \<noteq> ae_conflict_term n then (n, first, 1)
          else (n, raft89__u64_dec first, 0))"

text \<open>One loop iteration; the last component is the result that ends the loop when not \<open>0\<close>.\<close>

definition conflict_search :: "host \<Rightarrow> raft89 \<Rightarrow> u64 \<Rightarrow> int \<Rightarrow> raft89 \<times> u64 \<times> int \<times> int" where
  "conflict_search h n first stp =
     (if stp \<noteq> 0 then (n, first, stp, 1)
      else case conflict_walk h n first of (n, first, stp) \<Rightarrow>
        if stp < 0 then (n, first, stp, - 1) else (n, first, stp, 0))"

lemma conflict_search_continues:
  "conflict_search h n first stp = (n', first', stp', 0) \<Longrightarrow>
     stp = 0 \<and> (stp' = 0 \<and> first' = first - 1 \<or> stp' = 1 \<and> first' = first)"
  by (auto simp: conflict_search_def conflict_walk_def raft89__u64_dec_def
           split: if_splits option.splits)

function conflict_loop :: "host \<Rightarrow> raft89 \<Rightarrow> u64 \<Rightarrow> int \<Rightarrow> raft89 \<times> u64 \<times> int" where
  "conflict_loop h n first stp =
     (if 1 < first then
        (case conflict_search h n first stp of (n', first', stp', result) \<Rightarrow>
           if result \<noteq> 0 then (n', first', stp') else conflict_loop h n' first' stp')
      else (n, first, stp))"
  by pat_completeness auto
termination
  by (relation "measures [\<lambda>(h, n, first, stp). unat first, \<lambda>(h, n, first, stp). if stp = 0 then 1 else 0]")
     (auto dest!: conflict_search_continues [OF sym] simp: dec_less_of_less)

declare conflict_loop.simps [simp del]

definition conflict_short_log :: "raft89 \<Rightarrow> raft89 \<times> raft89_result" where
  "conflict_short_log n =
     (n\<lparr>ae_conflict_term := 0, ae_conflict_index := raft89__u64_inc (last_log_index n)\<rparr>, RAFT89_OK)"

definition conflict_hints :: "host \<Rightarrow> raft89 \<Rightarrow> raft89 \<times> raft89_result" where
  "conflict_hints h n =
     (if last_log_index n < ae_prev_index n then conflict_short_log n
      else case store_log_term (host_store h) (raft89__to_public (ae_prev_index n)) of
        None \<Rightarrow> (n\<lparr>faulted := True\<rparr>, RAFT89_ERR_STORE)
      | Some t \<Rightarrow>
        (case conflict_loop h (n\<lparr>ae_conflict_term := raft89__from_public t\<rparr>) (ae_prev_index n) 0 of
           (n, first, stp) \<Rightarrow>
             if stp < 0 then (n, RAFT89_ERR_STORE)
             else (n\<lparr>ae_conflict_index := first\<rparr>, RAFT89_OK)))"

definition reply_prefix_failure :: "host \<Rightarrow> raft89 \<Rightarrow> raft89 \<times> raft89_result" where
  "reply_prefix_failure h n =
     then_ok (conflict_hints h (n\<lparr>ae_reply_success := False, ae_match_index := 0\<rparr>))
       raft89__ae_send_reply"

section \<open>The handler\<close>

definition ae_process :: "host \<Rightarrow> raft89 \<Rightarrow> raft89 \<times> raft89_result" where
  "ae_process h n =
     (let n = n\<lparr>role := RAFT89_FOLLOWER, leader_id := ae_leader_id n, election_elapsed := 0\<rparr>;
          n = set_timeout h n in
      (case ae_prefix_matches h n of (n, matched) \<Rightarrow>
       if matched < 0 then (n, RAFT89_ERR_STORE)
       else if matched = 0 then reply_prefix_failure h n
       else ae_apply_entries h
         (n\<lparr>ae_reply_success := True,
            ae_match_index := ae_prev_index n + raft89__size_to_u64 (pending_count n)\<rparr>)))"

definition raft89__ae_continue :: "host \<Rightarrow> raft89 \<Rightarrow> raft89 \<times> raft89_result" where
  "raft89__ae_continue h n = ae_process h n"

definition raft89__ae_after_truncate :: "host \<Rightarrow> raft89 \<Rightarrow> raft89 \<times> raft89_result" where
  "raft89__ae_after_truncate h n =
     then_ok (ae_update_last h n (raft89__u64_dec (ae_truncate_first n))) (ae_emit_append h)"

definition raft89__ae_after_append :: "host \<Rightarrow> raft89 \<Rightarrow> raft89 \<times> raft89_result" where
  "raft89__ae_after_append h n =
     then_ok (ae_update_last h n (ae_prev_index n + raft89__size_to_u64 (pending_count n))) (ae_finish h)"

definition start_ae_hard_state :: "raft89 \<Rightarrow> u64 \<Rightarrow> raft89 \<times> raft89_result" where
  "start_ae_hard_state n trm =
     raft89__emit_hard_state
       (n\<lparr>role := RAFT89_FOLLOWER, leader_id := RAFT89_ID_NONE, step := RAFT89_STEP_AE_HARD_STATE\<rparr>)
       trm RAFT89_ID_NONE"

definition raft89__recv_append_entries :: "host \<Rightarrow> raft89 \<Rightarrow> raft89_id \<Rightarrow> raft89_append_entries
    \<Rightarrow> raft89 \<times> raft89_result" where
  "raft89__recv_append_entries h n sender ae =
     (let trm = raft89__from_public (aeq_term ae) in
      if trm < current_term n then send_ae_failure n sender (current_term n)
      else if trm = current_term n \<and> role n = RAFT89_LEADER then (n, RAFT89_ERR_PROTOCOL)
      else then_ok (ae_stash h n sender ae) (\<lambda>n.
        if current_term n < trm then start_ae_hard_state n trm
        else ae_process h n))"

end
