(* ===== verification/Raft_Api.thy ===== *)
theory Raft_Api
  imports Raft_Replication
begin

text \<open>
  The event entry points of \<open>libraft89\<close>: the continuation dispatcher and acknowledgement of
  \<open>raft89_action.c\<close> (with \<open>raft89__apply_ack\<close> of \<open>raft89_log.c\<close>, which resumes the interrupted
  operation), the tick of \<open>raft89_timer.c\<close> and the receive dispatch of \<open>raft89_message.c\<close>.
\<close>

function raft89__resume :: "host \<Rightarrow> raft89 \<Rightarrow> raft89 \<times> raft89_result"
  and raft89__apply_ack :: "host \<Rightarrow> raft89 \<Rightarrow> raft89 \<times> raft89_result" where
  "raft89__resume h n =
     (if step n = RAFT89_STEP_ELECTION_BROADCAST then raft89__election_send_next h n
      else if step n = RAFT89_STEP_VOTE_RESPONSE then vote_response_send n
      else if step n = RAFT89_STEP_LEADER_BROADCAST then raft89__leader_broadcast_next h n
      else if step n = RAFT89_STEP_LEADER_APPEND then raft89__leader_after_append h n
      else if step n = RAFT89_STEP_AE_HARD_STATE then raft89__ae_continue h n
      else if step n = RAFT89_STEP_AE_TRUNCATE then raft89__ae_after_truncate h n
      else if step n = RAFT89_STEP_AE_APPEND then raft89__ae_after_append h n
      else if step n = RAFT89_STEP_AE_REPLY then raft89__ae_send_reply n
      else if step n = RAFT89_STEP_APPLY then raft89__apply_ack h n
      else (n\<lparr>step := RAFT89_STEP_NONE\<rparr>, RAFT89_OK))"
| "raft89__apply_ack h n =
     (let n = apply_buffer_discard n;
          n = n\<lparr>applied_index := raft89__u64_inc (applied_index n)\<rparr>;
          after = after_apply n in
      (case raft89__apply_next h (n\<lparr>step := RAFT89_STEP_NONE\<rparr>) of (n, rc) \<Rightarrow>
       if rc \<noteq> RAFT89_OK then (n, rc)
       else if step n = RAFT89_STEP_APPLY then (n, RAFT89_OK)
       else raft89__resume h (n\<lparr>step := after, after_apply := RAFT89_STEP_NONE\<rparr>)))"
  by pat_completeness auto

text \<open>
  The dispatcher and the application acknowledgement call one another. The recursion ends because
  the continuation remembered for after the application is consumed when it is resumed.
\<close>

termination
  by (relation "measure (\<lambda>x. case x of
        Inl (h, n) \<Rightarrow> (if step n = RAFT89_STEP_APPLY
                       then 2 + (if after_apply n = RAFT89_STEP_APPLY then 2 else 0) else (0 :: nat))
      | Inr (h, n) \<Rightarrow> 1 + (if after_apply n = RAFT89_STEP_APPLY then 2 else 0))")
     (auto simp: apply_buffer_discard_def)

declare raft89__resume.simps [simp del] raft89__apply_ack.simps [simp del]

definition raft89_action_done :: "host \<Rightarrow> raft89 option \<Rightarrow> ulong \<Rightarrow> raft89_action_result
    \<Rightarrow> raft89 option \<times> raft89_result" where
  "raft89_action_done h node ident result =
     (case node of None \<Rightarrow> (None, RAFT89_ERR_ARG) | Some n \<Rightarrow>
      if faulted n then (Some n, RAFT89_ERR_FAULTED)
      else if \<not> has_action n then (Some n, RAFT89_ERR_STATE)
      else if ident \<noteq> act_id (action n) then (Some n, RAFT89_ERR_STATE)
      else if \<not> raft89__action_result_valid (action n) result then (Some n, RAFT89_ERR_STATE)
      else if result = RAFT89_ACTION_FATAL then (Some (n\<lparr>faulted := True\<rparr>), RAFT89_OK)
      else let n = (case act_u (action n) of ActHardState _ \<Rightarrow> raft89__apply_hard_state n | _ \<Rightarrow> n) in
        apfst Some (raft89__resume h (n\<lparr>has_action := False\<rparr>)))"

definition raft89__tick_leader :: "host \<Rightarrow> raft89 \<Rightarrow> raft89 \<times> raft89_result" where
  "raft89__tick_leader h n =
     (if heartbeat_elapsed n < heartbeat_interval n then (n, RAFT89_OK)
      else raft89__leader_broadcast_next h
        (n\<lparr>heartbeat_elapsed := 0, peer_cursor := 0, step := RAFT89_STEP_LEADER_BROADCAST\<rparr>))"

definition raft89__tick_follower :: "host \<Rightarrow> raft89 \<Rightarrow> raft89 \<times> raft89_result" where
  "raft89__tick_follower h n =
     (if election_elapsed n < election_timeout n then (n, RAFT89_OK)
      else raft89__start_election h n)"

definition raft89_tick :: "host \<Rightarrow> raft89 option \<Rightarrow> raft89_time \<Rightarrow> raft89 option \<times> raft89_result" where
  "raft89_tick h node elapsed =
     (case node of None \<Rightarrow> (None, RAFT89_ERR_ARG) | Some n \<Rightarrow>
      if faulted n then (Some n, RAFT89_ERR_FAULTED)
      else if has_action n then (Some n, RAFT89_BUSY)
      else let n = raft89__advance_clocks n elapsed in
        apfst Some
          (if role n = RAFT89_LEADER then raft89__tick_leader h n else raft89__tick_follower h n))"

definition raft89_recv :: "host \<Rightarrow> raft89 option \<Rightarrow> raft89_message option
    \<Rightarrow> raft89 option \<times> raft89_result" where
  "raft89_recv h node message =
     (case node of None \<Rightarrow> (None, RAFT89_ERR_ARG) | Some n \<Rightarrow>
     (case message of None \<Rightarrow> (Some n, RAFT89_ERR_ARG) | Some msg \<Rightarrow>
      if faulted n then (Some n, RAFT89_ERR_FAULTED)
      else if has_action n then (Some n, RAFT89_BUSY)
      else if \<not> raft89__msg_envelope_valid n msg then (Some n, RAFT89_ERR_PROTOCOL)
      else apfst Some
        (case msg_u msg of
           RAFT89_MSG_REQUEST_VOTE rv \<Rightarrow> raft89__recv_request_vote h n (msg_from msg) rv
         | RAFT89_MSG_REQUEST_VOTE_RESPONSE r \<Rightarrow> raft89__recv_vote_response h n (msg_from msg) r
         | RAFT89_MSG_APPEND_ENTRIES ae \<Rightarrow> raft89__recv_append_entries h n (msg_from msg) ae
         | RAFT89_MSG_APPEND_ENTRIES_RESPONSE r \<Rightarrow> raft89__recv_ae_response h n (msg_from msg) r
         | RAFT89_MSG_OTHER _ \<Rightarrow> (n, RAFT89_ERR_STATE))))"

end
