(* ===== verification/Raft_Frame.thy ===== *)
theory Raft_Frame
  imports Raft_Api
begin

text \<open>
  What the library calls leave alone. \<open>vis\<close> erases from a node the fields that no protocol
  decision reads (clocks, buffers, counters of draws and allocations, the fault flag); the
  storage-reading helpers of the leader and the follower leave the visible part as it was.
  \<open>emit\<close> is the node with a new outstanding action. \<open>stops\<close> and \<open>clean\<close> describe the error
  paths of these helpers: out of memory, or a node that is faulted.
\<close>

definition vis :: "raft89 \<Rightarrow> raft89" where
  "vis n = n\<lparr>election_timeout := 0, election_elapsed := 0, heartbeat_elapsed := 0, faulted := False,
     apply_buffer := None, apply_size := 0, out_entries := None, out_count := 0,
     rand_seq := 0, alloc_seq := 0\<rparr>"

definition emit :: "raft89 \<Rightarrow> raft89_action_u \<Rightarrow> raft89" where
  "emit n u = n\<lparr>action_seq := action_seq n + 1,
                action := \<lparr>act_id = action_seq n + 1, act_u = u\<rparr>, has_action := True\<rparr>"

definition stops :: "raft89 \<times> raft89_result \<Rightarrow> bool" where
  "stops r \<longleftrightarrow> snd r = RAFT89_ERR_NOMEM \<or> faulted (fst r) \<and> snd r \<noteq> RAFT89_OK"

definition clean :: "raft89 \<times> (raft89_result + 'a) \<Rightarrow> bool" where
  "clean r \<longleftrightarrow> (\<forall>rc. snd r = Inl rc \<longrightarrow> stops (fst r, rc))"

section \<open>The visible part\<close>

lemma vis_sel [simp]:
  "self (vis n) = self n"
  "role (vis n) = role n"
  "current_term (vis n) = current_term n"
  "voted_for (vis n) = voted_for n"
  "last_log_index (vis n) = last_log_index n"
  "last_log_term (vis n) = last_log_term n"
  "commit_index (vis n) = commit_index n"
  "applied_index (vis n) = applied_index n"
  "members (vis n) = members n"
  "member_count (vis n) = member_count n"
  "peers (vis n) = peers n"
  "peer_count (vis n) = peer_count n"
  "votes (vis n) = votes n"
  "votes_granted (vis n) = votes_granted n"
  "next_index (vis n) = next_index n"
  "match_index (vis n) = match_index n"
  "max_append_entries (vis n) = max_append_entries n"
  "max_append_bytes (vis n) = max_append_bytes n"
  "action_seq (vis n) = action_seq n"
  "has_action (vis n) = has_action n"
  "action (vis n) = action n"
  "step (vis n) = step n"
  "pending_msg (vis n) = pending_msg n"
  "pending_entries (vis n) = pending_entries n"
  "pending_count (vis n) = pending_count n"
  "ae_prev_index (vis n) = ae_prev_index n"
  "after_apply (vis n) = after_apply n"
  by (simp_all add: vis_def)

lemma visD:
  assumes "vis a = vis b"
  shows "self a = self b"
    "role a = role b"
    "current_term a = current_term b"
    "voted_for a = voted_for b"
    "last_log_index a = last_log_index b"
    "last_log_term a = last_log_term b"
    "commit_index a = commit_index b"
    "applied_index a = applied_index b"
    "members a = members b"
    "member_count a = member_count b"
    "peers a = peers b"
    "peer_count a = peer_count b"
    "votes a = votes b"
    "votes_granted a = votes_granted b"
    "next_index a = next_index b"
    "match_index a = match_index b"
    "max_append_entries a = max_append_entries b"
    "max_append_bytes a = max_append_bytes b"
    "action_seq a = action_seq b"
    "has_action a = has_action b"
    "action a = action b"
    "step a = step b"
    "pending_msg a = pending_msg b"
    "pending_entries a = pending_entries b"
    "pending_count a = pending_count b"
    "ae_prev_index a = ae_prev_index b"
    "after_apply a = after_apply b"
  using arg_cong [OF assms, of self] arg_cong [OF assms, of role]
    arg_cong [OF assms, of current_term] arg_cong [OF assms, of voted_for]
    arg_cong [OF assms, of last_log_index] arg_cong [OF assms, of last_log_term]
    arg_cong [OF assms, of commit_index] arg_cong [OF assms, of applied_index]
    arg_cong [OF assms, of members] arg_cong [OF assms, of member_count]
    arg_cong [OF assms, of peers] arg_cong [OF assms, of peer_count]
    arg_cong [OF assms, of votes] arg_cong [OF assms, of votes_granted]
    arg_cong [OF assms, of next_index] arg_cong [OF assms, of match_index]
    arg_cong [OF assms, of max_append_entries] arg_cong [OF assms, of max_append_bytes]
    arg_cong [OF assms, of action_seq] arg_cong [OF assms, of has_action]
    arg_cong [OF assms, of action] arg_cong [OF assms, of step]
    arg_cong [OF assms, of pending_msg] arg_cong [OF assms, of pending_entries]
    arg_cong [OF assms, of pending_count] arg_cong [OF assms, of ae_prev_index]
    arg_cong [OF assms, of after_apply]
  by simp_all

lemma vis_upd [simp]:
  "vis (n\<lparr>election_timeout := x0\<rparr>) = vis n"
  "vis (n\<lparr>election_elapsed := x1\<rparr>) = vis n"
  "vis (n\<lparr>heartbeat_elapsed := x2\<rparr>) = vis n"
  "vis (n\<lparr>faulted := x3\<rparr>) = vis n"
  "vis (n\<lparr>apply_buffer := x4\<rparr>) = vis n"
  "vis (n\<lparr>apply_size := x5\<rparr>) = vis n"
  "vis (n\<lparr>out_entries := x6\<rparr>) = vis n"
  "vis (n\<lparr>out_count := x7\<rparr>) = vis n"
  "vis (n\<lparr>rand_seq := x8\<rparr>) = vis n"
  "vis (n\<lparr>alloc_seq := x9\<rparr>) = vis n"
  by (simp_all add: vis_def)

section \<open>The action slot in normal form\<close>

lemma emit_sel [simp]:
  "has_action (emit n u)" "act_u (action (emit n u)) = u" "act_id (action (emit n u)) = action_seq n + 1"
  "action_seq (emit n u) = action_seq n + 1"
  by (simp_all add: emit_def)

lemma action_begin_eq:
  "raft89__action_begin n ty =
     (if action_seq n = - 1 then (n\<lparr>faulted := True\<rparr>, RAFT89_ERR_LIMIT)
      else (emit n (action_zero ty), RAFT89_OK))"
  by (simp add: raft89__action_begin_def emit_def)

lemma emit_send_eq:
  "raft89__emit_send n m =
     (if action_seq n = - 1 then (n\<lparr>faulted := True\<rparr>, RAFT89_ERR_LIMIT)
      else (emit n (ActSend m), RAFT89_OK))"
  by (simp add: raft89__emit_send_def action_begin_eq emit_def)

lemma emit_hard_state_eq:
  "raft89__emit_hard_state n t v =
     (if action_seq n = - 1 then (n\<lparr>faulted := True\<rparr>, RAFT89_ERR_LIMIT)
      else (emit n (ActHardState \<lparr>hs_current_term = raft89__to_public t, hs_voted_for = v\<rparr>), RAFT89_OK))"
  by (simp add: raft89__emit_hard_state_def action_begin_eq emit_def)

lemma emit_log_truncate_eq:
  "emit_log_truncate n first =
     (if action_seq n = - 1 then (n\<lparr>faulted := True\<rparr>, RAFT89_ERR_LIMIT)
      else (emit n (ActLogTruncate (raft89__to_public first)), RAFT89_OK))"
  by (simp add: emit_log_truncate_def action_begin_eq emit_def)

section \<open>Calls the protocol does not see\<close>

lemma vis_set_timeout [simp]: "vis (set_timeout h n) = vis n"
  by (simp add: set_timeout_def raft89__pick_timeout_def Let_def)

lemma vis_host_alloc [simp]: "vis (fst (host_alloc h n)) = vis n"
  by (simp add: host_alloc_def)

lemma vis_log_term_at [simp]: "vis (fst (raft89__log_term_at h n i)) = vis n"
  by (simp add: raft89__log_term_at_def split: option.split)

lemma vis_buffer_alloc [simp]: "vis (fst (raft89__entries_buffer_alloc h n c t)) = vis n"
  by (simp add: raft89__entries_buffer_alloc_def Let_def)

lemma vis_out_entry_fill [simp]: "vis (fst (out_entry_fill h n i off)) = vis n"
  by (simp add: out_entry_fill_def bind_val_def Let_def split: option.split sum.split)

lemma vis_out_entries_fill [simp]: "vis (fst (out_entries_fill h n i k off)) = vis n"
  by (induction k arbitrary: n i off) (simp_all add: bind_val_def case_prod_beta split: sum.split)

lemma vis_entry_sum_from [simp]: "vis (fst (entry_sum_from h n i k a)) = vis n"
  by (induction k arbitrary: n i a)
     (simp_all add: bind_val_def sum_one_def split: sum.split option.split)

lemma vis_entry_sum [simp]: "vis (fst (entry_sum h n i c)) = vis n"
  by (simp add: entry_sum_def)

lemma vis_shrink_step [simp]: "vis (fst (shrink_step h n i c)) = vis n"
  by (simp add: shrink_step_def case_prod_beta split: sum.split)

lemma vis_shrink_to_fit [simp]: "vis (fst (shrink_to_fit h n i c)) = vis n"
proof (induction h n i c rule: shrink_to_fit.induct)
  case (1 h n i c)
  then show ?case
    by (cases "shrink_step h n i c")
       (use vis_shrink_step [of h n i c] in \<open>auto simp: shrink_to_fit.simps [of h n i c]\<close>)
qed

lemma vis_plan_batch [simp]: "vis (fst (plan_batch h n i)) = vis n"
  by (simp add: plan_batch_def Let_def)

lemma vis_out_entries_build [simp]: "vis (fst (out_entries_build h n i c t)) = vis n"
  by (simp add: out_entries_build_def out_entries_clear_def Let_def bind_rc_def case_prod_beta
           split: sum.split option.split)

lemma vis_build_leader_ae [simp]: "vis (fst (build_leader_ae h n p)) = vis n"
  by (simp add: build_leader_ae_def Let_def bind_val_def case_prod_beta split: sum.split option.split)

lemma vis_leader_find_loop [simp]: "vis (fst (leader_find_loop h n t i)) = vis n"
proof (induction h n t i rule: leader_find_loop.induct)
  case (1 h n t i)
  have "vis (fst (leader_term_step h n t i)) = vis n"
    by (simp add: leader_term_step_def bind_val_def split: sum.split)
  with 1 show ?case
    by (cases "leader_term_step h n t i")
       (auto simp: leader_find_loop.simps [of h n t i] split: sum.split)
qed

lemma vis_leader_find_term [simp]: "vis (fst (leader_find_term h n t i)) = vis n"
  by (simp add: leader_find_term_def bind_val_def case_prod_beta split: sum.split)

lemma vis_load_entry_meta [simp]: "vis (fst (load_entry_meta h n e)) = vis n"
  by (simp add: load_entry_meta_def split: option.split)

lemma vis_load_entry_payload [simp]: "vis (fst (load_entry_payload h n e)) = vis n"
  by (simp add: load_entry_payload_def host_alloc_def store_fault_def split: option.split)

lemma vis_conflict_search [simp]: "vis (fst (conflict_search h n f st)) = vis n"
  by (simp add: conflict_search_def conflict_walk_def split: option.split)

lemma vis_conflict_loop [simp]: "vis (fst (conflict_loop h n f st)) = vis n"
proof (induction h n f st rule: conflict_loop.induct)
  case (1 h n f st)
  then show ?case
    by (cases "conflict_search h n f st")
       (use vis_conflict_search [of h n f st] in \<open>auto simp: conflict_loop.simps [of h n f st]\<close>)
qed

lemma vis_ae_prefix_matches [simp]: "vis (fst (ae_prefix_matches h n)) = vis n"
  by (simp add: ae_prefix_matches_def split: option.split)

lemma vis_push:
  "vis (n\<lparr>role := x0\<rparr>) = (vis n)\<lparr>role := x0\<rparr>"
  "vis (n\<lparr>leader_id := x1\<rparr>) = (vis n)\<lparr>leader_id := x1\<rparr>"
  "vis (n\<lparr>last_log_index := x2\<rparr>) = (vis n)\<lparr>last_log_index := x2\<rparr>"
  "vis (n\<lparr>last_log_term := x3\<rparr>) = (vis n)\<lparr>last_log_term := x3\<rparr>"
  "vis (n\<lparr>commit_index := x4\<rparr>) = (vis n)\<lparr>commit_index := x4\<rparr>"
  "vis (n\<lparr>applied_index := x5\<rparr>) = (vis n)\<lparr>applied_index := x5\<rparr>"
  "vis (n\<lparr>votes := x6\<rparr>) = (vis n)\<lparr>votes := x6\<rparr>"
  "vis (n\<lparr>votes_granted := x7\<rparr>) = (vis n)\<lparr>votes_granted := x7\<rparr>"
  "vis (n\<lparr>next_index := x8\<rparr>) = (vis n)\<lparr>next_index := x8\<rparr>"
  "vis (n\<lparr>match_index := x9\<rparr>) = (vis n)\<lparr>match_index := x9\<rparr>"
  "vis (n\<lparr>has_action := x10\<rparr>) = (vis n)\<lparr>has_action := x10\<rparr>"
  "vis (n\<lparr>action := x11\<rparr>) = (vis n)\<lparr>action := x11\<rparr>"
  "vis (n\<lparr>action_seq := x12\<rparr>) = (vis n)\<lparr>action_seq := x12\<rparr>"
  "vis (n\<lparr>step := x13\<rparr>) = (vis n)\<lparr>step := x13\<rparr>"
  "vis (n\<lparr>peer_cursor := x14\<rparr>) = (vis n)\<lparr>peer_cursor := x14\<rparr>"
  "vis (n\<lparr>pending_msg := x15\<rparr>) = (vis n)\<lparr>pending_msg := x15\<rparr>"
  "vis (n\<lparr>pending_entries := x16\<rparr>) = (vis n)\<lparr>pending_entries := x16\<rparr>"
  "vis (n\<lparr>pending_count := x17\<rparr>) = (vis n)\<lparr>pending_count := x17\<rparr>"
  "vis (n\<lparr>ae_prev_index := x18\<rparr>) = (vis n)\<lparr>ae_prev_index := x18\<rparr>"
  "vis (n\<lparr>ae_prev_term := x19\<rparr>) = (vis n)\<lparr>ae_prev_term := x19\<rparr>"
  "vis (n\<lparr>ae_leader_commit := x20\<rparr>) = (vis n)\<lparr>ae_leader_commit := x20\<rparr>"
  "vis (n\<lparr>ae_leader_id := x21\<rparr>) = (vis n)\<lparr>ae_leader_id := x21\<rparr>"
  "vis (n\<lparr>ae_match_index := x22\<rparr>) = (vis n)\<lparr>ae_match_index := x22\<rparr>"
  "vis (n\<lparr>ae_truncate_first := x23\<rparr>) = (vis n)\<lparr>ae_truncate_first := x23\<rparr>"
  "vis (n\<lparr>ae_conflict_term := x24\<rparr>) = (vis n)\<lparr>ae_conflict_term := x24\<rparr>"
  "vis (n\<lparr>ae_conflict_index := x25\<rparr>) = (vis n)\<lparr>ae_conflict_index := x25\<rparr>"
  "vis (n\<lparr>ae_append_offset := x26\<rparr>) = (vis n)\<lparr>ae_append_offset := x26\<rparr>"
  "vis (n\<lparr>ae_reply_success := x27\<rparr>) = (vis n)\<lparr>ae_reply_success := x27\<rparr>"
  "vis (n\<lparr>after_apply := x28\<rparr>) = (vis n)\<lparr>after_apply := x28\<rparr>"
  "vis (n\<lparr>current_term := x29\<rparr>) = (vis n)\<lparr>current_term := x29\<rparr>"
  "vis (n\<lparr>voted_for := x30\<rparr>) = (vis n)\<lparr>voted_for := x30\<rparr>"
  by (simp_all add: vis_def)

lemma vis_emit: "vis (emit n u) = emit (vis n) u"
  by (simp add: emit_def vis_push)

section \<open>Error paths\<close>

lemma clean_intro [intro!]:
  "clean (n, Inr x)" "stops (n, rc) \<Longrightarrow> clean (n, Inl rc)"
  by (simp_all add: clean_def)

lemma clean_bind_val:
  "clean r \<Longrightarrow> (\<And>s x. clean (k s x)) \<Longrightarrow> clean (bind_val r k)"
  by (auto simp: clean_def bind_val_def split: sum.splits)

lemma clean_log_term_at: "clean (raft89__log_term_at h n i)"
  by (simp add: clean_def stops_def raft89__log_term_at_def split: option.split)

lemma clean_out_entry_fill: "clean (out_entry_fill h n i off)"
  unfolding out_entry_fill_def
  by (rule clean_bind_val [OF clean_log_term_at])
     (simp add: clean_def stops_def Let_def split: option.split)

lemma clean_out_entries_fill: "clean (out_entries_fill h n i k off)"
  by (induction k arbitrary: n i off)
     (auto intro!: clean_bind_val clean_out_entry_fill simp: case_prod_beta)

lemma u64_to_size_eq [simp]: "raft89__u64_to_size v = Some v"
  by (simp add: raft89__u64_to_size_def)

lemma stops_bind_rc:
  "clean r \<Longrightarrow> (\<And>s x. snd (k s x) = RAFT89_OK \<or> stops (k s x)) \<Longrightarrow>
     snd (bind_rc r k) = RAFT89_OK \<or> stops (bind_rc r k)"
  by (auto simp: clean_def bind_rc_def split: sum.splits)

lemma stops_out_entries_build:
  "snd (out_entries_build h n i c t) \<noteq> RAFT89_OK \<Longrightarrow> stops (out_entries_build h n i c t)"
proof -
  assume err: "snd (out_entries_build h n i c t) \<noteq> RAFT89_OK"
  let ?a = "raft89__entries_buffer_alloc h (out_entries_clear n) c t"
  have "snd (bind_rc (out_entries_fill h (fst ?a) i (unat c) (c * sizeof_entry))
          (\<lambda>n (es, offset). (n\<lparr>out_entries := Some es, out_count := c\<rparr>, RAFT89_OK))) = RAFT89_OK
      \<or> stops (bind_rc (out_entries_fill h (fst ?a) i (unat c) (c * sizeof_entry))
          (\<lambda>n (es, offset). (n\<lparr>out_entries := Some es, out_count := c\<rparr>, RAFT89_OK)))"
    by (rule stops_bind_rc [OF clean_out_entries_fill]) (simp add: case_prod_beta)
  with err show ?thesis
    by (simp add: out_entries_build_def Let_def case_prod_beta stops_def split: if_splits)
qed

lemma entry_sum_from_error:
  "snd (entry_sum_from h n i k a) = Inl rc \<Longrightarrow> faulted (fst (entry_sum_from h n i k a))"
  by (induction k arbitrary: n i a)
     (auto simp: sum_one_def bind_val_def split: option.splits)

lemma clean_shrink_to_fit: "clean (shrink_to_fit h n i c)"
proof (induction h n i c rule: shrink_to_fit.induct)
  case (1 h n i c)
  then show ?case
    using entry_sum_from_error [of h n i "unat c" 0]
    by (cases "entry_sum h n i c")
       (auto simp: shrink_to_fit.simps [of h n i c] shrink_step_def entry_sum_def stops_def split: sum.splits)
qed

lemma clean_plan_batch: "clean (plan_batch h n i)"
  by (auto simp: plan_batch_def Let_def intro: clean_shrink_to_fit)

lemma clean_build_leader_ae: "clean (build_leader_ae h n p)"
  unfolding build_leader_ae_def Let_def
  by (intro clean_bind_val clean_log_term_at clean_plan_batch)
     (auto simp add: case_prod_beta intro: stops_out_entries_build)

lemma build_leader_ae_msg:
  "snd (build_leader_ae h n p) = Inr m \<Longrightarrow>
     msg_from m = self n \<and> msg_to m = p \<and>
     (\<exists>ae. msg_u m = RAFT89_MSG_APPEND_ENTRIES ae \<and> aeq_term ae = raft89__to_public (current_term n)
        \<and> aeq_leader_commit ae = raft89__to_public (commit_index n))"
proof -
  assume m: "snd (build_leader_ae h n p) = Inr m"
  then have "msg_from m = self (fst (build_leader_ae h n p)) \<and> msg_to m = p \<and>
     (\<exists>ae. msg_u m = RAFT89_MSG_APPEND_ENTRIES ae
        \<and> aeq_term ae = raft89__to_public (current_term (fst (build_leader_ae h n p)))
        \<and> aeq_leader_commit ae = raft89__to_public (commit_index (fst (build_leader_ae h n p))))"
    by (auto simp: build_leader_ae_def Let_def bind_val_def case_prod_beta
          split: sum.splits option.splits if_splits)
  then show ?thesis using visD [OF vis_build_leader_ae [of h n p]] by simp
qed

end
