(* ===== verification/Raft_Quiet.thy ===== *)
theory Raft_Quiet
  imports Raft_Frame
begin

text \<open>
  Replication never votes. \<open>quiet n n'\<close> relates a node to one that differs from it in nothing an
  election depends on: same hard state and ballots, the role kept or given up, the action slot
  kept or filled with an action that is neither a hard state nor a granted vote, and the
  continuation not turned into one that sends a vote or counts ballots. Every operation of
  \<open>raft89_log.c\<close>, \<open>raft89_leader.c\<close> and \<open>raft89_replication.c\<close>, and the resumption of every
  continuation but the two election ones, is quiet.

  \<open>outcome n P r\<close> describes a call that either stops on an error path without a visible change or
  succeeds with one new action in the slot that satisfies \<open>P\<close>.
\<close>

definition outcome :: "raft89 \<Rightarrow> (raft89_action_u \<Rightarrow> bool) \<Rightarrow> raft89 \<times> raft89_result \<Rightarrow> bool" where
  "outcome n P r \<longleftrightarrow> stops r \<and> vis (fst r) = vis n
     \<or> snd r = RAFT89_OK \<and> (\<exists>u. P u \<and> vis (fst r) = vis (emit n u))"

definition grants :: "raft89_message \<Rightarrow> bool" where
  "grants m \<longleftrightarrow> (case msg_u m of RAFT89_MSG_REQUEST_VOTE_RESPONSE r \<Rightarrow> rvr_vote_granted r \<noteq> 0 | _ \<Rightarrow> False)"

fun plain :: "raft89_action_u \<Rightarrow> bool" where
  "plain (ActSend m) = (\<not> grants m)"
| "plain (ActHardState _) = False"
| "plain _ = True"

text \<open>The continuations that neither send a vote nor count ballots.\<close>

definition silent_step :: "raft89_step \<Rightarrow> bool" where
  "silent_step s \<longleftrightarrow> s \<noteq> RAFT89_STEP_VOTE_RESPONSE \<and> s \<noteq> RAFT89_STEP_ELECTION_BROADCAST"

text \<open>What may be resumed once every committed entry is applied.\<close>

definition settled :: "raft89 \<Rightarrow> bool" where
  "settled n \<longleftrightarrow> after_apply n = RAFT89_STEP_NONE \<or> after_apply n = RAFT89_STEP_AE_REPLY"

definition quiet :: "raft89 \<Rightarrow> raft89 \<Rightarrow> bool" where
  "quiet n n' \<longleftrightarrow>
     self n' = self n \<and> members n' = members n \<and> member_count n' = member_count n
   \<and> current_term n' = current_term n \<and> voted_for n' = voted_for n
   \<and> votes n' = votes n \<and> votes_granted n' = votes_granted n
   \<and> (role n' = role n \<or> role n' = RAFT89_FOLLOWER)
   \<and> (has_action n' = has_action n \<and> act_u (action n') = act_u (action n)
      \<or> has_action n' \<and> plain (act_u (action n')))
   \<and> (step n' = step n \<or> silent_step (step n'))
   \<and> (settled n \<longrightarrow> settled n')"

lemma silent_step_simps [simp]:
  "silent_step RAFT89_STEP_NONE" "silent_step RAFT89_STEP_STEP_DOWN" "silent_step RAFT89_STEP_AE_HARD_STATE"
  "silent_step RAFT89_STEP_AE_TRUNCATE" "silent_step RAFT89_STEP_AE_APPEND" "silent_step RAFT89_STEP_AE_REPLY"
  "silent_step RAFT89_STEP_APPLY" "silent_step RAFT89_STEP_LEADER_APPEND"
  "silent_step RAFT89_STEP_LEADER_BROADCAST"
  "\<not> silent_step RAFT89_STEP_VOTE_RESPONSE" "\<not> silent_step RAFT89_STEP_ELECTION_BROADCAST"
  by (simp_all add: silent_step_def)

lemma outcome_emit_send: "outcome n (\<lambda>u. u = ActSend m) (raft89__emit_send n m)"
  by (simp add: outcome_def emit_send_eq stops_def)

lemma outcome_leader_send_to:
  "outcome n (\<lambda>u. \<exists>m ae. u = ActSend m \<and> msg_from m = self n \<and> msg_to m = p
       \<and> msg_u m = RAFT89_MSG_APPEND_ENTRIES ae \<and> aeq_term ae = raft89__to_public (current_term n)
       \<and> aeq_leader_commit ae = raft89__to_public (commit_index n))
     (raft89__leader_send_to h n p)"
proof (cases "snd (build_leader_ae h n p)")
  case (Inl rc)
  then show ?thesis
    using clean_build_leader_ae [of h n p]
    by (simp add: raft89__leader_send_to_def bind_rc_def outcome_def clean_def)
next
  case (Inr m)
  then show ?thesis
    using build_leader_ae_msg [OF Inr] visD [OF vis_build_leader_ae [of h n p]]
    by (auto simp: raft89__leader_send_to_def bind_rc_def outcome_def emit_send_eq stops_def vis_emit)
qed

lemma outcome_bind_rc:
  assumes "clean r" and "vis (fst r) = vis n"
    and "\<And>s x. vis s = vis n \<Longrightarrow> snd r = Inr x \<Longrightarrow> outcome n P (k s x)"
  shows "outcome n P (bind_rc r k)"
  using assms by (cases "snd r") (simp_all add: bind_rc_def outcome_def clean_def)

lemma outcome_emit_next_apply:
  "outcome n (\<lambda>u. \<exists>e. u = ActApply e \<and> entry_index e = raft89__to_public (applied_index n + 1))
     (emit_next_apply h n)" (is "outcome n ?P _")
proof -
  have act: "outcome n ?P (case raft89__action_begin s RAFT89_ACT_APPLY of (n, rc) \<Rightarrow>
         if rc \<noteq> RAFT89_OK then (apply_buffer_discard n, rc)
         else (n\<lparr>action := (action n)\<lparr>act_u := ActApply e\<rparr>\<rparr>, RAFT89_OK))"
    if v: "vis s = vis n" and "entry_index e = raft89__to_public (applied_index n + 1)" for s e
  proof -
    have "vis ((emit s (action_zero RAFT89_ACT_APPLY))
            \<lparr>action := (action (emit s (action_zero RAFT89_ACT_APPLY)))\<lparr>act_u := ActApply e\<rparr>\<rparr>) = vis (emit n (ActApply e))"
      using v visD(19) [OF v] by (simp add: vis_push emit_def)
    then show ?thesis
      using that by (auto simp: outcome_def action_begin_eq apply_buffer_discard_def stops_def)
  qed
  have meta: "clean (load_entry_meta h n e)"
    and index: "snd (load_entry_meta h n e) = Inr e' \<Longrightarrow> entry_index e' = entry_index e" for e e'
    by (auto simp: load_entry_meta_def stops_def split: option.splits)
  have pay: "clean (load_entry_payload h s e)" for s e
    by (auto simp: load_entry_payload_def host_alloc_def store_fault_def stops_def split: option.split)
  have index': "snd (load_entry_payload h s e) = Inr e' \<Longrightarrow> entry_index e' = entry_index e" for s e e'
    by (auto simp: load_entry_payload_def case_prod_beta split: if_splits option.splits)
  show ?thesis
    unfolding emit_next_apply_def Let_def raft89__u64_inc_def
    by (intro outcome_bind_rc meta pay act) (auto dest!: index index')
qed

lemma apply_next_cases:
  obtains (idle) "commit_index n \<le> applied_index n" "raft89__apply_next h n = (n, RAFT89_OK)"
  | (stop) "applied_index n < commit_index n" "stops (raft89__apply_next h n)"
      "vis (fst (raft89__apply_next h n)) = vis n"
  | (apply_one) e where "applied_index n < commit_index n" "snd (raft89__apply_next h n) = RAFT89_OK"
      "entry_index e = raft89__to_public (applied_index n + 1)"
      "vis (fst (raft89__apply_next h n)) = vis ((emit n (ActApply e))\<lparr>step := RAFT89_STEP_APPLY\<rparr>)"
proof (cases "commit_index n \<le> applied_index n")
  case True
  then show ?thesis by (intro idle) (simp_all add: raft89__apply_next_def)
next
  case False
  then have eq: "raft89__apply_next h n =
      then_ok (emit_next_apply h n) (\<lambda>n. (n\<lparr>step := RAFT89_STEP_APPLY\<rparr>, RAFT89_OK))"
    and lt: "applied_index n < commit_index n"
    by (simp_all add: raft89__apply_next_def)
  show ?thesis
  proof (cases "snd (emit_next_apply h n) = RAFT89_OK")
    case True
    then obtain e where "entry_index e = raft89__to_public (applied_index n + 1)"
      "vis (fst (emit_next_apply h n)) = vis (emit n (ActApply e))"
      using outcome_emit_next_apply [of n h] by (auto simp: outcome_def stops_def)
    with True lt show ?thesis by (intro apply_one) (simp_all add: eq seq_ok_def vis_push)
  next
    case False
    then show ?thesis
      using outcome_emit_next_apply [of n h] lt
      by (intro stop) (auto simp: eq outcome_def seq_ok_def)
  qed
qed

section \<open>Quiet\<close>

lemma quiet_refl [simp, intro]: "quiet n n"
  by (simp add: quiet_def)

lemma quiet_trans [trans]: "quiet a b \<Longrightarrow> quiet b c \<Longrightarrow> quiet a c"
  unfolding quiet_def by (elim conjE, intro conjI) auto

lemma quiet_vis: "quiet (vis a) (vis b) = quiet a b"
  by (simp add: quiet_def settled_def)

lemma quiet_cong: "vis a = vis a' \<Longrightarrow> vis b = vis b' \<Longrightarrow> quiet a b = quiet a' b'"
  by (metis quiet_vis)

lemma quiet_emit: "plain u \<Longrightarrow> quiet n (emit n u)"
  by (simp add: quiet_def settled_def emit_def)

lemma quiet_outcome:
  "outcome n P r \<Longrightarrow> (\<And>u. P u \<Longrightarrow> plain u) \<Longrightarrow> quiet n (fst r)"
  unfolding outcome_def using quiet_cong quiet_emit by (metis quiet_refl)

lemma quiet_seq_ok: "quiet n (fst r) \<Longrightarrow> (\<And>s. quiet s (fst (k s))) \<Longrightarrow> quiet n (fst (seq_ok ok r k))"
  by (auto simp: seq_ok_def intro: quiet_trans)

lemma quiet_bind_rc: "quiet n (fst r) \<Longrightarrow> (\<And>s x. quiet s (fst (k s x))) \<Longrightarrow> quiet n (fst (bind_rc r k))"
  by (auto simp: bind_rc_def intro: quiet_trans split: sum.split)

lemma quiet_silent: "vis n' = vis n \<Longrightarrow> quiet n n'"
  using quiet_cong quiet_refl by metis

lemma quiet_leader_send_to: "quiet n (fst (raft89__leader_send_to h n p))"
  by (rule quiet_outcome [OF outcome_leader_send_to]) (auto simp: grants_def)

lemma quiet_apply_next: "quiet n (fst (raft89__apply_next h n))"
proof (cases rule: apply_next_cases [of n h])
  case (apply_one e)
  have "quiet n ((emit n (ActApply e))\<lparr>step := RAFT89_STEP_APPLY\<rparr>)"
    by (simp add: quiet_def settled_def emit_def)
  then show ?thesis using apply_one(4) quiet_cong by metis
qed (simp_all add: quiet_silent)

text \<open>Fields that no vote depends on may change on either side.\<close>

lemma quiet_upd [simp]:
  "quiet a (b\<lparr>commit_index := x0\<rparr>) = quiet a b" "quiet (b\<lparr>commit_index := x0\<rparr>) a = quiet b a"
  "quiet a (b\<lparr>applied_index := x2\<rparr>) = quiet a b" "quiet (b\<lparr>applied_index := x2\<rparr>) a = quiet b a"
  "quiet a (b\<lparr>peer_cursor := x3\<rparr>) = quiet a b" "quiet (b\<lparr>peer_cursor := x3\<rparr>) a = quiet b a"
  "quiet a (b\<lparr>leader_id := x4\<rparr>) = quiet a b" "quiet (b\<lparr>leader_id := x4\<rparr>) a = quiet b a"
  "quiet a (b\<lparr>last_log_index := x5\<rparr>) = quiet a b" "quiet (b\<lparr>last_log_index := x5\<rparr>) a = quiet b a"
  "quiet a (b\<lparr>last_log_term := x6\<rparr>) = quiet a b" "quiet (b\<lparr>last_log_term := x6\<rparr>) a = quiet b a"
  "quiet a (b\<lparr>next_index := x7\<rparr>) = quiet a b" "quiet (b\<lparr>next_index := x7\<rparr>) a = quiet b a"
  "quiet a (b\<lparr>match_index := x8\<rparr>) = quiet a b" "quiet (b\<lparr>match_index := x8\<rparr>) a = quiet b a"
  "quiet a (b\<lparr>pending_entries := x9\<rparr>) = quiet a b" "quiet (b\<lparr>pending_entries := x9\<rparr>) a = quiet b a"
  "quiet a (b\<lparr>pending_count := x10\<rparr>) = quiet a b" "quiet (b\<lparr>pending_count := x10\<rparr>) a = quiet b a"
  "quiet a (b\<lparr>ae_prev_index := x11\<rparr>) = quiet a b" "quiet (b\<lparr>ae_prev_index := x11\<rparr>) a = quiet b a"
  "quiet a (b\<lparr>ae_prev_term := x12\<rparr>) = quiet a b" "quiet (b\<lparr>ae_prev_term := x12\<rparr>) a = quiet b a"
  "quiet a (b\<lparr>ae_leader_commit := x13\<rparr>) = quiet a b" "quiet (b\<lparr>ae_leader_commit := x13\<rparr>) a = quiet b a"
  "quiet a (b\<lparr>ae_leader_id := x14\<rparr>) = quiet a b" "quiet (b\<lparr>ae_leader_id := x14\<rparr>) a = quiet b a"
  "quiet a (b\<lparr>ae_match_index := x15\<rparr>) = quiet a b" "quiet (b\<lparr>ae_match_index := x15\<rparr>) a = quiet b a"
  "quiet a (b\<lparr>ae_truncate_first := x16\<rparr>) = quiet a b" "quiet (b\<lparr>ae_truncate_first := x16\<rparr>) a = quiet b a"
  "quiet a (b\<lparr>ae_conflict_term := x17\<rparr>) = quiet a b" "quiet (b\<lparr>ae_conflict_term := x17\<rparr>) a = quiet b a"
  "quiet a (b\<lparr>ae_conflict_index := x18\<rparr>) = quiet a b" "quiet (b\<lparr>ae_conflict_index := x18\<rparr>) a = quiet b a"
  "quiet a (b\<lparr>ae_append_offset := x19\<rparr>) = quiet a b" "quiet (b\<lparr>ae_append_offset := x19\<rparr>) a = quiet b a"
  "quiet a (b\<lparr>ae_reply_success := x20\<rparr>) = quiet a b" "quiet (b\<lparr>ae_reply_success := x20\<rparr>) a = quiet b a"
  "quiet a (b\<lparr>election_elapsed := x21\<rparr>) = quiet a b" "quiet (b\<lparr>election_elapsed := x21\<rparr>) a = quiet b a"
  "quiet a (b\<lparr>election_timeout := x22\<rparr>) = quiet a b" "quiet (b\<lparr>election_timeout := x22\<rparr>) a = quiet b a"
  "quiet a (b\<lparr>heartbeat_elapsed := x23\<rparr>) = quiet a b" "quiet (b\<lparr>heartbeat_elapsed := x23\<rparr>) a = quiet b a"
  "quiet a (b\<lparr>faulted := x24\<rparr>) = quiet a b" "quiet (b\<lparr>faulted := x24\<rparr>) a = quiet b a"
  "quiet a (b\<lparr>rand_seq := x25\<rparr>) = quiet a b" "quiet (b\<lparr>rand_seq := x25\<rparr>) a = quiet b a"
  "quiet a (b\<lparr>alloc_seq := x26\<rparr>) = quiet a b" "quiet (b\<lparr>alloc_seq := x26\<rparr>) a = quiet b a"
  "quiet a (b\<lparr>out_entries := x27\<rparr>) = quiet a b" "quiet (b\<lparr>out_entries := x27\<rparr>) a = quiet b a"
  "quiet a (b\<lparr>out_count := x28\<rparr>) = quiet a b" "quiet (b\<lparr>out_count := x28\<rparr>) a = quiet b a"
  "quiet a (b\<lparr>apply_buffer := x29\<rparr>) = quiet a b" "quiet (b\<lparr>apply_buffer := x29\<rparr>) a = quiet b a"
  "quiet a (b\<lparr>apply_size := x30\<rparr>) = quiet a b" "quiet (b\<lparr>apply_size := x30\<rparr>) a = quiet b a"
  by (simp_all add: quiet_def settled_def)

lemma quiet_step_right: "silent_step s \<Longrightarrow> quiet a b \<Longrightarrow> quiet a (b\<lparr>step := s\<rparr>)"
  by (simp add: quiet_def settled_def)

lemma quiet_step_left: "silent_step s \<Longrightarrow> quiet (a\<lparr>step := s\<rparr>) b \<Longrightarrow> quiet a b"
  by (auto simp: quiet_def settled_def)

lemma quiet_role_left: "quiet (a\<lparr>role := RAFT89_FOLLOWER\<rparr>) b \<Longrightarrow> quiet a b"
  by (auto simp: quiet_def settled_def)

lemma quiet_after_left:
  "after = RAFT89_STEP_NONE \<or> after = RAFT89_STEP_AE_REPLY \<Longrightarrow> quiet (a\<lparr>after_apply := after\<rparr>) b \<Longrightarrow> quiet a b"
  by (auto simp: quiet_def settled_def)

lemma quiet_advance_commit:
  "after = RAFT89_STEP_NONE \<or> after = RAFT89_STEP_AE_REPLY \<Longrightarrow> quiet n (fst (raft89__advance_commit h n c after))"
  using quiet_after_left [OF _ quiet_apply_next, of after "n\<lparr>commit_index := c\<rparr>" h]
  by (simp add: raft89__advance_commit_def)

lemma quiet_leader_maybe_commit: "quiet n (fst (raft89__leader_maybe_commit h n))"
  unfolding raft89__leader_maybe_commit_def Let_def
  by (auto intro!: quiet_bind_rc quiet_advance_commit) (rule quiet_silent, simp)

lemma quiet_leader_broadcast_next: "quiet n (fst (raft89__leader_broadcast_next h n))"
  using quiet_step_left [OF _ quiet_leader_maybe_commit, of RAFT89_STEP_NONE n h]
    quiet_step_left [OF _ quiet_leader_send_to, of RAFT89_STEP_LEADER_BROADCAST "n\<lparr>peer_cursor := peer_cursor n + 1\<rparr>" h]
  by (simp add: raft89__leader_broadcast_next_def broadcast_finish_def Let_def)

lemma quiet_leader_after_append: "quiet n (fst (raft89__leader_after_append h n))"
proof (cases "pending_entries n")
  case None
  then show ?thesis by (simp add: raft89__leader_after_append_def quiet_step_right)
next
  case (Some es)
  let ?n = "n\<lparr>last_log_index := x, last_log_term := y, pending_entries := None, pending_count := 0, peer_cursor := 0\<rparr>"
  have "quiet n (fst (raft89__leader_broadcast_next h (n\<lparr>last_log_index := x, last_log_term := y,
          pending_entries := None, pending_count := 0, peer_cursor := 0, step := RAFT89_STEP_LEADER_BROADCAST\<rparr>)))" for x y
    using quiet_step_left [OF _ quiet_leader_broadcast_next, of RAFT89_STEP_LEADER_BROADCAST
        "n\<lparr>last_log_index := x, last_log_term := y, pending_entries := None, pending_count := 0, peer_cursor := 0\<rparr>" h]
    by simp
  with Some show ?thesis
    by (simp add: raft89__leader_after_append_def Let_def raft89__entries_clear_def)
qed

lemma quiet_emit_send: "\<not> grants m \<Longrightarrow> quiet n (fst (raft89__emit_send n m))"
  by (rule quiet_outcome [OF outcome_emit_send]) simp

lemma quiet_ae_send_reply: "quiet n (fst (raft89__ae_send_reply n))"
  unfolding raft89__ae_send_reply_def Let_def
  by (rule quiet_step_left [OF _ quiet_emit_send]) (simp_all add: grants_def raft89__build_ae_response_def)

lemma quiet_ae_finish: "quiet n (fst (ae_finish h n))"
proof -
  have "quiet n (fst (raft89__advance_commit h (raft89__entries_clear n) c RAFT89_STEP_AE_REPLY))" for c
    using quiet_advance_commit [of RAFT89_STEP_AE_REPLY "raft89__entries_clear n"] by (simp add: raft89__entries_clear_def)
  then show ?thesis
    by (auto simp: ae_finish_def Let_def intro!: quiet_seq_ok quiet_ae_send_reply)
qed

lemma quiet_ae_emit_append: "quiet n (fst (ae_emit_append h n))"
  by (auto simp: ae_emit_append_def Let_def quiet_ae_finish action_begin_eq)
     (simp add: quiet_def settled_def emit_def)

lemma quiet_ae_scan_from: "quiet n (fst (ae_scan_from h n i k))"
proof (induction k arbitrary: n i)
  case (Suc k)
  have "quiet n (fst (ae_scan_one h n i))"
    by (simp add: ae_scan_one_def mark_missing_suffix_def Let_def quiet_def settled_def split: option.split)
  then show ?case using quiet_trans [OF _ Suc] by (simp add: case_prod_beta)
qed simp

lemma quiet_ae_apply_entries: "quiet n (fst (ae_apply_entries h n))"
proof -
  let ?m = "fst (ae_scan h n)"
  have m: "quiet n ?m" by (simp add: ae_scan_def quiet_ae_scan_from)
  have "quiet s (fst (emit_log_truncate (s\<lparr>step := RAFT89_STEP_AE_TRUNCATE\<rparr>) i))" for s i
    by (simp add: emit_log_truncate_eq quiet_def settled_def emit_def)
  note quiet_trans [OF m this] quiet_trans [OF m quiet_ae_finish] quiet_trans [OF m quiet_ae_emit_append]
  with m show ?thesis by (simp add: ae_apply_entries_def case_prod_beta)
qed

lemma quiet_conflict_hints: "quiet n (fst (conflict_hints h n))"
proof -
  have "quiet n (fst (conflict_loop h (n\<lparr>ae_conflict_term := t\<rparr>) i st))" for t i st
    using quiet_silent [OF vis_conflict_loop, of "n\<lparr>ae_conflict_term := t\<rparr>"] by simp
  then show ?thesis
    by (simp add: conflict_hints_def conflict_short_log_def case_prod_beta split: option.split)
qed

lemma quiet_reply_prefix_failure: "quiet n (fst (reply_prefix_failure h n))"
  unfolding reply_prefix_failure_def
  using quiet_conflict_hints [of "n\<lparr>ae_reply_success := False, ae_match_index := 0\<rparr>"]
  by (intro quiet_seq_ok quiet_ae_send_reply) simp

lemma quiet_ae_process: "quiet n (fst (ae_process h n))"
proof -
  let ?n = "set_timeout h (n\<lparr>role := RAFT89_FOLLOWER, leader_id := ae_leader_id n, election_elapsed := 0\<rparr>)"
  let ?m = "fst (ae_prefix_matches h ?n)"
  have "quiet (n\<lparr>role := RAFT89_FOLLOWER, leader_id := ae_leader_id n, election_elapsed := 0\<rparr>) ?m"
    by (rule quiet_silent) simp
  then have m: "quiet n ?m" by - (rule quiet_role_left, simp)
  then have m': "quiet n (?m\<lparr>ae_reply_success := b, ae_match_index := i\<rparr>)" for b i by simp
  show ?thesis
    using m quiet_trans [OF m quiet_reply_prefix_failure] quiet_trans [OF m' quiet_ae_apply_entries]
    by (simp add: ae_process_def Let_def case_prod_beta)
qed

lemma quiet_ae_update_last: "quiet n (fst (ae_update_last h n i))"
  by (simp add: ae_update_last_def mark_empty_log_def quiet_def settled_def split: option.split)

lemma quiet_ae_after: "quiet n (fst (raft89__ae_after_truncate h n))" "quiet n (fst (raft89__ae_after_append h n))"
  unfolding raft89__ae_after_truncate_def raft89__ae_after_append_def
  by (intro quiet_seq_ok quiet_ae_update_last quiet_ae_emit_append quiet_ae_finish)+

lemma quiet_handle_ae_failure: "quiet n (fst (handle_ae_failure h n i p r))"
proof -
  have "quiet s (fst (raft89__leader_send_to h (s\<lparr>next_index := xs\<rparr>) p))" for s xs
    using quiet_leader_send_to [of "s\<lparr>next_index := xs\<rparr>"] by simp
  then show ?thesis
    unfolding handle_ae_failure_def Let_def
    by (intro quiet_bind_rc) (auto simp: bind_val_def intro!: quiet_silent split: sum.split)
qed


lemma quiet_apply_ack:
  assumes "settled n"
  shows "quiet n (fst (raft89__apply_ack h n))"
proof -
  let ?a = "raft89__apply_next h (n\<lparr>apply_buffer := None, apply_size := 0,
      applied_index := applied_index n + 1, step := RAFT89_STEP_NONE\<rparr>)"
  let ?n = "(fst ?a)\<lparr>step := after_apply n, after_apply := RAFT89_STEP_NONE\<rparr>"
  have a: "quiet n (fst ?a)"
    using quiet_step_left [OF _ quiet_apply_next, of RAFT89_STEP_NONE
        "n\<lparr>apply_buffer := None, apply_size := 0, applied_index := applied_index n + 1\<rparr>" h] by simp
  have n: "quiet (fst ?a) ?n"
    using assms by (auto simp: quiet_def settled_def)
  have "quiet ?n (fst (raft89__resume h ?n))"
    using assms quiet_ae_send_reply [of ?n] quiet_step_right [OF _ quiet_refl, of RAFT89_STEP_NONE ?n]
    by (auto simp: raft89__resume.simps settled_def)
  from a quiet_trans [OF quiet_trans [OF a n] this] show ?thesis
    by (simp add: raft89__apply_ack.simps Let_def apply_buffer_discard_def raft89__u64_inc_def case_prod_beta)
qed

lemma quiet_resume:
  assumes "silent_step (step n)" and "settled n"
  shows "quiet n (fst (raft89__resume h n))"
  using assms quiet_leader_broadcast_next [of n h] quiet_leader_after_append [of n h] quiet_ae_process [of n h]
    quiet_ae_after [of n h] quiet_ae_send_reply [of n] quiet_apply_ack [of n h]
  by (cases "step n") (simp_all add: raft89__resume.simps raft89__ae_continue_def quiet_step_right)

end
