(* ===== verification/Raft_Vote.thy ===== *)
theory Raft_Vote
  imports Raft_Quiet Raft_Config
begin

text \<open>
  The vote invariant of one node, relative to the set \<open>cast\<close> of votes that were written to stable
  storage (voter, term, candidate), and its preservation by every library call: tick, receive,
  propose, acknowledge, create.
\<close>

definition granters :: "raft89 \<Rightarrow> raft89_id set" where
  "granters n = (\<lambda>i. members n ! i) ` {i. i < length (votes n) \<and> votes n ! i \<noteq> 0}"

definition static_ok :: "raft89 \<Rightarrow> bool" where
  "static_ok n \<longleftrightarrow> length (members n) = unat (member_count n) \<and> distinct (members n)
     \<and> 0 \<notin> set (members n) \<and> self n \<in> set (members n) \<and> length (votes n) = unat (member_count n)"

definition pending_hs :: "raft89 \<Rightarrow> raft89_hard_state option" where
  "pending_hs n =
     (if has_action n then (case act_u (action n) of ActHardState hs \<Rightarrow> Some hs | _ \<Rightarrow> None) else None)"

definition hs_term :: "raft89_hard_state \<Rightarrow> u64" where
  "hs_term hs = raft89__from_public (hs_current_term hs)"

text \<open>A hard state the node may move to: a later term, or the first vote of the current term.\<close>

definition advances :: "u64 \<Rightarrow> raft89_id \<Rightarrow> raft89_hard_state \<Rightarrow> bool" where
  "advances trm vote hs \<longleftrightarrow> trm < hs_term hs \<or> hs_term hs = trm \<and> vote = RAFT89_ID_NONE"

text \<open>A message that grants a vote grants one that is in \<open>cast\<close>.\<close>

definition vote_in :: "(raft89_id \<times> u64 \<times> raft89_id) set \<Rightarrow> raft89_message \<Rightarrow> bool" where
  "vote_in cast m \<longleftrightarrow>
     (case msg_u m of
        RAFT89_MSG_REQUEST_VOTE_RESPONSE r \<Rightarrow>
          rvr_vote_granted r \<noteq> 0 \<longrightarrow> (msg_from m, raft89__from_public (rvr_term r), msg_to m) \<in> cast
      | _ \<Rightarrow> True)"

definition reply_ready :: "raft89 \<Rightarrow> bool" where
  "reply_ready n \<longleftrightarrow> (\<exists>hs. pending_hs n = Some hs
     \<and> vote_in {(self n, hs_term hs, hs_voted_for hs)} (pending_msg n)
     \<and> (grants (pending_msg n) \<longrightarrow> hs_voted_for hs \<noteq> RAFT89_ID_NONE))"

definition backed :: "(raft89_id \<times> u64 \<times> raft89_id) set \<Rightarrow> raft89 \<Rightarrow> bool" where
  "backed cast n \<longleftrightarrow> (\<forall>k \<in> granters n. (k, current_term n, self n) \<in> cast)"

definition candidate_ok :: "(raft89_id \<times> u64 \<times> raft89_id) set \<Rightarrow> raft89 \<Rightarrow> bool" where
  "candidate_ok cast n \<longleftrightarrow> unat (votes_granted n) = card (granters n)
     \<and> (\<forall>hs. pending_hs n = Some hs \<longrightarrow> hs_voted_for hs = self n \<and> granters n = {self n})
     \<and> (pending_hs n = None \<longrightarrow> voted_for n = self n \<and> backed cast n)"

definition leader_ok :: "(raft89_id \<times> u64 \<times> raft89_id) set \<Rightarrow> raft89 \<Rightarrow> bool" where
  "leader_ok cast n \<longleftrightarrow> unat (votes_granted n) = card (granters n)
     \<and> raft89__quorum n \<le> votes_granted n \<and> backed cast n"

text \<open>What a call other than an acknowledgement keeps: who the node is, and its hard state.\<close>

type_synonym identity = "raft89_id \<times> raft89_id list \<times> u64 \<times> raft89_id"

definition identity_of :: "raft89 \<Rightarrow> identity" where
  "identity_of n = (self n, members n, current_term n, voted_for n)"

definition vote_inv :: "identity \<Rightarrow> (raft89_id \<times> u64 \<times> raft89_id) set \<Rightarrow> raft89 \<Rightarrow> bool" where
  "vote_inv k cast n \<longleftrightarrow> k = (self n, members n, current_term n, voted_for n)
     \<and> static_ok n \<and> settled n
     \<and> (voted_for n \<noteq> RAFT89_ID_NONE \<longrightarrow> (self n, current_term n, voted_for n) \<in> cast)
     \<and> (\<forall>hs. pending_hs n = Some hs \<longrightarrow>
          role n \<noteq> RAFT89_LEADER \<and> advances (current_term n) (voted_for n) hs)
     \<and> (\<forall>m. has_action n \<and> act_u (action n) = ActSend m \<longrightarrow> vote_in cast m)
     \<and> (step n = RAFT89_STEP_VOTE_RESPONSE \<longrightarrow> reply_ready n)
     \<and> (step n = RAFT89_STEP_ELECTION_BROADCAST \<and> \<not> faulted n \<longrightarrow>
          has_action n \<and> role n = RAFT89_CANDIDATE)
     \<and> (role n = RAFT89_CANDIDATE \<and> \<not> faulted n \<longrightarrow> candidate_ok cast n)
     \<and> (role n = RAFT89_LEADER \<longrightarrow> leader_ok cast n)"

lemmas vote_defs = vote_inv_def static_ok_def settled_def pending_hs_def candidate_ok_def leader_ok_def
  backed_def granters_def reply_ready_def raft89__quorum_def

lemma vote_inv_mono: "vote_inv k cast n \<Longrightarrow> cast \<subseteq> cast' \<Longrightarrow> vote_inv k cast' n"
  unfolding vote_inv_def candidate_ok_def leader_ok_def backed_def vote_in_def
  by (elim conjE, intro conjI) (auto split: raft89_message_u.splits option.splits)

lemma vote_inv_idle:
  assumes "vote_inv k cast n" and "\<not> has_action n" and "\<not> faulted n"
  shows "silent_step (step n)"
  using assms by (auto simp: vote_inv_def reply_ready_def pending_hs_def silent_step_def)

lemma quiet_granters: "quiet n n' \<Longrightarrow> granters n' = granters n"
  by (simp add: quiet_def granters_def)

lemma not_grants_vote_in: "\<not> grants m \<Longrightarrow> vote_in cast m"
  by (simp add: grants_def vote_in_def split: raft89_message_u.splits)

lemma vote_in_mono: "vote_in cast m \<Longrightarrow> cast \<subseteq> cast' \<Longrightarrow> vote_in cast' m"
  by (auto simp: vote_in_def split: raft89_message_u.splits)

lemma quiet_pending_hs:
  assumes "quiet n n'" and "\<not> has_action n"
  shows "pending_hs n' = None"
  using assms by (auto simp: quiet_def pending_hs_def split: raft89_action_u.split)

text \<open>A quiet call from an idle node keeps the vote invariant.\<close>

lemma vote_inv_quiet:
  assumes q: "quiet n n'" and inv: "vote_inv k cast n"
    and idle: "\<not> has_action n" "\<not> faulted n" "silent_step (step n)"
  shows "vote_inv k cast n'"
proof -
  have hs: "pending_hs n' = None" "pending_hs n = None"
    using quiet_pending_hs [OF q idle(1)] idle(1) by (simp_all add: pending_hs_def)
  have "vote_in cast m" if "has_action n'" "act_u (action n') = ActSend m" for m
    using q idle that by (auto simp: quiet_def intro: not_grants_vote_in)
  moreover have "silent_step (step n')" using q idle by (auto simp: quiet_def)
  moreover note quiet_granters [OF q] hs
  moreover have f: "static_ok n' = static_ok n" "raft89__quorum n' = raft89__quorum n"
    "settled n \<Longrightarrow> settled n'"
    using q by (simp_all add: quiet_def static_ok_def raft89__quorum_def)
  moreover have "backed cast n' = backed cast n"
    using q quiet_granters [OF q] by (simp add: backed_def quiet_def)
  moreover have "current_term n' = current_term n" "voted_for n' = voted_for n" "self n' = self n" "members n' = members n"
     "votes_granted n' = votes_granted n" "role n' = role n \<or> role n' = RAFT89_FOLLOWER"
    using q by (simp_all add: quiet_def)
  ultimately show ?thesis
    using inv idle unfolding vote_inv_def candidate_ok_def leader_ok_def
    by (elim conjE, intro conjI) (auto simp: silent_step_def)
qed

section \<open>Ballots\<close>

lemma member_index_from_find:
  "\<exists>j. i \<le> j \<and> j < i + k \<and> ms ! j = ident \<Longrightarrow>
     member_index_from ms ident i k < i + k \<and> ms ! member_index_from ms ident i k = ident"
proof (induction k arbitrary: i)
  case (Suc k)
  show ?case
  proof (cases "ms ! i = ident")
    case False
    with Suc.prems obtain j where "i \<le> j" "j < i + Suc k" "ms ! j = ident" "j \<noteq> i" by blast
    then have "\<exists>j. Suc i \<le> j \<and> j < Suc i + k \<and> ms ! j = ident" by (intro exI [of _ j]) simp
    from Suc.IH [OF this] False show ?thesis by simp
  qed simp
qed auto

lemma member_index_found:
  assumes "static_ok n" and "ident \<in> set (members n)"
  shows "raft89__member_index n ident < length (votes n)"
    and "members n ! raft89__member_index n ident = ident"
proof -
  have "\<exists>j. 0 \<le> j \<and> j < 0 + unat (member_count n) \<and> members n ! j = ident"
    using assms by (auto simp: static_ok_def in_set_conv_nth)
  from member_index_from_find [OF this] assms
  show "raft89__member_index n ident < length (votes n)"
    and "members n ! raft89__member_index n ident = ident"
    by (simp_all add: raft89__member_index_def static_ok_def)
qed

lemma granters_iff: "k \<in> granters n \<longleftrightarrow> (\<exists>i < length (votes n). votes n ! i \<noteq> 0 \<and> members n ! i = k)"
  by (auto simp: granters_def)

lemma reset_votes_eq:
  assumes "static_ok n"
  shows "reset_votes n = n\<lparr>votes := (replicate (length (votes n)) 0)[raft89__member_index n (self n) := 1]\<rparr>"
  using assms by (simp add: reset_votes_def static_ok_def fold_list_update)

lemma granters_reset:
  assumes "static_ok n"
  shows "granters (n\<lparr>votes := (replicate (length (votes n)) 0)[raft89__member_index n (self n) := 1]\<rparr>) = {self n}"
proof -
  have "self n \<in> set (members n)" using assms by (simp add: static_ok_def)
  note member_index_found [OF assms this]
  then show ?thesis by (auto simp: set_eq_iff granters_iff nth_list_update split: if_splits)
qed

lemma finite_granters [simp]: "finite (granters n)"
  by (simp add: granters_def)

lemma granters_members: "static_ok n \<Longrightarrow> granters n \<subseteq> set (members n)"
  by (auto simp: granters_def static_ok_def)

lemma granters_ballot:
  assumes st: "static_ok n" and "ident \<in> set (members n)"
    and zero: "votes n ! raft89__member_index n ident = 0"
  shows "granters (n\<lparr>votes := (votes n)[raft89__member_index n ident := 1]\<rparr>) = insert ident (granters n)"
    and "ident \<notin> granters n"
proof -
  note f = member_index_found [OF assms(1,2)]
  show "granters (n\<lparr>votes := (votes n)[raft89__member_index n ident := 1]\<rparr>) = insert ident (granters n)"
    using f by (auto simp: set_eq_iff granters_iff nth_list_update split: if_splits)
  show "ident \<notin> granters n"
  proof
    assume "ident \<in> granters n"
    then obtain i where i: "i < length (votes n)" "votes n ! i \<noteq> 0" "members n ! i = ident"
      by (auto simp: granters_def)
    then have "i = raft89__member_index n ident"
      using f st by (metis nth_eq_iff_index_eq static_ok_def)
    with i zero show False by simp
  qed
qed

lemma granters_cong [simp]:
  "granters (n\<lparr>votes_granted := x\<rparr>) = granters n"
  by (simp add: granters_def)

lemma card_granters_le: "static_ok n \<Longrightarrow> card (granters n) \<le> unat (member_count n)"
  using card_mono [OF _ granters_members, of n] card_length [of "members n"] by (simp add: static_ok_def)

lemma unat_max: "unat (- 1 :: 64 word) = 2 ^ 64 - 1"
  using unat_max_minus [of "0 :: 64 word"] by simp

lemma unat_2: "unat (2 :: 64 word) = 2"
  by simp

lemma quorum_majority:
  assumes "static_ok n" and "raft89__quorum n \<le> votes_granted n" and "unat (votes_granted n) = card (granters n)"
  shows "majority_of (members n) (granters n)"
proof -
  have "unat (member_count n div 2 + 1) = unat (member_count n) div 2 + 1"
  proof -
    have "member_count n div 2 \<noteq> - 1"
    proof
      assume "member_count n div 2 = - 1"
      then have "unat (member_count n) div 2 = 2 ^ 64 - 1"
        by (metis unat_div unat_max unat_2)
      with unsigned_less [where ?'a = nat, of "member_count n"] show False by simp
    qed
    then show ?thesis by (simp add: unat_inc unat_div)
  qed
  then show ?thesis
    using assms granters_members [OF assms(1)]
    by (simp add: majority_of_def raft89__quorum_def word_le_nat_alt static_ok_def)
qed

section \<open>Leadership\<close>

text \<open>Updates that the ballots, the membership and the pending hard state do not see.\<close>

lemma ballot_upd [simp]:
  "granters (n\<lparr>role := x0\<rparr>) = granters n" "static_ok (n\<lparr>role := x0\<rparr>) = static_ok n" "settled (n\<lparr>role := x0\<rparr>) = settled n"
  "raft89__quorum (n\<lparr>role := x0\<rparr>) = raft89__quorum n"
  "pending_hs (n\<lparr>role := x0\<rparr>) = pending_hs n" "backed cast (n\<lparr>role := x0\<rparr>) = backed cast n"
  "granters (n\<lparr>leader_id := x1\<rparr>) = granters n" "static_ok (n\<lparr>leader_id := x1\<rparr>) = static_ok n" "settled (n\<lparr>leader_id := x1\<rparr>) = settled n"
  "raft89__quorum (n\<lparr>leader_id := x1\<rparr>) = raft89__quorum n"
  "pending_hs (n\<lparr>leader_id := x1\<rparr>) = pending_hs n" "backed cast (n\<lparr>leader_id := x1\<rparr>) = backed cast n"
  "granters (n\<lparr>peer_cursor := x2\<rparr>) = granters n" "static_ok (n\<lparr>peer_cursor := x2\<rparr>) = static_ok n" "settled (n\<lparr>peer_cursor := x2\<rparr>) = settled n"
  "raft89__quorum (n\<lparr>peer_cursor := x2\<rparr>) = raft89__quorum n"
  "pending_hs (n\<lparr>peer_cursor := x2\<rparr>) = pending_hs n" "backed cast (n\<lparr>peer_cursor := x2\<rparr>) = backed cast n"
  "granters (n\<lparr>faulted := x3\<rparr>) = granters n" "static_ok (n\<lparr>faulted := x3\<rparr>) = static_ok n" "settled (n\<lparr>faulted := x3\<rparr>) = settled n"
  "raft89__quorum (n\<lparr>faulted := x3\<rparr>) = raft89__quorum n"
  "pending_hs (n\<lparr>faulted := x3\<rparr>) = pending_hs n" "backed cast (n\<lparr>faulted := x3\<rparr>) = backed cast n"
  "granters (n\<lparr>current_term := x4\<rparr>) = granters n" "static_ok (n\<lparr>current_term := x4\<rparr>) = static_ok n" "settled (n\<lparr>current_term := x4\<rparr>) = settled n"
  "raft89__quorum (n\<lparr>current_term := x4\<rparr>) = raft89__quorum n"
  "pending_hs (n\<lparr>current_term := x4\<rparr>) = pending_hs n"
  "granters (n\<lparr>voted_for := x5\<rparr>) = granters n" "static_ok (n\<lparr>voted_for := x5\<rparr>) = static_ok n" "settled (n\<lparr>voted_for := x5\<rparr>) = settled n"
  "raft89__quorum (n\<lparr>voted_for := x5\<rparr>) = raft89__quorum n"
  "pending_hs (n\<lparr>voted_for := x5\<rparr>) = pending_hs n" "backed cast (n\<lparr>voted_for := x5\<rparr>) = backed cast n"
  "granters (n\<lparr>has_action := x6\<rparr>) = granters n" "static_ok (n\<lparr>has_action := x6\<rparr>) = static_ok n" "settled (n\<lparr>has_action := x6\<rparr>) = settled n"
  "raft89__quorum (n\<lparr>has_action := x6\<rparr>) = raft89__quorum n"
  "backed cast (n\<lparr>has_action := x6\<rparr>) = backed cast n"
  "granters (n\<lparr>action := x7\<rparr>) = granters n" "static_ok (n\<lparr>action := x7\<rparr>) = static_ok n" "settled (n\<lparr>action := x7\<rparr>) = settled n"
  "raft89__quorum (n\<lparr>action := x7\<rparr>) = raft89__quorum n"
  "backed cast (n\<lparr>action := x7\<rparr>) = backed cast n"
  "granters (n\<lparr>action_seq := x8\<rparr>) = granters n" "static_ok (n\<lparr>action_seq := x8\<rparr>) = static_ok n" "settled (n\<lparr>action_seq := x8\<rparr>) = settled n"
  "raft89__quorum (n\<lparr>action_seq := x8\<rparr>) = raft89__quorum n"
  "pending_hs (n\<lparr>action_seq := x8\<rparr>) = pending_hs n" "backed cast (n\<lparr>action_seq := x8\<rparr>) = backed cast n"
  "granters (n\<lparr>pending_msg := x9\<rparr>) = granters n" "static_ok (n\<lparr>pending_msg := x9\<rparr>) = static_ok n" "settled (n\<lparr>pending_msg := x9\<rparr>) = settled n"
  "raft89__quorum (n\<lparr>pending_msg := x9\<rparr>) = raft89__quorum n"
  "pending_hs (n\<lparr>pending_msg := x9\<rparr>) = pending_hs n" "backed cast (n\<lparr>pending_msg := x9\<rparr>) = backed cast n"
  "granters (n\<lparr>next_index := x10\<rparr>) = granters n" "static_ok (n\<lparr>next_index := x10\<rparr>) = static_ok n" "settled (n\<lparr>next_index := x10\<rparr>) = settled n"
  "raft89__quorum (n\<lparr>next_index := x10\<rparr>) = raft89__quorum n"
  "pending_hs (n\<lparr>next_index := x10\<rparr>) = pending_hs n" "backed cast (n\<lparr>next_index := x10\<rparr>) = backed cast n"
  "granters (n\<lparr>match_index := x11\<rparr>) = granters n" "static_ok (n\<lparr>match_index := x11\<rparr>) = static_ok n" "settled (n\<lparr>match_index := x11\<rparr>) = settled n"
  "raft89__quorum (n\<lparr>match_index := x11\<rparr>) = raft89__quorum n"
  "pending_hs (n\<lparr>match_index := x11\<rparr>) = pending_hs n" "backed cast (n\<lparr>match_index := x11\<rparr>) = backed cast n"
  "granters (n\<lparr>election_elapsed := x12\<rparr>) = granters n" "static_ok (n\<lparr>election_elapsed := x12\<rparr>) = static_ok n" "settled (n\<lparr>election_elapsed := x12\<rparr>) = settled n"
  "raft89__quorum (n\<lparr>election_elapsed := x12\<rparr>) = raft89__quorum n"
  "pending_hs (n\<lparr>election_elapsed := x12\<rparr>) = pending_hs n" "backed cast (n\<lparr>election_elapsed := x12\<rparr>) = backed cast n"
  "granters (n\<lparr>heartbeat_elapsed := x13\<rparr>) = granters n" "static_ok (n\<lparr>heartbeat_elapsed := x13\<rparr>) = static_ok n" "settled (n\<lparr>heartbeat_elapsed := x13\<rparr>) = settled n"
  "raft89__quorum (n\<lparr>heartbeat_elapsed := x13\<rparr>) = raft89__quorum n"
  "pending_hs (n\<lparr>heartbeat_elapsed := x13\<rparr>) = pending_hs n" "backed cast (n\<lparr>heartbeat_elapsed := x13\<rparr>) = backed cast n"
  "granters (n\<lparr>step := x14\<rparr>) = granters n" "static_ok (n\<lparr>step := x14\<rparr>) = static_ok n" "settled (n\<lparr>step := x14\<rparr>) = settled n"
  "raft89__quorum (n\<lparr>step := x14\<rparr>) = raft89__quorum n"
  "pending_hs (n\<lparr>step := x14\<rparr>) = pending_hs n" "backed cast (n\<lparr>step := x14\<rparr>) = backed cast n"
  "pending_hs (n\<lparr>has_action := False\<rparr>) = None"
  by (simp_all add: granters_def static_ok_def settled_def raft89__quorum_def pending_hs_def backed_def)

lemma fold_init_peer_state:
  "\<exists>a b. fold (\<lambda>i n. init_peer_state n i) xs n = n\<lparr>next_index := a, match_index := b\<rparr>"
proof (induction xs arbitrary: n)
  case Nil
  have "n = n\<lparr>next_index := next_index n, match_index := match_index n\<rparr>" by simp
  then show ?case by (metis fold_simps(1))
next
  case (Cons x xs)
  obtain a b where "fold (\<lambda>i n. init_peer_state n i) xs (init_peer_state n x)
      = (init_peer_state n x)\<lparr>next_index := a, match_index := b\<rparr>"
    using Cons by blast
  then show ?case by (auto simp: init_peer_state_def)
qed

lemma vote_inv_step:
  "silent_step s \<Longrightarrow> silent_step (step n) \<Longrightarrow> vote_inv k cast (n\<lparr>step := s\<rparr>) = vote_inv k cast n"
  by (auto simp: vote_defs silent_step_def)

lemma vote_inv_become_leader:
  assumes inv: "vote_inv k cast n" and idle: "\<not> has_action n" "\<not> faulted n"
    and cand: "role n = RAFT89_CANDIDATE" and win: "raft89__quorum n \<le> votes_granted n"
  shows "vote_inv k cast (fst (raft89__become_leader h n))"
proof -
  let ?m = "\<lambda>a b. n\<lparr>role := RAFT89_LEADER, leader_id := self n, heartbeat_elapsed := 0, election_elapsed := 0,
      next_index := a, match_index := b, peer_cursor := 0, step := RAFT89_STEP_LEADER_BROADCAST\<rparr>"
  have "vote_inv k cast (?m a b)" for a b
    using inv idle cand win by (auto simp: vote_defs)
  then have "vote_inv k cast (fst (raft89__leader_broadcast_next h (?m a b)))" for a b
    by (rule vote_inv_quiet [OF quiet_leader_broadcast_next]) (use idle in simp_all)
  moreover have "vote_inv k cast (n\<lparr>faulted := True\<rparr>)"
    using inv cand by (auto simp: vote_defs)
  ultimately show ?thesis
    using fold_init_peer_state [of "[0..<unat (member_count n)]"
        "n\<lparr>role := RAFT89_LEADER, leader_id := self n, heartbeat_elapsed := 0, election_elapsed := 0\<rparr>"]
    by (auto simp: raft89__become_leader_def Let_def)
qed

lemma vote_inv_emit_send:
  assumes "vote_inv k cast (n\<lparr>step := RAFT89_STEP_NONE\<rparr>)" and "vote_in cast m" and "\<not> has_action n"
    and "silent_step s \<or> s = RAFT89_STEP_ELECTION_BROADCAST \<and> role n = RAFT89_CANDIDATE"
  shows "vote_inv k cast (fst (raft89__emit_send (n\<lparr>step := s\<rparr>) m))"
  using assms by (auto simp: emit_send_eq emit_def vote_defs silent_step_def)

section \<open>Calls that write a hard state\<close>

lemma set_timeout_eq: "\<exists>j t. set_timeout h n = n\<lparr>rand_seq := j, election_timeout := t\<rparr>"
  by (auto simp: set_timeout_def raft89__pick_timeout_def Let_def)

lemma vote_inv_set_timeout [simp]: "vote_inv k cast (set_timeout h n) = vote_inv k cast n"
proof -
  obtain j t where e: "set_timeout h n = n\<lparr>rand_seq := j, election_timeout := t\<rparr>"
    using set_timeout_eq by blast
  show ?thesis unfolding e by (simp add: vote_defs)
qed

lemma set_timeout_sel [simp]:
  "has_action (set_timeout h n) = has_action n" "faulted (set_timeout h n) = faulted n"
  "role (set_timeout h n) = role n" "step (set_timeout h n) = step n" "self (set_timeout h n) = self n"
  "current_term (set_timeout h n) = current_term n" "voted_for (set_timeout h n) = voted_for n"
  using set_timeout_eq [of h n] by auto

text \<open>A follower that asks for a hard state it may move to.\<close>

lemma vote_inv_emit_hard_state:
  assumes "vote_inv k cast n" and "\<not> has_action n" and "role n = RAFT89_FOLLOWER" and "silent_step (step n)"
    and "current_term n < trm \<or> trm = current_term n \<and> voted_for n = 0"
  shows "vote_inv k cast (fst (raft89__emit_hard_state n trm vote))"
  using assms by (auto simp: emit_hard_state_eq emit_def vote_defs advances_def hs_term_def silent_step_def)

lemma vote_inv_follow:
  assumes "vote_inv k cast n" and "\<not> has_action n" and "silent_step (step n)"
  shows "vote_inv k cast (n\<lparr>role := RAFT89_FOLLOWER, leader_id := l\<rparr>)"
    and "vote_inv k cast (n\<lparr>role := RAFT89_FOLLOWER, leader_id := l, election_elapsed := e\<rparr>)"
  using assms by (auto simp: vote_defs silent_step_def)

lemma vote_inv_step_down:
  assumes "vote_inv k cast n" and "\<not> has_action n" and "silent_step (step n)" and "current_term n < trm"
  shows "vote_inv k cast (fst (raft89__step_down_new_term h n trm))"
  unfolding raft89__step_down_new_term_def Let_def
  by (rule vote_inv_emit_hard_state)
     (use assms vote_inv_follow [OF assms(1-3)] in \<open>simp_all add: vote_inv_step\<close>)

lemma vote_inv_persist_vote:
  assumes "vote_inv k cast n" and "\<not> has_action n" and "role n = RAFT89_FOLLOWER" and "silent_step (step n)"
    and "current_term n < trm \<or> trm = current_term n \<and> voted_for n = 0"
    and "granted \<noteq> 0 \<longrightarrow> vote = peer \<and> peer \<noteq> 0"
  shows "vote_inv k cast (fst (persist_vote_then_reply n peer trm vote granted))"
proof -
  let ?n = "n\<lparr>pending_msg := raft89__build_vote_response (self n) peer (raft89__to_public trm) granted\<rparr>"
  have "vote_inv k cast ?n" using assms by (auto simp: vote_defs)
  then have e: "vote_inv k cast (fst (raft89__emit_hard_state ?n trm vote))"
    by (rule vote_inv_emit_hard_state) (use assms in simp_all)
  moreover have "vote_inv k cast (s\<lparr>step := RAFT89_STEP_VOTE_RESPONSE\<rparr>)"
    if "vote_inv k cast s" "silent_step (step s)" "reply_ready s" for s
    using that by (simp add: vote_inv_def candidate_ok_def leader_ok_def reply_ready_def)
  moreover have "reply_ready (emit ?n (ActHardState \<lparr>hs_current_term = raft89__to_public trm, hs_voted_for = vote\<rparr>))"
    using assms by (auto simp: reply_ready_def pending_hs_def emit_def vote_in_def hs_term_def grants_def
        raft89__build_vote_response_def)
  moreover have "silent_step (step (emit ?n u))" for u using assms by (simp add: emit_def)
  ultimately show ?thesis
    by (auto simp: persist_vote_then_reply_def Let_def emit_hard_state_eq split: if_splits)
qed

lemma vote_inv_start_election:
  assumes inv: "vote_inv k cast n" and idle: "\<not> has_action n" "\<not> faulted n"
  shows "vote_inv k cast (fst (raft89__start_election h n))"
proof (cases "current_term n = - 1")
  case True
  with inv show ?thesis by (simp add: raft89__start_election_def)
next
  case False
  obtain j t where "set_timeout h (n\<lparr>role := RAFT89_CANDIDATE, leader_id := RAFT89_ID_NONE, election_elapsed := 0\<rparr>)
      = n\<lparr>role := RAFT89_CANDIDATE, leader_id := RAFT89_ID_NONE, election_elapsed := 0,
          rand_seq := j, election_timeout := t\<rparr>" (is "_ = ?m")
    using set_timeout_eq by blast
  moreover have st: "static_ok ?m" "static_ok n" using inv by (simp_all add: vote_inv_def static_ok_def)
  moreover let ?v = "(replicate (length (votes n)) 0)[raft89__member_index n (self n) := 1]"
  have mi: "raft89__member_index ?m (self ?m) = raft89__member_index n (self n)"
    by (simp add: raft89__member_index_def)
  have g: "granters (?m\<lparr>votes := ?v, votes_granted := 1\<rparr>) = {self n}"
    using granters_reset [OF st(2)] by (simp add: granters_def)
  have lt: "current_term n < current_term n + 1"
    using False by (simp add: word_less_nat_alt unat_inc)
  have "vote_inv k cast (s\<lparr>peer_cursor := 0, step := RAFT89_STEP_ELECTION_BROADCAST\<rparr>)"
    if "s = emit (?m\<lparr>votes := ?v, votes_granted := 1\<rparr>)
          (ActHardState \<lparr>hs_current_term = raft89__to_public (current_term n + 1), hs_voted_for = self n\<rparr>)" for s
  proof -
    have "granters s = {self n}" using g that by (simp add: emit_def granters_def)
    then show ?thesis
      using inv that lt
      by (auto simp: vote_inv_def candidate_ok_def static_ok_def settled_def emit_def pending_hs_def
          advances_def hs_term_def granters_def)
  qed
  moreover have "vote_inv k cast (?m\<lparr>votes := ?v, votes_granted := 1, faulted := True\<rparr>)"
    using inv idle vote_inv_idle [OF inv idle] by (auto simp: vote_defs silent_step_def)
  ultimately show ?thesis
    using False mi
    by (simp add: raft89__start_election_def Let_def reset_votes_eq emit_hard_state_eq raft89__u64_inc_def)
qed

section \<open>Message handlers\<close>

lemma vote_inv_reply:
  assumes "vote_inv k cast n" and "\<not> has_action n" and "silent_step (step n)"
    and "granted \<noteq> 0 \<longrightarrow> (self n, trm, peer) \<in> cast"
  shows "vote_inv k cast (fst (reply_vote n peer trm granted))"
  using vote_inv_emit_send [of k cast n "raft89__build_vote_response (self n) peer (raft89__to_public trm) granted" "step n"] assms
  by (simp add: reply_vote_def vote_inv_step vote_in_def raft89__build_vote_response_def)

lemma vote_inv_recv_request_vote:
  assumes inv: "vote_inv k cast n" and idle: "\<not> has_action n" "\<not> faulted n" and "sender \<noteq> 0"
  shows "vote_inv k cast (fst (raft89__recv_request_vote h n sender rv))"
proof -
  note silent = vote_inv_idle [OF inv idle]
  note reply = vote_inv_reply [OF inv idle(1) silent]
  let ?t = "raft89__from_public (rv_term rv)"
  have "vote_inv k cast (fst (vote_new_term h n sender rv fresh))" if "current_term n < ?t" for fresh
    unfolding vote_new_term_def Let_def
    by (rule vote_inv_persist_vote)
       (use assms silent that vote_inv_follow [OF inv idle(1) silent] in \<open>simp_all add: fresh_vote_def\<close>)
  moreover have "vote_inv k cast (fst (persist_vote_then_reply n sender ?t sender 1))"
    if "voted_for n = 0" "role n \<noteq> RAFT89_LEADER" "?t = current_term n"
  proof (rule vote_inv_persist_vote [OF inv idle(1) _ silent])
    have "role n \<noteq> RAFT89_CANDIDATE"
      using inv idle that(1) by (auto simp: vote_inv_def candidate_ok_def pending_hs_def static_ok_def)
    with that(2) show "role n = RAFT89_FOLLOWER" by (cases "role n") simp_all
  qed (use that assms in simp_all)
  moreover have "(self n, current_term n, sender) \<in> cast" if "voted_for n = sender"
    using inv that \<open>sender \<noteq> 0\<close> by (simp add: vote_inv_def)
  ultimately show ?thesis
    using reply by (auto simp: raft89__recv_request_vote_def Let_def)
qed

lemma vote_inv_ballot:
  assumes inv: "vote_inv k cast n" and idle: "\<not> has_action n" "\<not> faulted n" and role: "role n = RAFT89_CANDIDATE"
    and mem: "sender \<in> set (members n)" and new: "votes n ! raft89__member_index n sender = 0"
    and cast: "(sender, current_term n, self n) \<in> cast"
  shows "vote_inv k cast (n\<lparr>votes := (votes n)[raft89__member_index n sender := 1], votes_granted := votes_granted n + 1\<rparr>)"
    (is "vote_inv k cast ?n")
proof -
  have st: "static_ok n" and co: "candidate_ok cast n"
    using inv idle role by (simp_all add: vote_inv_def)
  have g: "granters ?n = insert sender (granters n)" "sender \<notin> granters n"
    using granters_ballot [OF st mem new] by simp_all
  have st': "static_ok ?n" using st by (simp add: static_ok_def)
  have "unat (votes_granted n) < unat (member_count n)"
    using card_granters_le [OF st'] co g by (simp add: candidate_ok_def)
  then have "votes_granted n \<noteq> - 1"
    using word_order.extremum [of "member_count n"] by (auto simp: word_le_nat_alt)
  then have "unat (votes_granted ?n) = card (granters ?n)"
    using co g by (simp add: unat_inc candidate_ok_def)
  then have "candidate_ok cast ?n"
    using co cast idle g(1) by (simp add: candidate_ok_def backed_def pending_hs_def)
  with st' inv role idle show ?thesis
    by (simp add: vote_inv_def settled_def pending_hs_def reply_ready_def)
qed

lemma vote_inv_recv_vote_response:
  assumes inv: "vote_inv k cast n" and idle: "\<not> has_action n" "\<not> faulted n"
    and mem: "sender \<in> set (members n)"
    and cast: "rvr_vote_granted r \<noteq> 0 \<longrightarrow> (sender, raft89__from_public (rvr_term r), self n) \<in> cast"
  shows "vote_inv k cast (fst (raft89__recv_vote_response h n sender r))"
proof -
  note silent = vote_inv_idle [OF inv idle]
  let ?t = "raft89__from_public (rvr_term r)"
  let ?n = "n\<lparr>votes := (votes n)[raft89__member_index n sender := 1], votes_granted := votes_granted n + 1\<rparr>"
  have "vote_inv k cast ?n" "\<not> votes_granted ?n < raft89__quorum ?n \<Longrightarrow> vote_inv k cast (fst (raft89__become_leader h ?n))"
    if "role n = RAFT89_CANDIDATE" "votes n ! raft89__member_index n sender = 0" "?t = current_term n"
      "rvr_vote_granted r \<noteq> 0"
  proof -
    show n: "vote_inv k cast ?n" by (rule vote_inv_ballot) (use assms that in simp_all)
    show "vote_inv k cast (fst (raft89__become_leader h ?n))" if "\<not> votes_granted ?n < raft89__quorum ?n"
      by (rule vote_inv_become_leader [OF n]) (use that idle \<open>role n = RAFT89_CANDIDATE\<close> in simp_all)
  qed
  then show ?thesis
    using inv vote_inv_step_down [OF inv idle(1) silent, of ?t]
    by (auto simp: raft89__recv_vote_response_def Let_def)
qed

lemma quiet_ae_stash: "quiet n (fst (ae_stash h n sender ae))"
  by (simp add: ae_stash_def raft89__entries_stash_def raft89__entries_clear_def Let_def
      raft89__entries_buffer_alloc_def host_alloc_def)

lemma ae_stash_sel:
  "has_action (fst (ae_stash h n sender ae)) = has_action n" "faulted (fst (ae_stash h n sender ae)) = faulted n"
  "step (fst (ae_stash h n sender ae)) = step n" "current_term (fst (ae_stash h n sender ae)) = current_term n"
  by (simp_all add: ae_stash_def raft89__entries_stash_def raft89__entries_clear_def Let_def
      raft89__entries_buffer_alloc_def host_alloc_def)

lemma vote_inv_recv_append_entries:
  assumes inv: "vote_inv k cast n" and idle: "\<not> has_action n" "\<not> faulted n"
  shows "vote_inv k cast (fst (raft89__recv_append_entries h n sender ae))"
proof -
  note silent = vote_inv_idle [OF inv idle]
  let ?t = "raft89__from_public (aeq_term ae)" and ?s = "fst (ae_stash h n sender ae)"
  have s: "vote_inv k cast ?s" "\<not> has_action ?s" "\<not> faulted ?s" "silent_step (step ?s)"
    using vote_inv_quiet [OF quiet_ae_stash inv idle silent] idle silent by (simp_all add: ae_stash_sel)
  have "vote_inv k cast (fst (start_ae_hard_state ?s ?t))" if "current_term n < ?t"
    unfolding start_ae_hard_state_def
    by (rule vote_inv_emit_hard_state)
       (use s that vote_inv_follow [OF s(1,2,4)] in \<open>simp_all add: vote_inv_step ae_stash_sel\<close>)
  moreover have "vote_inv k cast (fst (ae_process h ?s))"
    by (rule vote_inv_quiet [OF quiet_ae_process s(1-4)])
  moreover have "quiet n (fst (send_ae_failure n sender t))" for t
    unfolding send_ae_failure_def by (rule quiet_emit_send) (simp add: grants_def raft89__build_ae_response_def)
  note vote_inv_quiet [OF this inv idle silent]
  ultimately show ?thesis
    using inv s(1) by (simp add: raft89__recv_append_entries_def Let_def seq_ok_def ae_stash_sel)
qed

lemma vote_inv_recv_ae_response:
  assumes inv: "vote_inv k cast n" and idle: "\<not> has_action n" "\<not> faulted n"
  shows "vote_inv k cast (fst (raft89__recv_ae_response h n sender r))"
proof -
  note silent = vote_inv_idle [OF inv idle]
  note keep = vote_inv_quiet [OF _ inv idle silent]
  have "quiet n (fst (raft89__leader_maybe_commit h (n\<lparr>match_index := xs\<rparr>)))"
    "quiet n (fst (raft89__leader_maybe_commit h (n\<lparr>match_index := xs, next_index := ys\<rparr>)))" for xs ys
    using quiet_leader_maybe_commit [of "n\<lparr>match_index := xs\<rparr>" h]
      quiet_leader_maybe_commit [of "n\<lparr>match_index := xs, next_index := ys\<rparr>" h] by simp_all
  note this [THEN keep] keep [OF quiet_handle_ae_failure]
  then show ?thesis
    using inv vote_inv_step_down [OF inv idle(1) silent, of "raft89__from_public (aer_term r)"]
    by (simp add: raft89__recv_ae_response_def Let_def advance_next_def)
qed

section \<open>Entry points\<close>

text \<open>The node after a call, whatever its return code.\<close>

lemma vote_inv_tick:
  assumes inv: "vote_inv k cast n" and call: "raft89_tick h (Some n) elapsed = (Some n', rc)"
  shows "vote_inv k cast n'"
proof (cases "faulted n \<or> has_action n")
  case True
  with inv call show ?thesis by (auto simp: raft89_tick_def split: if_splits)
next
  case False
  let ?n = "raft89__advance_clocks n elapsed"
  have n: "vote_inv k cast ?n" "\<not> has_action ?n" "\<not> faulted ?n"
    using inv False by (simp_all add: raft89__advance_clocks_def vote_defs)
  note silent = vote_inv_idle [OF n]
  let ?l = "\<lambda>t. ?n\<lparr>heartbeat_elapsed := t, peer_cursor := 0, step := RAFT89_STEP_LEADER_BROADCAST\<rparr>"
  have "quiet ?n (fst (raft89__leader_broadcast_next h (?l 0)))"
    using quiet_step_left [OF _ quiet_leader_broadcast_next, of RAFT89_STEP_LEADER_BROADCAST
        "?n\<lparr>heartbeat_elapsed := 0, peer_cursor := 0\<rparr>" h] by simp
  from vote_inv_quiet [OF this n silent] n vote_inv_start_election [OF n, of h] False call
  show ?thesis
    by (auto simp: raft89_tick_def raft89__tick_leader_def raft89__tick_follower_def Let_def split: if_splits)
qed

lemma has_member_iff:
  assumes "static_ok n"
  shows "raft89__node_has_member n ident \<longleftrightarrow> ident \<in> set (members n)"
  using assms by (auto simp: raft89__node_has_member_def list_ex_iff static_ok_def in_set_conv_nth)

lemma vote_inv_recv:
  assumes inv: "vote_inv k cast n" and msg: "vote_in cast m"
    and call: "raft89_recv h (Some n) (Some m) = (Some n', rc)"
  shows "vote_inv k cast n'"
proof (cases "faulted n \<or> has_action n \<or> \<not> raft89__msg_envelope_valid n m")
  case True
  with inv call show ?thesis by (auto simp: raft89_recv_def split: if_splits)
next
  case False
  then have idle: "\<not> has_action n" "\<not> faulted n" and "raft89__msg_envelope_valid n m" by simp_all
  then have env: "msg_to m = self n" "msg_from m \<noteq> 0" "msg_from m \<in> set (members n)"
    using inv by (auto simp: raft89__msg_envelope_valid_def vote_inv_def has_member_iff split: if_splits)
  have n': "n' = fst (case msg_u m of
           RAFT89_MSG_REQUEST_VOTE rv \<Rightarrow> raft89__recv_request_vote h n (msg_from m) rv
         | RAFT89_MSG_REQUEST_VOTE_RESPONSE r \<Rightarrow> raft89__recv_vote_response h n (msg_from m) r
         | RAFT89_MSG_APPEND_ENTRIES ae \<Rightarrow> raft89__recv_append_entries h n (msg_from m) ae
         | RAFT89_MSG_APPEND_ENTRIES_RESPONSE r \<Rightarrow> raft89__recv_ae_response h n (msg_from m) r
         | RAFT89_MSG_OTHER _ \<Rightarrow> (n, RAFT89_ERR_STATE))"
    using call False by (auto simp: raft89_recv_def apfst_def map_prod_def case_prod_beta)
  show ?thesis
  proof (cases "msg_u m")
    case (RAFT89_MSG_REQUEST_VOTE_RESPONSE r)
    with msg env have "rvr_vote_granted r \<noteq> 0 \<longrightarrow> (msg_from m, raft89__from_public (rvr_term r), self n) \<in> cast"
      by (simp add: vote_in_def)
    from vote_inv_recv_vote_response [OF inv idle env(3) this] show ?thesis
      by (simp add: n' RAFT89_MSG_REQUEST_VOTE_RESPONSE)
  qed (use n' inv env(2) vote_inv_recv_request_vote [OF inv idle] vote_inv_recv_append_entries [OF inv idle]
        vote_inv_recv_ae_response [OF inv idle] in simp_all)
qed

lemma quiet_proposev:
  assumes "raft89_proposev h (Some n) cs count = (Some n', rc, idx)"
  shows "quiet n n'"
  using assms
  by (auto simp: raft89_proposev_def host_alloc_def raft89__entries_stash_def raft89__entries_clear_def
      raft89__entries_buffer_alloc_def Let_def action_begin_eq quiet_def settled_def emit_def
      split: option.splits if_splits)

lemma vote_inv_proposev:
  assumes inv: "vote_inv k cast n" and call: "raft89_proposev h (Some n) cs count = (Some n', rc, idx)"
  shows "vote_inv k cast n'"
proof (cases "faulted n \<or> has_action n")
  case True
  with inv call show ?thesis by (auto simp: raft89_proposev_def split: option.splits if_splits)
next
  case False
  then show ?thesis using vote_inv_quiet [OF quiet_proposev [OF call] inv] vote_inv_idle [OF inv] by simp
qed

text \<open>The node with its action taken off, once the hard state it asked for is on stable storage.\<close>

definition acknowledged :: "raft89 \<Rightarrow> raft89" where
  "acknowledged n =
     (case act_u (action n) of ActHardState _ \<Rightarrow> raft89__apply_hard_state n | _ \<Rightarrow> n)\<lparr>has_action := False\<rparr>"

lemma acknowledged_eq:
  assumes "has_action n"
  shows "acknowledged n =
     (case pending_hs n of None \<Rightarrow> n\<lparr>has_action := False\<rparr>
      | Some hs \<Rightarrow> n\<lparr>current_term := hs_term hs, voted_for := hs_voted_for hs, has_action := False\<rparr>)"
  using assms
  by (cases "act_u (action n)") (simp_all add: acknowledged_def raft89__apply_hard_state_def pending_hs_def hs_term_def)

lemma vote_inv_acknowledged:
  assumes inv: "vote_inv k cast n" and act: "has_action n" "\<not> faulted n"
    and durable: "\<And>hs. pending_hs n = Some hs \<Longrightarrow> hs_voted_for hs \<noteq> 0 \<Longrightarrow> (self n, hs_term hs, hs_voted_for hs) \<in> cast"
  shows "vote_inv (identity_of (acknowledged n)) cast ((acknowledged n)\<lparr>step := RAFT89_STEP_NONE\<rparr>)"
proof (cases "pending_hs n")
  case None
  then show ?thesis
    using inv act by (simp add: acknowledged_eq identity_of_def vote_inv_def candidate_ok_def leader_ok_def)
next
  case (Some hs)
  have "self n \<noteq> 0" using inv by (auto simp: vote_inv_def static_ok_def)
  with durable [OF Some] Some inv act show ?thesis
    by (auto simp: acknowledged_eq identity_of_def vote_inv_def candidate_ok_def backed_def)
qed

lemma vote_inv_election_send_next:
  assumes inv: "vote_inv k cast (n\<lparr>step := RAFT89_STEP_NONE\<rparr>)" and idle: "\<not> has_action n" "\<not> faulted n"
    and cand: "role n = RAFT89_CANDIDATE"
  shows "vote_inv k cast (fst (raft89__election_send_next h n))"
proof -
  have "vote_inv k cast (fst (become_leader_after_quorum h n))" if "raft89__quorum n \<le> votes_granted n"
    unfolding become_leader_after_quorum_def
    by (rule vote_inv_become_leader [OF inv]) (use idle cand that in \<open>simp_all add: raft89__quorum_def\<close>)
  moreover have "vote_inv k cast (fst (raft89__emit_send (n\<lparr>peer_cursor := c, step := RAFT89_STEP_ELECTION_BROADCAST\<rparr>)
      (raft89__build_request_vote m p)))" for c m p
  proof -
    have "vote_inv k cast (n\<lparr>peer_cursor := c, step := RAFT89_STEP_NONE\<rparr>)"
      using inv by (simp add: vote_inv_def candidate_ok_def leader_ok_def)
    from vote_inv_emit_send [OF this] show ?thesis
      using idle cand by (simp add: vote_in_def raft89__build_request_vote_def)
  qed
  ultimately show ?thesis
    using inv by (simp add: raft89__election_send_next_def Let_def)
qed

lemma vote_inv_resume:
  assumes inv: "vote_inv k cast (n\<lparr>step := RAFT89_STEP_NONE\<rparr>)" and idle: "\<not> has_action n" "\<not> faulted n"
    and vote: "step n = RAFT89_STEP_VOTE_RESPONSE \<Longrightarrow> vote_in cast (pending_msg n)"
    and cand: "step n = RAFT89_STEP_ELECTION_BROADCAST \<Longrightarrow> role n = RAFT89_CANDIDATE"
  shows "vote_inv k cast (fst (raft89__resume h n))"
proof (cases "silent_step (step n)")
  case True
  with inv have "vote_inv k cast n" by (simp add: vote_inv_step)
  moreover from this have "settled n" by (simp add: vote_inv_def)
  ultimately show ?thesis
    using vote_inv_quiet [OF quiet_resume [OF True]] idle True by blast
next
  case False
  then consider "step n = RAFT89_STEP_VOTE_RESPONSE" | "step n = RAFT89_STEP_ELECTION_BROADCAST"
    by (auto simp: silent_step_def)
  then show ?thesis
  proof cases
    case 1
    with vote_inv_emit_send [OF inv vote [OF 1] idle(1), of RAFT89_STEP_NONE] show ?thesis
      by (simp add: raft89__resume.simps vote_response_send_def)
  next
    case 2
    with vote_inv_election_send_next [OF inv idle cand [OF 2]] show ?thesis
      by (simp add: raft89__resume.simps)
  qed
qed

lemma vote_inv_action_done:
  assumes inv: "vote_inv k cast n" and call: "raft89_action_done h (Some n) ident result = (Some n', rc)"
    and durable: "\<And>hs. result = RAFT89_ACTION_OK \<Longrightarrow> pending_hs n = Some hs \<Longrightarrow> hs_voted_for hs \<noteq> 0
      \<Longrightarrow> (self n, hs_term hs, hs_voted_for hs) \<in> cast"
  shows "vote_inv k cast n' \<and> pending_hs n' = pending_hs n \<or> result \<noteq> RAFT89_ACTION_FATAL \<and> has_action n
    \<and> (\<forall>hs. pending_hs n = Some hs \<longrightarrow> result = RAFT89_ACTION_OK) \<and> vote_inv (identity_of (acknowledged n)) cast n'"
proof (cases "faulted n \<or> \<not> has_action n \<or> ident \<noteq> act_id (action n)
      \<or> \<not> raft89__action_result_valid (action n) result")
  case True
  with inv call show ?thesis by (auto simp: raft89_action_done_def split: if_splits)
next
  case False
  then have act: "has_action n" "\<not> faulted n" and valid: "raft89__action_result_valid (action n) result" by simp_all
  show ?thesis
  proof (cases "result = RAFT89_ACTION_FATAL")
    case True
    moreover have "vote_inv k cast (n\<lparr>faulted := True\<rparr>)"
      using inv by (simp add: vote_inv_def leader_ok_def reply_ready_def)
    ultimately show ?thesis using call False by (auto simp: raft89_action_done_def)
  next
    case live: False
    have ok: "result = RAFT89_ACTION_OK" if "pending_hs n = Some hs" for hs
      using valid live that act
      by (cases result) (auto simp: pending_hs_def split: raft89_action_u.splits)
    have hs: "(self n, hs_term hs, hs_voted_for hs) \<in> cast" if "pending_hs n = Some hs" "hs_voted_for hs \<noteq> 0" for hs
      by (rule durable [OF ok [OF that(1)] that])
    let ?a = "acknowledged n"
    have sel: "step ?a = step n" "pending_msg ?a = pending_msg n" "role ?a = role n" "\<not> has_action ?a" "\<not> faulted ?a"
      using act by (simp_all add: acknowledged_eq split: option.split)
    have "vote_inv (identity_of ?a) cast (fst (raft89__resume h ?a))"
    proof (rule vote_inv_resume)
      show "vote_inv (identity_of ?a) cast (?a\<lparr>step := RAFT89_STEP_NONE\<rparr>)" by (rule vote_inv_acknowledged [OF inv act hs])
      show "vote_in cast (pending_msg ?a)" if vr: "step ?a = RAFT89_STEP_VOTE_RESPONSE"
      proof -
        obtain st where st: "pending_hs n = Some st" "vote_in {(self n, hs_term st, hs_voted_for st)} (pending_msg n)"
          "grants (pending_msg n) \<Longrightarrow> hs_voted_for st \<noteq> 0"
          using inv vr sel(1) unfolding vote_inv_def reply_ready_def by auto
        show ?thesis
        proof (cases "grants (pending_msg n)")
          case True
          from hs [OF st(1) st(3) [OF True]] vote_in_mono [OF st(2)] show ?thesis by (simp add: sel(2))
        qed (simp add: sel(2) not_grants_vote_in)
      qed
    next
      show "role ?a = RAFT89_CANDIDATE" if "step ?a = RAFT89_STEP_ELECTION_BROADCAST"
        using that sel(1,3) inv act by (simp add: vote_inv_def)
    qed (use sel in simp_all)
    moreover have "n' = fst (raft89__resume h ?a)"
      using call False live by (auto simp: raft89_action_done_def acknowledged_def Let_def)
    ultimately show ?thesis using live act ok by simp
  qed
qed

section \<open>Start and restart\<close>

lemma node_alloc_fields:
  assumes "node_alloc h cfg = Some n"
  shows "self n = cfg_self cfg" "role n = RAFT89_FOLLOWER" "members n = config_members cfg"
    "member_count n = cfg_member_count cfg" "votes n = replicate (unat (cfg_member_count cfg)) 0"
    "\<not> has_action n" "\<not> faulted n" "step n = RAFT89_STEP_NONE" "after_apply n = RAFT89_STEP_NONE"
    "action_seq n = 0" "applied_index n = 0" "commit_index n = 0"
  using assms
  by (auto simp: node_alloc_def state_alloc_def members_copy_def peers_copy_def host_alloc_def
      raft89__node_init_def config_members_def split: if_splits option.splits)

text \<open>What \<open>raft89_create\<close> restores, when it succeeds.\<close>

lemma create_fields:
  assumes "raft89_create h (Some cfg) True = (RAFT89_OK, Some n)"
  obtains hs i t where
    "store_hard_state (host_store h) = Some hs" "store_log_last (host_store h) = Some (i, t)"
    "raft89__config_validate (Some cfg) = RAFT89_OK"
    "self n = cfg_self cfg" "role n = RAFT89_FOLLOWER" "members n = config_members cfg"
    "member_count n = cfg_member_count cfg" "votes n = replicate (unat (cfg_member_count cfg)) 0"
    "\<not> has_action n" "\<not> faulted n" "step n = RAFT89_STEP_NONE" "after_apply n = RAFT89_STEP_NONE"
    "current_term n = hs_term hs" "voted_for n = hs_voted_for hs"
    "last_log_index n = raft89__from_public i" "last_log_term n = raft89__from_public t"
    "commit_index n = raft89__from_public (cfg_applied_index cfg)" "applied_index n = commit_index n"
    "commit_index n \<le> last_log_index n"
proof -
  from assms obtain n0 n1 n2 where a: "raft89__config_validate (Some cfg) = RAFT89_OK"
    "node_alloc h cfg = Some n0" "raft89__node_load h n0 = (n1, RAFT89_OK)"
    "raft89__recover_applied h n1 (raft89__from_public (cfg_applied_index cfg)) = (n2, RAFT89_OK)"
    and n: "n = set_timeout h n2"
    by (auto simp: raft89_create_def split: if_splits option.splits prod.splits)
  from a(3) obtain hs i t where l: "store_hard_state (host_store h) = Some hs"
    "store_log_last (host_store h) = Some (i, t)"
    "n1 = n0\<lparr>current_term := hs_term hs, voted_for := hs_voted_for hs,
        last_log_index := raft89__from_public i, last_log_term := raft89__from_public t\<rparr>"
    by (auto simp: raft89__node_load_def raft89__store_read_hard_state_def raft89__store_read_log_last_def
        hs_term_def seq_ok_def split: option.splits if_splits)
  let ?c = "raft89__from_public (cfg_applied_index cfg)"
  from a(4) have r: "?c \<le> last_log_index n1" "n2 = n1\<lparr>applied_index := ?c, commit_index := ?c\<rparr>"
    using node_alloc_fields(11,12) [OF a(2)]
    by (auto simp: raft89__recover_applied_def raft89__u64_is_zero_def l(3) split: if_splits option.splits)
  obtain j u where s: "n = n2\<lparr>rand_seq := j, election_timeout := u\<rparr>"
    using n set_timeout_eq by metis
  show ?thesis
    by (rule that [OF l(1,2) a(1)]) (use node_alloc_fields [OF a(2)] r(1) in \<open>simp_all add: s r(2) l(3)\<close>)
qed

lemma vote_inv_create:
  assumes "raft89_create h (Some cfg) True = (RAFT89_OK, Some n)"
    and "store_hard_state (host_store h) = Some hs"
    and "hs_voted_for hs \<noteq> 0 \<Longrightarrow> (cfg_self cfg, hs_term hs, hs_voted_for hs) \<in> cast"
  shows "vote_inv (cfg_self cfg, config_members cfg, hs_term hs, hs_voted_for hs) cast n"
  using assms(1)
proof (rule create_fields)
  fix hs' i t
  assume "store_hard_state (host_store h) = Some hs'" "raft89__config_validate (Some cfg) = RAFT89_OK"
    "self n = cfg_self cfg" "role n = RAFT89_FOLLOWER" "members n = config_members cfg"
    "member_count n = cfg_member_count cfg" "votes n = replicate (unat (cfg_member_count cfg)) 0"
    "\<not> has_action n" "step n = RAFT89_STEP_NONE" "after_apply n = RAFT89_STEP_NONE"
    "current_term n = hs_term hs'" "voted_for n = hs_voted_for hs'"
  with assms(2,3) config_members_ok [of cfg] show ?thesis
    by (simp add: vote_inv_def static_ok_def settled_def pending_hs_def) (simp add: config_members_def)
qed

end
