(* ===== verification/Raft_Cluster.thy ===== *)
theory Raft_Cluster
  imports Raft_Vote
begin

text \<open>
  A cluster of nodes that talk over an unreliable network and keep their hard state on disk. The
  events are the library calls of one node, made by a host that keeps the contract of the header:
  it acknowledges a hard-state action with OK only when that state is on disk, and it starts a
  node from the hard state on disk. Everything else is left to the adversary: which calls are
  made when, what the log store and the random source return, which allocations fail, which
  messages are lost, delayed, duplicated or reordered, and when nodes crash.

  \<open>cl_cast\<close> records the votes that were ever written to a disk; it is history only.
\<close>

record cluster =
  cl_nodes :: "raft89_id \<Rightarrow> raft89 option"
  cl_disk :: "raft89_id \<Rightarrow> raft89_hard_state"
  cl_net :: "raft89_message set"
  cl_cast :: "(raft89_id \<times> u64 \<times> raft89_id) set"

datatype event =
    EvTick raft89_id host raft89_time
  | EvRecv raft89_id host raft89_message
  | EvPropose raft89_id host "raft89_command list" raft89_size
  | EvTransmit raft89_id
  | EvPersist raft89_id
  | EvAck raft89_id host ulong raft89_action_result
  | EvBoot raft89_id host raft89_config
  | EvCrash raft89_id

definition set_node :: "cluster \<Rightarrow> raft89_id \<Rightarrow> raft89 option \<Rightarrow> cluster" where
  "set_node c i n = c\<lparr>cl_nodes := (cl_nodes c)(i := n)\<rparr>"

definition with_node :: "cluster \<Rightarrow> raft89_id \<Rightarrow> (raft89 \<Rightarrow> cluster option) \<Rightarrow> cluster option" where
  "with_node c i f = (case cl_nodes c i of None \<Rightarrow> None | Some n \<Rightarrow> f n)"

text \<open>The hard state \<open>hs\<close> reaches the disk of node \<open>i\<close>.\<close>

definition write_disk :: "cluster \<Rightarrow> raft89_id \<Rightarrow> raft89_hard_state \<Rightarrow> cluster" where
  "write_disk c i hs =
     c\<lparr>cl_disk := (cl_disk c)(i := hs),
       cl_cast := (if hs_voted_for hs = RAFT89_ID_NONE then cl_cast c
                   else insert (i, hs_term hs, hs_voted_for hs) (cl_cast c))\<rparr>"

fun cluster_step :: "raft89_id list \<Rightarrow> cluster \<Rightarrow> event \<Rightarrow> cluster option" where
  "cluster_step ms c (EvTick i h elapsed) =
     with_node c i (\<lambda>n. Some (set_node c i (fst (raft89_tick h (Some n) elapsed))))"
| "cluster_step ms c (EvRecv i h m) =
     with_node c i (\<lambda>n. if m \<in> cl_net c then Some (set_node c i (fst (raft89_recv h (Some n) (Some m))))
                        else None)"
| "cluster_step ms c (EvPropose i h cs count) =
     with_node c i (\<lambda>n. Some (set_node c i (fst (raft89_proposev h (Some n) (Some cs) count))))"
| "cluster_step ms c (EvTransmit i) =
     with_node c i (\<lambda>n. case raft89_next_action (Some n) True of
        (_, Some a) \<Rightarrow> (case act_u a of ActSend m \<Rightarrow> Some (c\<lparr>cl_net := insert m (cl_net c)\<rparr>) | _ \<Rightarrow> None)
      | (_, None) \<Rightarrow> None)"
| "cluster_step ms c (EvPersist i) =
     with_node c i (\<lambda>n. case pending_hs n of None \<Rightarrow> None | Some hs \<Rightarrow> Some (write_disk c i hs))"
| "cluster_step ms c (EvAck i h ident result) =
     with_node c i (\<lambda>n.
       if result = RAFT89_ACTION_OK \<and> pending_hs n \<noteq> None \<and> pending_hs n \<noteq> Some (cl_disk c i) then None
       else Some (set_node c i (fst (raft89_action_done h (Some n) ident result))))"
| "cluster_step ms c (EvBoot i h cfg) =
     (if cfg_self cfg = i \<and> set (config_members cfg) = set ms
         \<and> store_hard_state (host_store h) = Some (cl_disk c i)
      then Some (set_node c i (snd (raft89_create h (Some cfg) True))) else None)"
| "cluster_step ms c (EvCrash i) = Some (set_node c i None)"

definition cluster_init :: cluster where
  "cluster_init =
     \<lparr>cl_nodes = (\<lambda>_. None),
      cl_disk = (\<lambda>_. \<lparr>hs_current_term = raft89_u64_zero, hs_voted_for = RAFT89_ID_NONE\<rparr>),
      cl_net = {}, cl_cast = {}\<rparr>"

inductive reachable :: "raft89_id list \<Rightarrow> cluster \<Rightarrow> bool" for ms where
  init: "reachable ms cluster_init"
| step: "reachable ms c \<Longrightarrow> cluster_step ms c e = Some c' \<Longrightarrow> reachable ms c'"

text \<open>Running a list of events, for concrete executions.\<close>

fun cluster_run :: "raft89_id list \<Rightarrow> cluster \<Rightarrow> event list \<Rightarrow> cluster option" where
  "cluster_run ms c [] = Some c"
| "cluster_run ms c (e # es) =
     (case cluster_step ms c e of None \<Rightarrow> None | Some c' \<Rightarrow> cluster_run ms c' es)"

lemma cluster_run_reachable:
  "reachable ms c \<Longrightarrow> cluster_run ms c es = Some c' \<Longrightarrow> reachable ms c'"
  by (induction es arbitrary: c) (auto split: option.splits intro: reachable.step)

section \<open>The invariant\<close>

definition node_fits :: "raft89_id list \<Rightarrow> cluster \<Rightarrow> raft89_id \<Rightarrow> raft89 \<Rightarrow> bool" where
  "node_fits ms c i n \<longleftrightarrow> self n = i \<and> set (members n) = set ms \<and> vote_inv (identity_of n) (cl_cast c) n
     \<and> (hs_term (cl_disk c i) = current_term n \<and> hs_voted_for (cl_disk c i) = voted_for n
        \<or> pending_hs n = Some (cl_disk c i))"

definition disk_fits :: "cluster \<Rightarrow> bool" where
  "disk_fits c \<longleftrightarrow>
     (\<forall>i t v. (i, t, v) \<in> cl_cast c \<longrightarrow> v \<noteq> RAFT89_ID_NONE
        \<and> (t < hs_term (cl_disk c i) \<or> t = hs_term (cl_disk c i) \<and> v = hs_voted_for (cl_disk c i)))
   \<and> (\<forall>i. hs_voted_for (cl_disk c i) \<noteq> RAFT89_ID_NONE \<longrightarrow>
        (i, hs_term (cl_disk c i), hs_voted_for (cl_disk c i)) \<in> cl_cast c)
   \<and> (\<forall>i t v w. (i, t, v) \<in> cl_cast c \<and> (i, t, w) \<in> cl_cast c \<longrightarrow> v = w)"

definition cluster_inv :: "raft89_id list \<Rightarrow> cluster \<Rightarrow> bool" where
  "cluster_inv ms c \<longleftrightarrow> (\<forall>i n. cl_nodes c i = Some n \<longrightarrow> node_fits ms c i n)
     \<and> (\<forall>m \<in> cl_net c. vote_in (cl_cast c) m) \<and> disk_fits c"

lemma vote_inv_identity: "vote_inv k cast n \<Longrightarrow> k = identity_of n"
  by (simp add: vote_inv_def identity_of_def)

text \<open>A call that keeps the identity keeps the node in its place.\<close>

lemma node_fits_keep:
  assumes fits: "node_fits ms c i n" and inv: "vote_inv (identity_of n) (cl_cast c) n'"
    and hs: "pending_hs n = None \<or> pending_hs n' = pending_hs n"
  shows "node_fits ms c i n'"
  using assms vote_inv_identity [OF inv] by (auto simp: node_fits_def identity_of_def)

lemma cluster_inv_set_node:
  assumes "cluster_inv ms c" and "\<And>n. x = Some n \<Longrightarrow> node_fits ms c i n"
  shows "cluster_inv ms (set_node c i x)"
  using assms by (auto simp: cluster_inv_def set_node_def node_fits_def disk_fits_def)

text \<open>A busy or faulted node refuses every event.\<close>

lemma busy_keeps:
  assumes "faulted n \<or> has_action n"
  shows "fst (raft89_tick h (Some n) t) = Some n" "fst (raft89_recv h (Some n) (Some m)) = Some n"
    "fst (raft89_proposev h (Some n) cs count) = Some n"
  using assms by (auto simp: raft89_tick_def raft89_recv_def raft89_proposev_def split: option.split)


lemma call_keeps:
  assumes "node_fits ms c i n"
    and "\<not> faulted n \<Longrightarrow> \<not> has_action n \<Longrightarrow> x = Some n' \<Longrightarrow> vote_inv (identity_of n) (cl_cast c) n'"
    and "faulted n \<or> has_action n \<Longrightarrow> x = Some n" and "x = Some n'"
  shows "node_fits ms c i n'"
proof (cases "faulted n \<or> has_action n")
  case True
  with assms show ?thesis by simp
next
  case False
  then show ?thesis
    by (intro node_fits_keep [OF assms(1)]) (use assms in \<open>simp_all add: pending_hs_def\<close>)
qed

lemma node_fits_ack:
  assumes inv: "cluster_inv ms c" and n: "cl_nodes c i = Some n"
    and guard: "result = RAFT89_ACTION_OK \<Longrightarrow> pending_hs n = None \<or> pending_hs n = Some (cl_disk c i)"
    and call: "fst (raft89_action_done h (Some n) ident result) = Some n'"
  shows "node_fits ms c i n'"
proof -
  have fits: "node_fits ms c i n" and disk: "disk_fits c" using inv n by (simp_all add: cluster_inv_def)
  then have v: "vote_inv (identity_of n) (cl_cast c) n" and self: "self n = i" by (simp_all add: node_fits_def)
  obtain rc where ack: "raft89_action_done h (Some n) ident result = (Some n', rc)"
    using call by (metis prod.collapse)
  have "(self n, hs_term hs, hs_voted_for hs) \<in> cl_cast c"
    if "result = RAFT89_ACTION_OK" "pending_hs n = Some hs" "hs_voted_for hs \<noteq> 0" for hs
    using guard [OF that(1)] that disk self by (auto simp: disk_fits_def)
  from vote_inv_action_done [OF v ack this] show ?thesis
  proof
    assume "vote_inv (identity_of n) (cl_cast c) n' \<and> pending_hs n' = pending_hs n"
    then show ?thesis by (intro node_fits_keep [OF fits]) simp_all
  next
    assume a: "result \<noteq> RAFT89_ACTION_FATAL \<and> has_action n \<and> (\<forall>hs. pending_hs n = Some hs \<longrightarrow> result = RAFT89_ACTION_OK)
      \<and> vote_inv (identity_of (acknowledged n)) (cl_cast c) n'"
    then have id: "identity_of n' = identity_of (acknowledged n)" using vote_inv_identity by metis
    with a have "self n' = self n" "members n' = members n" "vote_inv (identity_of n') (cl_cast c) n'"
      by (simp_all add: identity_of_def acknowledged_eq split: option.splits)
    moreover have "hs_term (cl_disk c i) = current_term n' \<and> hs_voted_for (cl_disk c i) = voted_for n'"
    proof (cases "pending_hs n")
      case None
      with fits id a show ?thesis by (auto simp: node_fits_def identity_of_def acknowledged_eq)
    next
      case (Some hs)
      with a guard have "cl_disk c i = hs" by simp
      with Some id a show ?thesis by (simp add: identity_of_def acknowledged_eq)
    qed
    ultimately show ?thesis using fits by (simp add: node_fits_def)
  qed
qed

lemma cluster_inv_persist:
  assumes inv: "cluster_inv ms c" and n: "cl_nodes c i = Some n" and hs: "pending_hs n = Some hs"
  shows "cluster_inv ms (write_disk c i hs)"
proof -
  have fits: "node_fits ms c i n" and d: "disk_fits c" using inv n by (simp_all add: cluster_inv_def)
  let ?c = "write_disk c i hs"
  have adv: "advances (current_term n) (voted_for n) hs" using fits hs by (simp add: node_fits_def vote_inv_def)
  have cast: "cl_cast c \<subseteq> cl_cast ?c" by (auto simp: write_disk_def)
  have old: "v \<noteq> RAFT89_ID_NONE" "t < hs_term hs \<or> t = hs_term hs \<and> v = hs_voted_for hs" if "(i, t, v) \<in> cl_cast c" for t v
  proof -
    from that d have v: "v \<noteq> RAFT89_ID_NONE"
      and t: "t < hs_term (cl_disk c i) \<or> t = hs_term (cl_disk c i) \<and> v = hs_voted_for (cl_disk c i)"
      by (auto simp: disk_fits_def)
    show "v \<noteq> RAFT89_ID_NONE" by (rule v)
    from fits show "t < hs_term hs \<or> t = hs_term hs \<and> v = hs_voted_for hs"
      using t v adv hs by (auto simp: node_fits_def advances_def)
  qed
  have bound: "v \<noteq> RAFT89_ID_NONE \<and> (t < hs_term (cl_disk c j) \<or> t = hs_term (cl_disk c j) \<and> v = hs_voted_for (cl_disk c j))"
    if "(j, t, v) \<in> cl_cast c" for j t v using d that by (simp add: disk_fits_def)
  have once: "v = w" if "(j, t, v) \<in> cl_cast c" "(j, t, w) \<in> cl_cast c" for j t v w
    using d that by (auto simp: disk_fits_def)
  have kept: "hs_voted_for (cl_disk c j) \<noteq> 0 \<Longrightarrow> (j, hs_term (cl_disk c j), hs_voted_for (cl_disk c j)) \<in> cl_cast c" for j
    using d by (simp add: disk_fits_def)
  have "disk_fits ?c"
    unfolding disk_fits_def write_disk_def using kept
    by (auto dest: bound old once split: if_splits)
  moreover have "node_fits ms ?c j m" if "cl_nodes ?c j = Some m" for j m
    using that inv n hs vote_inv_mono [OF _ cast]
    by (auto simp: cluster_inv_def node_fits_def write_disk_def)
  moreover have "vote_in (cl_cast ?c) m" if "m \<in> cl_net ?c" for m
    using that inv vote_in_mono [OF _ cast] by (simp add: cluster_inv_def write_disk_def)
  ultimately show ?thesis by (simp add: cluster_inv_def)
qed

lemma node_fits_boot:
  assumes inv: "cluster_inv ms c" and "set (config_members cfg) = set ms"
    and hs: "store_hard_state (host_store h) = Some (cl_disk c (cfg_self cfg))"
    and n: "snd (raft89_create h (Some cfg) True) = Some n"
  shows "node_fits ms c (cfg_self cfg) n"
proof -
  have ok: "raft89_create h (Some cfg) True = (RAFT89_OK, Some n)"
    using n by (auto simp: raft89_create_def split: if_splits option.splits prod.splits)
  have v: "vote_inv (cfg_self cfg, config_members cfg, hs_term (cl_disk c (cfg_self cfg)),
      hs_voted_for (cl_disk c (cfg_self cfg))) (cl_cast c) n"
    by (rule vote_inv_create [OF ok hs]) (use inv in \<open>simp add: cluster_inv_def disk_fits_def\<close>)
  from vote_inv_identity [OF v] v assms(2) show ?thesis by (auto simp: node_fits_def identity_of_def)
qed

lemma cluster_inv_init: "cluster_inv ms cluster_init"
  by (simp add: cluster_inv_def cluster_init_def disk_fits_def)

lemma cluster_inv_step:
  assumes inv: "cluster_inv ms c" and step: "cluster_step ms c e = Some c'"
  shows "cluster_inv ms c'"
proof -
  have fits: "node_fits ms c i n" if "cl_nodes c i = Some n" for i n using inv that by (simp add: cluster_inv_def)
  then have v: "vote_inv (identity_of n) (cl_cast c) n" if "cl_nodes c i = Some n" for i n
    using that by (simp add: node_fits_def)
  show ?thesis
  proof (cases e)
    case (EvTick i h t)
    then obtain n where n: "cl_nodes c i = Some n" and c': "c' = set_node c i (fst (raft89_tick h (Some n) t))"
      using step by (auto simp: with_node_def split: option.splits)
    have "vote_inv (identity_of n) (cl_cast c) n'" if "fst (raft89_tick h (Some n) t) = Some n'" for n'
      using vote_inv_tick [OF v [OF n], of h t n'] that by (metis prod.collapse)
    then show ?thesis unfolding c'
      by (intro cluster_inv_set_node [OF inv] call_keeps [OF fits [OF n]]) (simp_all add: busy_keeps)
  next
    case (EvRecv i h m)
    then obtain n where n: "cl_nodes c i = Some n" and m: "m \<in> cl_net c"
      and c': "c' = set_node c i (fst (raft89_recv h (Some n) (Some m)))"
      using step by (auto simp: with_node_def split: option.splits if_splits)
    have "vote_in (cl_cast c) m" using inv m by (simp add: cluster_inv_def)
    then have "vote_inv (identity_of n) (cl_cast c) n'" if "fst (raft89_recv h (Some n) (Some m)) = Some n'" for n'
      using vote_inv_recv [OF v [OF n], of m h n'] that by (metis prod.collapse)
    then show ?thesis unfolding c'
      by (intro cluster_inv_set_node [OF inv] call_keeps [OF fits [OF n]]) (simp_all add: busy_keeps)
  next
    case (EvPropose i h cs k)
    then obtain n where n: "cl_nodes c i = Some n"
      and c': "c' = set_node c i (fst (raft89_proposev h (Some n) (Some cs) k))"
      using step by (auto simp: with_node_def split: option.splits)
    have "vote_inv (identity_of n) (cl_cast c) n'" if "fst (raft89_proposev h (Some n) (Some cs) k) = Some n'" for n'
      using vote_inv_proposev [OF v [OF n], of h "Some cs" k n'] that by (metis prod.collapse)
    then show ?thesis unfolding c'
      by (intro cluster_inv_set_node [OF inv] call_keeps [OF fits [OF n]]) (simp_all add: busy_keeps)
  next
    case (EvTransmit i)
    then obtain n m where n: "cl_nodes c i = Some n" and m: "has_action n" "act_u (action n) = ActSend m"
      and c': "c' = c\<lparr>cl_net := insert m (cl_net c)\<rparr>"
      using step by (auto simp: with_node_def raft89_next_action_def split: option.splits raft89_action_u.splits if_splits)
    have "vote_in (cl_cast c) m" using v [OF n] m by (simp add: vote_inv_def)
    then show ?thesis using inv by (auto simp: c' cluster_inv_def node_fits_def disk_fits_def)
  next
    case (EvPersist i)
    then show ?thesis
      using step cluster_inv_persist [OF inv] by (auto simp: with_node_def split: option.splits)
  next
    case (EvAck i h ident result)
    then obtain n where n: "cl_nodes c i = Some n"
      and g: "result = RAFT89_ACTION_OK \<Longrightarrow> pending_hs n = None \<or> pending_hs n = Some (cl_disk c i)"
      and c': "c' = set_node c i (fst (raft89_action_done h (Some n) ident result))"
      using step by (auto simp: with_node_def split: option.splits if_splits)
    show ?thesis unfolding c'
      by (rule cluster_inv_set_node [OF inv]) (rule node_fits_ack [OF inv n g])
  next
    case (EvBoot i h cfg)
    then have g: "set (config_members cfg) = set ms" "store_hard_state (host_store h) = Some (cl_disk c (cfg_self cfg))"
      and c': "c' = set_node c (cfg_self cfg) (snd (raft89_create h (Some cfg) True))"
      using step by (auto split: if_splits)
    show ?thesis unfolding c'
      by (rule cluster_inv_set_node [OF inv]) (rule node_fits_boot [OF inv g])
  next
    case (EvCrash i)
    then show ?thesis using step cluster_inv_set_node [OF inv, of None] by auto
  qed
qed

lemma reachable_inv: "reachable ms c \<Longrightarrow> cluster_inv ms c"
  by (induction rule: reachable.induct) (auto intro: cluster_inv_init cluster_inv_step)


section \<open>Elections\<close>

inductive later :: "raft89_id list \<Rightarrow> cluster \<Rightarrow> cluster \<Rightarrow> bool" for ms where
  same: "later ms c c"
| onward: "later ms c c' \<Longrightarrow> cluster_step ms c' e = Some c'' \<Longrightarrow> later ms c c''"

lemma later_reachable: "later ms c c' \<Longrightarrow> reachable ms c \<Longrightarrow> reachable ms c'"
  by (induction rule: later.induct) (auto intro: reachable.step)

lemma cast_step: "cluster_step ms c e = Some c' \<Longrightarrow> cl_cast c \<subseteq> cl_cast c'"
  by (cases e) (auto simp: with_node_def set_node_def write_disk_def split: option.splits prod.splits
      raft89_action_u.splits if_splits)

lemma cast_later: "later ms c c' \<Longrightarrow> cl_cast c \<subseteq> cl_cast c'"
  by (induction rule: later.induct) (auto dest: cast_step)

text \<open>A leader holds a majority of durable votes of its term.\<close>

lemma leader_backed:
  assumes "reachable ms c" and "cl_nodes c i = Some n" and "role n = RAFT89_LEADER" and "distinct ms"
  shows "majority_of ms (granters n) \<and> (\<forall>k \<in> granters n. (k, current_term n, i) \<in> cl_cast c)"
proof -
  have fits: "node_fits ms c i n" using reachable_inv [OF assms(1)] assms(2) by (simp add: cluster_inv_def)
  then have st: "static_ok n" and lead: "leader_ok (cl_cast c) n" and ids: "self n = i" "set (members n) = set ms"
    using assms(3) by (simp_all add: node_fits_def vote_inv_def)
  have "length (members n) = length ms"
    using ids(2) st \<open>distinct ms\<close> by (metis distinct_card static_ok_def)
  moreover have "majority_of (members n) (granters n)"
    by (rule quorum_majority [OF st]) (use lead in \<open>simp_all add: leader_ok_def\<close>)
  ultimately show ?thesis using lead ids by (auto simp: leader_ok_def backed_def majority_of_def)
qed

lemma cast_bound:
  "cluster_inv ms c \<Longrightarrow> (i, t, v) \<in> cl_cast c \<Longrightarrow>
     v \<noteq> RAFT89_ID_NONE \<and> (t < hs_term (cl_disk c i) \<or> t = hs_term (cl_disk c i) \<and> v = hs_voted_for (cl_disk c i))"
  by (simp add: cluster_inv_def disk_fits_def)

lemma cast_once:
  "reachable ms c \<Longrightarrow> (i, t, v) \<in> cl_cast c \<Longrightarrow> (i, t, w) \<in> cl_cast c \<Longrightarrow> v = w"
  using reachable_inv [of ms c] by (auto simp: cluster_inv_def disk_fits_def)

text \<open>C1: Election safety. Two nodes that lead the same term, at the same time or at different
  times of an execution, are one node, whatever messages are lost, repeated or reordered and
  whichever nodes crash and restart in between.\<close>

theorem election_safety:
  assumes "distinct ms" and "reachable ms c" and "later ms c c'"
    and "cl_nodes c i = Some a" and "role a = RAFT89_LEADER"
    and "cl_nodes c' j = Some b" and "role b = RAFT89_LEADER" and "current_term a = current_term b"
  shows "i = j"
proof -
  have r: "reachable ms c'" by (rule later_reachable [OF assms(3,2)])
  note A = leader_backed [OF assms(2,4,5,1)] and B = leader_backed [OF r assms(6,7,1)]
  obtain k where "k \<in> granters a" "k \<in> granters b"
    using A B by (auto elim: majority.common_member)
  with A B cast_later [OF assms(3)] assms(8) have "(k, current_term b, i) \<in> cl_cast c'" "(k, current_term b, j) \<in> cl_cast c'"
    by auto
  then show ?thesis by (rule cast_once [OF r])
qed

section \<open>Durability of votes\<close>

text \<open>A hard state that may follow another: a later term, or the same term with its vote kept.\<close>

definition hs_follows :: "raft89_hard_state \<Rightarrow> raft89_hard_state \<Rightarrow> bool" where
  "hs_follows hs hs' \<longleftrightarrow> hs_term hs < hs_term hs'
     \<or> hs_term hs = hs_term hs' \<and> (hs_voted_for hs = RAFT89_ID_NONE \<or> hs_voted_for hs = hs_voted_for hs')"

definition node_hs :: "raft89 \<Rightarrow> raft89_hard_state" where
  "node_hs n = \<lparr>hs_current_term = raft89__to_public (current_term n), hs_voted_for = voted_for n\<rparr>"

lemma hs_follows_refl [simp]: "hs_follows hs hs"
  by (simp add: hs_follows_def)

lemma hs_follows_trans: "hs_follows a b \<Longrightarrow> hs_follows b c \<Longrightarrow> hs_follows a c"
  by (auto simp: hs_follows_def)

lemma hs_eqI: "hs_term a = hs_term b \<Longrightarrow> hs_voted_for a = hs_voted_for b \<Longrightarrow> a = (b :: raft89_hard_state)"
  by (cases a, cases b) (simp add: hs_term_def)

lemma node_fits_disk:
  assumes "node_fits ms c i n"
  shows "hs_follows (node_hs n) (cl_disk c i)" and "pending_hs n = Some hs \<Longrightarrow> hs_follows (cl_disk c i) hs"
  using assms by (auto simp: node_fits_def hs_follows_def node_hs_def hs_term_def [of "\<lparr>hs_current_term = t, hs_voted_for = v\<rparr>" for t v]
      vote_inv_def advances_def)

text \<open>C4: The hard state on a disk never goes back: along every step of an execution, crashes and
  restarts included, its term does not decrease and a vote recorded in it is not changed within
  its term.\<close>

theorem hard_state_monotone:
  assumes "reachable ms c" and "cluster_step ms c e = Some c'"
  shows "hs_follows (cl_disk c i) (cl_disk c' i)"
proof -
  have fits: "node_fits ms c j n" if "cl_nodes c j = Some n" for j n
    using reachable_inv [OF assms(1)] that by (simp add: cluster_inv_def)
  consider "cl_disk c' = cl_disk c" | j n hs where "cl_nodes c j = Some n" "pending_hs n = Some hs"
      "cl_disk c' = (cl_disk c)(j := hs)"
    using assms(2) by (cases e) (auto simp: with_node_def set_node_def write_disk_def
        split: option.splits prod.splits raft89_action_u.splits if_splits)
  then show ?thesis
  proof cases
    case (2 j n hs)
    with node_fits_disk(2) [OF fits [OF 2(1)] 2(2)] show ?thesis by simp
  qed simp
qed

text \<open>C2: No vote is announced before it is durable: whenever a message that grants a vote is in
  the network, the disk of its sender holds exactly that vote or a later term.\<close>

theorem votes_durable:
  assumes "reachable ms c" and "m \<in> cl_net c"
    and "msg_u m = RAFT89_MSG_REQUEST_VOTE_RESPONSE r" and "rvr_vote_granted r \<noteq> 0"
  shows "raft89__from_public (rvr_term r) < hs_term (cl_disk c (msg_from m))
    \<or> cl_disk c (msg_from m) = \<lparr>hs_current_term = rvr_term r, hs_voted_for = msg_to m\<rparr>"
proof -
  have inv: "cluster_inv ms c" by (rule reachable_inv [OF assms(1)])
  with assms have "(msg_from m, raft89__from_public (rvr_term r), msg_to m) \<in> cl_cast c"
    by (auto simp: cluster_inv_def vote_in_def)
  from cast_bound [OF inv this] show ?thesis by (auto simp: hs_term_def)
qed

text \<open>C3: A voter grants at most one vote in a term: two granting messages of one sender for one
  term, wherever they are in the network, are addressed to the same candidate.\<close>

theorem one_vote_per_term:
  assumes "reachable ms c" and "m \<in> cl_net c" and "m' \<in> cl_net c" and "msg_from m = msg_from m'"
    and "msg_u m = RAFT89_MSG_REQUEST_VOTE_RESPONSE r" and "rvr_vote_granted r \<noteq> 0"
    and "msg_u m' = RAFT89_MSG_REQUEST_VOTE_RESPONSE r'" and "rvr_vote_granted r' \<noteq> 0"
    and "rvr_term r = rvr_term r'"
  shows "msg_to m = msg_to m'"
proof -
  have "vote_in (cl_cast c) m" "vote_in (cl_cast c) m'"
    using reachable_inv [OF assms(1)] assms(2,3) by (simp_all add: cluster_inv_def)
  then show ?thesis
    using assms(4-9) by (auto simp: vote_in_def intro: cast_once [OF assms(1)])
qed

lemma action_done_hs:
  assumes fits: "node_fits ms c i n" and inv: "cluster_inv ms c" and n: "cl_nodes c i = Some n"
    and guard: "result = RAFT89_ACTION_OK \<Longrightarrow> pending_hs n = None \<or> pending_hs n = Some (cl_disk c i)"
    and call: "raft89_action_done h (Some n) ident result = (Some n', rc)"
  shows "node_hs n' = node_hs n \<or> node_hs n' = cl_disk c i"
proof -
  have v: "vote_inv (identity_of n) (cl_cast c) n" and self: "self n = i" using fits by (simp_all add: node_fits_def)
  have "(self n, hs_term hs, hs_voted_for hs) \<in> cl_cast c"
    if "result = RAFT89_ACTION_OK" "pending_hs n = Some hs" "hs_voted_for hs \<noteq> 0" for hs
    using guard [OF that(1)] that inv self by (auto simp: cluster_inv_def disk_fits_def)
  from vote_inv_action_done [OF v call this] show ?thesis
  proof
    assume "vote_inv (identity_of n) (cl_cast c) n' \<and> pending_hs n' = pending_hs n"
    then show ?thesis using vote_inv_identity by (fastforce simp: identity_of_def node_hs_def)
  next
    assume a: "result \<noteq> RAFT89_ACTION_FATAL \<and> has_action n \<and> (\<forall>hs. pending_hs n = Some hs \<longrightarrow> result = RAFT89_ACTION_OK)
      \<and> vote_inv (identity_of (acknowledged n)) (cl_cast c) n'"
    then have id: "identity_of n' = identity_of (acknowledged n)" using vote_inv_identity by metis
    show ?thesis
    proof (cases "pending_hs n")
      case None
      with id a show ?thesis by (simp add: identity_of_def acknowledged_eq node_hs_def)
    next
      case (Some hs)
      with a guard have "cl_disk c i = hs" by simp
      with Some id a have "node_hs n' = cl_disk c i"
        by (intro hs_eqI) (simp_all add: identity_of_def acknowledged_eq node_hs_def hs_term_def)
      then show ?thesis by simp
    qed
  qed
qed

text \<open>One step leaves the hard state of a node as it was, or makes it the one on disk.\<close>

lemma node_hs_step:
  assumes inv: "cluster_inv ms c" and step: "cluster_step ms c e = Some c'"
    and n: "cl_nodes c i = Some n" and n': "cl_nodes c' i = Some n'"
  shows "node_hs n' = node_hs n \<or> node_hs n' = cl_disk c i"
proof -
  have fits: "node_fits ms c i n" using inv n by (simp add: cluster_inv_def)
  then have v: "vote_inv (identity_of n) (cl_cast c) n" by (simp add: node_fits_def)
  have same: "node_hs m = node_hs n" if "vote_inv (identity_of n) X m" for m X
    using vote_inv_identity [OF that] by (simp add: identity_of_def node_hs_def)
  show ?thesis
  proof (cases e)
    case (EvTick j h t)
    then show ?thesis
      using step n n' same vote_inv_tick [OF v, of h t n' "snd (raft89_tick h (Some n) t)"]
      by (cases "i = j") (auto simp: with_node_def set_node_def prod_eq_iff split: option.splits)
  next
    case (EvRecv j h m)
    moreover from this step inv have "vote_in (cl_cast c) m"
      by (auto simp: with_node_def cluster_inv_def split: option.splits if_splits)
    note vote_inv_recv [OF v this, of h n' "snd (raft89_recv h (Some n) (Some m))"]
    ultimately show ?thesis
      using step n n' same
      by (cases "i = j") (auto simp: with_node_def set_node_def prod_eq_iff split: option.splits if_splits)
  next
    case (EvPropose j h cs k)
    let ?r = "raft89_proposev h (Some n) (Some cs) k"
    from EvPropose show ?thesis
      using step n n' same vote_inv_proposev [OF v, of h "Some cs" k n' "fst (snd ?r)" "snd (snd ?r)"]
      by (cases "i = j") (auto simp: with_node_def set_node_def prod_eq_iff split: option.splits)
  next
    case (EvAck j h ident result)
    then show ?thesis
      using step n n' action_done_hs [OF fits inv n, of result h ident n' "snd (raft89_action_done h (Some n) ident result)"]
      by (cases "i = j") (auto simp: with_node_def set_node_def prod_eq_iff split: option.splits if_splits)
  next
    case (EvBoot j h cfg)
    show ?thesis
    proof (cases "i = j")
      case True
      with EvBoot step n' have g: "store_hard_state (host_store h) = Some (cl_disk c i)"
        and s: "snd (raft89_create h (Some cfg) True) = Some n'"
        by (auto simp: set_node_def split: if_splits)
      then have ok: "raft89_create h (Some cfg) True = (RAFT89_OK, Some n')"
        by (auto simp: raft89_create_def split: if_splits option.splits prod.splits)
      then show ?thesis
        by (rule create_fields) (use g in \<open>auto intro!: disjI2 hs_eqI simp: node_hs_def hs_term_def\<close>)
    qed (use EvBoot step n n' in \<open>auto simp: set_node_def split: if_splits\<close>)
  qed (use step n n' in \<open>auto simp: with_node_def set_node_def write_disk_def
      split: option.splits prod.splits raft89_action_u.splits if_splits\<close>)
qed

text \<open>The term and vote of a node never go back either, from one step of an execution to the
  next, restarts from disk included.\<close>

theorem node_term_monotone:
  assumes "reachable ms c" and "cluster_step ms c e = Some c'"
    and "cl_nodes c i = Some n" and "cl_nodes c' i = Some n'"
  shows "hs_follows (node_hs n) (node_hs n')"
proof -
  have inv: "cluster_inv ms c" by (rule reachable_inv [OF assms(1)])
  with assms(3) have "node_fits ms c i n" by (simp add: cluster_inv_def)
  from node_hs_step [OF inv assms(2-4)] node_fits_disk(1) [OF this] show ?thesis by auto
qed

section \<open>A concrete election\<close>

definition demo_host :: host where
  "demo_host = \<lparr>host_store = \<lparr>store_hard_state = Some \<lparr>hs_current_term = raft89_u64_zero, hs_voted_for = 0\<rparr>,
     store_log_last = Some (raft89_u64_zero, raft89_u64_zero), store_log_term = (\<lambda>_. None),
     store_log_size = (\<lambda>_. None), store_log_read = (\<lambda>_ _. None)\<rparr>,
     host_random = (\<lambda>_ _. 0), host_malloc = (\<lambda>_. True), host_uninit = 0\<rparr>"

definition demo_config :: "raft89_id \<Rightarrow> raft89_config" where
  "demo_config i = \<lparr>cfg_self = i, cfg_members = Some [1, 2, 3], cfg_member_count = 3,
     cfg_heartbeat_interval = 10, cfg_election_timeout_min = 50, cfg_election_timeout_max = 100,
     cfg_max_append_entries = 8, cfg_max_append_bytes = 1024, cfg_store_hard_state = True,
     cfg_store_log_last = True, cfg_store_log_term = True, cfg_store_log_size = True,
     cfg_store_log_read = True, cfg_random_next = True, cfg_applied_index = raft89_u64_zero\<rparr>"

definition demo_events :: "event list" where
  "demo_events =
     [EvBoot 1 demo_host (demo_config 1), EvBoot 2 demo_host (demo_config 2), EvTick 1 demo_host 50,
      EvPersist 1, EvAck 1 demo_host 1 RAFT89_ACTION_OK, EvTransmit 1,
      EvRecv 2 demo_host \<lparr>msg_from = 1, msg_to = 2, msg_u = RAFT89_MSG_REQUEST_VOTE
        \<lparr>rv_term = raft89_u64_from_u32 1, rv_last_log_index = raft89_u64_zero, rv_last_log_term = raft89_u64_zero\<rparr>\<rparr>,
      EvPersist 2, EvAck 2 demo_host 1 RAFT89_ACTION_OK, EvTransmit 2,
      EvAck 1 demo_host 2 RAFT89_ACTION_OK, EvAck 1 demo_host 3 RAFT89_ACTION_LOST,
      EvRecv 1 demo_host \<lparr>msg_from = 2, msg_to = 1, msg_u = RAFT89_MSG_REQUEST_VOTE_RESPONSE
        \<lparr>rvr_term = raft89_u64_from_u32 1, rvr_vote_granted = 1\<rparr>\<rparr>]"

text \<open>The cluster after the first \<open>k\<close> events.\<close>

definition demo :: "nat \<Rightarrow> cluster" where
  "demo k = the (cluster_run [1, 2, 3] cluster_init (take k demo_events))"

definition demo_node :: "nat \<Rightarrow> raft89_id \<Rightarrow> raft89" where
  "demo_node k i = the (cl_nodes (demo k) i)"

definition vote_granted_msg :: raft89_message where
  "vote_granted_msg = \<lparr>msg_from = 2, msg_to = 1, msg_u = RAFT89_MSG_REQUEST_VOTE_RESPONSE
     \<lparr>rvr_term = raft89_u64_from_u32 1, rvr_vote_granted = 1\<rparr>\<rparr>"

lemma demo_run: "cluster_run [1, 2, 3] cluster_init demo_events \<noteq> None"
  by code_simp

lemma cluster_run_append:
  "cluster_run ms c (es @ es') =
     (case cluster_run ms c es of None \<Rightarrow> None | Some c' \<Rightarrow> cluster_run ms c' es')"
  by (induction es arbitrary: c) (auto split: option.splits)

lemma demo_prefix: "cluster_run [1, 2, 3] cluster_init (take k demo_events) = Some (demo k)"
proof -
  have "cluster_run [1, 2, 3] cluster_init (take k demo_events @ drop k demo_events) \<noteq> None"
    by (simp add: demo_run)
  then show ?thesis unfolding cluster_run_append demo_def by (auto split: option.splits)
qed

lemma demo_reachable: "reachable [1, 2, 3] (demo k)"
  by (rule cluster_run_reachable [OF reachable.init demo_prefix])

lemma demo_step:
  assumes "k < length demo_events"
  shows "cluster_step [1, 2, 3] (demo k) (demo_events ! k) = Some (demo (Suc k))"
  using demo_prefix [of "Suc k"] unfolding take_Suc_conv_app_nth [OF assms] cluster_run_append demo_prefix
  by (simp split: option.splits)

lemma demo_length: "length demo_events = 13"
  by (simp add: demo_events_def)

lemma demo_node_eq: "cl_nodes (demo k) i \<noteq> None \<Longrightarrow> cl_nodes (demo k) i = Some (demo_node k i)"
  by (auto simp: demo_node_def)

lemma demo_leader:
  "cl_nodes (demo 13) 1 \<noteq> None \<and> role (demo_node 13 1) = RAFT89_LEADER \<and> current_term (demo_node 13 1) = 1"
  by code_simp

lemma demo_disk: "hs_term (cl_disk (demo 7) 2) = 0 \<and> hs_term (cl_disk (demo 8) 2) = 1"
  by code_simp

lemma demo_voter:
  "cl_nodes (demo 8) 2 \<noteq> None \<and> cl_nodes (demo 9) 2 \<noteq> None
   \<and> current_term (demo_node 8 2) = 0 \<and> current_term (demo_node 9 2) = 1"
  by code_simp

lemma demo_vote: "vote_granted_msg \<in> cl_net (demo 10)"
  by code_simp

lemma from_u32_1 [simp]: "raft89__from_public (raft89_u64_from_u32 1) = 1"
  by (simp add: raft89__from_public_def raft89_u64_from_u32_def)

theorem election_safety_witness:
  "{j. \<exists>b. cl_nodes (demo 13) j = Some b \<and> role b = RAFT89_LEADER \<and> current_term b = 1} = {1}"
proof -
  have l: "cl_nodes (demo 13) 1 = Some (demo_node 13 1)" "role (demo_node 13 1) = RAFT89_LEADER"
    "current_term (demo_node 13 1) = 1"
    using demo_leader by (auto intro: demo_node_eq)
  from election_safety [OF _ demo_reachable later.same l(1,2)] l show ?thesis by auto
qed

theorem hard_state_monotone_witness:
  "hs_term (cl_disk (demo 7) 2) = 0 \<and> hs_term (cl_disk (demo 8) 2) = 1
   \<and> hs_follows (cl_disk (demo 7) 2) (cl_disk (demo 8) 2)"
  using hard_state_monotone [OF demo_reachable demo_step, of 7 2] demo_disk by (simp add: demo_length)

theorem node_term_monotone_witness:
  "current_term (demo_node 8 2) = 0 \<and> current_term (demo_node 9 2) = 1
   \<and> hs_follows (node_hs (demo_node 8 2)) (node_hs (demo_node 9 2))"
proof -
  have v: "cl_nodes (demo 8) 2 = Some (demo_node 8 2)" "cl_nodes (demo 9) 2 = Some (demo_node 9 2)"
    using demo_voter by (auto intro: demo_node_eq)
  from node_term_monotone [OF demo_reachable demo_step, of 8 2] v demo_voter show ?thesis
    by (simp add: demo_length)
qed

theorem votes_durable_witness:
  "vote_granted_msg \<in> cl_net (demo 10)
   \<and> (1 < hs_term (cl_disk (demo 10) 2)
      \<or> cl_disk (demo 10) 2 = \<lparr>hs_current_term = raft89_u64_from_u32 1, hs_voted_for = 1\<rparr>)"
  using demo_vote votes_durable [OF demo_reachable demo_vote] from_u32_1 by (simp add: vote_granted_msg_def)

theorem one_vote_per_term_witness:
  "msg_to ` {m \<in> cl_net (demo 10). msg_from m = 2 \<and> (\<exists>r. msg_u m = RAFT89_MSG_REQUEST_VOTE_RESPONSE r
     \<and> rvr_vote_granted r \<noteq> 0 \<and> rvr_term r = raft89_u64_from_u32 1)} = {1}" (is "msg_to ` ?M = _")
proof -
  have "vote_granted_msg \<in> ?M" using demo_vote by (simp add: vote_granted_msg_def)
  moreover have "msg_to m = 1" if "m \<in> ?M" for m
    using that one_vote_per_term [OF demo_reachable _ demo_vote, of m]
    by (auto simp: vote_granted_msg_def)
  ultimately show ?thesis by (force simp: vote_granted_msg_def)
qed

end
