(* ===== verification/Raft_Order.thy ===== *)
theory Raft_Order
  imports Raft_Vote
begin

text \<open>
  The order of application, commitment and the log of one node: applied entries are committed,
  committed entries are in the log, and the entry handed to the state machine is always the one
  after the last applied. \<open>flow\<close> says what each continuation relies on when it is resumed.
\<close>

definition ordered :: "raft89 \<Rightarrow> bool" where
  "ordered n \<longleftrightarrow> applied_index n \<le> commit_index n \<and> commit_index n \<le> last_log_index n
     \<and> (\<forall>e. has_action n \<and> act_u (action n) = ActApply e \<longrightarrow>
          applied_index n < commit_index n \<and> entry_index e = raft89__to_public (applied_index n + 1))"

definition no_wrap :: "raft89 \<Rightarrow> bool" where
  "no_wrap n \<longleftrightarrow> unat (ae_prev_index n) + unat (pending_count n) < 2 ^ 64"

definition resting :: "raft89_step \<Rightarrow> bool" where
  "resting s \<longleftrightarrow> s = RAFT89_STEP_NONE \<or> s = RAFT89_STEP_AE_HARD_STATE"

definition applying :: "raft89 \<Rightarrow> bool" where
  "applying n \<longleftrightarrow> has_action n \<and> (\<exists>e. act_u (action n) = ActApply e) \<and> applied_index n < commit_index n"

text \<open>What a continuation relies on.\<close>

definition flow_step :: "raft89 \<Rightarrow> bool" where
  "flow_step n \<longleftrightarrow>
     (step n = RAFT89_STEP_APPLY \<longrightarrow> applying n)
   \<and> (step n = RAFT89_STEP_AE_HARD_STATE \<longrightarrow> no_wrap n)
   \<and> (step n = RAFT89_STEP_AE_TRUNCATE \<longrightarrow> no_wrap n \<and> commit_index n < ae_truncate_first n
        \<and> ae_truncate_first n \<le> ae_prev_index n + pending_count n)
   \<and> (step n = RAFT89_STEP_AE_APPEND \<longrightarrow> commit_index n \<le> ae_prev_index n + pending_count n)
   \<and> (step n = RAFT89_STEP_LEADER_APPEND \<longrightarrow> (\<forall>es. pending_entries n = Some es \<longrightarrow>
        commit_index n \<le> raft89__from_public (entry_index (es ! unat (pending_count n - 1)))))"

definition flow :: "raft89 \<Rightarrow> bool" where
  "flow n \<longleftrightarrow> settled n \<and> flow_step n \<and> (has_action n \<or> resting (step n))"

definition order_inv :: "raft89 \<Rightarrow> bool" where
  "order_inv n \<longleftrightarrow> ordered n \<and> (faulted n \<or> flow n)"

text \<open>A call that did not run out of memory leaves the invariant.\<close>

definition post :: "raft89 \<times> raft89_result \<Rightarrow> bool" where
  "post r \<longleftrightarrow> (snd r \<noteq> RAFT89_ERR_NOMEM \<longrightarrow> order_inv (fst r))"

text \<open>A node without an action, as the operations find it.\<close>

definition calm :: "raft89 \<Rightarrow> bool" where
  "calm n \<longleftrightarrow> ordered n \<and> settled n \<and> \<not> has_action n"

lemma ordered_vis: "ordered (vis n) = ordered n"
  by (simp add: ordered_def)

lemma ordered_cong: "vis a = vis b \<Longrightarrow> ordered a = ordered b"
  by (metis ordered_vis)

lemma flow_vis: "flow (vis n) = flow n"
proof -
  have "ae_truncate_first (vis n) = ae_truncate_first n" by (simp add: vis_def)
  then show ?thesis by (simp add: flow_def flow_step_def settled_def applying_def no_wrap_def)
qed

lemma flow_cong: "vis a = vis b \<Longrightarrow> flow a = flow b"
  by (metis flow_vis)

lemma post_faulted: "faulted (fst r) \<Longrightarrow> ordered (fst r) \<Longrightarrow> post r"
  by (simp add: post_def order_inv_def)

lemma post_stops:
  assumes "stops r" and "vis (fst r) = vis n" and "ordered n"
  shows "post r"
  using assms(1) ordered_cong [OF assms(2)] assms(3) by (auto simp: post_def stops_def order_inv_def)

lemma post_same:
  assumes "vis (fst r) = vis n" and "ordered n" and "flow n"
  shows "post r"
  using ordered_cong [OF assms(1)] flow_cong [OF assms(1)] assms(2,3) by (simp add: post_def order_inv_def)

lemma ordered_emit:
  assumes "ordered n" and "\<And>e. u \<noteq> ActApply e"
  shows "ordered (emit n u)"
  using assms by (simp add: ordered_def emit_def)

lemma flow_emit:
  assumes "settled n" and "flow_step n" and "step n \<noteq> RAFT89_STEP_APPLY"
  shows "flow (emit n u)"
  using assms by (auto simp: flow_def flow_step_def settled_def no_wrap_def emit_def)

lemma post_outcome:
  assumes "outcome n P r" and "\<And>u e. P u \<Longrightarrow> u \<noteq> ActApply e"
    and "calm n" and "flow_step n" and "step n \<noteq> RAFT89_STEP_APPLY"
  shows "post r"
  using assms(1) unfolding outcome_def
proof (elim disjE conjE exE)
  assume "stops r" "vis (fst r) = vis n"
  then show ?thesis by (rule post_stops) (use assms(3) in \<open>simp add: calm_def\<close>)
next
  fix u assume "P u" "vis (fst r) = vis (emit n u)"
  then show ?thesis
    using assms by (intro post_same [of r "emit n u"] ordered_emit flow_emit) (auto simp: calm_def)
qed

lemma calm_vis:
  assumes "vis a = vis b"
  shows "calm a = calm b"
  using ordered_cong [OF assms] visD [OF assms] by (simp add: calm_def settled_def)

text \<open>Application, from a node that may have left its step behind.\<close>

lemma post_apply_next:
  assumes "calm n"
  shows "post (raft89__apply_next h n) \<or> commit_index n \<le> applied_index n \<and> raft89__apply_next h n = (n, RAFT89_OK)"
proof (cases rule: apply_next_cases [of n h])
  case idle
  then show ?thesis by simp
next
  case stop
  then show ?thesis using assms post_stops [OF stop(2,3)] by (simp add: calm_def)
next
  case (apply_one e)
  let ?m = "(emit n (ActApply e))\<lparr>step := RAFT89_STEP_APPLY\<rparr>"
  have "ordered ?m" using assms apply_one by (auto simp: calm_def ordered_def emit_def)
  moreover have "flow ?m"
    using assms apply_one by (auto simp: calm_def flow_def flow_step_def settled_def applying_def emit_def)
  ultimately show ?thesis using post_same [OF apply_one(4)] by simp
qed

lemma post_apply_next_resting:
  assumes "calm n" and "flow_step n" and "resting (step n)"
  shows "post (raft89__apply_next h n)"
  using post_apply_next [OF assms(1), of h] assms
  by (auto simp: post_def order_inv_def flow_def calm_def)


section \<open>Leader operations\<close>

lemma calm_step [simp]: "calm (n\<lparr>step := s\<rparr>) = calm n"
  by (simp add: calm_def ordered_def settled_def)

lemma post_emit_send:
  assumes "calm n" and "flow_step n" and "step n \<noteq> RAFT89_STEP_APPLY"
  shows "post (raft89__emit_send n m)"
  by (rule post_outcome [OF outcome_emit_send]) (use assms in simp_all)

lemma post_leader_send_to:
  assumes "calm n" and "flow_step n" and "step n \<noteq> RAFT89_STEP_APPLY"
  shows "post (raft89__leader_send_to h n p)"
  by (rule post_outcome [OF outcome_leader_send_to]) (use assms in auto)

lemma flow_step_simple:
  "step n = RAFT89_STEP_NONE \<or> step n = RAFT89_STEP_LEADER_BROADCAST \<or> step n = RAFT89_STEP_STEP_DOWN
   \<or> step n = RAFT89_STEP_VOTE_RESPONSE \<or> step n = RAFT89_STEP_ELECTION_BROADCAST \<Longrightarrow> flow_step n"
  by (auto simp: flow_step_def)

lemma post_idle:
  assumes "calm n" and "flow_step n" and "resting (step n)"
  shows "post (n, rc)"
  using assms by (simp add: post_def order_inv_def flow_def calm_def)

lemma resting_cases: "resting s \<Longrightarrow> (s = RAFT89_STEP_NONE \<Longrightarrow> P) \<Longrightarrow> (s = RAFT89_STEP_AE_HARD_STATE \<Longrightarrow> P) \<Longrightarrow> P"
  by (auto simp: resting_def)

lemma post_advance_commit:
  assumes "calm n" and "flow_step n" and "resting (step n)" and "c \<le> last_log_index n"
    and "after = RAFT89_STEP_NONE \<or> after = RAFT89_STEP_AE_REPLY"
  shows "post (raft89__advance_commit h n c after)"
proof (cases "c \<le> commit_index n")
  case True
  then show ?thesis using post_idle [OF assms(1,2,3)] by (simp add: raft89__advance_commit_def)
next
  case False
  let ?n = "n\<lparr>commit_index := c, after_apply := after\<rparr>"
  have "applied_index n \<le> c" using assms(1) False by (auto simp: calm_def ordered_def)
  then have "calm ?n" using assms by (simp add: calm_def ordered_def settled_def)
  moreover have "flow_step ?n"
    using assms(2,3) by (elim resting_cases) (simp_all add: flow_step_def no_wrap_def)
  ultimately have "post (raft89__apply_next h ?n)" using assms(3) by (intro post_apply_next_resting) simp_all
  with False show ?thesis by (simp add: raft89__advance_commit_def)
qed

lemma majority_search_le:
  "stop \<le> index \<Longrightarrow> majority_search n index stop need \<le> index"
proof (induction n index stop need rule: majority_search.induct)
  case (1 n index stop need)
  show ?case
  proof (cases "stop < index \<and> \<not> need \<le> count_replicated n index")
    case True
    then have "index \<noteq> 0" by (auto simp: word_less_nat_alt)
    then have d: "unat (index - 1) = unat index - 1" by (rule unat_dec)
    moreover have "unat stop < unat index" using True by (simp add: word_less_nat_alt)
    ultimately have "stop \<le> index - 1" by (simp add: word_le_nat_alt)
    with 1 True have "majority_search n (index - 1) stop need \<le> index - 1" by (simp add: raft89__u64_dec_def)
    also have "index - 1 \<le> index" using d by (simp add: word_le_nat_alt)
    finally show ?thesis using True by (simp add: majority_search.simps [of n index] raft89__u64_dec_def)
  qed (use 1 in \<open>auto simp: majority_search.simps [of n index]\<close>)
qed

lemma log_term_at_faulted: "snd (raft89__log_term_at h n i) = Inl rc \<Longrightarrow> faulted (fst (raft89__log_term_at h n i))"
  by (auto simp: raft89__log_term_at_def split: if_splits option.splits)

lemma flow_step_vis:
  assumes "vis a = vis b"
  shows "flow_step a = flow_step b"
proof -
  have "flow_step (vis n) = flow_step n" for n
    by (simp add: flow_step_def applying_def no_wrap_def) (simp add: vis_def)
  then show ?thesis by (metis assms)
qed

lemma post_leader_maybe_commit:
  assumes "calm n" and "flow_step n" and "resting (step n)"
  shows "post (raft89__leader_maybe_commit h n)"
proof -
  let ?i = "majority_search n (last_log_index n) (commit_index n) (raft89__quorum n)"
  let ?m = "fst (raft89__log_term_at h n ?i)"
  have v: "vis ?m = vis n" by simp
  have m: "calm ?m" "flow_step ?m" "resting (step ?m)" "last_log_index ?m = last_log_index n"
    using calm_vis [OF v] flow_step_vis [OF v] visD [OF v] assms by simp_all
  have "?i \<le> last_log_index n"
    by (rule majority_search_le) (use assms in \<open>simp add: calm_def ordered_def\<close>)
  then have "post (raft89__advance_commit h ?m ?i RAFT89_STEP_NONE)"
    using m by (intro post_advance_commit) simp_all
  moreover have "post (n, RAFT89_OK)" "post (?m, RAFT89_OK)"
    using m assms by (auto intro!: post_idle)
  moreover have "post (?m, rc)" if "snd (raft89__log_term_at h n ?i) = Inl rc" for rc
    using m log_term_at_faulted [OF that] by (intro post_faulted) (simp_all add: calm_def)
  ultimately show ?thesis
    by (auto simp: raft89__leader_maybe_commit_def Let_def bind_rc_def split: sum.split)
qed

lemma calm_upd [simp]:
  "calm (n\<lparr>peer_cursor := x1\<rparr>) = calm n" "calm (n\<lparr>role := x2\<rparr>) = calm n" "calm (n\<lparr>leader_id := x3\<rparr>) = calm n"
  "calm (n\<lparr>heartbeat_elapsed := x4\<rparr>) = calm n" "calm (n\<lparr>election_elapsed := x5\<rparr>) = calm n"
  "calm (n\<lparr>next_index := x6\<rparr>) = calm n" "calm (n\<lparr>match_index := x7\<rparr>) = calm n"
  "calm (n\<lparr>votes := x8\<rparr>) = calm n" "calm (n\<lparr>votes_granted := x9\<rparr>) = calm n"
  "calm (n\<lparr>pending_msg := x10\<rparr>) = calm n" "calm (n\<lparr>pending_entries := x11\<rparr>) = calm n"
  "calm (n\<lparr>pending_count := x12\<rparr>) = calm n" "calm (n\<lparr>ae_prev_index := x13\<rparr>) = calm n"
  "calm (n\<lparr>ae_prev_term := x14\<rparr>) = calm n" "calm (n\<lparr>ae_leader_commit := x15\<rparr>) = calm n"
  "calm (n\<lparr>ae_leader_id := x16\<rparr>) = calm n" "calm (n\<lparr>ae_match_index := x17\<rparr>) = calm n"
  "calm (n\<lparr>ae_truncate_first := x18\<rparr>) = calm n" "calm (n\<lparr>ae_conflict_term := x19\<rparr>) = calm n"
  "calm (n\<lparr>ae_conflict_index := x20\<rparr>) = calm n" "calm (n\<lparr>ae_append_offset := x21\<rparr>) = calm n"
  "calm (n\<lparr>ae_reply_success := x22\<rparr>) = calm n" "calm (n\<lparr>faulted := x23\<rparr>) = calm n"
  "calm (n\<lparr>alloc_seq := x24\<rparr>) = calm n" "calm (n\<lparr>last_log_term := x25\<rparr>) = calm n"
  "calm (n\<lparr>current_term := x26\<rparr>) = calm n" "calm (n\<lparr>voted_for := x27\<rparr>) = calm n"
  by (simp_all add: calm_def ordered_def settled_def)

lemma post_leader_broadcast_next:
  assumes "calm n"
  shows "post (raft89__leader_broadcast_next h n)"
  using assms
  by (auto simp: raft89__leader_broadcast_next_def broadcast_finish_def Let_def
      resting_def
      intro!: post_leader_maybe_commit post_leader_send_to flow_step_simple)

lemma post_leader_after_append:
  assumes "calm n" and "flow_step n" and "step n = RAFT89_STEP_LEADER_APPEND"
  shows "post (raft89__leader_after_append h n)"
proof (cases "pending_entries n")
  case None
  then show ?thesis using assms
    by (auto simp: raft89__leader_after_append_def resting_def intro!: post_idle flow_step_simple)
next
  case (Some es)
  let ?e = "es ! unat (pending_count n - 1)"
  have "calm (n\<lparr>last_log_index := raft89__from_public (entry_index ?e)\<rparr>)"
    using assms Some by (simp add: calm_def ordered_def settled_def flow_step_def)
  then have "calm (n\<lparr>last_log_index := raft89__from_public (entry_index ?e), last_log_term := t,
      pending_entries := None, pending_count := 0, peer_cursor := 0, step := RAFT89_STEP_LEADER_BROADCAST\<rparr>)" for t
    by simp
  from post_leader_broadcast_next [OF this] Some show ?thesis
    by (simp add: raft89__leader_after_append_def Let_def raft89__entries_clear_def)
qed

lemma post_become_leader:
  assumes "calm n"
  shows "post (raft89__become_leader h n)"
proof -
  obtain a b where f: "fold (\<lambda>i n. init_peer_state n i) [0..<unat (member_count n)]
      (n\<lparr>role := RAFT89_LEADER, leader_id := self n, heartbeat_elapsed := 0, election_elapsed := 0\<rparr>)
      = n\<lparr>role := RAFT89_LEADER, leader_id := self n, heartbeat_elapsed := 0, election_elapsed := 0,
          next_index := a, match_index := b\<rparr>"
    using fold_init_peer_state by blast
  have "post (n\<lparr>faulted := True\<rparr>, RAFT89_ERR_LIMIT)"
    using assms by (intro post_faulted) (simp_all add: calm_def ordered_def)
  then show ?thesis
    using assms by (auto simp: raft89__become_leader_def Let_def f intro!: post_leader_broadcast_next)
qed

lemma post_bind_rc:
  assumes "clean r" and "vis (fst r) = vis n" and "ordered n"
    and "\<And>s x. vis s = vis n \<Longrightarrow> post (k s x)"
  shows "post (bind_rc r k)"
proof (cases "snd r")
  case (Inl rc)
  then have "stops (fst r, rc)" using assms(1) by (simp add: clean_def)
  from post_stops [OF this _ assms(3)] Inl assms(2) show ?thesis by (simp add: bind_rc_def)
qed (simp add: bind_rc_def assms)

lemma clean_leader_find_term: "clean (leader_find_term h n t i)"
proof -
  have "clean (leader_find_loop h n t i)"
  proof (induction h n t i rule: leader_find_loop.induct)
    case (1 h n t i)
    have "clean (leader_term_step h n t i)"
      unfolding leader_term_step_def by (rule clean_bind_val [OF clean_log_term_at]) (simp add: clean_intro)
    with 1 show ?case
      by (cases "leader_term_step h n t i")
         (auto simp: leader_find_loop.simps [of h n t i] clean_def split: sum.splits)
  qed
  then show ?thesis
    unfolding leader_find_term_def by (rule clean_bind_val) (simp add: case_prod_beta clean_intro)
qed

lemma post_handle_ae_failure:
  assumes "calm n" and "step n \<noteq> RAFT89_STEP_APPLY" and "flow_step n"
  shows "post (handle_ae_failure h n i p r)"
proof -
  have send: "post (raft89__leader_send_to h (s\<lparr>next_index := xs\<rparr>) p)" if v: "vis s = vis n" for s xs
    using calm_vis [OF v] flow_step_vis [OF v] visD [OF v] assms
    by (intro post_leader_send_to) (simp_all add: flow_step_def no_wrap_def applying_def)
  show ?thesis
    unfolding handle_ae_failure_def Let_def
    by (rule post_bind_rc [OF _ _ _ send])
       (use assms clean_leader_find_term in \<open>auto simp: calm_def bind_val_def clean_def split: sum.splits\<close>)
qed

section \<open>Follower operations\<close>

lemma post_ae_send_reply:
  assumes "calm n"
  shows "post (raft89__ae_send_reply n)"
  unfolding raft89__ae_send_reply_def Let_def
  by (rule post_emit_send) (use assms in \<open>simp_all add: flow_step_def\<close>)

lemma min_index_le: "raft89__min_index a b \<le> a" "raft89__min_index a b \<le> b"
  by (auto simp: raft89__min_index_def)

lemma post_ae_finish:
  assumes "calm n" and "step n \<noteq> RAFT89_STEP_APPLY"
  shows "post (ae_finish h n)"
proof -
  let ?c = "raft89__min_index (raft89__min_index (ae_leader_commit n) (last_log_index n)) (ae_match_index n)"
  let ?n = "raft89__entries_clear n"
  have n: "calm ?n" using assms by (simp add: raft89__entries_clear_def)
  show ?thesis
  proof (cases "?c \<le> commit_index n")
    case True
    then show ?thesis
      using assms post_ae_send_reply [OF n]
      by (simp add: ae_finish_def Let_def raft89__advance_commit_def raft89__entries_clear_def)
  next
    case False
    let ?m = "?n\<lparr>commit_index := ?c, after_apply := RAFT89_STEP_AE_REPLY\<rparr>"
    have le: "?c \<le> last_log_index n" using min_index_le order_trans by blast
    have "calm ?m"
      using assms False le by (auto simp: calm_def ordered_def settled_def raft89__entries_clear_def)
    have eq: "ae_finish h n = then_ok (raft89__apply_next h ?m)
        (\<lambda>n. if step n = RAFT89_STEP_APPLY then (n, RAFT89_OK) else raft89__ae_send_reply n)"
      using False by (simp add: ae_finish_def Let_def raft89__advance_commit_def raft89__entries_clear_def)
    have idle: "\<not> commit_index ?m \<le> applied_index ?m"
      using False assms by (auto simp: calm_def ordered_def raft89__entries_clear_def)
    then have "post (raft89__apply_next h ?m)" using post_apply_next [OF \<open>calm ?m\<close>] by blast
    moreover have "step (fst (raft89__apply_next h ?m)) = RAFT89_STEP_APPLY"
      if "snd (raft89__apply_next h ?m) = RAFT89_OK"
    proof (cases rule: apply_next_cases [of ?m h])
      case (apply_one e)
      then show ?thesis using visD(22) [OF apply_one(4)] by simp
    qed (use that idle in \<open>auto simp: stops_def\<close>)
    ultimately show ?thesis by (auto simp: eq seq_ok_def post_def)
  qed
qed

lemma post_ae_emit_append:
  assumes "calm n" and "step n \<noteq> RAFT89_STEP_APPLY"
    and "commit_index n \<le> ae_prev_index n + pending_count n"
  shows "post (ae_emit_append h n)"
proof (cases "pending_count n = ae_append_offset n")
  case True
  then show ?thesis using post_ae_finish [OF assms(1,2)] by (simp add: ae_emit_append_def Let_def)
next
  case False
  let ?m = "n\<lparr>step := RAFT89_STEP_AE_APPEND\<rparr>"
  have flow: "flow (emit ?m u)" for u
    by (rule flow_emit) (use assms in \<open>simp_all add: calm_def settled_def flow_step_def\<close>)
  have ord: "ordered (emit ?m (ActLogAppend es c))" for es c
    by (rule ordered_emit) (use assms in \<open>simp_all add: calm_def ordered_def\<close>)
  have faulted: "post (n\<lparr>faulted := True\<rparr>, rc)" for rc
    by (rule post_faulted) (use assms in \<open>simp_all add: calm_def ordered_def\<close>)
  have eq: "(emit n a)\<lparr>action := (action (emit n a))\<lparr>act_u := u\<rparr>, step := RAFT89_STEP_AE_APPEND\<rparr> = emit ?m u" for a u
    by (simp add: emit_def)
  have "post (emit ?m (ActLogAppend es c), RAFT89_OK)" for es c
    using ord flow by (simp add: post_def order_inv_def)
  with False faulted show ?thesis
    by (simp add: ae_emit_append_def Let_def action_begin_eq eq)
qed

text \<open>What the scan over the received entries finds.\<close>

definition scan_found :: "raft89 \<Rightarrow> raft89 \<Rightarrow> bool" where
  "scan_found n m \<longleftrightarrow> (\<exists>j < unat (pending_count n).
        ae_truncate_first m = 0 \<and> last_log_index n < ae_prev_index n + 1 + of_nat j
      \<or> ae_truncate_first m = ae_prev_index n + 1 + of_nat j)"

definition scanned :: "raft89 \<Rightarrow> raft89 \<times> int \<Rightarrow> bool" where
  "scanned n r \<longleftrightarrow>
     (\<exists>t off f. fst r = n\<lparr>ae_truncate_first := t, ae_append_offset := off, faulted := f\<rparr>)
   \<and> (snd r = 0 \<or> snd r = - 1 \<and> faulted (fst r) \<or> snd r = 1 \<and> scan_found n (fst r))"

lemma scanned_intro:
  assumes "m = n\<lparr>ae_truncate_first := t, ae_append_offset := off, faulted := f\<rparr>"
    and "r = 0 \<or> r = - 1 \<and> f \<or> r = 1 \<and> scan_found n m"
  shows "scanned n (m, r)"
  using assms unfolding scanned_def fst_conv snd_conv by (intro conjI exI) auto

lemma scanned_none: "scanned n (n, 0)"
  by (rule scanned_intro [where t = "ae_truncate_first n" and off = "ae_append_offset n" and f = "faulted n"]) simp_all

lemma scanned_fault: "scanned n (n\<lparr>faulted := True\<rparr>, - 1)"
  by (rule scanned_intro [where t = "ae_truncate_first n" and off = "ae_append_offset n" and f = True]) simp_all

lemma scanned_found:
  assumes "i < unat (pending_count n)"
    and "t = 0 \<and> last_log_index n < ae_prev_index n + 1 + of_nat i \<or> t = ae_prev_index n + 1 + of_nat i"
  shows "scanned n (n\<lparr>ae_truncate_first := t, ae_append_offset := off\<rparr>, 1)"
  by (rule scanned_intro [where t = t and off = off and f = "faulted n"]) (use assms in \<open>auto simp: scan_found_def\<close>)

lemma scanned_one:
  assumes "i < unat (pending_count n)"
  shows "scanned n (ae_scan_one h n i)"
  using scanned_none [of n] scanned_fault [of n] scanned_found [OF assms]
  by (cases "store_log_term (host_store h) (raft89__to_public (ae_prev_index n + 1 + of_nat i))")
     (simp_all add: ae_scan_one_def Let_def mark_missing_suffix_def raft89__size_to_u64_def)

lemma scanned_from:
  "i + k = unat (pending_count n) \<Longrightarrow> scanned n (ae_scan_from h n i k)"
proof (induction k arbitrary: i)
  case 0
  show ?case by (simp add: scanned_none)
next
  case (Suc k)
  have "scanned n (ae_scan_one h n i)" by (rule scanned_one) (use Suc.prems in simp)
  moreover have "ae_scan_one h n i = (n, 0) \<or> snd (ae_scan_one h n i) \<noteq> 0"
    by (simp add: ae_scan_one_def Let_def split: option.split)
  moreover have "scanned n (ae_scan_from h n (Suc i) k)" by (rule Suc.IH) (use Suc.prems in simp)
  ultimately show ?case by (cases "ae_scan_one h n i") auto
qed

lemma post_ae_apply_entries:
  assumes "calm n" and "resting (step n)" and "no_wrap n"
  shows "post (ae_apply_entries h n)"
proof -
  obtain m r where eq: "ae_scan h n = (m, r)" by fastforce
  have sc: "scanned n (m, r)" using scanned_from [of 0 "unat (pending_count n)" n h] eq by (simp add: ae_scan_def)
  then obtain t off f where m: "m = n\<lparr>ae_truncate_first := t, ae_append_offset := off, faulted := f\<rparr>"
    by (auto simp: scanned_def)
  have calm: "calm m" and step: "step m \<noteq> RAFT89_STEP_APPLY" and ord: "ordered m"
    using assms by (auto simp: m resting_def calm_def ordered_def settled_def)
  have found: "post (if raft89__u64_is_zero t then ae_emit_append h m
      else if t \<le> commit_index m then (m, RAFT89_ERR_PROTOCOL)
      else emit_log_truncate (m\<lparr>step := RAFT89_STEP_AE_TRUNCATE\<rparr>) t)" if sf: "scan_found n m"
  proof -
    obtain j where j: "j < unat (pending_count n)"
      and alt: "t = 0 \<and> last_log_index n < ae_prev_index n + 1 + of_nat j \<or> t = ae_prev_index n + 1 + of_nat j"
      using sf by (auto simp: scan_found_def m)
    let ?i = "ae_prev_index n + 1 + of_nat j" and ?e = "ae_prev_index n + pending_count n"
    have ui: "unat ?i = unat (ae_prev_index n) + 1 + j" and ue: "unat ?e = unat (ae_prev_index n) + unat (pending_count n)"
      using assms(3) j by (auto simp: no_wrap_def unat_word_ariths unat_of_nat)
    then have "?i \<noteq> 0" and le: "?i \<le> ?e" using j by (auto simp: word_le_nat_alt simp flip: unat_eq_zero)
    consider "t = 0" "last_log_index n < ?i" | "t = ?i" "t \<noteq> 0" using alt \<open>?i \<noteq> 0\<close> by auto
    then show ?thesis
    proof cases
      case 1
      have "commit_index n \<le> last_log_index n" using assms(1) by (simp add: calm_def ordered_def)
      also have "\<dots> \<le> ?e" using 1(2) le by (metis order_less_imp_le order_trans)
      finally show ?thesis
        using 1 post_ae_emit_append [OF calm step] by (simp add: raft89__u64_is_zero_def m)
    next
      case 2
      have "post (m, RAFT89_ERR_PROTOCOL)"
        using assms by (intro post_idle calm) (auto simp: m resting_def flow_step_def no_wrap_def)
      moreover have "post (emit_log_truncate (m\<lparr>step := RAFT89_STEP_AE_TRUNCATE\<rparr>) t)" if "\<not> t \<le> commit_index m"
        by (rule post_outcome [of "m\<lparr>step := RAFT89_STEP_AE_TRUNCATE\<rparr>" "\<lambda>u. \<exists>i. u = ActLogTruncate i"])
           (use calm that 2 le assms in \<open>auto simp: outcome_def stops_def emit_log_truncate_eq flow_step_def m no_wrap_def vis_push\<close>)
      ultimately show ?thesis using 2 by (simp add: raft89__u64_is_zero_def)
    qed
  qed
  have err: "post (m, RAFT89_ERR_STORE)" if "faulted m"
    using that ord by (intro post_faulted) simp_all
  have "r = 0 \<or> r = - 1 \<and> faulted m \<or> r = 1 \<and> scan_found n m" using sc by (simp add: scanned_def)
  moreover have "ae_truncate_first m = t" by (simp add: m)
  ultimately show ?thesis
    using err found post_ae_finish [OF calm step, of h] by (elim disjE conjE) (simp_all add: ae_apply_entries_def eq split: if_splits)
qed

lemma post_reply_prefix_failure:
  assumes "calm n"
  shows "post (reply_prefix_failure h n)"
proof -
  let ?n = "n\<lparr>ae_reply_success := False, ae_match_index := 0\<rparr>"
  let ?r = "conflict_hints h ?n"
  have stp: "faulted (fst (conflict_loop h m i st))" if "snd (snd (conflict_loop h m i st)) < 0" "st \<ge> 0" for m i st
    using that
  proof (induction h m i st rule: conflict_loop.induct)
    case (1 h m i st)
    then show ?case
      by (cases "conflict_search h m i st")
         (auto simp: conflict_loop.simps [of h m i st] conflict_search_def conflict_walk_def split: if_splits option.splits)
  qed
  have calm: "calm (fst (conflict_loop h (?n\<lparr>ae_conflict_term := t\<rparr>) i st))" for t i st
    using calm_vis [OF vis_conflict_loop, of h "?n\<lparr>ae_conflict_term := t\<rparr>" i st] assms by simp
  have "calm (fst ?r)"
    using calm assms by (simp add: conflict_hints_def conflict_short_log_def case_prod_beta split: option.split)
  moreover have "faulted (fst ?r)" if "snd ?r \<noteq> RAFT89_OK"
    using that stp by (auto simp: conflict_hints_def conflict_short_log_def case_prod_beta split: if_splits option.splits)
  ultimately show ?thesis
    using post_ae_send_reply [of "fst ?r"] post_faulted [of ?r]
    by (auto simp: reply_prefix_failure_def seq_ok_def calm_def)
qed

lemma post_ae_process:
  assumes "calm n" and "resting (step n)" and "no_wrap n"
  shows "post (ae_process h n)"
proof -
  let ?n = "set_timeout h (n\<lparr>role := RAFT89_FOLLOWER, leader_id := ae_leader_id n, election_elapsed := 0\<rparr>)"
  let ?m = "fst (ae_prefix_matches h ?n)"
  have v: "vis ?m = vis (n\<lparr>role := RAFT89_FOLLOWER, leader_id := ae_leader_id n, election_elapsed := 0\<rparr>)" by simp
  have m: "calm ?m" "resting (step ?m)" "no_wrap ?m"
    using calm_vis [OF v] visD [OF v] assms by (simp_all add: no_wrap_def)
  have "post (?m, RAFT89_ERR_STORE)" if "snd (ae_prefix_matches h ?n) < 0"
    using that m by (intro post_faulted) (auto simp: ae_prefix_matches_def calm_def split: if_splits option.splits)
  moreover have "post (ae_apply_entries h (?m\<lparr>ae_reply_success := b, ae_match_index := i\<rparr>))" for b i
    by (rule post_ae_apply_entries) (use m in \<open>simp_all add: no_wrap_def\<close>)
  ultimately show ?thesis
    using post_reply_prefix_failure [OF m(1)] by (simp add: ae_process_def Let_def case_prod_beta)
qed

lemma post_after_update:
  assumes "calm n" and "commit_index n \<le> i"
    and "\<And>m. calm m \<Longrightarrow> step m = step n \<Longrightarrow> commit_index m = commit_index n \<Longrightarrow> ae_prev_index m = ae_prev_index n
      \<Longrightarrow> pending_count m = pending_count n \<Longrightarrow> post (k m)"
  shows "post (then_ok (ae_update_last h n i) k)"
proof (cases "snd (ae_update_last h n i) = RAFT89_OK")
  case True
  have "calm (fst (ae_update_last h n i))"
    using assms(1,2) True
    by (auto simp: ae_update_last_def mark_empty_log_def calm_def ordered_def settled_def raft89__u64_is_zero_def
        split: if_splits option.splits)
  moreover have "step (fst (ae_update_last h n i)) = step n" "commit_index (fst (ae_update_last h n i)) = commit_index n"
    "ae_prev_index (fst (ae_update_last h n i)) = ae_prev_index n" "pending_count (fst (ae_update_last h n i)) = pending_count n"
    by (simp_all add: ae_update_last_def mark_empty_log_def split: option.split)
  ultimately have "post (k (fst (ae_update_last h n i)))" by (intro assms(3))
  with True show ?thesis by (simp add: seq_ok_def)
next
  case False
  then have "post (ae_update_last h n i)"
    using assms(1) by (intro post_faulted)
      (auto simp: ae_update_last_def calm_def ordered_def split: if_splits option.splits)
  with False show ?thesis by (simp add: seq_ok_def)
qed

lemma post_ae_after_truncate:
  assumes "calm n" and "flow_step n" and "step n = RAFT89_STEP_AE_TRUNCATE"
  shows "post (raft89__ae_after_truncate h n)"
proof -
  have *: "commit_index n < ae_truncate_first n" "ae_truncate_first n \<le> ae_prev_index n + pending_count n"
    using assms by (simp_all add: flow_step_def)
  then have d: "unat (ae_truncate_first n - 1) = unat (ae_truncate_first n) - 1"
    by (intro unat_dec) (auto simp: word_less_nat_alt)
  then have "commit_index n \<le> ae_truncate_first n - 1"
    using *(1) by (simp add: word_less_nat_alt word_le_nat_alt)
  moreover have "commit_index n \<le> ae_prev_index n + pending_count n"
    using * by (metis order_less_imp_le order_trans)
  ultimately show ?thesis
    unfolding raft89__ae_after_truncate_def raft89__u64_dec_def
    using assms by (intro post_after_update post_ae_emit_append) simp_all
qed

lemma post_ae_after_append:
  assumes "calm n" and "flow_step n" and "step n = RAFT89_STEP_AE_APPEND"
  shows "post (raft89__ae_after_append h n)"
  unfolding raft89__ae_after_append_def raft89__size_to_u64_def
  by (rule post_after_update) (use assms in \<open>auto simp: flow_step_def intro!: post_ae_finish\<close>)

section \<open>Elections\<close>

lemma outcome_emit_hard_state: "outcome n (\<lambda>u. \<exists>hs. u = ActHardState hs) (raft89__emit_hard_state n t v)"
  by (auto simp: outcome_def emit_hard_state_eq stops_def)

lemma post_emit_hard_state:
  assumes "calm n" and "flow_step n" and "step n \<noteq> RAFT89_STEP_APPLY"
  shows "post (raft89__emit_hard_state n t v)"
  by (rule post_outcome [OF outcome_emit_hard_state]) (use assms in auto)

text \<open>A hard state emitted before the continuation is set.\<close>

lemma post_emit_hard_state_then:
  assumes "calm n" and "s = RAFT89_STEP_VOTE_RESPONSE \<or> s = RAFT89_STEP_ELECTION_BROADCAST"
  shows "post (then_ok (raft89__emit_hard_state n t v) (\<lambda>n. (n\<lparr>peer_cursor := c n, step := s\<rparr>, RAFT89_OK)))"
proof -
  have "post (n\<lparr>faulted := True\<rparr>, RAFT89_ERR_LIMIT)"
    using assms by (intro post_faulted) (simp_all add: calm_def ordered_def)
  moreover have "post ((emit n (ActHardState hs))\<lparr>peer_cursor := x, step := s\<rparr>, RAFT89_OK)" for hs x
    using assms by (auto simp: post_def order_inv_def calm_def ordered_def flow_def flow_step_def settled_def emit_def)
  ultimately show ?thesis by (simp add: emit_hard_state_eq)
qed

lemma post_persist_vote:
  assumes "calm n"
  shows "post (persist_vote_then_reply n p t v g)"
proof -
  have "n\<lparr>peer_cursor := peer_cursor n, step := s\<rparr> = n\<lparr>step := s\<rparr>" for n :: raft89 and s by simp
  then show ?thesis
    using post_emit_hard_state_then [of "n\<lparr>pending_msg := m\<rparr>" _ _ _ peer_cursor for m] assms
    by (simp add: persist_vote_then_reply_def Let_def)
qed

lemma calm_set_timeout [simp]: "calm (set_timeout h n) = calm n"
  by (rule calm_vis) simp

lemma post_step_down:
  assumes "calm n"
  shows "post (raft89__step_down_new_term h n t)"
  unfolding raft89__step_down_new_term_def Let_def
  by (rule post_emit_hard_state) (use assms in \<open>simp_all add: flow_step_def\<close>)

lemma post_start_election:
  assumes "calm n" and "flow_step n" and "resting (step n)"
  shows "post (raft89__start_election h n)"
proof -
  have "calm ((reset_votes m)\<lparr>votes_granted := 1\<rparr>) = calm m" for m
    by (simp add: reset_votes_def Let_def)
  then show ?thesis
    using post_emit_hard_state_then [where c = "\<lambda>_. 0"] assms post_idle [OF assms]
    by (auto simp: raft89__start_election_def Let_def intro!: post_emit_hard_state_then [where c = "\<lambda>_. 0"])
qed

lemma post_reply_vote:
  assumes "calm n" and "flow_step n" and "resting (step n)"
  shows "post (reply_vote n p t g)"
  unfolding reply_vote_def
  by (rule post_emit_send) (use assms in \<open>auto simp: resting_def\<close>)

lemma post_recv_request_vote:
  assumes "calm n" and "flow_step n" and "resting (step n)"
  shows "post (raft89__recv_request_vote h n p rv)"
  using assms post_reply_vote [OF assms] post_persist_vote
  by (auto simp: raft89__recv_request_vote_def Let_def vote_new_term_def)

lemma post_recv_vote_response:
  assumes "calm n" and "flow_step n" and "resting (step n)"
  shows "post (raft89__recv_vote_response h n p r)"
proof -
  have "post (n\<lparr>votes := vs, votes_granted := c\<rparr>, RAFT89_OK)" for vs c
    using assms by (intro post_idle) (simp_all add: flow_step_def no_wrap_def applying_def)
  then show ?thesis
    using assms post_step_down [OF assms(1)] post_idle [OF assms]
    by (simp add: raft89__recv_vote_response_def Let_def post_become_leader)
qed

lemma post_recv_ae_response:
  assumes "calm n" and "flow_step n" and "resting (step n)"
  shows "post (raft89__recv_ae_response h n p r)"
proof -
  have ne: "step n \<noteq> RAFT89_STEP_APPLY" using assms by (auto simp: resting_def)
  have "post (raft89__leader_maybe_commit h (if b then advance_next (n\<lparr>match_index := xs\<rparr>) i c else n\<lparr>match_index := xs\<rparr>))" for b i c xs
    by (rule post_leader_maybe_commit) (use assms in \<open>auto simp: advance_next_def flow_step_def no_wrap_def applying_def\<close>)
  then show ?thesis
    using assms post_step_down [OF assms(1)] post_idle [OF assms] post_handle_ae_failure [OF assms(1) ne assms(2)]
    by (simp add: raft89__recv_ae_response_def Let_def)
qed

section \<open>Entry points\<close>

lemma append_entries_no_wrap:
  assumes "raft89__append_entries_valid ae k b"
  shows "unat (raft89__from_public (aeq_prev_log_index ae)) + unat (aeq_entry_count ae) < 2 ^ 64"
proof (cases "aeq_entry_count ae = 0")
  case True
  then show ?thesis using unsigned_less [where ?'a = nat, of "raft89__from_public (aeq_prev_log_index ae)"] by simp
next
  case False
  with assms have "raft89__from_public (aeq_prev_log_index ae) \<le> - 1 - aeq_entry_count ae"
    by (auto simp: raft89__append_entries_valid_def raft89__size_to_u64_def split: if_splits)
  then show ?thesis by (simp add: le_max_minus_iff)
qed

lemma post_recv_append_entries:
  assumes "calm n" and "flow_step n" and "resting (step n)" and "raft89__append_entries_valid ae k b"
  shows "post (raft89__recv_append_entries h n p ae)"
proof -
  let ?r = "ae_stash h n p ae"
  have ne: "step n \<noteq> RAFT89_STEP_APPLY" using assms by (auto simp: resting_def)
  have fail: "post (send_ae_failure n p t)" for t
    unfolding send_ae_failure_def by (rule post_emit_send [OF assms(1,2) ne])
  have stash: "calm (fst ?r)" "step (fst ?r) = step n"
    using assms(1) by (auto simp: ae_stash_def raft89__entries_stash_def raft89__entries_clear_def Let_def
        raft89__entries_buffer_alloc_def host_alloc_def)
  have rc: "snd ?r = RAFT89_OK \<or> snd ?r = RAFT89_ERR_NOMEM"
    by (simp add: ae_stash_def raft89__entries_stash_def Let_def case_prod_beta)
  have wrap: "no_wrap (fst ?r)" if "snd ?r = RAFT89_OK"
    using that append_entries_no_wrap [OF assms(4)] unsigned_less [where ?'a = nat, of "raft89__from_public (aeq_prev_log_index ae)"]
    by (auto simp: ae_stash_def raft89__entries_stash_def raft89__entries_clear_def Let_def no_wrap_def
        raft89__entries_buffer_alloc_def host_alloc_def split: if_splits)
  have "post (then_ok ?r (\<lambda>n. if current_term n < t then start_ae_hard_state n t else ae_process h n))" for t
  proof (cases "snd ?r = RAFT89_OK")
    case True
    have "post (start_ae_hard_state (fst ?r) t)"
      unfolding start_ae_hard_state_def
      by (rule post_emit_hard_state) (use stash wrap [OF True] in \<open>simp_all add: flow_step_def no_wrap_def\<close>)
    moreover have "post (ae_process h (fst ?r))"
      using post_ae_process [of "fst ?r"] stash wrap [OF True] assms(3) by simp
    ultimately show ?thesis using True by (simp add: seq_ok_def)
  qed (use rc in \<open>simp add: seq_ok_def post_def\<close>)
  moreover have "post (n, RAFT89_ERR_PROTOCOL)" by (rule post_idle [OF assms(1-3)])
  ultimately show ?thesis using fail by (simp add: raft89__recv_append_entries_def Let_def)
qed

lemma order_inv_idle:
  assumes "order_inv n" and "\<not> faulted n" and "\<not> has_action n"
  shows "calm n" "flow_step n" "resting (step n)"
  using assms by (simp_all add: order_inv_def flow_def calm_def)

lemma order_inv_tick:
  assumes "order_inv n" and "raft89_tick h (Some n) t = (Some n', rc)" and "rc \<noteq> RAFT89_ERR_NOMEM"
  shows "order_inv n'"
proof (cases "faulted n \<or> has_action n")
  case True
  with assms show ?thesis by (auto simp: raft89_tick_def split: if_splits)
next
  case False
  let ?n = "raft89__advance_clocks n t"
  have v: "vis ?n = vis n" by (simp add: raft89__advance_clocks_def)
  have idle: "calm n" "flow_step n" "resting (step n)" using order_inv_idle assms(1) False by auto
  then have n: "calm ?n" "flow_step ?n" "resting (step ?n)"
    using calm_vis [OF v] flow_step_vis [OF v] visD [OF v] by simp_all
  have "post (if role ?n = RAFT89_LEADER then raft89__tick_leader h ?n else raft89__tick_follower h ?n)"
    using n post_idle [OF n] post_start_election [OF n]
    by (simp add: raft89__tick_leader_def raft89__tick_follower_def post_leader_broadcast_next)
  moreover have "(n', rc) = (if role ?n = RAFT89_LEADER then raft89__tick_leader h ?n else raft89__tick_follower h ?n)"
    using assms(2) False by (simp add: raft89_tick_def Let_def)
  ultimately show ?thesis using assms(3) by (metis post_def fst_conv snd_conv)
qed

lemma order_inv_recv:
  assumes "order_inv n" and call: "raft89_recv h (Some n) (Some m) = (Some n', rc)" and "rc \<noteq> RAFT89_ERR_NOMEM"
  shows "order_inv n'"
proof (cases "faulted n \<or> has_action n \<or> \<not> raft89__msg_envelope_valid n m")
  case True
  with assms show ?thesis by (auto simp: raft89_recv_def split: if_splits)
next
  case False
  then have idle: "calm n" "flow_step n" "resting (step n)" using order_inv_idle assms(1) by auto
  let ?r = "case msg_u m of
           RAFT89_MSG_REQUEST_VOTE rv \<Rightarrow> raft89__recv_request_vote h n (msg_from m) rv
         | RAFT89_MSG_REQUEST_VOTE_RESPONSE r \<Rightarrow> raft89__recv_vote_response h n (msg_from m) r
         | RAFT89_MSG_APPEND_ENTRIES ae \<Rightarrow> raft89__recv_append_entries h n (msg_from m) ae
         | RAFT89_MSG_APPEND_ENTRIES_RESPONSE r \<Rightarrow> raft89__recv_ae_response h n (msg_from m) r
         | RAFT89_MSG_OTHER _ \<Rightarrow> (n, RAFT89_ERR_STATE)"
  have "post ?r"
  proof (cases "msg_u m")
    case (RAFT89_MSG_APPEND_ENTRIES ae)
    then have "raft89__append_entries_valid ae (max_append_entries n) (max_append_bytes n)"
      using False by (auto simp: raft89__msg_envelope_valid_def split: if_splits)
    from post_recv_append_entries [OF idle this] show ?thesis by (simp add: RAFT89_MSG_APPEND_ENTRIES)
  qed (simp_all add: post_recv_request_vote [OF idle] post_recv_vote_response [OF idle] post_recv_ae_response [OF idle]
        post_idle [OF idle])
  moreover have "(n', rc) = ?r" using call False by (simp add: raft89_recv_def)
  ultimately show ?thesis using assms(3) by (metis post_def fst_conv snd_conv)
qed

lemma entries_store_index:
  "i < length es \<Longrightarrow> entry_index (fst (entries_store es off) ! i) = entry_index (es ! i)"
  by (induction es arbitrary: i off) (auto simp: entry_store_def case_prod_beta nth_Cons split: nat.split)

lemma order_inv_proposev:
  assumes "order_inv n" and call: "raft89_proposev h (Some n) cs count = (Some n', rc, idx)" and "rc \<noteq> RAFT89_ERR_NOMEM"
  shows "order_inv n'"
proof (cases "rc = RAFT89_OK")
  case False
  with assms show ?thesis
    by (auto simp: raft89_proposev_def raft89__entries_stash_def raft89__entries_buffer_alloc_def host_alloc_def
        raft89__entries_clear_def action_begin_eq Let_def order_inv_def ordered_def
        split: option.splits if_splits)
next
  case True
  then obtain es where n': "pending_entries n' = Some (fst (entries_store
        (command_entries (last_log_index n + 1) (current_term n) es count) (count * sizeof_entry)))"
      "pending_count n' = count" "step n' = RAFT89_STEP_LEADER_APPEND" "has_action n'"
      "\<forall>e. act_u (action n') \<noteq> ActApply e" "after_apply n' = after_apply n" "applied_index n' = applied_index n"
      "commit_index n' = commit_index n" "last_log_index n' = last_log_index n"
    and live: "\<not> faulted n" "\<not> has_action n" and c: "count \<noteq> 0" "last_log_index n \<le> - 1 - count"
    using call
    by (auto simp: raft89_proposev_def raft89__entries_stash_def raft89__entries_buffer_alloc_def host_alloc_def
        raft89__entries_clear_def action_begin_eq Let_def raft89__u64_inc_def raft89__size_to_u64_def emit_def command_entries_def
        split: option.splits if_splits)
  have nw: "unat (last_log_index n) + unat count < 2 ^ 64" using c(2) by (simp add: le_max_minus_iff)
  have d: "unat (count - 1) = unat count - 1" using c(1) by (rule unat_dec)
  have lt: "unat (count - 1) < unat count" using c(1) by (rule unat_dec_less)
  have "raft89__from_public (entry_index (fst (entries_store (command_entries (last_log_index n + 1) (current_term n) es count) x) ! unat (count - 1)))
      = last_log_index n + count" for x
    using lt by (subst entries_store_index)
      (simp_all add: command_entries_def command_fill_def raft89__size_to_u64_def)
  moreover have "commit_index n \<le> last_log_index n + count"
  proof -
    have "commit_index n \<le> last_log_index n" using assms(1) by (simp add: order_inv_def ordered_def)
    then show ?thesis using nw by (simp add: word_le_nat_alt unat_add_no_wrap)
  qed
  ultimately show ?thesis
    using order_inv_idle [OF assms(1) live]
    by (simp add: n' order_inv_def calm_def ordered_def flow_def flow_step_def settled_def)
qed

section \<open>Resumption\<close>

lemma post_election_send_next:
  assumes "calm n"
  shows "post (raft89__election_send_next h n)"
proof -
  have "post (n\<lparr>step := RAFT89_STEP_NONE\<rparr>, RAFT89_OK)"
    using assms by (intro post_idle) (simp_all add: flow_step_def resting_def)
  moreover have "post (raft89__emit_send (n\<lparr>peer_cursor := c, step := RAFT89_STEP_ELECTION_BROADCAST\<rparr>) m)" for c m
    by (rule post_emit_send) (use assms in \<open>simp_all add: flow_step_def\<close>)
  ultimately show ?thesis
    using assms post_become_leader [of "n\<lparr>step := RAFT89_STEP_NONE\<rparr>" h]
    by (simp add: raft89__election_send_next_def become_leader_after_quorum_def Let_def)
qed

lemma post_apply_ack:
  assumes "calm n" and "applied_index n < commit_index n"
  shows "post (raft89__apply_ack h n)"
proof -
  let ?m = "n\<lparr>apply_buffer := None, apply_size := 0, applied_index := applied_index n + 1, step := RAFT89_STEP_NONE\<rparr>"
  let ?a = "raft89__apply_next h ?m"
  have "applied_index n + 1 \<le> commit_index n" using assms(2) by (rule inc_le)
  then have m: "calm ?m" using assms by (simp add: calm_def ordered_def settled_def)
  have f: "flow_step ?m" by (simp add: flow_step_def)
  have a: "post ?a" by (rule post_apply_next_resting [OF m f]) (simp add: resting_def)
  have rest: "post (raft89__resume h ((fst ?a)\<lparr>step := after_apply n, after_apply := RAFT89_STEP_NONE\<rparr>))"
    if ok: "snd ?a = RAFT89_OK" "step (fst ?a) \<noteq> RAFT89_STEP_APPLY"
  proof (cases rule: apply_next_cases [of ?m h])
    case idle
    let ?k = "?m\<lparr>step := after_apply n, after_apply := RAFT89_STEP_NONE\<rparr>"
    have k: "calm ?k" using m by (simp add: calm_def ordered_def settled_def)
    have "post (?k\<lparr>step := RAFT89_STEP_NONE\<rparr>, RAFT89_OK)"
      using k by (intro post_idle) (simp_all add: flow_step_def resting_def calm_def ordered_def settled_def)
    moreover have "after_apply n = RAFT89_STEP_NONE \<or> after_apply n = RAFT89_STEP_AE_REPLY"
      using assms(1) by (simp add: calm_def settled_def)
    ultimately show ?thesis
      using post_ae_send_reply [OF k] idle by (auto simp del: calm_step simp: raft89__resume.simps)
  next
    case (apply_one e)
    then show ?thesis using ok visD(22) [OF apply_one(4)] by simp
  qed (use ok in \<open>auto simp: stops_def\<close>)
  have "post (fst ?a, RAFT89_OK)" if "snd ?a = RAFT89_OK" using a that by (metis prod.collapse)
  with a rest show ?thesis
    by (simp add: raft89__apply_ack.simps Let_def apply_buffer_discard_def raft89__u64_inc_def case_prod_beta)
qed

lemma post_resume:
  assumes "calm n" and "step n \<noteq> RAFT89_STEP_APPLY \<Longrightarrow> flow_step n"
    and "step n = RAFT89_STEP_APPLY \<Longrightarrow> applied_index n < commit_index n"
  shows "post (raft89__resume h n)"
proof -
  have none: "post (n\<lparr>step := RAFT89_STEP_NONE\<rparr>, RAFT89_OK)"
    using assms(1) by (intro post_idle) (simp_all add: flow_step_def resting_def)
  have vote: "post (vote_response_send n)"
    unfolding vote_response_send_def by (rule post_emit_send) (use assms(1) in \<open>simp_all add: flow_step_def\<close>)
  have ae: "post (ae_process h n)" if "step n = RAFT89_STEP_AE_HARD_STATE"
    by (rule post_ae_process) (use assms that in \<open>auto simp: flow_step_def resting_def\<close>)
  show ?thesis
    using assms none vote ae
    by (cases "step n")
       (simp_all add: raft89__resume.simps raft89__ae_continue_def post_election_send_next post_leader_broadcast_next
         post_leader_after_append post_ae_after_truncate post_ae_after_append post_ae_send_reply post_apply_ack)
qed

lemma order_inv_action_done:
  assumes "order_inv n" and call: "raft89_action_done h (Some n) ident result = (Some n', rc)"
    and "rc \<noteq> RAFT89_ERR_NOMEM"
  shows "order_inv n'"
proof (cases "faulted n \<or> \<not> has_action n \<or> ident \<noteq> act_id (action n)
      \<or> \<not> raft89__action_result_valid (action n) result \<or> result = RAFT89_ACTION_FATAL")
  case True
  with assms show ?thesis by (auto simp: raft89_action_done_def order_inv_def ordered_def split: if_splits)
next
  case False
  then have fl: "flow n" "ordered n" using assms(1) by (auto simp: order_inv_def)
  have eq: "(n', rc) = raft89__resume h (acknowledged n)"
    using call False by (auto simp: raft89_action_done_def acknowledged_def Let_def)
  obtain t v where a: "acknowledged n = n\<lparr>current_term := t, voted_for := v, has_action := False\<rparr>"
  proof (cases "act_u (action n)")
    case (ActHardState hs)
    then show ?thesis by (intro that) (simp add: acknowledged_def raft89__apply_hard_state_def)
  qed (auto intro!: that [where t = "current_term n" and v = "voted_for n"] simp: acknowledged_def)
  have "calm (acknowledged n)" using fl by (simp add: a calm_def ordered_def settled_def flow_def)
  moreover have "step n \<noteq> RAFT89_STEP_APPLY \<Longrightarrow> flow_step (acknowledged n)"
    using fl(1) by (auto simp: a flow_def flow_step_def no_wrap_def)
  moreover have "step n = RAFT89_STEP_APPLY \<Longrightarrow> applied_index n < commit_index n"
    using fl(1) by (simp add: flow_def flow_step_def applying_def)
  ultimately have "post (raft89__resume h (acknowledged n))" by (intro post_resume) (simp_all add: a)
  then show ?thesis using assms(3) eq by (metis post_def fst_conv snd_conv)
qed

lemma order_inv_create:
  assumes "raft89_create h (Some cfg) True = (RAFT89_OK, Some n)"
  shows "order_inv n"
  using assms
  by (rule create_fields) (simp add: order_inv_def ordered_def flow_def flow_step_def settled_def resting_def)

section \<open>The life of a node\<close>

text \<open>
  One node and its host: any calls in any order, each with whatever the store, the random source
  and the allocator answer during it.
\<close>

datatype api_call =
    CallTick raft89_time
  | CallRecv raft89_message
  | CallPropose "raft89_command list" raft89_size
  | CallDone ulong raft89_action_result

fun api_step :: "host \<Rightarrow> raft89 \<Rightarrow> api_call \<Rightarrow> raft89 option \<times> raft89_result" where
  "api_step h n (CallTick t) = raft89_tick h (Some n) t"
| "api_step h n (CallRecv m) = raft89_recv h (Some n) (Some m)"
| "api_step h n (CallPropose cs count) =
     (case raft89_proposev h (Some n) (Some cs) count of (n', rc, _) \<Rightarrow> (n', rc))"
| "api_step h n (CallDone ident result) = raft89_action_done h (Some n) ident result"

inductive alive :: "raft89 \<Rightarrow> bool" where
  created: "raft89_create h (Some cfg) True = (RAFT89_OK, Some n) \<Longrightarrow> alive n"
| called: "alive n \<Longrightarrow> api_step h n c = (Some n', rc) \<Longrightarrow> rc \<noteq> RAFT89_ERR_NOMEM \<Longrightarrow> alive n'"

lemma order_inv_api_step:
  "order_inv n \<Longrightarrow> api_step h n c = (Some n', rc) \<Longrightarrow> rc \<noteq> RAFT89_ERR_NOMEM \<Longrightarrow> order_inv n'"
  by (cases c) (auto split: prod.splits intro: order_inv_tick order_inv_recv order_inv_proposev order_inv_action_done)

lemma alive_order_inv: "alive n \<Longrightarrow> order_inv n"
  by (induction rule: alive.induct) (auto intro: order_inv_create order_inv_api_step)

text \<open>C9: As long as no library call runs out of memory, a node never applies past its commit index and
  never commits past the end of its log, and the entry it hands to the state machine is the one
  right after the last it applied.\<close>

theorem applied_committed_logged:
  assumes "alive n"
  shows "applied_index n \<le> commit_index n \<and> commit_index n \<le> last_log_index n
    \<and> (\<forall>e. has_action n \<and> act_u (action n) = ActApply e \<longrightarrow>
         applied_index n < commit_index n \<and> entry_index e = raft89__to_public (applied_index n + 1))"
  using alive_order_inv [OF assms] by (simp add: order_inv_def ordered_def)

text \<open>Running a list of calls; the codes they returned are kept.\<close>

fun api_run :: "raft89 \<Rightarrow> (host \<times> api_call) list \<Rightarrow> raft89 option \<times> raft89_result list" where
  "api_run n [] = (Some n, [])"
| "api_run n ((h, c) # cs) =
     (case api_step h n c of
        (None, rc) \<Rightarrow> (None, [rc])
      | (Some n', rc) \<Rightarrow> (case api_run n' cs of (r, rcs) \<Rightarrow> (r, rc # rcs)))"

lemma api_run_alive:
  "alive n \<Longrightarrow> api_run n cs = (Some n', rcs) \<Longrightarrow> RAFT89_ERR_NOMEM \<notin> set rcs \<Longrightarrow> alive n'"
proof (induction n cs arbitrary: rcs rule: api_run.induct)
  case (2 n h c cs)
  from 2(3,4) obtain m rc r where s: "api_step h n c = (Some m, rc)" "api_run m cs = (Some n', r)" "rcs = rc # r"
    by (auto split: prod.splits option.splits)
  with 2(2,4) have "alive m" by (auto intro: alive.called)
  with 2 s show ?case by auto
qed simp

section \<open>A follower that commits one entry\<close>

definition follower_store :: "raft89_store" where
  "follower_store =
     \<lparr>store_hard_state = Some \<lparr>hs_current_term = raft89_u64_from_u32 1, hs_voted_for = 0\<rparr>,
      store_log_last = Some (raft89_u64_zero, raft89_u64_zero),
      store_log_term = (\<lambda>i. if i = raft89_u64_from_u32 1 then Some (raft89_u64_from_u32 1) else None),
      store_log_size = (\<lambda>i. if i = raft89_u64_from_u32 1 then Some 1 else None),
      store_log_read = (\<lambda>i sz. if i = raft89_u64_from_u32 1 \<and> sz = 1 then Some [42] else None)\<rparr>"

definition follower_host :: "bool \<Rightarrow> host" where
  "follower_host memory =
     \<lparr>host_store = follower_store, host_random = (\<lambda>_ _. 0), host_malloc = (\<lambda>_. memory), host_uninit = 0\<rparr>"

definition follower_config :: raft89_config where
  "follower_config = \<lparr>cfg_self = 1, cfg_members = Some [1, 2, 3], cfg_member_count = 3,
     cfg_heartbeat_interval = 10, cfg_election_timeout_min = 50, cfg_election_timeout_max = 100,
     cfg_max_append_entries = 8, cfg_max_append_bytes = 1024, cfg_store_hard_state = True,
     cfg_store_log_last = True, cfg_store_log_term = True, cfg_store_log_size = True,
     cfg_store_log_read = True, cfg_random_next = True, cfg_applied_index = raft89_u64_zero\<rparr>"

text \<open>One entry of term 1, already committed by the leader, and a vote request of an old term.\<close>

definition append_one :: raft89_message where
  "append_one = \<lparr>msg_from = 2, msg_to = 1, msg_u = RAFT89_MSG_APPEND_ENTRIES
     \<lparr>aeq_term = raft89_u64_from_u32 1, aeq_prev_log_index = raft89_u64_zero, aeq_prev_log_term = raft89_u64_zero,
      aeq_leader_commit = raft89_u64_from_u32 1,
      aeq_entries = Some [\<lparr>entry_term = raft89_u64_from_u32 1, entry_index = raft89_u64_from_u32 1,
                           entry_data = Some [42], entry_size = 1\<rparr>],
      aeq_entry_count = 1\<rparr>\<rparr>"


definition follower_start :: raft89 where
  "follower_start = the (snd (raft89_create (follower_host True) (Some follower_config) True))"

text \<open>Receive, append (with \<open>memory\<close> available during the acknowledgement or not), and what follows.\<close>

definition follower_run :: "bool \<Rightarrow> (host \<times> api_call) list \<Rightarrow> raft89 option \<times> raft89_result list" where
  "follower_run memory rest = api_run follower_start
     ((follower_host True, CallRecv append_one) # (follower_host memory, CallDone 1 RAFT89_ACTION_OK) # rest)"

lemma follower_start_ok: "raft89_create (follower_host True) (Some follower_config) True = (RAFT89_OK, Some follower_start)"
proof -
  have "fst (raft89_create (follower_host True) (Some follower_config) True) = RAFT89_OK"
    "snd (raft89_create (follower_host True) (Some follower_config) True) \<noteq> None" by code_simp+
  then show ?thesis by (auto simp: follower_start_def prod_eq_iff)
qed

lemma follower_run_ok:
  "fst (follower_run True []) \<noteq> None \<and> snd (follower_run True []) = [RAFT89_OK, RAFT89_OK]
   \<and> applied_index (the (fst (follower_run True []))) = 0 \<and> commit_index (the (fst (follower_run True []))) = 1
   \<and> has_action (the (fst (follower_run True [])))
   \<and> act_u (action (the (fst (follower_run True [])))) = ActApply \<lparr>entry_term = raft89_u64_from_u32 1,
        entry_index = raft89_u64_from_u32 1, entry_data = Some [42], entry_size = 1\<rparr>"
  by code_simp

theorem applied_committed_logged_witness:
  "applied_index (the (fst (follower_run True []))) = 0 \<and> commit_index (the (fst (follower_run True []))) = 1
   \<and> 1 \<le> last_log_index (the (fst (follower_run True [])))"
proof -
  have "follower_run True [] = (Some (the (fst (follower_run True []))), [RAFT89_OK, RAFT89_OK])"
    using follower_run_ok by (auto simp: prod_eq_iff)
  from api_run_alive [OF alive.created [OF follower_start_ok] this [unfolded follower_run_def]]
  have "alive (the (fst (follower_run True [])))" by (simp add: follower_run_def)
  from applied_committed_logged [OF this] follower_run_ok show ?thesis by simp
qed

section \<open>Refused memory\<close>













end
