(* ===== verification/Raft_Rules.thy ===== *)
theory Raft_Rules
  imports Raft_Order
begin

text \<open>
  Functional behaviour of the leader and the follower on one call: the commit rule, the batch a
  leader sends, the hints of a follower that refuses a batch, proposals, and the refusals of a
  node that is busy or faulted. Round trips and bounds of the scalars are here too.
\<close>

lemma from_public_eq_iff: "raft89__from_public p = v \<longleftrightarrow> p = raft89__to_public v"
  by (metis from_to_public to_from_public)

section \<open>The commit rule\<close>

definition replicas :: "raft89 \<Rightarrow> u64 \<Rightarrow> raft89_id set" where
  "replicas n i = (\<lambda>k. members n ! k) `
     {k. k < length (members n) \<and> (members n ! k = self n \<or> i \<le> match_index n ! k)}"

lemma card_replicas:
  assumes "static_ok n"
  shows "card (replicas n i) = Suc (length (filter (\<lambda>k. peer_replicated n k i) [0..<unat (member_count n)]))"
proof -
  let ?l = "length (members n)"
  have st: "?l = unat (member_count n)" "distinct (members n)" "self n \<in> set (members n)"
    using assms by (simp_all add: static_ok_def)
  then obtain s where s: "s < ?l" "members n ! s = self n" by (metis in_set_conv_nth)
  have u: "members n ! k = self n \<longleftrightarrow> k = s" if "k < ?l" for k
    using that s st(2) nth_eq_iff_index_eq [of "members n" k s] by simp
  let ?P = "{k. k < ?l \<and> peer_replicated n k i}"
  have "{k. k < ?l \<and> (members n ! k = self n \<or> i \<le> match_index n ! k)} = insert s ?P"
    using s u by (auto simp: peer_replicated_def)
  then have r: "replicas n i = (\<lambda>k. members n ! k) ` insert s ?P" by (simp only: replicas_def)
  have "insert s ?P \<subseteq> {k. k < ?l}" using s by auto
  then have "inj_on (\<lambda>k. members n ! k) (insert s ?P)"
    using st(2) by (auto simp: inj_on_def nth_eq_iff_index_eq)
  then have "card (replicas n i) = card (insert s ?P)" unfolding r by (rule card_image)
  also have "\<dots> = Suc (card ?P)" using s by (intro card_insert_disjoint) (simp_all add: peer_replicated_def)
  also have "card ?P = length (filter (\<lambda>k. peer_replicated n k i) [0..<?l])"
  proof -
    have "?P = set (filter (\<lambda>k. peer_replicated n k i) [0..<?l])" by auto
    then show ?thesis by (metis distinct_card distinct_filter distinct_upt)
  qed
  finally show ?thesis by (simp add: st(1))
qed

lemma quorum_replicated:
  assumes "static_ok n"
  shows "raft89__quorum n \<le> count_replicated n i \<longleftrightarrow> majority_of (members n) (replicas n i)"
proof -
  let ?m = "unat (member_count n)" and ?c = "card (replicas n i)"
  have sub: "replicas n i \<subseteq> set (members n)" unfolding replicas_def by (auto intro: nth_mem)
  have st: "length (members n) = ?m" using assms by (simp add: static_ok_def)
  have "?c \<le> card (set (members n))" using sub by (simp add: card_mono)
  then have c: "?c \<le> ?m" using card_length [of "members n"] st by linarith
  have m: "?m < 2 ^ 64" using unsigned_less [where ?'a = nat, of "member_count n"] by simp
  have "count_replicated n i = of_nat ?c"
    by (simp add: count_replicated_def fold_count card_replicas [OF assms])
  then have count: "unat (count_replicated n i) = ?c" using c m by (simp add: unat_of_nat)
  have "unat (raft89__quorum n) = ?m div 2 + 1"
    using m by (simp add: raft89__quorum_def unat_word_ariths unat_div)
  then show ?thesis using sub by (auto simp: word_le_nat_alt count majority_of_def st)
qed

definition greatest_in :: "(u64 \<Rightarrow> bool) \<Rightarrow> u64 \<Rightarrow> u64 \<Rightarrow> u64 \<Rightarrow> bool" where
  "greatest_in P stop index r \<longleftrightarrow> stop \<le> r \<and> r \<le> index \<and> (r = stop \<or> P r) \<and> (\<forall>j. r < j \<and> j \<le> index \<longrightarrow> \<not> P j)"

lemma greatest_in_down:
  assumes "stop < index" and "\<not> P index" and "greatest_in P stop (index - 1) r"
  shows "greatest_in P stop index r"
proof -
  have "unat (index - 1) = unat index - 1" using assms(1) by (intro unat_dec) (auto simp: word_less_nat_alt)
  then have d: "j \<le> index - 1 \<longleftrightarrow> j < index" for j
    using assms(1) by (auto simp: word_less_nat_alt word_le_nat_alt)
  show ?thesis
    using assms(2,3) unfolding greatest_in_def d by (metis order_less_imp_le order.order_iff_strict)
qed

lemma majority_search_spec:
  assumes "stop \<le> index"
  shows "greatest_in (\<lambda>i. need \<le> count_replicated n i) stop index (majority_search n index stop need)"
  using assms
proof (induction n index stop need rule: majority_search.induct)
  case (1 n index stop need)
  show ?case
  proof (cases "stop < index")
    case False
    then have "index = stop" using 1(2) by simp
    then show ?thesis by (auto simp: majority_search.simps [of n stop] greatest_in_def)
  next
    case True
    then have "unat (index - 1) = unat index - 1" by (intro unat_dec) (auto simp: word_less_nat_alt)
    then have d: "stop \<le> index - 1" using True by (auto simp: word_less_nat_alt word_le_nat_alt)
    show ?thesis
    proof (cases "need \<le> count_replicated n index")
      case False
      with 1(1) True d show ?thesis
        by (simp add: majority_search.simps [of n index] raft89__u64_dec_def greatest_in_down)
    qed (use True in \<open>auto simp: majority_search.simps [of n index] greatest_in_def\<close>)
  qed
qed

lemma apply_next_keeps:
  "commit_index (fst (raft89__apply_next h n)) = commit_index n"
  "role (fst (raft89__apply_next h n)) = role n"
proof (atomize(full), cases rule: apply_next_cases [of n h])
  case stop
  then show "commit_index (fst (raft89__apply_next h n)) = commit_index n \<and> role (fst (raft89__apply_next h n)) = role n"
    using visD(2,7) [OF stop(3)] by simp
next
  case (apply_one e)
  then show "commit_index (fst (raft89__apply_next h n)) = commit_index n \<and> role (fst (raft89__apply_next h n)) = role n"
    using visD(2,7) [OF apply_one(4)] by (simp add: emit_def)
qed simp

lemma role_leader_maybe_commit: "role (fst (raft89__leader_maybe_commit h n)) = role n"
  by (simp add: raft89__leader_maybe_commit_def Let_def bind_rc_def raft89__log_term_at_def
      raft89__advance_commit_def apply_next_keeps split: option.split)

text \<open>C11: A leader moves its commit index to \<open>i\<close> exactly when \<open>i\<close> is the greatest log position that a
  majority of the members (the leader among them) holds, lies past the old commit index, and
  carries an entry of the leader's current term.\<close>

theorem leader_commit_rule:
  assumes "static_ok n" and "commit_index n \<le> last_log_index n"
  shows "commit_index (fst (raft89__leader_maybe_commit h n)) = i \<and> i \<noteq> commit_index n \<longleftrightarrow>
     commit_index n < i \<and> i \<le> last_log_index n
   \<and> majority_of (members n) (replicas n i)
   \<and> (\<forall>j. i < j \<and> j \<le> last_log_index n \<longrightarrow> \<not> majority_of (members n) (replicas n j))
   \<and> store_log_term (host_store h) (raft89__to_public i) = Some (raft89__to_public (current_term n))"
proof -
  let ?r = "majority_search n (last_log_index n) (commit_index n) (raft89__quorum n)"
  let ?M = "\<lambda>i. majority_of (members n) (replicas n i)"
  have g: "greatest_in ?M (commit_index n) (last_log_index n) ?r"
    using majority_search_spec [OF assms(2), of "raft89__quorum n" n] by (simp add: quorum_replicated [OF assms(1)])
  have "commit_index (fst (raft89__leader_maybe_commit h n)) =
     (if commit_index n < ?r \<and> store_log_term (host_store h) (raft89__to_public ?r) = Some (raft89__to_public (current_term n))
      then ?r else commit_index n)"
    by (auto simp: raft89__leader_maybe_commit_def Let_def raft89__log_term_at_def raft89__u64_is_zero_def
        raft89__advance_commit_def apply_next_keeps bind_rc_def from_public_eq_iff split: option.split)
  moreover have "commit_index n < i \<and> i \<le> last_log_index n \<and> ?M i \<and> (\<forall>j. i < j \<and> j \<le> last_log_index n \<longrightarrow> \<not> ?M j)
      \<longleftrightarrow> commit_index n < i \<and> i = ?r"
    using g unfolding greatest_in_def by (metis linorder_less_linear order.strict_iff_not)
  ultimately show ?thesis by auto
qed

section \<open>The batch a leader sends\<close>

lemma unat_sat_add: "unat (raft89__sat_add a b) = min (unat a + unat b) (2 ^ 64 - 1)"
proof -
  have b: "unat b < 2 ^ 64" and a: "unat a < 2 ^ 64"
    using unsigned_less [where ?'a = nat, of b] unsigned_less [where ?'a = nat, of a] by simp_all
  have "- 1 - a < b \<longleftrightarrow> 2 ^ 64 - 1 < unat a + unat b"
    using a by (simp add: word_less_nat_alt unat_max_minus) linarith
  then show ?thesis
    using a b by (auto simp: raft89__sat_add_def unsigned_minus_1_eq_mask mask_eq_exp_minus_1 unat_word_ariths min_def)
qed

text \<open>The payload bytes of \<open>c\<close> entries from \<open>start\<close> on, as the store reports them, capped like the
  accumulator of the code.\<close>

definition batch_bytes :: "host \<Rightarrow> u64 \<Rightarrow> nat \<Rightarrow> nat" where
  "batch_bytes h start c =
     min (\<Sum>k<c. unat (the (store_log_size (host_store h) (raft89__to_public (start + of_nat k))))) (2 ^ 64 - 1)"

lemma sum_shift: "(\<Sum>k<Suc c. f k) = f 0 + (\<Sum>k<c. f (Suc k))" for f :: "nat \<Rightarrow> nat"
  by (rule sum.lessThan_Suc_shift)

lemma entry_sum_from_eq:
  assumes "\<And>k. k < c \<Longrightarrow> store_log_size (host_store h) (raft89__to_public (start + of_nat k)) \<noteq> None"
  shows "\<exists>t. entry_sum_from h n start c acc = (n, Inr t) \<and> unat t = min (unat acc +
     (\<Sum>k<c. unat (the (store_log_size (host_store h) (raft89__to_public (start + of_nat k)))))) (2 ^ 64 - 1)"
  using assms
proof (induction c arbitrary: start acc)
  case 0
  then show ?case using unsigned_less [where ?'a = nat, of acc] by simp
next
  case (Suc c)
  obtain sz where sz: "store_log_size (host_store h) (raft89__to_public start) = Some sz"
    using Suc.prems [of 0] by auto
  have "store_log_size (host_store h) (raft89__to_public (start + 1 + of_nat k)) \<noteq> None" if "k < c" for k
    using Suc.prems [of "Suc k"] that by (simp add: algebra_simps)
  from Suc.IH [of "start + 1", OF this, of "raft89__sat_add acc sz"]
  show ?case
    unfolding sum_shift by (auto simp: sum_one_def sz unat_sat_add algebra_simps)
qed

lemma entry_sum_eq:
  assumes "\<And>k. k < unat c \<Longrightarrow> store_log_size (host_store h) (raft89__to_public (start + of_nat k)) \<noteq> None"
  obtains t where "entry_sum h n start c = (n, Inr t)" "unat t = batch_bytes h start (unat c)"
  using entry_sum_from_eq [OF assms, of "unat c" n 0] by (auto simp: entry_sum_def batch_bytes_def)

text \<open>\<open>c\<close> is the largest count up to \<open>limit\<close> whose bytes fit.\<close>

definition largest_fit :: "(nat \<Rightarrow> nat) \<Rightarrow> nat \<Rightarrow> nat \<Rightarrow> nat \<Rightarrow> bool" where
  "largest_fit f room limit c \<longleftrightarrow> c \<le> limit \<and> f c \<le> room \<and> (\<forall>c'. c < c' \<and> c' \<le> limit \<longrightarrow> room < f c')"

lemma shrink_to_fit_spec:
  assumes "\<And>k. k < unat count \<Longrightarrow> store_log_size (host_store h) (raft89__to_public (start + of_nat k)) \<noteq> None"
  shows "\<exists>c t. shrink_to_fit h n start count = (n, Inr (c, t)) \<and> unat t = batch_bytes h start (unat c)
     \<and> largest_fit (batch_bytes h start) (unat (max_append_bytes n)) (unat count) (unat c)"
  using assms
proof (induction h n start count rule: shrink_to_fit.induct)
  case (1 h n start count)
  obtain t where t: "entry_sum h n start count = (n, Inr t)" "unat t = batch_bytes h start (unat count)"
    using entry_sum_eq 1(2) by metis
  show ?case
  proof (cases "t \<le> max_append_bytes n")
    case True
    then show ?thesis
      using t by (auto simp: shrink_to_fit.simps [of h n start count] shrink_step_def largest_fit_def word_le_nat_alt)
  next
    case False
    then have nz: "count \<noteq> 0" using t by (auto simp: batch_bytes_def word_le_nat_alt)
    have d: "unat (count - 1) = unat count - 1" using nz by (rule unat_dec)
    have st: "shrink_step h n start count = (n, 0, count - 1, t)"
      using t False by (simp add: shrink_step_def raft89__u64_dec_def)
    have "\<exists>c t. shrink_to_fit h n start (count - 1) = (n, Inr (c, t)) \<and> unat t = batch_bytes h start (unat c)
       \<and> largest_fit (batch_bytes h start) (unat (max_append_bytes n)) (unat (count - 1)) (unat c)"
      by (rule 1(1) [OF st [symmetric]]) (use 1(2) d in auto)
    moreover have "unat (max_append_bytes n) < batch_bytes h start (unat count)"
      using False t(2) by (simp add: word_le_nat_alt)
    then have "largest_fit (batch_bytes h start) (unat (max_append_bytes n)) (unat (count - 1)) c
        \<Longrightarrow> largest_fit (batch_bytes h start) (unat (max_append_bytes n)) (unat count) c" for c
      using nz unat_gt_0 [of count] unfolding largest_fit_def d
      by (metis Suc_diff_1 diff_le_self le_Suc_eq le_trans)
    ultimately show ?thesis
      unfolding shrink_to_fit.simps [of h n start count] st by auto
  qed
qed

text \<open>Planning a batch always ends with an answer when the store knows the sizes of the log: the
  most entries, from the follower's next index on, that stay within the end of the log, the limit on
  entries and the limit on bytes.\<close>

theorem plan_batch_largest:
  assumes "\<And>i. start \<le> i \<Longrightarrow> i \<le> last_log_index n \<Longrightarrow> store_log_size (host_store h) (raft89__to_public i) \<noteq> None"
    and "start \<noteq> 0"
  shows "\<exists>c t. plan_batch h n start = (n, Inr (c, t)) \<and> unat t = batch_bytes h start (unat c)
     \<and> largest_fit (batch_bytes h start) (unat (max_append_bytes n))
         (min (unat (last_log_index n) + 1 - unat start) (unat (max_append_entries n))) (unat c)"
proof (cases "last_log_index n < start")
  case True
  then show ?thesis
    by (simp add: plan_batch_def largest_fit_def batch_bytes_def word_less_nat_alt)
next
  case False
  let ?avail = "raft89__min_index (raft89__u64_inc (last_log_index n - start)) (max_append_entries n)"
  have le: "unat start \<le> unat (last_log_index n)" using False by (simp add: word_less_nat_alt)
  have d: "unat (last_log_index n - start) = unat (last_log_index n) - unat start"
    using le by (intro unat_sub) (simp add: word_le_nat_alt)
  have l: "unat (last_log_index n) < 2 ^ 64" using unsigned_less [where ?'a = nat, of "last_log_index n"] by simp
  have s: "0 < unat start" using assms(2) by (simp add: unat_gt_0)
  have "unat (last_log_index n - start + 1) = unat (last_log_index n) + 1 - unat start"
    using d l le s by (simp add: unat_word_ariths)
  then have a: "unat ?avail = min (unat (last_log_index n) + 1 - unat start) (unat (max_append_entries n))"
    by (auto simp: raft89__min_index_def raft89__u64_inc_def word_less_nat_alt min_def)
  have "store_log_size (host_store h) (raft89__to_public (start + of_nat k)) \<noteq> None" if "k < unat ?avail" for k
  proof (rule assms(1))
    have "unat (start + of_nat k) = unat start + k"
    proof -
      have "unat start + k < 2 ^ 64" using that a l le by linarith
      then show ?thesis by (simp add: unat_word_ariths unat_of_nat)
    qed
    then show "start \<le> start + of_nat k" "start + of_nat k \<le> last_log_index n"
      using that a le by (auto simp: word_le_nat_alt)
  qed
  from shrink_to_fit_spec [of ?avail h start n, OF this] a False show ?thesis
    by (simp add: plan_batch_def Let_def raft89__size_to_u64_def)
qed

section \<open>Proposals\<close>

lemma entries_store_nth:
  "i < length es \<Longrightarrow> fst (entries_store es off) ! i = fst (entry_store (es ! i) 0)"
  "length (fst (entries_store es off)) = length es"
  by (induction es arbitrary: i off) (auto simp: entry_store_def case_prod_beta nth_Cons split: nat.split)

lemma entries_stash_ok:
  assumes "count \<noteq> 0" and "length es = unat count" and "snd (raft89__entries_stash h n (Some es) count) = RAFT89_OK"
  shows "fst (raft89__entries_stash h n (Some es) count) = n\<lparr>alloc_seq := Suc (alloc_seq n),
      pending_entries := Some (fst (entries_store es (count * sizeof_entry))), pending_count := count\<rparr>"
proof -
  let ?n = "n\<lparr>pending_entries := None, pending_count := 0\<rparr>"
  let ?a = "raft89__entries_buffer_alloc h ?n count (payload_total es)"
  have eq: "raft89__entries_stash h n (Some es) count = (if \<not> snd ?a then (fst ?a, RAFT89_ERR_NOMEM)
     else ((fst ?a)\<lparr>pending_entries := Some (fst (entries_store es (count * sizeof_entry))), pending_count := count\<rparr>, RAFT89_OK))"
    using assms(1,2) by (simp add: raft89__entries_stash_def raft89__entries_clear_def Let_def case_prod_beta)
  with assms(3) have ok: "snd ?a" by (simp split: if_split_asm)
  then have "fst ?a = ?n\<lparr>alloc_seq := Suc (alloc_seq n)\<rparr>"
    by (simp add: raft89__entries_buffer_alloc_def host_alloc_def Let_def split: if_split_asm)
  with eq ok show ?thesis by simp
qed

lemma proposev_guards:
  assumes "raft89_proposev h (Some n) (Some cs) count = (Some n', RAFT89_OK, first)"
  shows "count \<noteq> 0 \<and> \<not> commands_bad cs count \<and> \<not> faulted n \<and> \<not> has_action n \<and> role n = RAFT89_LEADER
    \<and> \<not> max_append_entries n < count \<and> \<not> ULONG_MAX div sizeof_entry < count
    \<and> \<not> max_append_bytes n < commands_total cs count \<and> \<not> RAFT89__U64_MAX - raft89__size_to_u64 count < last_log_index n"
  using assms by (simp only: raft89_proposev_def option.case split: if_split_asm) simp_all

lemma proposev_slot:
  assumes "raft89_proposev h (Some n) (Some cs) count = (Some n', RAFT89_OK, first)"
  shows "has_action n' \<and> first = Some (raft89__to_public (last_log_index n + 1)) \<and> last_log_index n' = last_log_index n
    \<and> act_u (action n') = ActLogAppend (fst (entries_store
         (command_entries (last_log_index n + 1) (current_term n) cs count) (count * sizeof_entry))) count"
proof -
  note g = proposev_guards [OF assms]
  let ?s = "raft89__entries_stash h (fst (host_alloc h n)) (Some (command_entries (last_log_index n + 1) (current_term n) cs count)) count"
  have al: "last_log_index (fst (host_alloc h n)) = last_log_index n" "current_term (fst (host_alloc h n)) = current_term n"
    by (simp_all add: host_alloc_def)
  have ok: "snd (host_alloc h n)"
    using assms unfolding raft89_proposev_def option.case using g by (simp add: case_prod_beta split: if_split_asm)
  obtain m where s: "?s = (m, RAFT89_OK)"
  proof -
    obtain m rc where m: "?s = (m, rc)" by fastforce
    have "rc = RAFT89_OK"
      using assms unfolding raft89_proposev_def option.case
      using g al ok m by (simp add: Let_def case_prod_beta raft89__u64_inc_def split: if_split_asm)
    with m that show thesis by simp
  qed
  have eq: "(case raft89__action_begin m RAFT89_ACT_LOG_APPEND of (k, rc) \<Rightarrow>
             if rc \<noteq> RAFT89_OK then (Some (raft89__entries_clear k), rc, None)
             else (Some (k\<lparr>action := (action k)\<lparr>act_u :=
                              ActLogAppend (case pending_entries k of None \<Rightarrow> [] | Some es \<Rightarrow> es) count\<rparr>,
                           step := RAFT89_STEP_LEADER_APPEND\<rparr>),
                   RAFT89_OK, Some (raft89__to_public (last_log_index n + 1)))) = (Some n', RAFT89_OK, first)"
    using assms unfolding raft89_proposev_def option.case
    using g al ok s by (simp add: Let_def case_prod_beta raft89__u64_inc_def)
  have len: "length (command_entries (last_log_index n + 1) (current_term n) cs count) = unat count"
    by (simp add: command_entries_def)
  have m: "m = (fst (host_alloc h n))\<lparr>alloc_seq := Suc (alloc_seq (fst (host_alloc h n))), pending_entries := Some (fst (entries_store
        (command_entries (last_log_index n + 1) (current_term n) cs count) (count * sizeof_entry))), pending_count := count\<rparr>"
    using entries_stash_ok [of count "command_entries (last_log_index n + 1) (current_term n) cs count" h "fst (host_alloc h n)"] s g len
    by simp
  show ?thesis
    using eq al unfolding m by (auto simp: action_begin_eq emit_def split: if_split_asm)
qed

text \<open>The bytes a command carries.\<close>

definition command_bytes :: "raft89_command \<Rightarrow> bytes" where
  "command_bytes c = (case command_data c of None \<Rightarrow> [] | Some d \<Rightarrow> take (unat (command_size c)) d)"

text \<open>C30: A successful proposal leaves exactly one append action with one entry per command, in order, at
  the consecutive positions after the log end and in the leader's term, with the command's bytes,
  and reports the first position; the log the node believes in has not moved yet.\<close>

theorem proposev_appends:
  assumes "raft89_proposev h (Some n) (Some cs) count = (Some n', RAFT89_OK, first)"
  shows "role n = RAFT89_LEADER \<and> \<not> has_action n \<and> has_action n'
   \<and> first = Some (raft89__to_public (last_log_index n + 1)) \<and> last_log_index n' = last_log_index n
   \<and> unat (last_log_index n) + unat count < 2 ^ 64 \<and> count \<le> max_append_entries n
   \<and> (\<exists>es. act_u (action n') = ActLogAppend es count \<and> length es = unat count
        \<and> (\<forall>k < unat count. es ! k = \<lparr>entry_term = raft89__to_public (current_term n),
             entry_index = raft89__to_public (last_log_index n + 1 + of_nat k),
             entry_data = Some (command_bytes (cs ! k)), entry_size = command_size (cs ! k)\<rparr>))"
proof -
  let ?es = "command_entries (last_log_index n + 1) (current_term n) cs count"
  note g = proposev_guards [OF assms] and slot = proposev_slot [OF assms]
  have len: "length ?es = unat count" by (simp add: command_entries_def)
  have "fst (entries_store ?es x) ! k = \<lparr>entry_term = raft89__to_public (current_term n),
      entry_index = raft89__to_public (last_log_index n + 1 + of_nat k),
      entry_data = Some (command_bytes (cs ! k)), entry_size = command_size (cs ! k)\<rparr>" if "k < unat count" for k x
    using that entries_store_nth(1) [of k ?es x]
    by (simp add: command_entries_def command_fill_def command_at_def entry_store_def command_bytes_def
        raft89__size_to_u64_def split: option.split)
  moreover have "unat (last_log_index n) + unat count < 2 ^ 64"
    using g by (simp add: not_less le_max_minus_iff raft89__size_to_u64_def)
  ultimately show ?thesis using g slot len entries_store_nth(2) by (simp add: not_less)
qed

section \<open>Refusals\<close>

lemma refuse_propose:
  "faulted n \<or> has_action n \<Longrightarrow> \<exists>rc. raft89_proposev h (Some n) (Some cs) k = (Some n, rc, None)
     \<and> rc \<in> {RAFT89_ERR_FAULTED, RAFT89_BUSY, RAFT89_ERR_STATE, RAFT89_ERR_ARG}"
proof (cases "k = 0 \<or> commands_bad cs k")
  case True
  then show ?thesis unfolding raft89_proposev_def option.case by force
next
  case False
  assume "faulted n \<or> has_action n"
  with False show ?thesis unfolding raft89_proposev_def option.case by (cases "faulted n") simp_all
qed

lemma refuse_done:
  assumes "faulted n \<or> \<not> has_action n \<or> ident \<noteq> act_id (action n) \<or> \<not> raft89__action_result_valid (action n) result"
  shows "\<exists>rc. raft89_action_done h (Some n) ident result = (Some n, rc)
    \<and> rc \<in> {RAFT89_ERR_FAULTED, RAFT89_BUSY, RAFT89_ERR_STATE, RAFT89_ERR_ARG}"
  unfolding raft89_action_done_def option.case
  by (cases "faulted n"; cases "has_action n"; cases "ident = act_id (action n)") (use assms in simp_all)

text \<open>A faulted node changes nothing and answers every call with an error, and a node with an
  outstanding action changes nothing and refuses everything but the acknowledgement; an
  acknowledgement of the wrong action, or one with a result that action cannot have, is refused too.\<close>

theorem refusals_keep_node:
  assumes "faulted n
    \<or> has_action n \<and> (\<forall>ident result. c = CallDone ident result \<longrightarrow>
         ident \<noteq> act_id (action n) \<or> \<not> raft89__action_result_valid (action n) result)
    \<or> \<not> has_action n \<and> (\<exists>ident result. c = CallDone ident result)"
  shows "\<exists>rc. api_step h n c = (Some n, rc)
    \<and> rc \<in> {RAFT89_ERR_FAULTED, RAFT89_BUSY, RAFT89_ERR_STATE, RAFT89_ERR_ARG}"
proof (cases c)
  case (CallTick t)
  with assms show ?thesis by (auto simp: raft89_tick_def)
next
  case (CallRecv m)
  with assms show ?thesis by (auto simp: raft89_recv_def)
next
  case (CallPropose cs k)
  with assms have "faulted n \<or> has_action n" by simp
  from refuse_propose [OF this, of h cs k] show ?thesis by (auto simp: CallPropose)
next
  case (CallDone ident result)
  with assms have "faulted n \<or> \<not> has_action n \<or> ident \<noteq> act_id (action n) \<or> \<not> raft89__action_result_valid (action n) result"
    by blast
  from refuse_done [OF this, of h] show ?thesis by (auto simp: CallDone)
qed

section \<open>Scalars and timeouts\<close>

text \<open>The portable 64-bit pair and the internal 64-bit value convert into each other without loss, and
  the public comparison is the order of the values.\<close>

theorem public_scalar_roundtrip:
  "raft89__from_public (raft89__to_public v) = v \<and> raft89__to_public (raft89__from_public p) = p
   \<and> raft89_u64_cmp p q = (if raft89__from_public p < raft89__from_public q then - 1
        else if raft89__from_public q < raft89__from_public p then 1 else 0)"
proof -
  have l: "unat (u64_lo x) < 2 ^ 32" for x :: raft89_u64
    using unsigned_less [where ?'a = nat, of "u64_lo x"] by simp
  have lt: "raft89__from_public x < raft89__from_public y \<longleftrightarrow>
      u64_hi x < u64_hi y \<or> u64_hi x = u64_hi y \<and> u64_lo x < u64_lo y" for x y
    using l [of x] l [of y] by (auto simp: word_less_nat_alt unat_from_public word_unat_eq_iff)
  show ?thesis by (auto simp: raft89_u64_cmp_def lt)
qed

text \<open>With an accepted configuration the bound handed to the random source is never zero, and when the
  source keeps to it the drawn election timeout lies between the configured limits.\<close>

theorem timeout_in_range:
  assumes "config_ok cfg" and "election_timeout_min n = cfg_election_timeout_min cfg"
    and "election_timeout_max n = cfg_election_timeout_max cfg"
    and "\<And>k b. b \<noteq> 0 \<Longrightarrow> host_random h k b < b"
  shows "cfg_election_timeout_min cfg \<le> election_timeout (set_timeout h n)
    \<and> election_timeout (set_timeout h n) \<le> cfg_election_timeout_max cfg"
proof -
  let ?lo = "cfg_election_timeout_min cfg" and ?hi = "cfg_election_timeout_max cfg"
  let ?span = "?hi - ?lo + 1" and ?r = "host_random h (rand_seq n) (?hi - ?lo + 1)"
  have c: "0 < ?lo" "?lo \<le> ?hi" using assms(1) by (auto simp: config_ok_def word_less_nat_alt)
  have d: "unat (?hi - ?lo) = unat ?hi - unat ?lo" using c(2) by (intro unat_sub)
  have hi: "unat ?hi < 2 ^ 64" using unsigned_less [where ?'a = nat, of ?hi] by simp
  have lo: "0 < unat ?lo" "unat ?lo \<le> unat ?hi" using c by (simp_all add: word_less_nat_alt word_le_nat_alt)
  have span: "unat ?span = unat ?hi - unat ?lo + 1" using d hi lo by (simp add: unat_word_ariths)
  then have "?span \<noteq> 0" by (metis add_is_0 one_neq_zero unat_0)
  from assms(4) [OF this, of "rand_seq n"] have r: "unat ?r < unat ?hi - unat ?lo + 1"
    unfolding word_less_nat_alt span .
  then have "unat (?lo + ?r) = unat ?lo + unat ?r" using hi lo by (intro unat_add_no_wrap) simp
  then show ?thesis
    using r lo assms(2,3) by (simp add: set_timeout_def raft89__pick_timeout_def Let_def word_le_nat_alt)
qed

section \<open>Starting an election\<close>

lemma sole_member_leads:
  assumes "peer_count n = 0" and "member_count n = 1" and "votes_granted n = 1" and "last_log_index n \<noteq> - 1"
  shows "role (fst (raft89__election_send_next h n)) = RAFT89_LEADER"
proof -
  have "role (fold (\<lambda>i n. init_peer_state n i) xs m) = role m" 
    "peer_count (fold (\<lambda>i n. init_peer_state n i) xs m) = peer_count m" for xs m
    by (induction xs arbitrary: m) (simp_all add: init_peer_state_def)
  moreover have "role (init_peer_state m k) = role m" "peer_count (init_peer_state m k) = peer_count m" for m k
    by (simp_all add: init_peer_state_def)
  ultimately show ?thesis
    using assms by (simp add: raft89__election_send_next_def raft89__quorum_def become_leader_after_quorum_def raft89__become_leader_def
        Let_def raft89__leader_broadcast_next_def broadcast_finish_def role_leader_maybe_commit)
qed

text \<open>C29: A node that has waited out its election timeout stands for election: the tick asks the host to
  make the next term and the vote for itself durable, and once that is acknowledged the only member
  of a cluster leads, and any other node asks its first peer for its vote.\<close>

theorem tick_starts_election:
  assumes "\<not> faulted n" and "\<not> has_action n" and "role n \<noteq> RAFT89_LEADER"
    and "election_timeout n \<le> raft89__sat_add (election_elapsed n) t"
    and "current_term n \<noteq> - 1" and "action_seq n \<noteq> - 1" and "action_seq n + 1 \<noteq> - 1"
    and "last_log_index n \<noteq> - 1" and "member_count n = peer_count n + 1" and "peer_count n \<noteq> - 1"
  shows "\<exists>n'. raft89_tick h (Some n) t = (Some n', RAFT89_OK) \<and> role n' = RAFT89_CANDIDATE
     \<and> pending_hs n' = Some \<lparr>hs_current_term = raft89__to_public (current_term n + 1), hs_voted_for = self n\<rparr>
     \<and> (\<exists>n'' rc. raft89_action_done h' (Some n') (act_id (action n')) RAFT89_ACTION_OK = (Some n'', rc)
        \<and> (peer_count n = 0 \<longrightarrow> role n'' = RAFT89_LEADER)
        \<and> (peer_count n \<noteq> 0 \<longrightarrow> rc = RAFT89_OK \<and> role n'' = RAFT89_CANDIDATE \<and> has_action n''
             \<and> act_u (action n'') = ActSend \<lparr>msg_from = self n, msg_to = peers n ! 0,
                 msg_u = RAFT89_MSG_REQUEST_VOTE
                   \<lparr>rv_term = raft89__to_public (current_term n + 1),
                    rv_last_log_index = raft89__to_public (last_log_index n),
                    rv_last_log_term = raft89__to_public (last_log_term n)\<rparr>\<rparr>))"
proof -
  obtain j u where to: "set_timeout h ((raft89__advance_clocks n t)\<lparr>role := RAFT89_CANDIDATE, leader_id := 0, election_elapsed := 0\<rparr>)
      = (raft89__advance_clocks n t)\<lparr>role := RAFT89_CANDIDATE, leader_id := 0, election_elapsed := 0, rand_seq := j, election_timeout := u\<rparr>"
    using set_timeout_eq [of h] by fastforce
  obtain vs where n0: "(reset_votes (set_timeout h ((raft89__advance_clocks n t)
        \<lparr>role := RAFT89_CANDIDATE, leader_id := 0, election_elapsed := 0\<rparr>)))\<lparr>votes_granted := 1\<rparr>
      = (raft89__advance_clocks n t)\<lparr>role := RAFT89_CANDIDATE, leader_id := 0, election_elapsed := 0,
          rand_seq := j, election_timeout := u, votes := vs, votes_granted := 1\<rparr>" (is "_ = ?m")
    unfolding to by (auto simp: reset_votes_def Let_def)
  have self_reset: "self (reset_votes m) = self m" "self (set_timeout h m) = self m" for m
    using set_timeout_eq [of h m] by (auto simp: reset_votes_def Let_def)
  let ?hs = "\<lparr>hs_current_term = raft89__to_public (current_term n + 1), hs_voted_for = self n\<rparr>"
  let ?n' = "(emit ?m (ActHardState ?hs))\<lparr>peer_cursor := 0, step := RAFT89_STEP_ELECTION_BROADCAST\<rparr>"
  have tick: "raft89_tick h (Some n) t = (Some ?n', RAFT89_OK)"
    using assms
    by (simp add: raft89_tick_def Let_def raft89__tick_follower_def raft89__start_election_def raft89__u64_inc_def)
       (simp only: n0 emit_hard_state_eq self_reset, simp add: raft89__advance_clocks_def)
  let ?a = "?n'\<lparr>current_term := current_term n + 1, voted_for := self n, has_action := False\<rparr>"
  have ack: "raft89_action_done h' (Some ?n') (act_id (action ?n')) RAFT89_ACTION_OK
      = apfst Some (raft89__election_send_next h' ?a)"
    using assms by (simp add: raft89_action_done_def raft89__apply_hard_state_def Let_def raft89__resume.simps
        raft89__advance_clocks_def emit_def)
  have q: "raft89__quorum ?a \<le> votes_granted ?a \<longleftrightarrow> peer_count n = 0"
  proof -
    have "unat (member_count n) = Suc (unat (peer_count n))" using assms(9,10) unat_inc by metis
    moreover have "unat (member_count n) < 2 ^ 64" using unsigned_less [where ?'a = nat, of "member_count n"] by simp
    ultimately show ?thesis
      by (auto simp: raft89__quorum_def raft89__advance_clocks_def emit_def word_le_nat_alt unat_word_ariths unat_div simp flip: unat_eq_zero)
  qed
  have lead: "role (fst (raft89__election_send_next h' ?a)) = RAFT89_LEADER" if "peer_count n = 0"
    by (rule sole_member_leads) (use that assms in \<open>simp_all add: raft89__advance_clocks_def emit_def\<close>)
  have ask: "raft89__election_send_next h' ?a
      = (emit (?a\<lparr>peer_cursor := 1, step := RAFT89_STEP_ELECTION_BROADCAST\<rparr>)
           (ActSend (raft89__build_request_vote ?a (peers n ! 0))), RAFT89_OK)" if "peer_count n \<noteq> 0"
    using that q assms
    by (simp add: raft89__election_send_next_def Let_def emit_send_eq)
       (simp add: raft89__advance_clocks_def emit_def raft89__build_request_vote_def)
  show ?thesis
  proof (intro exI conjI impI)
    show "raft89_tick h (Some n) t = (Some ?n', RAFT89_OK)" by (rule tick)
    show "role ?n' = RAFT89_CANDIDATE" by (simp add: emit_def)
    show "pending_hs ?n' = Some ?hs" by (simp add: pending_hs_def emit_def)
    show "raft89_action_done h' (Some ?n') (act_id (action ?n')) RAFT89_ACTION_OK
        = (Some (fst (raft89__election_send_next h' ?a)), snd (raft89__election_send_next h' ?a))"
      unfolding ack by (simp add: apfst_def map_prod_def case_prod_beta)
  qed (use lead ask in \<open>simp_all add: raft89__build_request_vote_def raft89__advance_clocks_def emit_def\<close>)
qed

section \<open>Concrete instances\<close>

text \<open>A leader of three members in term 1 whose first entry one follower holds.\<close>

definition leading :: raft89 where
  "leading = follower_start\<lparr>role := RAFT89_LEADER, leader_id := 1, last_log_index := 1, last_log_term := 1,
     next_index := [2, 2, 1], match_index := [0, 1, 0]\<rparr>"

lemma leading_fields:
  "members leading = [1, 2, 3] \<and> member_count leading = 3 \<and> self leading = 1 \<and> votes leading = [0, 0, 0]
   \<and> match_index leading = [0, 1, 0] \<and> commit_index leading = 0 \<and> last_log_index leading = 1 \<and> current_term leading = 1"
  by code_simp

theorem leader_commit_rule_witness:
  "commit_index (fst (raft89__leader_maybe_commit (follower_host True) leading)) = 1"
proof -
  note f = leading_fields
  have "replicas leading 1 = {1, 2}"
  proof -
    have "{k. k < length (members leading) \<and> (members leading ! k = self leading \<or> 1 \<le> match_index leading ! k)} = {0, 1}"
      using f by (auto simp: less_Suc_eq numeral_3_eq_3 word_le_nat_alt)
    then show ?thesis using f unfolding replicas_def by simp
  qed
  then have "majority_of (members leading) (replicas leading 1)" using f by (simp add: majority_of_def)
  moreover have "store_log_term (host_store (follower_host True)) (raft89__to_public 1) = Some (raft89__to_public 1)"
    by code_simp
  ultimately show ?thesis
    using f leader_commit_rule [of leading "follower_host True" 1] by (simp add: static_ok_def) (metis linorder_not_le)
qed

theorem plan_batch_largest_witness:
  "\<exists>t. plan_batch (follower_host True) leading 1 = (leading, Inr (1, t))"
proof -
  have s: "store_log_size (host_store (follower_host True)) (raft89__to_public 1) = Some 1" by code_simp
  have m: "max_append_entries leading = 8 \<and> max_append_bytes leading = 1024" by code_simp
  have one: "i = 1" if "1 \<le> i" "i \<le> 1" for i :: u64 by (rule order_antisym [OF that(2,1)])
  have "\<exists>c t. plan_batch (follower_host True) leading 1 = (leading, Inr (c, t))
      \<and> unat t = batch_bytes (follower_host True) 1 (unat c)
      \<and> largest_fit (batch_bytes (follower_host True) 1) (unat (max_append_bytes leading))
          (min (unat (last_log_index leading) + 1 - unat (1 :: u64)) (unat (max_append_entries leading))) (unat c)"
    by (rule plan_batch_largest) (use s leading_fields one in auto)
  moreover have "c = 1" if "largest_fit (batch_bytes (follower_host True) 1) 1024 1 (unat c)" for c :: u64
  proof -
    have "batch_bytes (follower_host True) 1 1 \<le> 1024" using s by (simp add: batch_bytes_def)
    with that have "unat c = 1" unfolding largest_fit_def by (metis le_neq_implies_less less_le_not_le order.refl)
    then show ?thesis by (simp add: word_unat_eq_iff)
  qed
  ultimately show ?thesis using leading_fields m by auto
qed

definition one_command :: raft89_command where
  "one_command = \<lparr>command_data = Some [7, 8], command_size = 2\<rparr>"

theorem proposev_appends_witness:
  "\<exists>n' es. raft89_proposev (follower_host True) (Some leading) (Some [one_command]) 1
       = (Some n', RAFT89_OK, Some (raft89_u64_from_u32 2))
     \<and> act_u (action n') = ActLogAppend es 1 \<and> entry_index (es ! 0) = raft89_u64_from_u32 2
     \<and> entry_data (es ! 0) = Some [7, 8]"
proof -
  let ?r = "raft89_proposev (follower_host True) (Some leading) (Some [one_command]) 1"
  have r: "fst ?r \<noteq> None \<and> snd ?r = (RAFT89_OK, Some (raft89_u64_from_u32 2))" by code_simp
  then obtain n' where n': "?r = (Some n', RAFT89_OK, Some (raft89_u64_from_u32 2))" by (auto simp: prod_eq_iff)
  have two: "raft89__to_public 2 = raft89_u64_from_u32 2" by code_simp
  obtain es where "act_u (action n') = ActLogAppend es 1" "\<forall>k < unat (1 :: u64). es ! k =
      \<lparr>entry_term = raft89__to_public (current_term leading),
       entry_index = raft89__to_public (last_log_index leading + 1 + of_nat k),
       entry_data = Some (command_bytes ([one_command] ! k)), entry_size = command_size ([one_command] ! k)\<rparr>"
    using proposev_appends [OF n'] by blast
  with n' two leading_fields show ?thesis
    by (intro exI [of _ n'] exI [of _ es]) (simp add: one_command_def command_bytes_def)
qed

theorem refusals_keep_node_witness:
  "\<exists>rc. api_step (follower_host True) (leading\<lparr>faulted := True\<rparr>) (CallTick 5) = (Some (leading\<lparr>faulted := True\<rparr>), rc)"
proof -
  have "\<exists>rc. api_step (follower_host True) (leading\<lparr>faulted := True\<rparr>) (CallTick 5) = (Some (leading\<lparr>faulted := True\<rparr>), rc)
      \<and> rc \<in> {RAFT89_ERR_FAULTED, RAFT89_BUSY, RAFT89_ERR_STATE, RAFT89_ERR_ARG}"
    by (rule refusals_keep_node) simp
  then show ?thesis by blast
qed

theorem timeout_in_range_witness:
  "50 \<le> election_timeout (set_timeout (follower_host True) leading)
   \<and> election_timeout (set_timeout (follower_host True) leading) \<le> 100"
proof -
  have "config_members follower_config = [1, 2, 3]"
    by (simp add: config_members_def cfg_member_def follower_config_def upt_rec)
  then have "config_ok follower_config" by (simp add: config_ok_def follower_config_def)
  moreover have "election_timeout_min leading = 50 \<and> election_timeout_max leading = 100" by code_simp
  moreover have "cfg_election_timeout_min follower_config = 50" "cfg_election_timeout_max follower_config = 100"
    by (simp_all add: follower_config_def)
  moreover have "b \<noteq> 0 \<Longrightarrow> host_random (follower_host True) k b < b" for k b
    by (simp add: follower_host_def word_gt_0)
  ultimately show ?thesis using timeout_in_range [of follower_config leading "follower_host True"] by simp
qed

theorem tick_starts_election_witness:
  "\<exists>n'. raft89_tick (follower_host True) (Some follower_start) 60 = (Some n', RAFT89_OK)
     \<and> role n' = RAFT89_CANDIDATE
     \<and> pending_hs n' = Some \<lparr>hs_current_term = raft89__to_public 2, hs_voted_for = 1\<rparr>"
proof -
  have f: "\<not> faulted follower_start \<and> \<not> has_action follower_start \<and> role follower_start \<noteq> RAFT89_LEADER
    \<and> election_timeout follower_start \<le> raft89__sat_add (election_elapsed follower_start) 60
    \<and> current_term follower_start = 1 \<and> action_seq follower_start = 0 \<and> self follower_start = 1
    \<and> last_log_index follower_start = 0 \<and> member_count follower_start = 3 \<and> peer_count follower_start = 2"
    by code_simp
  then show ?thesis
    using tick_starts_election [of follower_start 60 "follower_host True" "follower_host True"] by auto
qed

end
