(* ===== verification/Fsm89.thy ===== *)
theory Fsm89
  imports Prelude
begin

text \<open>
  \<open>libfsm89\<close>: deterministic labelled transition systems over caller-owned tables
  (\<open>libfsm89/src/fsm89_lookup.c\<close>, \<open>fsm89_state.c\<close>, \<open>fsm89_step.c\<close>, \<open>fsm89_validate.c\<close>).

  A nullable table is an \<open>option\<close> of a list next to the count the C structure carries. The
  functions that follow a pointer they looked up return \<open>None\<close> where the C code would follow
  \<open>NULL\<close>, so that the absence of that fault is a theorem about validated definitions.
\<close>

section \<open>Data\<close>

type_synonym fsm89_state = ulong
type_synonym fsm89_event = ulong
type_synonym fsm89_effect = ulong

record fsm89_effects =
  eff_v :: "fsm89_effect list option"
  eff_n :: ulong

record fsm89_state_def =
  st_id :: fsm89_state
  st_leave :: fsm89_effects
  st_enter :: fsm89_effects
  st_accepting :: int

record fsm89_edge =
  ed_from :: fsm89_state
  ed_event :: fsm89_event
  ed_to :: fsm89_state
  ed_effects :: fsm89_effects

record fsm89_def =
  def_states :: "fsm89_state_def list option"
  def_state_count :: ulong
  def_edges :: "fsm89_edge list option"
  def_edge_count :: ulong
  def_initial :: fsm89_state

record fsm89_step_result =
  sr_from :: fsm89_state
  sr_event :: fsm89_event
  sr_to :: fsm89_state
  sr_leave :: fsm89_effects
  sr_edge :: fsm89_effects
  sr_enter :: fsm89_effects

datatype fsm89_status =
    FSM89_OK | FSM89_NO_TRANSITION | FSM89_ESTATE | FSM89_EDEF | FSM89_EEFFECTS
  | FSM89_EDUP_STATE | FSM89_EINITIAL | FSM89_EEDGE_FROM | FSM89_EEDGE_TO | FSM89_EDUP_EDGE

text \<open>The elements the loops visit: the first \<open>count\<close> of the table.\<close>

definition state_table :: "fsm89_def \<Rightarrow> fsm89_state_def list" where
  "state_table def = (case def_states def of None \<Rightarrow> [] | Some ss \<Rightarrow> take (unat (def_state_count def)) ss)"

definition edge_table :: "fsm89_def \<Rightarrow> fsm89_edge list" where
  "edge_table def = (case def_edges def of None \<Rightarrow> [] | Some es \<Rightarrow> take (unat (def_edge_count def)) es)"

section \<open>Lookups\<close>

definition fsm89__span_ok :: "fsm89_effects \<Rightarrow> bool" where
  "fsm89__span_ok span =
     (if eff_n span = 0 then True else if eff_v span = None then False else True)"

fun find_state_in :: "fsm89_state_def list \<Rightarrow> fsm89_state \<Rightarrow> fsm89_state_def option" where
  "find_state_in [] ident = None"
| "find_state_in (s # ss) ident = (if st_id s = ident then Some s else find_state_in ss ident)"

definition fsm89__find_state :: "fsm89_def \<Rightarrow> fsm89_state \<Rightarrow> fsm89_state_def option" where
  "fsm89__find_state def ident = find_state_in (state_table def) ident"

fun find_edge_in :: "fsm89_edge list \<Rightarrow> fsm89_state \<Rightarrow> fsm89_event \<Rightarrow> fsm89_edge option" where
  "find_edge_in [] src event = None"
| "find_edge_in (e # es) src event =
     (if ed_from e = src then
        (if ed_event e = event then Some e else find_edge_in es src event)
      else find_edge_in es src event)"

definition fsm89__find_edge :: "fsm89_def \<Rightarrow> fsm89_state \<Rightarrow> fsm89_event \<Rightarrow> fsm89_edge option" where
  "fsm89__find_edge def src event = find_edge_in (edge_table def) src event"

section \<open>Startup, acceptance, stepping\<close>

definition fsm89_start :: "fsm89_def \<Rightarrow> (fsm89_status \<times> fsm89_state \<times> fsm89_effects) option" where
  "fsm89_start def =
     (case fsm89__find_state def (def_initial def) of
        None \<Rightarrow> None
      | Some initial \<Rightarrow> Some (FSM89_OK, def_initial def, st_enter initial))"

definition fsm89_accepting :: "fsm89_def \<Rightarrow> fsm89_state \<Rightarrow> int" where
  "fsm89_accepting def state =
     (case fsm89__find_state def state of None \<Rightarrow> 0 | Some s \<Rightarrow> st_accepting s)"

text \<open>The status and what is stored through \<open>result\<close>, if anything.\<close>

definition fsm89_step :: "fsm89_def \<Rightarrow> fsm89_state \<Rightarrow> fsm89_event
    \<Rightarrow> (fsm89_status \<times> fsm89_step_result option) option" where
  "fsm89_step def state event =
     (case fsm89__find_state def state of
        None \<Rightarrow> Some (FSM89_ESTATE, None)
      | Some source \<Rightarrow>
        (case fsm89__find_edge def state event of
           None \<Rightarrow> Some (FSM89_NO_TRANSITION, None)
         | Some edge \<Rightarrow>
           (case fsm89__find_state def (ed_to edge) of
              None \<Rightarrow> None
            | Some dest \<Rightarrow>
              Some (FSM89_OK, Some
                \<lparr>sr_from = state, sr_event = event, sr_to = ed_to edge,
                 sr_leave = st_leave source, sr_edge = ed_effects edge, sr_enter = st_enter dest\<rparr>))))"

section \<open>Validation\<close>

definition check_top :: "fsm89_def option \<Rightarrow> fsm89_status" where
  "check_top d =
     (case d of None \<Rightarrow> FSM89_EDEF
      | Some def \<Rightarrow>
        if def_state_count def = 0 then FSM89_EDEF
        else if def_states def = None then FSM89_EDEF
        else if def_edge_count def = 0 then FSM89_OK
        else if def_edges def = None then FSM89_EDEF
        else FSM89_OK)"

definition check_state_spans :: "fsm89_def \<Rightarrow> fsm89_status" where
  "check_state_spans def =
     (if list_ex (\<lambda>s. \<not> fsm89__span_ok (st_leave s) \<or> \<not> fsm89__span_ok (st_enter s)) (state_table def)
      then FSM89_EEFFECTS else FSM89_OK)"

text \<open>The nested loop \<open>j = i + 1 ..\<close>: each element against the ones after it.\<close>

fun dup_states :: "fsm89_state_def list \<Rightarrow> bool" where
  "dup_states [] = False"
| "dup_states (s # ss) = (list_ex (\<lambda>t. st_id s = st_id t) ss \<or> dup_states ss)"

definition check_dup_states :: "fsm89_def \<Rightarrow> fsm89_status" where
  "check_dup_states def = (if dup_states (state_table def) then FSM89_EDUP_STATE else FSM89_OK)"

definition check_initial :: "fsm89_def \<Rightarrow> fsm89_status" where
  "check_initial def =
     (if list_ex (\<lambda>s. st_id s = def_initial def) (state_table def) then FSM89_OK else FSM89_EINITIAL)"

definition check_edge_spans :: "fsm89_def \<Rightarrow> fsm89_status" where
  "check_edge_spans def =
     (if list_ex (\<lambda>e. \<not> fsm89__span_ok (ed_effects e)) (edge_table def) then FSM89_EEFFECTS else FSM89_OK)"

definition check_edge_from :: "fsm89_def \<Rightarrow> fsm89_status" where
  "check_edge_from def =
     (if list_ex (\<lambda>e. fsm89__find_state def (ed_from e) = None) (edge_table def)
      then FSM89_EEDGE_FROM else FSM89_OK)"

definition check_edge_to :: "fsm89_def \<Rightarrow> fsm89_status" where
  "check_edge_to def =
     (if list_ex (\<lambda>e. fsm89__find_state def (ed_to e) = None) (edge_table def)
      then FSM89_EEDGE_TO else FSM89_OK)"

fun dup_edges :: "fsm89_edge list \<Rightarrow> bool" where
  "dup_edges [] = False"
| "dup_edges (e # es) =
     (list_ex (\<lambda>f. ed_from e = ed_from f \<and> ed_event e = ed_event f) es \<or> dup_edges es)"

definition check_dup_edges :: "fsm89_def \<Rightarrow> fsm89_status" where
  "check_dup_edges def = (if dup_edges (edge_table def) then FSM89_EDUP_EDGE else FSM89_OK)"

definition fsm89_validate :: "fsm89_def option \<Rightarrow> fsm89_status" where
  "fsm89_validate d =
     (if check_top d \<noteq> FSM89_OK then check_top d
      else case d of None \<Rightarrow> FSM89_EDEF | Some def \<Rightarrow>
        if check_state_spans def \<noteq> FSM89_OK then check_state_spans def
        else if check_dup_states def \<noteq> FSM89_OK then check_dup_states def
        else if check_initial def \<noteq> FSM89_OK then check_initial def
        else if check_edge_spans def \<noteq> FSM89_OK then check_edge_spans def
        else if check_edge_from def \<noteq> FSM89_OK then check_edge_from def
        else if check_edge_to def \<noteq> FSM89_OK then check_edge_to def
        else if check_dup_edges def \<noteq> FSM89_OK then check_dup_edges def
        else FSM89_OK)"

section \<open>What a machine denotes\<close>

text \<open>
  The abstract machine of a definition, independent of the order of the tables: its states, its
  labelled transitions and the emissions of a transition.
\<close>

definition state_ids :: "fsm89_def \<Rightarrow> fsm89_state set" where
  "state_ids def = st_id ` set (state_table def)"

definition transition :: "fsm89_def \<Rightarrow> fsm89_step_result \<Rightarrow> bool" where
  "transition def r \<longleftrightarrow>
     (\<exists>src \<in> set (state_table def). \<exists>e \<in> set (edge_table def). \<exists>dst \<in> set (state_table def).
        st_id src = sr_from r \<and> ed_from e = sr_from r \<and> ed_event e = sr_event r
      \<and> ed_to e = sr_to r \<and> st_id dst = sr_to r
      \<and> sr_leave r = st_leave src \<and> sr_edge r = ed_effects e \<and> sr_enter r = st_enter dst)"

text \<open>A well-formed definition.\<close>

definition machine_ok :: "fsm89_def \<Rightarrow> bool" where
  "machine_ok def \<longleftrightarrow>
     def_state_count def \<noteq> 0 \<and> def_states def \<noteq> None \<and> (def_edge_count def \<noteq> 0 \<longrightarrow> def_edges def \<noteq> None)
   \<and> (\<forall>s \<in> set (state_table def). fsm89__span_ok (st_leave s) \<and> fsm89__span_ok (st_enter s))
   \<and> distinct (map st_id (state_table def)) \<and> def_initial def \<in> state_ids def
   \<and> (\<forall>e \<in> set (edge_table def). fsm89__span_ok (ed_effects e) \<and> ed_from e \<in> state_ids def \<and> ed_to e \<in> state_ids def)
   \<and> distinct (map (\<lambda>e. (ed_from e, ed_event e)) (edge_table def))"

lemma find_state_in_None: "find_state_in ss i = None \<longleftrightarrow> i \<notin> st_id ` set ss"
  by (induction ss) auto

lemma find_state_in_Some:
  "distinct (map st_id ss) \<Longrightarrow> find_state_in ss i = Some s \<longleftrightarrow> s \<in> set ss \<and> st_id s = i"
  by (induction ss) auto

lemma find_edge_in_None: "find_edge_in es s a = None \<longleftrightarrow> (s, a) \<notin> (\<lambda>e. (ed_from e, ed_event e)) ` set es"
  by (induction es) auto

lemma find_edge_in_Some:
  "distinct (map (\<lambda>e. (ed_from e, ed_event e)) es) \<Longrightarrow>
     find_edge_in es s a = Some e \<longleftrightarrow> e \<in> set es \<and> ed_from e = s \<and> ed_event e = a"
  by (induction es) auto

lemma find_state_None: "fsm89__find_state def i = None \<longleftrightarrow> i \<notin> state_ids def"
  by (simp add: fsm89__find_state_def state_ids_def find_state_in_None)

lemma dup_states_iff: "dup_states ss \<longleftrightarrow> \<not> distinct (map st_id ss)"
  by (induction ss) (auto simp: list_ex_iff)

lemma dup_edges_iff: "dup_edges es \<longleftrightarrow> \<not> distinct (map (\<lambda>e. (ed_from e, ed_event e)) es)"
  by (induction es) (auto simp: list_ex_iff)

lemmas check_defs = check_top_def check_state_spans_def check_dup_states_def check_initial_def
  check_edge_spans_def check_edge_from_def check_edge_to_def check_dup_edges_def

lemma validate_ok_iff: "fsm89_validate (Some def) = FSM89_OK \<longleftrightarrow> machine_ok def"
proof -
  have "check_initial def = FSM89_OK \<longleftrightarrow> def_initial def \<in> state_ids def"
    by (auto simp: check_initial_def state_ids_def list_ex_iff intro: rev_image_eqI)
  then show ?thesis
    by (auto simp: fsm89_validate_def check_top_def check_state_spans_def check_dup_states_def
        check_edge_spans_def check_edge_from_def check_edge_to_def check_dup_edges_def machine_ok_def
        dup_states_iff dup_edges_iff list_ex_iff find_state_None)
qed

text \<open>The transition relation in terms of the lookups.\<close>

lemma transition_iff:
  assumes "machine_ok def"
  shows "transition def r \<longleftrightarrow>
     (\<exists>src e dst. fsm89__find_state def (sr_from r) = Some src \<and> fsm89__find_edge def (sr_from r) (sr_event r) = Some e
        \<and> fsm89__find_state def (ed_to e) = Some dst
        \<and> r = \<lparr>sr_from = sr_from r, sr_event = sr_event r, sr_to = ed_to e, sr_leave = st_leave src,
               sr_edge = ed_effects e, sr_enter = st_enter dst\<rparr>)"
proof -
  have "distinct (map st_id (state_table def))" "distinct (map (\<lambda>e. (ed_from e, ed_event e)) (edge_table def))"
    using assms by (simp_all add: machine_ok_def)
  note f = find_state_in_Some [OF this(1)] find_edge_in_Some [OF this(2)]
  show ?thesis
    unfolding transition_def fsm89__find_state_def fsm89__find_edge_def f by (cases r) auto
qed

lemma step_cases:
  assumes ok: "machine_ok def"
  obtains (unknown) "s \<notin> state_ids def" "fsm89_step def s a = Some (FSM89_ESTATE, None)"
  | (stuck) "s \<in> state_ids def" "fsm89__find_edge def s a = None" "fsm89_step def s a = Some (FSM89_NO_TRANSITION, None)"
  | (moves) r where "s \<in> state_ids def" "transition def r" "sr_from r = s" "sr_event r = a" "sr_to r \<in> state_ids def"
      "fsm89_step def s a = Some (FSM89_OK, Some r)"
proof (cases "fsm89__find_state def s")
  case None
  then show ?thesis by (intro unknown) (simp_all add: find_state_None [symmetric] fsm89_step_def)
next
  case src: (Some src)
  then have s: "s \<in> state_ids def" using find_state_None [of def s] by simp
  show ?thesis
  proof (cases "fsm89__find_edge def s a")
    case None
    with src s show ?thesis by (intro stuck) (simp_all add: fsm89_step_def)
  next
    case e: (Some e)
    then have "e \<in> set (edge_table def)"
      using ok find_edge_in_Some [of "edge_table def"] by (simp add: machine_ok_def fsm89__find_edge_def)
    with ok have to: "ed_to e \<in> state_ids def" by (simp add: machine_ok_def)
    then obtain dst where dst: "fsm89__find_state def (ed_to e) = Some dst"
      using find_state_None [of def "ed_to e"] by auto
    let ?r = "\<lparr>sr_from = s, sr_event = a, sr_to = ed_to e, sr_leave = st_leave src,
               sr_edge = ed_effects e, sr_enter = st_enter dst\<rparr>"
    have "transition def ?r" unfolding transition_iff [OF ok] using src e dst by simp
    with s to src e dst show ?thesis by (intro moves [of ?r]) (simp_all add: fsm89_step_def)
  qed
qed

lemma transition_find_edge:
  "machine_ok def \<Longrightarrow> transition def r \<Longrightarrow> fsm89__find_edge def (sr_from r) (sr_event r) \<noteq> None"
  by (auto simp: transition_iff)

lemma transition_source: "transition def r \<Longrightarrow> sr_from r \<in> state_ids def"
  by (auto simp: transition_def state_ids_def intro: rev_image_eqI)

text \<open>C33: A definition validates exactly when it is given and denotes a well-formed deterministic
  machine: present tables, valid spans, unique state names, an existing initial state, existing
  edge endpoints and unique edge keys.\<close>

theorem fsm_validate_iff: "fsm89_validate d = FSM89_OK \<longleftrightarrow> (\<exists>def. d = Some def \<and> machine_ok def)"
proof (cases d)
  case None
  then show ?thesis by (simp add: fsm89_validate_def check_top_def)
qed (simp add: validate_ok_iff)

text \<open>C34: On a validated definition \<open>fsm89_step\<close> follows no \<open>NULL\<close> pointer and computes the
  transition relation of the machine: it succeeds with exactly the transition of the tables for
  the state and event, whatever the order of the tables, reports an unknown state as such, and a
  known state without an edge as no transition.\<close>

theorem fsm_step_spec:
  assumes "fsm89_validate (Some def) = FSM89_OK"
  shows "fsm89_step def s a = Some (FSM89_ESTATE, None) \<and> s \<notin> state_ids def
     \<or> fsm89_step def s a = Some (FSM89_NO_TRANSITION, None) \<and> s \<in> state_ids def
         \<and> {r. transition def r \<and> sr_from r = s \<and> sr_event r = a} = {}
     \<or> (\<exists>r. fsm89_step def s a = Some (FSM89_OK, Some r)
         \<and> {r. transition def r \<and> sr_from r = s \<and> sr_event r = a} = {r})"
proof -
  have ok: "machine_ok def" using assms by (simp add: validate_ok_iff)
  show ?thesis
    using ok
  proof (cases rule: step_cases [where s = s and a = a])
    case (moves r)
    have "r' = r" if "transition def r'" "sr_from r' = s" "sr_event r' = a" for r'
      using that moves(2-4) unfolding transition_iff [OF ok] by auto
    with moves show ?thesis by blast
  qed (auto dest: transition_find_edge [OF ok])
qed

text \<open>The states a caller goes through that starts the machine and commits successful steps.\<close>

inductive fsm_reach :: "fsm89_def \<Rightarrow> fsm89_state \<Rightarrow> bool" for def where
  start: "fsm89_start def = Some (FSM89_OK, s, enter) \<Longrightarrow> fsm_reach def s"
| step: "fsm_reach def s \<Longrightarrow> fsm89_step def s a = Some (FSM89_OK, Some r) \<Longrightarrow> fsm_reach def (sr_to r)"

text \<open>A validated machine starts, without following \<open>NULL\<close>, in its initial state and with the
  entry effects of the one table row of that state, whatever the order of the table.\<close>

theorem fsm_start_spec:
  assumes "fsm89_validate (Some def) = FSM89_OK"
  shows "\<exists>row. {s \<in> set (state_table def). st_id s = def_initial def} = {row}
      \<and> fsm89_start def = Some (FSM89_OK, def_initial def, st_enter row)"
proof -
  have "distinct (map st_id (state_table def))" "def_initial def \<in> state_ids def"
    using assms by (simp_all add: validate_ok_iff machine_ok_def)
  then obtain row where "fsm89__find_state def (def_initial def) = Some row"
    using find_state_None [of def "def_initial def"] by auto
  moreover from this have "{s \<in> set (state_table def). st_id s = def_initial def} = {row}"
    unfolding fsm89__find_state_def set_eq_iff
    by (simp add: find_state_in_Some [OF \<open>distinct (map st_id (state_table def))\<close>, symmetric])
  ultimately show ?thesis by (auto simp: fsm89_start_def)
qed

text \<open>In every state a caller can reach by starting a validated machine and committing
  successful steps, every event is either a transition of the machine to a defined state or no
  transition: never an unknown state, never a followed \<open>NULL\<close>.\<close>

theorem fsm_run_safe:
  assumes "fsm89_validate (Some def) = FSM89_OK" and reach: "fsm_reach def s"
  shows "fsm89_step def s a = Some (FSM89_NO_TRANSITION, None)
     \<or> (\<exists>r. fsm89_step def s a = Some (FSM89_OK, Some r) \<and> transition def r \<and> sr_to r \<in> state_ids def)"
proof -
  have ok: "machine_ok def" using assms by (simp add: validate_ok_iff)
  from reach have "s \<in> state_ids def"
  proof induction
    case (start s enter)
    then show ?case using ok by (auto simp: fsm89_start_def machine_ok_def split: option.splits)
  next
    case (step s a r)
    then show ?case by (cases rule: step_cases [OF ok, of s a]) auto
  qed
  then show ?thesis by (cases rule: step_cases [OF ok, of s a]) auto
qed

section \<open>A turnstile\<close>

definition turnstile :: fsm89_def where
  "turnstile = (let none = \<lparr>eff_v = None, eff_n = 0\<rparr>; one = \<lambda>x. \<lparr>eff_v = Some [x], eff_n = 1\<rparr> in
     \<lparr>def_states = Some [\<lparr>st_id = 0, st_leave = none, st_enter = one 7, st_accepting = 1\<rparr>,
                        \<lparr>st_id = 1, st_leave = one 8, st_enter = none, st_accepting = 0\<rparr>],
      def_state_count = 2,
      def_edges = Some [\<lparr>ed_from = 0, ed_event = 5, ed_to = 1, ed_effects = one 9\<rparr>,
                        \<lparr>ed_from = 1, ed_event = 6, ed_to = 0, ed_effects = none\<rparr>],
      def_edge_count = 2, def_initial = 0\<rparr>)"

lemma turnstile_valid: "fsm89_validate (Some turnstile) = FSM89_OK"
  by code_simp

theorem fsm_step_spec_witness:
  "\<exists>r. fsm89_step turnstile 0 5 = Some (FSM89_OK, Some r)
     \<and> {r. transition turnstile r \<and> sr_from r = 0 \<and> sr_event r = 5} = {r}"
proof -
  have "fsm89_step turnstile 0 5 \<noteq> Some (FSM89_ESTATE, None) \<and> fsm89_step turnstile 0 5 \<noteq> Some (FSM89_NO_TRANSITION, None)"
    by code_simp
  with fsm_step_spec [OF turnstile_valid, of 0 5] show ?thesis by blast
qed

theorem fsm_start_spec_witness:
  "\<exists>row. {s \<in> set (state_table turnstile). st_id s = def_initial turnstile} = {row}
      \<and> fsm89_start turnstile = Some (FSM89_OK, def_initial turnstile, st_enter row)"
  by (rule fsm_start_spec [OF turnstile_valid])

theorem fsm_run_safe_witness:
  "fsm_reach turnstile 0
   \<and> (fsm89_step turnstile 0 6 = Some (FSM89_NO_TRANSITION, None)
      \<or> (\<exists>r. fsm89_step turnstile 0 6 = Some (FSM89_OK, Some r) \<and> transition turnstile r \<and> sr_to r \<in> state_ids turnstile))"
proof -
  have "fsm_reach turnstile 0"
    by (rule fsm_reach.start [of _ _ "\<lparr>eff_v = Some [7], eff_n = 1\<rparr>"]) code_simp
  with fsm_run_safe [OF turnstile_valid this, of 6] show ?thesis by simp
qed

end
