(* ===== verification/Cksum_Tables.thy ===== *)
theory Cksum_Tables
  imports Prelude
begin

text \<open>
  The checked-in lookup tables of \<open>libcksum89/src/cksum89_tables.c\<close>, entry by entry, and the
  two-limb representation of 64-bit values of \<open>libcksum89/include/cksum89.h\<close>. The C type of a
  32-bit value is \<open>unsigned long\<close>, so the model keeps it in 64 bits and shows where it stays in
  its value domain.
\<close>

type_synonym cksum89_u16 = u16
type_synonym cksum89_u32 = ulong

record cksum89_u64 =
  ck_hi :: cksum89_u32
  ck_lo :: cksum89_u32

definition cksum89_crc32_iso_hdlc_table :: "cksum89_u32 list" where
  "cksum89_crc32_iso_hdlc_table =
    [0x00000000, 0x77073096, 0xee0e612c, 0x990951ba, 0x076dc419, 0x706af48f,
     0xe963a535, 0x9e6495a3, 0x0edb8832, 0x79dcb8a4, 0xe0d5e91e, 0x97d2d988,
     0x09b64c2b, 0x7eb17cbd, 0xe7b82d07, 0x90bf1d91, 0x1db71064, 0x6ab020f2,
     0xf3b97148, 0x84be41de, 0x1adad47d, 0x6ddde4eb, 0xf4d4b551, 0x83d385c7,
     0x136c9856, 0x646ba8c0, 0xfd62f97a, 0x8a65c9ec, 0x14015c4f, 0x63066cd9,
     0xfa0f3d63, 0x8d080df5, 0x3b6e20c8, 0x4c69105e, 0xd56041e4, 0xa2677172,
     0x3c03e4d1, 0x4b04d447, 0xd20d85fd, 0xa50ab56b, 0x35b5a8fa, 0x42b2986c,
     0xdbbbc9d6, 0xacbcf940, 0x32d86ce3, 0x45df5c75, 0xdcd60dcf, 0xabd13d59,
     0x26d930ac, 0x51de003a, 0xc8d75180, 0xbfd06116, 0x21b4f4b5, 0x56b3c423,
     0xcfba9599, 0xb8bda50f, 0x2802b89e, 0x5f058808, 0xc60cd9b2, 0xb10be924,
     0x2f6f7c87, 0x58684c11, 0xc1611dab, 0xb6662d3d, 0x76dc4190, 0x01db7106,
     0x98d220bc, 0xefd5102a, 0x71b18589, 0x06b6b51f, 0x9fbfe4a5, 0xe8b8d433,
     0x7807c9a2, 0x0f00f934, 0x9609a88e, 0xe10e9818, 0x7f6a0dbb, 0x086d3d2d,
     0x91646c97, 0xe6635c01, 0x6b6b51f4, 0x1c6c6162, 0x856530d8, 0xf262004e,
     0x6c0695ed, 0x1b01a57b, 0x8208f4c1, 0xf50fc457, 0x65b0d9c6, 0x12b7e950,
     0x8bbeb8ea, 0xfcb9887c, 0x62dd1ddf, 0x15da2d49, 0x8cd37cf3, 0xfbd44c65,
     0x4db26158, 0x3ab551ce, 0xa3bc0074, 0xd4bb30e2, 0x4adfa541, 0x3dd895d7,
     0xa4d1c46d, 0xd3d6f4fb, 0x4369e96a, 0x346ed9fc, 0xad678846, 0xda60b8d0,
     0x44042d73, 0x33031de5, 0xaa0a4c5f, 0xdd0d7cc9, 0x5005713c, 0x270241aa,
     0xbe0b1010, 0xc90c2086, 0x5768b525, 0x206f85b3, 0xb966d409, 0xce61e49f,
     0x5edef90e, 0x29d9c998, 0xb0d09822, 0xc7d7a8b4, 0x59b33d17, 0x2eb40d81,
     0xb7bd5c3b, 0xc0ba6cad, 0xedb88320, 0x9abfb3b6, 0x03b6e20c, 0x74b1d29a,
     0xead54739, 0x9dd277af, 0x04db2615, 0x73dc1683, 0xe3630b12, 0x94643b84,
     0x0d6d6a3e, 0x7a6a5aa8, 0xe40ecf0b, 0x9309ff9d, 0x0a00ae27, 0x7d079eb1,
     0xf00f9344, 0x8708a3d2, 0x1e01f268, 0x6906c2fe, 0xf762575d, 0x806567cb,
     0x196c3671, 0x6e6b06e7, 0xfed41b76, 0x89d32be0, 0x10da7a5a, 0x67dd4acc,
     0xf9b9df6f, 0x8ebeeff9, 0x17b7be43, 0x60b08ed5, 0xd6d6a3e8, 0xa1d1937e,
     0x38d8c2c4, 0x4fdff252, 0xd1bb67f1, 0xa6bc5767, 0x3fb506dd, 0x48b2364b,
     0xd80d2bda, 0xaf0a1b4c, 0x36034af6, 0x41047a60, 0xdf60efc3, 0xa867df55,
     0x316e8eef, 0x4669be79, 0xcb61b38c, 0xbc66831a, 0x256fd2a0, 0x5268e236,
     0xcc0c7795, 0xbb0b4703, 0x220216b9, 0x5505262f, 0xc5ba3bbe, 0xb2bd0b28,
     0x2bb45a92, 0x5cb36a04, 0xc2d7ffa7, 0xb5d0cf31, 0x2cd99e8b, 0x5bdeae1d,
     0x9b64c2b0, 0xec63f226, 0x756aa39c, 0x026d930a, 0x9c0906a9, 0xeb0e363f,
     0x72076785, 0x05005713, 0x95bf4a82, 0xe2b87a14, 0x7bb12bae, 0x0cb61b38,
     0x92d28e9b, 0xe5d5be0d, 0x7cdcefb7, 0x0bdbdf21, 0x86d3d2d4, 0xf1d4e242,
     0x68ddb3f8, 0x1fda836e, 0x81be16cd, 0xf6b9265b, 0x6fb077e1, 0x18b74777,
     0x88085ae6, 0xff0f6a70, 0x66063bca, 0x11010b5c, 0x8f659eff, 0xf862ae69,
     0x616bffd3, 0x166ccf45, 0xa00ae278, 0xd70dd2ee, 0x4e048354, 0x3903b3c2,
     0xa7672661, 0xd06016f7, 0x4969474d, 0x3e6e77db, 0xaed16a4a, 0xd9d65adc,
     0x40df0b66, 0x37d83bf0, 0xa9bcae53, 0xdebb9ec5, 0x47b2cf7f, 0x30b5ffe9,
     0xbdbdf21c, 0xcabac28a, 0x53b39330, 0x24b4a3a6, 0xbad03605, 0xcdd70693,
     0x54de5729, 0x23d967bf, 0xb3667a2e, 0xc4614ab8, 0x5d681b02, 0x2a6f2b94,
     0xb40bbe37, 0xc30c8ea1, 0x5a05df1b, 0x2d02ef8d]"

definition cksum89_crc32c_table :: "cksum89_u32 list" where
  "cksum89_crc32c_table =
    [0x00000000, 0xf26b8303, 0xe13b70f7, 0x1350f3f4, 0xc79a971f, 0x35f1141c,
     0x26a1e7e8, 0xd4ca64eb, 0x8ad958cf, 0x78b2dbcc, 0x6be22838, 0x9989ab3b,
     0x4d43cfd0, 0xbf284cd3, 0xac78bf27, 0x5e133c24, 0x105ec76f, 0xe235446c,
     0xf165b798, 0x030e349b, 0xd7c45070, 0x25afd373, 0x36ff2087, 0xc494a384,
     0x9a879fa0, 0x68ec1ca3, 0x7bbcef57, 0x89d76c54, 0x5d1d08bf, 0xaf768bbc,
     0xbc267848, 0x4e4dfb4b, 0x20bd8ede, 0xd2d60ddd, 0xc186fe29, 0x33ed7d2a,
     0xe72719c1, 0x154c9ac2, 0x061c6936, 0xf477ea35, 0xaa64d611, 0x580f5512,
     0x4b5fa6e6, 0xb93425e5, 0x6dfe410e, 0x9f95c20d, 0x8cc531f9, 0x7eaeb2fa,
     0x30e349b1, 0xc288cab2, 0xd1d83946, 0x23b3ba45, 0xf779deae, 0x05125dad,
     0x1642ae59, 0xe4292d5a, 0xba3a117e, 0x4851927d, 0x5b016189, 0xa96ae28a,
     0x7da08661, 0x8fcb0562, 0x9c9bf696, 0x6ef07595, 0x417b1dbc, 0xb3109ebf,
     0xa0406d4b, 0x522bee48, 0x86e18aa3, 0x748a09a0, 0x67dafa54, 0x95b17957,
     0xcba24573, 0x39c9c670, 0x2a993584, 0xd8f2b687, 0x0c38d26c, 0xfe53516f,
     0xed03a29b, 0x1f682198, 0x5125dad3, 0xa34e59d0, 0xb01eaa24, 0x42752927,
     0x96bf4dcc, 0x64d4cecf, 0x77843d3b, 0x85efbe38, 0xdbfc821c, 0x2997011f,
     0x3ac7f2eb, 0xc8ac71e8, 0x1c661503, 0xee0d9600, 0xfd5d65f4, 0x0f36e6f7,
     0x61c69362, 0x93ad1061, 0x80fde395, 0x72966096, 0xa65c047d, 0x5437877e,
     0x4767748a, 0xb50cf789, 0xeb1fcbad, 0x197448ae, 0x0a24bb5a, 0xf84f3859,
     0x2c855cb2, 0xdeeedfb1, 0xcdbe2c45, 0x3fd5af46, 0x7198540d, 0x83f3d70e,
     0x90a324fa, 0x62c8a7f9, 0xb602c312, 0x44694011, 0x5739b3e5, 0xa55230e6,
     0xfb410cc2, 0x092a8fc1, 0x1a7a7c35, 0xe811ff36, 0x3cdb9bdd, 0xceb018de,
     0xdde0eb2a, 0x2f8b6829, 0x82f63b78, 0x709db87b, 0x63cd4b8f, 0x91a6c88c,
     0x456cac67, 0xb7072f64, 0xa457dc90, 0x563c5f93, 0x082f63b7, 0xfa44e0b4,
     0xe9141340, 0x1b7f9043, 0xcfb5f4a8, 0x3dde77ab, 0x2e8e845f, 0xdce5075c,
     0x92a8fc17, 0x60c37f14, 0x73938ce0, 0x81f80fe3, 0x55326b08, 0xa759e80b,
     0xb4091bff, 0x466298fc, 0x1871a4d8, 0xea1a27db, 0xf94ad42f, 0x0b21572c,
     0xdfeb33c7, 0x2d80b0c4, 0x3ed04330, 0xccbbc033, 0xa24bb5a6, 0x502036a5,
     0x4370c551, 0xb11b4652, 0x65d122b9, 0x97baa1ba, 0x84ea524e, 0x7681d14d,
     0x2892ed69, 0xdaf96e6a, 0xc9a99d9e, 0x3bc21e9d, 0xef087a76, 0x1d63f975,
     0x0e330a81, 0xfc588982, 0xb21572c9, 0x407ef1ca, 0x532e023e, 0xa145813d,
     0x758fe5d6, 0x87e466d5, 0x94b49521, 0x66df1622, 0x38cc2a06, 0xcaa7a905,
     0xd9f75af1, 0x2b9cd9f2, 0xff56bd19, 0x0d3d3e1a, 0x1e6dcdee, 0xec064eed,
     0xc38d26c4, 0x31e6a5c7, 0x22b65633, 0xd0ddd530, 0x0417b1db, 0xf67c32d8,
     0xe52cc12c, 0x1747422f, 0x49547e0b, 0xbb3ffd08, 0xa86f0efc, 0x5a048dff,
     0x8ecee914, 0x7ca56a17, 0x6ff599e3, 0x9d9e1ae0, 0xd3d3e1ab, 0x21b862a8,
     0x32e8915c, 0xc083125f, 0x144976b4, 0xe622f5b7, 0xf5720643, 0x07198540,
     0x590ab964, 0xab613a67, 0xb831c993, 0x4a5a4a90, 0x9e902e7b, 0x6cfbad78,
     0x7fab5e8c, 0x8dc0dd8f, 0xe330a81a, 0x115b2b19, 0x020bd8ed, 0xf0605bee,
     0x24aa3f05, 0xd6c1bc06, 0xc5914ff2, 0x37faccf1, 0x69e9f0d5, 0x9b8273d6,
     0x88d28022, 0x7ab90321, 0xae7367ca, 0x5c18e4c9, 0x4f48173d, 0xbd23943e,
     0xf36e6f75, 0x0105ec76, 0x12551f82, 0xe03e9c81, 0x34f4f86a, 0xc69f7b69,
     0xd5cf889d, 0x27a40b9e, 0x79b737ba, 0x8bdcb4b9, 0x988c474d, 0x6ae7c44e,
     0xbe2da0a5, 0x4c4623a6, 0x5f16d052, 0xad7d5351]"

definition cksum89_crc64_nvme_table :: "cksum89_u64 list" where
  "cksum89_crc64_nvme_table = map (\<lambda>(h, l). \<lparr>ck_hi = h, ck_lo = l\<rparr>)
    [(0x00000000, 0x00000000), (0x7f6ef0c8, 0x30358979), (0xfedde190, 0x606b12f2),
     (0x81b31158, 0x505e9b8b), (0xc962e573, 0x9841b68f), (0xb60c15bb, 0xa8743ff6),
     (0x37bf04e3, 0xf82aa47d), (0x48d1f42b, 0xc81f2d04), (0xa61cecb4, 0x6814fe75),
     (0xd9721c7c, 0x5821770c), (0x58c10d24, 0x087fec87), (0x27affdec, 0x384a65fe),
     (0x6f7e09c7, 0xf05548fa), (0x1010f90f, 0xc060c183), (0x91a3e857, 0x903e5a08),
     (0xeecd189f, 0xa00bd371), (0x78e0ff3b, 0x88be6f81), (0x078e0ff3, 0xb88be6f8),
     (0x863d1eab, 0xe8d57d73), (0xf953ee63, 0xd8e0f40a), (0xb1821a48, 0x10ffd90e),
     (0xceecea80, 0x20ca5077), (0x4f5ffbd8, 0x7094cbfc), (0x30310b10, 0x40a14285),
     (0xdefc138f, 0xe0aa91f4), (0xa192e347, 0xd09f188d), (0x2021f21f, 0x80c18306),
     (0x5f4f02d7, 0xb0f40a7f), (0x179ef6fc, 0x78eb277b), (0x68f00634, 0x48deae02),
     (0xe943176c, 0x18803589), (0x962de7a4, 0x28b5bcf0), (0xf1c1fe77, 0x117cdf02),
     (0x8eaf0ebf, 0x2149567b), (0x0f1c1fe7, 0x7117cdf0), (0x7072ef2f, 0x41224489),
     (0x38a31b04, 0x893d698d), (0x47cdebcc, 0xb908e0f4), (0xc67efa94, 0xe9567b7f),
     (0xb9100a5c, 0xd963f206), (0x57dd12c3, 0x79682177), (0x28b3e20b, 0x495da80e),
     (0xa900f353, 0x19033385), (0xd66e039b, 0x2936bafc), (0x9ebff7b0, 0xe12997f8),
     (0xe1d10778, 0xd11c1e81), (0x60621620, 0x8142850a), (0x1f0ce6e8, 0xb1770c73),
     (0x8921014c, 0x99c2b083), (0xf64ff184, 0xa9f739fa), (0x77fce0dc, 0xf9a9a271),
     (0x08921014, 0xc99c2b08), (0x4043e43f, 0x0183060c), (0x3f2d14f7, 0x31b68f75),
     (0xbe9e05af, 0x61e814fe), (0xc1f0f567, 0x51dd9d87), (0x2f3dedf8, 0xf1d64ef6),
     (0x50531d30, 0xc1e3c78f), (0xd1e00c68, 0x91bd5c04), (0xae8efca0, 0xa188d57d),
     (0xe65f088b, 0x6997f879), (0x9931f843, 0x59a27100), (0x1882e91b, 0x09fcea8b),
     (0x67ec19d3, 0x39c963f2), (0xd75adabd, 0x7a6e2d6f), (0xa8342a75, 0x4a5ba416),
     (0x29873b2d, 0x1a053f9d), (0x56e9cbe5, 0x2a30b6e4), (0x1e383fce, 0xe22f9be0),
     (0x6156cf06, 0xd21a1299), (0xe0e5de5e, 0x82448912), (0x9f8b2e96, 0xb271006b),
     (0x71463609, 0x127ad31a), (0x0e28c6c1, 0x224f5a63), (0x8f9bd799, 0x7211c1e8),
     (0xf0f52751, 0x42244891), (0xb824d37a, 0x8a3b6595), (0xc74a23b2, 0xba0eecec),
     (0x46f932ea, 0xea507767), (0x3997c222, 0xda65fe1e), (0xafba2586, 0xf2d042ee),
     (0xd0d4d54e, 0xc2e5cb97), (0x5167c416, 0x92bb501c), (0x2e0934de, 0xa28ed965),
     (0x66d8c0f5, 0x6a91f461), (0x19b6303d, 0x5aa47d18), (0x98052165, 0x0afae693),
     (0xe76bd1ad, 0x3acf6fea), (0x09a6c932, 0x9ac4bc9b), (0x76c839fa, 0xaaf135e2),
     (0xf77b28a2, 0xfaafae69), (0x8815d86a, 0xca9a2710), (0xc0c42c41, 0x02850a14),
     (0xbfaadc89, 0x32b0836d), (0x3e19cdd1, 0x62ee18e6), (0x41773d19, 0x52db919f),
     (0x269b24ca, 0x6b12f26d), (0x59f5d402, 0x5b277b14), (0xd846c55a, 0x0b79e09f),
     (0xa7283592, 0x3b4c69e6), (0xeff9c1b9, 0xf35344e2), (0x90973171, 0xc366cd9b),
     (0x11242029, 0x93385610), (0x6e4ad0e1, 0xa30ddf69), (0x8087c87e, 0x03060c18),
     (0xffe938b6, 0x33338561), (0x7e5a29ee, 0x636d1eea), (0x0134d926, 0x53589793),
     (0x49e52d0d, 0x9b47ba97), (0x368bddc5, 0xab7233ee), (0xb738cc9d, 0xfb2ca865),
     (0xc8563c55, 0xcb19211c), (0x5e7bdbf1, 0xe3ac9dec), (0x21152b39, 0xd3991495),
     (0xa0a63a61, 0x83c78f1e), (0xdfc8caa9, 0xb3f20667), (0x97193e82, 0x7bed2b63),
     (0xe877ce4a, 0x4bd8a21a), (0x69c4df12, 0x1b863991), (0x16aa2fda, 0x2bb3b0e8),
     (0xf8673745, 0x8bb86399), (0x8709c78d, 0xbb8deae0), (0x06bad6d5, 0xebd3716b),
     (0x79d4261d, 0xdbe6f812), (0x3105d236, 0x13f9d516), (0x4e6b22fe, 0x23cc5c6f),
     (0xcfd833a6, 0x7392c7e4), (0xb0b6c36e, 0x43a74e9d), (0x9a6c9329, 0xac4bc9b5),
     (0xe50263e1, 0x9c7e40cc), (0x64b172b9, 0xcc20db47), (0x1bdf8271, 0xfc15523e),
     (0x530e765a, 0x340a7f3a), (0x2c608692, 0x043ff643), (0xadd397ca, 0x54616dc8),
     (0xd2bd6702, 0x6454e4b1), (0x3c707f9d, 0xc45f37c0), (0x431e8f55, 0xf46abeb9),
     (0xc2ad9e0d, 0xa4342532), (0xbdc36ec5, 0x9401ac4b), (0xf5129aee, 0x5c1e814f),
     (0x8a7c6a26, 0x6c2b0836), (0x0bcf7b7e, 0x3c7593bd), (0x74a18bb6, 0x0c401ac4),
     (0xe28c6c12, 0x24f5a634), (0x9de29cda, 0x14c02f4d), (0x1c518d82, 0x449eb4c6),
     (0x633f7d4a, 0x74ab3dbf), (0x2bee8961, 0xbcb410bb), (0x548079a9, 0x8c8199c2),
     (0xd53368f1, 0xdcdf0249), (0xaa5d9839, 0xecea8b30), (0x449080a6, 0x4ce15841),
     (0x3bfe706e, 0x7cd4d138), (0xba4d6136, 0x2c8a4ab3), (0xc52391fe, 0x1cbfc3ca),
     (0x8df265d5, 0xd4a0eece), (0xf29c951d, 0xe49567b7), (0x732f8445, 0xb4cbfc3c),
     (0x0c41748d, 0x84fe7545), (0x6bad6d5e, 0xbd3716b7), (0x14c39d96, 0x8d029fce),
     (0x95708cce, 0xdd5c0445), (0xea1e7c06, 0xed698d3c), (0xa2cf882d, 0x2576a038),
     (0xdda178e5, 0x15432941), (0x5c1269bd, 0x451db2ca), (0x237c9975, 0x75283bb3),
     (0xcdb181ea, 0xd523e8c2), (0xb2df7122, 0xe51661bb), (0x336c607a, 0xb548fa30),
     (0x4c0290b2, 0x857d7349), (0x04d36499, 0x4d625e4d), (0x7bbd9451, 0x7d57d734),
     (0xfa0e8509, 0x2d094cbf), (0x856075c1, 0x1d3cc5c6), (0x134d9265, 0x35897936),
     (0x6c2362ad, 0x05bcf04f), (0xed9073f5, 0x55e26bc4), (0x92fe833d, 0x65d7e2bd),
     (0xda2f7716, 0xadc8cfb9), (0xa54187de, 0x9dfd46c0), (0x24f29686, 0xcda3dd4b),
     (0x5b9c664e, 0xfd965432), (0xb5517ed1, 0x5d9d8743), (0xca3f8e19, 0x6da80e3a),
     (0x4b8c9f41, 0x3df695b1), (0x34e26f89, 0x0dc31cc8), (0x7c339ba2, 0xc5dc31cc),
     (0x035d6b6a, 0xf5e9b8b5), (0x82ee7a32, 0xa5b7233e), (0xfd808afa, 0x9582aa47),
     (0x4d364994, 0xd625e4da), (0x3258b95c, 0xe6106da3), (0xb3eba804, 0xb64ef628),
     (0xcc8558cc, 0x867b7f51), (0x8454ace7, 0x4e645255), (0xfb3a5c2f, 0x7e51db2c),
     (0x7a894d77, 0x2e0f40a7), (0x05e7bdbf, 0x1e3ac9de), (0xeb2aa520, 0xbe311aaf),
     (0x944455e8, 0x8e0493d6), (0x15f744b0, 0xde5a085d), (0x6a99b478, 0xee6f8124),
     (0x22484053, 0x2670ac20), (0x5d26b09b, 0x16452559), (0xdc95a1c3, 0x461bbed2),
     (0xa3fb510b, 0x762e37ab), (0x35d6b6af, 0x5e9b8b5b), (0x4ab84667, 0x6eae0222),
     (0xcb0b573f, 0x3ef099a9), (0xb465a7f7, 0x0ec510d0), (0xfcb453dc, 0xc6da3dd4),
     (0x83daa314, 0xf6efb4ad), (0x0269b24c, 0xa6b12f26), (0x7d074284, 0x9684a65f),
     (0x93ca5a1b, 0x368f752e), (0xeca4aad3, 0x06bafc57), (0x6d17bb8b, 0x56e467dc),
     (0x12794b43, 0x66d1eea5), (0x5aa8bf68, 0xaecec3a1), (0x25c64fa0, 0x9efb4ad8),
     (0xa4755ef8, 0xcea5d153), (0xdb1bae30, 0xfe90582a), (0xbcf7b7e3, 0xc7593bd8),
     (0xc399472b, 0xf76cb2a1), (0x422a5673, 0xa732292a), (0x3d44a6bb, 0x9707a053),
     (0x75955290, 0x5f188d57), (0x0afba258, 0x6f2d042e), (0x8b48b300, 0x3f739fa5),
     (0xf42643c8, 0x0f4616dc), (0x1aeb5b57, 0xaf4dc5ad), (0x6585ab9f, 0x9f784cd4),
     (0xe436bac7, 0xcf26d75f), (0x9b584a0f, 0xff135e26), (0xd389be24, 0x370c7322),
     (0xace74eec, 0x0739fa5b), (0x2d545fb4, 0x576761d0), (0x523aaf7c, 0x6752e8a9),
     (0xc41748d8, 0x4fe75459), (0xbb79b810, 0x7fd2dd20), (0x3acaa948, 0x2f8c46ab),
     (0x45a45980, 0x1fb9cfd2), (0x0d75adab, 0xd7a6e2d6), (0x721b5d63, 0xe7936baf),
     (0xf3a84c3b, 0xb7cdf024), (0x8cc6bcf3, 0x87f8795d), (0x620ba46c, 0x27f3aa2c),
     (0x1d6554a4, 0x17c62355), (0x9cd645fc, 0x4798b8de), (0xe3b8b534, 0x77ad31a7),
     (0xab69411f, 0xbfb21ca3), (0xd407b1d7, 0x8f8795da), (0x55b4a08f, 0xdfd90e51),
     (0x2ada5047, 0xefec8728)]"

end
