(* ===== verification/Cksum89.thy ===== *)
theory Cksum89
  imports Cksum_Tables
begin

unbundle bit_operations_syntax

text \<open>
  The four checksum algorithms of \<open>libcksum89\<close>: contexts, streaming operations and one-shot
  wrappers (\<open>cksum89_crc32_iso_hdlc.c\<close>, \<open>cksum89_crc32c.c\<close>, \<open>cksum89_crc64_nvme.c\<close>,
  \<open>cksum89_inet16.c\<close>). Input is the list of the readable bytes and the length argument; the
  update loops visit positions \<open>0 ..< len\<close>.
\<close>

definition bytes_loop :: "('ctx \<Rightarrow> u8 \<Rightarrow> 'ctx) \<Rightarrow> 'ctx \<Rightarrow> bytes \<Rightarrow> ulong \<Rightarrow> 'ctx" where
  "bytes_loop f ctx data len = fold (\<lambda>i ctx. f ctx (data ! i)) [0..<unat len] ctx"

section \<open>CRC-32\<close>

definition cksum89_crc32_step :: "cksum89_u32 \<Rightarrow> cksum89_u32 list \<Rightarrow> u8 \<Rightarrow> cksum89_u32" where
  "cksum89_crc32_step state table byte =
     (let index = (state XOR ucast byte) AND 0xff in drop_bit 8 state XOR table ! unat index)"

record cksum89_crc32_iso_hdlc_ctx =
  hdlc_state :: cksum89_u32

definition cksum89_crc32_iso_hdlc_byte :: "cksum89_crc32_iso_hdlc_ctx \<Rightarrow> u8 \<Rightarrow> cksum89_crc32_iso_hdlc_ctx" where
  "cksum89_crc32_iso_hdlc_byte ctx byte =
     ctx\<lparr>hdlc_state := cksum89_crc32_step (hdlc_state ctx) cksum89_crc32_iso_hdlc_table byte\<rparr>"

definition cksum89_crc32_iso_hdlc_init :: cksum89_crc32_iso_hdlc_ctx where
  "cksum89_crc32_iso_hdlc_init = \<lparr>hdlc_state = 0xffffffff\<rparr>"

definition cksum89_crc32_iso_hdlc_update ::
    "cksum89_crc32_iso_hdlc_ctx \<Rightarrow> bytes \<Rightarrow> ulong \<Rightarrow> cksum89_crc32_iso_hdlc_ctx" where
  "cksum89_crc32_iso_hdlc_update ctx data len = bytes_loop cksum89_crc32_iso_hdlc_byte ctx data len"

definition cksum89_crc32_iso_hdlc_final :: "cksum89_crc32_iso_hdlc_ctx \<Rightarrow> cksum89_u32" where
  "cksum89_crc32_iso_hdlc_final ctx = hdlc_state ctx XOR 0xffffffff"

definition cksum89_crc32_iso_hdlc :: "bytes \<Rightarrow> ulong \<Rightarrow> cksum89_u32" where
  "cksum89_crc32_iso_hdlc data len =
     (let ctx = cksum89_crc32_iso_hdlc_init;
          ctx = cksum89_crc32_iso_hdlc_update ctx data len
      in cksum89_crc32_iso_hdlc_final ctx)"

section \<open>CRC-32C\<close>

record cksum89_crc32c_ctx =
  crc32c_state :: cksum89_u32

definition cksum89_crc32c_byte :: "cksum89_crc32c_ctx \<Rightarrow> u8 \<Rightarrow> cksum89_crc32c_ctx" where
  "cksum89_crc32c_byte ctx byte =
     ctx\<lparr>crc32c_state := cksum89_crc32_step (crc32c_state ctx) cksum89_crc32c_table byte\<rparr>"

definition cksum89_crc32c_init :: cksum89_crc32c_ctx where
  "cksum89_crc32c_init = \<lparr>crc32c_state = 0xffffffff\<rparr>"

definition cksum89_crc32c_update :: "cksum89_crc32c_ctx \<Rightarrow> bytes \<Rightarrow> ulong \<Rightarrow> cksum89_crc32c_ctx" where
  "cksum89_crc32c_update ctx data len = bytes_loop cksum89_crc32c_byte ctx data len"

definition cksum89_crc32c_final :: "cksum89_crc32c_ctx \<Rightarrow> cksum89_u32" where
  "cksum89_crc32c_final ctx = crc32c_state ctx XOR 0xffffffff"

definition cksum89_crc32c :: "bytes \<Rightarrow> ulong \<Rightarrow> cksum89_u32" where
  "cksum89_crc32c data len =
     (let ctx = cksum89_crc32c_init;
          ctx = cksum89_crc32c_update ctx data len
      in cksum89_crc32c_final ctx)"

section \<open>CRC-64\<close>

definition cksum89_crc64_shift8 :: "cksum89_u64 \<Rightarrow> cksum89_u64" where
  "cksum89_crc64_shift8 value =
     \<lparr>ck_hi = drop_bit 8 (ck_hi value),
      ck_lo = drop_bit 8 (ck_lo value) OR push_bit 24 (ck_hi value AND 0xff)\<rparr>"

definition cksum89_crc64_xor :: "cksum89_u64 \<Rightarrow> cksum89_u64 \<Rightarrow> cksum89_u64" where
  "cksum89_crc64_xor a b = \<lparr>ck_hi = ck_hi a XOR ck_hi b, ck_lo = ck_lo a XOR ck_lo b\<rparr>"

record cksum89_crc64_nvme_ctx =
  nvme_state :: cksum89_u64

definition cksum89_crc64_nvme_byte :: "cksum89_crc64_nvme_ctx \<Rightarrow> u8 \<Rightarrow> cksum89_crc64_nvme_ctx" where
  "cksum89_crc64_nvme_byte ctx byte =
     (let index = (ck_lo (nvme_state ctx) XOR ucast byte) AND 0xff;
          shifted = cksum89_crc64_shift8 (nvme_state ctx)
      in ctx\<lparr>nvme_state := cksum89_crc64_xor shifted (cksum89_crc64_nvme_table ! unat index)\<rparr>)"

definition cksum89_crc64_nvme_init :: cksum89_crc64_nvme_ctx where
  "cksum89_crc64_nvme_init = \<lparr>nvme_state = \<lparr>ck_hi = 0xffffffff, ck_lo = 0xffffffff\<rparr>\<rparr>"

definition cksum89_crc64_nvme_update :: "cksum89_crc64_nvme_ctx \<Rightarrow> bytes \<Rightarrow> ulong \<Rightarrow> cksum89_crc64_nvme_ctx" where
  "cksum89_crc64_nvme_update ctx data len = bytes_loop cksum89_crc64_nvme_byte ctx data len"

definition cksum89_crc64_nvme_final :: "cksum89_crc64_nvme_ctx \<Rightarrow> cksum89_u64" where
  "cksum89_crc64_nvme_final ctx =
     \<lparr>ck_hi = ck_hi (nvme_state ctx) XOR 0xffffffff, ck_lo = ck_lo (nvme_state ctx) XOR 0xffffffff\<rparr>"

definition cksum89_crc64_nvme :: "bytes \<Rightarrow> ulong \<Rightarrow> cksum89_u64" where
  "cksum89_crc64_nvme data len =
     (let ctx = cksum89_crc64_nvme_init;
          ctx = cksum89_crc64_nvme_update ctx data len
      in cksum89_crc64_nvme_final ctx)"

section \<open>The Internet checksum\<close>

record cksum89_inet16_ctx =
  inet_sum :: cksum89_u32
  inet_pending :: u8
  inet_has_pending :: u8

definition cksum89_inet16_fold :: "cksum89_u32 \<Rightarrow> cksum89_u32" where
  "cksum89_inet16_fold s =
     (let folded = (s AND 0xffff) + drop_bit 16 s in (folded AND 0xffff) + drop_bit 16 folded)"

definition cksum89_inet16_pending_word :: "cksum89_inet16_ctx \<Rightarrow> cksum89_u32" where
  "cksum89_inet16_pending_word ctx = push_bit 8 (ucast (inet_pending ctx))"

definition cksum89_inet16_add_word :: "cksum89_inet16_ctx \<Rightarrow> cksum89_u32 \<Rightarrow> cksum89_inet16_ctx" where
  "cksum89_inet16_add_word ctx wd = ctx\<lparr>inet_sum := cksum89_inet16_fold (inet_sum ctx + wd)\<rparr>"

definition cksum89_inet16_pair :: "cksum89_inet16_ctx \<Rightarrow> u8 \<Rightarrow> cksum89_inet16_ctx" where
  "cksum89_inet16_pair ctx byte =
     (let wd = cksum89_inet16_pending_word ctx OR ucast byte in
      (cksum89_inet16_add_word ctx wd)\<lparr>inet_has_pending := 0\<rparr>)"

definition cksum89_inet16_hold :: "cksum89_inet16_ctx \<Rightarrow> u8 \<Rightarrow> cksum89_inet16_ctx" where
  "cksum89_inet16_hold ctx byte = ctx\<lparr>inet_pending := byte, inet_has_pending := 1\<rparr>"

definition cksum89_inet16_byte :: "cksum89_inet16_ctx \<Rightarrow> u8 \<Rightarrow> cksum89_inet16_ctx" where
  "cksum89_inet16_byte ctx byte =
     (if inet_has_pending ctx \<noteq> 0 then cksum89_inet16_pair ctx byte else cksum89_inet16_hold ctx byte)"

definition cksum89_inet16_init :: cksum89_inet16_ctx where
  "cksum89_inet16_init = \<lparr>inet_sum = 0, inet_pending = 0, inet_has_pending = 0\<rparr>"

definition cksum89_inet16_update :: "cksum89_inet16_ctx \<Rightarrow> bytes \<Rightarrow> ulong \<Rightarrow> cksum89_inet16_ctx" where
  "cksum89_inet16_update ctx data len = bytes_loop cksum89_inet16_byte ctx data len"

definition cksum89_inet16_sum_pending :: "cksum89_inet16_ctx \<Rightarrow> cksum89_u32" where
  "cksum89_inet16_sum_pending ctx = cksum89_inet16_fold (inet_sum ctx + cksum89_inet16_pending_word ctx)"

definition cksum89_inet16_total :: "cksum89_inet16_ctx \<Rightarrow> cksum89_u32" where
  "cksum89_inet16_total ctx =
     (if inet_has_pending ctx \<noteq> 0 then cksum89_inet16_sum_pending ctx else inet_sum ctx)"

definition cksum89_inet16_final :: "cksum89_inet16_ctx \<Rightarrow> cksum89_u16" where
  "cksum89_inet16_final ctx = ucast (NOT (cksum89_inet16_fold (cksum89_inet16_total ctx)) AND 0xffff)"

definition cksum89_inet16 :: "bytes \<Rightarrow> ulong \<Rightarrow> cksum89_u16" where
  "cksum89_inet16 data len =
     (let ctx = cksum89_inet16_init;
          ctx = cksum89_inet16_update ctx data len
      in cksum89_inet16_final ctx)"

end
