(* ===== verification/Cksum_Crc.thy ===== *)
theory Cksum_Crc
  imports Cksum89
begin

unbundle bit_operations_syntax

text \<open>
  The reference for the CRC routines and the facts about one byte step. The reference is the
  parametrised model with which the header documents the algorithms: a register of the full
  width that takes the message bit by bit, most significant bit first, with the input bytes and
  the result reflected, all ones as initial value and as final mask. Every entry of the three
  checked-in tables is proved to be eight single shifts of its index.
\<close>

section \<open>Reference\<close>

definition rocksoft_bit :: "'a::len word \<Rightarrow> 'a word \<Rightarrow> bool \<Rightarrow> 'a word" where
  "rocksoft_bit poly r b =
     (if bit r (LENGTH('a) - 1) \<noteq> b then push_bit 1 r XOR poly else push_bit 1 r)"

definition byte_bits :: "u8 \<Rightarrow> bool list" where
  "byte_bits y = map (bit y) [0..<8]"

definition reflect :: "'a::len word \<Rightarrow> 'a word" where
  "reflect w = horner_sum of_bool 2 (map (bit w) (rev [0..<LENGTH('a)]))"

definition rocksoft :: "'a::len word \<Rightarrow> bytes \<Rightarrow> 'a word" where
  "rocksoft poly data = reflect (fold (\<lambda>b r. rocksoft_bit poly r b) (concat (map byte_bits data)) (- 1)) XOR - 1"

section \<open>The reflected register\<close>

definition shift1 :: "'a::len word \<Rightarrow> 'a word \<Rightarrow> 'a word" where
  "shift1 rp s = (if bit s 0 then drop_bit 1 s XOR rp else drop_bit 1 s)"

definition shift8 :: "'a::len word \<Rightarrow> 'a word \<Rightarrow> 'a word" where
  "shift8 rp s = (shift1 rp ^^ 8) s"

definition reflected_bit :: "'a::len word \<Rightarrow> 'a word \<Rightarrow> bool \<Rightarrow> 'a word" where
  "reflected_bit rp s b = shift1 rp (s XOR of_bool b)"

declare push_bit_Suc [simp del]

lemma bit_reflect: "bit (reflect w) i \<longleftrightarrow> i < LENGTH('a) \<and> bit w (LENGTH('a) - 1 - i)" for w :: "'a::len word"
  by (auto simp: reflect_def bit_horner_sum_bit_word_iff rev_nth)

lemma reflect_xor: "reflect (a XOR b) = reflect a XOR reflect b" for a :: "'a::len word"
  by (rule bit_word_eqI) (auto simp: bit_reflect bit_xor_iff)

lemma reflect_push: "reflect (push_bit 1 r) = drop_bit 1 (reflect r)" for r :: "'a::len word"
proof (rule bit_word_eqI)
  fix i assume i: "i < LENGTH('a)"
  have "bit (reflect (push_bit 1 r)) i \<longleftrightarrow> 1 \<le> LENGTH('a) - 1 - i \<and> bit r (LENGTH('a) - 1 - i - 1)"
    using i by (auto simp: bit_reflect bit_simps)
  also have "\<dots> \<longleftrightarrow> 1 + i < LENGTH('a) \<and> bit r (LENGTH('a) - 1 - (1 + i))"
    by (auto simp: diff_diff_left)
  finally show "bit (reflect (push_bit 1 r)) i \<longleftrightarrow> bit (drop_bit 1 (reflect r)) i"
    by (simp add: bit_reflect bit_simps)
qed

lemma reflect_ones: "reflect (- 1) = (- 1 :: 'a::len word)"
  by (rule bit_word_eqI) (simp add: bit_reflect)

lemma reflect_bit: "reflect (rocksoft_bit poly r b) = reflected_bit (reflect poly) (reflect r) b"
proof -
  have top: "bit (reflect r) 0 = bit r (LENGTH('a) - 1)" by (simp add: bit_reflect)
  have low: "drop_bit 1 (reflect r XOR of_bool b) = drop_bit 1 (reflect r)"
    by (rule bit_word_eqI) (auto simp: bit_simps)
  have "bit (reflect r XOR of_bool b) 0 \<longleftrightarrow> bit r (LENGTH('a) - 1) \<noteq> b"
    using top by (auto simp: bit_xor_iff)
  with low show ?thesis
    by (simp add: rocksoft_bit_def reflected_bit_def shift1_def reflect_xor reflect_push [unfolded One_nat_def])
qed

lemma reflect_fold:
  "reflect (fold (\<lambda>b r. rocksoft_bit poly r b) bs r) = fold (\<lambda>b s. reflected_bit (reflect poly) s b) bs (reflect r)"
  by (induction bs arbitrary: r) (simp_all add: reflect_bit)

lemma shift1_xor: "shift1 rp (a XOR b) = shift1 rp a XOR shift1 rp b" for a :: "'a::len word"
  by (auto simp: shift1_def drop_bit_xor bit_xor_iff ac_simps xor.assoc)

lemma shift1_funpow_xor: "(shift1 rp ^^ k) (a XOR b) = (shift1 rp ^^ k) a XOR (shift1 rp ^^ k) b" for a :: "'a::len word"
  by (induction k) (simp_all add: shift1_xor)

text \<open>Shifting a register whose low bits are clear.\<close>

lemma shift1_funpow_clear:
  "(\<And>i. i < k \<Longrightarrow> \<not> bit s i) \<Longrightarrow> (shift1 rp ^^ k) s = drop_bit k s" for s :: "'a::len word"
proof (induction k)
  case (Suc k)
  then have "(shift1 rp ^^ k) s = drop_bit k s" "\<not> bit s k" by simp_all
  then show ?case by (simp add: shift1_def [of _ "drop_bit k s"] bit_drop_bit_eq)
qed simp

text \<open>Eight single shifts are one table step.\<close>

lemma shift8_split: "shift8 rp s = drop_bit 8 s XOR shift8 rp (s AND mask 8)" for s :: "'a::len word"
proof -
  have "s = (s AND NOT (mask 8)) XOR (s AND mask 8)"
    by (rule bit_word_eqI) (auto simp: bit_simps)
  then have "shift8 rp s = (shift1 rp ^^ 8) (s AND NOT (mask 8)) XOR shift8 rp (s AND mask 8)"
    by (metis shift1_funpow_xor shift8_def)
  also have "(shift1 rp ^^ 8) (s AND NOT (mask 8)) = drop_bit 8 (s AND NOT (mask 8))"
    by (rule shift1_funpow_clear) (simp add: bit_simps)
  also have "\<dots> = drop_bit 8 s"
    by (rule bit_word_eqI) (auto simp: bit_simps dest: bit_imp_le_length)
  finally show ?thesis .
qed

text \<open>Taking a byte bit by bit is taking it at once.\<close>

lemma reflected_bits:
  assumes "\<And>i. k \<le> i \<Longrightarrow> \<not> bit y i"
  shows "fold (\<lambda>b s. reflected_bit rp s b) (map (bit y) [0..<k]) s = (shift1 rp ^^ k) (s XOR y)"
  using assms
proof (induction k arbitrary: s y)
  case 0
  then have "y = 0" by (intro bit_word_eqI) simp
  then show ?case by simp
next
  case (Suc k)
  have y: "y = of_bool (bit y 0) XOR push_bit 1 (drop_bit 1 y)"
  proof (rule bit_word_eqI)
    fix i
    show "bit y i \<longleftrightarrow> bit (of_bool (bit y 0) XOR push_bit 1 (drop_bit 1 y)) i" if "i < LENGTH('a)"
      using that by (cases i) (auto simp: bit_simps)
  qed
  have "shift1 rp (push_bit 1 z) = z" if "\<not> bit z (LENGTH('a) - 1)" for z :: "'a word"
  proof -
    have "i + 1 < LENGTH('a)" if "bit z i" "i < LENGTH('a)" for i
      using that \<open>\<not> bit z (LENGTH('a) - 1)\<close> by (cases "i = LENGTH('a) - 1") auto
    then have "drop_bit 1 (push_bit 1 z) = z"
      by (intro bit_word_eqI) (auto simp: bit_simps)
    then show ?thesis by (simp add: shift1_def bit_simps)
  qed
  then have "shift1 rp (s XOR y) = reflected_bit rp s (bit y 0) XOR drop_bit 1 y"
    by (subst y) (simp add: reflected_bit_def shift1_xor xor.assoc bit_simps)
  moreover have "map (bit y) [0..<Suc k] = bit y 0 # map (bit (drop_bit 1 y)) [0..<k]"
    by (simp add: upt_conv_Cons map_Suc_upt [symmetric] bit_simps del: upt_Suc)
  ultimately show ?case
    using Suc.IH [of "drop_bit 1 y" "reflected_bit rp s (bit y 0)"] Suc.prems
    by (simp add: bit_simps funpow_swap1 comp_def)
qed


section \<open>The tables\<close>

text \<open>
  A table of a linear function is determined by its entries at the powers of two: it arises from
  its first entry by doubling.
\<close>

definition doubled :: "('r \<Rightarrow> 'r \<Rightarrow> 'r) \<Rightarrow> 'r list \<Rightarrow> 'r \<Rightarrow> 'r list" where
  "doubled join bases zero = fold (\<lambda>b t. t @ map (join b) t) bases [zero]"

lemma of_nat_split: "j < 2 ^ k \<Longrightarrow> 2 ^ k + of_nat j = (2 ^ k XOR of_nat j :: 'a::len word)"
proof -
  assume "j < 2 ^ k"
  then have "\<not> bit j k" by (metis bit_take_bit_iff less_irrefl take_bit_nat_eq_self)
  then have d: "\<not> bit (2 ^ k :: nat) i \<or> \<not> bit j i" for i by (auto simp: bit_simps)
  then have "2 ^ k AND j = 0" by (intro bit_eqI) (auto simp: bit_and_iff)
  then have "2 ^ k + j = (2 ^ k) XOR j"
    using disjunctive_add [OF d] by (simp add: disjunctive_xor_eq_or)
  then have "(of_nat (2 ^ k + j) :: 'a word) = of_nat (2 ^ k XOR j)" by (rule arg_cong)
  then show ?thesis unfolding of_nat_xor_eq by simp
qed

lemma doubled_eq:
  assumes "\<And>a b :: 'a::len word. f (a XOR b) = join (f a) (f b)"
  shows "doubled join (map (\<lambda>k. f (2 ^ k)) [0..<k]) (f 0) = map (\<lambda>i. f (of_nat i)) [0..<2 ^ k]"
proof (induction k)
  case (Suc k)
  have "map (\<lambda>i. f (of_nat i)) [0..<2 ^ Suc k] = map (\<lambda>i. f (of_nat i)) [0..<2 ^ k]
      @ map (\<lambda>i. f (of_nat (2 ^ k + i))) [0..<2 ^ k]"
    by (simp add: mult_2 upt_add_eq_append map_add_upt [symmetric] comp_def add.commute)
  also have "map (\<lambda>i. f (of_nat (2 ^ k + i))) [0..<2 ^ k] = map (join (f (2 ^ k))) (map (\<lambda>i. f (of_nat i)) [0..<2 ^ k])"
    by (simp add: of_nat_split assms)
  finally show ?case using Suc by (simp add: doubled_def)
qed (simp add: doubled_def)

lemma shift8_linear: "shift8 rp (a XOR b) = shift8 rp a XOR shift8 rp b" for a :: "'a::len word"
  by (simp add: shift8_def shift1_funpow_xor)

lemma shift8_unfold:
  "shift8 rp s = shift1 rp (shift1 rp (shift1 rp (shift1 rp (shift1 rp (shift1 rp (shift1 rp (shift1 rp s)))))))"
  by (simp add: shift8_def eval_nat_numeral)

lemma shift8_zero: "shift8 rp 0 = 0"
  by (simp add: shift8_unfold shift1_def)

lemma hdlc_bases:
  "map (\<lambda>k. ucast (shift8 0xedb88320 (2 ^ k :: u32))) [0..<8] =
     map (\<lambda>i. cksum89_crc32_iso_hdlc_table ! i) [1, 2, 4, 8, 16, 32, 64, 128]"
  by (simp add: shift8_unfold shift1_def upt_rec cksum89_crc32_iso_hdlc_table_def)

lemma hdlc_entries:
  "doubled (XOR) (map (\<lambda>i. cksum89_crc32_iso_hdlc_table ! i) [1, 2, 4, 8, 16, 32, 64, 128]) 0 = cksum89_crc32_iso_hdlc_table"
  by (simp add: doubled_def cksum89_crc32_iso_hdlc_table_def)

lemma hdlc_table:
  assumes "i < 256"
  shows "cksum89_crc32_iso_hdlc_table ! i = ucast (shift8 0xedb88320 (of_nat i :: u32))"
proof -
  have "doubled (XOR) (map (\<lambda>k. ucast (shift8 0xedb88320 (2 ^ k :: u32))) [0..<8]) (ucast (shift8 0xedb88320 (0 :: u32)))
      = map (\<lambda>i. ucast (shift8 0xedb88320 (of_nat i :: u32)) :: ulong) [0..<2 ^ 8]"
    by (rule doubled_eq) (simp add: shift8_linear unsigned_xor_eq)
  note table = this [unfolded hdlc_bases shift8_zero unsigned_0 hdlc_entries]
  have "i < 2 ^ 8" using assms by simp
  then show ?thesis by (simp add: table)
qed

lemma crc32c_bases:
  "map (\<lambda>k. ucast (shift8 0x82f63b78 (2 ^ k :: u32))) [0..<8] =
     map (\<lambda>i. cksum89_crc32c_table ! i) [1, 2, 4, 8, 16, 32, 64, 128]"
  by (simp add: shift8_unfold shift1_def upt_rec cksum89_crc32c_table_def)

lemma crc32c_entries:
  "doubled (XOR) (map (\<lambda>i. cksum89_crc32c_table ! i) [1, 2, 4, 8, 16, 32, 64, 128]) 0 = cksum89_crc32c_table"
  by (simp add: doubled_def cksum89_crc32c_table_def)

lemma crc32c_table:
  assumes "i < 256"
  shows "cksum89_crc32c_table ! i = ucast (shift8 0x82f63b78 (of_nat i :: u32))"
proof -
  have "doubled (XOR) (map (\<lambda>k. ucast (shift8 0x82f63b78 (2 ^ k :: u32))) [0..<8]) (ucast (shift8 0x82f63b78 (0 :: u32)))
      = map (\<lambda>i. ucast (shift8 0x82f63b78 (of_nat i :: u32)) :: ulong) [0..<2 ^ 8]"
    by (rule doubled_eq) (simp add: shift8_linear unsigned_xor_eq)
  note table = this [unfolded crc32c_bases shift8_zero unsigned_0 crc32c_entries]
  have "i < 2 ^ 8" using assms by simp
  then show ?thesis by (simp add: table)
qed

text \<open>A 64-bit value as two limbs.\<close>

definition limbs :: "u64 \<Rightarrow> cksum89_u64" where
  "limbs w = \<lparr>ck_hi = drop_bit 32 w, ck_lo = w AND mask 32\<rparr>"

lemma limbs_xor: "limbs (a XOR b) = cksum89_crc64_xor (limbs a) (limbs b)"
  by (simp add: limbs_def cksum89_crc64_xor_def) (rule bit_word_eqI, auto simp: bit_simps)

lemma limbs_shift8: "cksum89_crc64_shift8 (limbs w) = limbs (drop_bit 8 w)"
proof -
  have ff: "(0xff :: ulong) = mask 8" by (simp add: mask_eq_exp_minus_1)
  have "drop_bit 8 (w AND mask 32) OR push_bit 24 (drop_bit 32 w AND mask 8) = drop_bit 8 w AND mask 32"
  proof (rule bit_word_eqI)
    fix i :: nat
    have "32 + (i - 24) = 8 + i" if "24 \<le> i" using that by simp
    then show "bit (drop_bit 8 (w AND mask 32) OR push_bit 24 (drop_bit 32 w AND mask 8)) i
        \<longleftrightarrow> bit (drop_bit 8 w AND mask 32) i"
      if "i < LENGTH(64)"
      using that by (cases "24 \<le> i") (auto simp: bit_simps)
  qed
  then show ?thesis by (simp add: cksum89_crc64_shift8_def limbs_def ff)
qed

lemma nvme_bases:
  "map (\<lambda>k. limbs (shift8 0x9a6c9329ac4bc9b5 (2 ^ k))) [0..<8] =
     map (\<lambda>i. cksum89_crc64_nvme_table ! i) [1, 2, 4, 8, 16, 32, 64, 128]"
  by (simp add: shift8_unfold shift1_def upt_rec cksum89_crc64_nvme_table_def limbs_def mask_eq_exp_minus_1)

lemma nvme_entries:
  "doubled cksum89_crc64_xor (map (\<lambda>i. cksum89_crc64_nvme_table ! i) [1, 2, 4, 8, 16, 32, 64, 128]) (limbs 0)
     = cksum89_crc64_nvme_table"
  by (simp add: doubled_def cksum89_crc64_nvme_table_def cksum89_crc64_xor_def limbs_def)

lemma nvme_table:
  assumes "i < 256"
  shows "cksum89_crc64_nvme_table ! i = limbs (shift8 0x9a6c9329ac4bc9b5 (of_nat i))"
proof -
  have "doubled cksum89_crc64_xor (map (\<lambda>k. limbs (shift8 0x9a6c9329ac4bc9b5 (2 ^ k))) [0..<8]) (limbs (shift8 0x9a6c9329ac4bc9b5 0))
      = map (\<lambda>i. limbs (shift8 0x9a6c9329ac4bc9b5 (of_nat i))) [0..<2 ^ 8]"
    by (rule doubled_eq) (simp add: shift8_linear limbs_xor)
  note table = this [unfolded nvme_bases shift8_zero nvme_entries]
  have "i < 2 ^ 8" using assms by simp
  then show ?thesis by (simp add: table)
qed


section \<open>One byte\<close>

lemma byte_low:
  fixes s :: "'a::len word" and b :: u8
  assumes "8 \<le> LENGTH('a)"
  shows "drop_bit 8 (s XOR ucast b) = drop_bit 8 s"
  using assms by (intro bit_word_eqI) (auto simp: bit_simps dest: bit_imp_le_length)

lemma shift8_byte:
  fixes s :: "'a::len word" and b :: u8
  assumes "8 \<le> LENGTH('a)"
  shows "shift8 rp (s XOR ucast b) = drop_bit 8 s XOR shift8 rp ((s XOR ucast b) AND mask 8)"
  using shift8_split [of rp "s XOR ucast b"] byte_low [OF assms] by metis

lemma crc32_step_correct:
  fixes s :: u32 and b :: u8
  assumes "\<And>i. i < 256 \<Longrightarrow> table ! i = ucast (shift8 rp (of_nat i :: u32))"
  shows "cksum89_crc32_step (ucast s) table b = ucast (shift8 rp (s XOR ucast b))"
proof -
  let ?i = "(s XOR ucast b) AND mask 8"
  have index: "(ucast s XOR ucast b) AND 0xff = (ucast ?i :: ulong)"
  proof -
    have ff: "(0xff :: ulong) = mask 8" by (simp add: mask_eq_exp_minus_1)
    show ?thesis unfolding ff
      by (rule bit_word_eqI) (auto simp: bit_simps dest: bit_imp_le_length)
  qed
  have "unat ?i < 256"
    using word_and_le1 [of "s XOR ucast b" "mask 8"]
    by (simp add: word_le_nat_alt mask_eq_exp_minus_1)
  then have "table ! unat ?i = ucast (shift8 rp ?i)" using assms by simp
  moreover have "unat (ucast ?i :: ulong) = unat ?i"
    using \<open>unat ?i < 256\<close> by (simp add: unsigned_ucast_eq take_bit_nat_eq_self)
  moreover have "drop_bit 8 (ucast s :: ulong) = ucast (drop_bit 8 s)"
    by (rule bit_word_eqI) (auto simp: bit_simps dest: bit_imp_le_length)
  ultimately show ?thesis
    using shift8_byte [of rp s b] by (simp add: cksum89_crc32_step_def index unsigned_xor_eq)
qed

lemma nvme_byte_correct:
  "cksum89_crc64_nvme_byte \<lparr>nvme_state = limbs s\<rparr> b =
     \<lparr>nvme_state = limbs (shift8 0x9a6c9329ac4bc9b5 (s XOR ucast b))\<rparr>"
proof -
  let ?i = "(s XOR ucast b) AND mask 8"
  have index: "(ck_lo (limbs s) XOR ucast b) AND 0xff = ?i"
  proof -
    have ff: "(0xff :: ulong) = mask 8" by (simp add: mask_eq_exp_minus_1)
    show ?thesis unfolding ff limbs_def
      by (rule bit_word_eqI) (auto simp: bit_simps)
  qed
  have "unat ?i < 256"
    using word_and_le1 [of "s XOR ucast b" "mask 8"]
    by (simp add: word_le_nat_alt mask_eq_exp_minus_1)
  then have "cksum89_crc64_nvme_table ! unat ?i = limbs (shift8 0x9a6c9329ac4bc9b5 ?i)" using nvme_table by simp
  then show ?thesis
    using shift8_byte [of "0x9a6c9329ac4bc9b5" s b]
    by (simp add: cksum89_crc64_nvme_byte_def index limbs_shift8 limbs_xor)
qed

end
