(* ===== verification/Cksum_Correct.thy ===== *)
theory Cksum_Correct
  imports Cksum_Crc
begin

unbundle bit_operations_syntax

text \<open>
  The checksum routines compute the published checksums, and splitting the input over several
  update calls does not change the result. Two interfaces carry the proofs: \<open>streaming\<close>, what an
  init, update and final triple promises, interpreted by the four algorithms, and
  \<open>reflected_crc\<close>, what one byte step of a CRC has to satisfy, interpreted by the three CRCs.
\<close>

section \<open>Streaming\<close>

lemma bytes_loop_take:
  assumes "unat len \<le> length data"
  shows "bytes_loop f c data len = fold (\<lambda>b c. f c b) (take (unat len) data) c"
proof -
  have "map (\<lambda>i. data ! i) [0..<unat len] = take (unat len) data"
    using assms by (simp add: list_eq_iff_nth_eq)
  then have "take (unat len) data = map ((!) data) [0..<unat len]" by (simp add: comp_def)
  then show ?thesis by (simp add: bytes_loop_def fold_map comp_def)
qed

definition short :: "bytes \<Rightarrow> bool" where
  "short data \<longleftrightarrow> length data < 2 ^ 64"

lemma unat_length: "short data \<Longrightarrow> unat (of_nat (length data) :: ulong) = length data"
  by (simp add: short_def unat_of_nat)

locale streaming =
  fixes init :: 'c and byte :: "'c \<Rightarrow> u8 \<Rightarrow> 'c" and update :: "'c \<Rightarrow> bytes \<Rightarrow> ulong \<Rightarrow> 'c"
    and final :: "'c \<Rightarrow> 'r" and oneshot :: "bytes \<Rightarrow> ulong \<Rightarrow> 'r"
  assumes update_loop: "update c data len = bytes_loop byte c data len"
    and oneshot_runs: "oneshot data len = final (update init data len)"
begin

lemma update_whole: "short data \<Longrightarrow> update c data (of_nat (length data)) = fold (\<lambda>b c. byte c b) data c"
  by (simp add: update_loop bytes_loop_take unat_length)

lemma update_chunks:
  "\<forall>x \<in> set chunks. short x \<Longrightarrow>
     fold (\<lambda>x c. update c x (of_nat (length x))) chunks c = fold (\<lambda>b c. byte c b) (concat chunks) c"
  by (induction chunks arbitrary: c) (simp_all add: update_whole)

lemma chunked:
  assumes "short (concat chunks)"
  shows "final (fold (\<lambda>x c. update c x (of_nat (length x))) chunks init)
    = oneshot (concat chunks) (of_nat (length (concat chunks)))"
proof -
  have "\<forall>x \<in> set chunks. short x"
  proof
    fix x assume "x \<in> set chunks"
    then have "length x \<le> length (concat chunks)"
      by (metis (no_types, lifting) concat_append concat.simps(2) length_append le_add1 le_add2 le_trans split_list)
    with assms show "short x" by (simp add: short_def)
  qed
  then show ?thesis by (simp add: update_chunks oneshot_runs update_whole [OF assms])
qed

end

interpretation hdlc: streaming cksum89_crc32_iso_hdlc_init cksum89_crc32_iso_hdlc_byte
    cksum89_crc32_iso_hdlc_update cksum89_crc32_iso_hdlc_final cksum89_crc32_iso_hdlc
  by unfold_locales (simp_all add: cksum89_crc32_iso_hdlc_update_def cksum89_crc32_iso_hdlc_def)

interpretation crc32c: streaming cksum89_crc32c_init cksum89_crc32c_byte
    cksum89_crc32c_update cksum89_crc32c_final cksum89_crc32c
  by unfold_locales (simp_all add: cksum89_crc32c_update_def cksum89_crc32c_def)

interpretation nvme: streaming cksum89_crc64_nvme_init cksum89_crc64_nvme_byte
    cksum89_crc64_nvme_update cksum89_crc64_nvme_final cksum89_crc64_nvme
  by unfold_locales (simp_all add: cksum89_crc64_nvme_update_def cksum89_crc64_nvme_def)

interpretation inet: streaming cksum89_inet16_init cksum89_inet16_byte
    cksum89_inet16_update cksum89_inet16_final cksum89_inet16
  by unfold_locales (simp_all add: cksum89_inet16_update_def cksum89_inet16_def)

section \<open>CRCs\<close>

locale reflected_crc = streaming init byte update final oneshot
  for init :: 'c and byte :: "'c \<Rightarrow> u8 \<Rightarrow> 'c" and update :: "'c \<Rightarrow> bytes \<Rightarrow> ulong \<Rightarrow> 'c"
    and final :: "'c \<Rightarrow> 'r" and oneshot :: "bytes \<Rightarrow> ulong \<Rightarrow> 'r" +
  fixes poly :: "'a::len word" and context_of :: "'a word \<Rightarrow> 'c" and value_of :: "'a word \<Rightarrow> 'r"
  assumes width: "8 \<le> LENGTH('a)"
    and init_ones: "init = context_of (- 1)"
    and byte_shift: "byte (context_of s) b = context_of (shift8 (reflect poly) (s XOR ucast b))"
    and final_ones: "final (context_of s) = value_of (s XOR - 1)"
begin

lemma byte_reflected:
  "fold (\<lambda>b s. reflected_bit (reflect poly) s b) (byte_bits y) s = shift8 (reflect poly) (s XOR ucast y)"
proof -
  have bits: "byte_bits y = map (bit (ucast y :: 'a word)) [0..<8]"
    using width by (auto simp: byte_bits_def bit_simps)
  have "\<not> bit (ucast y :: 'a word) i" if "8 \<le> i" for i
    using that by (auto simp: bit_simps dest: bit_imp_le_length)
  then show ?thesis unfolding bits shift8_def by (rule reflected_bits)
qed

lemma bytes_reflected:
  "fold (\<lambda>b c. byte c b) data (context_of (reflect r)) =
     context_of (reflect (fold (\<lambda>b r. rocksoft_bit poly r b) (concat (map byte_bits data)) r))"
proof (induction data arbitrary: r)
  case (Cons y data)
  have "byte (context_of (reflect r)) y =
      context_of (reflect (fold (\<lambda>b r. rocksoft_bit poly r b) (byte_bits y) r))"
    by (simp add: byte_shift reflect_fold byte_reflected)
  with Cons show ?case by simp
qed simp

lemma computes:
  assumes "unat len \<le> length data"
  shows "oneshot data len = value_of (rocksoft poly (take (unat len) data))"
  using assms bytes_reflected [of "take (unat len) data" "- 1"]
  by (simp add: oneshot_runs update_loop bytes_loop_take init_ones reflect_ones final_ones rocksoft_def)

end

lemma reflect_polys:
  "reflect (0x04c11db7 :: u32) = 0xedb88320" "reflect (0x1edc6f41 :: u32) = 0x82f63b78"
  "reflect (0xad93d23594c93659 :: u64) = 0x9a6c9329ac4bc9b5"
  by (simp_all add: reflect_def upt_rec)


lemma ucast_ones: "ucast (- 1 :: u32) = (0xffffffff :: ulong)" "ucast (s XOR - 1 :: u32) = (ucast s XOR 0xffffffff :: ulong)"
proof -
  have m: "(0xffffffff :: ulong) = mask 32" by (simp add: mask_eq_exp_minus_1)
  show "ucast (- 1 :: u32) = (0xffffffff :: ulong)"
    unfolding m by (rule bit_word_eqI) (auto simp: bit_simps)
  show "ucast (s XOR - 1 :: u32) = (ucast s XOR 0xffffffff :: ulong)"
    unfolding m by (rule bit_word_eqI) (auto simp: bit_simps dest: bit_imp_le_length)
qed

interpretation hdlc_crc: reflected_crc cksum89_crc32_iso_hdlc_init cksum89_crc32_iso_hdlc_byte
    cksum89_crc32_iso_hdlc_update cksum89_crc32_iso_hdlc_final cksum89_crc32_iso_hdlc
    "0x04c11db7 :: u32" "\<lambda>s. \<lparr>hdlc_state = ucast s\<rparr>" ucast
proof unfold_locales
  fix s :: u32 and b :: u8
  show "cksum89_crc32_iso_hdlc_byte \<lparr>hdlc_state = ucast s\<rparr> b =
      \<lparr>hdlc_state = ucast (shift8 (reflect 0x04c11db7) (s XOR ucast b))\<rparr>"
    by (simp add: cksum89_crc32_iso_hdlc_byte_def crc32_step_correct [OF hdlc_table] reflect_polys)
  show "cksum89_crc32_iso_hdlc_final \<lparr>hdlc_state = ucast s\<rparr> = ucast (s XOR - 1)"
    unfolding ucast_ones by (simp add: cksum89_crc32_iso_hdlc_final_def)
qed (simp_all add: cksum89_crc32_iso_hdlc_init_def ucast_ones)

interpretation crc32c_crc: reflected_crc cksum89_crc32c_init cksum89_crc32c_byte
    cksum89_crc32c_update cksum89_crc32c_final cksum89_crc32c
    "0x1edc6f41 :: u32" "\<lambda>s. \<lparr>crc32c_state = ucast s\<rparr>" ucast
proof unfold_locales
  fix s :: u32 and b :: u8
  show "cksum89_crc32c_byte \<lparr>crc32c_state = ucast s\<rparr> b =
      \<lparr>crc32c_state = ucast (shift8 (reflect 0x1edc6f41) (s XOR ucast b))\<rparr>"
    by (simp add: cksum89_crc32c_byte_def crc32_step_correct [OF crc32c_table] reflect_polys)
  show "cksum89_crc32c_final \<lparr>crc32c_state = ucast s\<rparr> = ucast (s XOR - 1)"
    unfolding ucast_ones by (simp add: cksum89_crc32c_final_def)
qed (simp_all add: cksum89_crc32c_init_def ucast_ones)

interpretation nvme_crc: reflected_crc cksum89_crc64_nvme_init cksum89_crc64_nvme_byte
    cksum89_crc64_nvme_update cksum89_crc64_nvme_final cksum89_crc64_nvme
    "0xad93d23594c93659 :: u64" "\<lambda>s. \<lparr>nvme_state = limbs s\<rparr>" limbs
proof unfold_locales
  fix s :: u64 and b :: u8
  show "cksum89_crc64_nvme_byte \<lparr>nvme_state = limbs s\<rparr> b =
      \<lparr>nvme_state = limbs (shift8 (reflect 0xad93d23594c93659) (s XOR ucast b))\<rparr>"
    by (simp add: nvme_byte_correct reflect_polys)
  have ones: "limbs (- 1) = \<lparr>ck_hi = 0xffffffff, ck_lo = 0xffffffff\<rparr>"
    by (simp add: limbs_def mask_eq_exp_minus_1)
  then show "cksum89_crc64_nvme_init = \<lparr>nvme_state = limbs (- 1)\<rparr>" by (simp add: cksum89_crc64_nvme_init_def)
  show "cksum89_crc64_nvme_final \<lparr>nvme_state = limbs s\<rparr> = limbs (s XOR - 1)"
    unfolding limbs_xor ones by (simp add: cksum89_crc64_nvme_final_def cksum89_crc64_xor_def)
qed simp_all

text \<open>C31: The table-driven CRC-32 is the CRC with the documented parameters (polynomial
  \<open>0x04c11db7\<close>, reflected, all ones), for every input; its value stays within 32 bits.\<close>

theorem crc32_iso_hdlc_correct:
  "unat len \<le> length data \<Longrightarrow>
     cksum89_crc32_iso_hdlc data len = ucast (rocksoft (0x04c11db7 :: u32) (take (unat len) data))"
  by (rule hdlc_crc.computes)

text \<open>The table-driven CRC-32C is the CRC with the documented parameters (polynomial
  \<open>0x1edc6f41\<close>), for every input.\<close>

theorem crc32c_correct:
  "unat len \<le> length data \<Longrightarrow>
     cksum89_crc32c data len = ucast (rocksoft (0x1edc6f41 :: u32) (take (unat len) data))"
  by (rule crc32c_crc.computes)

text \<open>The two-limb CRC-64 is the 64-bit CRC with the documented parameters (polynomial
  \<open>0xad93d23594c93659\<close>) of a machine with 64-bit integers, for every input.\<close>

theorem crc64_nvme_correct:
  "unat len \<le> length data \<Longrightarrow>
     cksum89_crc64_nvme data len = limbs (rocksoft (0xad93d23594c93659 :: u64) (take (unat len) data))"
  by (rule nvme_crc.computes)

text \<open>C32: Splitting an input over any number of update calls gives the one-shot value, for each
  of the four algorithms; an update may end in the middle of a 16-bit word.\<close>

theorem streaming_invariant:
  "short (concat chunks) \<Longrightarrow>
     cksum89_crc32_iso_hdlc_final (fold (\<lambda>x c. cksum89_crc32_iso_hdlc_update c x (of_nat (length x))) chunks
         cksum89_crc32_iso_hdlc_init) = cksum89_crc32_iso_hdlc (concat chunks) (of_nat (length (concat chunks)))
   \<and> cksum89_crc32c_final (fold (\<lambda>x c. cksum89_crc32c_update c x (of_nat (length x))) chunks
         cksum89_crc32c_init) = cksum89_crc32c (concat chunks) (of_nat (length (concat chunks)))
   \<and> cksum89_crc64_nvme_final (fold (\<lambda>x c. cksum89_crc64_nvme_update c x (of_nat (length x))) chunks
         cksum89_crc64_nvme_init) = cksum89_crc64_nvme (concat chunks) (of_nat (length (concat chunks)))
   \<and> cksum89_inet16_final (fold (\<lambda>x c. cksum89_inet16_update c x (of_nat (length x))) chunks
         cksum89_inet16_init) = cksum89_inet16 (concat chunks) (of_nat (length (concat chunks)))"
  by (intro conjI hdlc.chunked crc32c.chunked nvme.chunked inet.chunked)

section \<open>The Internet checksum\<close>

text \<open>
  The reference of RFC 1071: the 16-bit words of the input in network order, an odd last byte
  padded with zero, their one's-complement sum as a number (zero only when every word is zero,
  otherwise the representative in \<open>1 .. 65535\<close> modulo \<open>65535\<close>), complemented.
\<close>

fun be_words :: "bytes \<Rightarrow> nat list" where
  "be_words [] = []"
| "be_words [x] = [256 * unat x]"
| "be_words (x # y # r) = (256 * unat x + unat y) # be_words r"

definition ones_sum :: "nat \<Rightarrow> nat" where
  "ones_sum n = (if n = 0 then 0 else (n - 1) mod 65535 + 1)"

lemma ones_sum_unique:
  assumes "r \<le> 65535" and "r mod 65535 = n mod 65535" and "r = 0 \<longleftrightarrow> n = 0"
  shows "ones_sum n = r"
proof (cases "n = 0")
  case False
  with assms have "0 < r" by simp
  have "r \<le> n"
  proof (rule ccontr)
    assume "\<not> r \<le> n"
    with assms(1,2) have "r mod 65535 = n" by simp
    with \<open>\<not> r \<le> n\<close> False assms(1) show False by (cases "r = 65535") simp_all
  qed
  with assms(2) obtain k where "n = r + 65535 * k" by (metis mod_eq_nat1E)
  moreover obtain q where "r = Suc q" using \<open>0 < r\<close> by (cases r) simp_all
  ultimately have "n - 1 = q + 65535 * k" "q < 65535" using assms(1) by simp_all
  then have "(n - 1) mod 65535 = q" by (simp only: mod_mult_self2 mod_less)
  with False \<open>r = Suc q\<close> show ?thesis by (simp add: ones_sum_def)
qed (use assms in \<open>simp add: ones_sum_def\<close>)

lemma ones_sum_facts:
  "ones_sum n \<le> 65535" "ones_sum n mod 65535 = n mod 65535" "ones_sum n = 0 \<longleftrightarrow> n = 0"
proof -
  have "(n - 1) mod 65535 < 65535" by (rule mod_less_divisor) simp
  then show "ones_sum n \<le> 65535" "ones_sum n = 0 \<longleftrightarrow> n = 0" unfolding ones_sum_def by auto
  show "ones_sum n mod 65535 = n mod 65535"
    by (cases n) (simp_all add: ones_sum_def mod_Suc_eq)
qed

lemma ones_sum_add: "ones_sum (ones_sum a + b) = ones_sum (a + b)"
  by (rule ones_sum_unique) (use ones_sum_facts in \<open>auto simp: mod_add_left_eq intro: mod_add_cong\<close>)

text \<open>Two end-around folds of a 32-bit sum.\<close>

lemma ones_sum_fold:
  assumes "s < 2 ^ 32" and "f = s mod 65536 + s div 65536"
  shows "ones_sum s = f mod 65536 + f div 65536"
proof -
  define a b where "a = s mod 65536" and "b = s div 65536"
  have s: "s = 65535 * b + f" and f: "f = a + b" using assms(2) by (simp_all add: a_def b_def)
  have "a < 65536" "b < 65536" using assms(1) by (simp_all add: a_def b_def)
  show ?thesis
  proof (cases "f < 65536")
    case True
    then have "f mod 65536 + f div 65536 = f" by simp
    moreover have "s mod 65535 = f mod 65535" using s by (metis mod_mult_self4)
    moreover have "f = 0 \<longleftrightarrow> s = 0" using s f by auto
    ultimately show ?thesis using True using ones_sum_unique [of f s] by simp
  next
    case False
    then obtain g where g: "f = 65536 + g" using le_Suc_ex by (metis not_less)
    with f \<open>a < 65536\<close> \<open>b < 65536\<close> have lt: "g < 65535" by simp
    have "s = 65535 * (b + 1) + (g + 1)" using s g by simp
    then have "s mod 65535 = (g + 1) mod 65535" "s \<noteq> 0" by (metis mod_mult_self4, simp)
    moreover have "f mod 65536 + f div 65536 = g + 1" using g lt by simp
    ultimately show ?thesis using lt ones_sum_unique [of "g + 1" s] by simp
  qed
qed

lemma unat_fold:
  assumes "unat s < 2 ^ 32"
  shows "unat (cksum89_inet16_fold s) = ones_sum (unat s)"
proof -
  have m: "(0xffff :: ulong) = mask 16" by (simp add: mask_eq_exp_minus_1)
  have low: "unat (w AND 0xffff) = unat w mod 65536" and high: "unat (drop_bit 16 w) = unat w div 65536" for w :: ulong
    unfolding m by (simp_all add: take_bit_eq_mask [symmetric] unsigned_take_bit_eq take_bit_eq_mod unat_drop_bit_eq drop_bit_eq_div unat_div unat_mod)
  let ?f = "(s AND 0xffff) + drop_bit 16 s"
  have f: "unat ?f = unat s mod 65536 + unat s div 65536"
    using assms low [of s] high [of s] by (subst unat_add_no_wrap) simp_all
  then have "unat ?f < 2 ^ 32" using assms by simp
  then have "unat ((?f AND 0xffff) + drop_bit 16 ?f) = unat ?f mod 65536 + unat ?f div 65536"
    using low [of ?f] high [of ?f] by (subst unat_add_no_wrap) simp_all
  moreover have "ones_sum (unat s) = unat ?f mod 65536 + unat ?f div 65536"
    using ones_sum_fold [of "unat s"] assms by (simp add: f)
  ultimately show ?thesis by (simp add: cksum89_inet16_fold_def Let_def)
qed

lemma unat_pair: "unat (push_bit 8 (ucast (x :: u8)) OR ucast (y :: u8) :: ulong) = 256 * unat x + unat y"
  and unat_high: "unat (push_bit 8 (ucast (x :: u8)) :: ulong) = 256 * unat x"
proof -
  have x: "unat x < 256" and y: "unat y < 256"
    using unsigned_less [where ?'a = nat, of x] unsigned_less [where ?'a = nat, of y] by simp_all
  have ux: "unat (ucast x :: ulong) = unat x" and uy: "unat (ucast y :: ulong) = unat y"
    using x y by (simp_all add: unsigned_ucast_eq take_bit_nat_eq_self)
  show high: "unat (push_bit 8 (ucast x) :: ulong) = 256 * unat x"
    using x ux by (simp add: push_bit_eq_mult unat_word_ariths)
  have "push_bit 8 (ucast x) OR ucast y = (push_bit 8 (ucast x) + ucast y :: ulong)"
    by (rule disjunctive_add [symmetric]) (auto simp: bit_simps dest: bit_imp_le_length)
  then show "unat (push_bit 8 (ucast x) OR ucast y :: ulong) = 256 * unat x + unat y"
    using high uy x y by (simp add: unat_add_no_wrap)
qed

lemma inet_bytes:
  assumes "inet_has_pending c = 0" and "unat (inet_sum c) = ones_sum k"
  shows "unat (cksum89_inet16_total (fold (\<lambda>b c. cksum89_inet16_byte c b) data c)) = ones_sum (k + sum_list (be_words data))"
  using assms
proof (induction data arbitrary: c k rule: be_words.induct)
  case 1
  then show ?case by (simp add: cksum89_inet16_total_def)
next
  case (2 x)
  have "unat x < 256" using unsigned_less [where ?'a = nat, of x] by simp
  moreover have "ones_sum k \<le> 65535" by (rule ones_sum_facts)
  ultimately have "unat (inet_sum c + push_bit 8 (ucast x)) = ones_sum k + 256 * unat x"
    using 2 unat_high by (subst unat_add_no_wrap) simp_all
  with \<open>ones_sum k \<le> 65535\<close> \<open>unat x < 256\<close> 2 show ?case
    by (simp add: cksum89_inet16_byte_def cksum89_inet16_hold_def cksum89_inet16_total_def
        cksum89_inet16_sum_pending_def cksum89_inet16_pending_word_def unat_fold ones_sum_add)
next
  case (3 x y r)
  let ?w = "push_bit 8 (ucast x) OR ucast y :: ulong"
  let ?c = "cksum89_inet16_byte (cksum89_inet16_byte c x) y"
  have "unat x < 256" "unat y < 256"
    using unsigned_less [where ?'a = nat, of x] unsigned_less [where ?'a = nat, of y] by simp_all
  moreover have "ones_sum k \<le> 65535" by (rule ones_sum_facts)
  ultimately have "unat (inet_sum c + ?w) = ones_sum k + (256 * unat x + unat y)"
      "ones_sum k + (256 * unat x + unat y) < 2 ^ 32"
    using 3 unat_pair [of x y] unat_add_no_wrap [of "inet_sum c" ?w] by simp_all
  then have "unat (inet_sum ?c) = ones_sum (k + (256 * unat x + unat y))" "inet_has_pending ?c = 0"
    using 3(2) by (simp_all add: cksum89_inet16_byte_def cksum89_inet16_hold_def cksum89_inet16_pair_def
        cksum89_inet16_add_word_def cksum89_inet16_pending_word_def unat_fold ones_sum_add)
  from 3(1) [OF this(2,1)] show ?case by (simp add: add.assoc)
qed


lemma inet_final:
  assumes "unat (cksum89_inet16_total c) \<le> 65535"
  shows "unat (cksum89_inet16_final c) = 65535 - ones_sum (unat (cksum89_inet16_total c))"
proof -
  let ?f = "cksum89_inet16_fold (cksum89_inet16_total c)"
  have f: "unat ?f = ones_sum (unat (cksum89_inet16_total c))" using assms by (simp add: unat_fold)
  have m: "(0xffff :: ulong) = mask 16" by (simp add: mask_eq_exp_minus_1)
  have "ucast (NOT ?f AND 0xffff) = NOT (ucast ?f :: u16)"
    unfolding m by (rule bit_word_eqI) (auto simp: bit_simps)
  then have "unat (cksum89_inet16_final c) = unat (NOT (ucast ?f :: u16))" by (simp add: cksum89_inet16_final_def)
  also have "\<dots> = unat (- 1 - (ucast ?f :: u16))" by (simp only: not_eq_complement minus_diff_commute)
  also have "\<dots> = 65535 - unat (ucast ?f :: u16)" by (simp add: unat_max_minus)
  also have "unat (ucast ?f :: u16) = unat ?f"
    using f ones_sum_facts(1) [of "unat (cksum89_inet16_total c)"]
    by (simp add: unsigned_ucast_eq take_bit_nat_eq_self)
  finally show ?thesis by (simp add: f)
qed

text \<open>The Internet checksum is the complement of the one's-complement sum of the big-endian
  16-bit words of the input, an odd last byte padded with zero, for inputs of any length.\<close>

theorem inet16_correct:
  assumes "unat len \<le> length data"
  shows "unat (cksum89_inet16 data len) = 65535 - ones_sum (sum_list (be_words (take (unat len) data)))"
proof -
  have "unat (cksum89_inet16_total (cksum89_inet16_update cksum89_inet16_init data len))
      = ones_sum (sum_list (be_words (take (unat len) data)))"
    using inet_bytes [of cksum89_inet16_init 0 "take (unat len) data"]
    by (simp add: inet.update_loop bytes_loop_take [OF assms]) (simp add: cksum89_inet16_init_def ones_sum_def)
  then show ?thesis
    using ones_sum_facts(1) ones_sum_add [of _ 0]
    by (simp add: inet.oneshot_runs inet_final)
qed

theorem inet16_correct_witness:
  "cksum89_inet16 [0x00, 0x01, 0xf2, 0x03, 0xf4, 0xf5, 0xf6, 0xf7] 8 = 0x220d
   \<and> unat (cksum89_inet16 [0x00, 0x01, 0xf2, 0x03, 0xf4, 0xf5, 0xf6, 0xf7] 8)
      = 65535 - ones_sum (sum_list (be_words [0x00, 0x01, 0xf2, 0x03, 0xf4, 0xf5, 0xf6, 0xf7]))"
proof -
  have "unat (cksum89_inet16 [0x00, 0x01, 0xf2, 0x03, 0xf4, 0xf5, 0xf6, 0xf7] 8)
      = 65535 - ones_sum (sum_list (be_words [0x00, 0x01, 0xf2, 0x03, 0xf4, 0xf5, 0xf6, 0xf7]))"
    using inet16_correct [of 8 "[0x00, 0x01, 0xf2, 0x03, 0xf4, 0xf5, 0xf6, 0xf7]"] by simp
  moreover from this have "unat (cksum89_inet16 [0x00, 0x01, 0xf2, 0x03, 0xf4, 0xf5, 0xf6, 0xf7] 8) = unat (0x220d :: u16)"
    by (simp add: ones_sum_def)
  ultimately show ?thesis by (metis word_unat_eq_iff)
qed

section \<open>The check values\<close>

definition check_input :: bytes where
  "check_input = [0x31, 0x32, 0x33, 0x34, 0x35, 0x36, 0x37, 0x38, 0x39]"

lemma hdlc_check_steps:
  "cksum89_crc32_step 0xffffffff cksum89_crc32_iso_hdlc_table 0x31 = 0x7c231048"
  "cksum89_crc32_step 0x7c231048 cksum89_crc32_iso_hdlc_table 0x32 = 0xb0acbb32"
  "cksum89_crc32_step 0xb0acbb32 cksum89_crc32_iso_hdlc_table 0x33 = 0x77b79c2d"
  "cksum89_crc32_step 0x77b79c2d cksum89_crc32_iso_hdlc_table 0x34 = 0x641c1f5c"
  "cksum89_crc32_step 0x641c1f5c cksum89_crc32_iso_hdlc_table 0x35 = 0x340ac5e3"
  "cksum89_crc32_step 0x340ac5e3 cksum89_crc32_iso_hdlc_table 0x36 = 0xf68d2c9e"
  "cksum89_crc32_step 0xf68d2c9e cksum89_crc32_iso_hdlc_table 0x37 = 0xaffc9660"
  "cksum89_crc32_step 0xaffc9660 cksum89_crc32_iso_hdlc_table 0x38 = 0x651f2550"
  "cksum89_crc32_step 0x651f2550 cksum89_crc32_iso_hdlc_table 0x39 = 0x340bc6d9"
  by (simp_all add: cksum89_crc32_step_def cksum89_crc32_iso_hdlc_table_def)

lemma crc32c_check_steps:
  "cksum89_crc32_step 0xffffffff cksum89_crc32c_table 0x31 = 0x6f0a661c"
  "cksum89_crc32_step 0x6f0a661c cksum89_crc32c_table 0x32 = 0x8caa3b9f"
  "cksum89_crc32_step 0x8caa3b9f cksum89_crc32c_table 0x33 = 0xef84d04d"
  "cksum89_crc32_step 0xef84d04d cksum89_crc32c_table 0x34 = 0x09c50b11"
  "cksum89_crc32_step 0x09c50b11 cksum89_crc32c_table 0x35 = 0xe72edcca"
  "cksum89_crc32_step 0xe72edcca cksum89_crc32c_table 0x36 = 0xbeca8e79"
  "cksum89_crc32_step 0xbeca8e79 cksum89_crc32c_table 0x37 = 0xedbd6815"
  "cksum89_crc32_step 0xedbd6815 cksum89_crc32c_table 0x38 = 0x9f787f65"
  "cksum89_crc32_step 0x9f787f65 cksum89_crc32c_table 0x39 = 0x1cf96d7c"
  by (simp_all add: cksum89_crc32_step_def cksum89_crc32c_table_def)

lemma nvme_check_steps:
  "cksum89_crc64_nvme_byte \<lparr>nvme_state = \<lparr>ck_hi = 0xffffffff, ck_lo = 0xffffffff\<rparr>\<rparr> 0x31 =
     \<lparr>nvme_state = \<lparr>ck_hi = 0xdc6a5e3c, ck_lo = 0xb9e4412d\<rparr>\<rparr>"
  "cksum89_crc64_nvme_byte \<lparr>nvme_state = \<lparr>ck_hi = 0xdc6a5e3c, ck_lo = 0xb9e4412d\<rparr>\<rparr> 0x32 =
     \<lparr>nvme_state = \<lparr>ck_hi = 0x96f18dfa, ck_lo = 0x140c58b1\<rparr>\<rparr>"
  "cksum89_crc64_nvme_byte \<lparr>nvme_state = \<lparr>ck_hi = 0x96f18dfa, ck_lo = 0x140c58b1\<rparr>\<rparr> 0x33 =
     \<lparr>nvme_state = \<lparr>ck_hi = 0x64278334, ck_lo = 0x3634d71f\<rparr>\<rparr>"
  "cksum89_crc64_nvme_byte \<lparr>nvme_state = \<lparr>ck_hi = 0x64278334, ck_lo = 0x3634d71f\<rparr>\<rparr> 0x34 =
     \<lparr>nvme_state = \<lparr>ck_hi = 0xd60a2418, ck_lo = 0x1d008e2b\<rparr>\<rparr>"
  "cksum89_crc64_nvme_byte \<lparr>nvme_state = \<lparr>ck_hi = 0xd60a2418, ck_lo = 0x1d008e2b\<rparr>\<rparr> 0x35 =
     \<lparr>nvme_state = \<lparr>ck_hi = 0xe9951d48, ck_lo = 0x009d3507\<rparr>\<rparr>"
  "cksum89_crc64_nvme_byte \<lparr>nvme_state = \<lparr>ck_hi = 0xe9951d48, ck_lo = 0x009d3507\<rparr>\<rparr> 0x36 =
     \<lparr>nvme_state = \<lparr>ck_hi = 0xf6a66499, ck_lo = 0xe1f7a4cf\<rparr>\<rparr>"
  "cksum89_crc64_nvme_byte \<lparr>nvme_state = \<lparr>ck_hi = 0xf6a66499, ck_lo = 0xe1f7a4cf\<rparr>\<rparr> 0x37 =
     \<lparr>nvme_state = \<lparr>ck_hi = 0x62fd0208, ck_lo = 0xbe125d88\<rparr>\<rparr>"
  "cksum89_crc64_nvme_byte \<lparr>nvme_state = \<lparr>ck_hi = 0x62fd0208, ck_lo = 0xbe125d88\<rparr>\<rparr> 0x38 =
     \<lparr>nvme_state = \<lparr>ck_hi = 0x132f6f67, ck_lo = 0x3d376b6b\<rparr>\<rparr>"
  "cksum89_crc64_nvme_byte \<lparr>nvme_state = \<lparr>ck_hi = 0x132f6f67, ck_lo = 0x3d376b6b\<rparr>\<rparr> 0x39 =
     \<lparr>nvme_state = \<lparr>ck_hi = 0x5174eb79, ck_lo = 0xf5866777\<rparr>\<rparr>"
  by (simp_all add: cksum89_crc64_nvme_byte_def cksum89_crc64_shift8_def cksum89_crc64_xor_def cksum89_crc64_nvme_table_def)

theorem crc32_iso_hdlc_correct_witness:
  "cksum89_crc32_iso_hdlc check_input 9 = 0xcbf43926
   \<and> cksum89_crc32_iso_hdlc check_input 9 = ucast (rocksoft (0x04c11db7 :: u32) (take 9 check_input))"
  using crc32_iso_hdlc_correct [of 9 check_input]
  by (simp add: check_input_def cksum89_crc32_iso_hdlc_def cksum89_crc32_iso_hdlc_update_def bytes_loop_def upt_rec
      cksum89_crc32_iso_hdlc_init_def cksum89_crc32_iso_hdlc_byte_def hdlc_check_steps cksum89_crc32_iso_hdlc_final_def)

theorem crc32c_correct_witness:
  "cksum89_crc32c check_input 9 = 0xe3069283
   \<and> cksum89_crc32c check_input 9 = ucast (rocksoft (0x1edc6f41 :: u32) (take 9 check_input))"
  using crc32c_correct [of 9 check_input]
  by (simp add: check_input_def cksum89_crc32c_def cksum89_crc32c_update_def bytes_loop_def upt_rec
      cksum89_crc32c_init_def cksum89_crc32c_byte_def crc32c_check_steps cksum89_crc32c_final_def)

theorem crc64_nvme_correct_witness:
  "cksum89_crc64_nvme check_input 9 = \<lparr>ck_hi = 0xae8b1486, ck_lo = 0x0a799888\<rparr>
   \<and> cksum89_crc64_nvme check_input 9 = limbs (rocksoft (0xad93d23594c93659 :: u64) (take 9 check_input))"
  using crc64_nvme_correct [of 9 check_input]
  by (simp add: check_input_def cksum89_crc64_nvme_def cksum89_crc64_nvme_update_def bytes_loop_def upt_rec
      cksum89_crc64_nvme_init_def nvme_check_steps cksum89_crc64_nvme_final_def)

theorem streaming_invariant_witness:
  "cksum89_inet16_final (fold (\<lambda>x c. cksum89_inet16_update c x (of_nat (length x))) [[1], [2, 3, 4]] cksum89_inet16_init)
     = cksum89_inet16 [1, 2, 3, 4] 4"
  using streaming_invariant [of "[[1], [2, 3, 4]]"] by (simp add: short_def)

end
