(* ===== verification/Utf8.thy ===== *)
theory Utf8
  imports Prelude
begin

unbundle bit_operations_syntax

text \<open>
  The scalar core of \<open>libu89\<close> (\<open>libu89/src/u89_utf8.c\<close>): scalar values, UTF-8 decoding, the
  backward scan, validation, encoding, iteration and surrogate pairs.

  A pointer to bytes with its length is the list of these bytes. Positions are natural numbers:
  they index one object, and no sum the code forms of them leaves it. A function that returns 0 or
  the error marker without writing its outputs yields \<open>None\<close>.
\<close>

type_synonym u89_cp = "32 word"

datatype u89_status = U89_OK | U89_EINVAL | U89_EUTF8 | U89_ENOSPC | U89_EWORK | U89_EOVERFLOW | U89_ERANGE

section \<open>Scalar values\<close>

definition between :: "u89_cp \<Rightarrow> u89_cp \<Rightarrow> u89_cp \<Rightarrow> bool" where
  "between cp lo hi = (if cp < lo then False else if hi < cp then False else True)"

definition u89_is_scalar :: "u89_cp \<Rightarrow> bool" where
  "u89_is_scalar cp =
     (if between cp 0x0000 0xD7FF then True else if between cp 0xE000 0x10FFFF then True else False)"

section \<open>Decoding\<close>

text \<open>\<open>(c & 0xC0) != 0x80\<close>: not a continuation byte.\<close>

definition not_continuation :: "u8 \<Rightarrow> bool" where
  "not_continuation c \<longleftrightarrow> c AND 0xC0 \<noteq> 0x80"

definition decode_two :: "bytes \<Rightarrow> (nat \<times> u89_cp) option" where
  "decode_two s =
     (if length s < 2 then None
      else let c1 = s ! 1; b = s ! 0 in
        if not_continuation c1 then None
        else Some (2, push_bit 6 (ucast b AND 0x1F) OR (ucast c1 AND 0x3F)))"

definition decode_three :: "bytes \<Rightarrow> (nat \<times> u89_cp) option" where
  "decode_three s =
     (if length s < 3 then None
      else let c1 = s ! 1; b = s ! 0 in
        if b = 0xE0 \<and> c1 < 0xA0 then None
        else if b = 0xED \<and> 0x9F < c1 then None
        else if not_continuation c1 then None
        else let c2 = s ! 2 in
          if not_continuation c2 then None
          else Some (3, push_bit 12 (ucast b AND 0x0F) OR push_bit 6 (ucast c1 AND 0x3F) OR (ucast c2 AND 0x3F)))"

definition decode_four :: "bytes \<Rightarrow> (nat \<times> u89_cp) option" where
  "decode_four s =
     (if length s < 4 then None
      else let c1 = s ! 1; b = s ! 0 in
        if b = 0xF0 \<and> c1 < 0x90 then None
        else if b = 0xF4 \<and> 0x8F < c1 then None
        else if not_continuation c1 then None
        else let c2 = s ! 2 in
          if not_continuation c2 then None
          else let c3 = s ! 3 in
            if not_continuation c3 then None
            else Some (4, push_bit 18 (ucast b AND 0x07) OR push_bit 12 (ucast c1 AND 0x3F)
                          OR push_bit 6 (ucast c2 AND 0x3F) OR (ucast c3 AND 0x3F)))"

definition decode_one :: "bytes \<Rightarrow> (nat \<times> u89_cp) option" where
  "decode_one s =
     (if s = [] then None
      else let b = s ! 0 in
        if b < 0x80 then Some (1, ucast b)
        else if between (ucast b) 0xC2 0xDF then decode_two s
        else if between (ucast b) 0xE0 0xEF then decode_three s
        else if between (ucast b) 0xF0 0xF4 then decode_four s
        else None)"

text \<open>The status, the scalar and the position after it.\<close>

definition u89_utf8_decode :: "bytes \<Rightarrow> nat \<Rightarrow> u89_status \<times> (u89_cp \<times> nat) option" where
  "u89_utf8_decode s pos =
     (if length s \<le> pos then (U89_ERANGE, None)
      else case decode_one (drop pos s) of
        None \<Rightarrow> (U89_EUTF8, None)
      | Some (d, cp) \<Rightarrow> (U89_OK, Some (cp, pos + d)))"

section \<open>The backward scan\<close>

definition prev_floor :: "nat \<Rightarrow> nat" where
  "prev_floor pos = (if 4 < pos then pos - 4 else 0)"

definition prev_step :: "bytes \<Rightarrow> nat \<Rightarrow> nat \<Rightarrow> bool" where
  "prev_step s i flr = (if i \<le> flr then False else if not_continuation (s ! i) then False else True)"

fun prev_scan :: "bytes \<Rightarrow> nat \<Rightarrow> nat \<Rightarrow> nat" where
  "prev_scan s flr 0 = 0"
| "prev_scan s flr (Suc i) = (if prev_step s (Suc i) flr then prev_scan s flr i else Suc i)"

text \<open>The bytes from the lead found by the scan up to the position must be exactly one scalar.\<close>

definition prev_lead :: "bytes \<Rightarrow> nat \<Rightarrow> (nat \<times> u89_cp) option" where
  "prev_lead s pos =
     (let i = prev_scan s (prev_floor pos) (pos - 1) in
      case decode_one (take (pos - i) (drop i s)) of
        None \<Rightarrow> None
      | Some (d, cp) \<Rightarrow> if i + d \<noteq> pos then None else Some (i, cp))"

definition u89_utf8_prev :: "bytes \<Rightarrow> nat \<Rightarrow> u89_status \<times> (u89_cp \<times> nat) option" where
  "u89_utf8_prev s pos =
     (if pos = 0 then (U89_ERANGE, None)
      else if length s < pos then (U89_ERANGE, None)
      else case prev_lead s pos of
        None \<Rightarrow> (U89_EUTF8, None)
      | Some (lead, cp) \<Rightarrow> (U89_OK, Some (cp, lead)))"

section \<open>Validation\<close>

definition decode_adv :: "bytes \<Rightarrow> nat \<Rightarrow> nat option" where
  "decode_adv s i = (case decode_one (drop i s) of None \<Rightarrow> None | Some (d, cp) \<Rightarrow> Some (i + d))"

lemma decode_one_pos: "decode_one s = Some (d, cp) \<Longrightarrow> 0 < d"
  by (auto simp: decode_one_def decode_two_def decode_three_def decode_four_def Let_def split: if_splits)

function valid_from :: "bytes \<Rightarrow> nat \<Rightarrow> bool" where
  "valid_from s i =
     (if i < length s then (case decode_adv s i of None \<Rightarrow> False | Some j \<Rightarrow> valid_from s j) else True)"
  by pat_completeness auto
termination
  by (relation "measure (\<lambda>(s, i). length s - i)")
     (auto simp: decode_adv_def split: option.splits dest: decode_one_pos)

declare valid_from.simps [simp del]

definition u89_utf8_valid :: "bytes \<Rightarrow> bool" where
  "u89_utf8_valid s = valid_from s 0"

section \<open>Lengths and encoding\<close>

definition u89_utf8_seq_len :: "u8 \<Rightarrow> nat" where
  "u89_utf8_seq_len lead =
     (if lead < 0x80 then 1
      else if between (ucast lead) 0xC2 0xDF then 2
      else if between (ucast lead) 0xE0 0xEF then 3
      else if between (ucast lead) 0xF0 0xF4 then 4
      else 0)"

definition u89_utf8_len :: "u89_cp \<Rightarrow> nat" where
  "u89_utf8_len cp =
     (if \<not> u89_is_scalar cp then 0
      else if cp < 0x80 then 1
      else if cp < 0x800 then 2
      else if cp < 0x10000 then 3
      else 4)"

definition put_byte :: "32 word \<Rightarrow> u8" where
  "put_byte v = ucast v"

definition encode_one :: "u89_cp \<Rightarrow> bytes" where
  "encode_one cp = [put_byte cp]"

definition encode_two :: "u89_cp \<Rightarrow> bytes" where
  "encode_two cp = [put_byte (0xC0 OR drop_bit 6 cp), put_byte (0x80 OR (cp AND 0x3F))]"

definition encode_three :: "u89_cp \<Rightarrow> bytes" where
  "encode_three cp =
     [put_byte (0xE0 OR drop_bit 12 cp), put_byte (0x80 OR (drop_bit 6 cp AND 0x3F)),
      put_byte (0x80 OR (cp AND 0x3F))]"

definition encode_four :: "u89_cp \<Rightarrow> bytes" where
  "encode_four cp =
     [put_byte (0xF0 OR drop_bit 18 cp), put_byte (0x80 OR (drop_bit 12 cp AND 0x3F)),
      put_byte (0x80 OR (drop_bit 6 cp AND 0x3F)), put_byte (0x80 OR (cp AND 0x3F))]"

text \<open>The bytes written; their number is the return value.\<close>

definition u89_utf8_encode :: "u89_cp \<Rightarrow> bytes" where
  "u89_utf8_encode cp =
     (if \<not> u89_is_scalar cp then []
      else if cp < 0x80 then encode_one cp
      else if cp < 0x800 then encode_two cp
      else if cp < 0x10000 then encode_three cp
      else encode_four cp)"

section \<open>Iteration\<close>

text \<open>The pointers of the iterator are positions in the byte sequence it was set up on.\<close>

record u89_iter =
  it_cur :: nat
  it_end :: nat
  it_cp :: u89_cp
  it_err :: int
  it_leading :: nat

definition u89_iter_init :: "bytes \<Rightarrow> u89_iter" where
  "u89_iter_init s = \<lparr>it_cur = 0, it_end = length s, it_cp = 0, it_err = 0, it_leading = 0\<rparr>"

definition u89_iter_next :: "bytes \<Rightarrow> u89_iter \<Rightarrow> u89_iter \<times> int" where
  "u89_iter_next s it =
     (if it_err it \<noteq> 0 then (it, 1)
      else if it_end it \<le> it_cur it then (it\<lparr>it_err := 2\<rparr>, 1)
      else case decode_one (take (it_end it - it_cur it) (drop (it_cur it) s)) of
        None \<Rightarrow> (it\<lparr>it_err := 1\<rparr>, 1)
      | Some (d, cp) \<Rightarrow> (it\<lparr>it_cp := cp, it_leading := d, it_cur := it_cur it + d\<rparr>, 0))"

section \<open>UTF-16 surrogates and white space\<close>

definition u89_utf16_units :: "u89_cp \<Rightarrow> int" where
  "u89_utf16_units cp = (if \<not> u89_is_scalar cp then 0 else if cp < 0x10000 then 1 else 2)"

definition u89_utf16_is_high_surrogate :: "32 word \<Rightarrow> bool" where
  "u89_utf16_is_high_surrogate unit = between unit 0xD800 0xDBFF"

definition u89_utf16_is_low_surrogate :: "32 word \<Rightarrow> bool" where
  "u89_utf16_is_low_surrogate unit = between unit 0xDC00 0xDFFF"

definition u89_utf16_decode_pair :: "32 word \<Rightarrow> 32 word \<Rightarrow> u89_cp option" where
  "u89_utf16_decode_pair high low =
     (if \<not> u89_utf16_is_high_surrogate high then None
      else if \<not> u89_utf16_is_low_surrogate low then None
      else let v = push_bit 10 (high - 0xD800) + (low - 0xDC00) in Some (v + 0x10000))"

definition ws_range :: "u89_cp \<Rightarrow> bool" where
  "ws_range cp = (if between cp 0x09 0x0D then True else if between cp 0x2000 0x200A then True else False)"

definition u89_is_whitespace :: "u89_cp \<Rightarrow> bool" where
  "u89_is_whitespace cp =
     (if ws_range cp then True
      else if cp = 0x20 then True
      else if cp = 0x85 then True
      else if cp = 0xA0 then True
      else if cp = 0x1680 then True
      else if cp = 0x2028 then True
      else if cp = 0x2029 then True
      else if cp = 0x202F then True
      else if cp = 0x205F then True
      else if cp = 0x3000 then True
      else False)"

end
