(* ===== verification/Utf8_Correct.thy ===== *)
theory Utf8_Correct
  imports Utf8
begin

text \<open>
  What the UTF-8 functions compute: decoding and encoding are inverse to one another, a byte
  sequence validates exactly when it is the concatenation of the encodings of scalar values, and
  the backward scan finds the scalar that ends at a position. The first part turns the mask and
  shift operations of the code into base-64 digits of numbers.
\<close>

section \<open>Bytes and digits\<close>

lemma or_add: "a AND mask k = 0 \<Longrightarrow> unat x < 2 ^ k \<Longrightarrow> a OR x = a + x" for a x :: "'a::len word"
proof -
  assume a: "a AND mask k = 0" and x: "unat x < 2 ^ k"
  have "\<not> (bit a n \<and> bit x n)" for n
  proof (cases "n < k")
    case True
    have "n < LENGTH('a) \<Longrightarrow> \<not> bit a n"
      using True arg_cong [OF a, of "\<lambda>w. bit w n"] by (simp add: bit_simps)
    then show ?thesis by (auto dest: bit_imp_le_length)
  next
    case False
    have "unat x < 2 ^ n" using x False by (meson less_le_trans linorder_not_less one_le_numeral power_increasing)
    then have "\<not> bit (unat x) n" by (simp add: bit_iff_odd)
    then have "\<not> bit x n" by (simp add: bit_unsigned_iff)
    then show ?thesis by simp
  qed
  then show ?thesis by (intro disjunctive_add [symmetric]) auto
qed

lemma unat_and_mask: "unat (x AND mask k) = unat x mod 2 ^ k" for x :: "'a::len word"
  unfolding take_bit_eq_mask [symmetric] unsigned_take_bit_eq by (simp add: take_bit_eq_mod)

lemma masks:
  "(0x07 :: 'a::len word) = mask 3" "(0x0F :: 'a::len word) = mask 4" "(0x1F :: 'a::len word) = mask 5"
  "(0x3F :: 'a::len word) = mask 6"
  by (simp_all add: mask_eq_exp_minus_1)

lemma unat_byte [simp]: "unat (ucast (b :: u8) :: u89_cp) = unat b"
  using unsigned_less [where ?'a = nat, of b] by (simp add: unsigned_ucast_eq take_bit_nat_eq_self)

lemma unat_low:
  "unat ((ucast b :: u89_cp) AND 0x1F) = unat (b :: u8) mod 32"
  "unat ((ucast b :: u89_cp) AND 0x0F) = unat b mod 16"
  "unat ((ucast b :: u89_cp) AND 0x07) = unat b mod 8"
  "unat ((ucast b :: u89_cp) AND 0x3F) = unat b mod 64"
  "unat (x AND 0x3F) = unat (x :: u89_cp) mod 64"
  unfolding masks unat_and_mask by simp_all

lemma unat_or_add:
  assumes "unat a mod 2 ^ k = 0" and "unat x < 2 ^ k" and "unat a + unat x < 2 ^ LENGTH('a)"
  shows "unat (a OR x :: 'a::len word) = unat a + unat x"
proof -
  have "a AND mask k = 0" using assms(1) unat_and_mask [of a k] by (simp add: word_unat_eq_iff)
  from or_add [OF this assms(2)] show ?thesis using unat_add_no_wrap [OF assms(3)] by simp
qed

lemma unat_push:
  "unat x * 2 ^ k < 2 ^ 32 \<Longrightarrow> unat (push_bit k x :: u89_cp) = unat x * 2 ^ k"
  unfolding unsigned_push_bit_eq by (simp add: push_bit_eq_mult take_bit_nat_eq_self)

lemma push_or:
  assumes "unat x * 2 ^ k + unat y < 2 ^ 32" and "unat y < 2 ^ k"
  shows "unat (push_bit k x OR y :: u89_cp) = unat x * 2 ^ k + unat y"
proof -
  have "unat (push_bit k x) = unat x * 2 ^ k" using assms(1) by (intro unat_push) simp
  then show ?thesis using assms unat_or_add [of "push_bit k x" k y] by simp
qed

lemma unat_drop: "unat (drop_bit k (x :: u89_cp)) = unat x div 2 ^ k"
  unfolding unsigned_drop_bit_eq using unsigned_less [where ?'a = nat, of x]
  by (simp add: drop_bit_eq_div take_bit_nat_eq_self)

text \<open>The bytes an encoder writes, as numbers.\<close>

lemma unat_put: "unat (put_byte v) = unat v mod 256"
  by (simp add: put_byte_def unsigned_ucast_eq take_bit_eq_mod)

lemma unat_leads:
  "unat x < 32 \<Longrightarrow> unat (put_byte (0xC0 OR x)) = 192 + unat x"
  "unat x < 16 \<Longrightarrow> unat (put_byte (0xE0 OR x)) = 224 + unat x"
  "unat x < 8 \<Longrightarrow> unat (put_byte (0xF0 OR x)) = 240 + unat x"
  "unat x < 64 \<Longrightarrow> unat (put_byte (0x80 OR x)) = 128 + unat x"
  using unat_or_add [of "0xC0 :: u89_cp" 5 x] unat_or_add [of "0xE0 :: u89_cp" 4 x]
    unat_or_add [of "0xF0 :: u89_cp" 3 x] unat_or_add [of "0x80 :: u89_cp" 6 x]
  by (simp_all add: unat_put)

lemma unat_cont_byte: "unat (put_byte (0x80 OR (x AND 0x3F))) = 128 + unat x mod 64"
  using unat_leads(4) [of "x AND 0x3F"] by (simp add: unat_low)

lemma not_continuation_iff: "not_continuation c \<longleftrightarrow> unat c < 128 \<or> 192 \<le> unat c"
proof -
  have "\<forall>n \<in> set [0..<256]. not_continuation (of_nat n) \<longleftrightarrow> n < 128 \<or> 192 \<le> n"
    by code_simp
  moreover have "unat c \<in> set [0..<256]" using unsigned_less [where ?'a = nat, of c] by simp
  ultimately show ?thesis by (metis of_nat_unat ucast_id)
qed

lemma between_iff: "between cp lo hi \<longleftrightarrow> lo \<le> cp \<and> cp \<le> hi"
  by (auto simp: between_def not_less)

lemma scalar_iff: "u89_is_scalar cp \<longleftrightarrow> unat cp < 0xD800 \<or> 0xE000 \<le> unat cp \<and> unat cp < 0x110000"
  by (auto simp: u89_is_scalar_def between_iff word_le_nat_alt)

section \<open>Decoding and encoding in digits\<close>

definition cont :: "u8 \<Rightarrow> bool" where
  "cont c \<longleftrightarrow> 128 \<le> unat c \<and> unat c < 192"

lemma not_continuation_cont: "not_continuation c \<longleftrightarrow> \<not> cont c"
  by (auto simp: not_continuation_iff cont_def)

lemma length_2: "\<not> length s < 2 \<longleftrightarrow> (\<exists>a b r. s = a # b # r)"
  by (cases s; cases "tl s") auto

lemma length_3: "\<not> length s < 3 \<longleftrightarrow> (\<exists>a b c r. s = a # b # c # r)"
  by (cases s; cases "tl s"; cases "tl (tl s)") auto

lemma length_4: "\<not> length s < 4 \<longleftrightarrow> (\<exists>a b c d r. s = a # b # c # d # r)"
  by (cases s; cases "tl s"; cases "tl (tl s)"; cases "tl (tl (tl s))") auto

lemma digits_lt: "(n :: nat) mod 64 < 64" "n mod 32 < 32" "n mod 16 < 16" "n mod 8 < 8"
  by simp_all

text \<open>The scalar the code puts together from the bytes.\<close>

definition scalar_two :: "u8 \<Rightarrow> u8 \<Rightarrow> u89_cp" where
  "scalar_two b c1 = push_bit 6 (ucast b AND 0x1F) OR (ucast c1 AND 0x3F)"

definition scalar_three :: "u8 \<Rightarrow> u8 \<Rightarrow> u8 \<Rightarrow> u89_cp" where
  "scalar_three b c1 c2 = push_bit 12 (ucast b AND 0x0F) OR push_bit 6 (ucast c1 AND 0x3F) OR (ucast c2 AND 0x3F)"

definition scalar_four :: "u8 \<Rightarrow> u8 \<Rightarrow> u8 \<Rightarrow> u8 \<Rightarrow> u89_cp" where
  "scalar_four b c1 c2 c3 = push_bit 18 (ucast b AND 0x07) OR push_bit 12 (ucast c1 AND 0x3F)
     OR push_bit 6 (ucast c2 AND 0x3F) OR (ucast c3 AND 0x3F)"

lemma unat_scalars:
  "unat (scalar_two b c1) = unat b mod 32 * 64 + unat c1 mod 64"
  "unat (scalar_three b c1 c2) = unat b mod 16 * 4096 + unat c1 mod 64 * 64 + unat c2 mod 64"
  "unat (scalar_four b c1 c2 c3) = unat b mod 8 * 262144 + unat c1 mod 64 * 4096 + unat c2 mod 64 * 64 + unat c3 mod 64"
proof -
  let ?d = "\<lambda>c :: u8. ucast c AND 0x3F :: u89_cp"
  have d: "unat (?d c) = unat c mod 64" "unat c mod 64 < 64" for c by (simp_all add: unat_low)
  have two: "unat (push_bit 6 (?d x) OR ?d y) = unat x mod 64 * 64 + unat y mod 64" for x y
    using push_or [of "?d x" 6 "?d y"] d [of x] d [of y] by simp
  have three: "unat (push_bit 12 (?d x) OR (push_bit 6 (?d y) OR ?d z))
      = unat x mod 64 * 4096 + unat y mod 64 * 64 + unat z mod 64" for x y z
    using push_or [of "?d x" 12 "push_bit 6 (?d y) OR ?d z"] two [of y z] d(1) [of x] d(2) [of x] d(2) [of y] d(2) [of z] by simp
  show "unat (scalar_two b c1) = unat b mod 32 * 64 + unat c1 mod 64"
    unfolding scalar_two_def
    using push_or [of "ucast b AND 0x1F" 6 "?d c1"] d [of c1] unat_low(1) [of b] digits_lt(2) [of "unat b"] by simp
  show "unat (scalar_three b c1 c2) = unat b mod 16 * 4096 + unat c1 mod 64 * 64 + unat c2 mod 64"
    unfolding scalar_three_def or.assoc
    using push_or [of "ucast b AND 0x0F" 12 "push_bit 6 (?d c1) OR ?d c2"] two [of c1 c2] d(2) [of c1] d(2) [of c2]
      unat_low(2) [of b] digits_lt(3) [of "unat b"] by simp
  show "unat (scalar_four b c1 c2 c3) = unat b mod 8 * 262144 + unat c1 mod 64 * 4096 + unat c2 mod 64 * 64 + unat c3 mod 64"
    unfolding scalar_four_def or.assoc
    using push_or [of "ucast b AND 0x07" 18 "push_bit 12 (?d c1) OR (push_bit 6 (?d c2) OR ?d c3)"] three [of c1 c2 c3]
      d(2) [of c1] d(2) [of c2] d(2) [of c3] unat_low(3) [of b] digits_lt(4) [of "unat b"] by simp
qed

lemma decode_two_Cons:
  "decode_two (b # c1 # r) = (if cont c1 then Some (2, scalar_two b c1) else None)"
  by (simp add: decode_two_def scalar_two_def not_continuation_cont)

lemma decode_three_Cons:
  "decode_three (b # c1 # c2 # r) =
     (if (unat b = 0xE0 \<longrightarrow> 0xA0 \<le> unat c1) \<and> (unat b = 0xED \<longrightarrow> unat c1 < 0xA0) \<and> cont c1 \<and> cont c2
      then Some (3, scalar_three b c1 c2) else None)"
proof -
  have "b = 0xE0 \<longleftrightarrow> unat b = 0xE0" "b = 0xED \<longleftrightarrow> unat b = 0xED" by (simp_all add: word_unat_eq_iff)
  then show ?thesis
    unfolding decode_three_def scalar_three_def [symmetric] Let_def
    by (auto simp: not_continuation_cont word_less_nat_alt simp flip: scalar_three_def)
qed

lemma decode_four_Cons:
  "decode_four (b # c1 # c2 # c3 # r) =
     (if (unat b = 0xF0 \<longrightarrow> 0x90 \<le> unat c1) \<and> (unat b = 0xF4 \<longrightarrow> unat c1 < 0x90) \<and> cont c1 \<and> cont c2 \<and> cont c3
      then Some (4, scalar_four b c1 c2 c3) else None)"
proof -
  have "b = 0xF0 \<longleftrightarrow> unat b = 0xF0" "b = 0xF4 \<longleftrightarrow> unat b = 0xF4" by (simp_all add: word_unat_eq_iff)
  then show ?thesis
    unfolding decode_four_def scalar_four_def [symmetric] Let_def
    by (auto simp: not_continuation_cont word_less_nat_alt simp flip: scalar_four_def)
qed

lemma decode_SomeE:
  "decode_two s = Some (d, cp) \<Longrightarrow> \<exists>b c1 r. s = b # c1 # r \<and> cont c1 \<and> d = 2 \<and> cp = scalar_two b c1"
  "decode_three s = Some (d, cp) \<Longrightarrow> \<exists>b c1 c2 r. s = b # c1 # c2 # r \<and> cont c1 \<and> cont c2
     \<and> (unat b = 0xE0 \<longrightarrow> 0xA0 \<le> unat c1) \<and> (unat b = 0xED \<longrightarrow> unat c1 < 0xA0) \<and> d = 3 \<and> cp = scalar_three b c1 c2"
  "decode_four s = Some (d, cp) \<Longrightarrow> \<exists>b c1 c2 c3 r. s = b # c1 # c2 # c3 # r \<and> cont c1 \<and> cont c2 \<and> cont c3
     \<and> (unat b = 0xF0 \<longrightarrow> 0x90 \<le> unat c1) \<and> (unat b = 0xF4 \<longrightarrow> unat c1 < 0x90) \<and> d = 4 \<and> cp = scalar_four b c1 c2 c3"
proof -
  assume a: "decode_two s = Some (d, cp)"
  then have "\<not> length s < 2" unfolding decode_two_def by (metis option.distinct(1))
  then obtain b c1 r where "s = b # c1 # r" unfolding length_2 by blast
  with a show "\<exists>b c1 r. s = b # c1 # r \<and> cont c1 \<and> d = 2 \<and> cp = scalar_two b c1"
    by (simp add: decode_two_Cons split: if_splits)
next
  assume a: "decode_three s = Some (d, cp)"
  then have "\<not> length s < 3" unfolding decode_three_def by (metis option.distinct(1))
  then obtain b c1 c2 r where "s = b # c1 # c2 # r" unfolding length_3 by blast
  with a show "\<exists>b c1 c2 r. s = b # c1 # c2 # r \<and> cont c1 \<and> cont c2
     \<and> (unat b = 0xE0 \<longrightarrow> 0xA0 \<le> unat c1) \<and> (unat b = 0xED \<longrightarrow> unat c1 < 0xA0) \<and> d = 3 \<and> cp = scalar_three b c1 c2"
    by (simp add: decode_three_Cons split: if_splits)
next
  assume a: "decode_four s = Some (d, cp)"
  then have "\<not> length s < 4" unfolding decode_four_def by (metis option.distinct(1))
  then obtain b c1 c2 c3 r where "s = b # c1 # c2 # c3 # r" unfolding length_4 by blast
  with a show "\<exists>b c1 c2 c3 r. s = b # c1 # c2 # c3 # r \<and> cont c1 \<and> cont c2 \<and> cont c3
     \<and> (unat b = 0xF0 \<longrightarrow> 0x90 \<le> unat c1) \<and> (unat b = 0xF4 \<longrightarrow> unat c1 < 0x90) \<and> d = 4 \<and> cp = scalar_four b c1 c2 c3"
    by (simp add: decode_four_Cons split: if_splits)
qed

lemma digit_mod: "a mod m = 0 \<Longrightarrow> x < m \<Longrightarrow> (a + x) mod m = (x :: nat)"
  by (metis add_0 mod_add_left_eq mod_less)

text \<open>Numbers written with base-64 digits.\<close>

lemma digit: "z < 64 \<Longrightarrow> (k * 64 + z) div 64 = k" "z < 64 \<Longrightarrow> (k * 64 + z) mod 64 = (z :: nat)"
  by simp_all

lemma digits_3:
  assumes "y < 64" and "z < (64 :: nat)"
  shows "(x * 4096 + y * 64 + z) div 4096 = x" "(x * 4096 + y * 64 + z) div 64 mod 64 = y" "(x * 4096 + y * 64 + z) mod 64 = z"
proof -
  have n: "x * 4096 + y * 64 + z = (x * 64 + y) * 64 + z" by simp
  have q: "(x * 4096 + y * 64 + z) div 64 = x * 64 + y" "(x * 4096 + y * 64 + z) mod 64 = z"
    unfolding n using assms(2) by (rule digit)+
  then have "(x * 4096 + y * 64 + z) div 64 div 64 = x" using assms(1) by (simp only: digit)
  then show "(x * 4096 + y * 64 + z) div 4096 = x" by (simp only: flip: div_mult2_eq) simp
  show "(x * 4096 + y * 64 + z) div 64 mod 64 = y" unfolding q using assms(1) by (rule digit)
  show "(x * 4096 + y * 64 + z) mod 64 = z" by (rule q)
qed

lemma digits_4:
  assumes "y < 64" and "z < 64" and "w < (64 :: nat)"
  shows "(x * 262144 + y * 4096 + z * 64 + w) div 262144 = x" "(x * 262144 + y * 4096 + z * 64 + w) div 4096 mod 64 = y"
    "(x * 262144 + y * 4096 + z * 64 + w) div 64 mod 64 = z" "(x * 262144 + y * 4096 + z * 64 + w) mod 64 = w"
proof -
  let ?n = "x * 262144 + y * 4096 + z * 64 + w"
  have n: "?n = (x * 64 + y) * 4096 + z * 64 + w" by simp
  note d = digits_3 [OF assms(2,3), of "x * 64 + y", folded n]
  show "?n div 64 mod 64 = z" "?n mod 64 = w" by (rule d)+
  show "?n div 4096 mod 64 = y" unfolding d(1) using assms(1) by (rule digit)
  have "?n div 4096 div 64 = x" unfolding d(1) using assms(1) by (rule digit)
  then show "?n div 262144 = x" by (simp only: flip: div_mult2_eq) simp
qed

lemma contE:
  assumes "cont c"
  obtains y where "unat c = 128 + y" "y < 64"
  using assms that [of "unat c - 128"] by (simp add: cont_def less_diff_conv2)

lemma encode_digits:
  "unat cp < 0x80 \<Longrightarrow> map unat (u89_utf8_encode cp) = [unat cp]"
  "0x80 \<le> unat cp \<Longrightarrow> unat cp < 0x800 \<Longrightarrow>
     map unat (u89_utf8_encode cp) = [192 + unat cp div 64, 128 + unat cp mod 64]"
  "0x800 \<le> unat cp \<Longrightarrow> unat cp < 0x10000 \<Longrightarrow> u89_is_scalar cp \<Longrightarrow>
     map unat (u89_utf8_encode cp) = [224 + unat cp div 4096, 128 + unat cp div 64 mod 64, 128 + unat cp mod 64]"
  "0x10000 \<le> unat cp \<Longrightarrow> u89_is_scalar cp \<Longrightarrow>
     map unat (u89_utf8_encode cp) = [240 + unat cp div 262144, 128 + unat cp div 4096 mod 64,
        128 + unat cp div 64 mod 64, 128 + unat cp mod 64]"
  using unat_put [of cp] unat_leads(1) [of "drop_bit 6 cp"] unat_leads(2) [of "drop_bit 12 cp"] unat_leads(3) [of "drop_bit 18 cp"]
  by (simp_all add: u89_utf8_encode_def scalar_iff word_less_nat_alt encode_one_def encode_two_def encode_three_def
      encode_four_def unat_cont_byte unat_drop)

lemma bytes_eqI: "map unat xs = map unat ys \<Longrightarrow> xs = (ys :: bytes)"
  by (rule map_injective) (auto simp: inj_def word_unat_eq_iff)

lemma between_byte:
  "between (ucast b) (of_nat lo) (of_nat hi) \<longleftrightarrow> lo \<le> unat b \<and> unat b \<le> hi" if "hi < 256" "lo < 256" for b :: u8
  using that by (simp add: between_iff word_le_nat_alt unat_of_nat)

text \<open>One decoding step in terms of numbers.\<close>

lemma decode_one_iff_digits:
  "decode_one s = Some (d, cp) \<longleftrightarrow> (\<exists>b r. s = b # r \<and>
     (unat b < 0x80 \<and> d = 1 \<and> cp = ucast b
    \<or> 0xC2 \<le> unat b \<and> unat b \<le> 0xDF \<and> decode_two s = Some (d, cp)
    \<or> 0xE0 \<le> unat b \<and> unat b \<le> 0xEF \<and> decode_three s = Some (d, cp)
    \<or> 0xF0 \<le> unat b \<and> unat b \<le> 0xF4 \<and> decode_four s = Some (d, cp)))"
proof (cases s)
  case (Cons b r)
  have "between (ucast b) 0xC2 0xDF \<longleftrightarrow> 0xC2 \<le> unat b \<and> unat b \<le> 0xDF"
    "between (ucast b) 0xE0 0xEF \<longleftrightarrow> 0xE0 \<le> unat b \<and> unat b \<le> 0xEF"
    "between (ucast b) 0xF0 0xF4 \<longleftrightarrow> 0xF0 \<le> unat b \<and> unat b \<le> 0xF4"
    by (simp_all add: between_iff word_le_nat_alt)
  then show ?thesis by (auto simp: decode_one_def Cons word_less_nat_alt)
qed (simp add: decode_one_def)

text \<open>What a successful step has read is the encoding of the scalar it yields.\<close>

lemma decode_one_sound:
  assumes "decode_one s = Some (d, cp)"
  shows "u89_is_scalar cp \<and> d = length (u89_utf8_encode cp) \<and> (\<exists>r. s = u89_utf8_encode cp @ r)"
proof -
  obtain b r where s: "s = b # r" and alt:
    "unat b < 0x80 \<and> d = 1 \<and> cp = ucast b
    \<or> 0xC2 \<le> unat b \<and> unat b \<le> 0xDF \<and> decode_two s = Some (d, cp)
    \<or> 0xE0 \<le> unat b \<and> unat b \<le> 0xEF \<and> decode_three s = Some (d, cp)
    \<or> 0xF0 \<le> unat b \<and> unat b \<le> 0xF4 \<and> decode_four s = Some (d, cp)"
    using assms decode_one_iff_digits by blast
  have "\<exists>bs r. s = bs @ r \<and> d = length bs \<and> u89_is_scalar cp \<and> map unat (u89_utf8_encode cp) = map unat bs"
    using alt
  proof (elim disjE conjE)
    assume "unat b < 0x80" "d = 1" "cp = ucast b"
    then show ?thesis
      using encode_digits(1) [of cp] by - (rule exI [of _ "[b]"], rule exI [of _ r], simp add: s scalar_iff)
  next
    assume b: "0xC2 \<le> unat b" "unat b \<le> 0xDF" and "decode_two s = Some (d, cp)"
    then obtain c1 r' where r: "r = c1 # r'" "cont c1" "d = 2" "cp = scalar_two b c1"
      using decode_SomeE(1) s by blast
    obtain y where y: "unat c1 = 128 + y" "y < 64" using contE [OF r(2)] .
    have "192 \<le> unat b" using b(1) by simp
    then obtain x where x1: "unat b = 192 + x" using le_Suc_ex by blast
    have x: "unat b = 192 + x" "2 \<le> x" "x < 32" using b unfolding x1 by simp_all
    have "(192 + x) mod 32 = x" "(128 + y) mod 64 = y" using x(3) y(2) by (simp_all add: digit_mod)
    then have v: "unat cp = x * 64 + y" by (simp add: r(4) unat_scalars x(1) y(1))
    then have "0x80 \<le> unat cp" "unat cp < 0x800" and sc: "u89_is_scalar cp"
      using x(2,3) y(2) by (auto simp: scalar_iff)
    moreover have "(x * 64 + y) div 64 = x" "(x * 64 + y) mod 64 = y" using y(2) by auto
    ultimately show ?thesis
      using encode_digits(2) [of cp]
      by - (rule exI [of _ "[b, c1]"], rule exI [of _ r'], simp add: s r(1,3) v x(1) y(1))
  next
    assume b: "0xE0 \<le> unat b" "unat b \<le> 0xEF" and "decode_three s = Some (d, cp)"
    then obtain c1 c2 r' where r: "r = c1 # c2 # r'" "cont c1" "cont c2" "d = 3" "cp = scalar_three b c1 c2"
      and lim: "unat b = 0xE0 \<longrightarrow> 0xA0 \<le> unat c1" "unat b = 0xED \<longrightarrow> unat c1 < 0xA0"
      using decode_SomeE(2) s by blast
    obtain y where y: "unat c1 = 128 + y" "y < 64" using contE [OF r(2)] .
    obtain z where z: "unat c2 = 128 + z" "z < 64" using contE [OF r(3)] .
    obtain x where x1: "unat b = 224 + x" using le_Suc_ex [OF b(1)] by blast
    have x: "unat b = 224 + x" "x < 16" using b unfolding x1 by simp_all
    have "(224 + x) mod 16 = x" "(128 + y) mod 64 = y" "(128 + z) mod 64 = z" using x(2) y(2) z(2) by (simp_all add: digit_mod)
    then have v: "unat cp = x * 4096 + y * 64 + z" by (simp add: r(5) unat_scalars x(1) y(1) z(1))
    have "x = 0 \<Longrightarrow> 32 \<le> y" "x = 13 \<Longrightarrow> y < 32" using lim x y by auto
    then have "0x800 \<le> unat cp" "unat cp < 0x10000" and "unat cp < 0xD800 \<or> 0xE000 \<le> unat cp"
      using v x(2) y(2) z(2) linorder_less_linear [of x 13] by linarith+
    moreover from this have sc: "u89_is_scalar cp" by (auto simp: scalar_iff)
    moreover have "(x * 4096 + y * 64 + z) div 4096 = x" "(x * 4096 + y * 64 + z) div 64 mod 64 = y"
      "(x * 4096 + y * 64 + z) mod 64 = z"
      using y(2) z(2) by (rule digits_3)+
    ultimately show ?thesis
      using encode_digits(3) [of cp] sc
      by - (rule exI [of _ "[b, c1, c2]"], rule exI [of _ r'], simp add: s r(1,4) v x(1) y(1) z(1))
  next
    assume b: "0xF0 \<le> unat b" "unat b \<le> 0xF4" and "decode_four s = Some (d, cp)"
    then obtain c1 c2 c3 r' where r: "r = c1 # c2 # c3 # r'" "cont c1" "cont c2" "cont c3" "d = 4" "cp = scalar_four b c1 c2 c3"
      and lim: "unat b = 0xF0 \<longrightarrow> 0x90 \<le> unat c1" "unat b = 0xF4 \<longrightarrow> unat c1 < 0x90"
      using decode_SomeE(3) s by blast
    obtain y where y: "unat c1 = 128 + y" "y < 64" using contE [OF r(2)] .
    obtain z where z: "unat c2 = 128 + z" "z < 64" using contE [OF r(3)] .
    obtain w where w: "unat c3 = 128 + w" "w < 64" using contE [OF r(4)] .
    obtain x where x1: "unat b = 240 + x" using le_Suc_ex [OF b(1)] by blast
    have x: "unat b = 240 + x" "x \<le> 4" using b unfolding x1 by simp_all
    have "(240 + x) mod 8 = x" "(128 + y) mod 64 = y" "(128 + z) mod 64 = z" "(128 + w) mod 64 = w"
      using x(2) y(2) z(2) w(2) by (simp_all add: digit_mod)
    then have v: "unat cp = x * 262144 + y * 4096 + z * 64 + w" by (simp add: r(6) unat_scalars x(1) y(1) z(1) w(1))
    have "x = 0 \<Longrightarrow> 16 \<le> y" "x = 4 \<Longrightarrow> y < 16" using lim x y by auto
    then have "0x10000 \<le> unat cp" and sc: "u89_is_scalar cp"
      using v x(2) y(2) z(2) w(2) unfolding scalar_iff by linarith+
    moreover have "(x * 262144 + y * 4096 + z * 64 + w) div 262144 = x" "(x * 262144 + y * 4096 + z * 64 + w) div 4096 mod 64 = y"
      "(x * 262144 + y * 4096 + z * 64 + w) div 64 mod 64 = z" "(x * 262144 + y * 4096 + z * 64 + w) mod 64 = w"
      using y(2) z(2) w(2) by (rule digits_4)+
    ultimately show ?thesis
      using encode_digits(4) [of cp] sc
      by - (rule exI [of _ "[b, c1, c2, c3]"], rule exI [of _ r'], simp add: s r(1,5) v x(1) y(1) z(1) w(1))
  qed
  then show ?thesis using bytes_eqI by auto
qed

text \<open>The bytes of an encoding, with their values.\<close>

lemma encode_cases:
  assumes "u89_is_scalar cp"
  obtains (one) b where "u89_utf8_encode cp = [b]" "unat b = unat cp" "unat cp < 0x80"
  | (two) b c1 where "u89_utf8_encode cp = [b, c1]" "unat b = 192 + unat cp div 64" "unat c1 = 128 + unat cp mod 64"
      "0x80 \<le> unat cp" "unat cp < 0x800"
  | (three) b c1 c2 where "u89_utf8_encode cp = [b, c1, c2]" "unat b = 224 + unat cp div 4096"
      "unat c1 = 128 + unat cp div 64 mod 64" "unat c2 = 128 + unat cp mod 64" "0x800 \<le> unat cp" "unat cp < 0x10000"
  | (four) b c1 c2 c3 where "u89_utf8_encode cp = [b, c1, c2, c3]" "unat b = 240 + unat cp div 262144"
      "unat c1 = 128 + unat cp div 4096 mod 64" "unat c2 = 128 + unat cp div 64 mod 64" "unat c3 = 128 + unat cp mod 64"
      "0x10000 \<le> unat cp"
proof -
  consider "unat cp < 0x80" | "0x80 \<le> unat cp" "unat cp < 0x800" | "0x800 \<le> unat cp" "unat cp < 0x10000" | "0x10000 \<le> unat cp"
    by linarith
  then show thesis
  proof cases
    case 1
    from encode_digits(1) [OF this] obtain b where "u89_utf8_encode cp = [b]" "unat b = unat cp"
      by (auto simp: map_eq_Cons_conv)
    with 1 show thesis by (intro one)
  next
    case 2
    from encode_digits(2) [OF this] obtain b c1 where "u89_utf8_encode cp = [b, c1]" "unat b = 192 + unat cp div 64"
      "unat c1 = 128 + unat cp mod 64" by (auto simp: map_eq_Cons_conv)
    with 2 show thesis by (intro two)
  next
    case 3
    from encode_digits(3) [OF this assms] obtain b c1 c2 where "u89_utf8_encode cp = [b, c1, c2]"
      "unat b = 224 + unat cp div 4096" "unat c1 = 128 + unat cp div 64 mod 64" "unat c2 = 128 + unat cp mod 64"
      by (auto simp: map_eq_Cons_conv)
    with 3 show thesis by (intro three)
  next
    case 4
    from encode_digits(4) [OF this assms] obtain b c1 c2 c3 where "u89_utf8_encode cp = [b, c1, c2, c3]"
      "unat b = 240 + unat cp div 262144" "unat c1 = 128 + unat cp div 4096 mod 64" "unat c2 = 128 + unat cp div 64 mod 64"
      "unat c3 = 128 + unat cp mod 64"
      by (auto simp: map_eq_Cons_conv)
    with 4 show thesis by (intro four)
  qed
qed

lemma div_mod_64: "n div 64 * 64 + n mod 64 = (n :: nat)"
  by (rule div_mult_mod_eq)

lemma div_mod_64_3: "n div 4096 * 4096 + n div 64 mod 64 * 64 + n mod 64 = (n :: nat)"
proof -
  have "n div 4096 = n div 64 div 64" by (simp flip: div_mult2_eq)
  with div_mod_64 [of n] div_mod_64 [of "n div 64"] show ?thesis by linarith
qed

lemma div_mod_64_4: "n div 262144 * 262144 + n div 4096 mod 64 * 4096 + n div 64 mod 64 * 64 + n mod 64 = (n :: nat)"
proof -
  have "n div 262144 = n div 4096 div 64" by (simp flip: div_mult2_eq)
  with div_mod_64_3 [of n] div_mod_64 [of "n div 4096"] show ?thesis by linarith
qed

lemma decode_one_complete:
  assumes sc: "u89_is_scalar cp"
  shows "decode_one (u89_utf8_encode cp @ r) = Some (length (u89_utf8_encode cp), cp)"
  using sc
proof (cases rule: encode_cases)
  case (one b)
  then have "cp = ucast b" by (simp add: word_unat_eq_iff)
  with one show ?thesis by (simp add: decode_one_iff_digits)
next
  case (two b c1)
  have q: "unat cp div 64 < 32" "2 \<le> unat cp div 64" using two(4,5) by linarith+
  then have "(192 + unat cp div 64) mod 32 = unat cp div 64" by (intro digit_mod) simp_all
  then have "scalar_two b c1 = cp"
    using digit_mod [of 128 64 "unat cp mod 64"]
    by (simp add: word_unat_eq_iff unat_scalars two(2,3))
  moreover have "cont c1" by (simp add: cont_def two(3))
  ultimately show ?thesis
    using q two(2) unfolding decode_one_iff_digits two(1) by (simp add: decode_two_Cons)
next
  case (three b c1 c2)
  have q: "unat cp div 4096 < 16" using three(6) by linarith
  then have "(224 + unat cp div 4096) mod 16 = unat cp div 4096" by (intro digit_mod) simp_all
  then have "scalar_three b c1 c2 = cp"
    using digit_mod [of 128 64 "unat cp mod 64"] digit_mod [of 128 64 "unat cp div 64 mod 64"] div_mod_64_3 [of "unat cp"]
    by (simp add: word_unat_eq_iff unat_scalars three(2,3,4))
  moreover have "cont c1" "cont c2" by (simp_all add: cont_def three(3,4))
  moreover have "unat b = 0xE0 \<longrightarrow> 0xA0 \<le> unat c1" "unat b = 0xED \<longrightarrow> unat c1 < 0xA0"
    using three sc div_mod_64_3 [of "unat cp"] by (auto simp: scalar_iff)
  ultimately show ?thesis
    using q three(2) unfolding decode_one_iff_digits three(1) by (simp add: decode_three_Cons)
next
  case (four b c1 c2 c3)
  have n: "unat cp < 0x110000" using sc by (auto simp: scalar_iff)
  have q: "unat cp div 262144 \<le> 4" using n by linarith
  then have "(240 + unat cp div 262144) mod 8 = unat cp div 262144" by (intro digit_mod) simp_all
  then have "scalar_four b c1 c2 c3 = cp"
    using digit_mod [of 128 64 "unat cp mod 64"] digit_mod [of 128 64 "unat cp div 64 mod 64"]
      digit_mod [of 128 64 "unat cp div 4096 mod 64"] div_mod_64_4 [of "unat cp"]
    by (simp add: word_unat_eq_iff unat_scalars four(2,3,4,5))
  moreover have "cont c1" "cont c2" "cont c3" by (simp_all add: cont_def four(3,4,5))
  moreover have "unat b = 0xF0 \<longrightarrow> 0x90 \<le> unat c1" "unat b = 0xF4 \<longrightarrow> unat c1 < 0x90"
  proof -
    note lt = digits_lt(1) [of "unat cp div 64"] digits_lt(1) [of "unat cp"] div_mod_64_4 [of "unat cp"]
    have "unat cp div 262144 = 0 \<Longrightarrow> 16 \<le> unat cp div 4096 mod 64" using lt four(6) by linarith
    then show "unat b = 0xF0 \<longrightarrow> 0x90 \<le> unat c1" unfolding four(2,3) by linarith
    have "unat cp div 262144 = 4 \<Longrightarrow> unat cp div 4096 mod 64 < 16" using lt n by linarith
    then show "unat b = 0xF4 \<longrightarrow> unat c1 < 0x90" unfolding four(2,3) by linarith
  qed
  ultimately show ?thesis
    using q four(2) unfolding decode_one_iff_digits four(1) by (simp add: decode_four_Cons)
qed

section \<open>The codec\<close>

lemma decode_one_iff:
  "decode_one s = Some (d, cp) \<longleftrightarrow>
     u89_is_scalar cp \<and> d = length (u89_utf8_encode cp) \<and> (\<exists>r. s = u89_utf8_encode cp @ r)"
  using decode_one_sound decode_one_complete by blast

lemma encode_length: "u89_is_scalar cp \<Longrightarrow> 1 \<le> length (u89_utf8_encode cp) \<and> length (u89_utf8_encode cp) \<le> 4"
  by (erule encode_cases) simp_all

lemma encode_Nil: "u89_utf8_encode cp = [] \<longleftrightarrow> \<not> u89_is_scalar cp"
  using encode_length by (fastforce simp: u89_utf8_encode_def)

text \<open>No encoding is the beginning of another.\<close>

lemma encode_prefix_free:
  assumes "u89_is_scalar a" and "u89_is_scalar b" and "u89_utf8_encode a @ x = u89_utf8_encode b @ y"
  shows "a = b \<and> x = y"
proof -
  have "decode_one (u89_utf8_encode a @ x) = decode_one (u89_utf8_encode b @ y)" using assms(3) by simp
  then have "a = b" using assms(1,2) by (simp add: decode_one_complete)
  with assms(3) show ?thesis by simp
qed

text \<open>C35: Decoding at a position yields a scalar and the position after it exactly when the encoding of that
  scalar stands there; encoding and decoding are inverse to one another, and overlong forms,
  surrogates, values past U+10FFFF and truncated sequences are all refused.\<close>

theorem utf8_codec:
  "u89_utf8_decode s pos = (U89_OK, Some (cp, next)) \<longleftrightarrow>
     u89_is_scalar cp \<and> next = pos + length (u89_utf8_encode cp)
   \<and> (\<exists>r. pos < length s \<and> drop pos s = u89_utf8_encode cp @ r)"
proof -
  have "u89_utf8_decode s pos = (U89_OK, Some (cp, next)) \<longleftrightarrow>
      pos < length s \<and> (\<exists>d. decode_one (drop pos s) = Some (d, cp) \<and> next = pos + d)"
    by (auto simp: u89_utf8_decode_def split: option.split)
  then show ?thesis by (auto simp: decode_one_iff)
qed

section \<open>Text\<close>

definition scalars :: "u89_cp list \<Rightarrow> bool" where
  "scalars cps \<longleftrightarrow> list_all u89_is_scalar cps"

definition utf8 :: "u89_cp list \<Rightarrow> bytes" where
  "utf8 cps = concat (map u89_utf8_encode cps)"

lemma utf8_simps [simp]: "utf8 [] = []" "utf8 (c # cs) = u89_utf8_encode c @ utf8 cs" "utf8 (cs @ ds) = utf8 cs @ utf8 ds"
  by (simp_all add: utf8_def)

lemma scalars_simps [simp]:
  "scalars []" "scalars (c # cs) \<longleftrightarrow> u89_is_scalar c \<and> scalars cs" "scalars (cs @ ds) \<longleftrightarrow> scalars cs \<and> scalars ds"
  by (simp_all add: scalars_def)

lemma utf8_inj:
  "scalars cs \<Longrightarrow> scalars ds \<Longrightarrow> utf8 cs = utf8 ds \<Longrightarrow> cs = ds"
proof (induction cs arbitrary: ds)
  case Nil
  then show ?case by (cases ds) (auto simp: encode_Nil)
next
  case (Cons c cs)
  then obtain d ds' where ds: "ds = d # ds'" by (cases ds) (auto simp: encode_Nil)
  from Cons.prems encode_prefix_free [of c d "utf8 cs" "utf8 ds'"] have "c = d" "utf8 cs = utf8 ds'" unfolding ds by simp_all
  moreover have "scalars cs" "scalars ds'" using Cons.prems unfolding ds by simp_all
  ultimately show ?case using Cons.IH ds by blast
qed

lemma valid_from_iff: "valid_from s i \<longleftrightarrow> (\<exists>cps. scalars cps \<and> drop i s = utf8 cps)"
proof (induction s i rule: valid_from.induct)
  case (1 s i)
  show ?case
  proof (cases "i < length s")
    case False
    then have "drop i s = utf8 []" by simp
    with False show ?thesis by (auto simp: valid_from.simps [of s i] intro!: exI [of _ "[]"])
  next
    case True
    show ?thesis
    proof (cases "decode_one (drop i s)")
      case None
      have "\<not> (\<exists>cps. scalars cps \<and> drop i s = utf8 cps)"
      proof
        assume "\<exists>cps. scalars cps \<and> drop i s = utf8 cps"
        then obtain cps where "scalars cps" "drop i s = utf8 cps" by blast
        with True None show False by (cases cps) (auto simp: decode_one_complete)
      qed
      with True None show ?thesis by (simp add: valid_from.simps [of s i] decode_adv_def)
    next
      case (Some p)
      obtain d cp where p: "p = (d, cp)" by fastforce
      from decode_one_sound [OF Some [unfolded p]] obtain r where r: "u89_is_scalar cp" "d = length (u89_utf8_encode cp)"
        "drop i s = u89_utf8_encode cp @ r" by blast
      have dr: "drop (i + d) s = r" using r by (metis append_eq_conv_conj drop_drop add.commute)
      have "(\<exists>cps. scalars cps \<and> drop i s = utf8 cps) \<longleftrightarrow> (\<exists>cps. scalars cps \<and> r = utf8 cps)"
      proof
        assume "\<exists>cps. scalars cps \<and> drop i s = utf8 cps"
        then obtain cps where cps: "scalars cps" "drop i s = utf8 cps" by blast
        with r obtain c cs where "cps = c # cs" by (cases cps) (auto simp: encode_Nil)
        with cps r encode_prefix_free [of cp c r "utf8 cs"] show "\<exists>cps. scalars cps \<and> r = utf8 cps" by auto
      next
        assume "\<exists>cps. scalars cps \<and> r = utf8 cps"
        then obtain cps where "scalars cps" "r = utf8 cps" by blast
        with r show "\<exists>cps. scalars cps \<and> drop i s = utf8 cps" by (intro exI [of _ "cp # cps"]) simp
      qed
      moreover have "valid_from s i = valid_from s (i + d)"
        using True Some by (simp add: valid_from.simps [of s i] decode_adv_def p)
      moreover have "valid_from s (i + d) \<longleftrightarrow> (\<exists>cps. scalars cps \<and> drop (i + d) s = utf8 cps)"
        using 1 True Some by (simp add: decode_adv_def p)
      ultimately show ?thesis by (simp add: dr)
    qed
  qed
qed

lemma valid_iff: "u89_utf8_valid s \<longleftrightarrow> (\<exists>cps. scalars cps \<and> s = utf8 cps)"
  by (simp add: u89_utf8_valid_def valid_from_iff)

text \<open>C36: The validator accepts exactly the byte sequences that are the concatenated encodings of a list of
  scalar values, and that list is unique.\<close>

theorem utf8_valid_spec:
  "u89_utf8_valid s \<longleftrightarrow> (\<exists>!cps. list_all u89_is_scalar cps \<and> s = concat (map u89_utf8_encode cps))"
  unfolding valid_iff using utf8_inj unfolding scalars_def utf8_def by blast

lemma valid_append: "u89_utf8_valid a \<Longrightarrow> u89_utf8_valid b \<Longrightarrow> u89_utf8_valid (a @ b)"
  unfolding valid_iff by (metis scalars_simps(3) utf8_simps(3))

lemma valid_Nil [simp]: "u89_utf8_valid []"
  unfolding valid_iff by (intro exI [of _ "[]"]) simp

lemma valid_encode: "u89_utf8_valid (u89_utf8_encode cp)"
  unfolding valid_iff by (cases "u89_is_scalar cp") (auto simp: encode_Nil intro: exI [of _ "[cp]"] exI [of _ "[]"])

text \<open>Text cut at one boundary is text on both sides.\<close>

lemma utf8_split:
  "scalars cs \<Longrightarrow> scalars ds \<Longrightarrow> utf8 cs @ r = utf8 ds \<Longrightarrow> \<exists>es. ds = cs @ es \<and> r = utf8 es"
proof (induction cs arbitrary: ds)
  case (Cons c cs)
  then obtain d ds' where ds: "ds = d # ds'" by (cases ds) (auto simp: encode_Nil)
  with Cons.prems encode_prefix_free [of c d "utf8 cs @ r" "utf8 ds'"] have "c = d" "utf8 cs @ r = utf8 ds'" by auto
  with Cons ds show ?case by fastforce
qed simp

lemma valid_rest: "u89_utf8_valid a \<Longrightarrow> u89_utf8_valid (a @ b) \<Longrightarrow> u89_utf8_valid b"
  unfolding valid_iff using utf8_split by (metis scalars_simps(3))

section \<open>Scanning backwards\<close>

lemma encode_shape:
  assumes "u89_is_scalar cp"
  obtains l cs where "u89_utf8_encode cp = l # cs" "\<not> cont l" "list_all cont cs" "length cs < 4"
  using assms
proof (cases rule: encode_cases)
  case (one b)
  then show thesis by (intro that [of b "[]"]) (simp_all add: cont_def)
next
  case (two b c1)
  then show thesis by (intro that [of b "[c1]"]) (simp_all add: cont_def)
next
  case (three b c1 c2)
  then show thesis by (intro that [of b "[c1, c2]"]) (simp_all add: cont_def)
next
  case (four b c1 c2 c3)
  then show thesis by (intro that [of b "[c1, c2, c3]"]) (simp_all add: cont_def)
qed

lemma prev_scan_to:
  assumes "flr \<le> l" and "\<not> cont (s ! l)" and "l \<le> i" and "\<And>j. l < j \<Longrightarrow> j \<le> i \<Longrightarrow> cont (s ! j)"
  shows "prev_scan s flr i = l"
  using assms(3,4)
proof (induction i)
  case (Suc i)
  show ?case
  proof (cases "l = Suc i")
    case True
    with assms(1,2) show ?thesis by (simp add: prev_step_def not_continuation_cont)
  next
    case False
    with Suc.prems(1) have "l \<le> i" by simp
    moreover have "prev_step s (Suc i) flr"
      using assms(1) False Suc.prems by (simp add: prev_step_def not_continuation_cont)
    ultimately show ?thesis using Suc by simp
  qed
qed simp

text \<open>From any position inside or at the end of a scalar the scan comes back to its first byte.\<close>

lemma prev_scan_scalar:
  assumes "u89_is_scalar cp" and "length p < pos" and "pos \<le> length p + length (u89_utf8_encode cp)"
  shows "prev_scan (p @ u89_utf8_encode cp @ t) (prev_floor pos) (pos - 1) = length p"
proof -
  obtain l cs where e: "u89_utf8_encode cp = l # cs" "\<not> cont l" "list_all cont cs" "length cs < 4"
    using encode_shape [OF assms(1)] .
  have c: "cont ((p @ u89_utf8_encode cp @ t) ! j)" if "length p < j" "j \<le> pos - 1" for j
  proof -
    have "j - length p - 1 < length cs" using that assms(2,3) e(1) by auto
    then have "cont (cs ! (j - length p - 1))" using e(3) by (simp add: list_all_length)
    moreover have "(p @ u89_utf8_encode cp @ t) ! j = cs ! (j - length p - 1)"
      using that \<open>j - length p - 1 < length cs\<close> by (simp add: e(1) nth_append nth_Cons' )
    ultimately show ?thesis by simp
  qed
  show ?thesis
    by (rule prev_scan_to) (use assms e c in \<open>auto simp: prev_floor_def nth_append\<close>)
qed

lemma prev_lead_scalar:
  assumes "u89_is_scalar cp" and "length p < pos" and "pos \<le> length p + length (u89_utf8_encode cp)"
  shows "prev_lead (p @ u89_utf8_encode cp @ t) pos =
     (if pos = length p + length (u89_utf8_encode cp) then Some (length p, cp) else None)"
proof -
  let ?e = "u89_utf8_encode cp"
  have tk: "take (pos - length p) (drop (length p) (p @ ?e @ t)) = take (pos - length p) ?e"
    using assms(3) by simp
  have eq: "prev_lead (p @ ?e @ t) pos = (case decode_one (take (pos - length p) ?e) of
      None \<Rightarrow> None | Some (d, cp) \<Rightarrow> if length p + d \<noteq> pos then None else Some (length p, cp))"
    unfolding prev_lead_def prev_scan_scalar [OF assms] Let_def tk ..
  show ?thesis
  proof (cases "pos = length p + length ?e")
    case True
    with decode_one_complete [OF assms(1), of "[]"] show ?thesis by (subst eq) simp
  next
    case False
    have "decode_one (take (pos - length p) ?e) = None"
    proof (rule ccontr)
      assume "decode_one (take (pos - length p) ?e) \<noteq> None"
      then obtain d c where "decode_one (take (pos - length p) ?e) = Some (d, c)" by fastforce
      then obtain r where r: "u89_is_scalar c" "take (pos - length p) ?e = u89_utf8_encode c @ r"
        using decode_one_sound by blast
      then have "?e = u89_utf8_encode c @ (r @ drop (pos - length p) ?e)"
        by (metis append.assoc append_take_drop_id)
      with encode_prefix_free [OF assms(1) r(1), of "[]"] have "[] = r @ drop (pos - length p) ?e" by (metis append_Nil2)
      then have "drop (pos - length p) ?e = []" by simp
      then show False using False assms by simp
    qed
    with False show ?thesis by (subst eq) simp
  qed
qed

text \<open>Every position in a text lies in or at the end of exactly one scalar.\<close>

lemma text_position:
  "scalars cps \<Longrightarrow> 0 < pos \<Longrightarrow> pos \<le> length (utf8 cps) \<Longrightarrow>
     \<exists>as cp bs. cps = as @ cp # bs \<and> length (utf8 as) < pos \<and> pos \<le> length (utf8 as) + length (u89_utf8_encode cp)"
proof (induction cps arbitrary: pos)
  case (Cons c cs)
  show ?case
  proof (cases "pos \<le> length (u89_utf8_encode c)")
    case True
    with Cons.prems show ?thesis by (intro exI [of _ "[]"] exI [of _ c] exI [of _ cs]) simp
  next
    case False
    have "pos - length (u89_utf8_encode c) \<le> length (utf8 cs)" using Cons.prems(3) by simp
    with Cons.IH [of "pos - length (u89_utf8_encode c)"] Cons.prems(1) False
    obtain as cp bs where "cs = as @ cp # bs" "length (utf8 as) < pos - length (u89_utf8_encode c)"
      "pos - length (u89_utf8_encode c) \<le> length (utf8 as) + length (u89_utf8_encode cp)" by auto
    then have "c # cs = (c # as) @ cp # bs \<and> length (utf8 (c # as)) < pos
        \<and> pos \<le> length (utf8 (c # as)) + length (u89_utf8_encode cp)"
      using False by auto
    then show ?thesis by blast
  qed
qed simp

lemma valid_cut:
  assumes "scalars (as @ cp # bs)" and "length (utf8 as) < pos" and "pos \<le> length (utf8 as) + length (u89_utf8_encode cp)"
  shows "u89_utf8_valid (take pos (utf8 (as @ cp # bs))) \<longleftrightarrow> pos = length (utf8 as) + length (u89_utf8_encode cp)"
proof
  assume "pos = length (utf8 as) + length (u89_utf8_encode cp)"
  then have "take pos (utf8 (as @ cp # bs)) = utf8 (as @ [cp])" by simp
  then show "u89_utf8_valid (take pos (utf8 (as @ cp # bs)))"
    using assms(1) unfolding valid_iff by (intro exI [of _ "as @ [cp]"]) simp
next
  assume "u89_utf8_valid (take pos (utf8 (as @ cp # bs)))"
  then obtain cs where cs: "scalars cs" "take pos (utf8 (as @ cp # bs)) = utf8 cs" unfolding valid_iff by blast
  let ?q = "take (pos - length (utf8 as)) (u89_utf8_encode cp)"
  have "utf8 as @ ?q = utf8 cs" using cs(2) assms(2,3) by simp
  then obtain es where es: "cs = as @ es" "?q = utf8 es" using utf8_split [of as cs ?q] assms(1) cs(1) by auto
  moreover have "?q \<noteq> []" using assms encode_length [of cp] by (auto simp: encode_Nil)
  ultimately obtain e es' where e: "es = e # es'" by (cases es) auto
  have "u89_utf8_encode cp = u89_utf8_encode e @ utf8 es' @ drop (pos - length (utf8 as)) (u89_utf8_encode cp)"
    using es(2) e by (metis append.assoc append_take_drop_id utf8_simps(2))
  moreover have "u89_is_scalar cp" "u89_is_scalar e" using assms(1) cs(1) es(1) e by simp_all
  ultimately have "[] = utf8 es' @ drop (pos - length (utf8 as)) (u89_utf8_encode cp)"
    using encode_prefix_free [of cp e "[]"] by (metis append_Nil2)
  then have "drop (pos - length (utf8 as)) (u89_utf8_encode cp) = []" by simp
  then show "pos = length (utf8 as) + length (u89_utf8_encode cp)" using assms(2,3) by simp
qed

lemma utf8_prev_boundary:
  assumes "u89_utf8_valid s" and "0 < pos" and "pos \<le> length s"
  shows "fst (u89_utf8_prev s pos) = U89_OK \<longleftrightarrow> u89_utf8_valid (take pos s)"
proof -
  obtain cps where cps: "scalars cps" "s = utf8 cps" using assms(1) unfolding valid_iff by blast
  obtain as cp bs where w: "cps = as @ cp # bs" "length (utf8 as) < pos"
    "pos \<le> length (utf8 as) + length (u89_utf8_encode cp)"
    using text_position [OF cps(1) assms(2)] assms(3) cps(2) by blast
  have sc: "u89_is_scalar cp" using cps(1) w(1) by simp
  show ?thesis
    using prev_lead_scalar [OF sc w(2,3), of "utf8 bs"] valid_cut [OF cps(1) [unfolded w(1)] w(2,3)] assms(2,3)
    by (simp add: u89_utf8_prev_def cps(2) w(1))
qed

text \<open>C37: On validated text the backward scan succeeds exactly at the scalar boundaries, and there it yields
  the scalar that ends at the position and where it starts: it undoes one decoding step.\<close>

theorem utf8_prev_inverts_decode:
  assumes "u89_utf8_valid s" and "0 < pos" and "pos \<le> length s"
  shows "(fst (u89_utf8_prev s pos) = U89_OK \<longleftrightarrow> u89_utf8_valid (take pos s))
    \<and> (u89_utf8_prev s pos = (U89_OK, Some (cp, lead)) \<longleftrightarrow>
         u89_utf8_valid (take lead s) \<and> u89_utf8_decode s lead = (U89_OK, Some (cp, pos)))"
proof -
  obtain cps where cps: "scalars cps" "s = utf8 cps" using assms(1) unfolding valid_iff by blast
  obtain as c bs where w: "cps = as @ c # bs" "length (utf8 as) < pos"
    "pos \<le> length (utf8 as) + length (u89_utf8_encode c)"
    using text_position [OF cps(1) assms(2)] assms(3) cps(2) by blast
  have sc: "u89_is_scalar c" "scalars as" using cps(1) w(1) by simp_all
  have s: "s = utf8 as @ u89_utf8_encode c @ utf8 bs" by (simp add: cps(2) w(1))
  have prev: "u89_utf8_prev s pos = (if pos = length (utf8 as) + length (u89_utf8_encode c)
      then (U89_OK, Some (c, length (utf8 as))) else (U89_EUTF8, None))"
    using prev_lead_scalar [OF sc(1) w(2,3), of "utf8 bs"] assms(2,3) by (simp add: u89_utf8_prev_def s)
  have dec: "u89_utf8_decode s (length (utf8 as)) = (U89_OK, Some (c, length (utf8 as) + length (u89_utf8_encode c)))"
    using decode_one_complete [OF sc(1), of "utf8 bs"] sc(1) by (simp add: u89_utf8_decode_def s encode_Nil)
  have uniq: "lead = length (utf8 as) \<and> cp = c \<and> pos = length (utf8 as) + length (u89_utf8_encode c)"
    if v: "u89_utf8_valid (take lead s)" and d: "u89_utf8_decode s lead = (U89_OK, Some (cp, pos))"
  proof -
    obtain r where r: "u89_is_scalar cp" "pos = lead + length (u89_utf8_encode cp)" "lead < length s"
      "drop lead s = u89_utf8_encode cp @ r"
      using d by (auto simp: u89_utf8_decode_def decode_one_iff split: if_splits option.splits)
    obtain ys where ys: "scalars ys" "take lead s = utf8 ys" using v unfolding valid_iff by blast
    have sy: "s = utf8 (ys @ [cp]) @ r" using ys(2) r(4) by (metis append.assoc append_take_drop_id append_Nil2 utf8_simps)
    have ly: "length (utf8 ys) = lead" using ys(2) r(3) by (metis length_take min.absorb4)
    have "take pos s = utf8 (ys @ [cp])" using sy r(2) ly by simp
    then have "u89_utf8_valid (take pos s)" unfolding valid_iff using ys(1) r(1) by (intro exI [of _ "ys @ [cp]"]) simp
    then have pos: "pos = length (utf8 as) + length (u89_utf8_encode c)"
      using valid_cut [OF cps(1) [unfolded w(1)] w(2,3)] by (simp add: cps(2) w(1))
    then have "take pos s = utf8 (as @ [c])" by (simp add: s)
    with \<open>take pos s = utf8 (ys @ [cp])\<close> have "ys @ [cp] = as @ [c]"
      using utf8_inj [of "ys @ [cp]" "as @ [c]"] ys(1) r(1) sc by simp
    with pos ly show ?thesis by auto
  qed
  have "u89_utf8_valid (utf8 as)" unfolding valid_iff using sc(2) by blast
  then have "u89_utf8_valid (take (length (utf8 as)) s)" by (simp add: s)
  with utf8_prev_boundary [OF assms] prev dec uniq show ?thesis by (auto split: if_splits)
qed

theorem utf8_prev_inverts_decode_witness:
  "u89_utf8_prev [0x61, 0xC3, 0xA9] 3 = (U89_OK, Some (0xE9, 1))
   \<and> fst (u89_utf8_prev [0x61, 0xC3, 0xA9] 2) = U89_EUTF8"
proof -
  let ?s = "[0x61, 0xC3, 0xA9] :: bytes"
  have v: "u89_utf8_valid ?s" and b: "u89_utf8_valid (take 1 ?s)" "\<not> u89_utf8_valid (take 2 ?s)"
    and d: "u89_utf8_decode ?s 1 = (U89_OK, Some (0xE9, 3))" by code_simp+
  have "fst (u89_utf8_prev ?s 2) = U89_OK \<or> fst (u89_utf8_prev ?s 2) = U89_EUTF8"
    by (simp add: u89_utf8_prev_def split: option.split)
  with utf8_prev_inverts_decode [OF v, of 3 "0xE9" 1] utf8_prev_inverts_decode [OF v, of 2 "0xE9" 1] b d show ?thesis
    by simp
qed

end
