(* ===== verification/Str89.thy ===== *)
theory Str89
  imports Utf8
begin

text \<open>
  \<open>libstr89\<close>: validated views, owning strings and mutable builders over UTF-8 bytes
  (\<open>alloc.c\<close>, \<open>view.c\<close>, \<open>string.c\<close>, \<open>buf.c\<close>).

  Memory is explicit because views may point into the very buffer that is edited: a pointer is
  \<open>Null\<close> or an offset into a block, and allocation, reallocation and release change the set of live
  blocks. An access outside a live block, and the release of a pointer that is not the start of
  one, set \<open>mem_fault\<close>, which nothing clears. Sizes and offsets are 64-bit words.
\<close>

type_synonym size_t = "64 word"

abbreviation (input) STR89_NPOS :: size_t where
  "STR89_NPOS \<equiv> - 1"

datatype str89_status = STR89_OK | STR89_EINVAL | STR89_ENOMEM | STR89_EUTF8 | STR89_ERANGE | STR89_EBOUND

section \<open>Memory\<close>

datatype ptr = Null | Ptr nat nat

record mem =
  mem_block :: "nat \<Rightarrow> bytes option"
  mem_next :: nat
  mem_calls :: nat
  mem_fault :: bool

text \<open>
  The allocator a caller passes (or the C library): whether the \<open>k\<close>-th request is granted, and
  what the \<open>i\<close>-th byte of the block it yields holds before it is written.
\<close>

record str89_alloc =
  alloc_grants :: "nat \<Rightarrow> bool"
  alloc_junk :: "nat \<Rightarrow> nat \<Rightarrow> u8"

definition mem_bad :: "mem \<Rightarrow> mem" where
  "mem_bad m = m\<lparr>mem_fault := True\<rparr>"

definition junk :: "str89_alloc \<Rightarrow> mem \<Rightarrow> nat \<Rightarrow> bytes" where
  "junk al m n = map (alloc_junk al (mem_calls m)) [0..<n]"

definition new_block :: "mem \<Rightarrow> bytes \<Rightarrow> mem \<times> ptr" where
  "new_block m bs =
     (m\<lparr>mem_block := (mem_block m)(mem_next m := Some bs), mem_next := Suc (mem_next m)\<rparr>, Ptr (mem_next m) 0)"

definition str89__malloc :: "str89_alloc \<Rightarrow> mem \<Rightarrow> size_t \<Rightarrow> mem \<times> ptr" where
  "str89__malloc al m sz =
     (if alloc_grants al (mem_calls m)
      then new_block (m\<lparr>mem_calls := Suc (mem_calls m)\<rparr>) (junk al m (unat sz))
      else (m\<lparr>mem_calls := Suc (mem_calls m)\<rparr>, Null))"

fun str89__free :: "mem \<Rightarrow> ptr \<Rightarrow> mem" where
  "str89__free m Null = m"
| "str89__free m (Ptr b i) =
     (if i = 0 \<and> mem_block m b \<noteq> None then m\<lparr>mem_block := (mem_block m)(b := None)\<rparr> else mem_bad m)"

text \<open>Reallocation: on success the old block is released and its bytes are in the new one.\<close>

fun str89__realloc :: "str89_alloc \<Rightarrow> mem \<Rightarrow> ptr \<Rightarrow> size_t \<Rightarrow> mem \<times> ptr" where
  "str89__realloc al m Null sz = str89__malloc al m sz"
| "str89__realloc al m (Ptr b i) sz =
     (case mem_block m b of
        None \<Rightarrow> (mem_bad m, Null)
      | Some old \<Rightarrow>
          if i \<noteq> 0 then (mem_bad m, Null)
          else if \<not> alloc_grants al (mem_calls m) then (m\<lparr>mem_calls := Suc (mem_calls m)\<rparr>, Null)
          else new_block (m\<lparr>mem_calls := Suc (mem_calls m), mem_block := (mem_block m)(b := None)\<rparr>)
                 (take (unat sz) old @ drop (length old) (junk al m (unat sz))))"

text \<open>The \<open>n\<close> bytes at a pointer; \<open>None\<close> when they are not all in a live block.\<close>

fun mem_read :: "mem \<Rightarrow> ptr \<Rightarrow> nat \<Rightarrow> bytes option" where
  "mem_read m Null n = (if n = 0 then Some [] else None)"
| "mem_read m (Ptr b i) n =
     (case mem_block m b of
        None \<Rightarrow> None
      | Some bs \<Rightarrow> if i + n \<le> length bs then Some (take n (drop i bs)) else None)"

fun mem_write :: "mem \<Rightarrow> ptr \<Rightarrow> bytes \<Rightarrow> mem" where
  "mem_write m Null xs = (if xs = [] then m else mem_bad m)"
| "mem_write m (Ptr b i) xs =
     (case mem_block m b of
        None \<Rightarrow> mem_bad m
      | Some bs \<Rightarrow>
          if i + length xs \<le> length bs
          then m\<lparr>mem_block := (mem_block m)(b := Some (take i bs @ xs @ drop (i + length xs) bs))\<rparr>
          else mem_bad m)"

text \<open>\<open>memmove\<close> reads everything before it writes; the \<open>memcpy\<close> calls of the library have a fresh
  block as their target.\<close>

definition memmove :: "mem \<Rightarrow> ptr \<Rightarrow> ptr \<Rightarrow> nat \<Rightarrow> mem" where
  "memmove m dst src n = (case mem_read m src n of None \<Rightarrow> mem_bad m | Some xs \<Rightarrow> mem_write m dst xs)"

fun ptr_add :: "ptr \<Rightarrow> size_t \<Rightarrow> ptr" where
  "ptr_add Null n = Null"
| "ptr_add (Ptr b i) n = Ptr b (i + unat n)"

section \<open>Checked arithmetic and growth\<close>

definition str89__add :: "size_t \<Rightarrow> size_t \<Rightarrow> size_t option" where
  "str89__add a b = (let s = a + b in if s < a then None else Some s)"

definition double_cap :: "size_t \<Rightarrow> size_t" where
  "double_cap n = n * 2"

definition too_big_to_double :: "size_t \<Rightarrow> bool" where
  "too_big_to_double n \<longleftrightarrow> STR89_NPOS div 2 < n"

text \<open>The doubling loop; \<open>None\<close> if it did not return.\<close>

partial_function (option) grow_loop :: "size_t \<Rightarrow> size_t \<Rightarrow> size_t option" where
  "grow_loop n need =
     (if n < need then (if too_big_to_double n then Some 0 else grow_loop (double_cap n) need) else Some n)"

declare grow_loop.simps [code]

definition str89__grow_cap :: "size_t \<Rightarrow> size_t \<Rightarrow> size_t" where
  "str89__grow_cap cap need = the (grow_loop (if cap < 16 then 16 else cap) need)"

text \<open>
  Whether \<open>src\<close> points into the \<open>len\<close> bytes at \<open>base\<close>. Live blocks do not overlap, so a pointer into
  another block compares outside of the range.
\<close>

fun str89__overlaps :: "ptr \<Rightarrow> size_t \<Rightarrow> ptr \<Rightarrow> bool" where
  "str89__overlaps (Ptr b i) len (Ptr c j) = (if c \<noteq> b then False else if j < i then False
     else if i + unat len \<le> j then False else True)"
| "str89__overlaps _ len _ = False"

definition str89__data_ok :: "ptr \<Rightarrow> size_t \<Rightarrow> bool" where
  "str89__data_ok data len = (if data = Null \<and> len \<noteq> 0 then False else True)"

section \<open>Views\<close>

record str89_view =
  view_data :: ptr
  view_len :: size_t

text \<open>The bytes of a view (empty when they cannot be read, which sets no flag: see the safety theorems).\<close>

definition view_bytes :: "mem \<Rightarrow> str89_view \<Rightarrow> bytes" where
  "view_bytes m v = (case mem_read m (view_data v) (unat (view_len v)) of None \<Rightarrow> [] | Some bs \<Rightarrow> bs)"

definition min_len :: "size_t \<Rightarrow> size_t \<Rightarrow> size_t" where
  "min_len a b = (if a < b then a else b)"

text \<open>\<open>memcmp\<close>: the sign of the difference at the first byte that differs.\<close>

fun memcmp :: "bytes \<Rightarrow> bytes \<Rightarrow> int" where
  "memcmp (x # xs) (y # ys) = (if x < y then - 1 else if y < x then 1 else memcmp xs ys)"
| "memcmp _ _ = 0"

definition common_prefix :: "bytes \<Rightarrow> bytes \<Rightarrow> size_t \<Rightarrow> int" where
  "common_prefix a b n = (if n = 0 then 0 else memcmp (take (unat n) a) (take (unat n) b))"

definition length_order :: "size_t \<Rightarrow> size_t \<Rightarrow> int" where
  "length_order a b = (if a < b then - 1 else if b < a then 1 else 0)"

definition str89_view_init :: "mem \<Rightarrow> ptr \<Rightarrow> size_t \<Rightarrow> str89_status \<times> str89_view option" where
  "str89_view_init m data len =
     (if \<not> str89__data_ok data len then (STR89_EINVAL, None)
      else if \<not> u89_utf8_valid (view_bytes m \<lparr>view_data = data, view_len = len\<rparr>) then (STR89_EUTF8, None)
      else (STR89_OK, Some \<lparr>view_data = data, view_len = len\<rparr>))"

definition str89_view_is_boundary :: "mem \<Rightarrow> str89_view \<Rightarrow> size_t \<Rightarrow> bool" where
  "str89_view_is_boundary m s offset =
     (if offset = 0 then True
      else if offset = view_len s then True
      else if view_len s < offset then False
      else if fst (u89_utf8_prev (view_bytes m s) (unat offset)) = U89_OK then True
      else False)"

definition str89_view_sub :: "mem \<Rightarrow> str89_view \<Rightarrow> size_t \<Rightarrow> size_t \<Rightarrow> str89_status \<times> str89_view option" where
  "str89_view_sub m s offset len =
     (case str89__add offset len of
        None \<Rightarrow> (STR89_ERANGE, None)
      | Some end_off \<Rightarrow>
          if view_len s < end_off then (STR89_ERANGE, None)
          else if \<not> str89_view_is_boundary m s offset then (STR89_EBOUND, None)
          else if \<not> str89_view_is_boundary m s end_off then (STR89_EBOUND, None)
          else (STR89_OK, Some \<lparr>view_data = ptr_add (view_data s) offset, view_len = len\<rparr>))"

definition str89_view_equal :: "mem \<Rightarrow> str89_view \<Rightarrow> str89_view \<Rightarrow> bool" where
  "str89_view_equal m a b =
     (if view_len a \<noteq> view_len b then False
      else if view_len a = 0 then True
      else if memcmp (view_bytes m a) (view_bytes m b) = 0 then True else False)"

definition str89_view_compare :: "mem \<Rightarrow> str89_view \<Rightarrow> str89_view \<Rightarrow> int" where
  "str89_view_compare m a b =
     (let n = min_len (view_len a) (view_len b);
          c = common_prefix (view_bytes m a) (view_bytes m b) n in
      if c \<noteq> 0 then c else length_order (view_len a) (view_len b))"

definition match_at :: "bytes \<Rightarrow> bytes \<Rightarrow> nat \<Rightarrow> bool" where
  "match_at haystack needle at \<longleftrightarrow> memcmp (take (length needle) (drop at haystack)) needle = 0"

text \<open>The search loop at position \<open>i\<close>, which never passes the end of the haystack.\<close>

function find_from :: "bytes \<Rightarrow> bytes \<Rightarrow> nat \<Rightarrow> nat option" where
  "find_from haystack needle i =
     (if length needle \<le> length haystack - i \<and> needle \<noteq> [] then
        if match_at haystack needle i then Some i else find_from haystack needle (Suc i)
      else None)"
  by pat_completeness auto
termination
proof (relation "measure (\<lambda>(haystack, needle, i). length haystack - i)")
  fix haystack needle :: bytes and i
  assume "length needle \<le> length haystack - i \<and> needle \<noteq> []"
  then show "((haystack, needle, Suc i), haystack, needle, i) \<in> measure (\<lambda>(haystack, needle, i). length haystack - i)"
    by (cases needle) auto
qed simp

declare find_from.simps [simp del]

text \<open>The status and the offset written through the out parameter.\<close>

definition str89_view_find :: "mem \<Rightarrow> str89_view \<Rightarrow> str89_view \<Rightarrow> size_t \<Rightarrow> str89_status \<times> size_t option" where
  "str89_view_find m haystack needle from_off =
     (if view_len haystack < from_off then (STR89_ERANGE, None)
      else if \<not> str89_view_is_boundary m haystack from_off then (STR89_EBOUND, None)
      else if view_len needle = 0 then (STR89_OK, Some from_off)
      else case find_from (view_bytes m haystack) (view_bytes m needle) (unat from_off) of
        Some i \<Rightarrow> (STR89_OK, Some (of_nat i))
      | None \<Rightarrow> (STR89_OK, Some STR89_NPOS))"

section \<open>Owning strings\<close>

record str89 =
  str_data :: ptr
  str_len :: size_t

definition str89_init :: str89 where
  "str89_init = \<lparr>str_data = Null, str_len = 0\<rparr>"

definition str89_view_of :: "str89 \<Rightarrow> str89_view" where
  "str89_view_of s = \<lparr>view_data = str_data s, view_len = str_len s\<rparr>"

definition set_empty :: str89 where
  "set_empty = \<lparr>str_data = Null, str_len = 0\<rparr>"

definition str89_from_view :: "str89_alloc \<Rightarrow> mem \<Rightarrow> str89 \<Rightarrow> str89_view \<Rightarrow> mem \<times> str89 \<times> str89_status" where
  "str89_from_view al m out src =
     (if view_len src = 0 then (m, set_empty, STR89_OK)
      else case str89__malloc al m (view_len src) of (m, p) \<Rightarrow>
        if p = Null then (m, out, STR89_ENOMEM)
        else (memmove m p (view_data src) (unat (view_len src)), \<lparr>str_data = p, str_len = view_len src\<rparr>, STR89_OK))"

text \<open>\<open>same\<close> is whether source and target are the same object.\<close>

definition str89_copy :: "str89_alloc \<Rightarrow> mem \<Rightarrow> str89 \<Rightarrow> str89 \<Rightarrow> bool \<Rightarrow> mem \<times> str89 \<times> str89_status" where
  "str89_copy al m out src same =
     (if same then (m, out, STR89_OK) else str89_from_view al m out (str89_view_of src))"

definition str89_free :: "mem \<Rightarrow> str89 \<Rightarrow> mem \<times> str89" where
  "str89_free m s =
     (if str_data s \<noteq> Null then str89__free m (str_data s) else m, \<lparr>str_data = Null, str_len = 0\<rparr>)"

section \<open>Mutable strings\<close>

record str89_buf =
  buf_data :: ptr
  buf_len :: size_t
  buf_cap :: size_t

definition str89_buf_view :: "str89_buf \<Rightarrow> str89_view" where
  "str89_buf_view s = \<lparr>view_data = buf_data s, view_len = buf_len s\<rparr>"

fun alias_offset :: "ptr \<Rightarrow> ptr \<Rightarrow> size_t" where
  "alias_offset (Ptr b i) (Ptr c j) = of_nat (j - i)"
| "alias_offset _ _ = 0"

definition str89_buf_init :: str89_buf where
  "str89_buf_init = \<lparr>buf_data = Null, buf_len = 0, buf_cap = 0\<rparr>"

definition str89_buf_clear :: "str89_buf \<Rightarrow> str89_buf" where
  "str89_buf_clear s = s\<lparr>buf_len := 0\<rparr>"

definition str89_buf_free :: "mem \<Rightarrow> str89_buf \<Rightarrow> mem \<times> str89_buf" where
  "str89_buf_free m s =
     (if buf_data s \<noteq> Null then str89__free m (buf_data s) else m, \<lparr>buf_data = Null, buf_len = 0, buf_cap = 0\<rparr>)"

definition str89_buf_reserve :: "str89_alloc \<Rightarrow> mem \<Rightarrow> str89_buf \<Rightarrow> size_t \<Rightarrow> mem \<times> str89_buf \<times> str89_status" where
  "str89_buf_reserve al m s capacity =
     (if capacity \<le> buf_cap s then (m, s, STR89_OK)
      else let nc = str89__grow_cap (buf_cap s) capacity in
        if nc = 0 then (m, s, STR89_ERANGE)
        else case str89__realloc al m (buf_data s) nc of (m, p) \<Rightarrow>
          if p = Null then (m, s, STR89_ENOMEM)
          else (m, s\<lparr>buf_data := p, buf_cap := nc\<rparr>, STR89_OK))"

text \<open>A copy of an aliased source: the temporary block, or \<open>None\<close> when there is no memory.\<close>

definition copy_alias :: "str89_alloc \<Rightarrow> mem \<Rightarrow> str89_view \<Rightarrow> mem \<times> ptr option" where
  "copy_alias al m src =
     (case str89__malloc al m (view_len src) of (m, p) \<Rightarrow>
        if p = Null then (m, None)
        else (memmove m p (view_data src) (unat (view_len src)), Some p))"

definition drop_tmp :: "mem \<Rightarrow> ptr \<Rightarrow> mem" where
  "drop_tmp m tmp = (if tmp \<noteq> Null then str89__free m tmp else m)"

definition insert_bytes :: "mem \<Rightarrow> str89_buf \<Rightarrow> size_t \<Rightarrow> ptr \<Rightarrow> size_t \<Rightarrow> mem \<times> str89_buf" where
  "insert_bytes m s offset src n =
     (let tail = buf_len s - offset;
          m = (if tail \<noteq> 0 then memmove m (ptr_add (ptr_add (buf_data s) offset) n)
                 (ptr_add (buf_data s) offset) (unat tail) else m);
          m = (if n \<noteq> 0 then memmove m (ptr_add (buf_data s) offset) src (unat n) else m) in
      (m, s\<lparr>buf_len := buf_len s + n\<rparr>))"

definition replace_bytes :: "mem \<Rightarrow> str89_buf \<Rightarrow> size_t \<Rightarrow> size_t \<Rightarrow> ptr \<Rightarrow> size_t \<Rightarrow> mem \<times> str89_buf" where
  "replace_bytes m s offset len src n =
     (let tail = buf_len s - offset - len;
          m = (if tail \<noteq> 0 then memmove m (ptr_add (ptr_add (buf_data s) offset) n)
                 (ptr_add (ptr_add (buf_data s) offset) len) (unat tail) else m);
          m = (if n \<noteq> 0 then memmove m (ptr_add (buf_data s) offset) src (unat n) else m) in
      (m, s\<lparr>buf_len := buf_len s - len + n\<rparr>))"

definition str89_buf_set :: "str89_alloc \<Rightarrow> mem \<Rightarrow> str89_buf \<Rightarrow> str89_view \<Rightarrow> mem \<times> str89_buf \<times> str89_status" where
  "str89_buf_set al m s src =
     (let alias = str89__overlaps (buf_data s) (buf_len s) (view_data src);
          off = (if alias then alias_offset (buf_data s) (view_data src) else 0) in
      case str89_buf_reserve al m s (view_len src) of (m, s, r) \<Rightarrow>
        if r \<noteq> STR89_OK then (m, s, r)
        else let source = (if alias then ptr_add (buf_data s) off else view_data src);
                 m = (if view_len src \<noteq> 0 then memmove m (buf_data s) source (unat (view_len src)) else m) in
          (m, s\<lparr>buf_len := view_len src\<rparr>, STR89_OK))"

definition str89_buf_append :: "str89_alloc \<Rightarrow> mem \<Rightarrow> str89_buf \<Rightarrow> str89_view \<Rightarrow> mem \<times> str89_buf \<times> str89_status" where
  "str89_buf_append al m s src =
     (if view_len src = 0 then (m, s, STR89_OK)
      else case str89__add (buf_len s) (view_len src) of
        None \<Rightarrow> (m, s, STR89_ERANGE)
      | Some need \<Rightarrow>
        (let alias = str89__overlaps (buf_data s) (buf_len s) (view_data src);
             off = (if alias then alias_offset (buf_data s) (view_data src) else 0) in
         case str89_buf_reserve al m s need of (m, s, r) \<Rightarrow>
           if r \<noteq> STR89_OK then (m, s, r)
           else let source = (if alias then ptr_add (buf_data s) off else view_data src) in
             (memmove m (ptr_add (buf_data s) (buf_len s)) source (unat (view_len src)),
              s\<lparr>buf_len := need\<rparr>, STR89_OK)))"

text \<open>
  The common ending of insertion and replacement: copy the source away when it lies in the buffer,
  reserve, edit, and release the copy.
\<close>

definition with_source :: "str89_alloc \<Rightarrow> mem \<Rightarrow> str89_buf \<Rightarrow> str89_view \<Rightarrow> size_t
    \<Rightarrow> (mem \<Rightarrow> str89_buf \<Rightarrow> ptr \<Rightarrow> mem \<times> str89_buf) \<Rightarrow> mem \<times> str89_buf \<times> str89_status" where
  "with_source al m s src need edit =
     (case (if str89__overlaps (buf_data s) (buf_len s) (view_data src)
            then (case copy_alias al m src of
                    (m, None) \<Rightarrow> (m, None)
                  | (m, Some p) \<Rightarrow> (m, Some (p, p)))
            else (m, Some (Null, view_data src))) of
        (m, None) \<Rightarrow> (m, s, STR89_ENOMEM)
      | (m, Some (tmp, source)) \<Rightarrow>
        (case str89_buf_reserve al m s need of (m, s, r) \<Rightarrow>
           if r \<noteq> STR89_OK then (drop_tmp m tmp, s, r)
           else case edit m s source of (m, s) \<Rightarrow> (drop_tmp m tmp, s, STR89_OK)))"

definition str89_buf_insert :: "str89_alloc \<Rightarrow> mem \<Rightarrow> str89_buf \<Rightarrow> size_t \<Rightarrow> str89_view
    \<Rightarrow> mem \<times> str89_buf \<times> str89_status" where
  "str89_buf_insert al m s offset src =
     (if buf_len s < offset then (m, s, STR89_ERANGE)
      else if \<not> str89_view_is_boundary m (str89_buf_view s) offset then (m, s, STR89_EBOUND)
      else if view_len src = 0 then (m, s, STR89_OK)
      else (case str89__add (buf_len s) (view_len src) of
          None \<Rightarrow> (m, s, STR89_ERANGE)
        | Some need \<Rightarrow>
            with_source al m s src need (\<lambda>m s source. insert_bytes m s offset source (view_len src))))"

definition str89_buf_erase :: "mem \<Rightarrow> str89_buf \<Rightarrow> size_t \<Rightarrow> size_t \<Rightarrow> mem \<times> str89_buf \<times> str89_status" where
  "str89_buf_erase m s offset len =
     (case str89__add offset len of
        None \<Rightarrow> (m, s, STR89_ERANGE)
      | Some end_off \<Rightarrow>
          if buf_len s < end_off then (m, s, STR89_ERANGE)
          else if \<not> str89_view_is_boundary m (str89_buf_view s) offset then (m, s, STR89_EBOUND)
          else if \<not> str89_view_is_boundary m (str89_buf_view s) end_off then (m, s, STR89_EBOUND)
          else let tail = buf_len s - end_off;
                   m = (if tail \<noteq> 0 then memmove m (ptr_add (buf_data s) offset)
                          (ptr_add (buf_data s) end_off) (unat tail) else m) in
            (m, s\<lparr>buf_len := buf_len s - len\<rparr>, STR89_OK))"

definition str89_buf_replace :: "str89_alloc \<Rightarrow> mem \<Rightarrow> str89_buf \<Rightarrow> size_t \<Rightarrow> size_t \<Rightarrow> str89_view
    \<Rightarrow> mem \<times> str89_buf \<times> str89_status" where
  "str89_buf_replace al m s offset len src =
     (case str89__add offset len of
        None \<Rightarrow> (m, s, STR89_ERANGE)
      | Some end_off \<Rightarrow>
          if buf_len s < end_off then (m, s, STR89_ERANGE)
          else if len = 0 then str89_buf_insert al m s offset src
          else if view_len src = 0 then str89_buf_erase m s offset len
          else if \<not> str89_view_is_boundary m (str89_buf_view s) offset then (m, s, STR89_EBOUND)
          else if \<not> str89_view_is_boundary m (str89_buf_view s) end_off then (m, s, STR89_EBOUND)
          else (case str89__add (buf_len s - len) (view_len src) of
              None \<Rightarrow> (m, s, STR89_ERANGE)
            | Some newlen \<Rightarrow>
                with_source al m s src newlen (\<lambda>m s source. replace_bytes m s offset len source (view_len src))))"

text \<open>The scalar is encoded into a local array, a block of its own for the time of the call.\<close>

definition with_scalar :: "mem \<Rightarrow> u89_cp \<Rightarrow> (mem \<Rightarrow> str89_view \<Rightarrow> mem \<times> str89_buf \<times> str89_status)
    \<Rightarrow> str89_buf \<Rightarrow> mem \<times> str89_buf \<times> str89_status" where
  "with_scalar m cp f s =
     (let bs = u89_utf8_encode cp in
      if bs = [] then (m, s, STR89_EINVAL)
      else case new_block m bs of (m, tmp) \<Rightarrow>
        (case f m \<lparr>view_data = tmp, view_len = of_nat (length bs)\<rparr> of (m, s, r) \<Rightarrow> (str89__free m tmp, s, r)))"

definition str89_buf_append_cp :: "str89_alloc \<Rightarrow> mem \<Rightarrow> str89_buf \<Rightarrow> u89_cp \<Rightarrow> mem \<times> str89_buf \<times> str89_status" where
  "str89_buf_append_cp al m s cp = with_scalar m cp (\<lambda>m v. str89_buf_append al m s v) s"

definition str89_buf_insert_cp :: "str89_alloc \<Rightarrow> mem \<Rightarrow> str89_buf \<Rightarrow> size_t \<Rightarrow> u89_cp
    \<Rightarrow> mem \<times> str89_buf \<times> str89_status" where
  "str89_buf_insert_cp al m s offset cp = with_scalar m cp (\<lambda>m v. str89_buf_insert al m s offset v) s"

definition str89_take :: "str89 \<Rightarrow> str89_buf \<Rightarrow> str89 \<times> str89_buf \<times> str89_status" where
  "str89_take out src =
     (if str_data out \<noteq> Null then (out, src, STR89_EINVAL)
      else if str_len out \<noteq> 0 then (out, src, STR89_EINVAL)
      else (\<lparr>str_data = buf_data src, str_len = buf_len src\<rparr>, \<lparr>buf_data = Null, buf_len = 0, buf_cap = 0\<rparr>, STR89_OK))"

end
