(* ===== verification/Str89_Correct.thy ===== *)
theory Str89_Correct
  imports Str89 Utf8_Correct
begin

text \<open>
  Correctness of the string operations: each editing operation computes the edit of the byte
  string it names, also when its source lies inside the buffer, keeps UTF-8 text UTF-8 text,
  leaves every other block of memory as it was, leaks and overruns nothing, and leaves the buffer
  as it was when it fails.
\<close>

section \<open>Well-formed memory, buffers and sources\<close>

definition heap_ok :: "mem \<Rightarrow> bool" where
  "heap_ok m \<longleftrightarrow> (\<forall>b. mem_block m b \<noteq> None \<longrightarrow> b < mem_next m)"

definition buf_ok :: "mem \<Rightarrow> str89_buf \<Rightarrow> bool" where
  "buf_ok m s \<longleftrightarrow> buf_data s = Null \<and> buf_len s = 0 \<and> buf_cap s = 0
     \<or> (\<exists>b blk. buf_data s = Ptr b 0 \<and> mem_block m b = Some blk \<and> length blk = unat (buf_cap s)
          \<and> buf_len s \<le> buf_cap s)"

definition buf_bytes :: "mem \<Rightarrow> str89_buf \<Rightarrow> bytes" where
  "buf_bytes m s = view_bytes m (str89_buf_view s)"

text \<open>A source may lie in the buffer, but only among the bytes that are part of the string.\<close>

definition src_ok :: "mem \<Rightarrow> str89_buf \<Rightarrow> str89_view \<Rightarrow> bool" where
  "src_ok m s v \<longleftrightarrow> view_len v = 0 \<or>
     (\<exists>b i blk. view_data v = Ptr b i \<and> mem_block m b = Some blk \<and> i + unat (view_len v) \<le> length blk
        \<and> (buf_data s = Ptr b 0 \<longrightarrow> i + unat (view_len v) \<le> unat (buf_len s)))"

text \<open>The blocks other than the buffer's own are the same before and after, with the same bytes.\<close>

definition others :: "mem \<Rightarrow> str89_buf \<Rightarrow> nat \<Rightarrow> bytes option" where
  "others m s b = (if buf_data s = Ptr b 0 then None else mem_block m b)"

definition kept :: "mem \<Rightarrow> str89_buf \<Rightarrow> mem \<Rightarrow> str89_buf \<Rightarrow> bool" where
  "kept m s m' s' \<longleftrightarrow> mem_fault m' = mem_fault m \<and> heap_ok m' \<and> buf_ok m' s' \<and> others m' s' = others m s
     \<and> mem_next m \<le> mem_next m'"

text \<open>What an editing operation guarantees.\<close>

definition edits :: "mem \<Rightarrow> str89_buf \<Rightarrow> bytes \<Rightarrow> mem \<times> str89_buf \<times> str89_status \<Rightarrow> bool" where
  "edits m s xs res \<longleftrightarrow> (case res of (m', s', r) \<Rightarrow> kept m s m' s'
     \<and> (r = STR89_OK \<longrightarrow> buf_bytes m' s' = xs)
     \<and> (r \<noteq> STR89_OK \<longrightarrow> s' = s \<and> buf_bytes m' s' = buf_bytes m s))"

lemma buf_bytes_block:
  "buf_data s = Ptr b 0 \<Longrightarrow> mem_block m b = Some blk \<Longrightarrow> length blk = unat (buf_cap s) \<Longrightarrow> buf_len s \<le> buf_cap s \<Longrightarrow>
     buf_bytes m s = take (unat (buf_len s)) blk"
  by (simp add: buf_bytes_def view_bytes_def str89_buf_view_def word_le_nat_alt)

lemma buf_bytes_Null: "buf_data s = Null \<Longrightarrow> buf_len s = 0 \<Longrightarrow> buf_bytes m s = []"
  by (simp add: buf_bytes_def view_bytes_def str89_buf_view_def)

lemma length_buf_bytes: "buf_ok m s \<Longrightarrow> length (buf_bytes m s) = unat (buf_len s)"
  by (auto simp: buf_ok_def buf_bytes_block buf_bytes_Null word_le_nat_alt)

lemma kept_refl: "heap_ok m \<Longrightarrow> buf_ok m s \<Longrightarrow> kept m s m s"
  by (simp add: kept_def)

lemma kept_trans: "kept m s m1 s1 \<Longrightarrow> kept m1 s1 m2 s2 \<Longrightarrow> kept m s m2 s2"
  by (simp add: kept_def)

section \<open>Growth\<close>

lemma grow_loop_unfold:
  "grow_loop n need =
     (if n < need then (if too_big_to_double n then Some 0 else grow_loop (double_cap n) need) else Some n)"
  by (rule grow_loop.simps)

lemma unat_double: "\<not> too_big_to_double n \<Longrightarrow> unat (double_cap n) = 2 * unat n"
proof -
  assume "\<not> too_big_to_double n"
  moreover have "unat (STR89_NPOS div 2) = 2 ^ 63 - 1" by (simp add: unat_div)
  ultimately have "unat n < 2 ^ 63" by (simp add: too_big_to_double_def word_less_nat_alt)
  then show ?thesis by (simp add: double_cap_def unat_word_ariths)
qed

lemma grow_loop_result:
  assumes "n \<noteq> 0"
  shows "\<exists>r. grow_loop n need = Some r
    \<and> (r \<noteq> 0 \<longrightarrow> (\<exists>k. unat r = 2 ^ k * unat n) \<and> need \<le> r \<and> (r = n \<or> unat r < 2 * unat need))
    \<and> (r = 0 \<longrightarrow> 2 ^ 63 \<le> unat need)"
  using assms
proof (induction "unat need - unat n" arbitrary: n rule: less_induct)
  case less
  show ?case
  proof (cases "n < need")
    case False
    then show ?thesis
      using less.prems by (intro exI [of _ n]) (auto simp: grow_loop_unfold [of n] intro!: exI [of _ 0])
  next
    case lt: True
    then have nn: "unat n < unat need" by (simp add: word_less_nat_alt)
    show ?thesis
    proof (cases "too_big_to_double n")
      case True
      then have "unat (STR89_NPOS div 2) < unat n" by (simp add: too_big_to_double_def word_less_nat_alt)
      then have "2 ^ 63 \<le> unat n" by (simp add: unat_div)
      with True lt nn show ?thesis by (intro exI [of _ 0]) (simp add: grow_loop_unfold [of n])
    next
      case False
      note d = unat_double [OF False]
      have n0: "0 < unat n" using less.prems by (simp add: unat_gt_0)
      then have nz: "double_cap n \<noteq> 0" using d by (auto simp flip: unat_eq_zero)
      have "unat need - unat (double_cap n) < unat need - unat n" using nn d n0 by simp
      from less.hyps [OF this nz] obtain r where r: "grow_loop (double_cap n) need = Some r"
        "r \<noteq> 0 \<longrightarrow> (\<exists>k. unat r = 2 ^ k * unat (double_cap n)) \<and> need \<le> r \<and> (r = double_cap n \<or> unat r < 2 * unat need)"
        "r = 0 \<longrightarrow> 2 ^ 63 \<le> unat need" by blast
      have "grow_loop n need = Some r" using lt False r(1) by (simp add: grow_loop_unfold [of n])
      moreover have "(\<exists>k. unat r = 2 ^ k * unat n) \<and> need \<le> r \<and> (r = n \<or> unat r < 2 * unat need)" if nonzero: "r \<noteq> 0"
      proof -
        from r(2) nonzero obtain k where "unat r = 2 ^ k * unat (double_cap n)" "need \<le> r" "r = double_cap n \<or> unat r < 2 * unat need"
          by blast
        then have k: "unat r = 2 ^ Suc k * unat n" using d by simp
        have "unat r < 2 * unat need"
        proof (cases "r = double_cap n")
          case True
          then show ?thesis using d nn by simp
        next
          case False
          with \<open>r = double_cap n \<or> unat r < 2 * unat need\<close> show ?thesis by blast
        qed
        with k \<open>need \<le> r\<close> show ?thesis by blast
      qed
      ultimately show ?thesis using r(3) by blast
    qed
  qed
qed

text \<open>The doubling loop always returns: zero when the need is past every doubling that fits a 64-bit
  size, and otherwise the first doubling of the start that covers it.\<close>

theorem grow_loop_returns:
  assumes "n \<noteq> 0"
  shows "\<exists>r. grow_loop n need = Some r
    \<and> (r \<noteq> 0 \<longrightarrow> (\<exists>k. unat r = 2 ^ k * unat n) \<and> need \<le> r \<and> (r = n \<or> unat r < 2 * unat need))
    \<and> (r = 0 \<longrightarrow> 2 ^ 63 \<le> unat need)"
  using assms by (rule grow_loop_result)

theorem grow_loop_returns_witness:
  "grow_loop 16 100 = Some 128 \<and> (\<exists>r. grow_loop 16 (- 1) = Some r)"
proof -
  have "grow_loop 16 100 = Some 128" by code_simp
  moreover have "\<exists>r. grow_loop 16 (- 1) = Some r" using grow_loop_returns [of 16 "- 1"] by auto
  ultimately show ?thesis by blast
qed

lemma grow_cap:
  "str89__grow_cap cap need = 0 \<or> need \<le> str89__grow_cap cap need"
proof -
  let ?n = "if cap < 16 then 16 else cap"
  have "?n \<noteq> 0" by (auto simp: word_less_nat_alt)
  have "\<exists>r. grow_loop n need = Some r \<and> (r \<noteq> 0 \<longrightarrow> need \<le> r)" if "n \<noteq> 0" for n
    using grow_loop_result [OF that] by blast
  from this [OF \<open>?n \<noteq> 0\<close>] show ?thesis by (auto simp: str89__grow_cap_def)
qed

section \<open>Memory operations\<close>

lemma mem_read_block:
  "mem_block m b = Some bs \<Longrightarrow> i + n \<le> length bs \<Longrightarrow> mem_read m (Ptr b i) n = Some (take n (drop i bs))"
  by simp

lemma mem_write_block:
  "mem_block m b = Some bs \<Longrightarrow> i + length xs \<le> length bs \<Longrightarrow>
     mem_write m (Ptr b i) xs = m\<lparr>mem_block := (mem_block m)(b := Some (take i bs @ xs @ drop (i + length xs) bs))\<rparr>"
  by simp

lemma memmove_read:
  "mem_read m src n = Some xs \<Longrightarrow> memmove m dst src n = mem_write m dst xs"
  by (simp add: memmove_def)

lemma mem_read_length: "mem_read m p n = Some xs \<Longrightarrow> length xs = n"
  by (cases p) (auto split: option.splits if_splits)

text \<open>What is in another block can be read as before.\<close>

definition apart :: "ptr \<Rightarrow> nat \<Rightarrow> bool" where
  "apart p b \<longleftrightarrow> (\<forall>i. p \<noteq> Ptr b i)"

lemma mem_read_other:
  "apart p b \<Longrightarrow> mem_read (m\<lparr>mem_block := (mem_block m)(b := x)\<rparr>) p n = mem_read m p n"
  by (cases p) (auto simp: apart_def)

lemma mem_read_cong:
  "(\<And>b i. p = Ptr b i \<Longrightarrow> mem_block m' b = mem_block m b) \<Longrightarrow> mem_read m' p n = mem_read m p n"
  by (cases p) auto

section \<open>Reserving\<close>

text \<open>The bytes of the source, and where to find them once the buffer may have moved.\<close>

definition moved_source :: "str89_buf \<Rightarrow> str89_buf \<Rightarrow> str89_view \<Rightarrow> ptr" where
  "moved_source s s' v =
     (if str89__overlaps (buf_data s) (buf_len s) (view_data v)
      then ptr_add (buf_data s') (alias_offset (buf_data s) (view_data v)) else view_data v)"

lemma reserve_cases:
  assumes "heap_ok m" and "buf_ok m s"
  obtains (same) "str89_buf_reserve al m s c = (m, s, STR89_OK)" "c \<le> buf_cap s"
  | (failed) m' r where "str89_buf_reserve al m s c = (m', s, r)" "r \<noteq> STR89_OK" "mem_block m' = mem_block m"
      "mem_next m' = mem_next m" "mem_fault m' = mem_fault m"
  | (grown) m' b blk where "str89_buf_reserve al m s c = (m', s\<lparr>buf_data := Ptr b 0, buf_cap := str89__grow_cap (buf_cap s) c\<rparr>, STR89_OK)"
      "\<not> c \<le> buf_cap s" "c \<le> str89__grow_cap (buf_cap s) c"
      "b = mem_next m" "mem_next m' = Suc b" "mem_fault m' = mem_fault m" "length blk = unat (str89__grow_cap (buf_cap s) c)"
      "mem_block m' b = Some blk" "take (unat (buf_len s)) blk = buf_bytes m s"
      "\<And>a. a \<noteq> b \<Longrightarrow> mem_block m' a = others m s a"
proof (cases "c \<le> buf_cap s")
  case True
  then show thesis by (intro same) (simp_all add: str89_buf_reserve_def)
next
  case False
  let ?nc = "str89__grow_cap (buf_cap s) c"
  show thesis
  proof (cases "?nc = 0")
    case True
    then show thesis using False by (intro failed [of m STR89_ERANGE]) (simp_all add: str89_buf_reserve_def Let_def)
  next
    case nz: False
    then have c: "c \<le> ?nc" using grow_cap [of "buf_cap s" c] by simp
    have jl: "length (junk al m k) = k" for k by (simp add: junk_def)
    show thesis
    proof (cases "alloc_grants al (mem_calls m)")
      case False
      let ?m = "m\<lparr>mem_calls := Suc (mem_calls m)\<rparr>"
      have "str89__realloc al m (buf_data s) ?nc = (?m, Null)"
        using assms(2) False by (auto simp: buf_ok_def str89__malloc_def)
      then show thesis
        using \<open>\<not> c \<le> buf_cap s\<close> nz by (intro failed [of ?m STR89_ENOMEM]) (simp_all add: str89_buf_reserve_def Let_def)
    next
      case True
      consider (null) "buf_data s = Null" "buf_len s = 0"
        | (block) b blk where "buf_data s = Ptr b 0" "mem_block m b = Some blk" "length blk = unat (buf_cap s)" "buf_len s \<le> buf_cap s"
        using assms(2) by (auto simp: buf_ok_def)
      then show thesis
      proof cases
        case null
        then show thesis
          using True \<open>\<not> c \<le> buf_cap s\<close> nz c jl
          by (intro grown [of "m\<lparr>mem_calls := Suc (mem_calls m), mem_block := (mem_block m)(mem_next m \<mapsto> junk al m (unat ?nc)),
                 mem_next := Suc (mem_next m)\<rparr>" "mem_next m" "junk al m (unat ?nc)"])
             (auto simp: str89_buf_reserve_def Let_def str89__malloc_def new_block_def buf_bytes_Null others_def)
      next
        case (block b blk)
        have bn: "b \<noteq> mem_next m" using assms(1) block(2) unfolding heap_ok_def by (metis nat_neq_iff option.distinct(1))
        have le: "length blk \<le> unat ?nc" "unat (buf_len s) \<le> length blk"
          using block(3,4) c \<open>\<not> c \<le> buf_cap s\<close> by (simp_all add: word_le_nat_alt)
        have bb: "buf_bytes m s = take (unat (buf_len s)) blk" by (rule buf_bytes_block [OF block])
        let ?blk = "take (unat ?nc) blk @ drop (length blk) (junk al m (unat ?nc))"
        show thesis
          using True \<open>\<not> c \<le> buf_cap s\<close> nz c jl block(1,2) le bn bb
          by (intro grown [of "m\<lparr>mem_calls := Suc (mem_calls m),
                 mem_block := (mem_block m)(b := None, mem_next m \<mapsto> ?blk), mem_next := Suc (mem_next m)\<rparr>" "mem_next m" ?blk])
             (auto simp: str89_buf_reserve_def Let_def new_block_def others_def)
      qed
    qed
  qed
qed


lemma unat_of_small: "j \<le> unat (l :: size_t) \<Longrightarrow> unat (of_nat j :: size_t) = j"
  using unsigned_less [where ?'a = nat, of l] by (simp add: unat_of_nat)

lemma src_read:
  assumes "src_ok m s v" and "view_len v \<noteq> 0"
  shows "mem_read m (view_data v) (unat (view_len v)) = Some (view_bytes m v)" "length (view_bytes m v) = unat (view_len v)"
  using assms by (auto simp: src_ok_def view_bytes_def)

lemma reserve_spec:
  assumes "heap_ok m" and "buf_ok m s" and "str89_buf_reserve al m s c = (m', s', r)"
  shows "kept m s m' s'" "buf_bytes m' s' = buf_bytes m s" "buf_len s' = buf_len s"
    "r = STR89_OK \<Longrightarrow> c \<le> buf_cap s'" "r \<noteq> STR89_OK \<Longrightarrow> s' = s"
    "\<And>v. src_ok m s v \<Longrightarrow> view_len v \<noteq> 0 \<Longrightarrow> r = STR89_OK \<Longrightarrow>
       mem_read m' (moved_source s s' v) (unat (view_len v)) = Some (view_bytes m v)"
proof -
  have "kept m s m' s' \<and> buf_bytes m' s' = buf_bytes m s \<and> buf_len s' = buf_len s
     \<and> (r = STR89_OK \<longrightarrow> c \<le> buf_cap s') \<and> (r \<noteq> STR89_OK \<longrightarrow> s' = s)
     \<and> (\<forall>v. src_ok m s v \<longrightarrow> view_len v \<noteq> 0 \<longrightarrow> r = STR89_OK \<longrightarrow>
       mem_read m' (moved_source s s' v) (unat (view_len v)) = Some (view_bytes m v))"
    using assms(1,2)
  proof (cases rule: reserve_cases [where al = al and c = c])
    case same
    have "mem_read m (moved_source s s v) (unat (view_len v)) = Some (view_bytes m v)"
      if v: "src_ok m s v" "view_len v \<noteq> 0" for v
    proof -
      have "moved_source s s v = view_data v"
        using assms(2) v by (cases "buf_data s"; cases "view_data v") (auto simp: moved_source_def buf_ok_def src_ok_def unat_of_small [where l = "buf_len s"])
      then show ?thesis using src_read [OF v] by simp
    qed
    with same assms kept_refl [OF assms(1,2)] show ?thesis by auto
  next
    case (failed m1 r1)
    then have "kept m s m' s'" "buf_bytes m' s' = buf_bytes m s"
      using assms by (auto simp: kept_def heap_ok_def buf_ok_def others_def fun_eq_iff buf_bytes_def view_bytes_def
          str89_buf_view_def intro!: arg_cong [where f = "case_option _ _"] mem_read_cong)
    with failed assms(3) show ?thesis by auto
  next
    case (grown m1 b blk)
    let ?nc = "str89__grow_cap (buf_cap s) c"
    have eq: "m' = m1" "s' = s\<lparr>buf_data := Ptr b 0, buf_cap := ?nc\<rparr>" "r = STR89_OK" using grown(1) assms(3) by simp_all
    have free: "mem_block m b = None" using assms(1) grown(4) by (auto simp: heap_ok_def)
    have len: "buf_len s \<le> ?nc"
      using assms(2) grown(2,3) unfolding buf_ok_def by (auto simp: word_le_nat_alt)
    have "kept m s m' s'"
      unfolding kept_def
    proof (intro conjI)
      show "heap_ok m'"
        unfolding heap_ok_def
      proof (intro allI impI)
        fix a
        assume a: "mem_block m' a \<noteq> None"
        show "a < mem_next m'"
        proof (cases "a = b")
          case True
          then show ?thesis using eq(1) grown(5) by simp
        next
          case False
          then have "mem_block m a \<noteq> None" using a grown(10) eq(1) by (auto simp: others_def split: if_splits)
          then show ?thesis using assms(1) eq(1) grown(4,5) by (auto simp: heap_ok_def less_Suc_eq)
        qed
      qed
      show "buf_ok m' s'" using eq grown(7,8) len by (simp add: buf_ok_def)
      show "others m' s' = others m s" using eq grown(10) free by (auto simp: others_def fun_eq_iff)
    qed (use eq grown(4,5,6) in simp_all)
    moreover have "buf_bytes m' s' = buf_bytes m s"
      using buf_bytes_block [of s' b m' blk] eq grown(7,8,9) len by simp
    moreover have "mem_read m' (moved_source s s' v) (unat (view_len v)) = Some (view_bytes m v)"
      if v: "src_ok m s v" "view_len v \<noteq> 0" for v
    proof -
      from v obtain d j old where d: "view_data v = Ptr d j" "mem_block m d = Some old" "j + unat (view_len v) \<le> length old"
        "buf_data s = Ptr d 0 \<longrightarrow> j + unat (view_len v) \<le> unat (buf_len s)" by (auto simp: src_ok_def)
      have vb: "view_bytes m v = take (unat (view_len v)) (drop j old)" using d by (simp add: view_bytes_def)
      have db: "d \<noteq> b" using d(2) free by auto
      have n0: "0 < unat (view_len v)" using v(2) by (simp add: unat_gt_0)
      show ?thesis
      proof (cases "buf_data s = Ptr d 0")
        case True
        have j: "j + unat (view_len v) \<le> unat (buf_len s)" using d(4) True by simp
        have "unat (of_nat j :: size_t) = j"
          using j by (intro unat_of_small [where l = "buf_len s"]) simp
        then have mv: "moved_source s s' v = Ptr b j" using True d(1) j n0 eq by (simp add: moved_source_def)
        have "length old = unat (buf_cap s)" "buf_len s \<le> buf_cap s" using assms(2) True d(2) by (auto simp: buf_ok_def)
        then have "take (unat (buf_len s)) blk = take (unat (buf_len s)) old"
          using grown(9) buf_bytes_block [OF True d(2)] by simp
        then have "take (unat (view_len v)) (drop j (take (unat (buf_len s)) blk)) = take (unat (view_len v)) (drop j (take (unat (buf_len s)) old))"
          by simp
        then have "take (unat (view_len v)) (drop j blk) = take (unat (view_len v)) (drop j old)"
          using j by (simp add: drop_take min.absorb1)
        moreover have "unat (buf_len s) \<le> length blk" using len grown(7) by (simp add: word_le_nat_alt)
        ultimately show ?thesis using mv grown(8) eq(1) vb j by simp
      next
        case False
        then have "\<not> str89__overlaps (buf_data s) (buf_len s) (Ptr d j)"
          using assms(2) by (auto simp: buf_ok_def)
        then have mv: "moved_source s s' v = Ptr d j" using d(1) by (simp add: moved_source_def)
        have "mem_block m' d = Some old" using grown(10) [OF db] False d(2) eq(1) by (simp add: others_def)
        then show ?thesis using mv d(3) vb by simp
      qed
    qed
    ultimately show ?thesis using eq grown(3) by simp
  qed
  then show "kept m s m' s'" "buf_bytes m' s' = buf_bytes m s" "buf_len s' = buf_len s"
    "r = STR89_OK \<Longrightarrow> c \<le> buf_cap s'" "r \<noteq> STR89_OK \<Longrightarrow> s' = s"
    "\<And>v. src_ok m s v \<Longrightarrow> view_len v \<noteq> 0 \<Longrightarrow> r = STR89_OK \<Longrightarrow>
       mem_read m' (moved_source s s' v) (unat (view_len v)) = Some (view_bytes m v)"
    by blast+
qed

section \<open>Writing into the buffer\<close>

lemma add_some: "str89__add a b = Some c \<Longrightarrow> unat c = unat a + unat b"
proof -
  assume "str89__add a b = Some c"
  then have c: "c = a + b" "unat a \<le> unat (a + b)"
    by (auto simp: str89__add_def Let_def not_less word_le_nat_alt split: if_splits)
  have sum: "unat (a + b) = (unat a + unat b) mod 2 ^ 64" by (simp add: unat_word_ariths)
  have ub: "unat b < 2 ^ 64" "unat a < 2 ^ 64"
    using unsigned_less [where ?'a = nat, of b] unsigned_less [where ?'a = nat, of a] by simp_all
  show ?thesis
  proof (cases "unat a + unat b < 2 ^ 64")
    case True
    then show ?thesis using c sum by simp
  next
    case False
    then have "(unat a + unat b) mod 2 ^ 64 = unat a + unat b - 2 ^ 64" using ub by (subst mod_if) auto
    then show ?thesis using c sum ub False by linarith
  qed
qed

lemma add_exact:
  fixes a b c :: size_t
  assumes "unat c = unat a + unat b"
  shows "a + b = c"
proof -
  have "unat (a + b) = (unat a + unat b) mod 2 ^ 64" by (simp add: unat_word_ariths)
  also have "\<dots> = unat c" using assms unsigned_less [where ?'a = nat, of c] by simp
  finally show ?thesis by (simp add: word_unat_eq_iff)
qed

definition set_block :: "mem \<Rightarrow> nat \<Rightarrow> bytes \<Rightarrow> mem" where
  "set_block m b bs = m\<lparr>mem_block := (mem_block m)(b := Some bs)\<rparr>"

lemma set_block_simps [simp]:
  "mem_block (set_block m b bs) b = Some bs" "a \<noteq> b \<Longrightarrow> mem_block (set_block m b bs) a = mem_block m a"
  "set_block (set_block m b bs) b cs = set_block m b cs" "mem_block m b = Some bs \<Longrightarrow> set_block m b bs = m"
  by (simp_all add: set_block_def fun_upd_idem)

text \<open>The guarded moves of the editing operations, whose source is readable and whose target fits.\<close>

lemma move_into:
  assumes "mem_block m b = Some blk" and "mem_read m src n = Some xs" and "j + n \<le> length blk"
  shows "memmove m (Ptr b j) src n = set_block m b (take j blk @ xs @ drop (j + n) blk)"
  using assms mem_read_length [OF assms(2)] by (simp add: memmove_def set_block_def)

lemma move_into_if:
  assumes "mem_block m b = Some blk" and "mem_read m src (unat w) = Some xs" and "j + unat w \<le> length blk"
  shows "(if w \<noteq> 0 then memmove m (Ptr b j) src (unat w) else m) = set_block m b (take j blk @ xs @ drop (j + unat w) blk)"
proof (cases "w = 0")
  case True
  then have "xs = []" using mem_read_length [OF assms(2)] by simp
  then show ?thesis using True assms(1) by simp
next
  case False
  then show ?thesis using move_into [OF assms] by simp
qed

lemma written:
  assumes "heap_ok m" and "buf_ok m s" and "buf_data s = Ptr b 0" and "length blk = unat (buf_cap s)" and "n \<le> buf_cap s"
  shows "kept m s (set_block m b blk) (s\<lparr>buf_len := n\<rparr>)"
    "buf_bytes (set_block m b blk) (s\<lparr>buf_len := n\<rparr>) = take (unat n) blk"
proof -
  have live: "mem_block m b \<noteq> None" using assms(2,3) by (auto simp: buf_ok_def)
  then have "heap_ok (set_block m b blk)" using assms(1) by (auto simp: heap_ok_def set_block_def)
  moreover have "buf_ok (set_block m b blk) (s\<lparr>buf_len := n\<rparr>)" using assms(3-5) by (simp add: buf_ok_def)
  moreover have "others (set_block m b blk) (s\<lparr>buf_len := n\<rparr>) = others m s"
    using assms(3) by (auto simp: others_def set_block_def fun_eq_iff)
  ultimately show "kept m s (set_block m b blk) (s\<lparr>buf_len := n\<rparr>)" by (simp add: kept_def set_block_def)
  show "buf_bytes (set_block m b blk) (s\<lparr>buf_len := n\<rparr>) = take (unat n) blk"
    using buf_bytes_block [of "s\<lparr>buf_len := n\<rparr>" b "set_block m b blk" blk] assms(3-5) by simp
qed

lemma has_block:
  assumes "buf_ok m s" and "n \<le> buf_cap s" and "n \<noteq> 0"
  obtains b blk where "buf_data s = Ptr b 0" "mem_block m b = Some blk" "length blk = unat (buf_cap s)"
    "buf_len s \<le> buf_cap s" "buf_bytes m s = take (unat (buf_len s)) blk"
proof -
  have "\<not> (buf_data s = Null \<and> buf_len s = 0 \<and> buf_cap s = 0)" using assms(2,3) by auto
  then obtain b blk where "buf_data s = Ptr b 0" "mem_block m b = Some blk" "length blk = unat (buf_cap s)"
    "buf_len s \<le> buf_cap s" using assms(1) unfolding buf_ok_def by blast
  then show thesis using that buf_bytes_block by blast
qed

section \<open>Assignment and appending\<close>

lemma edits_failed: "kept m s m' s \<Longrightarrow> buf_bytes m' s = buf_bytes m s \<Longrightarrow> r \<noteq> STR89_OK \<Longrightarrow> edits m s xs (m', s, r)"
  by (simp add: edits_def)

lemma edits_refused: "heap_ok m \<Longrightarrow> buf_ok m s \<Longrightarrow> r \<noteq> STR89_OK \<Longrightarrow> edits m s xs (m, s, r)"
  by (simp add: edits_def kept_refl)

lemma moved_source_eq:
  "(if str89__overlaps (buf_data s) (buf_len s) (view_data v)
      then ptr_add (buf_data s') (if str89__overlaps (buf_data s) (buf_len s) (view_data v)
        then alias_offset (buf_data s) (view_data v) else 0) else view_data v) = moved_source s s' v"
  by (simp add: moved_source_def)

lemma buf_set_edits:
  assumes "heap_ok m" and "buf_ok m s" and "src_ok m s v"
  shows "edits m s (view_bytes m v) (str89_buf_set al m s v)"
proof -
  obtain m1 s1 r where res: "str89_buf_reserve al m s (view_len v) = (m1, s1, r)" by (cases "str89_buf_reserve al m s (view_len v)")
  note spec = reserve_spec [OF assms(1,2) res]
  show ?thesis
  proof (cases "r = STR89_OK")
    case False
    then show ?thesis using res spec by (simp add: str89_buf_set_def edits_failed)
  next
    case True
    have k: "heap_ok m1" "buf_ok m1 s1" using spec(1) by (simp_all add: kept_def)
    show ?thesis
    proof (cases "view_len v = 0")
      case z: True
      have "kept m1 s1 m1 (s1\<lparr>buf_len := 0\<rparr>)" "buf_bytes m1 (s1\<lparr>buf_len := 0\<rparr>) = []"
        using k by (auto simp: kept_def buf_ok_def others_def buf_bytes_def view_bytes_def str89_buf_view_def)
      moreover have "view_bytes m v = []" using z by (cases "view_data v") (auto simp: view_bytes_def split: option.splits)
      ultimately show ?thesis
        using True z res kept_trans [OF spec(1)] by (simp add: str89_buf_set_def edits_def)
    next
      case False
      obtain b blk where b: "buf_data s1 = Ptr b 0" "mem_block m1 b = Some blk" "length blk = unat (buf_cap s1)"
        using has_block [OF k(2) spec(4) [OF True] False] by blast
      have rd: "mem_read m1 (moved_source s s1 v) (unat (view_len v)) = Some (view_bytes m v)"
        by (rule spec(6) [OF assms(3) False True])
      have fit: "unat (view_len v) \<le> length blk" using spec(4) [OF True] b(3) by (simp add: word_le_nat_alt)
      have mv: "(if view_len v \<noteq> 0 then memmove m1 (Ptr b 0) (moved_source s s1 v) (unat (view_len v)) else m1)
          = set_block m1 b (view_bytes m v @ drop (unat (view_len v)) blk)"
        using move_into_if [OF b(2) rd, of 0] fit by simp
      let ?blk = "view_bytes m v @ drop (unat (view_len v)) blk"
      have lv: "length (view_bytes m v) = unat (view_len v)" by (rule src_read [OF assms(3) False])
      have eq: "str89_buf_set al m s v = (set_block m1 b ?blk, s1\<lparr>buf_len := view_len v\<rparr>, STR89_OK)"
        using res True False b(1) mv by (simp add: str89_buf_set_def Let_def moved_source_eq)
      have "length ?blk = unat (buf_cap s1)" using lv fit b(3) by simp
      from written [OF k b(1) this spec(4) [OF True]]
      show ?thesis using lv kept_trans [OF spec(1)] unfolding eq by (simp add: edits_def)
    qed
  qed
qed

lemma view_bytes_zero: "view_len v = 0 \<Longrightarrow> view_bytes m v = []"
  by (cases "view_data v") (auto simp: view_bytes_def split: option.splits)

lemma fits: "c \<le> k \<Longrightarrow> length blk = unat (k :: size_t) \<Longrightarrow> unat c \<le> length blk"
  by (simp add: word_le_nat_alt)

lemma buf_append_edits:
  assumes "heap_ok m" and "buf_ok m s" and "src_ok m s v"
  shows "edits m s (buf_bytes m s @ view_bytes m v) (str89_buf_append al m s v)"
proof (cases "view_len v = 0")
  case True
  then show ?thesis using assms by (simp add: str89_buf_append_def edits_def kept_refl view_bytes_zero)
next
  case nz: False
  show ?thesis
  proof (cases "str89__add (buf_len s) (view_len v)")
    case None
    then show ?thesis using nz assms by (simp add: str89_buf_append_def edits_refused)
  next
    case (Some need)
    obtain m1 s1 r where res: "str89_buf_reserve al m s need = (m1, s1, r)" by (cases "str89_buf_reserve al m s need")
    note spec = reserve_spec [OF assms(1,2) res]
    show ?thesis
    proof (cases "r = STR89_OK")
      case False
      then show ?thesis using res spec nz Some by (simp add: str89_buf_append_def edits_failed)
    next
      case True
      have k: "heap_ok m1" "buf_ok m1 s1" using spec(1) by (simp_all add: kept_def)
      have need: "unat need = unat (buf_len s) + unat (view_len v)" using add_some [OF Some] .
      have "need \<noteq> 0" using need nz by (auto simp flip: unat_eq_zero)
      then obtain b blk where b: "buf_data s1 = Ptr b 0" "mem_block m1 b = Some blk" "length blk = unat (buf_cap s1)"
        "buf_bytes m1 s1 = take (unat (buf_len s1)) blk"
        using has_block [OF k(2) spec(4) [OF True]] by blast
      have rd: "mem_read m1 (moved_source s s1 v) (unat (view_len v)) = Some (view_bytes m v)"
        by (rule spec(6) [OF assms(3) nz True])
      have fit: "unat need \<le> length blk" using fits [OF spec(4) [OF True] b(3)] .
      have mv: "memmove m1 (Ptr b (unat (buf_len s))) (moved_source s s1 v) (unat (view_len v)) = set_block m1 b
          (take (unat (buf_len s)) blk @ view_bytes m v @ drop (unat need) blk)"
        using move_into [OF b(2) rd, of "unat (buf_len s)"] fit need by simp
      have lv: "length (view_bytes m v) = unat (view_len v)" by (rule src_read [OF assms(3) nz])
      let ?blk = "take (unat (buf_len s)) blk @ view_bytes m v @ drop (unat need) blk"
      have eq: "str89_buf_append al m s v = (set_block m1 b ?blk, s1\<lparr>buf_len := need\<rparr>, STR89_OK)"
        using res True nz Some b(1) mv spec(3) by (simp add: str89_buf_append_def Let_def moved_source_eq)
      have "length ?blk = unat (buf_cap s1)" using lv fit b(3) need by simp
      from written [OF k b(1) this spec(4) [OF True]]
      show ?thesis using lv kept_trans [OF spec(1)] spec(2,3) b(4) need fit unfolding eq by (simp add: edits_def)
    qed
  qed
qed

section \<open>Insertion, erasure and replacement\<close>

text \<open>Moving the tail and writing the new bytes before it.\<close>

lemma splice:
  fixes blk xs :: bytes and t l n :: nat
  assumes "l + d + t \<le> length blk" and "l + n + t \<le> length blk" and "length xs = n"
  defines "mid \<equiv> take (l + n) blk @ take t (drop (l + d) blk) @ drop (l + n + t) blk"
  shows "take (l + n + t) (take l mid @ xs @ drop (l + n) mid) = take l blk @ xs @ take t (drop (l + d) blk)"
    "length (take l mid @ xs @ drop (l + n) mid) = length blk" "length mid = length blk"
  using assms(1-3) by (simp_all add: mid_def min.absorb1)

definition edit_ok :: "size_t \<Rightarrow> bytes \<Rightarrow> bytes \<Rightarrow> bytes \<Rightarrow> size_t \<Rightarrow> (mem \<Rightarrow> str89_buf \<Rightarrow> ptr \<Rightarrow> mem \<times> str89_buf) \<Rightarrow> bool" where
  "edit_ok need xs old new len edit \<longleftrightarrow> (\<forall>m s p. heap_ok m \<longrightarrow> buf_ok m s \<longrightarrow> buf_bytes m s = old \<longrightarrow> buf_len s = len \<longrightarrow> need \<le> buf_cap s \<longrightarrow>
     mem_read m p (length xs) = Some xs \<longrightarrow> (\<forall>b i. p = Ptr b i \<longrightarrow> buf_data s \<noteq> Ptr b 0) \<longrightarrow>
     (case edit m s p of (m', s') \<Rightarrow> kept m s m' s' \<and> buf_bytes m' s' = new))"

lemma edit_okD:
  "edit_ok need xs old new len edit \<Longrightarrow> heap_ok m \<Longrightarrow> buf_ok m s \<Longrightarrow> buf_bytes m s = old \<Longrightarrow> buf_len s = len \<Longrightarrow>
     need \<le> buf_cap s \<Longrightarrow> mem_read m (Ptr d i) (length xs) = Some xs \<Longrightarrow> buf_data s \<noteq> Ptr d 0 \<Longrightarrow>
     edit m s (Ptr d i) = (m', s') \<Longrightarrow> kept m s m' s' \<and> buf_bytes m' s' = new"
  unfolding edit_ok_def by fastforce

lemma mem_read_mem_block: "mem_block m' = mem_block m \<Longrightarrow> mem_read m' p n = mem_read m p n"
  by (rule mem_read_cong) simp

text \<open>A block allocated for the time of an edit, and released after it.\<close>

lemma release_tmp:
  assumes ok: "heap_ok m" "buf_ok m s"
    and m0: "m0 = m\<lparr>mem_calls := k, mem_block := (mem_block m)(mem_next m \<mapsto> xs), mem_next := Suc (mem_next m)\<rparr>"
    and e: "edits m0 s new (m2, s2, r)" and b0: "buf_bytes m0 s = buf_bytes m s"
  shows "edits m s new (str89__free m2 (Ptr (mem_next m) 0), s2, r)"
proof -
  let ?d = "mem_next m"
  let ?m3 = "m2\<lparr>mem_block := (mem_block m2)(?d := None)\<rparr>"
  have free: "mem_block m ?d = None" using ok(1) by (auto simp: heap_ok_def)
  then have nd: "buf_data s \<noteq> Ptr ?d 0" using ok(2) by (auto simp: buf_ok_def)
  have o: "others m2 s2 = others m0 s" using e by (simp add: edits_def kept_def)
  then have "others m2 s2 ?d = Some xs" using nd m0 by (simp add: others_def)
  then have d2: "mem_block m2 ?d = Some xs" "buf_data s2 \<noteq> Ptr ?d 0" by (auto simp: others_def split: if_splits)
  have bytes: "buf_bytes ?m3 s2 = buf_bytes m2 s2"
    using d2(2) e by (auto simp: edits_def kept_def buf_ok_def buf_bytes_def view_bytes_def str89_buf_view_def)
  have "kept m s ?m3 s2"
    unfolding kept_def
  proof (intro conjI)
    have k: "heap_ok m2" "buf_ok m2 s2" "mem_fault m2 = mem_fault m" "Suc ?d \<le> mem_next m2"
      using e m0 by (simp_all add: edits_def kept_def)
    then show "heap_ok ?m3" "mem_fault ?m3 = mem_fault m" "mem_next m \<le> mem_next ?m3" by (auto simp: heap_ok_def)
    show "buf_ok ?m3 s2" using k(2) d2(2) by (auto simp: buf_ok_def)
    show "others ?m3 s2 = others m s"
    proof
      fix a
      show "others ?m3 s2 a = others m s a"
      proof (cases "a = ?d")
        case True
        then show ?thesis using free by (simp add: others_def)
      next
        case False
        then have "others ?m3 s2 a = others m2 s2 a" "others m0 s a = others m s a" using m0 by (simp_all add: others_def)
        then show ?thesis using o by simp
      qed
    qed
  qed
  then have "edits m s new (?m3, s2, r)" using e bytes b0 by (auto simp: edits_def)
  then show ?thesis using d2(1) by simp
qed

lemma with_tmp_block:
  assumes ok: "heap_ok m" "buf_ok m s"
    and m0: "m0 = m\<lparr>mem_calls := k, mem_block := (mem_block m)(mem_next m \<mapsto> xs), mem_next := Suc (mem_next m)\<rparr>"
  shows "heap_ok m0" "buf_ok m0 s" "buf_bytes m0 s = buf_bytes m s" "buf_data s \<noteq> Ptr (mem_next m) 0"
proof -
  have "mem_block m (mem_next m) = None" using ok(1) by (auto simp: heap_ok_def)
  then show nd: "buf_data s \<noteq> Ptr (mem_next m) 0" using ok(2) by (auto simp: buf_ok_def)
  show "heap_ok m0" using ok(1) m0 by (auto simp: heap_ok_def less_Suc_eq)
  show "buf_ok m0 s" using ok(2) nd m0 by (auto simp: buf_ok_def)
  show "buf_bytes m0 s = buf_bytes m s" using nd ok(2) m0
    by (auto simp: buf_bytes_def view_bytes_def str89_buf_view_def buf_ok_def)
qed

lemma copy_alias_copies:
  assumes "heap_ok m" and "src_ok m s v" and "view_len v \<noteq> 0" and "alloc_grants al (mem_calls m)"
  shows "copy_alias al m v =
    (m\<lparr>mem_calls := Suc (mem_calls m), mem_block := (mem_block m)(mem_next m \<mapsto> view_bytes m v), mem_next := Suc (mem_next m)\<rparr>,
     Some (Ptr (mem_next m) 0))"
proof -
  note src = src_read [OF assms(2,3)]
  have free: "mem_block m (mem_next m) = None" using assms(1) by (auto simp: heap_ok_def)
  have "mem_read m' (view_data v) (unat (view_len v)) = Some (view_bytes m v)"
    if same: "\<And>b. b \<noteq> mem_next m \<Longrightarrow> mem_block m' b = mem_block m b" for m'
  proof -
    have "mem_read m' (view_data v) (unat (view_len v)) = mem_read m (view_data v) (unat (view_len v))"
    proof (rule mem_read_cong)
      fix b i
      assume "view_data v = Ptr b i"
      then have "b \<noteq> mem_next m" using src(1) free by auto
      then show "mem_block m' b = mem_block m b" by (rule same)
    qed
    then show ?thesis using src(1) by simp
  qed
  then show ?thesis
    using assms(4) src(2) by (simp add: copy_alias_def str89__malloc_def new_block_def memmove_def junk_def)
qed

lemma with_source_edits:
  assumes ok: "heap_ok m" "buf_ok m s" "src_ok m s v" "view_len v \<noteq> 0"
    and edit: "edit_ok need (view_bytes m v) (buf_bytes m s) new (buf_len s) edit"
  shows "edits m s new (with_source al m s v need edit)"
proof -
  let ?n = "unat (view_len v)"
  note src = src_read [OF ok(3,4)]
  have step: "edits m0 s new (case str89_buf_reserve al m0 s need of (m1, s1, r) \<Rightarrow>
       if r \<noteq> STR89_OK then (m1, s1, r) else case edit m1 s1 p of (m2, s2) \<Rightarrow> (m2, s2, STR89_OK))"
    if m0: "heap_ok m0" "buf_ok m0 s" "buf_bytes m0 s = buf_bytes m s"
      and p: "p = Ptr d i" "buf_data s \<noteq> Ptr d 0" "mem_read m0 p ?n = Some (view_bytes m v)" for m0 p d i
  proof -
    obtain m1 s1 r where res: "str89_buf_reserve al m0 s need = (m1, s1, r)" by (cases "str89_buf_reserve al m0 s need")
    note spec = reserve_spec [OF m0(1,2) res]
    show ?thesis
    proof (cases "r = STR89_OK")
      case False
      then show ?thesis using res spec by (simp add: edits_failed)
    next
      case True
      obtain xs where live: "mem_block m0 d = Some xs" using p(1,3) by (auto split: option.splits)
      then have "others m0 s d = Some xs" using p(2) by (simp add: others_def)
      then have "others m1 s1 d = Some xs" using spec(1) by (simp add: kept_def)
      then have o: "buf_data s1 \<noteq> Ptr d 0" "mem_block m1 d = Some xs" by (auto simp: others_def split: if_splits)
      have "mem_read m1 p ?n = Some (view_bytes m v)" using p o(2) live by simp
      then have rd: "mem_read m1 (Ptr d i) (length (view_bytes m v)) = Some (view_bytes m v)" using p(1) src(2) by simp
      obtain m2 s2 where e: "edit m1 s1 p = (m2, s2)" by (cases "edit m1 s1 p")
      have k: "heap_ok m1" "buf_ok m1 s1" using spec(1) by (simp_all add: kept_def)
      have "buf_bytes m1 s1 = buf_bytes m s" using spec(2) m0(3) by simp
      from edit_okD [OF edit k this spec(3) spec(4) [OF True] rd o(1)] e p(1)
      have "kept m1 s1 m2 s2 \<and> buf_bytes m2 s2 = new" by simp
      then show ?thesis using res True e kept_trans [OF spec(1)] by (simp add: edits_def)
    qed
  qed
  show ?thesis
  proof (cases "str89__overlaps (buf_data s) (buf_len s) (view_data v)")
    case False
    from ok(3,4) obtain d i where v: "view_data v = Ptr d i" "buf_data s = Ptr d 0 \<longrightarrow> i + unat (view_len v) \<le> unat (buf_len s)"
      by (auto simp: src_ok_def)
    have "0 < unat (view_len v)" using ok(4) by (simp add: unat_gt_0)
    then have "str89__overlaps (Ptr d 0) (buf_len s) (Ptr d i)" if "buf_data s = Ptr d 0" using v(2) that by simp
    then have d: "view_data v = Ptr d i" "buf_data s \<noteq> Ptr d 0" using False v(1) by auto
    obtain m1 s1 r where res: "str89_buf_reserve al m s need = (m1, s1, r)" by (cases "str89_buf_reserve al m s need")
    obtain m2 s2 where e: "edit m1 s1 (view_data v) = (m2, s2)" by (cases "edit m1 s1 (view_data v)")
    from step [OF ok(1,2) refl d src(1)] show ?thesis
      using False res e by (simp add: with_source_def drop_tmp_def split: if_splits)
  next
    case inside: True
    show ?thesis
    proof (cases "alloc_grants al (mem_calls m)")
      case False
      have "kept m s (m\<lparr>mem_calls := Suc (mem_calls m)\<rparr>) s" "buf_bytes (m\<lparr>mem_calls := Suc (mem_calls m)\<rparr>) s = buf_bytes m s"
        using ok by (auto simp: kept_def heap_ok_def buf_ok_def others_def fun_eq_iff buf_bytes_def view_bytes_def
          intro!: arg_cong [where f = "case_option _ _"] mem_read_mem_block)
      then show ?thesis
        using inside False by (simp add: with_source_def copy_alias_def str89__malloc_def edits_failed)
    next
      case True
      let ?d = "mem_next m"
      let ?m0 = "m\<lparr>mem_calls := Suc (mem_calls m), mem_block := (mem_block m)(?d \<mapsto> view_bytes m v), mem_next := Suc ?d\<rparr>"
      note m0 = with_tmp_block [where k = "Suc (mem_calls m)" and xs = "view_bytes m v", OF ok(1,2) refl]
      note copy = copy_alias_copies [OF ok(1,3,4) True]
      have "mem_read ?m0 (Ptr ?d 0) ?n = Some (view_bytes m v)" using src(2) by simp
      from step [OF m0(1-3) refl m0(4) this] obtain m2 s2 r where
        r: "(case str89_buf_reserve al ?m0 s need of (m1, s1, r) \<Rightarrow>
             if r \<noteq> STR89_OK then (m1, s1, r) else case edit m1 s1 (Ptr ?d 0) of (m2, s2) \<Rightarrow> (m2, s2, STR89_OK)) = (m2, s2, r)"
        and e: "edits ?m0 s new (m2, s2, r)" by (cases "case str89_buf_reserve al ?m0 s need of (m1, s1, r) \<Rightarrow>
             if r \<noteq> STR89_OK then (m1, s1, r) else case edit m1 s1 (Ptr ?d 0) of (m2, s2) \<Rightarrow> (m2, s2, STR89_OK)") auto
      obtain m1 s1 r1 where res: "str89_buf_reserve al ?m0 s need = (m1, s1, r1)" by (cases "str89_buf_reserve al ?m0 s need")
      obtain m4 s4 where ed: "edit m1 s1 (Ptr ?d 0) = (m4, s4)" by (cases "edit m1 s1 (Ptr ?d 0)")
      have "with_source al m s v need edit = (drop_tmp m2 (Ptr ?d 0), s2, r)"
        using r inside copy res ed by (simp add: with_source_def split: if_splits)
      from release_tmp [OF ok(1,2) refl e m0(3)]
      show ?thesis using \<open>with_source al m s v need edit = _\<close> by (simp add: drop_tmp_def)
    qed
  qed
qed

lemma shift_write:
  fixes tail w :: size_t
  assumes blk: "mem_block m b = Some blk"
    and bounds: "l + d + unat tail \<le> length blk" "l + unat w + unat tail \<le> length blk"
    and src: "mem_read m (Ptr c i) (unat w) = Some xs" "c \<noteq> b"
  obtains blk' where "length blk' = length blk"
    "take (l + unat w + unat tail) blk' = take l blk @ xs @ take (unat tail) (drop (l + d) blk)"
    "(let m' = (if tail \<noteq> 0 then memmove m (Ptr b (l + unat w)) (Ptr b (l + d)) (unat tail) else m) in
      if w \<noteq> 0 then memmove m' (Ptr b l) (Ptr c i) (unat w) else m') = set_block m b blk'"
proof -
  define mid where "mid = take (l + unat w) blk @ take (unat tail) (drop (l + d) blk) @ drop (l + unat w + unat tail) blk"
  have sp: "take (l + unat w + unat tail) (take l mid @ xs @ drop (l + unat w) mid) = take l blk @ xs @ take (unat tail) (drop (l + d) blk)"
    "length (take l mid @ xs @ drop (l + unat w) mid) = length blk" "length mid = length blk"
    unfolding mid_def by (rule splice [OF bounds mem_read_length [OF src(1)]])+
  have "mem_read m (Ptr b (l + d)) (unat tail) = Some (take (unat tail) (drop (l + d) blk))"
    using blk bounds(1) by (rule mem_read_block)
  from move_into_if [OF blk this bounds(2)]
  have m1: "(if tail \<noteq> 0 then memmove m (Ptr b (l + unat w)) (Ptr b (l + d)) (unat tail) else m) = set_block m b mid"
    unfolding mid_def .
  have rd: "mem_read (set_block m b mid) (Ptr c i) (unat w) = Some xs" using src by simp
  have le: "l + unat w \<le> length mid" using sp(3) bounds(2) by simp
  from move_into_if [OF set_block_simps(1) rd le] have "(if w \<noteq> 0 then memmove (set_block m b mid) (Ptr b l) (Ptr c i) (unat w) else set_block m b mid)
      = set_block m b (take l mid @ xs @ drop (l + unat w) mid)"
    by (simp only: set_block_simps(3))
  then show thesis using that [OF sp(2,1)] m1 by (simp only: Let_def)
qed

lemma insert_bytes_ok:
  assumes "offset \<le> len" and "unat need = unat len + unat n" and "length xs = unat n" and "n \<noteq> 0"
  shows "edit_ok need xs old (take (unat offset) old @ xs @ drop (unat offset) old) len
    (\<lambda>m s source. insert_bytes m s offset source n)"
  unfolding edit_ok_def
proof (intro allI impI, goal_cases)
  case (1 m s p)
  have "need \<noteq> 0" using assms(2,4) by (auto simp flip: unat_eq_zero)
  then obtain b blk where b: "buf_data s = Ptr b 0" "mem_block m b = Some blk" "length blk = unat (buf_cap s)"
    "buf_bytes m s = take (unat (buf_len s)) blk"
    using has_block [OF 1(2,5)] by blast
  have t: "unat (len - offset) = unat len - unat offset" "unat offset \<le> unat len"
    using assms(1) by (simp_all add: unat_sub word_le_nat_alt)
  have fit: "unat need \<le> length blk" using fits [OF 1(5) b(3)] .
  have "0 < unat n" using assms(4) by (simp add: unat_gt_0)
  then obtain d i where p: "p = Ptr d i" using 1(6) assms(3) by (cases p) (auto split: if_splits)
  have rd: "mem_read m (Ptr d i) (unat n) = Some xs" "d \<noteq> b" using 1(6,7) p assms(3) b(1) by auto
  have bounds: "unat offset + 0 + unat (len - offset) \<le> length blk" "unat offset + unat n + unat (len - offset) \<le> length blk"
    using t fit assms(2) by simp_all
  from shift_write [OF b(2) bounds rd] obtain blk' where w: "length blk' = length blk"
    "take (unat offset + unat n + unat (len - offset)) blk' = take (unat offset) blk @ xs @ take (unat (len - offset)) (drop (unat offset + 0) blk)"
    "(let m' = (if len - offset \<noteq> 0 then memmove m (Ptr b (unat offset + unat n)) (Ptr b (unat offset + 0)) (unat (len - offset)) else m) in
      if n \<noteq> 0 then memmove m' (Ptr b (unat offset)) (Ptr d i) (unat n) else m') = set_block m b blk'" by blast
  have eq: "insert_bytes m s offset p n = (set_block m b blk', s\<lparr>buf_len := need\<rparr>)"
    using w(3) by (simp only: insert_bytes_def Let_def ptr_add.simps b(1) 1(4) p add_0_left add_0_right add_exact [OF assms(2)])
  have "take (unat offset) blk = take (unat offset) old" "take (unat (len - offset)) (drop (unat offset + 0) blk) = drop (unat offset) old"
    using 1(3,4) b(4) t by (auto simp: drop_take min.absorb2)
  moreover have "unat need = unat offset + unat n + unat (len - offset)" using assms(2) t by simp
  ultimately show ?case using written [OF 1(1,2) b(1) _ 1(5)] w(1,2) b(3) unfolding eq by simp
qed

lemma replace_bytes_ok:
  assumes "unat offset + unat k \<le> unat len" and "unat need = unat len - unat k + unat n" and "length xs = unat n" and "n \<noteq> 0"
  shows "edit_ok need xs old (take (unat offset) old @ xs @ drop (unat offset + unat k) old) len
    (\<lambda>m s source. replace_bytes m s offset k source n)"
  unfolding edit_ok_def
proof (intro allI impI, goal_cases)
  case (1 m s p)
  have "need \<noteq> 0" using assms(2,4) by (auto simp flip: unat_eq_zero)
  then obtain b blk where b: "buf_data s = Ptr b 0" "mem_block m b = Some blk" "length blk = unat (buf_cap s)"
    "buf_bytes m s = take (unat (buf_len s)) blk"
    using has_block [OF 1(2,5)] by blast
  have t1: "unat (len - offset) = unat len - unat offset" "unat (len - k) = unat len - unat k"
    using assms(1) by (simp_all add: unat_sub word_le_nat_alt)
  then have t: "unat (len - offset - k) = unat len - unat offset - unat k"
    using assms(1) by (simp add: unat_sub word_le_nat_alt)
  have fit: "unat need \<le> length blk" using fits [OF 1(5) b(3)] .
  have ll: "unat len \<le> length blk"
    using 1(2,4) b by (auto simp: buf_ok_def word_le_nat_alt)
  have "0 < unat n" using assms(4) by (simp add: unat_gt_0)
  then obtain d i where p: "p = Ptr d i" using 1(6) assms(3) by (cases p) (auto split: if_splits)
  have rd: "mem_read m (Ptr d i) (unat n) = Some xs" "d \<noteq> b" using 1(6,7) p assms(3) b(1) by auto
  have bounds: "unat offset + unat k + unat (len - offset - k) \<le> length blk" "unat offset + unat n + unat (len - offset - k) \<le> length blk"
    using t fit assms(1,2) ll by simp_all
  from shift_write [OF b(2) bounds rd] obtain blk' where w: "length blk' = length blk"
    "take (unat offset + unat n + unat (len - offset - k)) blk' =
       take (unat offset) blk @ xs @ take (unat (len - offset - k)) (drop (unat offset + unat k) blk)"
    "(let m' = (if len - offset - k \<noteq> 0 then memmove m (Ptr b (unat offset + unat n)) (Ptr b (unat offset + unat k)) (unat (len - offset - k)) else m) in
      if n \<noteq> 0 then memmove m' (Ptr b (unat offset)) (Ptr d i) (unat n) else m') = set_block m b blk'" by blast
  have "unat need = unat (len - k) + unat n" using assms(2) t1 by simp
  note sum = add_exact [OF this]
  have eq: "replace_bytes m s offset k p n = (set_block m b blk', s\<lparr>buf_len := need\<rparr>)"
    using w(3) by (simp only: replace_bytes_def Let_def ptr_add.simps b(1) 1(4) p add_0_left sum)
  have "take (unat offset) blk = take (unat offset) old" "take (unat (len - offset - k)) (drop (unat offset + unat k) blk) = drop (unat offset + unat k) old"
    using 1(3,4) b(4) t assms(1) by (auto simp: drop_take min.absorb2)
  moreover have "unat need = unat offset + unat n + unat (len - offset - k)" using assms(1,2) t by simp
  ultimately show ?case using written [OF 1(1,2) b(1) _ 1(5)] w(1,2) b(3) unfolding eq by simp
qed

lemma buf_insert_edits:
  assumes "heap_ok m" and "buf_ok m s" and "src_ok m s v"
  shows "edits m s (take (unat offset) (buf_bytes m s) @ view_bytes m v @ drop (unat offset) (buf_bytes m s))
    (str89_buf_insert al m s offset v)"
proof (cases "view_len v = 0")
  case True
  then show ?thesis
    using assms by (simp add: str89_buf_insert_def edits_refused view_bytes_zero) (simp add: edits_def kept_refl)
next
  case nz: False
  show ?thesis
  proof (cases "str89__add (buf_len s) (view_len v)")
    case None
    then show ?thesis using nz assms by (simp add: str89_buf_insert_def edits_refused)
  next
    case (Some need)
    show ?thesis
    proof (cases "buf_len s < offset \<or> \<not> str89_view_is_boundary m (str89_buf_view s) offset")
      case True
      then show ?thesis using assms by (auto simp: str89_buf_insert_def edits_refused)
    next
      case False
      then have "offset \<le> buf_len s" by (simp add: not_less)
      from insert_bytes_ok [OF this add_some [OF Some] src_read(2) [OF assms(3) nz] nz]
      have "edit_ok need (view_bytes m v) (buf_bytes m s)
          (take (unat offset) (buf_bytes m s) @ view_bytes m v @ drop (unat offset) (buf_bytes m s)) (buf_len s)
          (\<lambda>m s source. insert_bytes m s offset source (view_len v))" .
      from with_source_edits [OF assms nz this] show ?thesis
        using False Some nz by (simp add: str89_buf_insert_def)
    qed
  qed
qed

lemma buf_erase_edits:
  assumes "heap_ok m" and "buf_ok m s"
  shows "edits m s (take (unat offset) (buf_bytes m s) @ drop (unat offset + unat k) (buf_bytes m s)) (str89_buf_erase m s offset k)"
proof (cases "str89__add offset k")
  case None
  then show ?thesis using assms by (simp add: str89_buf_erase_def edits_refused)
next
  case (Some e)
  note e = add_some [OF Some]
  show ?thesis
  proof (cases "buf_len s < e \<or> \<not> str89_view_is_boundary m (str89_buf_view s) offset
      \<or> \<not> str89_view_is_boundary m (str89_buf_view s) e")
    case True
    then show ?thesis using assms Some by (auto simp: str89_buf_erase_def edits_refused)
  next
    case False
    then have le: "unat e \<le> unat (buf_len s)" "e \<le> buf_len s" by (simp_all add: word_le_nat_alt not_less)
    have t: "unat (buf_len s - e) = unat (buf_len s) - unat e" "unat (buf_len s - k) = unat (buf_len s) - unat k"
      using le e by (simp_all add: unat_sub word_le_nat_alt)
    have fin: "str89_buf_erase m s offset k = (let tail = buf_len s - e;
        m = (if tail \<noteq> 0 then memmove m (ptr_add (buf_data s) offset) (ptr_add (buf_data s) e) (unat tail) else m) in
        (m, s\<lparr>buf_len := buf_len s - k\<rparr>, STR89_OK))"
      using False Some by (auto simp: str89_buf_erase_def)
    show ?thesis
    proof (cases "buf_cap s = 0")
      case True
      then have z: "buf_len s = 0" using assms(2) by (auto simp: buf_ok_def)
      then have ez: "e = 0" using le by simp
      then have "k = 0" using e by (simp add: word_unat_eq_iff)
      then have "s\<lparr>buf_len := buf_len s - k\<rparr> = s" by simp
      then have "str89_buf_erase m s offset k = (m, s, STR89_OK)" using fin z ez by (simp add: Let_def)
      moreover have "buf_bytes m s = []" using length_buf_bytes [OF assms(2)] z by simp
      ultimately show ?thesis using assms by (simp add: edits_def kept_refl)
    next
      case cap: False
      obtain b blk where b: "buf_data s = Ptr b 0" "mem_block m b = Some blk" "length blk = unat (buf_cap s)"
        "buf_len s \<le> buf_cap s" "buf_bytes m s = take (unat (buf_len s)) blk"
        using has_block [OF assms(2) order_refl cap] by blast
      have ll: "unat (buf_len s) \<le> length blk" by (rule fits [OF b(4,3)])
      have rd: "mem_read m (Ptr b (unat e)) (unat (buf_len s - e)) = Some (take (unat (buf_len s - e)) (drop (unat e) blk))"
        using b(2) ll t le by simp
      let ?blk = "take (unat offset) blk @ take (unat (buf_len s - e)) (drop (unat e) blk) @ drop (unat offset + unat (buf_len s - e)) blk"
      have "unat offset + unat (buf_len s - e) \<le> length blk" using t le e ll by simp
      from move_into_if [OF b(2) rd this]
      have eq: "str89_buf_erase m s offset k = (set_block m b ?blk, s\<lparr>buf_len := buf_len s - k\<rparr>, STR89_OK)"
        unfolding fin Let_def b(1) ptr_add.simps add_0_left by simp
      have lb: "length ?blk = unat (buf_cap s)" using t le e ll b(3) by simp
      have "buf_len s - k \<le> buf_cap s" using t b(4) by (simp add: word_le_nat_alt)
      note w = written [OF assms b(1) lb this]
      have "take (unat (buf_len s - k)) ?blk = take (unat offset) (buf_bytes m s) @ drop (unat offset + unat k) (buf_bytes m s)"
        using t le e ll unfolding b(5) by (simp add: drop_take add.commute)
      then show ?thesis using w unfolding eq by (simp add: edits_def)
    qed
  qed
qed

lemma buf_replace_edits:
  assumes "heap_ok m" and "buf_ok m s" and "src_ok m s v"
  shows "edits m s (take (unat offset) (buf_bytes m s) @ view_bytes m v @ drop (unat offset + unat k) (buf_bytes m s))
    (str89_buf_replace al m s offset k v)"
proof (cases "str89__add offset k")
  case None
  then show ?thesis using assms by (simp add: str89_buf_replace_def edits_refused)
next
  case (Some e)
  note e = add_some [OF Some]
  consider (past) "buf_len s < e" | (insert) "\<not> buf_len s < e" "k = 0"
    | (erase) "\<not> buf_len s < e" "k \<noteq> 0" "view_len v = 0"
    | (cut) "\<not> buf_len s < e" "k \<noteq> 0" "view_len v \<noteq> 0"
        "\<not> str89_view_is_boundary m (str89_buf_view s) offset \<or> \<not> str89_view_is_boundary m (str89_buf_view s) e"
    | (swap) "\<not> buf_len s < e" "k \<noteq> 0" "view_len v \<noteq> 0"
        "str89_view_is_boundary m (str89_buf_view s) offset" "str89_view_is_boundary m (str89_buf_view s) e"
    by blast
  then show ?thesis
  proof cases
    case past
    then show ?thesis using Some assms by (simp add: str89_buf_replace_def edits_refused)
  next
    case insert
    then show ?thesis using Some buf_insert_edits [OF assms] by (simp add: str89_buf_replace_def)
  next
    case erase
    then show ?thesis using Some buf_erase_edits [OF assms(1,2)] by (simp add: str89_buf_replace_def view_bytes_zero)
  next
    case cut
    then show ?thesis using Some assms by (auto simp: str89_buf_replace_def edits_refused)
  next
    case swap
    then have le: "unat offset + unat k \<le> unat (buf_len s)" using e by (simp add: word_le_nat_alt not_less)
    then have t: "unat (buf_len s - k) = unat (buf_len s) - unat k" by (simp add: unat_sub word_le_nat_alt)
    show ?thesis
    proof (cases "str89__add (buf_len s - k) (view_len v)")
      case None
      then show ?thesis using swap Some assms by (simp add: str89_buf_replace_def edits_refused)
    next
      case new: (Some need)
      have "unat need = unat (buf_len s) - unat k + unat (view_len v)" using add_some [OF new] t by simp
      from replace_bytes_ok [OF le this src_read(2) [OF assms(3) swap(3)] swap(3)]
      have "edit_ok need (view_bytes m v) (buf_bytes m s)
          (take (unat offset) (buf_bytes m s) @ view_bytes m v @ drop (unat offset + unat k) (buf_bytes m s)) (buf_len s)
          (\<lambda>m s source. replace_bytes m s offset k source (view_len v))" .
      from with_source_edits [OF assms swap(3) this] show ?thesis
        using swap Some new by (simp add: str89_buf_replace_def)
    qed
  qed
qed

section \<open>The editing operations\<close>

text \<open>C38: Assignment, appending, insertion, erasure and replacement compute exactly the edit of the buffer's
  byte string they name, for every allocator and for a source that may lie inside the buffer it edits; on any
  failure the buffer and its bytes are what they were. Either way no access is outside a live block, every
  other block keeps its bytes, and no block is leaked.\<close>

theorem buffer_edits:
  assumes "heap_ok m" and "buf_ok m s" and "src_ok m s v"
  shows "edits m s (view_bytes m v) (str89_buf_set al m s v)
    \<and> edits m s (buf_bytes m s @ view_bytes m v) (str89_buf_append al m s v)
    \<and> edits m s (take (unat i) (buf_bytes m s) @ view_bytes m v @ drop (unat i) (buf_bytes m s))
        (str89_buf_insert al m s i v)
    \<and> edits m s (take (unat i) (buf_bytes m s) @ drop (unat i + unat k) (buf_bytes m s)) (str89_buf_erase m s i k)
    \<and> edits m s (take (unat i) (buf_bytes m s) @ view_bytes m v @ drop (unat i + unat k) (buf_bytes m s))
        (str89_buf_replace al m s i k v)"
  using buf_set_edits [OF assms] buf_append_edits [OF assms] buf_insert_edits [OF assms]
    buf_erase_edits [OF assms(1,2)] buf_replace_edits [OF assms] by blast

text \<open>A buffer holding "abcd" whose own middle, "bc", is inserted at its start.\<close>

definition abcd_mem :: mem where
  "abcd_mem = \<lparr>mem_block = Map.empty(0 \<mapsto> [0x61, 0x62, 0x63, 0x64]), mem_next = 1, mem_calls = 0, mem_fault = False\<rparr>"

definition abcd_buf :: str89_buf where
  "abcd_buf = \<lparr>buf_data = Ptr 0 0, buf_len = 4, buf_cap = 4\<rparr>"

definition bc_view :: str89_view where
  "bc_view = \<lparr>view_data = Ptr 0 1, view_len = 2\<rparr>"

definition granting :: str89_alloc where
  "granting = \<lparr>alloc_grants = (\<lambda>k. True), alloc_junk = (\<lambda>k i. 0)\<rparr>"

lemma abcd_ok: "heap_ok abcd_mem" "buf_ok abcd_mem abcd_buf" "src_ok abcd_mem abcd_buf bc_view"
  by (auto simp: heap_ok_def abcd_mem_def buf_ok_def abcd_buf_def src_ok_def bc_view_def)

theorem buffer_edits_witness:
  "edits abcd_mem abcd_buf [0x62, 0x63, 0x61, 0x62, 0x63, 0x64] (str89_buf_insert granting abcd_mem abcd_buf 0 bc_view)
   \<and> snd (snd (str89_buf_insert granting abcd_mem abcd_buf 0 bc_view)) = STR89_OK"
proof
  have "buf_bytes abcd_mem abcd_buf = [0x61, 0x62, 0x63, 0x64]" "view_bytes abcd_mem bc_view = [0x62, 0x63]" by code_simp+
  then show "edits abcd_mem abcd_buf [0x62, 0x63, 0x61, 0x62, 0x63, 0x64] (str89_buf_insert granting abcd_mem abcd_buf 0 bc_view)"
    using buffer_edits [OF abcd_ok, of granting 0 0] by simp
  show "snd (snd (str89_buf_insert granting abcd_mem abcd_buf 0 bc_view)) = STR89_OK" by code_simp
qed

end
