(* ===== verification/Str89_Text.thy ===== *)
theory Str89_Text
  imports Str89_Correct
begin

text \<open>
  Text: what views promise on validated bytes (boundaries, subviews, order, search), that every
  editing operation keeps a buffer of valid UTF-8 a buffer of valid UTF-8, when the operations
  succeed, and the ownership of the strings that \<open>string.c\<close> allocates.
\<close>

section \<open>Boundaries and subviews\<close>

definition text_view :: "mem \<Rightarrow> str89_view \<Rightarrow> bool" where
  "text_view m v \<longleftrightarrow> length (view_bytes m v) = unat (view_len v) \<and> u89_utf8_valid (view_bytes m v)"

lemma boundary_iff:
  assumes "text_view m v"
  shows "str89_view_is_boundary m v i \<longleftrightarrow> i \<le> view_len v \<and> u89_utf8_valid (take (unat i) (view_bytes m v))"
proof -
  have len: "length (view_bytes m v) = unat (view_len v)" and valid: "u89_utf8_valid (view_bytes m v)"
    using assms by (simp_all add: text_view_def)
  consider "i = 0" | "i = view_len v" | "i \<noteq> 0" "i \<noteq> view_len v" "view_len v < i" | "i \<noteq> 0" "i \<noteq> view_len v" "i < view_len v"
    using linorder_cases by blast
  then show ?thesis
  proof cases
    case 1
    then show ?thesis by (simp add: str89_view_is_boundary_def)
  next
    case 2
    then show ?thesis using len valid by (simp add: str89_view_is_boundary_def)
  next
    case 3
    then show ?thesis by (auto simp: str89_view_is_boundary_def)
  next
    case 4
    then have "0 < unat i" "unat i \<le> length (view_bytes m v)" using len by (simp_all add: unat_gt_0 word_less_nat_alt)
    from utf8_prev_boundary [OF valid this] 4 show ?thesis by (auto simp: str89_view_is_boundary_def)
  qed
qed

lemma view_bytes_sub:
  assumes "length (view_bytes m v) = unat (view_len v)" and "unat i + unat n \<le> unat (view_len v)"
  shows "view_bytes m \<lparr>view_data = ptr_add (view_data v) i, view_len = n\<rparr> = take (unat n) (drop (unat i) (view_bytes m v))"
proof (cases "view_data v")
  case Null
  then have "view_bytes m v = []" by (simp add: view_bytes_def)
  then show ?thesis using Null assms by (simp add: view_bytes_def)
next
  case (Ptr b j)
  show ?thesis
  proof (cases "mem_block m b")
    case None
    then have "view_bytes m v = []" using Ptr by (simp add: view_bytes_def)
    then show ?thesis using Ptr None by (simp add: view_bytes_def)
  next
    case (Some blk)
    show ?thesis
    proof (cases "j + unat (view_len v) \<le> length blk")
      case True
      have "view_bytes m v = take (unat (view_len v)) (drop j blk)" using Ptr Some True by (simp add: view_bytes_def)
      moreover have "view_bytes m \<lparr>view_data = ptr_add (view_data v) i, view_len = n\<rparr> = take (unat n) (drop (j + unat i) blk)"
        using Ptr Some True assms(2) by (simp add: view_bytes_def)
      ultimately show ?thesis using assms(2) by (simp add: drop_take add.commute min.absorb1)
    next
      case False
      then have nil: "view_bytes m v = []" using Ptr Some by (simp add: view_bytes_def)
      then have "unat i = 0" "unat n = 0" "unat (view_len v) = 0" using assms by simp_all
      then show ?thesis using nil Ptr Some by (simp add: view_bytes_def)
    qed
  qed
qed

lemma valid_slice:
  assumes "u89_utf8_valid (take i s)" and "u89_utf8_valid (take (i + n) s)"
  shows "u89_utf8_valid (take n (drop i s))"
  using valid_rest [OF assms(1), of "take n (drop i s)"] assms(2) by (simp add: take_add)

lemma add_none: "str89__add a b = None \<Longrightarrow> 2 ^ 64 \<le> unat a + unat b"
proof -
  assume "str89__add a b = None"
  then have "unat (a + b) < unat a" by (simp add: str89__add_def Let_def word_less_nat_alt split: if_splits)
  then show ?thesis
    using unsigned_less [where ?'a = nat, of b] by (cases "unat a + unat b < 2 ^ 64") (simp_all add: unat_word_ariths)
qed

lemma size_bound: "unat (a :: size_t) < 2 ^ 64"
  using unsigned_less [where ?'a = nat, of a] by simp

lemma view_sub_cases:
  assumes "text_view m v"
  obtains (past) "str89_view_sub m v i n = (STR89_ERANGE, None)" "unat (view_len v) < unat i + unat n"
  | (cut) "str89_view_sub m v i n = (STR89_EBOUND, None)" "unat i + unat n \<le> unat (view_len v)"
      "\<not> (u89_utf8_valid (take (unat i) (view_bytes m v)) \<and> u89_utf8_valid (take (unat i + unat n) (view_bytes m v)))"
  | (sub) w where "str89_view_sub m v i n = (STR89_OK, Some w)" "unat i + unat n \<le> unat (view_len v)" "text_view m w"
      "view_bytes m w = take (unat n) (drop (unat i) (view_bytes m v))"
      "u89_utf8_valid (take (unat i) (view_bytes m v)) \<and> u89_utf8_valid (take (unat i + unat n) (view_bytes m v))"
proof (cases "str89__add i n")
  case None
  then show thesis using past add_none [OF None] size_bound [of "view_len v"] by (simp add: str89_view_sub_def)
next
  case (Some e)
  note e = add_some [OF Some]
  show thesis
  proof (cases "view_len v < e")
    case True
    then show thesis using past Some e by (simp add: str89_view_sub_def word_less_nat_alt)
  next
    case False
    then have le: "unat i + unat n \<le> unat (view_len v)" using e by (simp add: word_less_nat_alt)
    then have iv: "i \<le> view_len v" "e \<le> view_len v" using e by (simp_all add: word_le_nat_alt)
    show thesis
    proof (cases "u89_utf8_valid (take (unat i) (view_bytes m v)) \<and> u89_utf8_valid (take (unat i + unat n) (view_bytes m v))")
      case c: False
      then show thesis
        using cut [OF _ le] Some False e iv by (auto simp: str89_view_sub_def boundary_iff [OF assms])
    next
      case c: True
      let ?w = "\<lparr>view_data = ptr_add (view_data v) i, view_len = n\<rparr>"
      have len: "length (view_bytes m v) = unat (view_len v)" using assms by (simp add: text_view_def)
      note w = view_bytes_sub [OF len le]
      have "text_view m ?w" using w le len valid_slice [of "unat i" "view_bytes m v" "unat n"] c by (simp add: text_view_def)
      moreover have "str89_view_sub m v i n = (STR89_OK, Some ?w)"
        using c Some False e iv by (simp add: str89_view_sub_def boundary_iff [OF assms])
      ultimately show thesis using sub [OF _ le _ w c] by blast
    qed
  qed
qed

text \<open>Of a view of valid text, an offset is a boundary exactly when the bytes before it are text; the
  subview at an offset and a length is given exactly when both of its ends are boundaries in range, and it is
  again a view of valid text, namely of those bytes. A range past the end, also when its end wraps around the
  size type, is ERANGE, and a range that splits a scalar is EBOUND.\<close>

theorem view_sub_text:
  assumes "text_view m v"
  shows "(str89_view_is_boundary m v i \<longleftrightarrow> i \<le> view_len v \<and> u89_utf8_valid (take (unat i) (view_bytes m v)))
    \<and> fst (str89_view_sub m v i n) =
        (if unat (view_len v) < unat i + unat n then STR89_ERANGE
         else if u89_utf8_valid (take (unat i) (view_bytes m v)) \<and> u89_utf8_valid (take (unat i + unat n) (view_bytes m v))
         then STR89_OK else STR89_EBOUND)
    \<and> (case snd (str89_view_sub m v i n) of None \<Rightarrow> fst (str89_view_sub m v i n) \<noteq> STR89_OK
       | Some w \<Rightarrow> text_view m w \<and> view_bytes m w = take (unat n) (drop (unat i) (view_bytes m v)))"
  using boundary_iff [OF assms] view_sub_cases [OF assms, of i n]
  by (cases rule: view_sub_cases [OF assms, of i n]) auto

text \<open>The text of three letters, a, e with an acute accent, which takes two bytes, and b.\<close>

definition aeb_mem :: mem where
  "aeb_mem = \<lparr>mem_block = Map.empty(0 \<mapsto> [0x61, 0xC3, 0xA9, 0x62]), mem_next = 1, mem_calls = 0, mem_fault = False\<rparr>"

definition aeb_view :: str89_view where
  "aeb_view = \<lparr>view_data = Ptr 0 0, view_len = 4\<rparr>"

definition eb_view :: str89_view where
  "eb_view = \<lparr>view_data = Ptr 0 1, view_len = 3\<rparr>"

lemma aeb_text: "text_view aeb_mem aeb_view" "text_view aeb_mem eb_view"
  unfolding text_view_def by code_simp+

lemma aeb_bytes: "view_bytes aeb_mem aeb_view = [0x61, 0xC3, 0xA9, 0x62]" "view_bytes aeb_mem eb_view = [0xC3, 0xA9, 0x62]"
  by code_simp+

theorem view_sub_text_witness:
  "fst (str89_view_sub aeb_mem aeb_view 1 2) = STR89_OK \<and> fst (str89_view_sub aeb_mem aeb_view 2 1) = STR89_EBOUND
   \<and> fst (str89_view_sub aeb_mem aeb_view 3 (- 2)) = STR89_ERANGE"
proof -
  have "u89_utf8_valid [0x61]" "u89_utf8_valid [0x61, 0xC3, 0xA9]" "\<not> u89_utf8_valid [0x61, 0xC3]" by code_simp+
  moreover have "unat (view_len aeb_view) = 4" "unat (- 2 :: size_t) = 18446744073709551614" by (simp_all add: aeb_view_def)
  ultimately show ?thesis
    using view_sub_text [OF aeb_text(1), of 1 2] view_sub_text [OF aeb_text(1), of 2 1] view_sub_text [OF aeb_text(1), of 3 "- 2"] by (simp add: aeb_bytes)
qed

section \<open>Comparison\<close>

definition byte_less :: "bytes \<Rightarrow> bytes \<Rightarrow> bool" where
  "byte_less xs ys \<longleftrightarrow> (xs, ys) \<in> lexord {(x, y). x < y}"

lemma byte_less_simps [simp]:
  "byte_less [] ys \<longleftrightarrow> ys \<noteq> []" "\<not> byte_less xs []"
  "byte_less (x # xs) (y # ys) \<longleftrightarrow> x < y \<or> x = y \<and> byte_less xs ys"
  by (cases ys) (auto simp: byte_less_def)

lemma memcmp_refl [simp]: "memcmp xs xs = 0"
  by (induction xs) auto

lemma memcmp_prefix:
  "memcmp (take (min (length xs) (length ys)) xs) (take (min (length xs) (length ys)) ys) =
     (if take (min (length xs) (length ys)) xs = take (min (length xs) (length ys)) ys then 0
      else if byte_less xs ys then - 1 else 1)"
proof (induction xs arbitrary: ys)
  case (Cons x xs)
  then show ?case by (cases ys) auto
qed simp

lemma byte_less_prefix:
  "take (min (length xs) (length ys)) xs = take (min (length xs) (length ys)) ys \<Longrightarrow> byte_less xs ys \<longleftrightarrow> length xs < length ys"
proof (induction xs arbitrary: ys)
  case (Cons x xs)
  then show ?case by (cases ys) auto
qed auto

lemma memcmp_zero: "length xs = length ys \<Longrightarrow> memcmp xs ys = 0 \<longleftrightarrow> xs = ys"
  using memcmp_prefix [of xs ys] by simp

lemma unat_min_len: "unat (min_len a b) = min (unat a) (unat b)"
  by (simp add: min_len_def word_less_nat_alt min_def)

text \<open>Equality of views is equality of their bytes, and comparison is their lexicographic order as unsigned
  bytes, a proper prefix first: 0 for equal bytes, -1 when the first is less and 1 otherwise.\<close>

theorem view_order:
  assumes "text_view m a" and "text_view m b"
  shows "(str89_view_equal m a b \<longleftrightarrow> view_bytes m a = view_bytes m b)
    \<and> str89_view_compare m a b =
        (if view_bytes m a = view_bytes m b then 0
         else if (view_bytes m a, view_bytes m b) \<in> lexord {(x, y). x < y} then - 1 else 1)"
proof -
  let ?a = "view_bytes m a" and ?b = "view_bytes m b"
  have len: "length ?a = unat (view_len a)" "length ?b = unat (view_len b)" using assms by (simp_all add: text_view_def)
  have lens: "view_len a = view_len b \<longleftrightarrow> length ?a = length ?b" "view_len a < view_len b \<longleftrightarrow> length ?a < length ?b"
    "view_len b < view_len a \<longleftrightarrow> length ?b < length ?a"
    using len by (simp_all add: word_unat_eq_iff word_less_nat_alt)
  have "str89_view_equal m a b \<longleftrightarrow> ?a = ?b"
    using lens(1) len memcmp_zero [of ?a ?b] by (auto simp: str89_view_equal_def)
  moreover have "str89_view_compare m a b = (if ?a = ?b then 0 else if byte_less ?a ?b then - 1 else 1)"
  proof -
    let ?n = "min (length ?a) (length ?b)"
    have "common_prefix ?a ?b (min_len (view_len a) (view_len b)) = memcmp (take ?n ?a) (take ?n ?b)"
    proof (cases "min_len (view_len a) (view_len b) = 0")
      case True
      then have "?n = 0" using unat_min_len [of "view_len a" "view_len b"] len by simp
      then show ?thesis using True by (simp add: common_prefix_def)
    next
      case False
      then show ?thesis using unat_min_len [of "view_len a" "view_len b"] len by (simp add: common_prefix_def)
    qed
    moreover have "length_order (view_len a) (view_len b) = (if length ?a < length ?b then - 1 else if length ?b < length ?a then 1 else 0)"
      by (simp add: length_order_def lens)
    moreover have "?a = ?b" if "take ?n ?a = take ?n ?b" "length ?a = length ?b" using that by simp
    ultimately show ?thesis
      using memcmp_prefix [of ?a ?b] byte_less_prefix [of ?a ?b] by (auto simp: str89_view_compare_def Let_def)
  qed
  ultimately show ?thesis by (simp add: byte_less_def)
qed

theorem view_order_witness:
  "str89_view_compare aeb_mem aeb_view eb_view = - 1 \<and> \<not> str89_view_equal aeb_mem aeb_view eb_view"
  using view_order [OF aeb_text] by (simp add: aeb_bytes)

section \<open>Search\<close>

definition occurs_at :: "bytes \<Rightarrow> bytes \<Rightarrow> nat \<Rightarrow> bool" where
  "occurs_at h n i \<longleftrightarrow> i + length n \<le> length h \<and> take (length n) (drop i h) = n"

lemma find_from_spec:
  assumes "n \<noteq> []"
  shows "case find_from h n i of
      Some j \<Rightarrow> i \<le> j \<and> occurs_at h n j \<and> (\<forall>k. i \<le> k \<longrightarrow> k < j \<longrightarrow> \<not> occurs_at h n k)
    | None \<Rightarrow> \<forall>k. i \<le> k \<longrightarrow> \<not> occurs_at h n k"
  using assms
proof (induction h n i rule: find_from.induct)
  case (1 h n i)
  show ?case
  proof (cases "length n \<le> length h - i \<and> n \<noteq> []")
    case False
    then show ?thesis
      using 1(2) by (auto simp: find_from.simps [of h n i] occurs_at_def)
  next
    case True
    then have "0 < length n" by simp
    then have fit: "i + length n \<le> length h" using True by linarith
    then have m: "match_at h n i \<longleftrightarrow> occurs_at h n i" by (simp add: match_at_def occurs_at_def memcmp_zero)
    show ?thesis
    proof (cases "match_at h n i")
      case here: True
      then show ?thesis using True m by (simp add: find_from.simps [of h n i])
    next
      case no: False
      have "find_from h n i = find_from h n (Suc i)" using True no by (simp add: find_from.simps [of h n i])
      moreover have "\<not> occurs_at h n i" using no m by simp
      moreover have "i \<le> k \<longleftrightarrow> k = i \<or> Suc i \<le> k" for k by auto
      ultimately show ?thesis
        using 1(1) [OF True no 1(2)] by (auto split: option.splits simp del: Suc_le_eq)
    qed
  qed
qed

lemma lead_boundary:
  assumes "u89_utf8_valid s" and "i < length s" and "\<not> cont (s ! i)"
  shows "u89_utf8_valid (take i s)"
proof -
  obtain cps where cps: "scalars cps" "s = utf8 cps" using assms(1) unfolding valid_iff by blast
  obtain as cp bs where w: "cps = as @ cp # bs" "length (utf8 as) < Suc i" "Suc i \<le> length (utf8 as) + length (u89_utf8_encode cp)"
    using text_position [OF cps(1), of "Suc i"] assms(2) cps(2) by auto
  then have "u89_is_scalar cp" using cps(1) by simp
  then obtain l cs where e: "u89_utf8_encode cp = l # cs" "list_all cont cs" using encode_shape by metis
  have at: "s ! i = (l # cs) ! (i - length (utf8 as))"
    using w cps(2) e by (auto simp: nth_append nth_Cons split: nat.split)
  have "i = length (utf8 as)"
  proof (rule ccontr)
    assume "i \<noteq> length (utf8 as)"
    then have "length (utf8 as) < i" using w(2) by simp
    then obtain k where k: "i - length (utf8 as) = Suc k" by (cases "i - length (utf8 as)") auto
    then have "k < length cs" using w(3) e(1) by auto
    then have "cont (s ! i)" using at k e(2) by (simp add: list_all_length)
    then show False using assms(3) by simp
  qed
  then have "take i s = utf8 as" using cps(2) w(1) by simp
  then show ?thesis using cps(1) w(1) unfolding valid_iff by auto
qed

lemma text_lead:
  assumes "u89_utf8_valid s" and "s \<noteq> []"
  shows "\<not> cont (s ! 0)"
proof -
  obtain c cs where "u89_is_scalar c" "s = u89_utf8_encode c @ utf8 cs"
    using assms unfolding valid_iff by (metis neq_Nil_conv scalars_simps(2) utf8_simps(1,2))
  moreover from this(1) obtain l ls where "u89_utf8_encode c = l # ls" "\<not> cont l" using encode_shape by metis
  ultimately show ?thesis by simp
qed

lemma occurrence_boundary:
  assumes "u89_utf8_valid h" and "u89_utf8_valid n" and "n \<noteq> []" and "occurs_at h n i"
  shows "u89_utf8_valid (take i h)"
proof -
  have "i < length h" using assms(3,4) by (cases n) (auto simp: occurs_at_def)
  moreover have "h ! i = n ! 0"
    using assms(3,4) unfolding occurs_at_def by (metis add.right_neutral add_leD1 length_greater_0_conv nth_drop nth_take)
  ultimately show ?thesis using lead_boundary [OF assms(1)] text_lead [OF assms(2,3)] by simp
qed

lemma view_find_cases:
  assumes "text_view m h" and "text_view m n"
  obtains (past) "str89_view_find m h n i = (STR89_ERANGE, None)" "view_len h < i"
  | (cut) "str89_view_find m h n i = (STR89_EBOUND, None)" "i \<le> view_len h" "\<not> u89_utf8_valid (take (unat i) (view_bytes m h))"
  | (empty) "str89_view_find m h n i = (STR89_OK, Some i)" "i \<le> view_len h" "u89_utf8_valid (take (unat i) (view_bytes m h))"
      "view_bytes m n = []"
  | (found) k where "str89_view_find m h n i = (STR89_OK, Some k)" "i \<le> view_len h" "u89_utf8_valid (take (unat i) (view_bytes m h))"
      "view_bytes m n \<noteq> []" "i \<le> k" "k < view_len h" "occurs_at (view_bytes m h) (view_bytes m n) (unat k)"
      "\<And>j. unat i \<le> j \<Longrightarrow> j < unat k \<Longrightarrow> \<not> occurs_at (view_bytes m h) (view_bytes m n) j"
  | (absent) "str89_view_find m h n i = (STR89_OK, Some STR89_NPOS)" "i \<le> view_len h" "u89_utf8_valid (take (unat i) (view_bytes m h))"
      "view_bytes m n \<noteq> []" "\<And>j. unat i \<le> j \<Longrightarrow> \<not> occurs_at (view_bytes m h) (view_bytes m n) j"
proof (cases "view_len h < i \<or> \<not> u89_utf8_valid (take (unat i) (view_bytes m h))")
  case True
  then show thesis
    using past cut by (cases "view_len h < i") (auto simp: str89_view_find_def boundary_iff [OF assms(1)])
next
  case False
  then have ok: "i \<le> view_len h" "u89_utf8_valid (take (unat i) (view_bytes m h))" "\<not> view_len h < i" by auto
  have len: "length (view_bytes m h) = unat (view_len h)" "length (view_bytes m n) = unat (view_len n)"
    using assms by (simp_all add: text_view_def)
  show thesis
  proof (cases "view_len n = 0")
    case True
    then have "view_bytes m n = []" using len(2) by simp
    then show thesis using empty ok True by (simp add: str89_view_find_def boundary_iff [OF assms(1)])
  next
    case nz: False
    have ne: "view_bytes m n \<noteq> []" using nz len(2) by (auto simp flip: unat_eq_zero)
    note spec = find_from_spec [OF ne, where h = "view_bytes m h" and i = "unat i"]
    show thesis
    proof (cases "find_from (view_bytes m h) (view_bytes m n) (unat i)")
      case None
      then show thesis using absent ok ne nz spec by (simp add: str89_view_find_def boundary_iff [OF assms(1)])
    next
      case (Some k)
      then have k: "unat i \<le> k" "occurs_at (view_bytes m h) (view_bytes m n) k"
        "\<And>j. unat i \<le> j \<Longrightarrow> j < k \<Longrightarrow> \<not> occurs_at (view_bytes m h) (view_bytes m n) j" using spec by auto
      then have "k < unat (view_len h)" using len ne by (cases "view_bytes m n") (auto simp: occurs_at_def)
      then have u: "unat (of_nat k :: size_t) = k" by (intro unat_of_small [where l = "view_len h"]) simp
      show thesis
        using found [of "of_nat k"] ok ne nz k Some u \<open>k < unat (view_len h)\<close>
        by (simp add: str89_view_find_def boundary_iff [OF assms(1)] word_le_nat_alt word_less_nat_alt)
    qed
  qed
qed

text \<open>Searching valid text for valid text from an offset: ERANGE past the end, EBOUND inside a scalar, and
  otherwise the first offset from there at which the needle occurs, which is a scalar boundary of the
  haystack, or the reserved value when it does not occur. The empty needle is found where the search starts.\<close>

theorem view_find_first:
  assumes "text_view m h" and "text_view m n"
  shows "fst (str89_view_find m h n i) =
      (if view_len h < i then STR89_ERANGE
       else if \<not> u89_utf8_valid (take (unat i) (view_bytes m h)) then STR89_EBOUND else STR89_OK)
    \<and> (snd (str89_view_find m h n i) = None \<longleftrightarrow> fst (str89_view_find m h n i) \<noteq> STR89_OK)
    \<and> (\<forall>k. snd (str89_view_find m h n i) = Some k \<longrightarrow>
         (if view_bytes m n = [] then k = i
          else if k = STR89_NPOS then \<forall>j \<ge> unat i. \<not> occurs_at (view_bytes m h) (view_bytes m n) j
          else i \<le> k \<and> occurs_at (view_bytes m h) (view_bytes m n) (unat k)
             \<and> (\<forall>j. unat i \<le> j \<longrightarrow> j < unat k \<longrightarrow> \<not> occurs_at (view_bytes m h) (view_bytes m n) j)
             \<and> u89_utf8_valid (take (unat k) (view_bytes m h))))"
proof -
  have "view_len h \<le> STR89_NPOS" by simp
  then have np: "k \<noteq> STR89_NPOS" if "k < view_len h" for k using that by auto
  have "u89_utf8_valid (view_bytes m h)" "u89_utf8_valid (view_bytes m n)" using assms by (simp_all add: text_view_def)
  note cut = occurrence_boundary [OF this]
  show ?thesis
    by (cases rule: view_find_cases [OF assms, of i]) (auto simp: not_less [symmetric] dest: np intro: cut)
qed

theorem view_find_first_witness:
  "str89_view_find aeb_mem aeb_view eb_view 0 = (STR89_OK, Some 1) \<and> fst (str89_view_find aeb_mem aeb_view eb_view 2) = STR89_EBOUND
   \<and> occurs_at (view_bytes aeb_mem aeb_view) (view_bytes aeb_mem eb_view) 1"
proof -
  have f: "str89_view_find aeb_mem aeb_view eb_view 0 = (STR89_OK, Some 1)" by code_simp
  have b: "\<not> u89_utf8_valid (take 2 (view_bytes aeb_mem aeb_view))" by code_simp
  have "view_bytes aeb_mem eb_view \<noteq> []" "\<not> view_len aeb_view < 2" by (simp_all add: aeb_bytes aeb_view_def)
  with f b show ?thesis using view_find_first [OF aeb_text, of 0] view_find_first [OF aeb_text, of 2] by simp
qed

section \<open>Buffers of text stay text\<close>

definition text_buf :: "mem \<Rightarrow> str89_buf \<Rightarrow> bool" where
  "text_buf m s \<longleftrightarrow> heap_ok m \<and> buf_ok m s \<and> u89_utf8_valid (buf_bytes m s)"

lemma text_buf_view: "text_buf m s \<Longrightarrow> text_view m (str89_buf_view s)"
  using length_buf_bytes [of m s] by (simp add: text_buf_def text_view_def buf_bytes_def str89_buf_view_def)

lemma buf_boundary:
  "text_buf m s \<Longrightarrow> str89_view_is_boundary m (str89_buf_view s) i \<longleftrightarrow> i \<le> buf_len s \<and> u89_utf8_valid (take (unat i) (buf_bytes m s))"
  using boundary_iff [OF text_buf_view] by (simp add: buf_bytes_def str89_buf_view_def)

lemma valid_splice:
  assumes "u89_utf8_valid s" and "u89_utf8_valid (take i s)" and "u89_utf8_valid (take j s)" and "u89_utf8_valid x"
  shows "u89_utf8_valid (take i s @ x @ drop j s)"
proof -
  have "u89_utf8_valid (drop j s)" using valid_rest [OF assms(3), of "drop j s"] assms(1) by simp
  then show ?thesis using valid_append assms(2,4) by blast
qed

lemma edits_text:
  assumes "edits m s new res" and "u89_utf8_valid (buf_bytes m s)" and "snd (snd res) = STR89_OK \<Longrightarrow> u89_utf8_valid new"
  shows "text_buf (fst res) (fst (snd res))"
  using assms by (cases res) (auto simp: edits_def text_buf_def kept_def split: prod.splits)

lemma insert_accepts:
  "snd (snd (str89_buf_insert al m s i v)) = STR89_OK \<Longrightarrow> str89_view_is_boundary m (str89_buf_view s) i"
  by (rule ccontr) (auto simp: str89_buf_insert_def split: if_splits)

lemma erase_accepts:
  "snd (snd (str89_buf_erase m s i k)) = STR89_OK \<Longrightarrow>
     \<exists>e. unat e = unat i + unat k \<and> str89_view_is_boundary m (str89_buf_view s) i \<and> str89_view_is_boundary m (str89_buf_view s) e"
proof (cases "str89__add i k")
  case (Some e)
  assume "snd (snd (str89_buf_erase m s i k)) = STR89_OK"
  then show ?thesis using add_some [OF Some] Some
    by (intro exI [of _ e]) (auto simp: str89_buf_erase_def split: if_splits)
qed (simp add: str89_buf_erase_def)

lemma replace_accepts:
  "snd (snd (str89_buf_replace al m s i k v)) = STR89_OK \<Longrightarrow>
     \<exists>e. unat e = unat i + unat k \<and> str89_view_is_boundary m (str89_buf_view s) i \<and> str89_view_is_boundary m (str89_buf_view s) e"
proof (cases "str89__add i k")
  case (Some e)
  assume ok: "snd (snd (str89_buf_replace al m s i k v)) = STR89_OK"
  note e = add_some [OF Some]
  show ?thesis
  proof (cases "k = 0")
    case True
    then have "snd (snd (str89_buf_insert al m s i v)) = STR89_OK"
      using ok Some by (simp add: str89_buf_replace_def split: if_splits)
    then show ?thesis using insert_accepts True by (intro exI [of _ i]) simp
  next
    case nz: False
    show ?thesis
    proof (cases "view_len v = 0")
      case True
      then have "snd (snd (str89_buf_erase m s i k)) = STR89_OK"
        using ok Some nz by (simp add: str89_buf_replace_def split: if_splits)
      then show ?thesis by (rule erase_accepts)
    next
      case False
      then show ?thesis using ok Some nz e by (intro exI [of _ e]) (auto simp: str89_buf_replace_def split: if_splits)
    qed
  qed
qed (simp add: str89_buf_replace_def)

lemma with_scalar_edits:
  assumes ok: "heap_ok m" "buf_ok m s"
    and f: "\<And>m0 v. heap_ok m0 \<Longrightarrow> buf_ok m0 s \<Longrightarrow> buf_bytes m0 s = buf_bytes m s \<Longrightarrow> src_ok m0 s v \<Longrightarrow>
      view_bytes m0 v = u89_utf8_encode cp \<Longrightarrow> edits m0 s new (f m0 v) \<and> (snd (snd (f m0 v)) = STR89_OK \<longrightarrow> P)"
  shows "edits m s new (with_scalar m cp f s) \<and> (snd (snd (with_scalar m cp f s)) = STR89_OK \<longrightarrow> P)"
proof (cases "u89_utf8_encode cp = []")
  case True
  then show ?thesis using ok by (simp add: with_scalar_def edits_refused)
next
  case False
  let ?bs = "u89_utf8_encode cp"
  let ?d = "mem_next m"
  let ?m0 = "m\<lparr>mem_calls := mem_calls m, mem_block := (mem_block m)(?d \<mapsto> ?bs), mem_next := Suc ?d\<rparr>"
  let ?v = "\<lparr>view_data = Ptr ?d 0, view_len = of_nat (length ?bs)\<rparr>"
  note m0 = with_tmp_block [where k = "mem_calls m" and xs = ?bs, OF ok refl]
  have l4: "length ?bs \<le> 4" using encode_length [of cp] False encode_Nil [of cp] by blast
  then have lb: "unat (of_nat (length ?bs) :: size_t) = length ?bs" by (intro unat_of_small [where l = 4]) simp
  have nb: "new_block m ?bs = (?m0, Ptr ?d 0)" by (simp add: new_block_def)
  have "src_ok ?m0 s ?v" using m0(4) lb by (simp add: src_ok_def)
  moreover have "view_bytes ?m0 ?v = ?bs" using lb by (simp add: view_bytes_def)
  ultimately have e: "edits ?m0 s new (f ?m0 ?v)" "snd (snd (f ?m0 ?v)) = STR89_OK \<longrightarrow> P" using f m0(1-3) by simp_all
  obtain m2 s2 r where r: "f ?m0 ?v = (m2, s2, r)" by (cases "f ?m0 ?v")
  from release_tmp [OF ok refl e(1) [unfolded r] m0(3)] e(2)
  show ?thesis using False nb r by (simp add: with_scalar_def Let_def)
qed

lemma append_cp_edits:
  assumes "heap_ok m" and "buf_ok m s"
  shows "edits m s (buf_bytes m s @ u89_utf8_encode cp) (str89_buf_append_cp al m s cp)"
proof -
  have "edits m s (buf_bytes m s @ u89_utf8_encode cp) (with_scalar m cp (\<lambda>m v. str89_buf_append al m s v) s)
    \<and> (snd (snd (with_scalar m cp (\<lambda>m v. str89_buf_append al m s v) s)) = STR89_OK \<longrightarrow> True)"
    using buf_append_edits by (intro with_scalar_edits assms) (metis (no_types))
  then show ?thesis by (simp add: str89_buf_append_cp_def)
qed

lemma insert_cp_edits:
  assumes "heap_ok m" and "buf_ok m s" and "u89_utf8_valid (buf_bytes m s)"
  shows "edits m s (take (unat i) (buf_bytes m s) @ u89_utf8_encode cp @ drop (unat i) (buf_bytes m s))
      (str89_buf_insert_cp al m s i cp)
    \<and> (snd (snd (str89_buf_insert_cp al m s i cp)) = STR89_OK \<longrightarrow> u89_utf8_valid (take (unat i) (buf_bytes m s)))"
  unfolding str89_buf_insert_cp_def
proof (rule with_scalar_edits [OF assms(1,2)])
  fix m0 v
  assume v: "heap_ok m0" "buf_ok m0 s" "buf_bytes m0 s = buf_bytes m s" "src_ok m0 s v" "view_bytes m0 v = u89_utf8_encode cp"
  then have "text_buf m0 s" using assms(3) by (simp add: text_buf_def)
  then show "edits m0 s (take (unat i) (buf_bytes m s) @ u89_utf8_encode cp @ drop (unat i) (buf_bytes m s))
      (str89_buf_insert al m0 s i v)
    \<and> (snd (snd (str89_buf_insert al m0 s i v)) = STR89_OK \<longrightarrow> u89_utf8_valid (take (unat i) (buf_bytes m s)))"
    using buf_insert_edits [OF v(1,2,4), of i al] insert_accepts [of al m0 s i v] v buf_boundary [of m0 s i] by auto
qed

text \<open>C39: Buffers hold text: whatever the allocator does, every editing operation on a buffer of valid UTF-8
  with a source of valid UTF-8 leaves a well-formed buffer of valid UTF-8, because every offset it cuts at is
  checked to be a boundary. Also for inserting one scalar, where the encoding's temporary is released.\<close>

theorem buffer_text:
  assumes "text_buf m s" and "src_ok m s v" and "u89_utf8_valid (view_bytes m v)"
  shows "(case str89_buf_set al m s v of (m', s', r) \<Rightarrow> text_buf m' s')
    \<and> (case str89_buf_append al m s v of (m', s', r) \<Rightarrow> text_buf m' s')
    \<and> (case str89_buf_insert al m s i v of (m', s', r) \<Rightarrow> text_buf m' s')
    \<and> (case str89_buf_erase m s i k of (m', s', r) \<Rightarrow> text_buf m' s')
    \<and> (case str89_buf_replace al m s i k v of (m', s', r) \<Rightarrow> text_buf m' s')
    \<and> (case str89_buf_append_cp al m s cp of (m', s', r) \<Rightarrow> text_buf m' s')
    \<and> (case str89_buf_insert_cp al m s i cp of (m', s', r) \<Rightarrow> text_buf m' s')
    \<and> text_buf m (str89_buf_clear s)"
proof -
  have ok: "heap_ok m" "buf_ok m s" and b: "u89_utf8_valid (buf_bytes m s)" using assms(1) by (simp_all add: text_buf_def)
  note cut = buf_boundary [OF assms(1)]
  have splice: "u89_utf8_valid (take (unat i) (buf_bytes m s) @ x @ drop (unat i + unat k) (buf_bytes m s))"
    if "\<exists>e. unat e = unat i + unat k \<and> str89_view_is_boundary m (str89_buf_view s) i \<and> str89_view_is_boundary m (str89_buf_view s) e"
      "u89_utf8_valid x" for k x
  proof -
    from that(1) have "u89_utf8_valid (take (unat i) (buf_bytes m s))" "u89_utf8_valid (take (unat i + unat k) (buf_bytes m s))"
      by (auto simp: cut)
    then show ?thesis using valid_splice [OF b _ _ that(2)] by simp
  qed
  have at: "u89_utf8_valid (take (unat i) (buf_bytes m s) @ x @ drop (unat i) (buf_bytes m s))"
    if "u89_utf8_valid (take (unat i) (buf_bytes m s))" "u89_utf8_valid x" for x
    using valid_splice [OF b that(1,1,2)] .
  have "text_buf (fst (str89_buf_set al m s v)) (fst (snd (str89_buf_set al m s v)))"
    using edits_text [OF buf_set_edits [OF ok assms(2)] b] assms(3) .
  moreover have "text_buf (fst (str89_buf_append al m s v)) (fst (snd (str89_buf_append al m s v)))"
    using edits_text [OF buf_append_edits [OF ok assms(2)] b] valid_append [OF b assms(3)] .
  moreover have "text_buf (fst (str89_buf_insert al m s i v)) (fst (snd (str89_buf_insert al m s i v)))"
    using cut at assms(3) insert_accepts by (intro edits_text [OF buf_insert_edits [OF ok assms(2)] b]) blast
  moreover have "text_buf (fst (str89_buf_erase m s i k)) (fst (snd (str89_buf_erase m s i k)))"
    using splice [of k "[]"] erase_accepts by (intro edits_text [OF buf_erase_edits [OF ok] b]) simp
  moreover have "text_buf (fst (str89_buf_replace al m s i k v)) (fst (snd (str89_buf_replace al m s i k v)))"
    using splice [OF replace_accepts assms(3)] by (intro edits_text [OF buf_replace_edits [OF ok assms(2)] b])
  moreover have "text_buf (fst (str89_buf_append_cp al m s cp)) (fst (snd (str89_buf_append_cp al m s cp)))"
    using edits_text [OF append_cp_edits [OF ok] b] valid_append [OF b valid_encode] .
  moreover have "text_buf (fst (str89_buf_insert_cp al m s i cp)) (fst (snd (str89_buf_insert_cp al m s i cp)))"
    using insert_cp_edits [OF ok b] at [OF _ valid_encode] by (intro edits_text [OF _ b]) blast+
  moreover have "text_buf m (str89_buf_clear s)"
  proof -
    have k: "buf_ok m (str89_buf_clear s)" using ok(2) by (auto simp: buf_ok_def str89_buf_clear_def)
    then have "buf_bytes m (str89_buf_clear s) = []"
      using length_buf_bytes [OF k] by (simp add: str89_buf_clear_def)
    then show ?thesis using ok(1) k by (simp add: text_buf_def)
  qed
  ultimately show ?thesis by (simp add: case_prod_beta)
qed

theorem buffer_text_witness:
  "(case str89_buf_replace granting abcd_mem abcd_buf 1 2 bc_view of (m', s', r) \<Rightarrow> text_buf m' s')
   \<and> (case str89_buf_insert_cp granting abcd_mem abcd_buf 1 0x20AC of (m', s', r) \<Rightarrow> text_buf m' s')"
proof -
  have "u89_utf8_valid (buf_bytes abcd_mem abcd_buf)" "u89_utf8_valid (view_bytes abcd_mem bc_view)" by code_simp+
  then have "text_buf abcd_mem abcd_buf" using abcd_ok by (simp add: text_buf_def)
  note all = buffer_text [OF this abcd_ok(3) \<open>u89_utf8_valid (view_bytes abcd_mem bc_view)\<close>]
  show ?thesis using all [where al = granting and i = 1 and k = 2 and cp = "0x20AC"] by (elim conjE) (rule conjI; assumption)
qed

section \<open>When the operations succeed\<close>

definition granted :: "str89_alloc \<Rightarrow> bool" where
  "granted al \<longleftrightarrow> (\<forall>k. alloc_grants al k)"

lemma reserve_room:
  assumes "heap_ok m" and "buf_ok m s" and "granted al" and "unat c < 2 ^ 63"
  shows "snd (snd (str89_buf_reserve al m s c)) = STR89_OK"
proof (cases "c \<le> buf_cap s")
  case False
  let ?n = "if buf_cap s < 16 then 16 else buf_cap s"
  have "?n \<noteq> 0" by (auto simp: word_less_nat_alt)
  from grow_loop_result [OF this, of c] have "str89__grow_cap (buf_cap s) c \<noteq> 0"
    using assms(4) by (auto simp: str89__grow_cap_def split del: if_split)
  then show ?thesis
    using False assms(2,3)
    by (auto simp: str89_buf_reserve_def Let_def granted_def buf_ok_def str89__malloc_def new_block_def)
qed (simp add: str89_buf_reserve_def)

lemma with_source_room:
  assumes "heap_ok m" and "buf_ok m s" and "src_ok m s v" and "view_len v \<noteq> 0" and "granted al" and "unat need < 2 ^ 63"
  shows "snd (snd (with_source al m s v need edit)) = STR89_OK"
proof (cases "str89__overlaps (buf_data s) (buf_len s) (view_data v)")
  case False
  from reserve_room [OF assms(1,2,5,6)] show ?thesis
    using False by (auto simp: with_source_def split: prod.splits)
next
  case True
  have g: "alloc_grants al (mem_calls m)" using assms(5) by (simp add: granted_def)
  note m0 = with_tmp_block [where k = "Suc (mem_calls m)" and xs = "view_bytes m v", OF assms(1,2) refl]
  from reserve_room [OF m0(1,2) assms(5,6)] show ?thesis
    using True copy_alias_copies [OF assms(1,3,4) g] by (auto simp: with_source_def split: prod.splits)
qed

lemma add_room: "unat a + unat b < 2 ^ 63 \<Longrightarrow> \<exists>c. str89__add a b = Some c \<and> unat c = unat a + unat b"
  using add_none [of a b] add_some [of a b] by (cases "str89__add a b") auto

lemma append_room:
  assumes "heap_ok m" and "buf_ok m s" and "granted al" and "unat (buf_len s) + unat (view_len v) < 2 ^ 63"
  shows "snd (snd (str89_buf_append al m s v)) = STR89_OK"
proof -
  obtain need where need: "str89__add (buf_len s) (view_len v) = Some need" "unat need = unat (buf_len s) + unat (view_len v)"
    using add_room [OF assms(4)] by blast
  from reserve_room [OF assms(1-3), of need] show ?thesis
    using assms(4) need by (auto simp: str89_buf_append_def Let_def split: prod.splits)
qed

lemma insert_status:
  assumes "text_buf m s" and "src_ok m s v" and "granted al" and "unat (buf_len s) + unat (view_len v) < 2 ^ 63"
  shows "snd (snd (str89_buf_insert al m s i v)) =
    (if buf_len s < i then STR89_ERANGE else if \<not> u89_utf8_valid (take (unat i) (buf_bytes m s)) then STR89_EBOUND else STR89_OK)"
proof -
  obtain need where need: "str89__add (buf_len s) (view_len v) = Some need" "unat need < 2 ^ 63"
    using add_room [OF assms(4)] assms(4) by auto
  have ok: "heap_ok m" "buf_ok m s" using assms(1) by (simp_all add: text_buf_def)
  show ?thesis
    using need(1) with_source_room [OF ok assms(2) _ assms(3) need(2)] buf_boundary [OF assms(1), of i]
    by (auto simp: str89_buf_insert_def not_less)
qed

lemma erase_status:
  assumes "text_buf m s"
  shows "snd (snd (str89_buf_erase m s i k)) =
    (if unat (buf_len s) < unat i + unat k then STR89_ERANGE
     else if \<not> u89_utf8_valid (take (unat i) (buf_bytes m s)) \<or> \<not> u89_utf8_valid (take (unat i + unat k) (buf_bytes m s))
     then STR89_EBOUND else STR89_OK)"
proof (cases "str89__add i k")
  case None
  then show ?thesis using add_none [OF None] size_bound [of "buf_len s"] by (simp add: str89_buf_erase_def)
next
  case (Some e)
  note e = add_some [OF Some]
  show ?thesis
  proof (cases "buf_len s < e")
    case True
    then show ?thesis using Some e by (simp add: str89_buf_erase_def word_less_nat_alt)
  next
    case False
    then have "i \<le> buf_len s" "e \<le> buf_len s" "\<not> unat (buf_len s) < unat i + unat k" using e by (simp_all add: word_less_nat_alt word_le_nat_alt)
    then show ?thesis using Some False e buf_boundary [OF assms] by (simp add: str89_buf_erase_def Let_def)
  qed
qed

lemma replace_status:
  assumes "text_buf m s" and "src_ok m s v" and "granted al" and "unat (buf_len s) + unat (view_len v) < 2 ^ 63"
  shows "snd (snd (str89_buf_replace al m s i k v)) =
    (if unat (buf_len s) < unat i + unat k then STR89_ERANGE
     else if \<not> u89_utf8_valid (take (unat i) (buf_bytes m s)) \<or> \<not> u89_utf8_valid (take (unat i + unat k) (buf_bytes m s))
     then STR89_EBOUND else STR89_OK)"
proof (cases "str89__add i k")
  case None
  then show ?thesis using add_none [OF None] size_bound [of "buf_len s"] by (simp add: str89_buf_replace_def)
next
  case (Some e)
  note e = add_some [OF Some]
  have ok: "heap_ok m" "buf_ok m s" using assms(1) by (simp_all add: text_buf_def)
  show ?thesis
  proof (cases "buf_len s < e")
    case True
    then show ?thesis using Some e by (simp add: str89_buf_replace_def word_less_nat_alt)
  next
    case False
    then have le: "i \<le> buf_len s" "e \<le> buf_len s" "k \<le> buf_len s" "\<not> unat (buf_len s) < unat i + unat k"
      using e by (simp_all add: word_less_nat_alt word_le_nat_alt)
    consider "k = 0" | "k \<noteq> 0" "view_len v = 0" | "k \<noteq> 0" "view_len v \<noteq> 0" by blast
    then show ?thesis
    proof cases
      case 1
      then show ?thesis
        using Some False le insert_status [OF assms, of i] by (simp add: str89_buf_replace_def not_less [symmetric])
    next
      case 2
      then show ?thesis using Some False erase_status [OF assms(1), of i k] by (simp add: str89_buf_replace_def)
    next
      case 3
      have t: "unat (buf_len s - k) + unat (view_len v) < 2 ^ 63"
        using assms(4) le(3) by (simp add: unat_sub word_le_nat_alt)
      obtain need where need: "str89__add (buf_len s - k) (view_len v) = Some need" "unat need < 2 ^ 63"
        using add_room [OF t] t by auto
      show ?thesis
        using 3 Some False le e need(1) with_source_room [OF ok assms(2) 3(2) assms(3) need(2)] buf_boundary [OF assms(1)]
        by (simp add: str89_buf_replace_def)
    qed
  qed
qed

text \<open>C40: When the allocator grants its requests and the result is below half the address space, every operation
  succeeds except for the two mistakes of a caller: ERANGE for a range past the end, checked first and also
  when offset plus length wraps around, and EBOUND for an offset inside a scalar. Erasing needs no memory at
  all, and a code point that is no scalar value is EINVAL.\<close>

theorem edit_status:
  assumes "text_buf m s" and "src_ok m s v" and "\<forall>k. alloc_grants al k" and "unat (buf_len s) + unat (view_len v) < 2 ^ 63"
  shows "snd (snd (str89_buf_append al m s v)) = STR89_OK
    \<and> snd (snd (str89_buf_insert al m s i v)) =
        (if buf_len s < i then STR89_ERANGE
         else if \<not> u89_utf8_valid (take (unat i) (buf_bytes m s)) then STR89_EBOUND else STR89_OK)
    \<and> snd (snd (str89_buf_replace al m s i k v)) =
        (if unat (buf_len s) < unat i + unat k then STR89_ERANGE
         else if \<not> u89_utf8_valid (take (unat i) (buf_bytes m s)) \<or> \<not> u89_utf8_valid (take (unat i + unat k) (buf_bytes m s))
         then STR89_EBOUND else STR89_OK)
    \<and> snd (snd (str89_buf_erase m s i k)) = snd (snd (str89_buf_replace al m s i k v))
    \<and> (\<not> u89_is_scalar cp \<longrightarrow> str89_buf_append_cp al m s cp = (m, s, STR89_EINVAL))"
proof -
  have g: "granted al" using assms(3) by (simp add: granted_def)
  have ok: "heap_ok m" "buf_ok m s" using assms(1) by (simp_all add: text_buf_def)
  have "str89_buf_append_cp al m s cp = (m, s, STR89_EINVAL)" if "\<not> u89_is_scalar cp"
    using that encode_Nil [of cp] by (simp add: str89_buf_append_cp_def with_scalar_def)
  then show ?thesis
    using append_room [OF ok g assms(4)] insert_status [OF assms(1,2) g assms(4), of i]
      replace_status [OF assms(1,2) g assms(4), of i k] erase_status [OF assms(1), of i k] by simp
qed

theorem edit_status_witness:
  "snd (snd (str89_buf_insert granting abcd_mem abcd_buf 5 bc_view)) = STR89_ERANGE
   \<and> snd (snd (str89_buf_insert granting abcd_mem abcd_buf 4 bc_view)) = STR89_OK"
proof -
  have "u89_utf8_valid (buf_bytes abcd_mem abcd_buf)" "u89_utf8_valid (take 4 (buf_bytes abcd_mem abcd_buf))" by code_simp+
  moreover from this have t: "text_buf abcd_mem abcd_buf" using abcd_ok by (simp add: text_buf_def)
  have g: "\<forall>k. alloc_grants granting k" by (simp add: granting_def)
  have len: "unat (buf_len abcd_buf) + unat (view_len bc_view) < 2 ^ 63" "buf_len abcd_buf = 4" by (simp_all add: abcd_buf_def bc_view_def)
  note st = edit_status [OF t abcd_ok(3) g len(1)]
  ultimately show ?thesis using st [of 5] st [of 4] len(2) by simp
qed

end
