(* ===== verification/Bpf_Program.thy ===== *)
theory Bpf_Program
  imports Prelude
begin

unbundle bit_operations_syntax

text \<open>
  \<open>libbpf\<close>, loading: the instruction decoder (\<open>decode.c\<close>), the structural validator
  (\<open>validate.c\<close>) and the program loader that resolves branches to instruction indices
  (\<open>program.c\<close>).

  A byte buffer with its length is the list of its bytes. A C \<open>int\<close> field (offset, immediate) is the
  32-bit word of its two's complement bits. An operation that returns an error code and writes its
  result through a pointer yields \<open>Inl\<close> the code or \<open>Inr\<close> the result.
\<close>

type_synonym bpf_byte = "8 word"
type_synonym bpf_int = "32 word"

datatype bpf_err = BPF_OK | BPF_ETRUNC | BPF_ECOUNT | BPF_EREG | BPF_EDEPRECATED | BPF_EIMM | BPF_EEND
  | BPF_ENEG | BPF_EMOVSX | BPF_ECALL | BPF_EEXIT | BPF_ESIZE | BPF_EEMPTY | BPF_ERES | BPF_EUNSUP
  | BPF_ER10 | BPF_EBRANCH | BPF_EPROF | BPF_EADDR | BPF_EPERM | BPF_EHANDLE | BPF_EFULL | BPF_ESTALE
  | BPF_ESIG

record bpf_insn =
  opcode :: bpf_byte
  cls :: bpf_byte
  code :: bpf_byte
  source :: bpf_byte
  mode :: bpf_byte
  isize :: bpf_byte
  src_reg :: bpf_byte
  dst_reg :: bpf_byte
  offset :: bpf_int
  imm :: bpf_int
  is_wide :: bool
  next_imm :: u32

section \<open>Codes\<close>

abbreviation (input) BPF_CLS_LD :: bpf_byte where "BPF_CLS_LD \<equiv> 0"
abbreviation (input) BPF_CLS_LDX :: bpf_byte where "BPF_CLS_LDX \<equiv> 1"
abbreviation (input) BPF_CLS_ST :: bpf_byte where "BPF_CLS_ST \<equiv> 2"
abbreviation (input) BPF_CLS_STX :: bpf_byte where "BPF_CLS_STX \<equiv> 3"
abbreviation (input) BPF_CLS_ALU :: bpf_byte where "BPF_CLS_ALU \<equiv> 4"
abbreviation (input) BPF_CLS_JMP :: bpf_byte where "BPF_CLS_JMP \<equiv> 5"
abbreviation (input) BPF_CLS_JMP32 :: bpf_byte where "BPF_CLS_JMP32 \<equiv> 6"
abbreviation (input) BPF_CLS_ALU64 :: bpf_byte where "BPF_CLS_ALU64 \<equiv> 7"

abbreviation (input) BPF_SRC_K :: bpf_byte where "BPF_SRC_K \<equiv> 0"
abbreviation (input) BPF_SRC_X :: bpf_byte where "BPF_SRC_X \<equiv> 1"

abbreviation (input) BPF_MODE_IMM :: bpf_byte where "BPF_MODE_IMM \<equiv> 0"
abbreviation (input) BPF_MODE_ABS :: bpf_byte where "BPF_MODE_ABS \<equiv> 1"
abbreviation (input) BPF_MODE_IND :: bpf_byte where "BPF_MODE_IND \<equiv> 2"
abbreviation (input) BPF_MODE_MEM :: bpf_byte where "BPF_MODE_MEM \<equiv> 3"
abbreviation (input) BPF_MODE_MEMSX :: bpf_byte where "BPF_MODE_MEMSX \<equiv> 4"
abbreviation (input) BPF_MODE_ATOMIC :: bpf_byte where "BPF_MODE_ATOMIC \<equiv> 6"

abbreviation (input) BPF_SIZE_W :: bpf_byte where "BPF_SIZE_W \<equiv> 0"
abbreviation (input) BPF_SIZE_H :: bpf_byte where "BPF_SIZE_H \<equiv> 1"
abbreviation (input) BPF_SIZE_B :: bpf_byte where "BPF_SIZE_B \<equiv> 2"
abbreviation (input) BPF_SIZE_DW :: bpf_byte where "BPF_SIZE_DW \<equiv> 3"

abbreviation (input) BPF_ALU_ADD :: bpf_byte where "BPF_ALU_ADD \<equiv> 0x0"
abbreviation (input) BPF_ALU_SUB :: bpf_byte where "BPF_ALU_SUB \<equiv> 0x1"
abbreviation (input) BPF_ALU_MUL :: bpf_byte where "BPF_ALU_MUL \<equiv> 0x2"
abbreviation (input) BPF_ALU_DIV :: bpf_byte where "BPF_ALU_DIV \<equiv> 0x3"
abbreviation (input) BPF_ALU_OR :: bpf_byte where "BPF_ALU_OR \<equiv> 0x4"
abbreviation (input) BPF_ALU_AND :: bpf_byte where "BPF_ALU_AND \<equiv> 0x5"
abbreviation (input) BPF_ALU_LSH :: bpf_byte where "BPF_ALU_LSH \<equiv> 0x6"
abbreviation (input) BPF_ALU_RSH :: bpf_byte where "BPF_ALU_RSH \<equiv> 0x7"
abbreviation (input) BPF_ALU_NEG :: bpf_byte where "BPF_ALU_NEG \<equiv> 0x8"
abbreviation (input) BPF_ALU_MOD :: bpf_byte where "BPF_ALU_MOD \<equiv> 0x9"
abbreviation (input) BPF_ALU_XOR :: bpf_byte where "BPF_ALU_XOR \<equiv> 0xa"
abbreviation (input) BPF_ALU_MOV :: bpf_byte where "BPF_ALU_MOV \<equiv> 0xb"
abbreviation (input) BPF_ALU_ARSH :: bpf_byte where "BPF_ALU_ARSH \<equiv> 0xc"
abbreviation (input) BPF_ALU_END :: bpf_byte where "BPF_ALU_END \<equiv> 0xd"

abbreviation (input) BPF_JMP_JA :: bpf_byte where "BPF_JMP_JA \<equiv> 0x0"
abbreviation (input) BPF_JMP_JEQ :: bpf_byte where "BPF_JMP_JEQ \<equiv> 0x1"
abbreviation (input) BPF_JMP_JGT :: bpf_byte where "BPF_JMP_JGT \<equiv> 0x2"
abbreviation (input) BPF_JMP_JGE :: bpf_byte where "BPF_JMP_JGE \<equiv> 0x3"
abbreviation (input) BPF_JMP_JSET :: bpf_byte where "BPF_JMP_JSET \<equiv> 0x4"
abbreviation (input) BPF_JMP_JNE :: bpf_byte where "BPF_JMP_JNE \<equiv> 0x5"
abbreviation (input) BPF_JMP_JSGT :: bpf_byte where "BPF_JMP_JSGT \<equiv> 0x6"
abbreviation (input) BPF_JMP_JSGE :: bpf_byte where "BPF_JMP_JSGE \<equiv> 0x7"
abbreviation (input) BPF_JMP_CALL :: bpf_byte where "BPF_JMP_CALL \<equiv> 0x8"
abbreviation (input) BPF_JMP_EXIT :: bpf_byte where "BPF_JMP_EXIT \<equiv> 0x9"
abbreviation (input) BPF_JMP_JLT :: bpf_byte where "BPF_JMP_JLT \<equiv> 0xa"
abbreviation (input) BPF_JMP_JLE :: bpf_byte where "BPF_JMP_JLE \<equiv> 0xb"
abbreviation (input) BPF_JMP_JSLT :: bpf_byte where "BPF_JMP_JSLT \<equiv> 0xc"
abbreviation (input) BPF_JMP_JSLE :: bpf_byte where "BPF_JMP_JSLE \<equiv> 0xd"

section \<open>Decoding\<close>

definition read_u16le :: "bytes \<Rightarrow> u32" where
  "read_u16le p = ucast (p ! 0) OR push_bit 8 (ucast (p ! 1))"

definition read_u32le :: "bytes \<Rightarrow> u32" where
  "read_u32le p = ucast (p ! 0) OR push_bit 8 (ucast (p ! 1)) OR push_bit 16 (ucast (p ! 2)) OR push_bit 24 (ucast (p ! 3))"

definition class_of :: "bpf_byte \<Rightarrow> bpf_byte" where
  "class_of op = op AND 0x07"

definition is_wide_ld :: "bpf_byte \<Rightarrow> bool" where
  "is_wide_ld op = (if class_of op \<noteq> BPF_CLS_LD then False else drop_bit 5 op = BPF_MODE_IMM)"

definition sign_offset :: "u32 \<Rightarrow> bpf_int" where
  "sign_offset v = (if v AND 0x8000 \<noteq> 0 then v OR 0xFFFF0000 else v)"

text \<open>The instruction whose first byte is the first of \<open>p\<close>.\<close>

definition decode_insn :: "bytes \<Rightarrow> bpf_insn" where
  "decode_insn p =
     (let op = p ! 0; regs = p ! 1; c = class_of op;
          wide = (if c = BPF_CLS_LD then is_wide_ld op else False);
          is_alu = (c = BPF_CLS_ALU \<or> c = BPF_CLS_ALU64 \<or> c = BPF_CLS_JMP \<or> c = BPF_CLS_JMP32) in
      \<lparr>opcode = op, cls = c,
       code = (if wide then drop_bit 5 op else if is_alu then drop_bit 4 op else 0),
       source = (if wide then 0 else if is_alu then drop_bit 3 op AND 0x01 else 0),
       mode = (if wide then BPF_MODE_IMM else if is_alu then 0 else drop_bit 5 op),
       isize = (if wide then drop_bit 3 op AND 0x03 else if is_alu then 0 else drop_bit 3 op AND 0x03),
       src_reg = drop_bit 4 regs, dst_reg = regs AND 0x0F,
       offset = sign_offset (read_u16le (drop 2 p)), imm = read_u32le (drop 4 p),
       is_wide = wide, next_imm = (if wide then read_u32le (drop 12 p) else 0)\<rparr>)"

text \<open>The loop over the bytes that remain, with room for \<open>room\<close> more instructions.\<close>

function decode_loop :: "bytes \<Rightarrow> nat \<Rightarrow> bpf_err + bpf_insn list" where
  "decode_loop p room =
     (if p = [] then Inr []
      else if length p < 8 then Inl BPF_ETRUNC
      else if room = 0 then Inl BPF_ECOUNT
      else if is_wide_ld (p ! 0) \<and> length p < 16 then Inl BPF_ETRUNC
      else case decode_loop (drop (if is_wide_ld (p ! 0) then 16 else 8) p) (room - 1) of
        Inl e \<Rightarrow> Inl e
      | Inr is \<Rightarrow> Inr (decode_insn p # is))"
  by pat_completeness auto
termination
  by (relation "measure (\<lambda>(p, room). length p)") auto

declare decode_loop.simps [simp del]

definition bpf_decode :: "bytes \<Rightarrow> u32 \<Rightarrow> u32 \<Rightarrow> bpf_err + bpf_insn list" where
  "bpf_decode buf len cap = decode_loop (take (unat len) buf) (unat cap)"

section \<open>Structural validation\<close>

definition is_divmod :: "bpf_byte \<Rightarrow> bool" where
  "is_divmod c \<longleftrightarrow> c = BPF_ALU_DIV \<or> c = BPF_ALU_MOD \<or> c = BPF_ALU_MUL"

definition end_width_ok :: "bpf_int \<Rightarrow> bool" where
  "end_width_ok i \<longleftrightarrow> i = 16 \<or> i = 32 \<or> i = 64"

definition movsx_width_ok :: "bpf_byte \<Rightarrow> bpf_int \<Rightarrow> bool" where
  "movsx_width_ok c off \<longleftrightarrow> off = 8 \<or> off = 16 \<or> c = BPF_CLS_ALU64 \<and> off = 32"

definition reg_err :: "bpf_insn \<Rightarrow> bpf_err" where
  "reg_err ins = (if 10 < src_reg ins then BPF_EREG else if 10 < dst_reg ins then BPF_EREG else BPF_OK)"

definition validate_alu :: "bpf_insn \<Rightarrow> bpf_err" where
  "validate_alu ins =
     (if code ins = BPF_ALU_END then
        (if cls ins = BPF_CLS_ALU64 \<and> source ins \<noteq> 0 then BPF_EEND
         else if \<not> end_width_ok (imm ins) then BPF_EEND else BPF_OK)
      else if code ins = BPF_ALU_NEG then (if source ins \<noteq> BPF_SRC_K then BPF_ENEG else BPF_OK)
      else if code ins = BPF_ALU_MOV then
        (if offset ins = 0 then BPF_OK
         else if \<not> movsx_width_ok (cls ins) (offset ins) then BPF_EMOVSX
         else if source ins \<noteq> BPF_SRC_X then BPF_EMOVSX else BPF_OK)
      else BPF_OK)"

definition validate_jmp :: "bpf_insn \<Rightarrow> bpf_err" where
  "validate_jmp ins =
     (if code ins = BPF_JMP_CALL then
        (if src_reg ins = 0 then BPF_OK else if src_reg ins = 1 then BPF_OK
         else if src_reg ins = 2 then BPF_OK else BPF_ECALL)
      else if code ins = BPF_JMP_EXIT then
        (if src_reg ins \<noteq> 0 then BPF_EEXIT else if offset ins \<noteq> 0 then BPF_EEXIT
         else if imm ins \<noteq> 0 then BPF_EEXIT else BPF_OK)
      else BPF_OK)"

definition validate_mem :: "bpf_insn \<Rightarrow> bpf_err" where
  "validate_mem ins =
     (if mode ins = BPF_MODE_ABS then BPF_EDEPRECATED
      else if mode ins = BPF_MODE_IND then BPF_EDEPRECATED
      else if mode ins = BPF_MODE_IMM then
        (if cls ins \<noteq> BPF_CLS_LD then BPF_ESIZE else if src_reg ins \<noteq> 0 then BPF_EIMM else BPF_OK)
      else if mode ins = BPF_MODE_ATOMIC then
        (if isize ins = BPF_SIZE_B then BPF_ESIZE else if isize ins = BPF_SIZE_H then BPF_ESIZE else BPF_OK)
      else if mode ins = BPF_MODE_MEMSX then (if isize ins = BPF_SIZE_DW then BPF_ESIZE else BPF_OK)
      else BPF_OK)"

abbreviation (input) BPF_CONF_BASE32 :: u32 where "BPF_CONF_BASE32 \<equiv> 0x01"
abbreviation (input) BPF_CONF_BASE64 :: u32 where "BPF_CONF_BASE64 \<equiv> 0x02"
abbreviation (input) BPF_CONF_DIVMUL32 :: u32 where "BPF_CONF_DIVMUL32 \<equiv> 0x04"
abbreviation (input) BPF_CONF_DIVMUL64 :: u32 where "BPF_CONF_DIVMUL64 \<equiv> 0x08"
abbreviation (input) BPF_CONF_ATOMIC32 :: u32 where "BPF_CONF_ATOMIC32 \<equiv> 0x10"
abbreviation (input) BPF_CONF_ATOMIC64 :: u32 where "BPF_CONF_ATOMIC64 \<equiv> 0x20"
abbreviation (input) BPF_CONF_PACKET :: u32 where "BPF_CONF_PACKET \<equiv> 0x40"

definition flag_if :: "bool \<Rightarrow> u32 \<Rightarrow> u32" where
  "flag_if b f = (if b then f else 0)"

definition bpf_insn_conf :: "bpf_insn \<Rightarrow> u32" where
  "bpf_insn_conf ins =
     (let alu = (cls ins = BPF_CLS_ALU); alu64 = (cls ins = BPF_CLS_ALU64);
          jmp = (cls ins = BPF_CLS_JMP); jmp32 = (cls ins = BPF_CLS_JMP32);
          atom = (mode ins = BPF_MODE_ATOMIC);
          packet = (mode ins = BPF_MODE_ABS \<or> mode ins = BPF_MODE_IND);
          dm = is_divmod (code ins);
          c = flag_if alu BPF_CONF_BASE32 OR flag_if alu64 BPF_CONF_BASE64
              OR flag_if jmp BPF_CONF_BASE64 OR flag_if jmp32 BPF_CONF_BASE32
              OR flag_if (dm \<and> alu) BPF_CONF_DIVMUL32 OR flag_if (dm \<and> alu64) BPF_CONF_DIVMUL64
              OR flag_if (code ins = BPF_ALU_END \<and> imm ins = 64) BPF_CONF_BASE64
              OR flag_if (atom \<and> isize ins = BPF_SIZE_W) BPF_CONF_ATOMIC32
              OR flag_if (atom \<and> isize ins = BPF_SIZE_DW) BPF_CONF_ATOMIC64
              OR flag_if packet BPF_CONF_PACKET
              OR (if \<not> alu \<and> \<not> alu64 \<and> \<not> jmp \<and> \<not> jmp32
                  then (if isize ins = BPF_SIZE_DW then BPF_CONF_BASE64 else BPF_CONF_BASE32) else 0);
          c = (if c AND BPF_CONF_BASE64 \<noteq> 0 then c OR BPF_CONF_BASE32 else c);
          c = (if c AND BPF_CONF_DIVMUL64 \<noteq> 0 then c OR BPF_CONF_DIVMUL32 else c) in
      if c AND BPF_CONF_ATOMIC64 \<noteq> 0 then c OR BPF_CONF_ATOMIC32 else c)"

definition validate_insn :: "bpf_insn \<Rightarrow> bpf_err" where
  "validate_insn ins =
     (if reg_err ins \<noteq> BPF_OK then reg_err ins
      else if cls ins = BPF_CLS_ALU \<or> cls ins = BPF_CLS_ALU64 then validate_alu ins
      else if cls ins = BPF_CLS_JMP \<or> cls ins = BPF_CLS_JMP32 then validate_jmp ins
      else validate_mem ins)"

text \<open>The loop stops at the first error, with the groups of the instructions up to it.\<close>

fun validate_from :: "bpf_insn list \<Rightarrow> u32 \<Rightarrow> bpf_err \<times> u32" where
  "validate_from [] conf = (BPF_OK, conf)"
| "validate_from (ins # is) conf =
     (let conf = conf OR bpf_insn_conf ins in
      if validate_insn ins \<noteq> BPF_OK then (validate_insn ins, conf) else validate_from is conf)"

definition bpf_validate :: "bpf_insn list \<Rightarrow> bpf_err \<times> u32" where
  "bpf_validate is = validate_from is 0"

section \<open>Loading\<close>

record p_rec =
  slot :: u32
  target :: u32
  flag :: bpf_byte

record bpf_program =
  prog_n :: u32
  prog_conf :: u32
  prog_ins :: "bpf_insn list"
  prog_rec :: "p_rec list"

record bpf_profile =
  allowed :: u32
  max_insn :: u32

record bpf_prog_insn =
  pi_in :: bpf_insn
  pi_slot :: u32
  pi_is_wide :: bool
  pi_is_call_local :: bool
  pi_has_target :: bool
  pi_target :: u32

definition insn_slots :: "bpf_insn \<Rightarrow> u32" where
  "insn_slots ins = (if is_wide ins then 2 else 1)"

definition is_alu_or_jmp :: "bpf_byte \<Rightarrow> bool" where
  "is_alu_or_jmp c \<longleftrightarrow> c = BPF_CLS_ALU \<or> c = BPF_CLS_ALU64 \<or> c = BPF_CLS_JMP \<or> c = BPF_CLS_JMP32"

definition check_opcode :: "bpf_insn \<Rightarrow> bpf_err" where
  "check_opcode ins = (if is_alu_or_jmp (cls ins) \<and> 0x0E \<le> code ins then BPF_EUNSUP else BPF_OK)"

text \<open>The atomic operation without and with its fetch bit, from the low byte of the immediate.\<close>

definition atomic_op :: "bpf_insn \<Rightarrow> u32" where
  "atomic_op ins = imm ins AND 0xFE"

definition atomic_fetch :: "bpf_insn \<Rightarrow> bool" where
  "atomic_fetch ins \<longleftrightarrow> (ucast (imm ins AND 0x01) :: bpf_byte) \<noteq> 0"

definition atomic_writes_src :: "bpf_insn \<Rightarrow> bool" where
  "atomic_writes_src ins \<longleftrightarrow> atomic_op ins = 0xE0 \<or> atomic_fetch ins \<and> atomic_op ins \<noteq> 0xF0"

definition writes_r10 :: "bpf_insn \<Rightarrow> bool" where
  "writes_r10 ins \<longleftrightarrow>
     cls ins = BPF_CLS_ALU \<and> dst_reg ins = 10
   \<or> cls ins = BPF_CLS_ALU64 \<and> dst_reg ins = 10
   \<or> cls ins = BPF_CLS_LD \<and> dst_reg ins = 10
   \<or> cls ins = BPF_CLS_LDX \<and> dst_reg ins = 10
   \<or> cls ins = BPF_CLS_STX \<and> mode ins = BPF_MODE_ATOMIC \<and> atomic_writes_src ins \<and> src_reg ins = 10"

definition check_atomic :: "bpf_insn \<Rightarrow> bpf_err" where
  "check_atomic ins =
     (if cls ins = BPF_CLS_STX \<and> mode ins = BPF_MODE_ATOMIC
         \<and> atomic_op ins \<noteq> 0x00 \<and> atomic_op ins \<noteq> 0x40 \<and> atomic_op ins \<noteq> 0x50
         \<and> atomic_op ins \<noteq> 0xA0 \<and> atomic_op ins \<noteq> 0xE0 \<and> atomic_op ins \<noteq> 0xF0
      then BPF_EUNSUP else BPF_OK)"

definition check_wide_res :: "bytes \<Rightarrow> u32 \<Rightarrow> bpf_err" where
  "check_wide_res raw pos =
     (if raw ! unat (pos + 8) \<noteq> 0 then BPF_ERES
      else if raw ! unat (pos + 9) \<noteq> 0 then BPF_ERES
      else if raw ! unat (pos + 10) \<noteq> 0 then BPF_ERES
      else if raw ! unat (pos + 11) \<noteq> 0 then BPF_ERES else BPF_OK)"

definition is_local_call :: "bpf_insn \<Rightarrow> bool" where
  "is_local_call ins \<longleftrightarrow> cls ins = BPF_CLS_JMP \<and> code ins = BPF_JMP_CALL \<and> src_reg ins = 1"

text \<open>Whether the instruction has a target, and if so whether the immediate holds its distance.\<close>

definition branch_delta :: "bpf_insn \<Rightarrow> bool \<times> bool" where
  "branch_delta ins =
     (if cls ins = BPF_CLS_JMP then
        (if code ins = BPF_JMP_JA then (True, False)
         else if code ins = BPF_JMP_CALL then (is_local_call ins, is_local_call ins)
         else if code ins = BPF_JMP_EXIT then (False, False) else (True, False))
      else if cls ins = BPF_CLS_JMP32 then (True, code ins = BPF_JMP_JA)
      else (False, False))"

text \<open>The slot pass: where each instruction starts, in 64-bit slots.\<close>

fun slot_pass :: "bytes \<Rightarrow> bpf_insn list \<Rightarrow> u32 \<Rightarrow> bpf_err + p_rec list" where
  "slot_pass raw [] cursor = Inr []"
| "slot_pass raw (ins # is) cursor =
     (if is_wide ins \<and> check_wide_res raw cursor \<noteq> BPF_OK then Inl (check_wide_res raw cursor)
      else case slot_pass raw is (cursor + (if is_wide ins then 16 else 8)) of
        Inl e \<Rightarrow> Inl e
      | Inr rs \<Rightarrow> Inr (\<lparr>slot = drop_bit 3 cursor, target = 0, flag = (if is_local_call ins then 0x04 else 0)\<rparr> # rs))"

fun conf_of :: "bpf_insn list \<Rightarrow> u32 \<Rightarrow> u32" where
  "conf_of [] conf = conf"
| "conf_of (ins # is) conf = conf_of is (conf OR bpf_insn_conf ins)"

text \<open>The operations a validated instruction must not have.\<close>

fun check_ops :: "bpf_insn list \<Rightarrow> bpf_err" where
  "check_ops [] = BPF_OK"
| "check_ops (ins # is) =
     (if check_opcode ins \<noteq> BPF_OK then check_opcode ins
      else if check_atomic ins \<noteq> BPF_OK then check_atomic ins
      else if writes_r10 ins then BPF_ER10 else check_ops is)"

text \<open>The index of the (last) record that starts at a slot.\<close>

fun slot_index_from :: "p_rec list \<Rightarrow> nat \<Rightarrow> u32 \<Rightarrow> nat option \<Rightarrow> nat option" where
  "slot_index_from [] j tgt r = r"
| "slot_index_from (rc # rs) j tgt r = slot_index_from rs (Suc j) tgt (if slot rc = tgt then Some j else r)"

definition slot_index :: "p_rec list \<Rightarrow> u32 \<Rightarrow> nat option" where
  "slot_index rs tgt = slot_index_from rs 0 tgt None"

text \<open>The target of one instruction. The sum is formed in 64 bits, where it cannot overflow.\<close>

definition branch_slot :: "bpf_insn \<Rightarrow> p_rec \<Rightarrow> int" where
  "branch_slot ins rc =
     int (unat (slot rc + insn_slots ins)) + sint (if snd (branch_delta ins) then imm ins else offset ins)"

definition resolve_one :: "p_rec list \<Rightarrow> u32 \<Rightarrow> bpf_insn \<Rightarrow> p_rec \<Rightarrow> bpf_err + p_rec" where
  "resolve_one recs slots ins rc =
     (if \<not> fst (branch_delta ins) then Inr rc
      else if branch_slot ins rc < 0 then Inl BPF_EBRANCH
      else if int (unat slots) \<le> branch_slot ins rc then Inl BPF_EBRANCH
      else case slot_index recs (word_of_int (branch_slot ins rc)) of
        None \<Rightarrow> Inl BPF_EBRANCH
      | Some idx \<Rightarrow> Inr (rc\<lparr>target := of_nat idx, flag := flag rc OR 0x02\<rparr>))"

fun resolve_targets :: "p_rec list \<Rightarrow> u32 \<Rightarrow> bpf_insn list \<Rightarrow> p_rec list \<Rightarrow> bpf_err + p_rec list" where
  "resolve_targets recs slots (ins # is) (rc # rs) =
     (case resolve_one recs slots ins rc of
        Inl e \<Rightarrow> Inl e
      | Inr rc' \<Rightarrow>
        (case resolve_targets recs slots is rs of Inl e \<Rightarrow> Inl e | Inr rs' \<Rightarrow> Inr (rc' # rs')))"
| "resolve_targets recs slots _ _ = Inr []"

text \<open>
  The loader. \<open>grants\<close> tells which of its three allocations succeed: the instructions, the program,
  the records. The structural pass in front of the target pass has written every record, and the
  target pass reads only starts of instructions, which it does not change.
\<close>

definition load_limit :: "bpf_profile option \<Rightarrow> u32" where
  "load_limit prof = (case prof of None \<Rightarrow> 0 | Some p \<Rightarrow> max_insn p)"

definition load_allowed :: "bpf_profile option \<Rightarrow> u32" where
  "load_allowed prof = (case prof of None \<Rightarrow> 0 | Some p \<Rightarrow> allowed p)"

definition load_decoded :: "bytes \<Rightarrow> u32 \<Rightarrow> bpf_profile option \<Rightarrow> bpf_insn list \<Rightarrow> bpf_err + bpf_program" where
  "load_decoded raw len prof is =
     (case slot_pass raw is 0 of
        Inl e \<Rightarrow> Inl e
      | Inr rs \<Rightarrow>
        (let conf = conf_of is 0 in
         if fst (bpf_validate is) \<noteq> BPF_OK then Inl (fst (bpf_validate is))
         else if check_ops is \<noteq> BPF_OK then Inl (check_ops is)
         else if load_allowed prof \<noteq> 0 \<and> conf AND NOT (load_allowed prof) \<noteq> 0 then Inl BPF_EPROF
         else case resolve_targets rs (drop_bit 3 len) is rs of
           Inl e \<Rightarrow> Inl e
         | Inr rs \<Rightarrow> Inr \<lparr>prog_n = of_nat (length is), prog_conf = conf, prog_ins = is, prog_rec = rs\<rparr>))"

definition bpf_program_load :: "(nat \<Rightarrow> bool) \<Rightarrow> bytes \<Rightarrow> u32 \<Rightarrow> bpf_profile option \<Rightarrow> bpf_err + bpf_program" where
  "bpf_program_load grants raw len prof =
     (if len = 0 then Inl BPF_EEMPTY
      else if (ucast (len AND 0x07) :: bpf_byte) \<noteq> 0 then Inl BPF_ETRUNC
      else if \<not> grants 0 then Inl BPF_ETRUNC
      else case bpf_decode raw len (drop_bit 3 len) of
        Inl e \<Rightarrow> Inl e
      | Inr is \<Rightarrow>
        (if load_limit prof \<noteq> 0 \<and> load_limit prof < of_nat (length is) then Inl BPF_ECOUNT
         else if \<not> grants 1 then Inl BPF_ETRUNC
         else if \<not> grants 2 then Inl BPF_ETRUNC
         else load_decoded raw len prof is))"

definition bpf_program_count :: "bpf_program \<Rightarrow> u32" where
  "bpf_program_count prog = prog_n prog"

definition bpf_program_conformance :: "bpf_program \<Rightarrow> u32" where
  "bpf_program_conformance prog = prog_conf prog"

definition bpf_program_get :: "bpf_program \<Rightarrow> u32 \<Rightarrow> bpf_err + bpf_prog_insn" where
  "bpf_program_get prog idx =
     (if prog_n prog \<le> idx then Inl BPF_EREG
      else let ins = prog_ins prog ! unat idx; rc = prog_rec prog ! unat idx in
        Inr \<lparr>pi_in = ins, pi_slot = slot rc, pi_is_wide = is_wide ins,
             pi_is_call_local = (flag rc AND 0x04 \<noteq> 0), pi_has_target = (flag rc AND 0x02 \<noteq> 0),
             pi_target = target rc\<rparr>)"

end
