(* ===== verification/Bpf_Eval.thy ===== *)
theory Bpf_Eval
  imports Bpf_Program "HOL-Library.Signed_Division"
begin

unbundle bit_operations_syntax

text \<open>
  \<open>libbpf\<close>, evaluation (\<open>eval.c\<close>): arithmetic and byte swaps, conditions, and the machine over one
  flat memory region.

  Registers are 64-bit words. A cast of an unsigned word to a signed type reads its two's complement
  value, a right shift of a signed value is arithmetic and signed division truncates towards zero
  (the code excludes the divisors 0 and -1 before it divides).
\<close>

section \<open>Arithmetic\<close>

definition se_i32 :: "bpf_int \<Rightarrow> u64" where
  "se_i32 v = scast v"

definition sw16 :: "u16 \<Rightarrow> u16" where
  "sw16 v = push_bit 8 v OR drop_bit 8 v"

definition sw32 :: "u32 \<Rightarrow> u32" where
  "sw32 v = push_bit 24 (v AND 0x000000FF) OR push_bit 8 (v AND 0x0000FF00)
     OR drop_bit 8 (v AND 0x00FF0000) OR drop_bit 24 (v AND 0xFF000000)"

definition sw64 :: "u64 \<Rightarrow> u64" where
  "sw64 v =
     (let hi = ucast (drop_bit 32 v) :: u32; lo = ucast v :: u32 in
      push_bit 32 (ucast (sw32 lo)) OR ucast (sw32 hi))"

definition op32_lsh :: "u32 \<Rightarrow> u32 \<Rightarrow> u32" where
  "op32_lsh a b = push_bit (unat (b AND 0x1F)) a"

definition op32_rsh :: "u32 \<Rightarrow> u32 \<Rightarrow> u32" where
  "op32_rsh a b = drop_bit (unat (b AND 0x1F)) a"

definition op32_arsh :: "u32 \<Rightarrow> u32 \<Rightarrow> u32" where
  "op32_arsh a b = signed_drop_bit (unat (b AND 0x1F)) a"

definition op32_div :: "u32 \<Rightarrow> u32 \<Rightarrow> u32" where
  "op32_div a b = (if b \<noteq> 0 then a div b else 0)"

definition op32_mod :: "u32 \<Rightarrow> u32 \<Rightarrow> u32" where
  "op32_mod a b = (if b \<noteq> 0 then a mod b else a)"

definition op32_sdiv :: "u32 \<Rightarrow> u32 \<Rightarrow> u32" where
  "op32_sdiv a b =
     (if sint b = 0 then 0 else if sint b = - 1 then 0 - a else word_of_int (sint a sdiv sint b))"

definition op32_smod :: "u32 \<Rightarrow> u32 \<Rightarrow> u32" where
  "op32_smod a b =
     (if sint b = 0 then a else if sint b = - 1 then 0 else word_of_int (sint a smod sint b))"

definition op64_lsh :: "u64 \<Rightarrow> u64 \<Rightarrow> u64" where
  "op64_lsh a b = (let t = ucast b :: u32 in push_bit (unat (t AND 0x3F)) a)"

definition op64_rsh :: "u64 \<Rightarrow> u64 \<Rightarrow> u64" where
  "op64_rsh a b = (let t = ucast b :: u32 in drop_bit (unat (t AND 0x3F)) a)"

definition op64_arsh :: "u64 \<Rightarrow> u64 \<Rightarrow> u64" where
  "op64_arsh a b = (let t = ucast b :: u32 in signed_drop_bit (unat (t AND 0x3F)) a)"

definition op64_div :: "u64 \<Rightarrow> u64 \<Rightarrow> u64" where
  "op64_div a b = (if b \<noteq> 0 then a div b else 0)"

definition op64_mod :: "u64 \<Rightarrow> u64 \<Rightarrow> u64" where
  "op64_mod a b = (if b \<noteq> 0 then a mod b else a)"

definition op64_sdiv :: "u64 \<Rightarrow> u64 \<Rightarrow> u64" where
  "op64_sdiv a b =
     (if sint b = 0 then 0 else if sint b = - 1 then 0 - a else word_of_int (sint a sdiv sint b))"

definition op64_smod :: "u64 \<Rightarrow> u64 \<Rightarrow> u64" where
  "op64_smod a b =
     (if sint b = 0 then a else if sint b = - 1 then 0 else word_of_int (sint a smod sint b))"

definition sx64 :: "u64 \<Rightarrow> bpf_int \<Rightarrow> u64" where
  "sx64 v width =
     (if width = 32 then scast (ucast v :: u32)
      else if width = 16 then scast (ucast (v AND 0xFFFF) :: u16)
      else if width = 8 then scast (ucast (v AND 0xFF) :: u8) else v)"

definition sx32 :: "u32 \<Rightarrow> bpf_int \<Rightarrow> u32" where
  "sx32 v width =
     (if width = 16 then scast (ucast (v AND 0xFFFF) :: u16)
      else if width = 8 then scast (ucast (v AND 0xFF) :: u8) else v)"

definition do_end :: "u64 \<Rightarrow> bool \<Rightarrow> bool \<Rightarrow> bpf_int \<Rightarrow> u64" where
  "do_end dst is64 be width =
     (if width = 64 then (if is64 then sw64 dst else if be then sw64 dst else dst)
      else if width = 32 then
        (if is64 then ucast (sw32 (ucast dst)) else if be then ucast (sw32 (ucast dst)) else dst AND 0xFFFFFFFF)
      else if width = 16 then
        (if is64 then ucast (sw16 (ucast dst)) else if be then ucast (sw16 (ucast dst)) else dst AND 0xFFFF)
      else dst)"

record bpf_regs =
  r :: "u64 list"

definition get_reg :: "bpf_regs \<Rightarrow> bpf_byte \<Rightarrow> u64" where
  "get_reg regs i = r regs ! unat i"

definition set_reg :: "bpf_regs \<Rightarrow> bpf_byte \<Rightarrow> u64 \<Rightarrow> bpf_regs" where
  "set_reg regs i v = regs\<lparr>r := (r regs)[unat i := v]\<rparr>"

text \<open>
  The two-operand operations. \<open>junk\<close> is what the result variable holds when no operation has set it:
  the codes 14 and 15, which the loader rejects.
\<close>

definition alu_result :: "u64 \<Rightarrow> bool \<Rightarrow> bpf_byte \<Rightarrow> bpf_int \<Rightarrow> u64 \<Rightarrow> u64 \<Rightarrow> u32 \<Rightarrow> u32 \<Rightarrow> u64" where
  "alu_result junk is64 c off dst src dst32 src32 =
     (if c = BPF_ALU_ADD then (if is64 then dst + src else ucast (dst32 + src32))
      else if c = BPF_ALU_SUB then (if is64 then dst - src else ucast (dst32 - src32))
      else if c = BPF_ALU_MUL then (if is64 then dst * src else ucast (dst32 * src32))
      else if c = BPF_ALU_DIV then (if is64 then (if off = 1 then op64_sdiv dst src else op64_div dst src) else ucast ((if off = 1 then op32_sdiv dst32 src32 else op32_div dst32 src32)))
      else if c = BPF_ALU_MOD then (if is64 then (if off = 1 then op64_smod dst src else op64_mod dst src) else ucast ((if off = 1 then op32_smod dst32 src32 else op32_mod dst32 src32)))
      else if c = BPF_ALU_OR then (if is64 then dst OR src else ucast (dst32 OR src32))
      else if c = BPF_ALU_AND then (if is64 then dst AND src else ucast (dst32 AND src32))
      else if c = BPF_ALU_XOR then (if is64 then dst XOR src else ucast (dst32 XOR src32))
      else if c = BPF_ALU_LSH then (if is64 then op64_lsh dst src else ucast (op32_lsh dst32 src32))
      else if c = BPF_ALU_RSH then (if is64 then op64_rsh dst src else ucast (op32_rsh dst32 src32))
      else if c = BPF_ALU_ARSH then (if is64 then op64_arsh dst src else ucast (op32_arsh dst32 src32))
      else junk)"

definition bpf_alu :: "u64 \<Rightarrow> bpf_regs \<Rightarrow> bpf_insn \<Rightarrow> bpf_regs" where
  "bpf_alu junk regs ins =
     (let is64 = (cls ins = BPF_CLS_ALU64);
          dst = get_reg regs (dst_reg ins);
          dst32 = ucast dst :: u32;
          src = (if source ins = BPF_SRC_K then se_i32 (imm ins) else get_reg regs (src_reg ins));
          src32 = (if source ins = BPF_SRC_K then imm ins else ucast (get_reg regs (src_reg ins))) in
      if code ins = BPF_ALU_END then set_reg regs (dst_reg ins) (do_end dst is64 (source ins \<noteq> 0) (imm ins))
      else if code ins = BPF_ALU_NEG then
        set_reg regs (dst_reg ins) (if is64 then 0 - dst else ucast (0 - dst32))
      else if code ins = BPF_ALU_MOV then
        (if offset ins = 0 then set_reg regs (dst_reg ins) (if is64 then src else ucast src32)
         else set_reg regs (dst_reg ins)
                (if is64 then sx64 src (offset ins) else ucast (sx32 src32 (offset ins))))
      else set_reg regs (dst_reg ins) (alu_result junk is64 (code ins) (offset ins) dst src dst32 src32))"

section \<open>Conditions\<close>

definition cond_taken :: "bpf_byte \<Rightarrow> bool \<Rightarrow> u64 \<Rightarrow> u64 \<Rightarrow> bool" where
  "cond_taken c is32 d s =
     (let d32 = ucast d :: u32; s32 = ucast s :: u32 in
      if is32 then
        (if c = BPF_JMP_JEQ then d32 = s32
         else if c = BPF_JMP_JNE then d32 \<noteq> s32
         else if c = BPF_JMP_JGT then s32 < d32
         else if c = BPF_JMP_JGE then s32 \<le> d32
         else if c = BPF_JMP_JLT then d32 < s32
         else if c = BPF_JMP_JLE then d32 \<le> s32
         else if c = BPF_JMP_JSET then d32 AND s32 \<noteq> 0
         else if c = BPF_JMP_JSGT then sint s32 < sint d32
         else if c = BPF_JMP_JSGE then sint s32 \<le> sint d32
         else if c = BPF_JMP_JSLT then sint d32 < sint s32
         else if c = BPF_JMP_JSLE then sint d32 \<le> sint s32
         else False)
      else
        (if c = BPF_JMP_JEQ then d = s
         else if c = BPF_JMP_JNE then d \<noteq> s
         else if c = BPF_JMP_JGT then s < d
         else if c = BPF_JMP_JGE then s \<le> d
         else if c = BPF_JMP_JLT then d < s
         else if c = BPF_JMP_JLE then d \<le> s
         else if c = BPF_JMP_JSET then d AND s \<noteq> 0
         else if c = BPF_JMP_JSGT then sint s < sint d
         else if c = BPF_JMP_JSGE then sint s \<le> sint d
         else if c = BPF_JMP_JSLT then sint d < sint s
         else if c = BPF_JMP_JSLE then sint d \<le> sint s
         else False))"

definition bpf_cond_taken :: "bpf_byte \<Rightarrow> bool \<Rightarrow> u64 \<Rightarrow> u64 \<Rightarrow> bool" where
  "bpf_cond_taken c is32 d s = cond_taken c is32 d s"

section \<open>Flat memory\<close>

definition size_bytes :: "bpf_byte \<Rightarrow> u64" where
  "size_bytes sz =
     (if sz = BPF_SIZE_DW then 8 else if sz = BPF_SIZE_B then 1 else if sz = BPF_SIZE_H then 2 else 4)"

definition mem_ok :: "u64 \<Rightarrow> u64 \<Rightarrow> u64 \<Rightarrow> bool" where
  "mem_ok addr sz mem_size = (if mem_size < addr then False else if mem_size - addr < sz then False else True)"

text \<open>Byte \<open>k\<close> at an address, shifted to its place in a little-endian value.\<close>

definition le_byte :: "bytes \<Rightarrow> u64 \<Rightarrow> nat \<Rightarrow> u64" where
  "le_byte mem addr k = push_bit (8 * k) (ucast (mem ! unat (addr + of_nat k)))"

definition rd_unsigned :: "bytes \<Rightarrow> u64 \<Rightarrow> bpf_byte \<Rightarrow> u64" where
  "rd_unsigned mem addr sz =
     (let v = le_byte mem addr 0 in
      if sz = BPF_SIZE_H then v OR le_byte mem addr 1
      else if sz = BPF_SIZE_W then v OR le_byte mem addr 1 OR le_byte mem addr 2 OR le_byte mem addr 3
      else if sz = BPF_SIZE_DW then
        v OR le_byte mem addr 1 OR le_byte mem addr 2 OR le_byte mem addr 3
          OR le_byte mem addr 4 OR le_byte mem addr 5 OR le_byte mem addr 6 OR le_byte mem addr 7
      else v)"

definition sign_load :: "u64 \<Rightarrow> bpf_byte \<Rightarrow> u64" where
  "sign_load u sz =
     (if sz = BPF_SIZE_B then scast (ucast u :: u8)
      else if sz = BPF_SIZE_H then scast (ucast u :: u16)
      else if sz = BPF_SIZE_W then scast (ucast u :: u32) else u)"

definition rd_signed :: "bytes \<Rightarrow> u64 \<Rightarrow> bpf_byte \<Rightarrow> u64" where
  "rd_signed mem addr sz = sign_load (rd_unsigned mem addr sz) sz"

definition put_le :: "u64 \<Rightarrow> u64 \<Rightarrow> nat \<Rightarrow> bytes \<Rightarrow> bytes" where
  "put_le addr val k mem = mem[unat (addr + of_nat k) := ucast (drop_bit (8 * k) val)]"

definition wr :: "bytes \<Rightarrow> u64 \<Rightarrow> u64 \<Rightarrow> bpf_byte \<Rightarrow> bytes" where
  "wr mem addr val sz =
     (let mem = put_le addr val 0 mem in
      if sz = BPF_SIZE_H then put_le addr val 1 mem
      else if sz = BPF_SIZE_W then fold (put_le addr val) [1, 2, 3] mem
      else if sz = BPF_SIZE_DW then fold (put_le addr val) [1, 2, 3, 4, 5, 6, 7] mem
      else mem)"

definition atom32 :: "u32 \<Rightarrow> u32 \<Rightarrow> u32 \<Rightarrow> u32 \<Rightarrow> u32" where
  "atom32 op old src r0 =
     (if op = 0x00 then old + src else if op = 0x40 then old OR src else if op = 0x50 then old AND src
      else if op = 0xa0 then old XOR src else if op = 0xe0 then src
      else if op = 0xf0 then (if old = r0 then src else old) else old)"

definition atom64 :: "u32 \<Rightarrow> u64 \<Rightarrow> u64 \<Rightarrow> u64 \<Rightarrow> u64" where
  "atom64 op old src r0 =
     (if op = 0x00 then old + src else if op = 0x40 then old OR src else if op = 0x50 then old AND src
      else if op = 0xa0 then old XOR src else if op = 0xe0 then src
      else if op = 0xf0 then (if old = r0 then src else old) else old)"

section \<open>The machine over flat memory\<close>

datatype bpf_status = BPF_STAT_RUNNING | BPF_STAT_RETURNED | BPF_STAT_HOSTCALL | BPF_STAT_EXHAUSTED
  | BPF_STAT_TRAP | BPF_STAT_ERR

record bpf_machine =
  m_regs :: bpf_regs
  m_prog :: "bpf_insn list"
  m_n :: u32
  m_pc :: u32
  m_stack :: "u32 list"
  m_stack_n :: u32
  m_budget :: "64 word"
  m_helper :: u32
  m_halted :: bool
  m_mem :: bytes
  m_mem_size :: u64

abbreviation (input) BPF_STACK_N :: u32 where "BPF_STACK_N \<equiv> 64"

text \<open>The call stack is not initialised: \<open>stack0\<close> is what it holds.\<close>

definition bpf_machine_init :: "u32 list \<Rightarrow> bpf_insn list \<Rightarrow> u32 \<Rightarrow> bpf_machine" where
  "bpf_machine_init stack0 prog n =
     \<lparr>m_regs = \<lparr>r = replicate 11 0\<rparr>, m_prog = prog, m_n = n, m_pc = 0, m_stack = stack0, m_stack_n = 0,
      m_budget = 100000, m_helper = 0, m_halted = False, m_mem = [], m_mem_size = 0\<rparr>"

definition advance :: "bpf_machine \<Rightarrow> bpf_machine" where
  "advance m = m\<lparr>m_pc := m_pc m + 1\<rparr>"

definition load_imm :: "bpf_insn \<Rightarrow> u64" where
  "load_imm ins = push_bit 32 (ucast (next_imm ins)) OR ucast (imm ins)"

text \<open>
  The address of an access and whether it is in bounds. The sum of base and offset is signed; where
  it would leave the 64-bit range, which C leaves undefined, it wraps here.
\<close>

definition flat_addr :: "bpf_machine \<Rightarrow> bpf_insn \<Rightarrow> bpf_byte \<Rightarrow> u64 option" where
  "flat_addr m ins base =
     (let sa = get_reg (m_regs m) base + se_i32 (offset ins) in
      if sint sa < 0 then None
      else if \<not> mem_ok sa (size_bytes (isize ins)) (m_mem_size m) then None
      else Some sa)"

definition flat_atomic :: "bpf_machine \<Rightarrow> bpf_insn \<Rightarrow> u64 \<Rightarrow> bpf_machine" where
  "flat_atomic m ins addr =
     (let op = atomic_op ins;
          srcv = get_reg (m_regs m) (src_reg ins);
          r0v = get_reg (m_regs m) 0;
          old = rd_unsigned (m_mem m) addr (isize ins);
          old = (if isize ins = BPF_SIZE_W then ucast (ucast old :: u32) else old);
          nv = (if isize ins = BPF_SIZE_W then ucast (atom32 op (ucast old) (ucast srcv) (ucast r0v))
                else atom64 op old srcv r0v);
          m = m\<lparr>m_mem := wr (m_mem m) addr nv (isize ins)\<rparr>;
          m = (if op = 0xF0 then m\<lparr>m_regs := set_reg (m_regs m) 0 old\<rparr> else m) in
      if atomic_fetch ins \<and> op \<noteq> 0xF0 then m\<lparr>m_regs := set_reg (m_regs m) (src_reg ins) old\<rparr> else m)"

definition mem_step :: "bpf_machine \<Rightarrow> bpf_insn \<Rightarrow> bpf_machine \<times> bpf_status" where
  "mem_step m ins =
     (if cls ins = BPF_CLS_LD then
        (advance (m\<lparr>m_regs := set_reg (m_regs m) (dst_reg ins) (load_imm ins)\<rparr>), BPF_STAT_RUNNING)
      else if cls ins = BPF_CLS_LDX then
        (case flat_addr m ins (src_reg ins) of
           None \<Rightarrow> (m, BPF_STAT_TRAP)
         | Some addr \<Rightarrow>
             (advance (m\<lparr>m_regs := set_reg (m_regs m) (dst_reg ins)
                (if mode ins = BPF_MODE_MEMSX then rd_signed (m_mem m) addr (isize ins)
                 else rd_unsigned (m_mem m) addr (isize ins))\<rparr>), BPF_STAT_RUNNING))
      else if cls ins = BPF_CLS_ST then
        (case flat_addr m ins (dst_reg ins) of
           None \<Rightarrow> (m, BPF_STAT_TRAP)
         | Some addr \<Rightarrow>
             (advance (m\<lparr>m_mem := wr (m_mem m) addr (se_i32 (imm ins)) (isize ins)\<rparr>), BPF_STAT_RUNNING))
      else if cls ins = BPF_CLS_STX then
        (case flat_addr m ins (dst_reg ins) of
           None \<Rightarrow> (m, BPF_STAT_TRAP)
         | Some addr \<Rightarrow>
             (if mode ins = BPF_MODE_ATOMIC then (advance (flat_atomic m ins addr), BPF_STAT_RUNNING)
              else (advance (m\<lparr>m_mem := wr (m_mem m) addr (get_reg (m_regs m) (src_reg ins)) (isize ins)\<rparr>),
                    BPF_STAT_RUNNING)))
      else (m, BPF_STAT_ERR))"

text \<open>A conditional jump; the distance is counted in instructions here.\<close>

definition cond_jump :: "bpf_machine \<Rightarrow> bpf_insn \<Rightarrow> bool \<Rightarrow> u64 \<Rightarrow> bpf_machine \<times> bpf_status" where
  "cond_jump m ins is32 s =
     (if cond_taken (code ins) is32 (get_reg (m_regs m) (dst_reg ins)) s
      then (m\<lparr>m_pc := m_pc m + 1 + offset ins\<rparr>, BPF_STAT_RUNNING)
      else (advance m, BPF_STAT_RUNNING))"

definition jmp_step :: "bpf_machine \<Rightarrow> bpf_insn \<Rightarrow> bpf_machine \<times> bpf_status" where
  "jmp_step m ins =
     (if code ins = BPF_JMP_JA then (m\<lparr>m_pc := m_pc m + 1 + offset ins\<rparr>, BPF_STAT_RUNNING)
      else if code ins = BPF_JMP_EXIT then
        (if 0 < m_stack_n m then
           (m\<lparr>m_stack_n := m_stack_n m - 1, m_pc := m_stack m ! unat (m_stack_n m - 1)\<rparr>, BPF_STAT_RUNNING)
         else (m\<lparr>m_halted := True\<rparr>, BPF_STAT_RETURNED))
      else if code ins = BPF_JMP_CALL then
        (if src_reg ins = 1 then
           (if BPF_STACK_N \<le> m_stack_n m then (m, BPF_STAT_ERR)
            else (m\<lparr>m_stack := (m_stack m)[unat (m_stack_n m) := m_pc m + 1], m_stack_n := m_stack_n m + 1,
                    m_pc := m_pc m + 1 + imm ins\<rparr>, BPF_STAT_RUNNING))
         else (advance (m\<lparr>m_helper := imm ins\<rparr>), BPF_STAT_HOSTCALL))
      else cond_jump m ins False
             (if source ins = BPF_SRC_K then se_i32 (imm ins) else get_reg (m_regs m) (src_reg ins)))"

definition jmp32_step :: "bpf_machine \<Rightarrow> bpf_insn \<Rightarrow> bpf_machine \<times> bpf_status" where
  "jmp32_step m ins =
     (if code ins = BPF_JMP_JA then (m\<lparr>m_pc := m_pc m + 1 + imm ins\<rparr>, BPF_STAT_RUNNING)
      else cond_jump m ins True
             (if source ins = BPF_SRC_K then ucast (imm ins) else get_reg (m_regs m) (src_reg ins)))"

definition bpf_step :: "u64 \<Rightarrow> bpf_machine \<Rightarrow> bpf_machine \<times> bpf_status" where
  "bpf_step junk m =
     (if m_halted m then (m, BPF_STAT_RETURNED)
      else if m_n m \<le> m_pc m then (m, BPF_STAT_ERR)
      else if sint (m_budget m) \<le> 0 then (m, BPF_STAT_EXHAUSTED)
      else let m = m\<lparr>m_budget := m_budget m - 1\<rparr>; ins = m_prog m ! unat (m_pc m) in
        if cls ins = BPF_CLS_ALU then (advance (m\<lparr>m_regs := bpf_alu junk (m_regs m) ins\<rparr>), BPF_STAT_RUNNING)
        else if cls ins = BPF_CLS_ALU64 then (advance (m\<lparr>m_regs := bpf_alu junk (m_regs m) ins\<rparr>), BPF_STAT_RUNNING)
        else if cls ins = BPF_CLS_JMP then jmp_step m ins
        else if cls ins = BPF_CLS_JMP32 then jmp32_step m ins
        else if cls ins = BPF_CLS_LD then mem_step m ins
        else if cls ins = BPF_CLS_LDX then mem_step m ins
        else if cls ins = BPF_CLS_ST then mem_step m ins
        else if cls ins = BPF_CLS_STX then mem_step m ins
        else (m, BPF_STAT_ERR))"

end
