(* ===== verification/Bpf_Alu.thy ===== *)
theory Bpf_Alu
  imports Bpf_Eval
begin

unbundle bit_operations_syntax

text \<open>
  Arithmetic against a reference on numbers: one definition of the operations of RFC 9669 for words
  of any length, in terms of their values as integers, of which the two hand-written versions of the
  evaluator are the instances at 32 and 64 bits.
\<close>

section \<open>The reference\<close>

definition rfc_op :: "bpf_byte \<Rightarrow> bpf_int \<Rightarrow> 'a::len word \<Rightarrow> 'a word \<Rightarrow> 'a word" where
  "rfc_op c off d s =
     (if c = BPF_ALU_ADD then word_of_int (uint d + uint s)
      else if c = BPF_ALU_SUB then word_of_int (uint d - uint s)
      else if c = BPF_ALU_MUL then word_of_int (uint d * uint s)
      else if c = BPF_ALU_DIV then
        (if uint s = 0 then 0 else word_of_int (if off = 1 then sint d sdiv sint s else uint d div uint s))
      else if c = BPF_ALU_MOD then
        (if uint s = 0 then d else word_of_int (if off = 1 then sint d smod sint s else uint d mod uint s))
      else if c = BPF_ALU_OR then word_of_int (uint d OR uint s)
      else if c = BPF_ALU_AND then word_of_int (uint d AND uint s)
      else if c = BPF_ALU_XOR then word_of_int (uint d XOR uint s)
      else if c = BPF_ALU_LSH then word_of_int (uint d * 2 ^ (unat s mod LENGTH('a)))
      else if c = BPF_ALU_RSH then word_of_int (uint d div 2 ^ (unat s mod LENGTH('a)))
      else if c = BPF_ALU_ARSH then word_of_int (sint d div 2 ^ (unat s mod LENGTH('a)))
      else if c = BPF_ALU_NEG then word_of_int (- uint d)
      else if off = 0 then s else signed_take_bit (unat off - 1) s)"

fun to_le :: "nat \<Rightarrow> u64 \<Rightarrow> bytes" where
  "to_le 0 v = []"
| "to_le (Suc n) v = ucast v # to_le n (drop_bit 8 v)"

fun from_le :: "bytes \<Rightarrow> u64" where
  "from_le [] = 0"
| "from_le (b # bs) = ucast b OR push_bit 8 (from_le bs)"

text \<open>A byte swap keeps the low bytes of the width, reversed if the order is to change.\<close>

definition rfc_end :: "bool \<Rightarrow> bpf_int \<Rightarrow> u64 \<Rightarrow> u64" where
  "rfc_end swap width d =
     (let bs = to_le (unat width div 8) d in from_le (if swap then rev bs else bs))"

definition rfc_alu :: "bpf_insn \<Rightarrow> u64 \<Rightarrow> u64 \<Rightarrow> u64" where
  "rfc_alu ins d s =
     (if code ins = BPF_ALU_END then rfc_end (cls ins = BPF_CLS_ALU64 \<or> source ins \<noteq> BPF_SRC_K) (imm ins) d
      else if cls ins = BPF_CLS_ALU64 then rfc_op (code ins) (offset ins) d s
      else ucast (rfc_op (code ins) (offset ins) (ucast d :: u32) (ucast s :: u32)))"

section \<open>Division, shifts and sign extension\<close>

lemma sdiv_minus_one: "(k :: int) sdiv - 1 = - k" "(k :: int) smod - 1 = 0" "(k :: int) smod 1 = 0"
  by (simp_all add: signed_divide_int_def signed_modulo_int_def sgn_if)

lemma word_of_sint: "word_of_int (sint w) = (w :: 'a::len word)"
  by transfer (simp add: take_bit_signed_take_bit)

lemma word_of_uint: "word_of_int (uint w) = (w :: 'a::len word)"
  by transfer simp

lemma sint_zero: "sint s = 0 \<longleftrightarrow> uint s = 0"
  by (metis word_of_sint word_of_uint of_int_0 sint_0 uint_0_eq)

lemma sdiv_op:
  "op64_sdiv d s = (if uint s = 0 then 0 else word_of_int (sint d sdiv sint s))"
  "op32_sdiv a b = (if uint b = 0 then 0 else word_of_int (sint a sdiv sint b))"
  by (simp_all add: op64_sdiv_def op32_sdiv_def sdiv_minus_one sint_zero)

lemma smod_op:
  "op64_smod d s = (if uint s = 0 then d else word_of_int (sint d smod sint s))"
  "op32_smod a b = (if uint b = 0 then a else word_of_int (sint a smod sint b))"
  by (simp_all add: op64_smod_def op32_smod_def sdiv_minus_one sint_zero)

lemma div_op:
  "op64_div d s = (if uint s = 0 then 0 else word_of_int (uint d div uint s))"
  "op32_div a b = (if uint b = 0 then 0 else word_of_int (uint a div uint b))"
  by (simp_all add: op64_div_def op32_div_def word_div_def unsigned_eq_0_iff)

lemma mod_op:
  "op64_mod d s = (if uint s = 0 then d else word_of_int (uint d mod uint s))"
  "op32_mod a b = (if uint b = 0 then a else word_of_int (uint a mod uint b))"
  by (simp_all add: op64_mod_def op32_mod_def word_mod_def unsigned_eq_0_iff)

lemma low_and: "(w :: 'a::len word) AND word_of_int (2 ^ n - 1) = take_bit n w"
  by (simp add: take_bit_eq_mask mask_eq_exp_minus_1)

lemma shift_count:
  "unat ((ucast (s :: u64) :: u32) AND 0x3F) = unat s mod 64" "unat ((b :: u32) AND 0x1F) = unat b mod 32"
proof -
  have "unat ((ucast s :: u32) AND 0x3F) = unat (take_bit 6 (ucast s :: u32))" using low_and [of "ucast s :: u32" 6] by simp
  also have "\<dots> = unat s mod 64"
    by (simp add: unsigned_take_bit_eq unsigned_ucast_eq take_bit_take_bit) (simp add: take_bit_eq_mod)
  finally show "unat ((ucast (s :: u64) :: u32) AND 0x3F) = unat s mod 64" .
  have "unat (b AND 0x1F) = unat (take_bit 5 b)" using low_and [of b 5] by simp
  also have "\<dots> = unat b mod 32" by (simp add: unsigned_take_bit_eq) (simp add: take_bit_eq_mod)
  finally show "unat (b AND 0x1F) = unat b mod 32" .
qed

lemma lsh_word: "push_bit n (w :: 'a::len word) = word_of_int (uint w * 2 ^ n)"
  by (simp add: push_bit_eq_mult)

lemma rsh_word: "drop_bit n (w :: 'a::len word) = word_of_int (uint w div 2 ^ n)"
proof -
  have "uint (drop_bit n w) = drop_bit n (uint w)" by (rule bit_eqI) (auto simp: bit_simps dest: bit_imp_le_length)
  then show ?thesis using word_of_uint [of "drop_bit n w"] drop_bit_eq_div [of n "uint w"] by (simp only:)
qed

lemma arsh_word: "signed_drop_bit n (w :: 'a::len word) = word_of_int (sint w div 2 ^ n)"
  using word_of_sint [of "signed_drop_bit n w"] by (simp only: sint_signed_drop_bit_eq drop_bit_eq_div)

lemma shift_op:
  "op64_lsh d s = word_of_int (uint d * 2 ^ (unat s mod 64))" "op32_lsh a b = word_of_int (uint a * 2 ^ (unat b mod 32))"
  "op64_rsh d s = word_of_int (uint d div 2 ^ (unat s mod 64))" "op32_rsh a b = word_of_int (uint a div 2 ^ (unat b mod 32))"
  "op64_arsh d s = word_of_int (sint d div 2 ^ (unat s mod 64))" "op32_arsh a b = word_of_int (sint a div 2 ^ (unat b mod 32))"
  unfolding op64_lsh_def op32_lsh_def op64_rsh_def op32_rsh_def op64_arsh_def op32_arsh_def Let_def shift_count
  by (rule lsh_word rsh_word arsh_word)+

lemma sign_ext:
  fixes w :: "'a::len word"
  assumes "LENGTH('b::len) = Suc k" and "LENGTH('b) \<le> LENGTH('a)"
  shows "scast (ucast w :: 'b word) = signed_take_bit k w"
  by (rule bit_word_eqI) (use assms in \<open>auto simp: bit_simps min_def\<close>)

lemma low_bits: "ucast (w AND 0xFF) = (ucast w :: u8)" "ucast (w AND 0xFFFF) = (ucast w :: u16)"
  by (rule bit_word_eqI, use low_and [of w 8] low_and [of w 16] in \<open>auto simp: bit_simps\<close>)+

section \<open>Byte swaps\<close>

lemma length_to_le [simp]: "length (to_le n v) = n"
  by (induction n arbitrary: v) auto

lemma nth_to_le: "k < n \<Longrightarrow> to_le n v ! k = ucast (drop_bit (8 * k) v)"
proof (induction n arbitrary: v k)
  case (Suc n)
  then show ?case by (cases k) (simp_all add: algebra_simps)
qed simp

lemma bit_from_le: "bit (from_le bs) j \<longleftrightarrow> j < 64 \<and> j div 8 < length bs \<and> bit (bs ! (j div 8)) (j mod 8)"
proof (induction bs arbitrary: j)
  case (Cons b bs)
  show ?case
  proof (cases "j < 8")
    case True
    then show ?thesis by (simp add: bit_simps)
  next
    case False
    then obtain i where j: "j = i + 8" by (metis add.commute le_Suc_ex not_less)
    have "\<not> bit b (i + 8)" by (auto dest: bit_imp_le_length)
    moreover have "(i + 8) div 8 = Suc (i div 8)" by simp
    ultimately show ?thesis by (auto simp: j bit_simps Cons.IH)
  qed
qed simp

text \<open>A word is its bytes, from the lowest up.\<close>

definition bt :: "u64 \<Rightarrow> nat \<Rightarrow> u8" where
  "bt v k = ucast (drop_bit (8 * k) v)"

lemma word_eq_bytesI:
  assumes "\<And>k. k < 8 \<Longrightarrow> bt v k = bt w k"
  shows "v = w"
proof (rule bit_word_eqI)
  fix j :: nat
  assume j: "j < LENGTH(64)"
  then have "bit (bt v (j div 8)) (j mod 8) = bit (bt w (j div 8)) (j mod 8)" using assms [of "j div 8"] by simp
  then show "bit v j = bit w j" by (simp add: bt_def bit_simps)
qed

lemma bt_from_le: "k < 8 \<Longrightarrow> bt (from_le bs) k = (if k < length bs then bs ! k else 0)"
  unfolding bt_def by (rule bit_word_eqI) (auto simp: bit_simps bit_from_le dest: bit_imp_le_length)

lemma bt_le: "k < n \<Longrightarrow> to_le n v ! k = bt v k"
  by (simp add: nth_to_le bt_def)

lemma bt_end:
  assumes "k < 8" and "n = unat width div 8"
  shows "bt (rfc_end swap width d) k = (if k < n then bt d (if swap then n - Suc k else k) else 0)"
  using assms by (simp add: rfc_end_def Let_def bt_from_le rev_nth bt_le)

lemma sw32_masks: "sw32 v = push_bit 24 (take_bit 8 v) OR push_bit 16 (take_bit 8 (drop_bit 8 v))
     OR push_bit 8 (take_bit 8 (drop_bit 16 v)) OR drop_bit 24 v"
proof -
  have m: "0xFF00 = push_bit 8 (mask 8 :: u32)" "0xFF0000 = push_bit 16 (mask 8 :: u32)" "0xFF000000 = push_bit 24 (mask 8 :: u32)"
    "0xFF = (mask 8 :: u32)"
    by (simp_all add: mask_eq_exp_minus_1 push_bit_eq_mult)
  show ?thesis unfolding sw32_def m
    by (rule bit_word_eqI) (auto simp: bit_simps le_diff_conv2 dest: bit_imp_le_length)
qed

lemma bt_sw32: "k < 4 \<Longrightarrow> bt (ucast (sw32 (ucast d))) k = bt d (3 - k)"
proof -
  have "bt (ucast (sw32 (ucast d))) 0 = bt d 3" "bt (ucast (sw32 (ucast d))) 1 = bt d 2"
    "bt (ucast (sw32 (ucast d))) 2 = bt d 1" "bt (ucast (sw32 (ucast d))) 3 = bt d 0"
    unfolding bt_def sw32_masks by (rule bit_word_eqI, auto simp: bit_simps dest: bit_imp_le_length)+
  moreover assume "k < 4"
  ultimately show ?thesis by (auto simp: less_Suc_eq numeral_eq_Suc)
qed

lemma bt_sw16: "k < 2 \<Longrightarrow> bt (ucast (sw16 (ucast d))) k = bt d (1 - k)"
proof -
  have "bt (ucast (sw16 (ucast d))) 0 = bt d 1" "bt (ucast (sw16 (ucast d))) 1 = bt d 0"
    unfolding bt_def sw16_def by (rule bit_word_eqI, auto simp: bit_simps dest: bit_imp_le_length)+
  moreover assume "k < 2"
  ultimately show ?thesis by (auto simp: less_Suc_eq numeral_eq_Suc)
qed

lemma bt_drop32: "bt (drop_bit 32 d) k = bt d (k + 4)"
  by (simp add: bt_def algebra_simps)

lemma bt_high: "4 \<le> k \<Longrightarrow> bt (ucast (v :: u32)) k = 0" "2 \<le> k \<Longrightarrow> bt (ucast (h :: u16)) k = 0"
  unfolding bt_def by (rule bit_word_eqI, auto simp: bit_simps dest: bit_imp_le_length)+

lemma bt_low:
  "k < 8 \<Longrightarrow> bt (d AND 0xFFFFFFFF) k = (if k < 4 then bt d k else 0)"
  "k < 8 \<Longrightarrow> bt (d AND 0xFFFF) k = (if k < 2 then bt d k else 0)"
  using low_and [of d 32] low_and [of d 16] unfolding bt_def
  by (auto intro!: bit_word_eqI simp: bit_simps)

lemma bt_join:
  "bt (push_bit 32 h OR ucast (l :: u32)) k = (if k < 4 then bt (ucast l) k else bt h (k - 4))" if "k < 8"
  unfolding bt_def by (rule bit_word_eqI) (use that in \<open>auto simp: bit_simps algebra_simps dest: bit_imp_le_length\<close>)

text \<open>The six cases of a byte swap are the reference.\<close>

lemma end_rfc:
  assumes "end_width_ok width"
  shows "do_end d is64 be width = rfc_end (is64 \<or> be) width d"
proof (rule word_eq_bytesI)
  fix k :: nat
  assume k: "k < 8"
  from assms consider "width = 16" | "width = 32" | "width = 64" by (auto simp: end_width_ok_def)
  then show "bt (do_end d is64 be width) k = bt (rfc_end (is64 \<or> be) width d) k"
  proof cases
    case 1
    then show ?thesis using k by (simp add: do_end_def bt_end [where n = 2] bt_sw16 bt_high bt_low)
  next
    case 2
    then show ?thesis using k by (simp add: do_end_def bt_end [where n = 4] bt_sw32 bt_high bt_low)
  next
    case 3
    have "bt (sw64 d) k = bt d (7 - k)"
      using k bt_sw32 [of k "drop_bit 32 d"] bt_sw32 [of "k - 4" d]
      by (simp add: sw64_def Let_def bt_join bt_drop32)
    then show ?thesis using k 3 by (simp add: do_end_def bt_end [where n = 8])
  qed
qed

section \<open>The evaluator is the reference\<close>

lemma uint_words: "word_of_int (uint a + uint b) = a + (b :: 'a::len word)" "word_of_int (uint a - uint b) = a - b"
  "word_of_int (uint a * uint b) = a * b" "word_of_int (- uint a) = - a"
  "word_of_int (uint a OR uint b) = a OR b" "word_of_int (uint a AND uint b) = a AND b" "word_of_int (uint a XOR uint b) = a XOR b"
  by (transfer, simp add: take_bit_add take_bit_diff take_bit_mult take_bit_minus mod_simps)+

lemma sx64_op: "movsx_width_ok c off \<Longrightarrow> sx64 v off = signed_take_bit (unat off - 1) v"
  by (auto simp: movsx_width_ok_def sx64_def sign_ext low_bits)

lemma sx32_op: "movsx_width_ok c off \<Longrightarrow> c \<noteq> BPF_CLS_ALU64 \<Longrightarrow> sx32 v off = signed_take_bit (unat off - 1) v"
  by (auto simp: movsx_width_ok_def sx32_def sign_ext low_bits)

lemmas alu_ops = div_op mod_op sdiv_op smod_op shift_op uint_words

lemma result_rfc:
  assumes "c < 14" and "c \<noteq> BPF_ALU_END" and "c \<noteq> BPF_ALU_NEG" and "c \<noteq> BPF_ALU_MOV"
  shows "alu_result junk is64 c off d s a b = (if is64 then rfc_op c off d s else ucast (rfc_op c off a b))"
proof -
  have "c \<in> of_nat ` set [0..<14]"
    using assms(1) by (intro image_eqI [where x = "unat c"]) (simp_all add: word_less_nat_alt)
  then have "c \<in> set (map of_nat [0..<14]) - {BPF_ALU_NEG, BPF_ALU_MOV, BPF_ALU_END}" using assms(2-4) by simp
  then have "c \<in> set (map of_nat ([0..<8] @ [9, 10, 12]))" by (auto simp: upt_rec)
  then show ?thesis unfolding alu_result_def rfc_op_def alu_ops by (auto simp: upt_rec)
qed

lemma narrow_imm: "ucast (scast (w :: u32) :: u64) = w"
proof (rule bit_word_eqI)
  fix j :: nat
  assume "j < LENGTH(32)"
  then show "bit (ucast (scast w :: u64) :: u32) j = bit w j" by (cases "j = 31") (auto simp: bit_simps min_def)
qed

definition rfc_src :: "bpf_regs \<Rightarrow> bpf_insn \<Rightarrow> u64" where
  "rfc_src rr ins = (if source ins = BPF_SRC_K then scast (imm ins) else r rr ! unat (src_reg ins))"

text \<open>C7: On every arithmetic instruction the loader accepts, the evaluator computes what RFC 9669 asks:
  in the class of 32-bit operations on the low halves with a result that is extended by zeros, in the
  class of 64-bit operations on the whole registers; sums, products and shifts wrap at the width, the shift count
  is taken modulo the width, a division by zero yields zero and a remainder by zero the dividend, the
  signed division of the smallest number by -1 wraps; a move with a width extends the sign; a byte
  swap reverses the bytes of its width and clears the rest. Only the destination changes.\<close>

theorem alu_rfc:
  assumes "validate_insn ins = BPF_OK" and "check_opcode ins = BPF_OK"
    and "cls ins = BPF_CLS_ALU \<or> cls ins = BPF_CLS_ALU64"
  shows "r (bpf_alu junk rr ins) =
     (r rr)[unat (dst_reg ins) := rfc_alu ins (r rr ! unat (dst_reg ins)) (rfc_src rr ins)]"
proof -
  have val: "validate_alu ins = BPF_OK" using assms(1,3) by (auto simp: validate_insn_def split: if_splits)
  have c14: "code ins < 14" using assms(2,3) by (auto simp: check_opcode_def is_alu_or_jmp_def split: if_splits)
  have src32: "(if source ins = BPF_SRC_K then imm ins else ucast (r rr ! unat (src_reg ins))) = ucast (rfc_src rr ins)"
    by (simp add: rfc_src_def narrow_imm)
  have src64: "(if source ins = BPF_SRC_K then se_i32 (imm ins) else r rr ! unat (src_reg ins)) = rfc_src rr ins"
    by (simp add: rfc_src_def se_i32_def)
  note alu = bpf_alu_def Let_def get_reg_def set_reg_def src32 src64
  consider "code ins = BPF_ALU_END" | "code ins = BPF_ALU_NEG" | "code ins = BPF_ALU_MOV"
    | "code ins \<noteq> BPF_ALU_END" "code ins \<noteq> BPF_ALU_NEG" "code ins \<noteq> BPF_ALU_MOV" by blast
  then show ?thesis
  proof cases
    case 1
    then have "end_width_ok (imm ins)" using val by (auto simp: validate_alu_def split: if_splits)
    then show ?thesis using 1 unfolding alu by (simp add: rfc_alu_def end_rfc)
  next
    case 2
    then show ?thesis unfolding alu by (simp add: rfc_alu_def rfc_op_def)
  next
    case 3
    show ?thesis
    proof (cases "offset ins = 0")
      case True
      then show ?thesis using 3 unfolding alu by (simp add: rfc_alu_def rfc_op_def)
    next
      case False
      then have "movsx_width_ok (cls ins) (offset ins)" using 3 val by (auto simp: validate_alu_def split: if_splits)
      then show ?thesis using 3 False unfolding alu by (simp add: rfc_alu_def rfc_op_def sx64_op sx32_op)
    qed
  next
    case 4
    then show ?thesis using c14 unfolding alu by (simp add: result_rfc rfc_alu_def)
  qed
qed

text \<open>\<open>r3 s/= r1\<close> in 32 bits, of the smallest number by -1.\<close>

definition sdiv_insn :: bpf_insn where
  "sdiv_insn = decode_insn [0x3C, 0x13, 1, 0, 0, 0, 0, 0]"

theorem alu_rfc_witness:
  "r (bpf_alu 7 \<lparr>r = (replicate 11 0)[3 := 0x1180000000, 1 := - 1]\<rparr> sdiv_insn) ! 3 = 0x80000000"
proof -
  let ?rr = "\<lparr>r = (replicate 11 0)[3 := 0x1180000000, 1 := - 1 :: u64]\<rparr>"
  have "validate_insn sdiv_insn = BPF_OK" "check_opcode sdiv_insn = BPF_OK" by code_simp+
  moreover have "cls sdiv_insn = BPF_CLS_ALU \<or> cls sdiv_insn = BPF_CLS_ALU64" by code_simp
  ultimately have "r (bpf_alu 7 ?rr sdiv_insn) = (r ?rr)[unat (dst_reg sdiv_insn) :=
      rfc_alu sdiv_insn (r ?rr ! unat (dst_reg sdiv_insn)) (rfc_src ?rr sdiv_insn)]"
    by (rule alu_rfc)
  then show ?thesis by (simp only:) code_simp
qed

end
