(* ===== verification/Bpf_Vm.thy ===== *)
theory Bpf_Vm
  imports Bpf_Eval
begin

unbundle bit_operations_syntax

text \<open>
  \<open>libbpf\<close>, the sandbox: the guest address space of permission-checked regions (\<open>mem.c\<close>), the
  capability table (\<open>cap.c\<close>) and the machine that executes a loaded program (\<open>vm.c\<close>).

  Allocation: \<open>grants k\<close> tells whether request \<open>k\<close> of a call is granted, and \<open>junk k i\<close> what byte \<open>i\<close>
  of the block it yields holds. Blocks are values, so releasing them has no counterpart.
\<close>

section \<open>Regions\<close>

abbreviation (input) BPF_MEM_MAX :: u32 where "BPF_MEM_MAX \<equiv> 4"
abbreviation (input) BPF_MEM_R :: bpf_byte where "BPF_MEM_R \<equiv> 0x01"
abbreviation (input) BPF_MEM_W :: bpf_byte where "BPF_MEM_W \<equiv> 0x02"
abbreviation (input) BPF_RINPUT :: bpf_byte where "BPF_RINPUT \<equiv> 0"
abbreviation (input) BPF_RCONST :: bpf_byte where "BPF_RCONST \<equiv> 1"
abbreviation (input) BPF_RMEM :: bpf_byte where "BPF_RMEM \<equiv> 2"
abbreviation (input) BPF_RSTACK :: bpf_byte where "BPF_RSTACK \<equiv> 3"

text \<open>The configuration of a region; \<open>init\<close> is \<open>None\<close> for the null pointer.\<close>

record bpf_region_cfg =
  kind :: bpf_byte
  guest :: u64
  rlen :: u64
  init :: "bytes option"
  init_len :: u32

record mem_region =
  base :: u64
  len :: u64
  acc :: bpf_byte
  backing :: bytes

record bpf_memory =
  mem_n :: u32
  mem_reg :: "mem_region list"

definition kind_acc :: "bpf_byte \<Rightarrow> bpf_byte" where
  "kind_acc k =
     (let a = BPF_MEM_R;
          a = (if k = BPF_RMEM then a OR BPF_MEM_W else a) in
      if k = BPF_RSTACK then a OR BPF_MEM_W else a)"

definition intervals_overlap :: "u64 \<Rightarrow> u64 \<Rightarrow> u64 \<Rightarrow> u64 \<Rightarrow> bool" where
  "intervals_overlap a alen b blen = (if a \<le> b then b < a + alen else a < b + blen)"

definition base_ok :: "u64 \<Rightarrow> u64 \<Rightarrow> bool" where
  "base_ok b l \<longleftrightarrow> l < 0 - b"

definition region_ok :: "mem_region list \<Rightarrow> bpf_region_cfg \<Rightarrow> bool" where
  "region_ok regs rc \<longleftrightarrow>
     base_ok (guest rc) (rlen rc) \<and> rlen rc \<noteq> 0 \<and> \<not> rlen rc < ucast (init_len rc)
   \<and> list_all (\<lambda>pr. \<not> intervals_overlap (guest rc) (rlen rc) (base pr) (len pr)) regs"

text \<open>The bytes of a new region: what \<open>memcpy\<close> brings (or the block held, without one), then zeros.\<close>

definition region_bytes :: "(nat \<Rightarrow> u8) \<Rightarrow> bpf_region_cfg \<Rightarrow> bytes" where
  "region_bytes junk rc =
     (case init rc of
        None \<Rightarrow> map junk [0..<unat (init_len rc)]
      | Some bs \<Rightarrow> take (unat (init_len rc)) bs)
     @ replicate (unat (rlen rc) - unat (init_len rc)) 0"

fun fill_regions :: "(nat \<Rightarrow> bool) \<Rightarrow> (nat \<Rightarrow> nat \<Rightarrow> u8) \<Rightarrow> nat \<Rightarrow> bpf_region_cfg list \<Rightarrow> mem_region list
    \<Rightarrow> bpf_err + mem_region list" where
  "fill_regions grants junk k [] regs = Inr regs"
| "fill_regions grants junk k (rc # cfg) regs =
     (if \<not> region_ok regs rc then Inl BPF_EADDR
      else if \<not> grants k then Inl BPF_EADDR
      else fill_regions grants junk (Suc k) cfg
             (regs @ [\<lparr>base = guest rc, len = rlen rc, acc = kind_acc (kind rc), backing = region_bytes (junk k) rc\<rparr>]))"

definition bpf_memory_create :: "(nat \<Rightarrow> bool) \<Rightarrow> (nat \<Rightarrow> nat \<Rightarrow> u8) \<Rightarrow> bpf_region_cfg list \<Rightarrow> u32 \<Rightarrow> bpf_err + bpf_memory" where
  "bpf_memory_create grants junk cfg n =
     (if BPF_MEM_MAX < n then Inl BPF_EADDR
      else if \<not> grants 0 then Inl BPF_EADDR
      else if \<not> grants 1 then Inl BPF_EADDR
      else case fill_regions grants junk 2 (take (unat n) cfg) [] of
        Inl e \<Rightarrow> Inl e
      | Inr regs \<Rightarrow> Inr \<lparr>mem_n = of_nat (length regs), mem_reg = regs\<rparr>)"

definition bpf_memory_nregions :: "bpf_memory \<Rightarrow> u32" where
  "bpf_memory_nregions m = mem_n m"

text \<open>
  Resolution. The host pointer is the index of the region and the offset in its backing.
\<close>

definition covers :: "mem_region \<Rightarrow> u64 \<Rightarrow> u64 \<Rightarrow> bool" where
  "covers pr addr n \<longleftrightarrow> base pr \<le> addr \<and> addr - base pr \<le> len pr \<and> n \<le> len pr - (addr - base pr)"

fun resolve_in :: "mem_region list \<Rightarrow> nat \<Rightarrow> u64 \<Rightarrow> u64 \<Rightarrow> bpf_byte \<Rightarrow> bpf_err + nat \<times> nat" where
  "resolve_in [] j addr n ac = Inl BPF_EADDR"
| "resolve_in (pr # rs) j addr n ac =
     (if covers pr addr n then
        (if acc pr AND ac = ac then Inr (j, unat (addr - base pr)) else Inl BPF_EPERM)
      else resolve_in rs (Suc j) addr n ac)"

definition bpf_mem_resolve :: "bpf_memory \<Rightarrow> u64 \<Rightarrow> u64 \<Rightarrow> bpf_byte \<Rightarrow> bpf_err + nat \<times> nat" where
  "bpf_mem_resolve m addr n ac = resolve_in (take (unat (mem_n m)) (mem_reg m)) 0 addr n ac"

definition le_width_ok :: "bpf_byte \<Rightarrow> bool" where
  "le_width_ok w \<longleftrightarrow> w = 1 \<or> w = 2 \<or> w = 4 \<or> w = 8"

text \<open>The little-endian value of the first \<open>k\<close> bytes at a host pointer.\<close>

fun le_value :: "bytes \<Rightarrow> nat \<Rightarrow> nat \<Rightarrow> u64" where
  "le_value h d 0 = 0"
| "le_value h d (Suc k) = le_value h d k OR push_bit (8 * k) (ucast (h ! (d + k)))"

definition bpf_mem_load :: "bpf_memory \<Rightarrow> u64 \<Rightarrow> bpf_byte \<Rightarrow> bpf_err + u64" where
  "bpf_mem_load m addr width =
     (if \<not> le_width_ok width then Inl BPF_ESIZE
      else case bpf_mem_resolve m addr (ucast width) BPF_MEM_R of
        Inl e \<Rightarrow> Inl e
      | Inr (j, d) \<Rightarrow> Inr (le_value (backing (mem_reg m ! j)) d (unat width)))"

text \<open>The bytes \<open>k ..< k + n\<close> of a value, written from the host pointer on.\<close>

fun le_store :: "bytes \<Rightarrow> nat \<Rightarrow> nat \<Rightarrow> nat \<Rightarrow> u64 \<Rightarrow> bytes" where
  "le_store h d k 0 v = h"
| "le_store h d k (Suc n) v = le_store (h[d + k := ucast (drop_bit (8 * k) v)]) d (Suc k) n v"

definition bpf_mem_store :: "bpf_memory \<Rightarrow> u64 \<Rightarrow> bpf_byte \<Rightarrow> u64 \<Rightarrow> bpf_memory \<times> bpf_err" where
  "bpf_mem_store m addr width v =
     (if \<not> le_width_ok width then (m, BPF_ESIZE)
      else case bpf_mem_resolve m addr (ucast width) BPF_MEM_W of
        Inl e \<Rightarrow> (m, e)
      | Inr (j, d) \<Rightarrow>
          (m\<lparr>mem_reg := (mem_reg m)[j := (mem_reg m ! j)\<lparr>backing := le_store (backing (mem_reg m ! j)) d 0 (unat width) v\<rparr>]\<rparr>,
           BPF_OK))"

section \<open>Capabilities\<close>

text \<open>The host object of a capability is an opaque pointer, here a number.\<close>

record bpf_caps =
  cap_max :: u32
  cap_next :: u32
  cap_live :: "bpf_byte list"
  cap_type :: "u32 list"
  cap_rights :: "u32 list"
  cap_host :: "nat list"

definition bpf_caps_create :: "(nat \<Rightarrow> bool) \<Rightarrow> u32 \<Rightarrow> bpf_err + bpf_caps" where
  "bpf_caps_create grants mx =
     (if \<not> grants 0 then Inl BPF_EFULL else if \<not> grants 1 then Inl BPF_EFULL
      else if \<not> grants 2 then Inl BPF_EFULL else if \<not> grants 3 then Inl BPF_EFULL
      else if \<not> grants 4 then Inl BPF_EFULL
      else Inr \<lparr>cap_max = mx, cap_next = 0, cap_live = replicate (unat mx) 0, cap_type = replicate (unat mx) 0,
                cap_rights = replicate (unat mx) 0, cap_host = replicate (unat mx) 0\<rparr>)"

definition live_at :: "bpf_caps \<Rightarrow> u32 \<Rightarrow> bool" where
  "live_at caps h = (if h < cap_max caps then cap_live caps ! unat h \<noteq> 0 else False)"

definition bpf_caps_alloc :: "bpf_caps \<Rightarrow> u32 \<Rightarrow> u32 \<Rightarrow> nat \<Rightarrow> bpf_caps \<times> (bpf_err + u32)" where
  "bpf_caps_alloc caps ty rights host =
     (let next = cap_next caps in
      if cap_max caps \<le> next then (caps, Inl BPF_EFULL)
      else (caps\<lparr>cap_live := (cap_live caps)[unat next := 1], cap_type := (cap_type caps)[unat next := ty],
                 cap_rights := (cap_rights caps)[unat next := rights], cap_host := (cap_host caps)[unat next := host],
                 cap_next := next + 1\<rparr>, Inr next))"

definition bpf_caps_lookup :: "bpf_caps \<Rightarrow> u32 \<Rightarrow> bpf_err + u32 \<times> u32 \<times> nat" where
  "bpf_caps_lookup caps h =
     (if \<not> live_at caps h then Inl BPF_EHANDLE
      else Inr (cap_type caps ! unat h, cap_rights caps ! unat h, cap_host caps ! unat h))"

definition bpf_caps_revoke :: "bpf_caps \<Rightarrow> u32 \<Rightarrow> bpf_caps \<times> bpf_err" where
  "bpf_caps_revoke caps h =
     (if \<not> live_at caps h then (caps, BPF_EHANDLE)
      else (caps\<lparr>cap_live := (cap_live caps)[unat h := 0]\<rparr>, BPF_OK))"

definition bpf_caps_live :: "bpf_caps \<Rightarrow> nat" where
  "bpf_caps_live caps = length (filter (\<lambda>v. v \<noteq> 0) (take (unat (cap_max caps)) (cap_live caps)))"

section \<open>The machine\<close>

datatype bpf_vm_state = BPF_VM_RUNNING | BPF_VM_RETURNED | BPF_VM_WAITING | BPF_VM_TRAPPED | BPF_VM_EXHAUSTED

record bpf_vm =
  vm_prog :: bpf_program
  vm_n :: u32
  pc :: u32
  budget :: u64
  regs :: bpf_regs
  retp :: "u32 list"
  s6 :: "u64 list"
  s7 :: "u64 list"
  s8 :: "u64 list"
  s9 :: "u64 list"
  s10 :: "u64 list"
  retn :: u32
  vm_state :: bpf_vm_state
  ctx_base :: u64
  ctx_len :: u64
  vm_mem :: bpf_memory
  vm_caps :: bpf_caps
  req_type :: u32
  req_rights :: u32
  has_req :: bool
  pending_import :: u32

abbreviation (input) BPF_VM_CALL_DEPTH :: u32 where "BPF_VM_CALL_DEPTH \<equiv> 64"
abbreviation (input) BPF_VM_CAPS :: u32 where "BPF_VM_CAPS \<equiv> 64"

definition se_load :: "u64 \<Rightarrow> bpf_byte \<Rightarrow> u64" where
  "se_load v sz =
     (if sz = BPF_SIZE_B then scast (ucast v :: u8)
      else if sz = BPF_SIZE_H then scast (ucast v :: u16)
      else if sz = BPF_SIZE_W then scast (ucast v :: u32) else v)"

definition eff_addr :: "bpf_regs \<Rightarrow> bpf_byte \<Rightarrow> bpf_int \<Rightarrow> u64" where
  "eff_addr rr reg off = get_reg rr reg + scast off"

definition step_advance :: "bpf_vm \<Rightarrow> bpf_vm" where
  "step_advance vm = vm\<lparr>pc := pc vm + 1\<rparr>"

text \<open>The context and the stack the configuration names: the last region of each kind.\<close>

fun ctx_of :: "bpf_region_cfg list \<Rightarrow> u64 \<times> u64 \<Rightarrow> u64 \<times> u64" where
  "ctx_of [] c = c"
| "ctx_of (rc # cfg) c = ctx_of cfg (if kind rc = BPF_RINPUT then (guest rc, rlen rc) else c)"

fun stack_of :: "bpf_region_cfg list \<Rightarrow> u64 \<Rightarrow> u64" where
  "stack_of [] k = k"
| "stack_of (rc # cfg) k = stack_of cfg (if kind rc = BPF_RSTACK then guest rc else k)"

text \<open>
  \<open>frames\<close> is what the uninitialised arrays of saved return points and registers hold. The requests
  are numbered: those of the memory first, then the machine, then the capability table.
\<close>

record saved_frames =
  f_retp :: "u32 list"
  f_s6 :: "u64 list"
  f_s7 :: "u64 list"
  f_s8 :: "u64 list"
  f_s9 :: "u64 list"
  f_s10 :: "u64 list"

definition bpf_vm_create :: "(nat \<Rightarrow> bool) \<Rightarrow> (nat \<Rightarrow> nat \<Rightarrow> u8) \<Rightarrow> saved_frames \<Rightarrow> bpf_program \<Rightarrow> bpf_region_cfg list
    \<Rightarrow> u32 \<Rightarrow> u64 \<Rightarrow> bpf_err + bpf_vm" where
  "bpf_vm_create grants junk frames prog cfg ncfg bud =
     (let ctx = ctx_of (take (unat ncfg) cfg) (0, 0); stk = stack_of (take (unat ncfg) cfg) 0 in
      case bpf_memory_create grants junk cfg ncfg of
        Inl e \<Rightarrow> Inl e
      | Inr m \<Rightarrow>
        (if \<not> grants (2 + unat ncfg) then Inl BPF_EADDR
         else case bpf_caps_create (\<lambda>k. grants (3 + unat ncfg + k)) BPF_VM_CAPS of
           Inl e \<Rightarrow> Inl e
         | Inr caps \<Rightarrow>
             Inr \<lparr>vm_prog = prog, vm_n = bpf_program_count prog, pc = 0, budget = bud,
                  regs = \<lparr>r = (replicate 11 0)[1 := fst ctx, 2 := snd ctx, 10 := stk]\<rparr>,
                  retp = f_retp frames, s6 = f_s6 frames, s7 = f_s7 frames, s8 = f_s8 frames, s9 = f_s9 frames,
                  s10 = f_s10 frames, retn = 0, vm_state = BPF_VM_RUNNING, ctx_base = fst ctx, ctx_len = snd ctx,
                  vm_mem = m, vm_caps = caps, req_type = 0, req_rights = 0, has_req = False, pending_import = 0\<rparr>))"

definition bpf_vm_get_state :: "bpf_vm \<Rightarrow> bpf_vm_state" where
  "bpf_vm_get_state vm = vm_state vm"

definition bpf_vm_reg :: "bpf_vm \<Rightarrow> u32 \<Rightarrow> u64" where
  "bpf_vm_reg vm idx = r (regs vm) ! unat idx"

definition bpf_vm_set_budget :: "bpf_vm \<Rightarrow> u64 \<Rightarrow> bpf_vm" where
  "bpf_vm_set_budget vm b = vm\<lparr>budget := b\<rparr>"

definition bpf_vm_reg_cap :: "bpf_vm \<Rightarrow> u32 \<Rightarrow> u32 \<Rightarrow> nat \<Rightarrow> bpf_vm \<times> (bpf_err + u32)" where
  "bpf_vm_reg_cap vm ty rights host =
     (case bpf_caps_alloc (vm_caps vm) ty rights host of (caps, res) \<Rightarrow> (vm\<lparr>vm_caps := caps\<rparr>, res))"

definition bpf_vm_revoke_cap :: "bpf_vm \<Rightarrow> u32 \<Rightarrow> bpf_vm \<times> bpf_err" where
  "bpf_vm_revoke_cap vm h = (case bpf_caps_revoke (vm_caps vm) h of (caps, e) \<Rightarrow> (vm\<lparr>vm_caps := caps\<rparr>, e))"

definition bpf_vm_set_import_gate :: "bpf_vm \<Rightarrow> u32 \<Rightarrow> u32 \<Rightarrow> bpf_vm \<times> bpf_err" where
  "bpf_vm_set_import_gate vm ty rights = (vm\<lparr>req_type := ty, req_rights := rights, has_req := True\<rparr>, BPF_OK)"

definition bpf_vm_pending_import :: "bpf_vm \<Rightarrow> u32" where
  "bpf_vm_pending_import vm = pending_import vm"

definition bpf_vm_complete :: "bpf_vm \<Rightarrow> u64 \<Rightarrow> bpf_vm \<times> bpf_err" where
  "bpf_vm_complete vm status =
     (if vm_state vm \<noteq> BPF_VM_WAITING then (vm, BPF_ESTALE)
      else (step_advance (vm\<lparr>regs := \<lparr>r = (r (regs vm))[0 := status, 1 := 0, 2 := 0, 3 := 0, 4 := 0, 5 := 0]\<rparr>,
                             vm_state := BPF_VM_RUNNING\<rparr>), BPF_OK))"

definition gate_open :: "bpf_vm \<Rightarrow> bool" where
  "gate_open vm =
     (if has_req vm then
        (case bpf_caps_lookup (vm_caps vm) (ucast (get_reg (regs vm) 1)) of
           Inl e \<Rightarrow> False
         | Inr (ty, rq, host) \<Rightarrow>
             (if ty = req_type vm then (if rq AND req_rights vm = req_rights vm then True else False) else False))
      else True)"

definition exec_helper :: "bpf_vm \<Rightarrow> u32 \<Rightarrow> bpf_vm \<times> bpf_vm_state" where
  "exec_helper vm im =
     (if \<not> gate_open vm then (vm, BPF_VM_TRAPPED)
      else (vm\<lparr>pending_import := im, vm_state := BPF_VM_WAITING\<rparr>, BPF_VM_WAITING))"

definition exec_alu :: "u64 \<Rightarrow> bpf_vm \<Rightarrow> bpf_insn \<Rightarrow> bpf_vm \<times> bpf_vm_state" where
  "exec_alu junk vm ins =
     (if dst_reg ins = 10 then (vm, BPF_VM_TRAPPED)
      else (step_advance (vm\<lparr>regs := bpf_alu junk (regs vm) ins\<rparr>), BPF_VM_RUNNING))"

definition exec_ldimm :: "bpf_vm \<Rightarrow> bpf_insn \<Rightarrow> bpf_vm \<times> bpf_vm_state" where
  "exec_ldimm vm ins =
     (if dst_reg ins = 10 then (vm, BPF_VM_TRAPPED)
      else (step_advance (vm\<lparr>regs := set_reg (regs vm) (dst_reg ins) (push_bit 32 (ucast (next_imm ins)) OR ucast (imm ins))\<rparr>),
            BPF_VM_RUNNING))"

definition exec_ldx :: "bpf_vm \<Rightarrow> bpf_insn \<Rightarrow> bpf_vm \<times> bpf_vm_state" where
  "exec_ldx vm ins =
     (if dst_reg ins = 10 then (vm, BPF_VM_TRAPPED)
      else case bpf_mem_load (vm_mem vm) (eff_addr (regs vm) (src_reg ins) (offset ins)) (ucast (size_bytes (isize ins))) of
        Inl e \<Rightarrow> (vm, BPF_VM_TRAPPED)
      | Inr v \<Rightarrow>
          (step_advance (vm\<lparr>regs := set_reg (regs vm) (dst_reg ins)
             (if mode ins = BPF_MODE_MEMSX then se_load v (isize ins) else v)\<rparr>), BPF_VM_RUNNING))"

definition exec_store :: "bpf_vm \<Rightarrow> bpf_insn \<Rightarrow> u64 \<Rightarrow> bpf_vm \<times> bpf_vm_state" where
  "exec_store vm ins v =
     (case bpf_mem_store (vm_mem vm) (eff_addr (regs vm) (dst_reg ins) (offset ins)) (ucast (size_bytes (isize ins))) v of
        (m, e) \<Rightarrow>
          if e \<noteq> BPF_OK then (vm\<lparr>vm_mem := m\<rparr>, BPF_VM_TRAPPED)
          else (step_advance (vm\<lparr>vm_mem := m\<rparr>), BPF_VM_RUNNING))"

definition jmp_imm :: "bool \<Rightarrow> bpf_int \<Rightarrow> u64" where
  "jmp_imm is32 i = (if is32 then ucast i else se_i32 i)"

definition exec_exit :: "bpf_vm \<Rightarrow> bpf_vm \<times> bpf_vm_state" where
  "exec_exit vm =
     (if 0 < retn vm then
        (let f = unat (retn vm - 1) in
         (vm\<lparr>retn := retn vm - 1,
             regs := \<lparr>r = (r (regs vm))[6 := s6 vm ! f, 7 := s7 vm ! f, 8 := s8 vm ! f, 9 := s9 vm ! f, 10 := s10 vm ! f]\<rparr>,
             pc := retp vm ! f\<rparr>, BPF_VM_RUNNING))
      else (vm\<lparr>vm_state := BPF_VM_RETURNED\<rparr>, BPF_VM_RETURNED))"

definition exec_call :: "bpf_vm \<Rightarrow> u32 \<Rightarrow> bpf_vm \<times> bpf_vm_state" where
  "exec_call vm tgt =
     (if BPF_VM_CALL_DEPTH \<le> retn vm then (vm, BPF_VM_TRAPPED)
      else let f = unat (retn vm); rr = r (regs vm) in
        (vm\<lparr>retp := (retp vm)[f := pc vm + 1], s6 := (s6 vm)[f := rr ! 6], s7 := (s7 vm)[f := rr ! 7],
            s8 := (s8 vm)[f := rr ! 8], s9 := (s9 vm)[f := rr ! 9], s10 := (s10 vm)[f := rr ! 10],
            retn := retn vm + 1, pc := tgt\<rparr>, BPF_VM_RUNNING))"

definition exec_jmp :: "bpf_vm \<Rightarrow> bpf_insn \<Rightarrow> bpf_prog_insn \<Rightarrow> bool \<Rightarrow> bpf_vm \<times> bpf_vm_state" where
  "exec_jmp vm ins pi is32 =
     (if code ins = BPF_JMP_JA then (vm\<lparr>pc := pi_target pi\<rparr>, BPF_VM_RUNNING)
      else if code ins = BPF_JMP_EXIT then exec_exit vm
      else if code ins = BPF_JMP_CALL then
        (if src_reg ins = 1 then exec_call vm (pi_target pi) else exec_helper vm (imm ins))
      else let d = get_reg (regs vm) (dst_reg ins);
               s = (if source ins = BPF_SRC_K then jmp_imm is32 (imm ins) else get_reg (regs vm) (src_reg ins)) in
        if bpf_cond_taken (code ins) is32 d s then (vm\<lparr>pc := pi_target pi\<rparr>, BPF_VM_RUNNING)
        else (step_advance vm, BPF_VM_RUNNING))"

definition exec_atomic :: "bpf_vm \<Rightarrow> bpf_insn \<Rightarrow> bpf_vm \<times> bpf_vm_state" where
  "exec_atomic vm ins =
     (let addr = eff_addr (regs vm) (dst_reg ins) (offset ins);
          op = atomic_op ins;
          srcv = get_reg (regs vm) (src_reg ins);
          r0v = get_reg (regs vm) 0;
          is32 = (isize ins = BPF_SIZE_W);
          wb = (if is32 then 4 else 8) in
      case bpf_mem_load (vm_mem vm) addr wb of
        Inl e \<Rightarrow> (vm, BPF_VM_TRAPPED)
      | Inr old \<Rightarrow>
        (let newv = (if is32 then ucast (atom32 op (ucast old) (ucast srcv) (ucast r0v)) else atom64 op old srcv r0v);
             oldret = (if is32 then ucast (ucast old :: u32) else old) in
         case bpf_mem_store (vm_mem vm) addr wb newv of (m, e) \<Rightarrow>
           if e \<noteq> BPF_OK then (vm\<lparr>vm_mem := m\<rparr>, BPF_VM_TRAPPED)
           else let vm = vm\<lparr>vm_mem := m\<rparr>;
                    vm = (if op = 0xF0 then vm\<lparr>regs := set_reg (regs vm) 0 oldret\<rparr> else vm);
                    vm = (if atomic_fetch ins \<and> op \<noteq> 0xF0
                          then vm\<lparr>regs := set_reg (regs vm) (src_reg ins) oldret\<rparr> else vm) in
             (step_advance vm, BPF_VM_RUNNING)))"

definition get_insn :: "bpf_vm \<Rightarrow> u32 \<Rightarrow> bpf_err + bpf_prog_insn" where
  "get_insn vm idx = bpf_program_get (vm_prog vm) idx"

definition exec_insn :: "u64 \<Rightarrow> bpf_vm \<Rightarrow> bpf_prog_insn \<Rightarrow> bpf_vm \<times> bpf_vm_state" where
  "exec_insn junk vm pi =
     (let ins = pi_in pi in
      if cls ins = BPF_CLS_ALU then exec_alu junk vm ins
      else if cls ins = BPF_CLS_ALU64 then exec_alu junk vm ins
      else if cls ins = BPF_CLS_LD then exec_ldimm vm ins
      else if cls ins = BPF_CLS_LDX then exec_ldx vm ins
      else if cls ins = BPF_CLS_ST then exec_store vm ins (se_i32 (imm ins))
      else if cls ins = BPF_CLS_STX then
        (if mode ins = BPF_MODE_ATOMIC then exec_atomic vm ins
         else exec_store vm ins (get_reg (regs vm) (src_reg ins)))
      else if cls ins = BPF_CLS_JMP then exec_jmp vm ins pi False
      else if cls ins = BPF_CLS_JMP32 then exec_jmp vm ins pi True
      else (vm\<lparr>vm_state := BPF_VM_TRAPPED\<rparr>, BPF_VM_TRAPPED))"

definition bpf_vm_step :: "u64 \<Rightarrow> bpf_vm \<Rightarrow> bpf_vm \<times> bpf_vm_state" where
  "bpf_vm_step junk vm =
     (if vm_state vm = BPF_VM_RETURNED then (vm, BPF_VM_RETURNED)
      else if vm_state vm = BPF_VM_TRAPPED then (vm, BPF_VM_TRAPPED)
      else if vm_state vm = BPF_VM_WAITING then (vm, BPF_VM_WAITING)
      else if vm_n vm \<le> pc vm then (vm\<lparr>vm_state := BPF_VM_TRAPPED\<rparr>, BPF_VM_TRAPPED)
      else if budget vm = 0 then (vm\<lparr>vm_state := BPF_VM_EXHAUSTED\<rparr>, BPF_VM_EXHAUSTED)
      else let vm = vm\<lparr>budget := budget vm - 1\<rparr> in
        case get_insn vm (pc vm) of
          Inl e \<Rightarrow> (vm\<lparr>vm_state := BPF_VM_TRAPPED\<rparr>, BPF_VM_TRAPPED)
        | Inr pi \<Rightarrow> exec_insn junk vm pi)"

end
