(* ===== verification/Bpf_Load.thy ===== *)
theory Bpf_Load
  imports Bpf_Program
begin

unbundle bit_operations_syntax

text \<open>
  Correctness of loading: the decoded instructions are exactly those the bytes encode, their slots
  are the sums of the widths before them, and what the loader lets through is well formed, with
  every branch resolved to the instruction that starts at its distance.
\<close>

section \<open>Encoding, the inverse of decoding\<close>

definition byte_of :: "u32 \<Rightarrow> nat \<Rightarrow> u8" where
  "byte_of v k = ucast (drop_bit (8 * k) v)"

definition u32_bytes :: "u32 \<Rightarrow> bytes" where
  "u32_bytes v = [byte_of v 0, byte_of v 1, byte_of v 2, byte_of v 3]"

definition encode_insn :: "bpf_insn \<Rightarrow> bytes" where
  "encode_insn ins =
     [opcode ins, push_bit 4 (src_reg ins) OR dst_reg ins, byte_of (offset ins) 0, byte_of (offset ins) 1]
     @ u32_bytes (imm ins) @ (if is_wide ins then [0, 0, 0, 0] @ u32_bytes (next_imm ins) else [])"

definition width :: "bpf_insn \<Rightarrow> nat" where
  "width ins = (if is_wide ins then 2 else 1)"

definition widths :: "bpf_insn list \<Rightarrow> nat" where
  "widths is = sum_list (map width is)"

lemma widths_simps [simp]: "widths [] = 0" "widths (i # is) = width i + widths is"
  by (simp_all add: widths_def)

lemma unat_insn_slots: "unat (insn_slots ins) = width ins"
  by (simp add: insn_slots_def width_def)

lemma byte_of_u32le:
  "byte_of (read_u32le p) 0 = p ! 0" "byte_of (read_u32le p) 1 = p ! 1"
  "byte_of (read_u32le p) 2 = p ! 2" "byte_of (read_u32le p) 3 = p ! 3"
  unfolding byte_of_def read_u32le_def by (rule bit_word_eqI, auto simp: bit_simps dest: bit_imp_le_length)+

lemma u32_bytes_le: "4 \<le> length p \<Longrightarrow> u32_bytes (read_u32le p) = take 4 p"
  unfolding u32_bytes_def byte_of_u32le
  by (rule nth_equalityI) (auto simp: nth_Cons numeral_eq_Suc less_Suc_eq split: nat.split)

lemma low_offset: "take_bit 16 (sign_offset v) = take_bit 16 v"
  by (simp add: sign_offset_def take_bit_or)

lemma byte_of_take: "8 * k + 8 \<le> n \<Longrightarrow> byte_of (take_bit n v) k = byte_of v k"
  unfolding byte_of_def by (intro bit_word_eqI) (auto simp: bit_simps)

lemma byte_of_u16le: "byte_of (read_u16le p) 0 = p ! 0" "byte_of (read_u16le p) 1 = p ! 1"
  unfolding byte_of_def read_u16le_def by (rule bit_word_eqI, auto simp: bit_simps dest: bit_imp_le_length)+

lemma byte_of_offset:
  "byte_of (sign_offset (read_u16le p)) 0 = p ! 0" "byte_of (sign_offset (read_u16le p)) 1 = p ! 1"
proof -
  have "byte_of (sign_offset v) k = byte_of v k" if "k < 2" for k v
    using byte_of_take [of k 16 "sign_offset v"] byte_of_take [of k 16 v] that by (simp add: low_offset)
  from this [of 0] this [of 1] show "byte_of (sign_offset (read_u16le p)) 0 = p ! 0" "byte_of (sign_offset (read_u16le p)) 1 = p ! 1"
    by (simp_all only: byte_of_u16le)
qed

lemma regs_join: "push_bit 4 (drop_bit 4 b) OR (b AND 0x0F) = (b :: u8)"
proof -
  have "b AND 0x0F = take_bit 4 b" by (simp add: take_bit_eq_mask mask_eq_exp_minus_1)
  then show ?thesis by (intro bit_word_eqI) (auto simp: bit_simps)
qed

lemma decode_insn_wide [simp]: "is_wide (decode_insn p) = is_wide_ld (p ! 0)"
  by (auto simp: decode_insn_def is_wide_ld_def Let_def)

lemma decode_Nil: "decode_loop p room = Inr [] \<longleftrightarrow> p = []"
  by (subst decode_loop.simps) (auto split: sum.split)

lemma decode_Cons:
  "decode_loop p room = Inr (i # is) \<longleftrightarrow>
     8 * width i \<le> length p \<and> room \<noteq> 0 \<and> i = decode_insn p \<and> decode_loop (drop (8 * width i) p) (room - 1) = Inr is"
  by (subst decode_loop.simps) (auto simp: width_def split: sum.split if_splits)

lemma encode_decode:
  assumes "8 * width (decode_insn p) \<le> length p"
    and "is_wide_ld (p ! 0) \<Longrightarrow> p ! 8 = 0 \<and> p ! 9 = 0 \<and> p ! 10 = 0 \<and> p ! 11 = 0"
  shows "encode_insn (decode_insn p) = take (8 * width (decode_insn p)) p"
proof -
  have l8: "8 \<le> length p" using assms(1) by (simp add: width_def split: if_splits)
  obtain b0 b1 b2 b3 b4 b5 b6 b7 q where p: "p = b0 # b1 # b2 # b3 # b4 # b5 # b6 # b7 # q"
    using l8 by (auto simp: numeral_eq_Suc Suc_le_length_iff)
  have head: "[opcode (decode_insn p), push_bit 4 (src_reg (decode_insn p)) OR dst_reg (decode_insn p),
      byte_of (offset (decode_insn p)) 0, byte_of (offset (decode_insn p)) 1] @ u32_bytes (imm (decode_insn p)) = take 8 p"
    using byte_of_offset [of "drop 2 p"] u32_bytes_le [of "drop 4 p"]
    by (simp add: decode_insn_def Let_def regs_join p)
  show ?thesis
  proof (cases "is_wide_ld (p ! 0)")
    case False
    then show ?thesis using head by (simp add: encode_insn_def width_def)
  next
    case True
    then have "16 \<le> length p" using assms(1) by (simp add: width_def)
    then obtain b8 b9 b10 b11 b12 b13 b14 b15 q' where q: "q = b8 # b9 # b10 # b11 # b12 # b13 # b14 # b15 # q'"
      using p by (auto simp: numeral_eq_Suc Suc_le_length_iff)
    have "next_imm (decode_insn p) = read_u32le (drop 12 p)"
      using True by (simp add: decode_insn_def Let_def is_wide_ld_def split: if_splits)
    then have "u32_bytes (next_imm (decode_insn p)) = [b12, b13, b14, b15]"
      using u32_bytes_le [of "drop 12 p"] by (simp add: p q)
    moreover have "b8 = 0 \<and> b9 = 0 \<and> b10 = 0 \<and> b11 = 0" using assms(2) [OF True] by (simp add: p q)
    ultimately show ?thesis
      using True head by (simp add: encode_insn_def width_def p q)
  qed
qed

lemma widths_length: "decode_loop p room = Inr is \<Longrightarrow> length p = 8 * widths is \<and> length is \<le> room"
proof (induction "is" arbitrary: p room)
  case Nil
  then show ?case by (simp add: decode_Nil)
next
  case (Cons i "is")
  then show ?case by (fastforce simp: decode_Cons)
qed

section \<open>Slots\<close>

lemma width_pos: "0 < width i"
  by (simp add: width_def)

lemma unat_of_nat32: "k < 2 ^ 32 \<Longrightarrow> unat (of_nat k :: u32) = k"
  by (simp add: unat_of_nat)

lemma slot_pass_slots:
  assumes "slot_pass raw is (of_nat (8 * c)) = Inr rs" and "8 * (c + widths is) < 2 ^ 32"
  shows "length rs = length is \<and> (\<forall>i < length is. unat (slot (rs ! i)) = c + widths (take i is) \<and> flag (rs ! i) AND 0x02 = 0)"
  using assms
proof (induction "is" arbitrary: c rs)
  case (Cons x "is")
  have cur: "of_nat (8 * c) + (if is_wide x then 16 else 8) = (of_nat (8 * (c + width x)) :: u32)"
    by (simp add: width_def algebra_simps)
  obtain rs' where rs': "slot_pass raw is (of_nat (8 * (c + width x))) = Inr rs'"
    "rs = \<lparr>slot = drop_bit 3 (of_nat (8 * c)), target = 0, flag = if is_local_call x then 4 else 0\<rparr> # rs'"
    using Cons.prems(1) by (simp only: slot_pass.simps cur) (auto split: if_splits sum.splits)
  have "8 * (c + width x + widths is) < 2 ^ 32" using Cons.prems(2) by simp
  from Cons.IH [OF rs'(1) this]
  have ih: "length rs' = length is" "\<And>i. i < length is \<Longrightarrow> unat (slot (rs' ! i)) = c + width x + widths (take i is) \<and> flag (rs' ! i) AND 0x02 = 0"
    by auto
  have "unat (of_nat (8 * c) :: u32) = 8 * c" using Cons.prems(2) by (intro unat_of_nat32) simp
  then have "unat (drop_bit 3 (of_nat (8 * c) :: u32)) = c"
    unfolding unat_drop_bit_eq by (simp only: drop_bit_eq_div) simp
  then show ?case using ih rs'(2) by (auto simp: nth_Cons split: nat.split)
qed simp

text \<open>Through both passes: the bytes are the encoding of the instructions.\<close>

lemma wide_res:
  assumes "check_wide_res raw pos = BPF_OK" and "unat pos + 11 < 2 ^ 32"
  shows "raw ! (unat pos + 8) = 0" "raw ! (unat pos + 9) = 0" "raw ! (unat pos + 10) = 0" "raw ! (unat pos + 11) = 0"
proof -
  have "unat (pos + 8) = unat pos + 8" "unat (pos + 9) = unat pos + 9" "unat (pos + 10) = unat pos + 10" "unat (pos + 11) = unat pos + 11"
    using assms(2) by (simp_all add: unat_word_ariths)
  then show "raw ! (unat pos + 8) = 0" "raw ! (unat pos + 9) = 0" "raw ! (unat pos + 10) = 0" "raw ! (unat pos + 11) = 0"
    using assms(1) by (auto simp: check_wide_res_def split: if_splits)
qed

lemma passes_encode:
  assumes "decode_loop (drop (8 * c) raw) room = Inr is" and "slot_pass raw is (of_nat (8 * c)) = Inr rs"
    and "8 * c \<le> length raw" and "length raw < 2 ^ 32"
  shows "concat (map encode_insn is) = drop (8 * c) raw"
  using assms
proof (induction "is" arbitrary: c room rs)
  case Nil
  then show ?case by (simp add: decode_Nil)
next
  case (Cons x "is")
  let ?p = "drop (8 * c) raw"
  from Cons.prems(1) have d: "8 * width x \<le> length ?p" "x = decode_insn ?p" "decode_loop (drop (8 * width x) ?p) (room - 1) = Inr is"
    unfolding decode_Cons by blast+
  have dd: "drop (8 * width x) ?p = drop (8 * (c + width x)) raw" by (simp add: algebra_simps)
  have cur: "of_nat (8 * c) + (if is_wide x then 16 else 8) = (of_nat (8 * (c + width x)) :: u32)"
    by (simp add: width_def algebra_simps)
  have step: "(if is_wide x \<and> check_wide_res raw (of_nat (8 * c)) \<noteq> BPF_OK then Inl (check_wide_res raw (of_nat (8 * c)))
      else case slot_pass raw is (of_nat (8 * (c + width x))) of Inl e \<Rightarrow> Inl e | Inr rs \<Rightarrow>
        Inr (\<lparr>slot = drop_bit 3 (of_nat (8 * c)), target = 0, flag = (if is_local_call x then 0x04 else 0)\<rparr> # rs)) = Inr rs"
    using Cons.prems(2) unfolding slot_pass.simps cur .
  have nz: "is_wide x \<Longrightarrow> check_wide_res raw (of_nat (8 * c)) = BPF_OK" using step by (rule_tac ccontr) simp
  have rest: "\<exists>rs'. slot_pass raw is (of_nat (8 * (c + width x))) = Inr rs'"
  proof (cases "slot_pass raw is (of_nat (8 * (c + width x)))")
    case (Inl e)
    show ?thesis using step unfolding Inl by (simp split: if_splits)
  qed blast
  have "concat (map encode_insn is) = drop (8 * (c + width x)) raw"
    using Cons.IH d(3) rest Cons.prems(3,4) d(1) unfolding dd by fastforce
  moreover have "encode_insn x = take (8 * width x) ?p"
    unfolding d(2)
  proof (rule encode_decode)
    show "8 * width (decode_insn ?p) \<le> length ?p" using d(1,2) by simp
    assume w: "is_wide_ld (?p ! 0)"
    then have wide: "is_wide x" using d(2) by simp
    then have "8 * c + 16 \<le> length raw" using d(1) Cons.prems(3) by (simp add: width_def)
    moreover from this have "unat (of_nat (8 * c) :: u32) = 8 * c" using Cons.prems(4) by (intro unat_of_nat32) simp
    ultimately show "?p ! 8 = 0 \<and> ?p ! 9 = 0 \<and> ?p ! 10 = 0 \<and> ?p ! 11 = 0"
      using wide_res [OF nz [OF wide]] Cons.prems(4) by simp
  qed
  moreover have "take (8 * width x) ?p @ drop (8 * (c + width x)) raw = ?p"
    using append_take_drop_id [of "8 * width x" ?p] unfolding dd .
  ultimately show ?case by simp
qed

section \<open>Targets\<close>

lemma slot_index_from_Some:
  "slot_index_from rs j tgt old = Some k \<Longrightarrow> old = Some k \<or> (j \<le> k \<and> k - j < length rs \<and> slot (rs ! (k - j)) = tgt)"
proof (induction rs arbitrary: j old)
  case (Cons rc rs)
  from Cons.prems have "slot_index_from rs (Suc j) tgt (if slot rc = tgt then Some j else old) = Some k" by simp
  from Cons.IH [OF this] show ?case
  proof
    assume "(if slot rc = tgt then Some j else old) = Some k"
    then show ?thesis by (auto split: if_splits)
  next
    assume k: "Suc j \<le> k \<and> k - Suc j < length rs \<and> slot (rs ! (k - Suc j)) = tgt"
    then have "k - j = Suc (k - Suc j)" by arith
    with k show ?thesis by simp
  qed
qed simp

lemma slot_index_from_None: "slot_index_from rs j tgt old = None \<Longrightarrow> old = None \<and> (\<forall>i < length rs. slot (rs ! i) \<noteq> tgt)"
proof (induction rs arbitrary: j old)
  case (Cons rc rs)
  from Cons.IH [of "Suc j" "if slot rc = tgt then Some j else old"] Cons.prems
  show ?case by (auto simp: nth_Cons split: if_splits nat.split)
qed simp

text \<open>What an accepted instruction is.\<close>

definition insn_ok :: "bpf_insn \<Rightarrow> bool" where
  "insn_ok ins \<longleftrightarrow> validate_insn ins = BPF_OK \<and> check_opcode ins = BPF_OK \<and> check_atomic ins = BPF_OK \<and> \<not> writes_r10 ins"

text \<open>How far a branch goes from its successor, in slots.\<close>

definition distance :: "bpf_insn \<Rightarrow> int" where
  "distance ins = sint (if snd (branch_delta ins) then imm ins else offset ins)"

definition prog_ok :: "bpf_program \<Rightarrow> bool" where
  "prog_ok p \<longleftrightarrow> unat (prog_n p) = length (prog_ins p) \<and> length (prog_rec p) = length (prog_ins p)
     \<and> 8 * widths (prog_ins p) < 2 ^ 32
     \<and> (\<forall>i < length (prog_ins p). insn_ok (prog_ins p ! i)
          \<and> unat (slot (prog_rec p ! i)) = widths (take i (prog_ins p))
          \<and> (flag (prog_rec p ! i) AND 0x02 \<noteq> 0 \<longleftrightarrow> fst (branch_delta (prog_ins p ! i)))
          \<and> (fst (branch_delta (prog_ins p ! i)) \<longrightarrow>
              unat (target (prog_rec p ! i)) < length (prog_ins p)
            \<and> int (widths (take (unat (target (prog_rec p ! i))) (prog_ins p)))
                = int (widths (take (Suc i) (prog_ins p))) + distance (prog_ins p ! i)))"

lemma validate_from_ok: "fst (validate_from is c) = BPF_OK \<Longrightarrow> ins \<in> set is \<Longrightarrow> validate_insn ins = BPF_OK"
  by (induction "is" arbitrary: c) (auto simp: Let_def split: if_splits)

lemma check_ops_ok:
  "check_ops is = BPF_OK \<Longrightarrow> ins \<in> set is \<Longrightarrow> check_opcode ins = BPF_OK \<and> check_atomic ins = BPF_OK \<and> \<not> writes_r10 ins"
  by (induction "is") (auto split: if_splits)

lemma resolve_targets_nth:
  "resolve_targets recs n is rs = Inr rs' \<Longrightarrow> length rs = length is \<Longrightarrow>
     length rs' = length is \<and> (\<forall>i < length is. resolve_one recs n (is ! i) (rs ! i) = Inr (rs' ! i))"
proof (induction "is" arbitrary: rs rs')
  case (Cons x "is")
  then obtain rc rs1 where rs: "rs = rc # rs1" "length rs1 = length is" by (cases rs) auto
  obtain rc' rs2 where "resolve_one recs n x rc = Inr rc'" "resolve_targets recs n is rs1 = Inr rs2" "rs' = rc' # rs2"
    using Cons.prems(1) rs(1) by (auto split: sum.splits)
  with Cons.IH [of rs1 rs2] rs show ?case by (auto simp: nth_Cons split: nat.split)
qed simp

lemma resolve_one_spec:
  assumes "resolve_one recs n ins rc = Inr rc'" and "length recs < 2 ^ 32" and "unat n < 2 ^ 32"
    and "flag rc AND 0x02 = 0"
  shows "slot rc' = slot rc" "flag rc' AND 0x02 \<noteq> 0 \<longleftrightarrow> fst (branch_delta ins)"
    "fst (branch_delta ins) \<Longrightarrow> unat (target rc') < length recs \<and> int (unat (slot (recs ! unat (target rc')))) = branch_slot ins rc"
proof -
  have "slot rc' = slot rc \<and> (flag rc' AND 0x02 \<noteq> 0 \<longleftrightarrow> fst (branch_delta ins)) \<and> (fst (branch_delta ins) \<longrightarrow>
      unat (target rc') < length recs \<and> int (unat (slot (recs ! unat (target rc')))) = branch_slot ins rc)"
  proof (cases "fst (branch_delta ins)")
    case False
    then show ?thesis using assms(1,4) by (simp add: resolve_one_def)
  next
    case True
    then obtain k where k: "slot_index recs (word_of_int (branch_slot ins rc)) = Some k"
      "rc' = rc\<lparr>target := of_nat k, flag := flag rc OR 0x02\<rparr>" "0 \<le> branch_slot ins rc" "branch_slot ins rc < int (unat n)"
      using assms(1) by (auto simp: resolve_one_def split: if_splits option.splits)
    have j: "k < length recs" "slot (recs ! k) = word_of_int (branch_slot ins rc)"
      using slot_index_from_Some [of recs 0 _ None k] k(1) by (auto simp: slot_index_def)
    have "unat (of_nat k :: u32) = k" using j(1) assms(2) by (intro unat_of_nat32) simp
    moreover have "int (unat (word_of_int (branch_slot ins rc) :: u32)) = branch_slot ins rc"
    proof -
      have "nat (branch_slot ins rc) < unat n" using k(4) by (simp only: nat_less_iff [OF k(3)])
      then have "branch_slot ins rc = int (nat (branch_slot ins rc))" "nat (branch_slot ins rc) < 2 ^ 32"
        using k(3) assms(3) by linarith+
      then show ?thesis by (metis unat_of_nat32 of_int_of_nat_eq)
    qed
    moreover have "(flag rc OR 0x02) AND 0x02 \<noteq> 0"
    proof -
      have "bit ((flag rc OR 0x02) AND 0x02) 1" by (simp add: bit_simps)
      then show ?thesis by (metis bit_0_eq bot_apply bot_bool_def)
    qed
    ultimately show ?thesis using True k j by simp
  qed
  then show "slot rc' = slot rc" "flag rc' AND 0x02 \<noteq> 0 \<longleftrightarrow> fst (branch_delta ins)"
    "fst (branch_delta ins) \<Longrightarrow> unat (target rc') < length recs \<and> int (unat (slot (recs ! unat (target rc')))) = branch_slot ins rc"
    by blast+
qed

lemma length_widths: "length is \<le> widths is"
  by (induction "is") (auto simp: width_def)

lemma load_decoded_ok:
  assumes "load_decoded raw bytes_n prof is = Inr p" and "decode_loop raw room = Inr is"
    and "length raw = unat bytes_n"
  shows "prog_ok p" "prog_ins p = is" "concat (map encode_insn is) = raw" "prog_conf p = conf_of is 0"
    "load_allowed prof \<noteq> 0 \<Longrightarrow> prog_conf p AND NOT (load_allowed prof) = 0"
proof -
  have size: "length raw < 2 ^ 32" using assms(3) unsigned_less [where ?'a = nat, of bytes_n] by simp
  have w: "length raw = 8 * widths is" using widths_length [OF assms(2)] by simp
  note lw = length_widths [of "is"]
  obtain rs rs' where rs: "slot_pass raw is 0 = Inr rs" "fst (bpf_validate is) = BPF_OK" "check_ops is = BPF_OK"
    "\<not> (load_allowed prof \<noteq> 0 \<and> conf_of is 0 AND NOT (load_allowed prof) \<noteq> 0)"
    "resolve_targets rs (drop_bit 3 bytes_n) is rs = Inr rs'"
    and p: "p = \<lparr>prog_n = of_nat (length is), prog_conf = conf_of is 0, prog_ins = is, prog_rec = rs'\<rparr>"
    using assms(1) by (auto simp: load_decoded_def Let_def split: sum.splits if_splits)
  have s0: "slot_pass raw is (of_nat (8 * 0)) = Inr rs" using rs(1) by simp
  have slots: "length rs = length is" "\<And>i. i < length is \<Longrightarrow> unat (slot (rs ! i)) = widths (take i is) \<and> flag (rs ! i) AND 0x02 = 0"
    using slot_pass_slots [OF s0] size w by simp_all
  have tg: "length rs' = length is" "\<And>i. i < length is \<Longrightarrow> resolve_one rs (drop_bit 3 bytes_n) (is ! i) (rs ! i) = Inr (rs' ! i)"
    using resolve_targets_nth [OF rs(5) slots(1)] by simp_all
  have n32: "length is < 2 ^ 32" using lw w size by simp
  have un: "unat (drop_bit 3 bytes_n) < 2 ^ 32" using unsigned_less [where ?'a = nat, of "drop_bit 3 bytes_n"] by simp
  have one: "insn_ok (is ! i)" if "i < length is" for i
    using validate_from_ok [of "is" 0 "is ! i"] check_ops_ok [OF rs(3), of "is ! i"] rs(2) that by (simp add: insn_ok_def bpf_validate_def)
  have takes: "widths (take (Suc i) is) = widths (take i is) + width (is ! i)" if "i < length is" for i
    using that by (simp add: widths_def take_Suc_conv_app_nth)
  have small: "widths (take (Suc i) is) < 2 ^ 32" for i
  proof -
    have "widths is = widths (take (Suc i) is) + widths (drop (Suc i) is)"
      unfolding widths_def by (metis append_take_drop_id map_append sum_list_append)
    then show ?thesis using w size by linarith
  qed
  have rel: "unat (slot (rs' ! i)) = widths (take i is) \<and> (flag (rs' ! i) AND 0x02 \<noteq> 0 \<longleftrightarrow> fst (branch_delta (is ! i)))
     \<and> (fst (branch_delta (is ! i)) \<longrightarrow> unat (target (rs' ! i)) < length is
       \<and> int (widths (take (unat (target (rs' ! i))) is)) = int (widths (take (Suc i) is)) + distance (is ! i))"
    if i: "i < length is" for i
  proof -
    note r1 = resolve_one_spec [OF tg(2) [OF i] _ un conjunct2 [OF slots(2) [OF i]]]
    have l: "length rs < 2 ^ 32" using slots(1) n32 by simp
    have "unat (slot (rs ! i) + insn_slots (is ! i)) = widths (take (Suc i) is)"
    proof -
      have "unat (slot (rs ! i)) + unat (insn_slots (is ! i)) = widths (take (Suc i) is)"
        using slots(2) [OF i] takes [OF i] by (simp add: unat_insn_slots)
      then show ?thesis using small [of i] by (simp add: unat_word_ariths)
    qed
    then have "branch_slot (is ! i) (rs ! i) = int (widths (take (Suc i) is)) + distance (is ! i)"
      by (simp add: branch_slot_def distance_def)
    note bs = this
    have "unat (target (rs' ! i)) < length is
       \<and> int (widths (take (unat (target (rs' ! i))) is)) = int (widths (take (Suc i) is)) + distance (is ! i)"
      if br: "fst (branch_delta (is ! i))"
    proof -
      from r1(3) [OF l br] have t: "unat (target (rs' ! i)) < length is"
        and e: "int (unat (slot (rs ! unat (target (rs' ! i))))) = branch_slot (is ! i) (rs ! i)"
        using slots(1) by simp_all
      have "unat (slot (rs ! unat (target (rs' ! i)))) = widths (take (unat (target (rs' ! i))) is)" using slots(2) [OF t] by simp
      with e bs t show ?thesis by (simp only:)
    qed
    then show ?thesis using r1(1,2) [OF l] slots(2) [OF i] by simp
  qed
  have "unat (of_nat (length is) :: u32) = length is" using n32 by (rule unat_of_nat32)
  then show "prog_ok p" using p tg(1) one rel w size by (simp add: prog_ok_def)
  show "prog_ins p = is" "prog_conf p = conf_of is 0" using p by simp_all
  show "load_allowed prof \<noteq> 0 \<Longrightarrow> prog_conf p AND NOT (load_allowed prof) = 0" using rs(4) p by simp
  show "concat (map encode_insn is) = raw"
    using passes_encode [where c = 0 and raw = raw and room = room, OF _ s0] assms(2) size by simp
qed

lemma program_load_ok:
  assumes "bpf_program_load grants raw bytes_n prof = Inr p" and "length raw = unat bytes_n"
  shows "prog_ok p" "concat (map encode_insn (prog_ins p)) = raw" "prog_ins p \<noteq> []"
    "prog_conf p = conf_of (prog_ins p) 0" "load_allowed prof \<noteq> 0 \<Longrightarrow> prog_conf p AND NOT (load_allowed prof) = 0"
    "load_limit prof \<noteq> 0 \<Longrightarrow> length (prog_ins p) \<le> unat (load_limit prof)"
proof -
  have ok: "bytes_n \<noteq> 0" using assms(1) by (auto simp: bpf_program_load_def)
  obtain "is" where d: "bpf_decode raw bytes_n (drop_bit 3 bytes_n) = Inr is"
    "\<not> (load_limit prof \<noteq> 0 \<and> load_limit prof < of_nat (length is))" "load_decoded raw bytes_n prof is = Inr p"
    using assms(1) by (auto simp: bpf_program_load_def split: sum.splits if_splits)
  have dl: "decode_loop raw (unat (drop_bit 3 bytes_n)) = Inr is" using d(1) assms(2) by (simp add: bpf_decode_def)
  note ld = load_decoded_ok [OF d(3) dl assms(2)]
  show "prog_ok p" "concat (map encode_insn (prog_ins p)) = raw" "prog_conf p = conf_of (prog_ins p) 0"
    "load_allowed prof \<noteq> 0 \<Longrightarrow> prog_conf p AND NOT (load_allowed prof) = 0"
    using ld by simp_all
  show "prog_ins p \<noteq> []"
  proof
    assume "prog_ins p = []"
    then have "raw = []" using ld(2,3) by simp
    then show False using ok assms(2) by (simp add: unat_eq_zero)
  qed
  have "unat (of_nat (length is) :: u32) = length is" using ld(1,2) length_widths [of "is"] by (intro unat_of_nat32) (simp add: prog_ok_def)
  then show "length (prog_ins p) \<le> unat (load_limit prof)" if "load_limit prof \<noteq> 0"
    using that d(2) ld(2) by (simp add: word_less_nat_alt not_less)
qed

text \<open>C6: The loader lets through only what is sound: the bytes are exactly the encoding of the instructions
  it keeps; every instruction has registers up to r10, a known operation, a permitted form and does not write
  the frame pointer; every slot is the sum of the widths before it; every branch and local call has a target,
  which is the instruction that starts at its distance from its successor; and the conformance groups and the
  number of instructions are within the profile.\<close>

theorem load_sound:
  assumes "bpf_program_load grants raw bytes_n prof = Inr p" and "length raw = unat bytes_n"
  shows "prog_ok p \<and> concat (map encode_insn (prog_ins p)) = raw \<and> prog_ins p \<noteq> []
    \<and> (load_allowed prof = 0 \<or> prog_conf p AND NOT (load_allowed prof) = 0)
    \<and> (load_limit prof = 0 \<or> length (prog_ins p) \<le> unat (load_limit prof))"
  using program_load_ok [OF assms] by blast

text \<open>A program that jumps over a wide load to its exit, and then returns.\<close>

definition jump_bytes :: bytes where
  "jump_bytes = [0x05, 0, 2, 0, 0, 0, 0, 0,  0x18, 0x01, 0, 0, 1, 0, 0, 0,  0, 0, 0, 0, 2, 0, 0, 0,  0x95, 0, 0, 0, 0, 0, 0, 0]"

theorem load_sound_witness:
  "\<exists>p. bpf_program_load (\<lambda>k. True) jump_bytes 32 None = Inr p \<and> prog_ok p \<and> length (prog_ins p) = 3
     \<and> target (prog_rec p ! 0) = 2"
proof -
  let ?res = "bpf_program_load (\<lambda>k. True) jump_bytes 32 None"
  have "case ?res of Inl e \<Rightarrow> False | Inr p \<Rightarrow> length (prog_ins p) = 3 \<and> target (prog_rec p ! 0) = 2" by code_simp
  then obtain p where p: "?res = Inr p" "length (prog_ins p) = 3 \<and> target (prog_rec p ! 0) = 2"
    by (cases ?res) auto
  have "length jump_bytes = unat (32 :: u32)" by (simp add: jump_bytes_def)
  from load_sound [OF p(1) this] p show ?thesis by blast
qed

end
