(* ===== verification/Bpf_Memory.thy ===== *)
theory Bpf_Memory
  imports Bpf_Vm Bpf_Load
begin

unbundle bit_operations_syntax

text \<open>
  The guest address space: what loads and stores do to it, seen byte by byte. Creation makes an
  address space of disjoint regions, every store keeps it one, and nothing but the bytes a store
  names, all in one writable region, ever changes.
\<close>

section \<open>An address space behind a guarded store\<close>

text \<open>
  What the machine needs of a memory: stores keep its invariant and its layout, and never
  change what is not writable.
\<close>

locale guarded_memory =
  fixes ok :: "'m \<Rightarrow> bool" and put :: "'q \<Rightarrow> 'm \<Rightarrow> 'm"
    and view :: "'m \<Rightarrow> 'a \<Rightarrow> 'b option" and writable :: "'m \<Rightarrow> 'a \<Rightarrow> bool"
  assumes ok_put: "ok m \<Longrightarrow> ok (put q m)"
    and writable_put: "ok m \<Longrightarrow> writable (put q m) a = writable m a"
    and dom_put: "ok m \<Longrightarrow> view (put q m) a = None \<longleftrightarrow> view m a = None"
    and guarded: "ok m \<Longrightarrow> \<not> writable m a \<Longrightarrow> view (put q m) a = view m a"
begin

lemma puts_ok: "ok m \<Longrightarrow> ok (fold put qs m)"
  by (induction qs arbitrary: m) (simp_all add: ok_put)

lemma puts_layout: "ok m \<Longrightarrow> writable (fold put qs m) a = writable m a \<and> (view (fold put qs m) a = None \<longleftrightarrow> view m a = None)"
  by (induction qs arbitrary: m) (simp_all add: ok_put writable_put dom_put)

lemma puts_guarded: "ok m \<Longrightarrow> \<not> writable m a \<Longrightarrow> view (fold put qs m) a = view m a"
  by (induction qs arbitrary: m) (simp_all add: ok_put writable_put guarded)

end

section \<open>Regions\<close>

definition holds :: "mem_region \<Rightarrow> u64 \<Rightarrow> bool" where
  "holds pr a \<longleftrightarrow> base pr \<le> a \<and> a - base pr < len pr"

definition region_inv :: "mem_region \<Rightarrow> bool" where
  "region_inv pr \<longleftrightarrow> length (backing pr) = unat (len pr) \<and> unat (base pr) + unat (len pr) < 2 ^ 64
     \<and> acc pr AND BPF_MEM_R = BPF_MEM_R"

definition memory_ok :: "bpf_memory \<Rightarrow> bool" where
  "memory_ok m \<longleftrightarrow> unat (mem_n m) = length (mem_reg m) \<and> (\<forall>pr \<in> set (mem_reg m). region_inv pr)
     \<and> (\<forall>i < length (mem_reg m). \<forall>j < length (mem_reg m). \<forall>a. holds (mem_reg m ! i) a \<longrightarrow> holds (mem_reg m ! j) a \<longrightarrow> i = j)"

definition region_at :: "bpf_memory \<Rightarrow> u64 \<Rightarrow> mem_region option" where
  "region_at m a = find (\<lambda>pr. holds pr a) (mem_reg m)"

definition byte_at :: "bpf_memory \<Rightarrow> u64 \<Rightarrow> u8 option" where
  "byte_at m a = map_option (\<lambda>pr. backing pr ! unat (a - base pr)) (region_at m a)"

definition writable_at :: "bpf_memory \<Rightarrow> u64 \<Rightarrow> bool" where
  "writable_at m a = (case region_at m a of None \<Rightarrow> False | Some pr \<Rightarrow> acc pr AND BPF_MEM_W = BPF_MEM_W)"

lemma regions_disjoint:
  "memory_ok m \<Longrightarrow> i < length (mem_reg m) \<Longrightarrow> j < length (mem_reg m) \<Longrightarrow> holds (mem_reg m ! i) a \<Longrightarrow> holds (mem_reg m ! j) a
     \<Longrightarrow> i = j"
  by (simp add: memory_ok_def)

lemma region_atI:
  assumes "memory_ok m" and "j < length (mem_reg m)" and "holds (mem_reg m ! j) a"
  shows "region_at m a = Some (mem_reg m ! j)"
proof -
  have "\<not> holds (mem_reg m ! i) a" if "i < j" for i
    using regions_disjoint [OF assms(1) _ assms(2) _ assms(3), of i] assms(2) that by auto
  then show ?thesis using assms(2,3) unfolding region_at_def find_Some_iff by blast
qed

lemma region_at_cases:
  obtains "region_at m a = None" "\<And>j. j < length (mem_reg m) \<Longrightarrow> \<not> holds (mem_reg m ! j) a"
  | j where "j < length (mem_reg m)" "holds (mem_reg m ! j) a" "region_at m a = Some (mem_reg m ! j)"
proof (cases "region_at m a")
  case None
  then show ?thesis using that(1) by (auto simp: region_at_def find_None_iff)
next
  case (Some pr)
  then show ?thesis using that(2) by (auto simp: region_at_def find_Some_iff)
qed

text \<open>An access of \<open>n\<close> bytes that a region covers lies in it byte by byte.\<close>

lemma covers_holds:
  assumes "covers pr a n" and "region_inv pr" and "k < unat n"
  shows "holds pr (a + of_nat k)" "unat (a + of_nat k - base pr) = unat (a - base pr) + k"
    "unat (a - base pr) + unat n \<le> length (backing pr)"
proof -
  have b: "unat (base pr) \<le> unat a" "unat (a - base pr) = unat a - unat (base pr)"
    using assms(1) by (auto simp: covers_def word_le_nat_alt unat_sub)
  have le: "unat (a - base pr) \<le> unat (len pr)" using assms(1) by (simp add: covers_def word_le_nat_alt)
  moreover have "unat n \<le> unat (len pr - (a - base pr))" using assms(1) by (simp add: covers_def word_le_nat_alt)
  moreover have "unat (len pr - (a - base pr)) = unat (len pr) - unat (a - base pr)"
    using assms(1) by (intro unat_sub) (simp add: covers_def)
  ultimately have n: "unat (a - base pr) + unat n \<le> unat (len pr)" by linarith
  then show "unat (a - base pr) + unat n \<le> length (backing pr)" using assms(2) by (simp add: region_inv_def)
  have "unat (base pr) + unat (len pr) < 2 ^ 64" using assms(2) by (simp add: region_inv_def)
  then have "unat a + k < 2 ^ 64" using n b assms(3) by linarith
  moreover from this have "unat (of_nat k :: u64) = k" by (simp add: unat_of_nat)
  ultimately have ak: "unat (a + of_nat k) = unat a + k" by (simp add: unat_add_no_wrap)
  have bak: "base pr \<le> a + of_nat k" using ak b by (simp add: word_le_nat_alt)
  then show d: "unat (a + of_nat k - base pr) = unat (a - base pr) + k"
    using ak b by (simp add: unat_sub)
  show "holds pr (a + of_nat k)" using bak d n assms(3) by (simp add: holds_def word_less_nat_alt)
qed

text \<open>Resolution: the region found covers the access and allows it.\<close>

lemma resolve_in_Inr:
  "resolve_in prs j a n ac = Inr (i, d) \<Longrightarrow>
     j \<le> i \<and> i - j < length prs \<and> covers (prs ! (i - j)) a n \<and> acc (prs ! (i - j)) AND ac = ac \<and> d = unat (a - base (prs ! (i - j)))"
proof (induction prs arbitrary: j)
  case (Cons pr prs)
  show ?case
  proof (cases "covers pr a n")
    case True
    then show ?thesis using Cons.prems by (auto split: if_splits)
  next
    case False
    then have ih: "Suc j \<le> i \<and> i - Suc j < length prs \<and> covers (prs ! (i - Suc j)) a n \<and> acc (prs ! (i - Suc j)) AND ac = ac
        \<and> d = unat (a - base (prs ! (i - Suc j)))" using Cons by simp
    then have "i - j = Suc (i - Suc j)" by arith
    with ih show ?thesis by simp
  qed
qed simp

lemma resolve_in_covers:
  "i < length prs \<Longrightarrow> covers (prs ! i) a n \<Longrightarrow> (\<And>k. k < length prs \<Longrightarrow> covers (prs ! k) a n \<Longrightarrow> k = i) \<Longrightarrow>
     resolve_in prs j a n ac = (if acc (prs ! i) AND ac = ac then Inr (j + i, unat (a - base (prs ! i))) else Inl BPF_EPERM)"
proof (induction prs arbitrary: j i)
  case (Cons pr prs)
  show ?case
  proof (cases i)
    case 0
    then show ?thesis using Cons.prems by simp
  next
    case (Suc i')
    have "\<not> covers pr a n" using Cons.prems(3) [of 0] Suc by auto
    moreover have "resolve_in prs (Suc j) a n ac
        = (if acc (prs ! i') AND ac = ac then Inr (Suc j + i', unat (a - base (prs ! i'))) else Inl BPF_EPERM)"
    proof (rule Cons.IH)
      show "i' < length prs" "covers (prs ! i') a n" using Cons.prems(1,2) Suc by simp_all
      show "k = i'" if "k < length prs" "covers (prs ! k) a n" for k using Cons.prems(3) [of "Suc k"] that Suc by simp
    qed
    ultimately show ?thesis using Suc by simp
  qed
qed simp

lemma resolve_in_err: "resolve_in prs j a n ac = Inl e \<Longrightarrow> e \<noteq> BPF_OK"
  by (induction prs arbitrary: j) (auto split: if_splits)

lemma resolve_Inr:
  assumes "memory_ok m" and "bpf_mem_resolve m a n ac = Inr (i, d)"
  shows "i < length (mem_reg m)" "covers (mem_reg m ! i) a n" "acc (mem_reg m ! i) AND ac = ac" "d = unat (a - base (mem_reg m ! i))"
  using resolve_in_Inr [of "mem_reg m" 0 a n ac i d] assms by (simp_all add: bpf_mem_resolve_def memory_ok_def)

lemma resolve_covers:
  assumes "memory_ok m" and "i < length (mem_reg m)" and "covers (mem_reg m ! i) a n" and "n \<noteq> 0"
  shows "bpf_mem_resolve m a n ac =
    (if acc (mem_reg m ! i) AND ac = ac then Inr (i, unat (a - base (mem_reg m ! i))) else Inl BPF_EPERM)"
proof -
  have inv: "region_inv (mem_reg m ! k)" if "k < length (mem_reg m)" for k using assms(1) that by (simp add: memory_ok_def)
  have n: "0 < unat n" using assms(4) by (simp add: unat_gt_0)
  have h: "holds (mem_reg m ! k) a" if "k < length (mem_reg m)" "covers (mem_reg m ! k) a n" for k
    using covers_holds(1) [OF that(2) inv [OF that(1)] n] by simp
  have "k = i" if "k < length (mem_reg m)" "covers (mem_reg m ! k) a n" for k
    using regions_disjoint [OF assms(1) that(1) assms(2) h [OF that] h [OF assms(2,3)]] .
  from resolve_in_covers [OF assms(2,3) this, of 0 ac] show ?thesis
    using assms(1) by (simp add: bpf_mem_resolve_def memory_ok_def)
qed

section \<open>Bytes of a value\<close>

lemma le_store_length [simp]: "length (le_store h d k n v) = length h"
  by (induction n arbitrary: h k) auto

lemma le_store_nth:
  "d + k + n \<le> length h \<Longrightarrow> i < length h \<Longrightarrow>
     le_store h d k n v ! i = (if d + k \<le> i \<and> i < d + k + n then ucast (drop_bit (8 * (i - d)) v) else h ! i)"
proof (induction n arbitrary: h k)
  case (Suc n)
  have "le_store h d k (Suc n) v ! i = (if d + Suc k \<le> i \<and> i < d + Suc k + n then ucast (drop_bit (8 * (i - d)) v)
      else h[d + k := ucast (drop_bit (8 * k) v)] ! i)"
    using Suc.IH [of "Suc k" "h[d + k := ucast (drop_bit (8 * k) v)]"] Suc.prems by simp
  then show ?case using Suc.prems by (cases "i = d + k") auto
qed auto

lemma bit_le_value: "bit (le_value h d n) j \<longleftrightarrow> j < 64 \<and> j < 8 * n \<and> bit (h ! (d + j div 8)) (j mod 8)"
proof (induction n)
  case (Suc n)
  have "bit (push_bit (8 * n) (ucast (h ! (d + n)) :: u64)) j \<longleftrightarrow> j < 64 \<and> 8 * n \<le> j \<and> j < 8 * Suc n \<and> bit (h ! (d + j div 8)) (j mod 8)"
  proof (cases "8 * n \<le> j \<and> j < 8 * Suc n")
    case True
    then obtain i where "j = 8 * n + i" "i < 8" by (metis le_add_diff_inverse less_diff_conv2 mult_Suc_right)
    then show ?thesis by (auto simp: bit_simps)
  next
    case False
    then show ?thesis using bit_imp_le_length [of "h ! (d + n)" "j - 8 * n"] by (auto simp: bit_simps)
  qed
  then show ?case using Suc by (auto simp: bit_simps)
qed simp

lemma le_value_store:
  assumes "d + n \<le> length h" and "n \<le> 8"
  shows "le_value (le_store h d 0 n v) d n = take_bit (8 * n) v"
proof (rule bit_word_eqI)
  fix j :: nat
  assume "j < LENGTH(64)"
  moreover have "bit (le_store h d 0 n v ! (d + j div 8)) (j mod 8) = bit v j" if "j < 8 * n"
  proof -
    have "j div 8 < n" using that by (simp add: div_less_iff_less_mult mult.commute)
    then show ?thesis using assms(1) \<open>j < LENGTH(64)\<close> by (simp add: le_store_nth bit_simps)
  qed
  ultimately show "bit (le_value (le_store h d 0 n v) d n) j = bit (take_bit (8 * n) v) j"
    by (auto simp: bit_le_value bit_simps)
qed

section \<open>Stores\<close>

definition set_backing :: "bpf_memory \<Rightarrow> nat \<Rightarrow> bytes \<Rightarrow> bpf_memory" where
  "set_backing m i bs = m\<lparr>mem_reg := (mem_reg m)[i := (mem_reg m ! i)\<lparr>backing := bs\<rparr>]\<rparr>"

lemma holds_backing [simp]: "holds (pr\<lparr>backing := bs\<rparr>) a = holds pr a"
  by (simp add: holds_def)

lemma set_backing_ok:
  assumes "memory_ok m" and "i < length (mem_reg m)" and "length bs = length (backing (mem_reg m ! i))"
  shows "memory_ok (set_backing m i bs)"
proof -
  have h: "holds (mem_reg (set_backing m i bs) ! j) a = holds (mem_reg m ! j) a" if "j < length (mem_reg m)" for j a
    using that assms(2) by (simp add: set_backing_def nth_list_update)
  have "region_inv (mem_reg m ! i)" using assms(1,2) by (simp add: memory_ok_def)
  then have "region_inv ((mem_reg m ! i)\<lparr>backing := bs\<rparr>)" using assms(3) by (simp add: region_inv_def)
  then have "\<forall>pr \<in> set (mem_reg (set_backing m i bs)). region_inv pr"
    using assms(1) set_update_subset_insert [of "mem_reg m" i] by (fastforce simp: set_backing_def memory_ok_def)
  then show ?thesis using h assms(1) by (simp add: memory_ok_def set_backing_def)
qed

lemma set_backing_region:
  assumes "memory_ok m" and "i < length (mem_reg m)" and "length bs = length (backing (mem_reg m ! i))"
  shows "region_at (set_backing m i bs) a =
    (if holds (mem_reg m ! i) a then Some ((mem_reg m ! i)\<lparr>backing := bs\<rparr>) else region_at m a)"
proof (cases rule: region_at_cases [of m a])
  case 1
  then have "\<not> holds (mem_reg m ! i) a" using assms(2) by blast
  moreover have "region_at (set_backing m i bs) a = None"
    unfolding region_at_def find_None_iff
    using 1(2) assms(2) by (auto simp: set_backing_def in_set_conv_nth nth_list_update)
  ultimately show ?thesis using 1(1) by simp
next
  case (2 j)
  have "region_at (set_backing m i bs) a = Some (mem_reg (set_backing m i bs) ! j)"
  proof (rule region_atI [OF set_backing_ok [OF assms]])
    show "j < length (mem_reg (set_backing m i bs))" using 2(1) by (simp add: set_backing_def)
    show "holds (mem_reg (set_backing m i bs) ! j) a" using 2 by (cases "j = i") (simp_all add: set_backing_def)
  qed
  note at = this
  show ?thesis
  proof (cases "i = j")
    case True
    then show ?thesis using at 2(1,2) by (simp add: set_backing_def)
  next
    case False
    then have "\<not> holds (mem_reg m ! i) a" using regions_disjoint [OF assms(1,2) 2(1) _ 2(2)] by blast
    then show ?thesis using at 2(3) False by (simp add: set_backing_def)
  qed
qed

lemma width_cases: "le_width_ok w \<Longrightarrow> 0 < unat w \<and> unat w \<le> 8 \<and> unat (ucast w :: u64) = unat w \<and> (ucast w :: u64) \<noteq> 0"
  by (auto simp: le_width_ok_def)

lemma store_cases:
  assumes "memory_ok m" and "bpf_mem_store m a w v = (m', e)"
  obtains "m' = m" "e \<noteq> BPF_OK"
  | i where "e = BPF_OK" "le_width_ok w" "i < length (mem_reg m)" "covers (mem_reg m ! i) a (ucast w)"
      "acc (mem_reg m ! i) AND BPF_MEM_W = BPF_MEM_W"
      "m' = set_backing m i (le_store (backing (mem_reg m ! i)) (unat (a - base (mem_reg m ! i))) 0 (unat w) v)"
proof (cases "le_width_ok w")
  case False
  then show ?thesis using assms(2) that(1) by (auto simp: bpf_mem_store_def)
next
  case w: True
  show ?thesis
  proof (cases "bpf_mem_resolve m a (ucast w) BPF_MEM_W")
    case (Inl e')
    then have "e' \<noteq> BPF_OK" using resolve_in_err by (simp add: bpf_mem_resolve_def)
    then show ?thesis using assms(2) w Inl that(1) by (simp add: bpf_mem_store_def)
  next
    case (Inr x)
    then obtain i d where x: "bpf_mem_resolve m a (ucast w) BPF_MEM_W = Inr (i, d)" by (cases x) auto
    from resolve_Inr [OF assms(1) this] assms(2) w x that(2) [of i] show ?thesis
      by (simp add: bpf_mem_store_def set_backing_def)
  qed
qed

text \<open>What a successful store does to every byte.\<close>

lemma store_bytes:
  assumes ok: "memory_ok m" and st: "bpf_mem_store m a w v = (m', BPF_OK)"
  shows "memory_ok m'" "writable_at m' x = writable_at m x" "byte_at m' x = None \<longleftrightarrow> byte_at m x = None"
    "k < unat w \<Longrightarrow> byte_at m' (a + of_nat k) = Some (ucast (drop_bit (8 * k) v))"
    "k < unat w \<Longrightarrow> writable_at m (a + of_nat k)"
    "(\<And>k. k < unat w \<Longrightarrow> x \<noteq> a + of_nat k) \<Longrightarrow> byte_at m' x = byte_at m x"
proof -
  obtain i where i: "le_width_ok w" "i < length (mem_reg m)" "covers (mem_reg m ! i) a (ucast w)"
      "acc (mem_reg m ! i) AND BPF_MEM_W = BPF_MEM_W"
      "m' = set_backing m i (le_store (backing (mem_reg m ! i)) (unat (a - base (mem_reg m ! i))) 0 (unat w) v)"
    using store_cases [OF ok st] by metis
  let ?pr = "mem_reg m ! i"
  let ?bs = "le_store (backing ?pr) (unat (a - base ?pr)) 0 (unat w) v"
  have inv: "region_inv ?pr" using ok i(2) by (simp add: memory_ok_def)
  have uw: "unat (ucast w :: u64) = unat w" using width_cases [OF i(1)] by simp
  note at = set_backing_region [OF ok i(2), of ?bs, simplified, folded i(5)]
  have pr: "region_at m x = Some ?pr" if "holds ?pr x" for x using region_atI [OF ok i(2) that] .
  show "memory_ok m'" using set_backing_ok [OF ok i(2)] i(5) by simp
  show "writable_at m' x = writable_at m x" using at [of x] pr [of x] by (simp add: writable_at_def)
  show "byte_at m' x = None \<longleftrightarrow> byte_at m x = None" using at [of x] pr [of x] by (auto simp: byte_at_def)
  have cov: "holds ?pr (a + of_nat k)" "unat (a + of_nat k - base ?pr) = unat (a - base ?pr) + k"
    "unat (a - base ?pr) + unat w \<le> length (backing ?pr)" if "k < unat w" for k
    using covers_holds [OF i(3) inv, of k] that uw by simp_all
  show "byte_at m' (a + of_nat k) = Some (ucast (drop_bit (8 * k) v))" if "k < unat w"
    using cov [OF that] at [of "a + of_nat k"] that by (simp add: byte_at_def le_store_nth)
  show "writable_at m (a + of_nat k)" if "k < unat w"
    using pr [OF cov(1) [OF that]] i(4) by (simp add: writable_at_def)
  show "byte_at m' x = byte_at m x" if out: "\<And>k. k < unat w \<Longrightarrow> x \<noteq> a + of_nat k"
  proof (cases "holds ?pr x")
    case False
    then show ?thesis using at [of x] by (simp add: byte_at_def)
  next
    case True
    let ?o = "unat (x - base ?pr)" and ?d = "unat (a - base ?pr)"
    have "?d + unat w \<le> length (backing ?pr)" using cov(3) [of 0] width_cases [OF i(1)] by simp
    moreover have "?o < length (backing ?pr)" using True inv by (simp add: holds_def region_inv_def word_less_nat_alt)
    moreover have "\<not> (?d \<le> ?o \<and> ?o < ?d + unat w)"
    proof
      assume k: "?d \<le> ?o \<and> ?o < ?d + unat w"
      then have "?o - ?d < unat w" by arith
      moreover have "of_nat (?o - ?d) = x - base ?pr - (a - base ?pr)" using k by (simp add: of_nat_diff)
      then have "x = a + of_nat (?o - ?d)" by simp
      ultimately show False using out by blast
    qed
    ultimately have "?bs ! ?o = backing ?pr ! ?o" using le_store_nth [of ?d 0 "unat w" "backing ?pr" ?o v] by auto
    then show ?thesis using at [of x] True pr [OF True] by (simp add: byte_at_def)
  qed
qed

section \<open>Loads\<close>

lemma load_region:
  assumes "memory_ok m" and "i < length (mem_reg m)" and "covers (mem_reg m ! i) a (ucast w)" and "le_width_ok w"
  shows "bpf_mem_load m a w = Inr (le_value (backing (mem_reg m ! i)) (unat (a - base (mem_reg m ! i))) (unat w))"
proof -
  have "acc (mem_reg m ! i) AND BPF_MEM_R = BPF_MEM_R" using assms(1,2) by (simp add: memory_ok_def region_inv_def)
  then have "bpf_mem_resolve m a (ucast w) BPF_MEM_R = Inr (i, unat (a - base (mem_reg m ! i)))"
    using resolve_covers [OF assms(1-3), of BPF_MEM_R] width_cases [OF assms(4)] by simp
  then show ?thesis using assms(4) by (simp add: bpf_mem_load_def)
qed

lemma store_load:
  assumes "memory_ok m" and "bpf_mem_store m a w v = (m', BPF_OK)"
  shows "bpf_mem_load m' a w = Inr (take_bit (8 * unat w) v)"
proof -
  obtain i where i: "le_width_ok w" "i < length (mem_reg m)" "covers (mem_reg m ! i) a (ucast w)"
      "m' = set_backing m i (le_store (backing (mem_reg m ! i)) (unat (a - base (mem_reg m ! i))) 0 (unat w) v)"
    using store_cases [OF assms] by metis
  have ok: "memory_ok m'" using store_bytes(1) [OF assms] .
  have inv: "region_inv (mem_reg m ! i)" using assms(1) i(2) by (simp add: memory_ok_def)
  have "unat (a - base (mem_reg m ! i)) + unat w \<le> length (backing (mem_reg m ! i))"
    using covers_holds(3) [OF i(3) inv, of 0] width_cases [OF i(1)] by simp
  moreover have "covers (mem_reg m' ! i) a (ucast w)" using i(2-4) by (simp add: set_backing_def covers_def)
  ultimately show ?thesis
    using load_region [OF ok _ _ i(1), of i a] i(2,4) width_cases [OF i(1)]
    by (simp add: set_backing_def le_value_store)
qed

text \<open>The address space of the machine is a guarded memory.\<close>

definition put_value :: "u64 \<times> u8 \<times> u64 \<Rightarrow> bpf_memory \<Rightarrow> bpf_memory" where
  "put_value q m = (case q of (a, w, v) \<Rightarrow> fst (bpf_mem_store m a w v))"

lemma put_value_cases:
  assumes "memory_ok m"
  obtains "put_value q m = m" | a w v where "q = (a, w, v)" "bpf_mem_store m a w v = (put_value q m, BPF_OK)"
proof -
  obtain a w v where q: "q = (a, w, v)" by (cases q)
  obtain m' e where st: "bpf_mem_store m a w v = (m', e)" by fastforce
  then have p: "put_value q m = m'" using q by (simp add: put_value_def)
  show ?thesis
    by (rule store_cases [OF assms st]) (use that p q st in auto)
qed

interpretation guest: guarded_memory memory_ok put_value byte_at writable_at
proof
  fix m :: bpf_memory and q a
  assume ok: "memory_ok m"
  show "memory_ok (put_value q m)"
    by (rule put_value_cases [OF ok, of q]) (use ok store_bytes(1) [OF ok] in auto)
  show "writable_at (put_value q m) a = writable_at m a"
    by (rule put_value_cases [OF ok, of q]) (use store_bytes(2) [OF ok] in auto)
  show "byte_at (put_value q m) a = None \<longleftrightarrow> byte_at m a = None"
    by (rule put_value_cases [OF ok, of q]) (use store_bytes(3) [OF ok] in auto)
  show "byte_at (put_value q m) a = byte_at m a" if "\<not> writable_at m a"
    by (rule put_value_cases [OF ok, of q]) (use store_bytes(5,6) [OF ok] that in metis)+
qed

section \<open>Creation\<close>

text \<open>What the caller provides: a buffer is at least as long as its length says.\<close>

definition buffers_ok :: "bpf_region_cfg list \<Rightarrow> bool" where
  "buffers_ok cfg \<longleftrightarrow> (\<forall>rc \<in> set cfg. case init rc of None \<Rightarrow> True | Some bs \<Rightarrow> unat (init_len rc) \<le> length bs)"

definition regs_ok :: "mem_region list \<Rightarrow> bool" where
  "regs_ok prs \<longleftrightarrow> (\<forall>pr \<in> set prs. region_inv pr)
     \<and> (\<forall>i < length prs. \<forall>j < length prs. \<forall>a. holds (prs ! i) a \<longrightarrow> holds (prs ! j) a \<longrightarrow> i = j)"

lemma base_ok_sum:
  assumes "base_ok b l"
  shows "unat b + unat l < 2 ^ 64"
proof -
  have "l < - b" using assms by (simp add: base_ok_def)
  then have "- b \<noteq> 0" "unat l < unat (- b)" by (auto simp: word_less_nat_alt)
  then have "l \<le> - b - 1" by (simp add: unat_dec word_le_nat_alt)
  moreover have "- b - 1 = - 1 - b" by (rule minus_diff_commute)
  ultimately have "l \<le> - 1 - b" by (rule ord_le_eq_trans)
  then have "unat l + unat b < 2 ^ LENGTH(64)" by (rule le_max_minus_iff [THEN iffD1])
  then show ?thesis by simp
qed

lemma holds_range:
  assumes "region_inv pr"
  shows "holds pr a \<longleftrightarrow> unat (base pr) \<le> unat a \<and> unat a < unat (base pr) + unat (len pr)"
proof (cases "base pr \<le> a")
  case True
  then show ?thesis by (auto simp: holds_def word_less_nat_alt word_le_nat_alt unat_sub)
qed (simp add: holds_def word_le_nat_alt)

lemma regions_apart:
  assumes "region_inv p" and "region_inv q" and "\<not> intervals_overlap (base p) (len p) (base q) (len q)" and "holds p a"
  shows "\<not> holds q a"
proof -
  have s: "unat (base p + len p) = unat (base p) + unat (len p)" "unat (base q + len q) = unat (base q) + unat (len q)"
    using assms(1,2) by (simp_all add: region_inv_def unat_add_no_wrap)
  show ?thesis
    using assms(3,4) s unfolding holds_range [OF assms(1)] holds_range [OF assms(2)]
    by (auto simp: intervals_overlap_def word_le_nat_alt word_less_nat_alt split: if_splits)
qed

lemma new_region:
  assumes "region_ok prs rc" and "case init rc of None \<Rightarrow> True | Some bs \<Rightarrow> unat (init_len rc) \<le> length bs" and "regs_ok prs"
  shows "regs_ok (prs @ [\<lparr>base = guest rc, len = rlen rc, acc = kind_acc (kind rc), backing = region_bytes junk rc\<rparr>])"
    (is "regs_ok (prs @ [?pr])")
proof -
  have "unat (init_len rc) = unat (ucast (init_len rc) :: u64)"
    by (rule bit_eqI) (auto simp: bit_simps dest: bit_imp_le_length)
  then have "unat (init_len rc) \<le> unat (rlen rc)" using assms(1) by (simp add: region_ok_def word_less_nat_alt)
  then have len: "length (region_bytes junk rc) = unat (rlen rc)"
    using assms(2) by (auto simp: region_bytes_def split: option.splits)
  have inv: "region_inv ?pr"
    using base_ok_sum assms(1) len by (auto simp: region_inv_def region_ok_def kind_acc_def Let_def)
  have ap: "\<not> (holds (prs ! i) a \<and> holds ?pr a)" if "i < length prs" for i a
  proof -
    have "prs ! i \<in> set prs" using that by simp
    moreover from this have "\<not> intervals_overlap (base ?pr) (len ?pr) (base (prs ! i)) (len (prs ! i))"
      using assms(1) by (simp add: region_ok_def list_all_iff)
    moreover have "region_inv (prs ! i)" using assms(3) that by (simp add: regs_ok_def)
    ultimately show ?thesis using regions_apart [OF inv] by blast
  qed
  show ?thesis unfolding regs_ok_def
  proof (intro conjI allI impI)
    show "\<forall>pr \<in> set (prs @ [?pr]). region_inv pr" using inv assms(3) by (simp add: regs_ok_def)
    fix i j a
    assume "i < length (prs @ [?pr])" "j < length (prs @ [?pr])" "holds ((prs @ [?pr]) ! i) a" "holds ((prs @ [?pr]) ! j) a"
    then show "i = j" using ap [of i a] ap [of j a] assms(3)
      by (auto simp: nth_append less_Suc_eq regs_ok_def split: if_splits)
  qed
qed

lemma fill_regions_ok:
  "fill_regions grants junk k cfg prs = Inr prs' \<Longrightarrow> buffers_ok cfg \<Longrightarrow> regs_ok prs \<Longrightarrow>
     regs_ok prs' \<and> length prs' = length prs + length cfg"
proof (induction cfg arbitrary: k prs)
  case (Cons rc cfg)
  have rc: "region_ok prs rc" using Cons.prems(1) by (auto split: if_splits)
  have b: "case init rc of None \<Rightarrow> True | Some bs \<Rightarrow> unat (init_len rc) \<le> length bs" "buffers_ok cfg"
    using Cons.prems(2) by (simp_all add: buffers_ok_def)
  from Cons.prems(1) show ?case
    using Cons.IH [OF _ b(2) new_region [OF rc b(1) Cons.prems(3), of "junk k"]] rc by (fastforce split: if_splits)
qed simp

lemma memory_create_ok:
  assumes "bpf_memory_create grants junk cfg n = Inr m" and "buffers_ok cfg"
  shows "memory_ok m"
proof -
  have n: "unat n \<le> 4" using assms(1) by (auto simp: bpf_memory_create_def word_less_nat_alt split: if_splits)
  obtain prs where f: "fill_regions grants junk 2 (take (unat n) cfg) [] = Inr prs" "m = \<lparr>mem_n = of_nat (length prs), mem_reg = prs\<rparr>"
    using assms(1) by (auto simp: bpf_memory_create_def split: if_splits sum.splits)
  have "buffers_ok (take (unat n) cfg)" using assms(2) by (auto simp: buffers_ok_def dest: in_set_takeD)
  from fill_regions_ok [OF f(1) this] have r: "regs_ok prs" "length prs \<le> 4" using n by (simp_all add: regs_ok_def)
  then have "unat (of_nat (length prs) :: u32) = length prs" by (intro unat_of_nat32) simp
  then show ?thesis using r(1) f(2) by (simp add: memory_ok_def regs_ok_def)
qed

section \<open>Which accesses succeed\<close>

text \<open>A region that holds every byte of an access covers it.\<close>

lemma holds_covers:
  assumes "region_inv pr" and "n \<noteq> 0" and h: "\<And>k. k < unat n \<Longrightarrow> holds pr (a + of_nat k)"
  shows "covers pr a n"
proof -
  let ?e = "unat (base pr) + unat (len pr)"
  have e: "?e < 2 ^ 64" using assms(1) by (simp add: region_inv_def)
  have in_r: "unat (base pr) \<le> unat (a + of_nat k) \<and> unat (a + of_nat k) < ?e" if "k < unat n" for k
    using h [OF that] holds_range [OF assms(1)] by blast
  have up: "k < unat n \<Longrightarrow> unat (a + of_nat k) = unat a + k" for k
  proof (induction k)
    case (Suc k)
    then have "unat (a + of_nat k) = unat a + k" by simp
    moreover have "unat (a + of_nat k) < 2 ^ 64 - 1" using in_r [of k] Suc.prems e by linarith
    moreover from this have "a + of_nat k \<noteq> - 1" by (auto simp: unsigned_minus_1_eq_mask mask_eq_exp_minus_1)
    ultimately show ?case using unat_inc [of "a + of_nat k"] by (simp add: algebra_simps)
  qed simp
  have n: "0 < unat n" using assms(2) by (simp add: unat_gt_0)
  then have last: "unat a + (unat n - 1) < ?e" using up [of "unat n - 1"] in_r [of "unat n - 1"] by simp
  have first: "unat (base pr) \<le> unat a" using in_r [OF n] by simp
  then have b: "base pr \<le> a" "unat (a - base pr) = unat a - unat (base pr)" by (simp_all add: word_le_nat_alt unat_sub)
  have l: "unat a - unat (base pr) + unat n \<le> unat (len pr)" using last first n by linarith
  then have le: "a - base pr \<le> len pr" using b by (simp add: word_le_nat_alt)
  then have "unat (len pr - (a - base pr)) = unat (len pr) - unat (a - base pr)" by (rule unat_sub)
  then have "n \<le> len pr - (a - base pr)" using l b by (simp add: word_le_nat_alt)
  with b le show ?thesis by (simp add: covers_def)
qed

lemma store_succeeds:
  assumes "memory_ok m" and "bpf_mem_store m a w v = (m', e)"
  shows "e = BPF_OK \<longleftrightarrow> le_width_ok w \<and> (\<exists>pr \<in> set (mem_reg m). acc pr AND BPF_MEM_W = BPF_MEM_W \<and> (\<forall>k < unat w. holds pr (a + of_nat k)))"
proof
  assume "e = BPF_OK"
  then obtain i where i: "le_width_ok w" "i < length (mem_reg m)" "covers (mem_reg m ! i) a (ucast w)"
      "acc (mem_reg m ! i) AND BPF_MEM_W = BPF_MEM_W"
    using store_cases [OF assms] by metis
  moreover have "region_inv (mem_reg m ! i)" using assms(1) i(2) by (simp add: memory_ok_def)
  ultimately show "le_width_ok w \<and> (\<exists>pr \<in> set (mem_reg m). acc pr AND BPF_MEM_W = BPF_MEM_W \<and> (\<forall>k < unat w. holds pr (a + of_nat k)))"
    using covers_holds(1) width_cases [of w] nth_mem by metis
next
  assume "le_width_ok w \<and> (\<exists>pr \<in> set (mem_reg m). acc pr AND BPF_MEM_W = BPF_MEM_W \<and> (\<forall>k < unat w. holds pr (a + of_nat k)))"
  then obtain i where i: "le_width_ok w" "i < length (mem_reg m)" "acc (mem_reg m ! i) AND BPF_MEM_W = BPF_MEM_W"
      "\<And>k. k < unat w \<Longrightarrow> holds (mem_reg m ! i) (a + of_nat k)"
    by (auto simp: in_set_conv_nth)
  have w: "(ucast w :: u64) \<noteq> 0" "unat (ucast w :: u64) = unat w" using width_cases [OF i(1)] by simp_all
  have "region_inv (mem_reg m ! i)" using assms(1) i(2) by (simp add: memory_ok_def)
  then have "covers (mem_reg m ! i) a (ucast w)" using w i(4) by (intro holds_covers) simp_all
  from resolve_covers [OF assms(1) i(2) this w(1), of BPF_MEM_W] assms(2) i(1,3) show "e = BPF_OK"
    by (simp add: bpf_mem_store_def)
qed

text \<open>C8: A store succeeds exactly if its width is 1, 2, 4 or 8 and one writable region holds all its bytes. If it
  fails nothing changes. If it succeeds, its bytes hold the value with the lowest byte first, every other byte of the
  address space is as it was, and a load of the same width at the same address yields the value again.\<close>

theorem mem_access:
  assumes "memory_ok m" and "bpf_mem_store m a w v = (m', e)"
  shows "(e = BPF_OK \<longleftrightarrow> (w = 1 \<or> w = 2 \<or> w = 4 \<or> w = 8) \<and>
        (\<exists>pr \<in> set (mem_reg m). acc pr AND BPF_MEM_W = BPF_MEM_W \<and> (\<forall>k < unat w. holds pr (a + of_nat k))))
     \<and> (e \<noteq> BPF_OK \<longrightarrow> m' = m)
     \<and> (e = BPF_OK \<longrightarrow>
          (\<forall>k < unat w. byte_at m' (a + of_nat k) = Some (ucast (drop_bit (8 * k) v)))
        \<and> (\<forall>x. (\<forall>k < unat w. x \<noteq> a + of_nat k) \<longrightarrow> byte_at m' x = byte_at m x)
        \<and> bpf_mem_load m' a w = Inr (take_bit (8 * unat w) v))"
proof (intro conjI impI)
  show "e = BPF_OK \<longleftrightarrow> (w = 1 \<or> w = 2 \<or> w = 4 \<or> w = 8) \<and>
      (\<exists>pr \<in> set (mem_reg m). acc pr AND BPF_MEM_W = BPF_MEM_W \<and> (\<forall>k < unat w. holds pr (a + of_nat k)))"
    using store_succeeds [OF assms] by (simp only: le_width_ok_def)
  show "m' = m" if "e \<noteq> BPF_OK" using store_cases [OF assms] that by metis
  assume "e = BPF_OK"
  then have st: "bpf_mem_store m a w v = (m', BPF_OK)" using assms(2) by simp
  show "\<forall>k < unat w. byte_at m' (a + of_nat k) = Some (ucast (drop_bit (8 * k) v))"
    "\<forall>x. (\<forall>k < unat w. x \<noteq> a + of_nat k) \<longrightarrow> byte_at m' x = byte_at m x"
    "bpf_mem_load m' a w = Inr (take_bit (8 * unat w) v)"
    using store_bytes(4,6) [OF assms(1) st] store_load [OF assms(1) st] by blast+
qed

text \<open>A constant region below a stack region; a store of two bytes to the stack.\<close>

definition two_regions :: "bpf_region_cfg list" where
  "two_regions =
     [\<lparr>kind = BPF_RCONST, guest = 0x100, rlen = 4, init = Some [1, 2, 3], init_len = 3\<rparr>,
      \<lparr>kind = BPF_RSTACK, guest = 0x104, rlen = 8, init = None, init_len = 0\<rparr>]"

definition two_region_memory :: bpf_memory where
  "two_region_memory =
     (case bpf_memory_create (\<lambda>k. True) (\<lambda>k i. 0) two_regions 2 of Inr m \<Rightarrow> m | Inl e \<Rightarrow> \<lparr>mem_n = 0, mem_reg = []\<rparr>)"

lemma two_region_memory_ok: "memory_ok two_region_memory"
proof (cases "bpf_memory_create (\<lambda>k. True) (\<lambda>k i. 0) two_regions 2")
  case (Inl e)
  then show ?thesis by (simp add: two_region_memory_def memory_ok_def)
next
  case (Inr m)
  moreover have "buffers_ok two_regions" by (simp add: buffers_ok_def two_regions_def)
  ultimately show ?thesis using memory_create_ok by (simp add: two_region_memory_def)
qed

theorem mem_access_witness:
  "\<exists>m'. bpf_mem_store two_region_memory 0x106 2 0x12345 = (m', BPF_OK) \<and> bpf_mem_load m' 0x106 2 = Inr 0x2345
     \<and> byte_at m' 0x107 = Some 0x23 \<and> byte_at m' 0x101 = Some 2"
proof -
  obtain m' e where st: "bpf_mem_store two_region_memory 0x106 2 0x12345 = (m', e)" by fastforce
  have "snd (bpf_mem_store two_region_memory 0x106 2 0x12345) = BPF_OK" by code_simp
  then have e: "e = BPF_OK" using st by simp
  have u: "unat (2 :: u8) = 2" "take_bit (8 * unat (2 :: u8)) (0x12345 :: u64) = 0x2345" by code_simp+
  have "byte_at two_region_memory 0x101 = Some 2" by code_simp
  moreover have "byte_at m' 0x101 = byte_at two_region_memory 0x101"
  proof -
    have "\<forall>x. (\<forall>k < unat (2 :: u8). x \<noteq> 0x106 + of_nat k) \<longrightarrow> byte_at m' x = byte_at two_region_memory x"
      using mem_access [OF two_region_memory_ok st] e by blast
    moreover have "(0x101 :: u64) \<noteq> 0x106 + of_nat k" if "k < unat (2 :: u8)" for k
    proof -
      have "k = 0 \<or> k = 1" using that u(1) by arith
      then show ?thesis by (elim disjE) simp_all
    qed
    ultimately show ?thesis by blast
  qed
  moreover have "byte_at m' (0x106 + of_nat 1) = Some (ucast (drop_bit (8 * 1) (0x12345 :: u64)))"
    using mem_access [OF two_region_memory_ok st] e u(1) by (metis one_less_numeral_iff semiring_norm(76))
  moreover have "bpf_mem_load m' 0x106 2 = Inr 0x2345"
    using mem_access [OF two_region_memory_ok st] e u(2) by metis
  moreover have "ucast (drop_bit (8 * 1) (0x12345 :: u64)) = (0x23 :: u8)" by code_simp
  ultimately show ?thesis using st e by simp
qed

end
