(* ===== verification/Bpf_Sandbox.thy ===== *)
theory Bpf_Sandbox
  imports Bpf_Memory
begin

unbundle bit_operations_syntax

text \<open>
  The machine: what no sequence of host calls and guest instructions can change, and how many
  instructions a budget allows.
\<close>

section \<open>The machine\<close>

text \<open>The invariant of a machine that runs program \<open>p\<close> with the frame pointer \<open>stk\<close>.\<close>

definition frames_len :: "bpf_vm \<Rightarrow> bool" where
  "frames_len vm \<longleftrightarrow> length (retp vm) = 64 \<and> length (s6 vm) = 64 \<and> length (s7 vm) = 64 \<and> length (s8 vm) = 64
     \<and> length (s9 vm) = 64 \<and> length (s10 vm) = 64"

definition vm_ok :: "bpf_program \<Rightarrow> u64 \<Rightarrow> bpf_vm \<Rightarrow> bool" where
  "vm_ok p stk vm \<longleftrightarrow> prog_ok p \<and> vm_prog vm = p \<and> vm_n vm = prog_n p
     \<and> length (r (regs vm)) = 11 \<and> r (regs vm) ! 10 = stk
     \<and> unat (pc vm) \<le> length (prog_ins p)
     \<and> (vm_state vm = BPF_VM_WAITING \<longrightarrow> unat (pc vm) < length (prog_ins p))
     \<and> unat (retn vm) \<le> 64 \<and> frames_len vm
     \<and> (\<forall>f < unat (retn vm). unat (retp vm ! f) \<le> length (prog_ins p) \<and> s10 vm ! f = stk)"

text \<open>One more guest write at most.\<close>

definition one_write :: "bpf_vm \<Rightarrow> bpf_vm \<Rightarrow> bool" where
  "one_write vm vm' \<longleftrightarrow> vm_mem vm' = vm_mem vm \<or> (\<exists>q. vm_mem vm' = put_value q (vm_mem vm))"

lemma vm_ok_pc: "vm_ok p stk vm \<Longrightarrow> unat (pc vm) < length (prog_ins p) \<Longrightarrow> unat (pc vm + 1) = Suc (unat (pc vm))"
  using unsigned_less [where ?'a = nat, of "prog_n p"] by (intro unat_inc) (auto simp: vm_ok_def prog_ok_def unsigned_minus_1_eq_mask mask_eq_exp_minus_1)

lemma vm_ok_advance: "vm_ok p stk vm \<Longrightarrow> unat (pc vm) < length (prog_ins p) \<Longrightarrow> vm_state vm \<noteq> BPF_VM_WAITING \<Longrightarrow> vm_ok p stk (step_advance vm)"
  using vm_ok_pc [of p stk vm] by (simp add: vm_ok_def step_advance_def frames_len_def)

lemma vm_ok_set_reg: "vm_ok p stk vm \<Longrightarrow> i \<noteq> 10 \<Longrightarrow> vm_ok p stk (vm\<lparr>regs := set_reg (regs vm) i v\<rparr>)"
proof -
  assume a: "vm_ok p stk vm" "i \<noteq> (10 :: u8)"
  have "unat i \<noteq> 10" using a(2) by (simp add: word_unat_eq_iff)
  then show ?thesis using a(1) by (simp add: vm_ok_def set_reg_def frames_len_def)
qed

lemma vm_ok_fields [simp]:
  "vm_ok p stk (vm\<lparr>vm_mem := m\<rparr>) = vm_ok p stk vm" "vm_ok p stk (vm\<lparr>budget := b\<rparr>) = vm_ok p stk vm"
  "vm_ok p stk (vm\<lparr>vm_caps := c\<rparr>) = vm_ok p stk vm" "vm_ok p stk (vm\<lparr>pending_import := h\<rparr>) = vm_ok p stk vm"
  "vm_ok p stk (vm\<lparr>req_type := ty, req_rights := rq, has_req := hb\<rparr>) = vm_ok p stk vm"
  by (simp_all add: vm_ok_def frames_len_def)

lemma vm_ok_state: "vm_ok p stk vm \<Longrightarrow> st \<noteq> BPF_VM_WAITING \<or> unat (pc vm) < length (prog_ins p) \<Longrightarrow> vm_ok p stk (vm\<lparr>vm_state := st\<rparr>)"
  by (auto simp: vm_ok_def frames_len_def)

lemma vm_ok_pc_set: "vm_ok p stk vm \<Longrightarrow> vm_state vm \<noteq> BPF_VM_WAITING \<Longrightarrow> unat k \<le> length (prog_ins p) \<Longrightarrow> vm_ok p stk (vm\<lparr>pc := k\<rparr>)"
  by (auto simp: vm_ok_def frames_len_def)

lemma alu_set_reg: "\<exists>v. bpf_alu junk rr ins = set_reg rr (dst_reg ins) v"
  by (auto simp: bpf_alu_def Let_def)

text \<open>The instruction at the counter, as the loader left it.\<close>

definition at_insn :: "bpf_program \<Rightarrow> u64 \<Rightarrow> bpf_vm \<Rightarrow> bpf_prog_insn \<Rightarrow> bool" where
  "at_insn p stk vm pi \<longleftrightarrow> vm_ok p stk vm \<and> unat (pc vm) < length (prog_ins p) \<and> vm_state vm \<noteq> BPF_VM_WAITING
     \<and> pi_in pi = prog_ins p ! unat (pc vm) \<and> pi_target pi = target (prog_rec p ! unat (pc vm))"

lemma at_insn_facts:
  assumes "at_insn p stk vm pi"
  shows "insn_ok (pi_in pi)" "fst (branch_delta (pi_in pi)) \<Longrightarrow> unat (pi_target pi) < length (prog_ins p)"
  using assms by (auto simp: at_insn_def vm_ok_def prog_ok_def)

definition keeps :: "bpf_program \<Rightarrow> u64 \<Rightarrow> bpf_vm \<Rightarrow> bpf_vm \<Rightarrow> bool" where
  "keeps p stk vm vm' \<longleftrightarrow> vm_ok p stk vm' \<and> one_write vm vm'"

lemma one_write_refl: "vm_mem vm' = vm_mem vm \<Longrightarrow> one_write vm vm'"
  by (simp add: one_write_def)

lemma keeps_reg:
  "at_insn p stk vm pi \<Longrightarrow> i \<noteq> 10 \<Longrightarrow> keeps p stk vm (step_advance (vm\<lparr>regs := set_reg (regs vm) i v\<rparr>))"
  unfolding keeps_def at_insn_def
  by (intro conjI vm_ok_advance vm_ok_set_reg) (auto simp: one_write_def step_advance_def)

lemma keeps_same: "at_insn p stk vm pi \<Longrightarrow> keeps p stk vm vm"
  by (simp add: keeps_def at_insn_def one_write_def)

text \<open>Each instruction keeps the invariant and writes at most once.\<close>

lemma unat10: "i \<le> (10 :: u8) \<Longrightarrow> unat i < 11"
  by (simp add: word_le_nat_alt)

lemma keeps_alu: "at_insn p stk vm pi \<Longrightarrow> keeps p stk vm (fst (exec_alu junk vm (pi_in pi)))"
  using alu_set_reg [of junk "regs vm" "pi_in pi"] keeps_reg keeps_same by (auto simp: exec_alu_def)

lemma keeps_ldimm: "at_insn p stk vm pi \<Longrightarrow> keeps p stk vm (fst (exec_ldimm vm (pi_in pi)))"
  using keeps_reg keeps_same by (auto simp: exec_ldimm_def)

lemma keeps_ldx: "at_insn p stk vm pi \<Longrightarrow> keeps p stk vm (fst (exec_ldx vm (pi_in pi)))"
  using keeps_reg keeps_same by (auto simp: exec_ldx_def split: sum.split)

lemma store_put: "bpf_mem_store m a w v = (m', e) \<Longrightarrow> m' = put_value (a, w, v) m"
  by (simp add: put_value_def)

lemma keeps_mem:
  assumes "at_insn p stk vm pi" and "bpf_mem_store (vm_mem vm) a w v = (m, e)"
  shows "keeps p stk vm (vm\<lparr>vm_mem := m\<rparr>)" "keeps p stk vm (step_advance (vm\<lparr>vm_mem := m\<rparr>))"
    "i \<noteq> 10 \<Longrightarrow> keeps p stk vm (step_advance (vm\<lparr>vm_mem := m, regs := set_reg (regs vm) i x\<rparr>))"
proof -
  have w: "one_write vm vm'" if "vm_mem vm' = m" for vm'
    using store_put [OF assms(2)] that by (auto simp: one_write_def)
  have ok: "vm_ok p stk (vm\<lparr>vm_mem := m\<rparr>)" using assms(1) by (simp add: at_insn_def)
  show "keeps p stk vm (vm\<lparr>vm_mem := m\<rparr>)" using ok w by (simp add: keeps_def)
  show "keeps p stk vm (step_advance (vm\<lparr>vm_mem := m\<rparr>))"
    using vm_ok_advance [OF ok] assms(1) w by (simp add: keeps_def at_insn_def step_advance_def)
  show "keeps p stk vm (step_advance (vm\<lparr>vm_mem := m, regs := set_reg (regs vm) i x\<rparr>))" if "i \<noteq> 10"
    using vm_ok_advance [OF vm_ok_set_reg [OF ok that]] assms(1) w by (simp add: keeps_def at_insn_def step_advance_def)
qed

lemma keeps_store: "at_insn p stk vm pi \<Longrightarrow> keeps p stk vm (fst (exec_store vm ins v))"
  using keeps_mem by (auto simp: exec_store_def split: prod.split)

lemma keeps_atomic:
  assumes "at_insn p stk vm pi" and "cls (pi_in pi) = BPF_CLS_STX" and "mode (pi_in pi) = BPF_MODE_ATOMIC"
  shows "keeps p stk vm (fst (exec_atomic vm (pi_in pi)))"
proof -
  have "\<not> writes_r10 (pi_in pi)" using at_insn_facts(1) [OF assms(1)] by (simp add: insn_ok_def)
  then have src: "src_reg (pi_in pi) \<noteq> 10" if "atomic_fetch (pi_in pi)" "atomic_op (pi_in pi) \<noteq> 0xF0"
    using assms(2,3) that by (auto simp: writes_r10_def atomic_writes_src_def)
  have z: "(0 :: u8) \<noteq> 10" by simp
  show ?thesis
    unfolding exec_atomic_def Let_def
    using keeps_same [OF assms(1)] keeps_mem [OF assms(1)] src z
    by (auto split: sum.split prod.split)
qed

lemma keeps_pc:
  "at_insn p stk vm pi \<Longrightarrow> unat k \<le> length (prog_ins p) \<Longrightarrow> keeps p stk vm (vm\<lparr>pc := k\<rparr>)"
  "at_insn p stk vm pi \<Longrightarrow> keeps p stk vm (step_advance vm)"
  using vm_ok_pc_set [of p stk vm k] vm_ok_advance [of p stk vm]
  by (auto simp: keeps_def at_insn_def one_write_def step_advance_def)

lemma keeps_exit:
  assumes "at_insn p stk vm pi"
  shows "keeps p stk vm (fst (exec_exit vm))"
proof (cases "0 < retn vm")
  case False
  then show ?thesis
    using assms vm_ok_state [of p stk vm BPF_VM_RETURNED] by (simp add: exec_exit_def keeps_def at_insn_def one_write_def)
next
  case True
  then have "retn vm \<noteq> 0" by auto
  then have f: "unat (retn vm - 1) = unat (retn vm) - 1" "0 < unat (retn vm)"
    by (simp_all add: unat_dec unat_gt_0)
  then have "unat (retn vm - 1) < unat (retn vm)" by simp
  then show ?thesis using assms True f
    by (auto simp: exec_exit_def Let_def keeps_def at_insn_def vm_ok_def frames_len_def one_write_def)
qed

lemma keeps_call:
  assumes "at_insn p stk vm pi" and "unat k \<le> length (prog_ins p)"
  shows "keeps p stk vm (fst (exec_call vm k))"
proof (cases "BPF_VM_CALL_DEPTH \<le> retn vm")
  case True
  then show ?thesis using keeps_same [OF assms(1)] by (simp add: exec_call_def)
next
  case False
  then have lt: "unat (retn vm) < 64" by (simp add: word_le_nat_alt)
  then have f: "unat (retn vm + 1) = Suc (unat (retn vm))" by (intro unat_inc) (auto simp: unsigned_minus_1_eq_mask mask_eq_exp_minus_1)
  have pcs: "unat (pc vm + 1) = Suc (unat (pc vm))" using vm_ok_pc [of p stk vm] assms(1) by (simp add: at_insn_def)
  have fr: "unat ((retp vm)[unat (retn vm) := pc vm + 1] ! i) \<le> length (prog_ins p) \<and> (s10 vm)[unat (retn vm) := stk] ! i = stk"
    if "i < Suc (unat (retn vm))" for i
    using assms(1) pcs that lt by (cases "i = unat (retn vm)") (auto simp: at_insn_def vm_ok_def frames_len_def)
  show ?thesis using assms False lt f fr
    by (simp add: exec_call_def Let_def keeps_def at_insn_def vm_ok_def frames_len_def one_write_def)
qed

lemma keeps_helper: "at_insn p stk vm pi \<Longrightarrow> keeps p stk vm (fst (exec_helper vm h))"
  using keeps_same [of p stk vm pi] vm_ok_state [of p stk "vm\<lparr>pending_import := h\<rparr>" BPF_VM_WAITING]
  by (simp add: exec_helper_def keeps_def at_insn_def one_write_def)

lemma keeps_jmp:
  assumes "at_insn p stk vm pi" and "cls (pi_in pi) = BPF_CLS_JMP \<and> \<not> is32 \<or> cls (pi_in pi) = BPF_CLS_JMP32 \<and> is32"
  shows "keeps p stk vm (fst (exec_jmp vm (pi_in pi) pi is32))"
proof -
  let ?i = "pi_in pi"
  have tgt: "unat (pi_target pi) \<le> length (prog_ins p)" if "code ?i \<noteq> BPF_JMP_EXIT" "code ?i = BPF_JMP_CALL \<Longrightarrow> src_reg ?i = 1"
  proof -
    have "fst (branch_delta ?i)" using assms(2) that by (auto simp: branch_delta_def is_local_call_def)
    then show ?thesis using at_insn_facts(2) [OF assms(1)] by simp
  qed
  show ?thesis
    using keeps_pc(1) [OF assms(1) tgt] keeps_pc(2) [OF assms(1)] keeps_exit [OF assms(1)] keeps_helper [OF assms(1)]
      keeps_call [OF assms(1) tgt]
    by (auto simp: exec_jmp_def Let_def)
qed

lemma keeps_insn: "at_insn p stk vm pi \<Longrightarrow> keeps p stk vm (fst (exec_insn junk vm pi))"
  using keeps_alu keeps_ldimm keeps_ldx keeps_store keeps_atomic keeps_jmp vm_ok_state [of p stk vm BPF_VM_TRAPPED]
  by (auto simp: exec_insn_def Let_def) (auto simp: keeps_def at_insn_def one_write_def)

lemma keeps_step:
  assumes "vm_ok p stk vm"
  shows "keeps p stk vm (fst (bpf_vm_step junk vm))"
proof -
  have same: "keeps p stk vm vm" "keeps p stk vm (vm\<lparr>vm_state := BPF_VM_TRAPPED\<rparr>)" "keeps p stk vm (vm\<lparr>vm_state := BPF_VM_EXHAUSTED\<rparr>)"
    using assms vm_ok_state [OF assms] by (simp_all add: keeps_def one_write_def)
  have "keeps p stk vm (fst (exec_insn junk vm' pi))"
    if "vm_state vm \<noteq> BPF_VM_WAITING" "\<not> vm_n vm \<le> pc vm" "vm' = vm\<lparr>budget := budget vm - 1\<rparr>" "get_insn vm' (pc vm') = Inr pi" for vm' pi
  proof -
    have "unat (pc vm) < length (prog_ins p)" using that(2) assms by (simp add: vm_ok_def prog_ok_def word_le_nat_alt)
    then have "at_insn p stk vm' pi" using that assms
      by (auto simp: at_insn_def get_insn_def bpf_program_get_def vm_ok_def frames_len_def Let_def split: if_splits)
    from keeps_insn [OF this] show ?thesis using that(3) by (simp add: keeps_def one_write_def)
  qed
  moreover have "get_insn vm' (pc vm') = Inl e \<Longrightarrow> vm' = vm\<lparr>budget := budget vm - 1\<rparr> \<Longrightarrow> keeps p stk vm (vm'\<lparr>vm_state := BPF_VM_TRAPPED\<rparr>)" for vm' e
    using vm_ok_state [of p stk vm' BPF_VM_TRAPPED] assms by (simp add: keeps_def one_write_def)
  ultimately show ?thesis using same by (auto simp: bpf_vm_step_def Let_def split: sum.split)
qed

section \<open>What the host does\<close>

datatype host_op =
    Op_step u64
  | Op_complete u64
  | Op_budget u64
  | Op_reg_cap u32 u32 nat
  | Op_revoke u32
  | Op_gate u32 u32

fun host_do :: "host_op \<Rightarrow> bpf_vm \<Rightarrow> bpf_vm" where
  "host_do (Op_step junk) vm = fst (bpf_vm_step junk vm)"
| "host_do (Op_complete st) vm = fst (bpf_vm_complete vm st)"
| "host_do (Op_budget b) vm = bpf_vm_set_budget vm b"
| "host_do (Op_reg_cap ty rights host) vm = fst (bpf_vm_reg_cap vm ty rights host)"
| "host_do (Op_revoke h) vm = fst (bpf_vm_revoke_cap vm h)"
| "host_do (Op_gate ty rights) vm = fst (bpf_vm_set_import_gate vm ty rights)"

inductive vm_reach :: "bpf_vm \<Rightarrow> bpf_vm \<Rightarrow> bool" for vm0 where
  start: "vm_reach vm0 vm0"
| more: "vm_reach vm0 vm \<Longrightarrow> vm_reach vm0 (host_do hop vm)"

lemma keeps_complete:
  assumes "vm_ok p stk vm"
  shows "keeps p stk vm (fst (bpf_vm_complete vm st))"
proof (cases "vm_state vm = BPF_VM_WAITING")
  case False
  then show ?thesis using assms by (simp add: bpf_vm_complete_def keeps_def one_write_def)
next
  case True
  then have "unat (pc vm) < length (prog_ins p)" using assms by (simp add: vm_ok_def)
  then show ?thesis using assms True vm_ok_pc [of p stk vm]
    by (simp add: bpf_vm_complete_def keeps_def one_write_def vm_ok_def frames_len_def step_advance_def)
qed

lemma keeps_host: "vm_ok p stk vm \<Longrightarrow> keeps p stk vm (host_do hop vm)"
  using keeps_step keeps_complete
  by (cases hop) (auto simp: keeps_def one_write_def bpf_vm_set_budget_def bpf_vm_reg_cap_def bpf_vm_revoke_cap_def
      bpf_vm_set_import_gate_def split: prod.split)

lemma reach_keeps:
  assumes "vm_reach vm0 vm" and "vm_ok p stk vm0"
  shows "vm_ok p stk vm \<and> (\<exists>qs. vm_mem vm = fold put_value qs (vm_mem vm0))"
  using assms
proof induction
  case start
  then show ?case by (intro conjI exI [of _ "[]"]) simp_all
next
  case (more vm hop)
  then obtain qs where qs: "vm_mem vm = fold put_value qs (vm_mem vm0)" "vm_ok p stk vm" by blast
  have k: "keeps p stk vm (host_do hop vm)" using keeps_host [OF qs(2)] .
  then have "vm_mem (host_do hop vm) = vm_mem vm \<or> (\<exists>q. vm_mem (host_do hop vm) = put_value q (vm_mem vm))"
    by (simp add: keeps_def one_write_def)
  then have "\<exists>qs. vm_mem (host_do hop vm) = fold put_value qs (vm_mem vm0)"
  proof
    assume "vm_mem (host_do hop vm) = vm_mem vm"
    then show ?thesis using qs(1) by (intro exI [of _ qs]) simp
  next
    assume "\<exists>q. vm_mem (host_do hop vm) = put_value q (vm_mem vm)"
    then obtain q where "vm_mem (host_do hop vm) = put_value q (vm_mem vm)" by blast
    then show ?thesis using qs(1) by (intro exI [of _ "qs @ [q]"]) simp
  qed
  then show ?case using k by (simp add: keeps_def)
qed

text \<open>The arrays of the saved frames have the declared length.\<close>

definition frames_64 :: "saved_frames \<Rightarrow> bool" where
  "frames_64 fs \<longleftrightarrow> length (f_retp fs) = 64 \<and> length (f_s6 fs) = 64 \<and> length (f_s7 fs) = 64 \<and> length (f_s8 fs) = 64
     \<and> length (f_s9 fs) = 64 \<and> length (f_s10 fs) = 64"

lemma create_ok:
  assumes "bpf_vm_create grants junk frames p cfg ncfg bud = Inr vm" and "prog_ok p" and "buffers_ok cfg" and "frames_64 frames"
  shows "vm_ok p (r (regs vm) ! 10) vm" "memory_ok (vm_mem vm)" "vm_state vm = BPF_VM_RUNNING" "budget vm = bud"
proof -
  obtain m where m: "bpf_memory_create grants junk cfg ncfg = Inr m" "vm_mem vm = m"
    using assms(1) by (auto simp: bpf_vm_create_def Let_def split: sum.splits if_splits)
  show "memory_ok (vm_mem vm)" using memory_create_ok [OF m(1) assms(3)] m(2) by simp
  show "vm_ok p (r (regs vm) ! 10) vm" "vm_state vm = BPF_VM_RUNNING" "budget vm = bud"
    using assms(1,2,4)
    by (auto simp: bpf_vm_create_def Let_def vm_ok_def frames_len_def frames_64_def bpf_program_count_def split: sum.splits if_splits)
qed

text \<open>C5: Whatever the host calls and however long the guest runs, a machine created for a loaded program stays in
  its sandbox: the frame pointer is the one it was created with; the counter and every saved return point stay
  within the program; at most 64 calls are open; no guest address becomes mapped, unmapped, writable or
  unwritable; and every byte outside the writable regions keeps its value.\<close>

theorem vm_sandboxed:
  assumes "bpf_program_load grants raw bytes_n prof = Inr p" and "length raw = unat bytes_n"
    and "bpf_vm_create grants' junk frames p cfg ncfg bud = Inr vm0" and "buffers_ok cfg" and "frames_64 frames"
    and "vm_reach vm0 vm"
  shows "bpf_vm_reg vm 10 = bpf_vm_reg vm0 10 \<and> vm_prog vm = p
     \<and> unat (pc vm) \<le> length (prog_ins p) \<and> length (r (regs vm)) = 11
     \<and> unat (retn vm) \<le> 64 \<and> (\<forall>f < unat (retn vm). unat (retp vm ! f) \<le> length (prog_ins p))
     \<and> (\<forall>a. writable_at (vm_mem vm) a = writable_at (vm_mem vm0) a
          \<and> (byte_at (vm_mem vm) a = None \<longleftrightarrow> byte_at (vm_mem vm0) a = None)
          \<and> (\<not> writable_at (vm_mem vm0) a \<longrightarrow> byte_at (vm_mem vm) a = byte_at (vm_mem vm0) a))"
proof -
  note c = create_ok [OF assms(3) program_load_ok(1) [OF assms(1,2)] assms(4,5)]
  obtain qs where qs: "vm_ok p (r (regs vm0) ! 10) vm" "vm_mem vm = fold put_value qs (vm_mem vm0)"
    using reach_keeps [OF assms(6) c(1)] by blast
  then show ?thesis
    using guest.puts_layout [OF c(2)] guest.puts_guarded [OF c(2)] by (simp add: vm_ok_def bpf_vm_reg_def)
qed

text \<open>A program that stores a byte to its stack and returns, in an address space with a constant region below.\<close>

definition poke_bytes :: bytes where
  "poke_bytes = [0x72, 0x0A, 1, 0, 7, 0, 0, 0,  0x95, 0, 0, 0, 0, 0, 0, 0]"

definition zero_frames :: saved_frames where
  "zero_frames = \<lparr>f_retp = replicate 64 0, f_s6 = replicate 64 0, f_s7 = replicate 64 0, f_s8 = replicate 64 0,
     f_s9 = replicate 64 0, f_s10 = replicate 64 0\<rparr>"

definition boot :: "bytes \<Rightarrow> u32 \<Rightarrow> u64 \<Rightarrow> (bpf_program \<times> bpf_vm) option" where
  "boot raw bytes_n bud =
     (case bpf_program_load (\<lambda>k. True) raw bytes_n None of
        Inl e \<Rightarrow> None
      | Inr p \<Rightarrow>
        (case bpf_vm_create (\<lambda>k. True) (\<lambda>k i. 0) zero_frames p two_regions 2 bud of
           Inl e \<Rightarrow> None
         | Inr vm \<Rightarrow> Some (p, vm)))"

lemma boot_Some:
  "boot raw bytes_n bud = Some (p, vm) \<longleftrightarrow>
     bpf_program_load (\<lambda>k. True) raw bytes_n None = Inr p \<and>
     bpf_vm_create (\<lambda>k. True) (\<lambda>k i. 0) zero_frames p two_regions 2 bud = Inr vm"
  by (auto simp: boot_def split: sum.splits)

lemma boot_inputs: "buffers_ok two_regions" "frames_64 zero_frames"
  by (simp_all add: buffers_ok_def two_regions_def frames_64_def zero_frames_def)

theorem vm_sandboxed_witness:
  "\<exists>p vm0 vm. boot poke_bytes 16 5 = Some (p, vm0) \<and> vm_reach vm0 vm \<and> bpf_vm_get_state vm = BPF_VM_RETURNED
     \<and> byte_at (vm_mem vm) 0x105 = Some 7 \<and> byte_at (vm_mem vm) 0x102 = Some 3"
proof -
  have ev: "case boot poke_bytes 16 5 of None \<Rightarrow> False
    | Some (p, vm0) \<Rightarrow> let vm = host_do (Op_step 0) (host_do (Op_step 0) vm0) in
        bpf_vm_get_state vm = BPF_VM_RETURNED \<and> byte_at (vm_mem vm) 0x105 = Some 7
        \<and> byte_at (vm_mem vm0) 0x102 = Some 3 \<and> \<not> writable_at (vm_mem vm0) 0x102"
    by code_simp
  then obtain p vm0 where b: "boot poke_bytes 16 5 = Some (p, vm0)" by (cases "boot poke_bytes 16 5") auto
  let ?vm = "host_do (Op_step 0) (host_do (Op_step 0) vm0)"
  have e: "bpf_vm_get_state ?vm = BPF_VM_RETURNED" "byte_at (vm_mem ?vm) 0x105 = Some 7"
    "byte_at (vm_mem vm0) 0x102 = Some 3" "\<not> writable_at (vm_mem vm0) 0x102"
    using ev b by (simp_all add: Let_def)
  have reach: "vm_reach vm0 ?vm" by (intro vm_reach.intros)
  have "length poke_bytes = unat (16 :: u32)" by (simp add: poke_bytes_def)
  from vm_sandboxed [OF _ this _ boot_inputs reach] b e(3,4) have "byte_at (vm_mem ?vm) 0x102 = Some 3"
    unfolding boot_Some by metis
  with b reach e(1,2) show ?thesis by blast
qed

section \<open>Budgets and traps\<close>

fun vm_run :: "(nat \<Rightarrow> u64) \<Rightarrow> nat \<Rightarrow> bpf_vm \<Rightarrow> bpf_vm" where
  "vm_run junk 0 vm = vm"
| "vm_run junk (Suc k) vm = fst (bpf_vm_step (junk k) (vm_run junk k vm))"

lemma exec_budgets:
  "budget (fst (exec_alu junk vm ins)) = budget vm" "budget (fst (exec_ldimm vm ins)) = budget vm"
  "budget (fst (exec_ldx vm ins)) = budget vm" "budget (fst (exec_store vm ins v)) = budget vm"
  "budget (fst (exec_exit vm)) = budget vm" "budget (fst (exec_call vm k)) = budget vm" "budget (fst (exec_helper vm im)) = budget vm"
  by (simp_all add: exec_alu_def exec_ldimm_def exec_ldx_def exec_store_def exec_exit_def exec_call_def exec_helper_def
      step_advance_def Let_def split: sum.split prod.split)

lemma exec_atomic_budget: "budget (fst (exec_atomic vm ins)) = budget vm"
  unfolding exec_atomic_def Let_def by (simp add: step_advance_def split: sum.split prod.split)

lemma exec_jmp_budget: "budget (fst (exec_jmp vm ins pi is32)) = budget vm"
  by (simp add: exec_jmp_def Let_def exec_budgets step_advance_def)

lemma exec_budget: "budget (fst (exec_insn junk vm pi)) = budget vm"
  by (simp add: exec_insn_def Let_def exec_budgets exec_atomic_budget exec_jmp_budget)

lemma step_running:
  assumes "snd (bpf_vm_step junk vm) = BPF_VM_RUNNING"
  shows "budget vm \<noteq> 0" "budget (fst (bpf_vm_step junk vm)) = budget vm - 1"
  using assms exec_budget by (auto simp: bpf_vm_step_def Let_def split: if_splits sum.splits)

text \<open>C27: A budget bounds the guest: of the steps from any state, one of the first \<open>budget + 1\<close> does not report
  that the machine runs on, and until then every step costs one of the budget.\<close>

theorem vm_budget:
  "\<exists>k \<le> unat (budget vm). snd (bpf_vm_step (junk k) (vm_run junk k vm)) \<noteq> BPF_VM_RUNNING
     \<and> (\<forall>i \<le> k. unat (budget (vm_run junk i vm)) = unat (budget vm) - i)"
proof -
  let ?stops = "\<lambda>k. snd (bpf_vm_step (junk k) (vm_run junk k vm)) \<noteq> BPF_VM_RUNNING"
  have cost: "(\<forall>i < k. \<not> ?stops i) \<Longrightarrow> k \<le> unat (budget vm) \<and> unat (budget (vm_run junk k vm)) = unat (budget vm) - k" for k
  proof (induction k)
    case (Suc k)
    then have ih: "unat (budget (vm_run junk k vm)) = unat (budget vm) - k" and run: "\<not> ?stops k" by simp_all
    note st = step_running [of "junk k" "vm_run junk k vm"] run
    then have "budget (vm_run junk k vm) \<noteq> 0" "budget (vm_run junk (Suc k) vm) = budget (vm_run junk k vm) - 1" by simp_all
    then show ?case using ih Suc by (auto simp: unat_dec unat_gt_0 [symmetric])
  qed simp
  have "\<exists>k. ?stops k"
  proof (rule ccontr)
    assume "\<nexists>k. ?stops k"
    then have "\<forall>i < Suc (unat (budget vm)). \<not> ?stops i" by blast
    from cost [OF this] show False by simp
  qed
  then obtain k where k: "?stops k" "\<forall>i < k. \<not> ?stops i" unfolding exists_least_iff [of ?stops] by blast
  then have "\<forall>i \<le> k. i \<le> unat (budget vm) \<and> unat (budget (vm_run junk i vm)) = unat (budget vm) - i" using cost by simp
  with k(1) show ?thesis by blast
qed

text \<open>A program that jumps to itself.\<close>

definition loop_bytes :: bytes where
  "loop_bytes = [0x05, 0, 0xFF, 0xFF, 0, 0, 0, 0]"

theorem vm_budget_witness:
  "\<exists>p vm k. boot loop_bytes 8 3 = Some (p, vm) \<and> k \<le> 3 \<and> snd (bpf_vm_step 0 (vm_run (\<lambda>k. 0) k vm)) \<noteq> BPF_VM_RUNNING
     \<and> unat (budget (vm_run (\<lambda>k. 0) k vm)) = 3 - k"
proof -
  have ev: "case boot loop_bytes 8 3 of None \<Rightarrow> False | Some (p, vm) \<Rightarrow> unat (budget vm) = 3" by code_simp
  then obtain p vm where b: "boot loop_bytes 8 3 = Some (p, vm)" by (cases "boot loop_bytes 8 3") auto
  then have "unat (budget vm) = 3" using ev by simp
  with b vm_budget [of vm "\<lambda>k. 0"] show ?thesis by (metis order_refl)
qed

text \<open>C28: A denied load is not terminal: the step reports a trap and leaves all but the budget as it was, the machine still
  says it runs, and a caller that goes on sees the same trap for as long as the budget lasts, and then exhaustion.\<close>

theorem trap_repeats:
  assumes "vm_state vm = BPF_VM_RUNNING" and "get_insn vm (pc vm) = Inr pi" and "cls (pi_in pi) = BPF_CLS_LDX"
    and "bpf_mem_load (vm_mem vm) (eff_addr (regs vm) (src_reg (pi_in pi)) (offset (pi_in pi)))
           (ucast (size_bytes (isize (pi_in pi)))) = Inl e"
    and "pc vm < vm_n vm"
  shows "(\<forall>k < unat (budget vm). snd (bpf_vm_step (junk k) (vm_run junk k vm)) = BPF_VM_TRAPPED)
     \<and> (\<forall>k \<le> unat (budget vm). bpf_vm_get_state (vm_run junk k vm) = BPF_VM_RUNNING)
     \<and> snd (bpf_vm_step (junk (unat (budget vm))) (vm_run junk (unat (budget vm)) vm)) = BPF_VM_EXHAUSTED"
proof -
  have step: "bpf_vm_step j (vm\<lparr>budget := b\<rparr>) = (vm\<lparr>budget := b - 1\<rparr>, BPF_VM_TRAPPED)" if "b \<noteq> 0" for j b
    using assms that by (simp add: bpf_vm_step_def get_insn_def exec_insn_def exec_ldx_def Let_def not_le)
  have run: "k \<le> unat (budget vm) \<Longrightarrow> \<exists>b. vm_run junk k vm = vm\<lparr>budget := b\<rparr> \<and> unat b = unat (budget vm) - k" for k
  proof (induction k)
    case 0
    then show ?case by (intro exI [of _ "budget vm"]) simp
  next
    case (Suc k)
    then obtain b where b: "vm_run junk k vm = vm\<lparr>budget := b\<rparr>" "unat b = unat (budget vm) - k" by auto
    then have "b \<noteq> 0" using Suc.prems by (auto simp: unat_eq_0)
    then show ?case using step [of b "junk k"] b by (intro exI [of _ "b - 1"]) (simp add: unat_dec)
  qed
  have "snd (bpf_vm_step (junk k) (vm_run junk k vm)) = BPF_VM_TRAPPED" if lt: "k < unat (budget vm)" for k
  proof -
    obtain b where b: "vm_run junk k vm = vm\<lparr>budget := b\<rparr>" "unat b = unat (budget vm) - k" using run [of k] lt by auto
    then have "b \<noteq> 0" using lt by (auto simp: unat_eq_0)
    then show ?thesis using step b(1) by simp
  qed
  moreover have "bpf_vm_get_state (vm_run junk k vm) = BPF_VM_RUNNING" if "k \<le> unat (budget vm)" for k
    using run [OF that] assms(1) by (auto simp: bpf_vm_get_state_def)
  moreover have "snd (bpf_vm_step (junk (unat (budget vm))) (vm_run junk (unat (budget vm)) vm)) = BPF_VM_EXHAUSTED"
  proof -
    obtain b where "vm_run junk (unat (budget vm)) vm = vm\<lparr>budget := b\<rparr>" "unat b = 0" using run [of "unat (budget vm)"] by auto
    then have "vm_run junk (unat (budget vm)) vm = vm\<lparr>budget := 0\<rparr>" by (simp add: unat_eq_0)
    then show ?thesis using assms(1,5) by (simp add: bpf_vm_step_def not_le)
  qed
  ultimately show ?thesis by blast
qed

text \<open>A program that reads below its address space.\<close>

definition peek_bytes :: bytes where
  "peek_bytes = [0x79, 0x10, 0, 0, 0, 0, 0, 0,  0x95, 0, 0, 0, 0, 0, 0, 0]"

theorem trap_repeats_witness:
  "\<exists>p vm. boot peek_bytes 16 2 = Some (p, vm) \<and> snd (bpf_vm_step 0 (vm_run (\<lambda>k. 0) 1 vm)) = BPF_VM_TRAPPED
     \<and> bpf_vm_get_state (vm_run (\<lambda>k. 0) 2 vm) = BPF_VM_RUNNING \<and> snd (bpf_vm_step 0 (vm_run (\<lambda>k. 0) 2 vm)) = BPF_VM_EXHAUSTED"
proof -
  have ev: "case boot peek_bytes 16 2 of None \<Rightarrow> False
    | Some (p, vm) \<Rightarrow> vm_state vm = BPF_VM_RUNNING \<and> pc vm < vm_n vm \<and> unat (budget vm) = 2 \<and>
        (case get_insn vm (pc vm) of Inl e \<Rightarrow> False | Inr pi \<Rightarrow> cls (pi_in pi) = BPF_CLS_LDX \<and>
          bpf_mem_load (vm_mem vm) (eff_addr (regs vm) (src_reg (pi_in pi)) (offset (pi_in pi)))
            (ucast (size_bytes (isize (pi_in pi)))) = Inl BPF_EADDR)"
    by code_simp
  then obtain p vm where b: "boot peek_bytes 16 2 = Some (p, vm)" by (cases "boot peek_bytes 16 2") auto
  with ev have e: "vm_state vm = BPF_VM_RUNNING" "pc vm < vm_n vm" "unat (budget vm) = 2"
    "case get_insn vm (pc vm) of Inl e \<Rightarrow> False | Inr pi \<Rightarrow> cls (pi_in pi) = BPF_CLS_LDX \<and>
          bpf_mem_load (vm_mem vm) (eff_addr (regs vm) (src_reg (pi_in pi)) (offset (pi_in pi)))
            (ucast (size_bytes (isize (pi_in pi)))) = Inl BPF_EADDR"
    by (simp_all only: option.case prod.case)
  then obtain pi where pi: "get_insn vm (pc vm) = Inr pi" "cls (pi_in pi) = BPF_CLS_LDX"
    "bpf_mem_load (vm_mem vm) (eff_addr (regs vm) (src_reg (pi_in pi)) (offset (pi_in pi))) (ucast (size_bytes (isize (pi_in pi)))) = Inl BPF_EADDR"
    by (cases "get_insn vm (pc vm)") auto
  note tr = trap_repeats [OF e(1) pi e(2), of "\<lambda>k. 0", unfolded e(3)]
  have "snd (bpf_vm_step 0 (vm_run (\<lambda>k. 0) 1 vm)) = BPF_VM_TRAPPED" by (rule conjunct1 [OF tr, rule_format]) simp
  moreover have "bpf_vm_get_state (vm_run (\<lambda>k. 0) 2 vm) = BPF_VM_RUNNING"
    by (rule conjunct1 [OF conjunct2 [OF tr], rule_format]) simp
  ultimately show ?thesis using b conjunct2 [OF conjunct2 [OF tr]] by blast
qed

end
