(* ===== verification/Hm_Type.thy ===== *)
theory Hm_Type
  imports Prelude "HOL-Library.Monad_Syntax"
begin

text \<open>
  \<open>libhm89\<close>, types and unification (\<open>hm_ctx.c\<close>, \<open>hm_type.c\<close>, \<open>hm_error.c\<close>, \<open>hm_unify.c\<close>).

  The arena of a context only grows, so a pointer to a type node is the position of the node in the
  list of all nodes, and the links that unification and path compression set are updates of that list.
  \<open>grants k\<close> tells whether allocation request \<open>k\<close> of the context succeeds. A recursion of the code that a
  cyclic graph would send astray takes the depth of calls it may use as its first argument and is \<open>None\<close>
  when it would go deeper; following a chain of links is \<open>None\<close> when the chain does not end.
\<close>

section \<open>Data\<close>

datatype hm_status = HM_OK | HM_ERROR_NOMEM | HM_ERROR_MISMATCH | HM_ERROR_OCCURS | HM_ERROR_UNBOUND | HM_ERROR_INVALID
  | HM_ERROR_INTERNAL

datatype hm_type_kind = HM_TYPE_VAR | HM_TYPE_CON

datatype hm_error_kind = HM_ERR_NONE | HM_ERR_NOMEM | HM_ERR_MISMATCH | HM_ERR_OCCURS | HM_ERR_UNBOUND | HM_ERR_INVALID
  | HM_ERR_INTERNAL

type_synonym tptr = nat

datatype hm_type =
    TVar (var_id: ulong) (var_link: "tptr option")
  | TCon (con_name: string) (con_args: "tptr list")

type_synonym hm_nodes = "hm_type list"

record hm_scheme =
  sc_vars :: "tptr list"
  sc_body :: tptr

record hm_env =
  env_parent :: "nat option"
  env_bindings :: "(string \<times> hm_scheme) list"

record hm_error =
  err_kind :: hm_error_kind
  err_message :: "string option"
  err_left :: "tptr option"
  err_right :: "tptr option"
  err_name :: "string option"
  err_origin :: "nat option"

record hm_ctx =
  ctx_nodes :: hm_nodes
  ctx_next_id :: ulong
  ctx_origin :: "nat option"
  ctx_envs :: "hm_env list"
  ctx_allocs :: nat

section \<open>The context and its arena\<close>

definition hm_ctx_new :: "(nat \<Rightarrow> bool) \<Rightarrow> hm_ctx option" where
  "hm_ctx_new grants =
     (if \<not> grants 0 then None
      else Some \<lparr>ctx_nodes = [], ctx_next_id = 0, ctx_origin = None, ctx_envs = [], ctx_allocs = 1\<rparr>)"

definition hm_ctx_set_origin :: "hm_ctx \<Rightarrow> nat option \<Rightarrow> hm_ctx" where
  "hm_ctx_set_origin ctx org = ctx\<lparr>ctx_origin := org\<rparr>"

definition hm_i_alloc :: "(nat \<Rightarrow> bool) \<Rightarrow> hm_ctx \<Rightarrow> hm_ctx \<times> bool" where
  "hm_i_alloc grants ctx = (ctx\<lparr>ctx_allocs := Suc (ctx_allocs ctx)\<rparr>, grants (ctx_allocs ctx))"

definition hm_i_strdup :: "(nat \<Rightarrow> bool) \<Rightarrow> hm_ctx \<Rightarrow> string \<Rightarrow> hm_ctx \<times> string option" where
  "hm_i_strdup grants ctx src =
     (case hm_i_alloc grants ctx of (ctx, ok) \<Rightarrow> (ctx, if ok then Some src else None))"

section \<open>Type nodes\<close>

text \<open>A new node is all zeros, which reads as an unbound variable with the number 0.\<close>

definition hm_i_type_node :: "(nat \<Rightarrow> bool) \<Rightarrow> hm_ctx \<Rightarrow> hm_ctx \<times> tptr option" where
  "hm_i_type_node grants ctx =
     (case hm_i_alloc grants ctx of (ctx, ok) \<Rightarrow>
        if \<not> ok then (ctx, None)
        else (ctx\<lparr>ctx_nodes := ctx_nodes ctx @ [TVar 0 None]\<rparr>, Some (length (ctx_nodes ctx))))"

definition set_node :: "hm_ctx \<Rightarrow> tptr \<Rightarrow> hm_type \<Rightarrow> hm_ctx" where
  "set_node ctx t x = ctx\<lparr>ctx_nodes := (ctx_nodes ctx)[t := x]\<rparr>"

definition hm_type_var :: "(nat \<Rightarrow> bool) \<Rightarrow> hm_ctx \<Rightarrow> hm_ctx \<times> tptr option" where
  "hm_type_var grants ctx =
     (case hm_i_type_node grants ctx of
        (ctx, None) \<Rightarrow> (ctx, None)
      | (ctx, Some t) \<Rightarrow>
          (let i = ctx_next_id ctx; ctx = ctx\<lparr>ctx_next_id := ctx_next_id ctx + 1\<rparr> in
           (set_node ctx t (TVar i None), Some t)))"

definition hm_i_copy_args :: "(nat \<Rightarrow> bool) \<Rightarrow> hm_ctx \<Rightarrow> tptr list \<Rightarrow> hm_ctx \<times> tptr list option" where
  "hm_i_copy_args grants ctx args =
     (case hm_i_alloc grants ctx of (ctx, ok) \<Rightarrow> (ctx, if ok then Some args else None))"

text \<open>A node whose arguments cannot be copied is never handed out; it stays as it was allocated.\<close>

definition hm_type_con :: "(nat \<Rightarrow> bool) \<Rightarrow> hm_ctx \<Rightarrow> string \<Rightarrow> tptr list \<Rightarrow> hm_ctx \<times> tptr option" where
  "hm_type_con grants ctx name args =
     (case hm_i_strdup grants ctx name of
        (ctx, None) \<Rightarrow> (ctx, None)
      | (ctx, Some n) \<Rightarrow>
        (case hm_i_type_node grants ctx of
           (ctx, None) \<Rightarrow> (ctx, None)
         | (ctx, Some t) \<Rightarrow>
           (if args = [] then (set_node ctx t (TCon n []), Some t)
            else case hm_i_copy_args grants ctx args of
              (ctx, None) \<Rightarrow> (ctx, None)
            | (ctx, Some dst) \<Rightarrow> (set_node ctx t (TCon n dst), Some t))))"

definition hm_type_const :: "(nat \<Rightarrow> bool) \<Rightarrow> hm_ctx \<Rightarrow> string \<Rightarrow> hm_ctx \<times> tptr option" where
  "hm_type_const grants ctx name = hm_type_con grants ctx name []"

definition hm_type_app1 :: "(nat \<Rightarrow> bool) \<Rightarrow> hm_ctx \<Rightarrow> string \<Rightarrow> tptr \<Rightarrow> hm_ctx \<times> tptr option" where
  "hm_type_app1 grants ctx name a = hm_type_con grants ctx name [a]"

definition hm_type_app2 :: "(nat \<Rightarrow> bool) \<Rightarrow> hm_ctx \<Rightarrow> string \<Rightarrow> tptr \<Rightarrow> tptr \<Rightarrow> hm_ctx \<times> tptr option" where
  "hm_type_app2 grants ctx name a b = hm_type_con grants ctx name [a, b]"

definition hm_type_fun :: "(nat \<Rightarrow> bool) \<Rightarrow> hm_ctx \<Rightarrow> tptr \<Rightarrow> tptr \<Rightarrow> hm_ctx \<times> tptr option" where
  "hm_type_fun grants ctx arg result = hm_type_app2 grants ctx ''->'' arg result"

definition set_link :: "hm_nodes \<Rightarrow> tptr \<Rightarrow> tptr \<Rightarrow> hm_nodes" where
  "set_link ns v l = ns[v := TVar (var_id (ns ! v)) (Some l)]"

partial_function (option) hm_type_prune :: "hm_nodes \<Rightarrow> tptr \<Rightarrow> (hm_nodes \<times> tptr) option" where
  "hm_type_prune ns t =
     (case ns ! t of
        TCon name args \<Rightarrow> Some (ns, t)
      | TVar i None \<Rightarrow> Some (ns, t)
      | TVar i (Some l) \<Rightarrow> Option.bind (hm_type_prune ns l) (\<lambda>(ns, r). Some (set_link ns t r, r)))"

definition hm_type_kind_of :: "hm_nodes \<Rightarrow> tptr \<Rightarrow> (hm_nodes \<times> hm_type_kind) option" where
  "hm_type_kind_of ns t =
     do { (ns, p) \<leftarrow> hm_type_prune ns t;
          Some (ns, case ns ! p of TVar i l \<Rightarrow> HM_TYPE_VAR | TCon name args \<Rightarrow> HM_TYPE_CON) }"

definition hm_type_var_id :: "hm_nodes \<Rightarrow> tptr option \<Rightarrow> (hm_nodes \<times> ulong) option" where
  "hm_type_var_id ns t =
     (case t of
        None \<Rightarrow> Some (ns, 0)
      | Some t \<Rightarrow>
          do { (ns, p) \<leftarrow> hm_type_prune ns t;
               Some (ns, case ns ! p of TVar i l \<Rightarrow> i | TCon name args \<Rightarrow> 0) })"

definition hm_type_con_name :: "hm_nodes \<Rightarrow> tptr \<Rightarrow> (hm_nodes \<times> string option) option" where
  "hm_type_con_name ns t =
     do { (ns, p) \<leftarrow> hm_type_prune ns t;
          Some (ns, case ns ! p of TVar i l \<Rightarrow> None | TCon name args \<Rightarrow> Some name) }"

definition hm_type_con_arity :: "hm_nodes \<Rightarrow> tptr \<Rightarrow> (hm_nodes \<times> nat) option" where
  "hm_type_con_arity ns t =
     do { (ns, p) \<leftarrow> hm_type_prune ns t;
          Some (ns, case ns ! p of TVar i l \<Rightarrow> 0 | TCon name args \<Rightarrow> length args) }"

definition hm_type_con_arg :: "hm_nodes \<Rightarrow> tptr \<Rightarrow> nat \<Rightarrow> (hm_nodes \<times> tptr option) option" where
  "hm_type_con_arg ns t index =
     do { (ns, p) \<leftarrow> hm_type_prune ns t;
          Some (ns, case ns ! p of TVar i l \<Rightarrow> None | TCon name args \<Rightarrow> if length args \<le> index then None else Some (args ! index)) }"

fun hm_type_equal :: "nat \<Rightarrow> hm_nodes \<Rightarrow> tptr \<Rightarrow> tptr \<Rightarrow> (hm_nodes \<times> bool) option"
  and hm_type_args_equal :: "nat \<Rightarrow> hm_nodes \<Rightarrow> tptr list \<Rightarrow> tptr list \<Rightarrow> (hm_nodes \<times> bool) option" where
  "hm_type_equal 0 ns a b = None"
| "hm_type_equal (Suc n) ns a b =
     do { (ns, pa) \<leftarrow> hm_type_prune ns a;
          (ns, pb) \<leftarrow> hm_type_prune ns b;
          if pa = pb then Some (ns, True)
          else case (ns ! pa, ns ! pb) of
            (TCon f as, TCon g bs) \<Rightarrow>
              if f \<noteq> g then Some (ns, False)
              else if length as \<noteq> length bs then Some (ns, False)
              else hm_type_args_equal n ns as bs
          | _ \<Rightarrow> Some (ns, False) }"
| "hm_type_args_equal n ns (a # as) (b # bs) =
     do { (ns, eq) \<leftarrow> hm_type_equal n ns a b;
          if \<not> eq then Some (ns, False) else hm_type_args_equal n ns as bs }"
| "hm_type_args_equal n ns _ _ = Some (ns, True)"

section \<open>Errors\<close>

definition hm_i_error :: "(nat \<Rightarrow> bool) \<Rightarrow> hm_ctx \<Rightarrow> hm_error_kind \<Rightarrow> string \<Rightarrow> hm_ctx \<times> hm_error option" where
  "hm_i_error grants ctx knd msg =
     (case hm_i_alloc grants ctx of (ctx, ok) \<Rightarrow>
        (ctx, if \<not> ok then None
              else Some \<lparr>err_kind = knd, err_message = Some msg, err_left = None, err_right = None, err_name = None,
                         err_origin = ctx_origin ctx\<rparr>))"

definition hm_error_kind_of :: "hm_error option \<Rightarrow> hm_error_kind" where
  "hm_error_kind_of e = (case e of None \<Rightarrow> HM_ERR_NONE | Some e \<Rightarrow> err_kind e)"

definition hm_error_message :: "hm_error option \<Rightarrow> string" where
  "hm_error_message e =
     (case e of None \<Rightarrow> [] | Some e \<Rightarrow> (case err_message e of None \<Rightarrow> [] | Some m \<Rightarrow> m))"

definition hm_error_left :: "hm_error option \<Rightarrow> tptr option" where
  "hm_error_left e = (case e of None \<Rightarrow> None | Some e \<Rightarrow> err_left e)"

definition hm_error_right :: "hm_error option \<Rightarrow> tptr option" where
  "hm_error_right e = (case e of None \<Rightarrow> None | Some e \<Rightarrow> err_right e)"

definition hm_error_name :: "hm_error option \<Rightarrow> string" where
  "hm_error_name e =
     (case e of None \<Rightarrow> [] | Some e \<Rightarrow> (case err_name e of None \<Rightarrow> [] | Some m \<Rightarrow> m))"

definition hm_error_origin :: "hm_error option \<Rightarrow> nat option" where
  "hm_error_origin e = (case e of None \<Rightarrow> None | Some e \<Rightarrow> err_origin e)"

section \<open>Unification\<close>

fun hm_i_occurs :: "nat \<Rightarrow> hm_nodes \<Rightarrow> tptr \<Rightarrow> tptr \<Rightarrow> (hm_nodes \<times> bool) option"
  and hm_i_occurs_args :: "nat \<Rightarrow> hm_nodes \<Rightarrow> tptr \<Rightarrow> tptr list \<Rightarrow> (hm_nodes \<times> bool) option" where
  "hm_i_occurs 0 ns v t = None"
| "hm_i_occurs (Suc n) ns v t =
     do { (ns, p) \<leftarrow> hm_type_prune ns t;
          if p = v then Some (ns, True)
          else case ns ! p of
            TVar i l \<Rightarrow> Some (ns, False)
          | TCon f args \<Rightarrow> hm_i_occurs_args n ns v args }"
| "hm_i_occurs_args n ns v [] = Some (ns, False)"
| "hm_i_occurs_args n ns v (a # as) =
     do { (ns, found) \<leftarrow> hm_i_occurs n ns v a;
          if found then Some (ns, True) else hm_i_occurs_args n ns v as }"

definition hm_i_err_pair :: "(nat \<Rightarrow> bool) \<Rightarrow> hm_ctx \<Rightarrow> hm_error_kind \<Rightarrow> string \<Rightarrow> tptr \<Rightarrow> tptr \<Rightarrow> hm_ctx \<times> hm_error option" where
  "hm_i_err_pair grants ctx knd msg l r =
     (case hm_i_error grants ctx knd msg of
        (ctx, None) \<Rightarrow> (ctx, None)
      | (ctx, Some e) \<Rightarrow> (ctx, Some (e\<lparr>err_left := Some l, err_right := Some r\<rparr>)))"

text \<open>\<open>want\<close> tells whether the caller passed a place for the error.\<close>

definition hm_i_mismatch :: "(nat \<Rightarrow> bool) \<Rightarrow> hm_ctx \<Rightarrow> tptr \<Rightarrow> tptr \<Rightarrow> bool \<Rightarrow> hm_ctx \<times> hm_status \<times> hm_error option" where
  "hm_i_mismatch grants ctx a b want =
     (if want then
        (case hm_i_err_pair grants ctx HM_ERR_MISMATCH ''type mismatch'' a b of (ctx, e) \<Rightarrow> (ctx, HM_ERROR_MISMATCH, e))
      else (ctx, HM_ERROR_MISMATCH, None))"

definition hm_i_bind_var :: "(nat \<Rightarrow> bool) \<Rightarrow> nat \<Rightarrow> hm_ctx \<Rightarrow> tptr \<Rightarrow> tptr \<Rightarrow> bool \<Rightarrow> (hm_ctx \<times> hm_status \<times> hm_error option) option" where
  "hm_i_bind_var grants n ctx v other want =
     do { (ns, occurs) \<leftarrow> hm_i_occurs n (ctx_nodes ctx) v other;
          let ctx = ctx\<lparr>ctx_nodes := ns\<rparr>;
          if occurs then
            (if want then
               (case hm_i_err_pair grants ctx HM_ERR_OCCURS ''occurs check failed'' v other of
                  (ctx, e) \<Rightarrow> Some (ctx, HM_ERROR_OCCURS, e))
             else Some (ctx, HM_ERROR_OCCURS, None))
          else Some (ctx\<lparr>ctx_nodes := set_link ns v other\<rparr>, HM_OK, None) }"

fun hm_unify :: "(nat \<Rightarrow> bool) \<Rightarrow> nat \<Rightarrow> hm_ctx \<Rightarrow> tptr \<Rightarrow> tptr \<Rightarrow> bool \<Rightarrow> (hm_ctx \<times> hm_status \<times> hm_error option) option"
  and hm_unify_args :: "(nat \<Rightarrow> bool) \<Rightarrow> nat \<Rightarrow> hm_ctx \<Rightarrow> tptr list \<Rightarrow> tptr list \<Rightarrow> bool
    \<Rightarrow> (hm_ctx \<times> hm_status \<times> hm_error option) option" where
  "hm_unify grants 0 ctx l r want = None"
| "hm_unify grants (Suc n) ctx l r want =
     do { (ns, a) \<leftarrow> hm_type_prune (ctx_nodes ctx) l;
          (ns, b) \<leftarrow> hm_type_prune ns r;
          let ctx = ctx\<lparr>ctx_nodes := ns\<rparr>;
          if a = b then Some (ctx, HM_OK, None)
          else case (ns ! a, ns ! b) of
            (TVar i k, _) \<Rightarrow> hm_i_bind_var grants n ctx a b want
          | (TCon f as, TVar i k) \<Rightarrow> hm_i_bind_var grants n ctx b a want
          | (TCon f as, TCon g bs) \<Rightarrow>
              if f \<noteq> g then Some (hm_i_mismatch grants ctx a b want)
              else if length as \<noteq> length bs then Some (hm_i_mismatch grants ctx a b want)
              else hm_unify_args grants n ctx as bs want }"
| "hm_unify_args grants n ctx (a # as) (b # bs) want =
     do { (ctx, st, e) \<leftarrow> hm_unify grants n ctx a b want;
          if st \<noteq> HM_OK then Some (ctx, st, e) else hm_unify_args grants n ctx as bs want }"
| "hm_unify_args grants n ctx _ _ want = Some (ctx, HM_OK, None)"

end
