(* ===== verification/Hm_Unify.thy ===== *)
theory Hm_Unify
  imports Hm_Type
begin

text \<open>
  Unification computes most general unifiers. A node list denotes finite terms (\<open>den\<close>); it is well formed
  if every node does, which rules out cycles. An assignment of terms to nodes that agrees with every
  link and every constructor is a solution of the list; the solutions are the substitutions of its unbound
  variables. Path compression keeps the terms, and unifying adds exactly the equation it was asked for.
\<close>

section \<open>Enough depth\<close>

text \<open>A computation returns \<open>y\<close> if it does at every sufficient depth.\<close>

definition returns :: "(nat \<Rightarrow> 'a option) \<Rightarrow> 'a \<Rightarrow> bool" where
  "returns f y \<longleftrightarrow> (\<exists>n0. \<forall>n \<ge> n0. f n = Some y)"

lemma returnsI: "(\<And>n. f n = Some y) \<Longrightarrow> returns f y"
  by (simp add: returns_def)

lemma returns_Suc:
  assumes "returns (\<lambda>n. f (Suc n)) y"
  shows "returns f y"
proof -
  obtain n0 where n0: "\<And>n. n0 \<le> n \<Longrightarrow> f (Suc n) = Some y" using assms by (auto simp: returns_def)
  have "f n = Some y" if "Suc n0 \<le> n" for n
    using n0 [of "n - 1"] that by (cases n) auto
  then show ?thesis unfolding returns_def by blast
qed

lemma returns_bind:
  assumes "returns f x" and "returns (\<lambda>n. k n x) y"
  shows "returns (\<lambda>n. Option.bind (f n) (k n)) y"
proof -
  obtain n1 n2 where n: "\<And>n. n1 \<le> n \<Longrightarrow> f n = Some x" "\<And>n. n2 \<le> n \<Longrightarrow> k n x = Some y"
    using assms by (auto simp: returns_def)
  have "Option.bind (f n) (k n) = Some y" if "max n1 n2 \<le> n" for n using n [of n] that by simp
  then show ?thesis unfolding returns_def by blast
qed

lemma returns_some: "returns f y \<Longrightarrow> \<exists>n. f n = Some y"
  by (auto simp: returns_def)

section \<open>Terms and solutions\<close>

datatype hm_term = V tptr | F string "hm_term list"

fun tvars :: "hm_term \<Rightarrow> tptr set" where
  "tvars (V v) = {v}"
| "tvars (F f ts) = (\<Union>t \<in> set ts. tvars t)"

fun inst :: "(tptr \<Rightarrow> hm_term) \<Rightarrow> hm_term \<Rightarrow> hm_term" where
  "inst th (V v) = th v"
| "inst th (F f ts) = F f (map (inst th) ts)"

lemma inst_cong: "(\<And>v. v \<in> tvars t \<Longrightarrow> th v = th' v) \<Longrightarrow> inst th t = inst th' t"
  by (induction t) auto

lemma inst_V [simp]: "inst V t = t"
  by (induction t) (auto intro: map_idI)

lemma inst_inst: "inst th (inst th' t) = inst (\<lambda>v. inst th (th' v)) t"
  by (induction t) auto

text \<open>A term with a variable strictly inside it is no solution for the variable.\<close>

lemma size_inst: "v \<in> tvars t \<Longrightarrow> size (th v) \<le> size (inst th t)"
proof (induction t)
  case (F f ts)
  then obtain t where t: "t \<in> set ts" "v \<in> tvars t" by auto
  then have "size (th v) \<le> size (inst th t)" using F.IH by blast
  also have "\<dots> \<le> size_list size (map (inst th) ts)" using t(1) by (intro size_list_estimation') auto
  finally show ?case by simp
qed simp

lemma occurs_no_solution:
  assumes "v \<in> tvars (F f ts)"
  shows "th v \<noteq> inst th (F f ts)"
proof
  assume eq: "th v = inst th (F f ts)"
  obtain t where t: "t \<in> set ts" "v \<in> tvars t" using assms by auto
  then have "size (th v) \<le> size (inst th t)" using size_inst by blast
  also have "\<dots> \<le> size_list size (map (inst th) ts)" using t(1) by (intro size_list_estimation') auto
  finally show False using eq by simp
qed

inductive den :: "hm_nodes \<Rightarrow> tptr \<Rightarrow> hm_term \<Rightarrow> bool" for ns where
  den_free: "a < length ns \<Longrightarrow> ns ! a = TVar i None \<Longrightarrow> den ns a (V a)"
| den_link: "a < length ns \<Longrightarrow> ns ! a = TVar i (Some b) \<Longrightarrow> den ns b t \<Longrightarrow> den ns a t"
| den_con: "a < length ns \<Longrightarrow> ns ! a = TCon f as \<Longrightarrow> list_all2 (den ns) as ts \<Longrightarrow> den ns a (F f ts)"

lemma den_length: "den ns a t \<Longrightarrow> a < length ns"
  by (erule den.cases) simp_all

text \<open>What a node denotes, by its kind.\<close>

lemma den_free_iff: "ns ! a = TVar i None \<Longrightarrow> den ns a t \<longleftrightarrow> a < length ns \<and> t = V a"
  by (subst den.simps) auto

lemma den_link_iff: "ns ! a = TVar i (Some b) \<Longrightarrow> den ns a t \<longleftrightarrow> a < length ns \<and> den ns b t"
  by (subst den.simps) auto

lemma den_con_iff: "ns ! a = TCon f as \<Longrightarrow> den ns a t \<longleftrightarrow> a < length ns \<and> (\<exists>ts. t = F f ts \<and> list_all2 (den ns) as ts)"
  by (subst den.simps) auto

lemma den_unique: "den ns a t \<Longrightarrow> den ns a t' \<Longrightarrow> t = t'"
proof (induction arbitrary: t' rule: den.induct)
  case (den_free a i)
  then show ?case by (simp add: den_free_iff)
next
  case (den_link a i b t)
  then show ?case by (simp add: den_link_iff)
next
  case (den_con a f as ts)
  then obtain ts' where ts': "t' = F f ts'" "list_all2 (den ns) as ts'" by (auto simp: den_con_iff)
  have "ts = ts'"
  proof (rule nth_equalityI)
    show "length ts = length ts'" using den_con(3) ts'(2) by (simp add: list_all2_conv_all_nth)
    fix k
    assume "k < length ts"
    then show "ts ! k = ts' ! k" using den_con(3) ts'(2) by (simp add: list_all2_conv_all_nth)
  qed
  then show ?case using ts' by simp
qed

definition wf_nodes :: "hm_nodes \<Rightarrow> bool" where
  "wf_nodes ns \<longleftrightarrow> (\<forall>a < length ns. \<exists>t. den ns a t)"

definition term_of :: "hm_nodes \<Rightarrow> tptr \<Rightarrow> hm_term" where
  "term_of ns a = (THE t. den ns a t)"

lemma term_of_eq [simp]: "den ns a t \<Longrightarrow> term_of ns a = t"
  unfolding term_of_def using den_unique by blast

lemma den_term_of: "wf_nodes ns \<Longrightarrow> a < length ns \<Longrightarrow> den ns a (term_of ns a)"
  unfolding wf_nodes_def by (metis term_of_eq)

lemma den_wf_iff: "wf_nodes ns \<Longrightarrow> a < length ns \<Longrightarrow> den ns a t \<longleftrightarrow> t = term_of ns a"
  using den_term_of by auto

lemma tvars_unbound: "den ns a t \<Longrightarrow> v \<in> tvars t \<Longrightarrow> v < length ns \<and> (\<exists>i. ns ! v = TVar i None)"
proof (induction rule: den.induct)
  case (den_con a f as ts)
  then show ?case by (fastforce simp: list_all2_conv_all_nth in_set_conv_nth)
qed auto

definition solves :: "(tptr \<Rightarrow> hm_term) \<Rightarrow> hm_nodes \<Rightarrow> bool" where
  "solves rho ns \<longleftrightarrow> (\<forall>a < length ns. case ns ! a of
      TVar i None \<Rightarrow> True
    | TVar i (Some b) \<Rightarrow> rho a = rho b
    | TCon f as \<Rightarrow> rho a = F f (map rho as))"

lemma solves_den: "den ns a t \<Longrightarrow> solves rho ns \<Longrightarrow> rho a = inst rho t"
proof (induction rule: den.induct)
  case (den_free a i)
  then show ?case by simp
next
  case (den_link a i b t)
  then show ?case by (auto simp: solves_def split: hm_type.splits)
next
  case (den_con a f as ts)
  have "map rho as = map (inst rho) ts"
    using den_con(3) den_con.prems by (auto simp: list_all2_conv_all_nth intro!: nth_equalityI)
  then show ?case using den_con.hyps den_con.prems by (auto simp: solves_def split: hm_type.splits)
qed

text \<open>In a well-formed list the solutions are the instances of the terms.\<close>

lemma con_term:
  assumes "wf_nodes ns" and "a < length ns" and "ns ! a = TCon f as"
  shows "term_of ns a = F f (map (term_of ns) as)" "b \<in> set as \<Longrightarrow> b < length ns"
proof -
  from den_term_of [OF assms(1,2)] obtain ts where ts: "term_of ns a = F f ts" "list_all2 (den ns) as ts"
    unfolding den_con_iff [OF assms(3)] by blast
  have n: "length as = length ts" "\<And>k. k < length ts \<Longrightarrow> den ns (as ! k) (ts ! k)" using ts(2) by (simp_all add: list_all2_conv_all_nth)
  have "map (term_of ns) as = ts" by (rule nth_equalityI) (use n in auto)
  then show "term_of ns a = F f (map (term_of ns) as)" using ts(1) by simp
  show "b < length ns" if "b \<in> set as" using that n den_length by (metis in_set_conv_nth)
qed

lemma link_term:
  assumes "wf_nodes ns" and "a < length ns" and "ns ! a = TVar i (Some b)"
  shows "term_of ns a = term_of ns b" "b < length ns"
proof -
  have "den ns b (term_of ns a)" using den_term_of [OF assms(1,2)] unfolding den_link_iff [OF assms(3)] by blast
  then show "term_of ns a = term_of ns b" "b < length ns" using den_length by simp_all
qed

lemma free_term: "a < length ns \<Longrightarrow> ns ! a = TVar i None \<Longrightarrow> term_of ns a = V a"
  by (simp add: den_free)

lemma solves_iff:
  assumes "wf_nodes ns"
  shows "solves rho ns \<longleftrightarrow> (\<forall>a < length ns. rho a = inst rho (term_of ns a))"
proof
  assume "solves rho ns"
  then show "\<forall>a < length ns. rho a = inst rho (term_of ns a)" using solves_den den_term_of [OF assms] by blast
next
  assume r: "\<forall>a < length ns. rho a = inst rho (term_of ns a)"
  show "solves rho ns" unfolding solves_def
  proof (intro allI impI)
    fix a
    assume a: "a < length ns"
    show "case ns ! a of TVar i None \<Rightarrow> True | TVar i (Some b) \<Rightarrow> rho a = rho b | TCon f as \<Rightarrow> rho a = F f (map rho as)"
    proof (cases "ns ! a")
      case (TVar i l)
      then show ?thesis using r a link_term [OF assms a] by (cases l) auto
    next
      case (TCon f as)
      then show ?thesis using r a con_term [OF assms a TCon] by auto
    qed
  qed
qed

lemma inst_solves:
  assumes "wf_nodes ns"
  shows "solves (\<lambda>a. inst th (term_of ns a)) ns"
  unfolding solves_iff [OF assms]
proof (intro allI impI, rule inst_cong)
  fix a v
  assume "a < length ns" and "v \<in> tvars (term_of ns a)"
  from tvars_unbound [OF den_term_of [OF assms this(1)] this(2)] show "th v = inst th (term_of ns v)"
    using free_term by auto
qed

section \<open>Path compression\<close>

definition root :: "hm_nodes \<Rightarrow> tptr \<Rightarrow> bool" where
  "root ns r \<longleftrightarrow> r < length ns \<and> (case ns ! r of TVar i l \<Rightarrow> l = None | TCon f as \<Rightarrow> True)"

definition same :: "hm_nodes \<Rightarrow> hm_nodes \<Rightarrow> bool" where
  "same ns ns' \<longleftrightarrow> length ns' = length ns \<and> (\<forall>a t. den ns' a t \<longleftrightarrow> den ns a t)
     \<and> (\<forall>a < length ns. (root ns' a \<longleftrightarrow> root ns a) \<and> (root ns a \<longrightarrow> ns' ! a = ns ! a))"

lemma same_refl [simp]: "same ns ns"
  by (simp add: same_def)

lemma same_trans: "same ns ns' \<Longrightarrow> same ns' ns'' \<Longrightarrow> same ns ns''"
  by (simp add: same_def)

lemma same_facts:
  assumes "same ns ns'"
  shows "length ns' = length ns" "den ns' a t \<longleftrightarrow> den ns a t" "wf_nodes ns' \<longleftrightarrow> wf_nodes ns" "term_of ns' = term_of ns"
    "root ns' a \<longleftrightarrow> root ns a" "root ns a \<Longrightarrow> ns' ! a = ns ! a"
proof -
  show l: "length ns' = length ns" and d: "den ns' a t \<longleftrightarrow> den ns a t" for a t using assms by (simp_all add: same_def)
  show "wf_nodes ns' \<longleftrightarrow> wf_nodes ns" by (simp add: wf_nodes_def l d)
  show "term_of ns' = term_of ns" unfolding term_of_def d by simp
  show "root ns' a \<longleftrightarrow> root ns a"
  proof (cases "a < length ns")
    case True
    then show ?thesis using assms by (simp add: same_def)
  next
    case False
    then show ?thesis using l by (simp add: root_def)
  qed
  show "root ns a \<Longrightarrow> ns' ! a = ns ! a" using assms by (auto simp: same_def root_def)
qed

lemma same_solves: "same ns ns' \<Longrightarrow> wf_nodes ns \<Longrightarrow> solves rho ns' \<longleftrightarrow> solves rho ns"
  using same_facts [of ns ns'] by (simp add: solves_iff)

lemma root_cases:
  assumes "root ns r"
  obtains i where "ns ! r = TVar i None" | f as where "ns ! r = TCon f as"
  using assms by (cases "ns ! r") (auto simp: root_def)

lemma set_link_nth: "x \<noteq> a \<Longrightarrow> set_link ns a r ! x = ns ! x" "a < length ns \<Longrightarrow> set_link ns a r ! a = TVar (var_id (ns ! a)) (Some r)"
  "length (set_link ns a r) = length ns"
  by (simp_all add: set_link_def)

lemma set_link_same:
  assumes a: "a < length ns" "ns ! a = TVar i (Some b)" and r: "root ns r" and t: "den ns a t" "den ns r t"
  shows "same ns (set_link ns a r)"
proof -
  let ?ns = "set_link ns a r"
  note nth = set_link_nth [where a = a and ns = ns and r = r]
  have ra: "r \<noteq> a" using a(2) r by (auto simp: root_def)
  have link: "den ?ns a u \<longleftrightarrow> den ?ns r u" for u
    using den_link_iff [of ?ns a _ r u] a(1) nth by simp
  have by_root: "den ns x u \<Longrightarrow> (\<And>y. root ns y \<Longrightarrow> den ns y u \<Longrightarrow> den ?ns y u) \<Longrightarrow> den ?ns x u" for x u
  proof (induction rule: den.induct)
    case (den_free x i)
    then show ?case by (simp add: root_def den.den_free)
  next
    case (den_link x i c u)
    show ?case
    proof (cases "x = a")
      case True
      then have "u = t" using den_unique [OF den.den_link [OF den_link.hyps] ] t(1) by blast
      then show ?thesis using den_link.prems [OF r] t(2) True link by simp
    next
      case False
      then show ?thesis using den_link nth by (auto intro: den.den_link)
    qed
  next
    case (den_con x f as ts)
    have "den ns x (F f ts)"
      using den_con(1,2) by (rule den.den_con) (use den_con(3) in \<open>simp add: list_all2_conv_all_nth\<close>)
    then show ?case using den_con.prems [of x] den_con(1,2) by (simp add: root_def)
  qed
  have forth: "den ns x u \<Longrightarrow> den ?ns x u" for x u
  proof (induction u arbitrary: x)
    case (V v)
    show ?case
    proof (rule by_root [OF V])
      fix y
      assume y: "root ns y" "den ns y (V v)"
      then obtain i where "ns ! y = TVar i None" by (auto elim: root_cases simp: den_con_iff)
      then show "den ?ns y (V v)" using y a nth by (cases "y = a") (auto simp: den_free_iff)
    qed
  next
    case (F f ts)
    show ?case
    proof (rule by_root [OF F.prems])
      fix y
      assume y: "root ns y" "den ns y (F f ts)"
      then obtain as where as: "ns ! y = TCon f as" "list_all2 (den ns) as ts"
        by (auto elim!: root_cases simp: den_con_iff den_free_iff)
      have "list_all2 (den ?ns) as ts" using as(2) F.IH by (auto simp: list_all2_conv_all_nth)
      moreover have "?ns ! y = TCon f as" using as(1) a nth(1) by (cases "y = a") auto
      ultimately show "den ?ns y (F f ts)" using y(1) nth(3) by (auto simp: den_con_iff root_def)
    qed
  qed
  have conv: "den ?ns x u \<Longrightarrow> den ns x u" for x u
  proof (induction rule: den.induct)
    case (den_free x i)
    then show ?case using nth a by (cases "x = a") (auto simp: den_free_iff)
  next
    case (den_link x i c u)
    show ?case
    proof (cases "x = a")
      case True
      then have "c = r" using den_link.hyps a nth by simp
      then have "u = t" using den_link.IH t(2) den_unique by blast
      then show ?thesis using True t(1) by simp
    next
      case False
      then show ?thesis using den_link nth by (auto intro: den.den_link)
    qed
  next
    case (den_con x f as ts)
    then have "x \<noteq> a" using nth a by auto
    then show ?case using den_con nth by (auto simp: den_con_iff elim: list_all2_mono)
  qed
  have "root ?ns x \<longleftrightarrow> root ns x" "root ns x \<Longrightarrow> ?ns ! x = ns ! x" for x
    using nth a ra by (cases "x = a", auto simp: root_def)+
  then show ?thesis unfolding same_def using forth conv nth(3) by blast
qed

lemma prune_spec:
  "den ns a t \<Longrightarrow> \<exists>ns' r. hm_type_prune ns a = Some (ns', r) \<and> same ns ns' \<and> root ns r \<and> den ns r t"
proof (induction rule: den.induct)
  case (den_free a i)
  then show ?case by (subst hm_type_prune.simps) (simp add: root_def den.den_free)
next
  case (den_link a i b t)
  then obtain ns' r where r: "hm_type_prune ns b = Some (ns', r)" "same ns ns'" "root ns r" "den ns r t" by blast
  note s = same_facts [OF r(2)]
  have da: "den ns a t" using den_link.hyps by (rule den.den_link)
  have "\<not> root ns' a" using den_link.hyps s(5) by (simp add: root_def)
  then obtain j c where "ns' ! a = TVar j (Some c)" using den_link.hyps(1) s(1) by (auto simp: root_def split: hm_type.splits)
  then have "same ns' (set_link ns' a r)" using den_link.hyps(1) s da r(3,4) by (intro set_link_same [of a ns' j c r t]) simp_all
  then have "same ns (set_link ns' a r)" using same_trans r(2) by blast
  moreover have "hm_type_prune ns a = Some (set_link ns' a r, r)"
    using r(1) den_link.hyps(2) by (subst hm_type_prune.simps) simp
  ultimately show ?case using r(3,4) by blast
next
  case (den_con a f as ts)
  have "den ns a (F f ts)"
    using den_con(1,2) by (rule den.den_con) (use den_con(3) in \<open>simp add: list_all2_conv_all_nth\<close>)
  then show ?case using den_con(1,2) by (subst hm_type_prune.simps) (simp add: root_def)
qed

lemma prune_wf:
  assumes "wf_nodes ns" and "a < length ns"
  obtains ns' r where "hm_type_prune ns a = Some (ns', r)" "same ns ns'" "root ns r" "term_of ns r = term_of ns a" "wf_nodes ns'"
  using prune_spec [OF den_term_of [OF assms]] same_facts(3) assms(1) by (metis term_of_eq)

section \<open>Equality\<close>

lemma bind_pair: "returns f (x, y) \<Longrightarrow> returns (\<lambda>n. k n x y) z \<Longrightarrow> returns (\<lambda>n. Option.bind (f n) (\<lambda>(x, y). k n x y)) z"
  using returns_bind [of f "(x, y)" "\<lambda>n p. k n (fst p) (snd p)" z] by (simp add: split_def)

lemma equal_args:
  assumes "length as = length bs"
    and "\<And>ns1 x y. same ns ns1 \<Longrightarrow> x \<in> set as \<Longrightarrow> y \<in> set bs \<Longrightarrow>
           \<exists>ns2. returns (\<lambda>n. hm_type_equal n ns1 x y) (ns2, term_of ns x = term_of ns y) \<and> same ns1 ns2"
    and "same ns ns1"
  shows "\<exists>ns2. returns (\<lambda>n. hm_type_args_equal n ns1 as bs) (ns2, map (term_of ns) as = map (term_of ns) bs) \<and> same ns ns2"
  using assms
proof (induction as bs arbitrary: ns1 rule: list_induct2)
  case Nil
  then show ?case by (intro exI [of _ ns1]) (simp add: returnsI)
next
  case (Cons x xs y ys)
  obtain ns2 where ns2: "returns (\<lambda>n. hm_type_equal n ns1 x y) (ns2, term_of ns x = term_of ns y)" "same ns ns2"
    using Cons.prems(1) [OF Cons.prems(2), of x y] same_trans Cons.prems(2) by fastforce
  show ?case
  proof (cases "term_of ns x = term_of ns y")
    case False
    have "returns (\<lambda>n. hm_type_args_equal n ns1 (x # xs) (y # ys)) (ns2, False)"
      unfolding hm_type_args_equal.simps by (rule bind_pair [OF ns2(1)]) (simp add: False returnsI)
    then show ?thesis using False ns2(2) by auto
  next
    case True
    obtain ns3 where ns3: "returns (\<lambda>n. hm_type_args_equal n ns2 xs ys) (ns3, map (term_of ns) xs = map (term_of ns) ys)" "same ns ns3"
      using Cons.IH [OF _ ns2(2)] Cons.prems(1) by fastforce
    have "returns (\<lambda>n. hm_type_args_equal n ns1 (x # xs) (y # ys)) (ns3, map (term_of ns) xs = map (term_of ns) ys)"
      unfolding hm_type_args_equal.simps by (rule bind_pair [OF ns2(1)]) (use ns3(1) True in simp)
    then show ?thesis using True ns3(2) by auto
  qed
qed

lemma root_var_term: "wf_nodes ns \<Longrightarrow> root ns a \<Longrightarrow> ns ! a = TVar i l \<Longrightarrow> term_of ns a = V a"
  using free_term by (auto simp: root_def)

lemma arg_size: "x \<in> set as \<Longrightarrow> size (f x) < size (F g (map f as))"
  using size_list_estimation' [of "f x" "map f as" "size (f x)" size] by simp

lemma equal_spec:
  "wf_nodes ns \<Longrightarrow> a < length ns \<Longrightarrow> b < length ns \<Longrightarrow>
     \<exists>ns'. returns (\<lambda>n. hm_type_equal n ns a b) (ns', term_of ns a = term_of ns b) \<and> same ns ns'"
proof (induction "size (term_of ns a)" arbitrary: ns a b rule: less_induct)
  case less
  obtain ns1 pa where pa: "hm_type_prune ns a = Some (ns1, pa)" "same ns ns1" "root ns pa" "term_of ns pa = term_of ns a" "wf_nodes ns1"
    using prune_wf [OF less.prems(1,2)] .
  have b1: "b < length ns1" using less.prems(3) same_facts(1) [OF pa(2)] by simp
  obtain ns2 pb where pb: "hm_type_prune ns1 b = Some (ns2, pb)" "same ns1 ns2" "root ns1 pb" "term_of ns1 pb = term_of ns1 b" "wf_nodes ns2"
    using prune_wf [OF pa(5) b1] .
  have s: "same ns ns2" using same_trans pa(2) pb(2) by blast
  note f = same_facts [OF s]
  have roots: "root ns2 pa" "root ns2 pb" "term_of ns2 pa = term_of ns a" "term_of ns2 pb = term_of ns b"
    using f pa(3,4) pb(3,4) same_facts [OF pb(2)] same_facts [OF pa(2)] by simp_all
  let ?rest = "\<lambda>n. if pa = pb then Some (ns2, True)
       else case (ns2 ! pa, ns2 ! pb) of
         (TCon f as, TCon g bs) \<Rightarrow>
           if f \<noteq> g then Some (ns2, False) else if length as \<noteq> length bs then Some (ns2, False)
           else hm_type_args_equal n ns2 as bs
       | _ \<Rightarrow> Some (ns2, False)"
  have step: "hm_type_equal (Suc n) ns a b = ?rest n" for n
    by (simp add: pa(1) pb(1))
  have "\<exists>ns'. returns ?rest (ns', term_of ns a = term_of ns b) \<and> same ns ns'"
  proof (cases "pa = pb")
    case True
    then show ?thesis using roots s by (auto intro!: exI [of _ ns2] returnsI)
  next
    case ne: False
    show ?thesis
    proof (cases "\<exists>f as g bs. ns2 ! pa = TCon f as \<and> ns2 ! pb = TCon g bs")
      case False
      have "term_of ns a \<noteq> term_of ns b"
      proof
        assume eq: "term_of ns a = term_of ns b"
        have pl: "pa < length ns2" "pb < length ns2" using roots(1,2) by (simp_all add: root_def)
        show False
        proof (cases "ns2 ! pa")
          case (TVar i l)
          then have "term_of ns2 pb = V pa" using root_var_term pb(5) roots eq by metis
          then show False using ne roots(2) pb(5) root_var_term con_term(1) [OF pb(5) pl(2)]
            by (cases "ns2 ! pb") (metis hm_term.inject(1), simp)
        next
          case (TCon f as)
          then obtain i l where "ns2 ! pb = TVar i l" using False by (cases "ns2 ! pb") auto
          then have "term_of ns2 pa = V pb" using root_var_term pb(5) roots eq by metis
          then show False using con_term(1) [OF pb(5) pl(1) TCon] by simp
        qed
      qed
      then show ?thesis using ne False s
        by (intro exI [of _ ns2]) (auto intro!: returnsI split: hm_type.split)
    next
      case True
      then obtain f as g bs where c: "ns2 ! pa = TCon f as" "ns2 ! pb = TCon g bs" by blast
      have l: "pa < length ns2" "pb < length ns2" using roots(1,2) by (simp_all add: root_def)
      note ta = con_term [OF pb(5) l(1) c(1)] and tb = con_term [OF pb(5) l(2) c(2)]
      show ?thesis
      proof (cases "f = g \<and> length as = length bs")
        case False
        then have "term_of ns a \<noteq> term_of ns b" using ta(1) tb(1) roots(3,4) by (auto dest: map_eq_imp_length_eq)
        then show ?thesis using ne c False s by (intro exI [of _ ns2]) (auto intro!: returnsI)
      next
        case fg: True
        have ih: "\<exists>ns4. returns (\<lambda>n. hm_type_equal n ns3 x y) (ns4, term_of ns2 x = term_of ns2 y) \<and> same ns3 ns4"
          if "same ns2 ns3" "x \<in> set as" "y \<in> set bs" for ns3 x y
        proof -
          have "size (term_of ns3 x) < size (term_of ns a)"
            using arg_size [OF that(2), of "term_of ns2"] ta(1) roots(3) same_facts(4) [OF that(1)] by simp
          moreover have "wf_nodes ns3" "x < length ns3" "y < length ns3"
            using same_facts [OF that(1)] pb(5) ta(2) tb(2) that by simp_all
          ultimately show ?thesis using less.hyps same_facts(4) [OF that(1)] by metis
        qed
        obtain ns4 where "returns (\<lambda>n. hm_type_args_equal n ns2 as bs) (ns4, map (term_of ns2) as = map (term_of ns2) bs)" "same ns2 ns4"
          using equal_args [of as bs ns2 ns2] fg ih by auto
        moreover have "term_of ns a = term_of ns b \<longleftrightarrow> map (term_of ns2) as = map (term_of ns2) bs"
          using fg ta(1) tb(1) roots(3,4) by simp
        ultimately show ?thesis using ne c fg same_trans [OF s] by auto
      qed
    qed
  qed
  then obtain ns' where "returns (\<lambda>n. hm_type_equal (Suc n) ns a b) (ns', term_of ns a = term_of ns b)" "same ns ns'"
    unfolding step by blast
  then show ?case using returns_Suc [of "\<lambda>n. hm_type_equal n ns a b"] by blast
qed

section \<open>The occurs check\<close>

lemma occurs_args:
  assumes "\<And>ns1 x. same ns ns1 \<Longrightarrow> x \<in> set as \<Longrightarrow>
           \<exists>ns2. returns (\<lambda>n. hm_i_occurs n ns1 v x) (ns2, v \<in> tvars (term_of ns x)) \<and> same ns1 ns2"
    and "same ns ns1"
  shows "\<exists>ns2. returns (\<lambda>n. hm_i_occurs_args n ns1 v as) (ns2, \<exists>x \<in> set as. v \<in> tvars (term_of ns x)) \<and> same ns ns2"
  using assms
proof (induction as arbitrary: ns1)
  case Nil
  then show ?case by (intro exI [of _ ns1]) (simp add: returnsI)
next
  case (Cons x xs)
  obtain ns2 where ns2: "returns (\<lambda>n. hm_i_occurs n ns1 v x) (ns2, v \<in> tvars (term_of ns x))" "same ns ns2"
    using Cons.prems(1) [OF Cons.prems(2), of x] same_trans Cons.prems(2) by fastforce
  show ?case
  proof (cases "v \<in> tvars (term_of ns x)")
    case True
    have "returns (\<lambda>n. hm_i_occurs_args n ns1 v (x # xs)) (ns2, True)"
      unfolding hm_i_occurs_args.simps by (rule bind_pair [OF ns2(1)]) (simp add: True returnsI)
    then show ?thesis using True ns2(2) by auto
  next
    case False
    obtain ns3 where ns3: "returns (\<lambda>n. hm_i_occurs_args n ns2 v xs) (ns3, \<exists>x \<in> set xs. v \<in> tvars (term_of ns x))" "same ns ns3"
      using Cons.IH [OF _ ns2(2)] Cons.prems(1) by fastforce
    have "returns (\<lambda>n. hm_i_occurs_args n ns1 v (x # xs)) (ns3, \<exists>x \<in> set xs. v \<in> tvars (term_of ns x))"
      unfolding hm_i_occurs_args.simps by (rule bind_pair [OF ns2(1)]) (use ns3(1) False in simp)
    then show ?thesis using False ns3(2) by auto
  qed
qed

lemma occurs_spec:
  "wf_nodes ns \<Longrightarrow> t < length ns \<Longrightarrow> v < length ns \<Longrightarrow> ns ! v = TVar i None \<Longrightarrow>
     \<exists>ns'. returns (\<lambda>n. hm_i_occurs n ns v t) (ns', v \<in> tvars (term_of ns t)) \<and> same ns ns'"
proof (induction "size (term_of ns t)" arbitrary: ns t rule: less_induct)
  case less
  obtain ns1 p where p: "hm_type_prune ns t = Some (ns1, p)" "same ns ns1" "root ns p" "term_of ns p = term_of ns t" "wf_nodes ns1"
    using prune_wf [OF less.prems(1,2)] .
  note f = same_facts [OF p(2)]
  have rp: "root ns1 p" "p < length ns1" using f p(3) by (simp_all add: root_def)
  let ?rest = "\<lambda>n. if p = v then Some (ns1, True)
     else case ns1 ! p of TVar i l \<Rightarrow> Some (ns1, False) | TCon f args \<Rightarrow> hm_i_occurs_args n ns1 v args"
  have step: "hm_i_occurs (Suc n) ns v t = ?rest n" for n by (simp add: p(1))
  have "\<exists>ns'. returns ?rest (ns', v \<in> tvars (term_of ns t)) \<and> same ns ns'"
  proof (cases "p = v")
    case True
    then have "term_of ns t = V v" using p(4) free_term less.prems(3,4) by metis
    then show ?thesis using True p(2) by (intro exI [of _ ns1]) (simp add: returnsI)
  next
    case False
    show ?thesis
    proof (cases "ns1 ! p")
      case (TVar j l)
      then have "term_of ns t = V p" using root_var_term p(5) rp(1) f(4) p(4) by metis
      then show ?thesis using False TVar p(2) by (intro exI [of _ ns1]) (simp add: returnsI)
    next
      case (TCon g as)
      note c = con_term [OF p(5) rp(2) TCon]
      have ih: "\<exists>ns3. returns (\<lambda>n. hm_i_occurs n ns2 v x) (ns3, v \<in> tvars (term_of ns1 x)) \<and> same ns2 ns3"
        if "same ns1 ns2" "x \<in> set as" for ns2 x
      proof -
        have s: "same ns ns2" using same_trans p(2) that(1) by blast
        have "size (term_of ns2 x) < size (term_of ns t)"
          using arg_size [OF that(2), of "term_of ns1"] c(1) p(4) f(4) same_facts(4) [OF that(1)] by simp
        moreover have "wf_nodes ns2" "x < length ns2" "v < length ns2" "ns2 ! v = TVar i None"
          using same_facts [OF that(1)] same_facts [OF s] p(5) c(2) that less.prems by (simp_all add: root_def)
        ultimately show ?thesis using less.hyps same_facts(4) [OF that(1)] by metis
      qed
      obtain ns4 where n4: "returns (\<lambda>n. hm_i_occurs_args n ns1 v as) (ns4, \<exists>x \<in> set as. v \<in> tvars (term_of ns1 x))" "same ns1 ns4"
        using occurs_args [of ns1 as v ns1] ih by auto
      have "term_of ns t = F g (map (term_of ns1) as)" using c(1) p(4) f(4) by simp
      then have "v \<in> tvars (term_of ns t) \<longleftrightarrow> (\<exists>x \<in> set as. v \<in> tvars (term_of ns1 x))" by simp
      moreover have "?rest = (\<lambda>n. hm_i_occurs_args n ns1 v as)" using False TCon by (intro ext) simp
      ultimately show ?thesis using n4(1) same_trans [OF p(2) n4(2)] by auto
    qed
  qed
  then obtain ns' where "returns (\<lambda>n. hm_i_occurs (Suc n) ns v t) (ns', v \<in> tvars (term_of ns t))" "same ns ns'"
    unfolding step by blast
  then show ?case using returns_Suc [of "\<lambda>n. hm_i_occurs n ns v t"] by blast
qed

section \<open>Binding\<close>

definition unbound :: "hm_nodes \<Rightarrow> tptr set" where
  "unbound ns = {v. v < length ns \<and> (\<exists>i. ns ! v = TVar i None)}"

lemma finite_unbound [simp]: "finite (unbound ns)"
  by (rule finite_subset [of _ "{..<length ns}"]) (auto simp: unbound_def)

lemma unbound_root: "v \<in> unbound ns \<longleftrightarrow> root ns v \<and> (\<exists>i l. ns ! v = TVar i l)"
  by (auto simp: unbound_def root_def)

lemma same_unbound: "same ns ns' \<Longrightarrow> unbound ns' = unbound ns"
  using same_facts(5,6) by (fastforce simp: unbound_root)

definition sub :: "tptr \<Rightarrow> hm_term \<Rightarrow> tptr \<Rightarrow> hm_term" where
  "sub v u x = (if x = v then u else V x)"

lemma bind_den:
  assumes "v \<in> unbound ns" and "den ns o' u" and "v \<notin> tvars u"
  shows "den ns a t \<Longrightarrow> v \<notin> tvars t \<Longrightarrow> den (set_link ns v o') a t"
    and "den ns a t \<Longrightarrow> den (set_link ns v o') a (inst (sub v u) t)"
proof -
  let ?ns = "set_link ns v o'"
  obtain i where v: "v < length ns" "ns ! v = TVar i None" using assms(1) by (auto simp: unbound_def)
  have nth: "x \<noteq> v \<Longrightarrow> ?ns ! x = ns ! x" "?ns ! v = TVar i (Some o')" "length ?ns = length ns" for x
    using v by (simp_all add: set_link_def)
  have keep: "den ns a t \<Longrightarrow> v \<notin> tvars t \<Longrightarrow> den ?ns a t" for a t
  proof (induction rule: den.induct)
    case (den_free a j)
    then show ?case using nth by (auto simp: den_free_iff)
  next
    case (den_link a j b t)
    then have "a \<noteq> v" using v by auto
    then show ?case using den_link nth by (auto intro: den.den_link)
  next
    case (den_con a f as ts)
    then have "a \<noteq> v" using v by auto
    moreover have "list_all2 (den ?ns) as ts"
      using den_con(3,4) by (auto simp: list_all2_conv_all_nth)
    ultimately show ?case using den_con(1,2) nth by (auto intro: den.den_con)
  qed
  then show "den ns a t \<Longrightarrow> v \<notin> tvars t \<Longrightarrow> den ?ns a t" .
  have o: "den ?ns o' u" using keep assms(2,3) .
  show "den ns a t \<Longrightarrow> den ?ns a (inst (sub v u) t)"
  proof (induction rule: den.induct)
    case (den_free a j)
    then show ?case using nth o v by (cases "a = v") (auto simp: den_free_iff sub_def intro: den.den_link)
  next
    case (den_link a j b t)
    then have "a \<noteq> v" using v by auto
    then show ?case using den_link nth by (auto intro: den.den_link)
  next
    case (den_con a f as ts)
    then have "a \<noteq> v" using v by auto
    moreover have "list_all2 (den ?ns) as (map (inst (sub v u)) ts)"
      using den_con(3) by (auto simp: list_all2_conv_all_nth)
    ultimately show ?case using den_con(1,2) nth by (auto intro: den.den_con)
  qed
qed

lemma bind_facts:
  assumes "wf_nodes ns" and "v \<in> unbound ns" and "w < length ns" and "v \<notin> tvars (term_of ns w)"
  shows "wf_nodes (set_link ns v w)" "unbound (set_link ns v w) = unbound ns - {v}"
    "solves rho (set_link ns v w) \<longleftrightarrow> solves rho ns \<and> rho v = rho w"
proof -
  obtain i where v: "v < length ns" "ns ! v = TVar i None" using assms(2) by (auto simp: unbound_def)
  have nth: "x \<noteq> v \<Longrightarrow> set_link ns v w ! x = ns ! x" "set_link ns v w ! v = TVar i (Some w)" "length (set_link ns v w) = length ns" for x
    using v by (simp_all add: set_link_def)
  show "wf_nodes (set_link ns v w)"
    using bind_den(2) [OF assms(2) den_term_of [OF assms(1,3)] assms(4) den_term_of [OF assms(1)]] nth(3) by (auto simp: wf_nodes_def)
  show "unbound (set_link ns v w) = unbound ns - {v}"
  proof (rule set_eqI)
    fix x
    show "x \<in> unbound (set_link ns v w) \<longleftrightarrow> x \<in> unbound ns - {v}"
      using nth(1) [of x] nth(2,3) by (cases "x = v") (simp_all add: unbound_def)
  qed
  have at: "(case set_link ns v w ! a of TVar i None \<Rightarrow> True | TVar i (Some b) \<Rightarrow> rho a = rho b | TCon f as \<Rightarrow> rho a = F f (map rho as))
      \<longleftrightarrow> (case ns ! a of TVar i None \<Rightarrow> True | TVar i (Some b) \<Rightarrow> rho a = rho b | TCon f as \<Rightarrow> rho a = F f (map rho as)) \<and> (a = v \<longrightarrow> rho v = rho w)" for a
    using nth v by (cases "a = v") simp_all
  show "solves rho (set_link ns v w) \<longleftrightarrow> solves rho ns \<and> rho v = rho w"
    unfolding solves_def nth(3) at using v(1) by blast
qed

section \<open>Unification\<close>

text \<open>Later states: nothing new is unbound, and the terms change only if something was bound.\<close>

definition below :: "hm_nodes \<Rightarrow> hm_nodes \<Rightarrow> bool" where
  "below ns ns' \<longleftrightarrow> wf_nodes ns' \<and> length ns' = length ns \<and> unbound ns' \<subseteq> unbound ns
     \<and> (unbound ns' = unbound ns \<longrightarrow> term_of ns' = term_of ns) \<and> (\<forall>rho. solves rho ns' \<longrightarrow> solves rho ns)"

text \<open>The outcome of solving an equation: with success its solutions, with failure none.\<close>

definition unified :: "hm_nodes \<Rightarrow> ((tptr \<Rightarrow> hm_term) \<Rightarrow> bool) \<Rightarrow> hm_nodes \<Rightarrow> hm_status \<Rightarrow> bool" where
  "unified ns E ns' st \<longleftrightarrow> below ns ns'
     \<and> (st = HM_OK \<longrightarrow> (\<forall>rho. solves rho ns' \<longleftrightarrow> solves rho ns \<and> E rho))
     \<and> (st \<noteq> HM_OK \<longrightarrow> (\<forall>rho. solves rho ns \<longrightarrow> \<not> E rho))"

lemma below_refl: "wf_nodes ns \<Longrightarrow> below ns ns"
  by (simp add: below_def)

lemma below_trans: "below ns ns1 \<Longrightarrow> below ns1 ns2 \<Longrightarrow> below ns ns2"
  unfolding below_def by (metis subset_antisym subset_trans)

lemma same_below: "same ns ns' \<Longrightarrow> wf_nodes ns \<Longrightarrow> below ns ns'"
  using same_facts [of ns ns'] same_unbound same_solves by (simp add: below_def)

lemma unified_same: "same ns ns1 \<Longrightarrow> wf_nodes ns \<Longrightarrow> unified ns1 E ns2 st \<Longrightarrow> unified ns E ns2 st"
  using same_below below_trans same_solves unfolding unified_def by metis

lemma unified_cong: "(\<And>rho. solves rho ns \<Longrightarrow> E rho = E' rho) \<Longrightarrow> unified ns E ns' st = unified ns E' ns' st"
  unfolding unified_def by blast

lemma unified_and: "unified ns E ns1 HM_OK \<Longrightarrow> unified ns1 E' ns2 st \<Longrightarrow> unified ns (\<lambda>rho. E rho \<and> E' rho) ns2 st"
  using below_trans unfolding unified_def by blast

lemma unified_fail: "unified ns E ns1 st \<Longrightarrow> st \<noteq> HM_OK \<Longrightarrow> unified ns (\<lambda>rho. E rho \<and> E' rho) ns1 st"
  unfolding unified_def by blast

lemma unified_trivial: "same ns ns' \<Longrightarrow> wf_nodes ns \<Longrightarrow> (\<And>rho. solves rho ns \<Longrightarrow> E rho) \<Longrightarrow> unified ns E ns' HM_OK"
  using same_below same_solves unfolding unified_def by blast

lemma unified_clash: "same ns ns' \<Longrightarrow> wf_nodes ns \<Longrightarrow> st \<noteq> HM_OK \<Longrightarrow> (\<And>rho. solves rho ns \<Longrightarrow> \<not> E rho) \<Longrightarrow> unified ns E ns' st"
  using same_below unfolding unified_def by blast

lemma solves_term: "wf_nodes ns \<Longrightarrow> solves rho ns \<Longrightarrow> a < length ns \<Longrightarrow> rho a = inst rho (term_of ns a)"
  by (simp add: solves_iff)

lemma err_pair_nodes: "ctx_nodes (fst (hm_i_err_pair grants ctx k msg a b)) = ctx_nodes ctx"
  by (simp add: hm_i_err_pair_def hm_i_error_def hm_i_alloc_def)

lemma mismatch_facts: "ctx_nodes (fst (hm_i_mismatch grants ctx a b want)) = ctx_nodes ctx"
    "fst (snd (hm_i_mismatch grants ctx a b want)) = HM_ERROR_MISMATCH"
  using err_pair_nodes [of grants ctx] by (auto simp: hm_i_mismatch_def split: prod.split) (metis fst_conv)

text \<open>The outcome of a call that yields a context, a status and an error.\<close>

abbreviation (input) outcome :: "hm_nodes \<Rightarrow> ((tptr \<Rightarrow> hm_term) \<Rightarrow> bool) \<Rightarrow> hm_ctx \<times> hm_status \<times> hm_error option \<Rightarrow> bool" where
  "outcome ns E res \<equiv> unified ns E (ctx_nodes (fst res)) (fst (snd res))"

lemma bind_var_spec:
  assumes "wf_nodes (ctx_nodes ctx)" and "v \<in> unbound (ctx_nodes ctx)" and "root (ctx_nodes ctx) w" and "v \<noteq> w"
  shows "\<exists>res. returns (\<lambda>n. hm_i_bind_var grants n ctx v w want) res \<and> outcome (ctx_nodes ctx) (\<lambda>rho. rho v = rho w) res"
proof -
  let ?ns = "ctx_nodes ctx"
  obtain i where v: "v < length ?ns" "?ns ! v = TVar i None" using assms(2) by (auto simp: unbound_def)
  have w: "w < length ?ns" using assms(3) by (simp add: root_def)
  obtain ns1 where ns1: "returns (\<lambda>n. hm_i_occurs n ?ns v w) (ns1, v \<in> tvars (term_of ?ns w))" "same ?ns ns1"
    using occurs_spec [OF assms(1) w v] by blast
  note f = same_facts [OF ns1(2)]
  let ?ctx = "ctx\<lparr>ctx_nodes := ns1\<rparr>"
  define k where "k = (\<lambda>(n :: nat) ns occurs. let ctx = ctx\<lparr>ctx_nodes := ns\<rparr> in
        if occurs then
          (if want then
             (case hm_i_err_pair grants ctx HM_ERR_OCCURS ''occurs check failed'' v w of
                (ctx, e) \<Rightarrow> Some (ctx, HM_ERROR_OCCURS, e))
           else Some (ctx, HM_ERROR_OCCURS, None))
        else Some (ctx\<lparr>ctx_nodes := set_link ns v w\<rparr>, HM_OK, None))"
  have bv: "hm_i_bind_var grants n ctx v w want = Option.bind (hm_i_occurs n ?ns v w) (\<lambda>(ns, oc). k n ns oc)" for n
    by (simp add: hm_i_bind_var_def k_def)
  have "\<exists>res. (\<forall>n. k n ns1 (v \<in> tvars (term_of ?ns w)) = Some res) \<and> outcome ?ns (\<lambda>rho. rho v = rho w) res"
  proof (cases "v \<in> tvars (term_of ?ns w)")
    case True
    have no: "rho v \<noteq> rho w" if "solves rho ?ns" for rho
    proof (cases "?ns ! w")
      case (TVar j l)
      then have "term_of ?ns w = V w" using root_var_term assms(1,3) by blast
      then show ?thesis using True assms(4) by simp
    next
      case (TCon g as)
      then have "v \<in> tvars (F g (map (term_of ?ns) as))" "rho w = inst rho (F g (map (term_of ?ns) as))"
        using True con_term(1) [OF assms(1) w TCon] solves_term [OF assms(1) that w] by simp_all
      then show ?thesis using occurs_no_solution [of v g "map (term_of ?ns) as" rho] by metis
    qed
    have "unified ?ns (\<lambda>rho. rho v = rho w) ns1 HM_ERROR_OCCURS"
      by (rule unified_clash [OF ns1(2) assms(1)]) (use no in auto)
    then show ?thesis using True err_pair_nodes [of grants ?ctx HM_ERR_OCCURS "''occurs check failed''" v w]
      by (auto simp: k_def Let_def split: prod.split)
  next
    case False
    have u: "v \<in> unbound ns1" "w < length ns1" "wf_nodes ns1" "v \<notin> tvars (term_of ns1 w)"
      using assms(1,2) w f False same_unbound [OF ns1(2)] by simp_all
    note b = bind_facts [OF u(3,1,2,4)]
    have "unified ns1 (\<lambda>rho. rho v = rho w) (set_link ns1 v w) HM_OK"
      using b u(1) by (auto simp: unified_def below_def set_link_nth)
    from unified_same [OF ns1(2) assms(1) this] show ?thesis using False by (simp add: k_def Let_def)
  qed
  then obtain res where res: "\<And>n. k n ns1 (v \<in> tvars (term_of ?ns w)) = Some res" "outcome ?ns (\<lambda>rho. rho v = rho w) res" by blast
  have "returns (\<lambda>n. hm_i_bind_var grants n ctx v w want) res"
    unfolding bv by (rule bind_pair [OF ns1(1)]) (use res(1) in \<open>auto intro: returnsI\<close>)
  then show ?thesis using res(2) by blast
qed

lemma bind_triple: "returns f (x, y, z) \<Longrightarrow> returns (\<lambda>n. k n x y z) u \<Longrightarrow> returns (\<lambda>n. Option.bind (f n) (\<lambda>(x, y, z). k n x y z)) u"
  using returns_bind [of f "(x, y, z)" "\<lambda>n p. k n (fst p) (fst (snd p)) (snd (snd p))" u] by (simp add: split_def)

lemma unify_args_spec:
  assumes "length as = length bs"
    and "\<And>ctx x y. below ns (ctx_nodes ctx) \<Longrightarrow> x \<in> set as \<Longrightarrow> y \<in> set bs \<Longrightarrow>
           \<exists>res. returns (\<lambda>n. hm_unify grants n ctx x y want) res \<and> outcome (ctx_nodes ctx) (\<lambda>rho. rho x = rho y) res"
    and "below ns (ctx_nodes ctx)"
  shows "\<exists>res. returns (\<lambda>n. hm_unify_args grants n ctx as bs want) res
    \<and> outcome (ctx_nodes ctx) (\<lambda>rho. map rho as = map rho bs) res"
  using assms
proof (induction as bs arbitrary: ctx rule: list_induct2)
  case Nil
  then have "wf_nodes (ctx_nodes ctx)" by (simp add: below_def)
  then show ?case by (intro exI [of _ "(ctx, HM_OK, None)"]) (simp add: returnsI unified_trivial)
next
  case (Cons x xs y ys)
  obtain ctx1 st e where r1: "returns (\<lambda>n. hm_unify grants n ctx x y want) (ctx1, st, e)"
    "unified (ctx_nodes ctx) (\<lambda>rho. rho x = rho y) (ctx_nodes ctx1) st"
    using Cons.prems(1) [OF Cons.prems(2), of x y] by auto
  show ?case
  proof (cases "st = HM_OK")
    case False
    have "returns (\<lambda>n. hm_unify_args grants n ctx (x # xs) (y # ys) want) (ctx1, st, e)"
      unfolding hm_unify_args.simps by (rule bind_triple [OF r1(1)]) (simp add: False returnsI)
    moreover have "unified (ctx_nodes ctx) (\<lambda>rho. map rho (x # xs) = map rho (y # ys)) (ctx_nodes ctx1) st"
      using unified_fail [OF r1(2) False] by simp
    ultimately show ?thesis by (intro exI [of _ "(ctx1, st, e)"]) simp
  next
    case True
    have b1: "below ns (ctx_nodes ctx1)" using below_trans [OF Cons.prems(2)] r1(2) by (simp add: unified_def)
    have "\<exists>res. returns (\<lambda>n. hm_unify grants n ctx x y want) res \<and> outcome (ctx_nodes ctx) (\<lambda>rho. rho x = rho y) res"
      if "below ns (ctx_nodes ctx)" "x \<in> set xs" "y \<in> set ys" for ctx x y
      using Cons.prems(1) that by simp
    then obtain res where r2: "returns (\<lambda>n. hm_unify_args grants n ctx1 xs ys want) res"
      "outcome (ctx_nodes ctx1) (\<lambda>rho. map rho xs = map rho ys) res"
      using Cons.IH [OF _ b1] by blast
    have "returns (\<lambda>n. hm_unify_args grants n ctx (x # xs) (y # ys) want) res"
      unfolding hm_unify_args.simps by (rule bind_triple [OF r1(1)]) (use r2(1) True in simp)
    moreover have "outcome (ctx_nodes ctx) (\<lambda>rho. map rho (x # xs) = map rho (y # ys)) res"
      using unified_and [OF _ r2(2)] r1(2) True by simp
    ultimately show ?thesis by blast
  qed
qed

lemma smaller:
  assumes "below ns ns'" and "term_of ns a = F g (map (term_of ns) as)" and "x \<in> set as"
  shows "card (unbound ns') < card (unbound ns)
    \<or> card (unbound ns') = card (unbound ns) \<and> size (term_of ns' x) < size (term_of ns a)"
proof (cases "unbound ns' = unbound ns")
  case True
  then show ?thesis using assms arg_size [OF assms(3), of "term_of ns" g] by (simp add: below_def)
next
  case False
  then show ?thesis using assms(1) by (auto simp: below_def intro: psubset_card_mono)
qed

lemma unify_spec:
  "wf_nodes (ctx_nodes ctx) \<Longrightarrow> l < length (ctx_nodes ctx) \<Longrightarrow> r < length (ctx_nodes ctx) \<Longrightarrow>
     \<exists>res. returns (\<lambda>n. hm_unify grants n ctx l r want) res \<and> outcome (ctx_nodes ctx) (\<lambda>rho. rho l = rho r) res"
proof (induction "(ctx, l)" arbitrary: ctx l r
    rule: wf_induct_rule [OF wf_measures [of "[\<lambda>(ctx, l). card (unbound (ctx_nodes ctx)), \<lambda>(ctx, l). size (term_of (ctx_nodes ctx) l)]"]])
  case 1
  let ?ns = "ctx_nodes ctx"
  note wf = "1.prems"(1)
  obtain ns1 a where a: "hm_type_prune ?ns l = Some (ns1, a)" "same ?ns ns1" "root ?ns a" "term_of ?ns a = term_of ?ns l" "wf_nodes ns1"
    using prune_wf [OF "1.prems"(1,2)] .
  have r1: "r < length ns1" using "1.prems"(3) same_facts(1) [OF a(2)] by simp
  obtain ns2 b where b: "hm_type_prune ns1 r = Some (ns2, b)" "same ns1 ns2" "root ns1 b" "term_of ns1 b = term_of ns1 r" "wf_nodes ns2"
    using prune_wf [OF a(5) r1] .
  have s: "same ?ns ns2" using same_trans a(2) b(2) by blast
  note f = same_facts [OF s]
  have ra: "root ns2 a" "root ns2 b" "term_of ns2 a = term_of ?ns l" "term_of ns2 b = term_of ?ns r"
    using f a(3,4) b(3,4) same_facts [OF b(2)] same_facts [OF a(2)] by simp_all
  have len: "a < length ns2" "b < length ns2" "a < length ?ns" "b < length ?ns" using ra(1,2) f(1) by (simp_all add: root_def)
  have eqv: "(rho l = rho r) = (rho a = rho b)" if "solves rho ?ns" for rho
    using solves_term [OF wf that] "1.prems" len(3,4) ra(3,4) f(4) by metis
  let ?ctx = "ctx\<lparr>ctx_nodes := ns2\<rparr>"
  let ?rest = "\<lambda>n. if a = b then Some (?ctx, HM_OK, None)
       else case (ns2 ! a, ns2 ! b) of
         (TVar i k, _) \<Rightarrow> hm_i_bind_var grants n ?ctx a b want
       | (TCon f as, TVar i k) \<Rightarrow> hm_i_bind_var grants n ?ctx b a want
       | (TCon f as, TCon g bs) \<Rightarrow>
           if f \<noteq> g then Some (hm_i_mismatch grants ?ctx a b want)
           else if length as \<noteq> length bs then Some (hm_i_mismatch grants ?ctx a b want)
           else hm_unify_args grants n ?ctx as bs want"
  have step: "hm_unify grants (Suc n) ctx l r want = ?rest n" for n
    by (simp add: a(1) b(1) Let_def)
  have "\<exists>res. returns ?rest res \<and> outcome ns2 (\<lambda>rho. rho a = rho b) res"
  proof (cases "a = b")
    case True
    then show ?thesis using unified_trivial [of ns2 ns2] b(5) by (intro exI [of _ "(?ctx, HM_OK, None)"]) (simp add: returnsI)
  next
    case ne: False
    show ?thesis
    proof (cases "ns2 ! a")
      case (TVar i k)
      then have "a \<in> unbound ns2" using ra(1) by (auto simp: unbound_root)
      then show ?thesis using bind_var_spec [of ?ctx a b grants want] b(5) ra(2) ne TVar by simp
    next
      case ca: (TCon f as)
      show ?thesis
      proof (cases "ns2 ! b")
        case (TVar i k)
        then have "b \<in> unbound ns2" using ra(2) by (auto simp: unbound_root)
        then have "\<exists>res. returns (\<lambda>n. hm_i_bind_var grants n ?ctx b a want) res \<and> outcome ns2 (\<lambda>rho. rho b = rho a) res"
          using bind_var_spec [of ?ctx b a grants want] b(5) ra(1) ne by simp
        moreover have "(\<lambda>rho. rho b = rho a) = (\<lambda>rho :: tptr \<Rightarrow> hm_term. rho a = rho b)" by (intro ext) auto
        ultimately show ?thesis using ne ca TVar by simp
      next
        case cb: (TCon g bs)
        note ta = con_term [OF b(5) len(1) ca] and tb = con_term [OF b(5) len(2) cb]
        have args: "(rho a = rho b) = (f = g \<and> map rho as = map rho bs)" if "solves rho ns2" for rho
          using that len(1,2) ca cb by (auto simp: solves_def split: hm_type.splits)
        show ?thesis
        proof (cases "f = g \<and> length as = length bs")
          case False
          have "unified ns2 (\<lambda>rho. rho a = rho b) ns2 HM_ERROR_MISMATCH"
            by (rule unified_clash [OF same_refl b(5)]) (use args False in \<open>auto dest: map_eq_imp_length_eq\<close>)
          moreover have "?rest n = Some (hm_i_mismatch grants ?ctx a b want)" for n using ne ca cb False by auto
          ultimately show ?thesis using mismatch_facts [of grants ?ctx a b want]
            by (intro exI [of _ "hm_i_mismatch grants ?ctx a b want"]) (simp add: returnsI)
        next
          case fg: True
          have ih: "\<exists>res. returns (\<lambda>n. hm_unify grants n ctx1 x y want) res \<and> outcome (ctx_nodes ctx1) (\<lambda>rho. rho x = rho y) res"
            if "below ns2 (ctx_nodes ctx1)" "x \<in> set as" "y \<in> set bs" for ctx1 x y
          proof (rule "1.hyps")
            show "((ctx1, x), ctx, l) \<in> measures [\<lambda>(ctx, l). card (unbound (ctx_nodes ctx)), \<lambda>(ctx, l). size (term_of (ctx_nodes ctx) l)]"
              using smaller [OF that(1) ta(1) that(2)] same_unbound [OF s] ra(3) by simp
            show "wf_nodes (ctx_nodes ctx1)" "x < length (ctx_nodes ctx1)" "y < length (ctx_nodes ctx1)"
              using that ta(2) tb(2) by (simp_all add: below_def)
          qed
          have lab: "length as = length bs" using fg by simp
          have bl: "below ns2 (ctx_nodes ?ctx)" using below_refl [OF b(5)] by simp
          obtain res where res: "returns (\<lambda>n. hm_unify_args grants n ?ctx as bs want) res"
            "outcome ns2 (\<lambda>rho. map rho as = map rho bs) res"
            using unify_args_spec [OF lab ih bl] by auto
          have "outcome ns2 (\<lambda>rho. rho a = rho b) res"
            using res(2) unified_cong [of ns2 "\<lambda>rho. rho a = rho b" "\<lambda>rho. map rho as = map rho bs"] args fg by blast
          then show ?thesis using res(1) ne ca cb fg by (intro exI [of _ res]) simp
        qed
      qed
    qed
  qed
  then obtain res where res: "returns (\<lambda>n. hm_unify grants (Suc n) ctx l r want) res" "outcome ns2 (\<lambda>rho. rho a = rho b) res"
    unfolding step by blast
  have "outcome ?ns (\<lambda>rho. rho l = rho r) res"
    using unified_same [OF s wf res(2)] unified_cong [of ?ns "\<lambda>rho. rho l = rho r" "\<lambda>rho. rho a = rho b"] eqv by blast
  then show ?case using returns_Suc [of "\<lambda>n. hm_unify grants n ctx l r want"] res(1) by blast
qed

text \<open>C12: On every acyclic graph of types unification returns. If it succeeds, the two nodes denote the same type
  afterwards, all types are instances of what they were under one substitution, and that substitution is most
  general: every substitution that makes the two types equal factors through it. If it fails, no
  substitution makes the two types equal. The graph stays acyclic in both cases.\<close>

theorem unify_mgu:
  assumes "wf_nodes (ctx_nodes ctx)" and "l < length (ctx_nodes ctx)" and "r < length (ctx_nodes ctx)"
  shows "\<exists>ctx' st e n0. (\<forall>n \<ge> n0. hm_unify grants n ctx l r want = Some (ctx', st, e))
    \<and> wf_nodes (ctx_nodes ctx') \<and> length (ctx_nodes ctx') = length (ctx_nodes ctx)
    \<and> (st = HM_OK \<longrightarrow> term_of (ctx_nodes ctx') l = term_of (ctx_nodes ctx') r
        \<and> (\<exists>sg. \<forall>a < length (ctx_nodes ctx). term_of (ctx_nodes ctx') a = inst sg (term_of (ctx_nodes ctx) a))
        \<and> (\<forall>th. inst th (term_of (ctx_nodes ctx) l) = inst th (term_of (ctx_nodes ctx) r) \<longrightarrow>
             (\<forall>a < length (ctx_nodes ctx). inst th (term_of (ctx_nodes ctx) a) = inst th (term_of (ctx_nodes ctx') a))))
    \<and> (st \<noteq> HM_OK \<longrightarrow> (\<forall>th. inst th (term_of (ctx_nodes ctx) l) \<noteq> inst th (term_of (ctx_nodes ctx) r)))"
proof -
  let ?ns = "ctx_nodes ctx"
  obtain ctx' st e where res: "returns (\<lambda>n. hm_unify grants n ctx l r want) (ctx', st, e)"
    "unified ?ns (\<lambda>rho. rho l = rho r) (ctx_nodes ctx') st"
    using unify_spec [OF assms, of grants want] by auto
  let ?ns' = "ctx_nodes ctx'"
  have wf': "wf_nodes ?ns'" and len: "length ?ns' = length ?ns" and sub: "unbound ?ns' \<subseteq> unbound ?ns"
    using res(2) by (simp_all add: unified_def below_def)
  have sol: "solves (term_of ?ns') ?ns'"
    using inst_solves [OF wf', of V] by simp
  have old: "solves (term_of ?ns') ?ns" using res(2) sol by (simp add: unified_def below_def)
  have ok: "term_of ?ns' l = term_of ?ns' r" "term_of ?ns' a = inst (term_of ?ns') (term_of ?ns a)"
    if "st = HM_OK" "a < length ?ns" for a
    using res(2) that sol old solves_term [OF assms(1) old] by (auto simp: unified_def)
  have mg: "inst th (term_of ?ns a) = inst th (term_of ?ns' a)"
    if "st = HM_OK" "inst th (term_of ?ns l) = inst th (term_of ?ns r)" "a < length ?ns" for th a
  proof -
    let ?rho = "\<lambda>a. inst th (term_of ?ns a)"
    have "solves ?rho ?ns'" using res(2) inst_solves [OF assms(1), of th] that(1,2) by (simp add: unified_def)
    then have "?rho a = inst ?rho (term_of ?ns' a)" using solves_term [OF wf'] that(3) len by simp
    also have "\<dots> = inst th (term_of ?ns' a)"
    proof (rule inst_cong)
      fix v
      assume "v \<in> tvars (term_of ?ns' a)"
      then have "v \<in> unbound ?ns'" using tvars_unbound [OF den_term_of [OF wf']] that(3) len by (auto simp: unbound_def)
      then have "v \<in> unbound ?ns" using sub by blast
      then have "term_of ?ns v = V v" using free_term by (auto simp: unbound_def)
      then show "inst th (term_of ?ns v) = th v" by simp
    qed
    finally show ?thesis .
  qed
  have no: "inst th (term_of ?ns l) \<noteq> inst th (term_of ?ns r)" if "st \<noteq> HM_OK" for th
    using res(2) inst_solves [OF assms(1), of th] that by (auto simp: unified_def)
  obtain n0 where "\<forall>n \<ge> n0. hm_unify grants n ctx l r want = Some (ctx', st, e)" using res(1) by (auto simp: returns_def)
  then show ?thesis using wf' len ok mg no assms(2) by blast
qed

text \<open>The types \<open>a -> a\<close> and \<open>int -> b\<close>.\<close>

definition arrows :: hm_ctx where
  "arrows = \<lparr>ctx_nodes = [TVar 0 None, TVar 1 None, TCon ''int'' [], TCon ''->'' [0, 0], TCon ''->'' [2, 1]],
     ctx_next_id = 2, ctx_origin = None, ctx_envs = [], ctx_allocs = 0\<rparr>"

lemma arrows_den:
  "den (ctx_nodes arrows) 0 (V 0)" "den (ctx_nodes arrows) 1 (V 1)" "den (ctx_nodes arrows) 2 (F ''int'' [])"
  "den (ctx_nodes arrows) 3 (F ''->'' [V 0, V 0])" "den (ctx_nodes arrows) 4 (F ''->'' [F ''int'' [], V 1])"
proof -
  show d: "den (ctx_nodes arrows) 0 (V 0)" "den (ctx_nodes arrows) 1 (V 1)" "den (ctx_nodes arrows) 2 (F ''int'' [])"
    by (auto simp: arrows_def intro!: den_free den_con)
  show "den (ctx_nodes arrows) 3 (F ''->'' [V 0, V 0])" "den (ctx_nodes arrows) 4 (F ''->'' [F ''int'' [], V 1])"
    using d by (auto simp: arrows_def intro!: den_con)
qed

lemma arrows_wf: "wf_nodes (ctx_nodes arrows)"
proof -
  have "a < length (ctx_nodes arrows) \<Longrightarrow> a = 0 \<or> a = 1 \<or> a = 2 \<or> a = 3 \<or> a = 4" for a by (auto simp: arrows_def)
  then show ?thesis unfolding wf_nodes_def using arrows_den by blast
qed

theorem unify_mgu_witness:
  "\<exists>ctx' e n. hm_unify (\<lambda>k. True) n arrows 3 4 True = Some (ctx', HM_OK, e)
     \<and> term_of (ctx_nodes ctx') 3 = F ''->'' [F ''int'' [], F ''int'' []] \<and> term_of (ctx_nodes ctx') 1 = F ''int'' []"
proof -
  let ?ns = "ctx_nodes arrows"
  note t = arrows_den [THEN term_of_eq]
  have l: "3 < length ?ns" "4 < length ?ns" "1 < length ?ns" by (simp_all add: arrows_def)
  obtain ctx' st e n0 where r: "\<forall>n \<ge> n0. hm_unify (\<lambda>k. True) n arrows 3 4 True = Some (ctx', st, e)"
    and ok: "st = HM_OK \<longrightarrow> term_of (ctx_nodes ctx') 3 = term_of (ctx_nodes ctx') 4
        \<and> (\<exists>sg. \<forall>a < length ?ns. term_of (ctx_nodes ctx') a = inst sg (term_of ?ns a))"
    and no: "st \<noteq> HM_OK \<longrightarrow> (\<forall>th. inst th (term_of ?ns 3) \<noteq> inst th (term_of ?ns 4))"
    using unify_mgu [OF arrows_wf l(1,2), of "\<lambda>k. True" True] by blast
  have "inst (\<lambda>v. F ''int'' []) (term_of ?ns 3) = inst (\<lambda>v. F ''int'' []) (term_of ?ns 4)" using t by simp
  then have st: "st = HM_OK" using no by blast
  then obtain sg where sg: "\<forall>a < length ?ns. term_of (ctx_nodes ctx') a = inst sg (term_of ?ns a)"
    and eq: "term_of (ctx_nodes ctx') 3 = term_of (ctx_nodes ctx') 4" using ok by blast
  have "term_of (ctx_nodes ctx') 3 = F ''->'' [sg 0, sg 0]" "term_of (ctx_nodes ctx') 4 = F ''->'' [F ''int'' [], sg 1]"
    "term_of (ctx_nodes ctx') 1 = sg 1"
    using sg l t by simp_all
  then show ?thesis using eq r st by (intro exI [of _ ctx'] exI [of _ e] exI [of _ n0]) simp
qed

end
