(* ===== verification/Hm_Scheme.thy ===== *)
theory Hm_Scheme
  imports Hm_Type
begin

text \<open>
  \<open>libhm89\<close>, polymorphism (\<open>hm_ftv.c\<close>, \<open>hm_env.c\<close>, \<open>hm_scheme.c\<close>) and rendering (\<open>hm_print.c\<close>).

  A scheme never changes once it is made, so it is a value; an environment is a position in the list of the
  environments of its context, because a child shares its parent.
\<close>

section \<open>Sets of variables\<close>

record hm_i_set =
  set_cap :: nat
  set_items :: "tptr list"

definition hm_i_set_new :: "(nat \<Rightarrow> bool) \<Rightarrow> hm_ctx \<Rightarrow> hm_ctx \<times> hm_i_set option" where
  "hm_i_set_new grants ctx =
     (case hm_i_alloc grants ctx of (ctx, ok) \<Rightarrow> (ctx, if \<not> ok then None else Some \<lparr>set_cap = 0, set_items = []\<rparr>))"

definition hm_i_set_has :: "hm_i_set \<Rightarrow> tptr \<Rightarrow> bool" where
  "hm_i_set_has s v \<longleftrightarrow> v \<in> set (set_items s)"

definition hm_i_set_count :: "hm_i_set \<Rightarrow> nat" where
  "hm_i_set_count s = length (set_items s)"

definition hm_i_set_at :: "hm_i_set \<Rightarrow> nat \<Rightarrow> tptr" where
  "hm_i_set_at s i = set_items s ! i"

definition hm_i_grow_cap :: "nat \<Rightarrow> nat" where
  "hm_i_grow_cap cap = (if cap = 0 then 4 else cap * 2)"

definition hm_i_set_grow :: "(nat \<Rightarrow> bool) \<Rightarrow> hm_ctx \<Rightarrow> hm_i_set \<Rightarrow> hm_ctx \<times> hm_i_set" where
  "hm_i_set_grow grants ctx s =
     (case hm_i_alloc grants ctx of (ctx, ok) \<Rightarrow> (ctx, if \<not> ok then s else s\<lparr>set_cap := hm_i_grow_cap (set_cap s)\<rparr>))"

definition hm_i_set_add :: "(nat \<Rightarrow> bool) \<Rightarrow> hm_ctx \<Rightarrow> hm_i_set \<Rightarrow> tptr \<Rightarrow> hm_ctx \<times> hm_i_set" where
  "hm_i_set_add grants ctx s v =
     (if hm_i_set_has s v then (ctx, s)
      else case (if length (set_items s) = set_cap s then hm_i_set_grow grants ctx s else (ctx, s)) of (ctx, s) \<Rightarrow>
        if length (set_items s) = set_cap s then (ctx, s) else (ctx, s\<lparr>set_items := set_items s @ [v]\<rparr>))"

section \<open>Free variables\<close>

fun hm_i_type_ftv :: "(nat \<Rightarrow> bool) \<Rightarrow> nat \<Rightarrow> hm_ctx \<Rightarrow> tptr \<Rightarrow> hm_i_set \<Rightarrow> (hm_ctx \<times> hm_i_set) option"
  and hm_i_type_ftv_args :: "(nat \<Rightarrow> bool) \<Rightarrow> nat \<Rightarrow> hm_ctx \<Rightarrow> tptr list \<Rightarrow> hm_i_set \<Rightarrow> (hm_ctx \<times> hm_i_set) option" where
  "hm_i_type_ftv grants 0 ctx t out = None"
| "hm_i_type_ftv grants (Suc n) ctx t out =
     do { (ns, p) \<leftarrow> hm_type_prune (ctx_nodes ctx) t;
          let ctx = ctx\<lparr>ctx_nodes := ns\<rparr>;
          case ns ! p of
            TVar i l \<Rightarrow> Some (hm_i_set_add grants ctx out p)
          | TCon f args \<Rightarrow> hm_i_type_ftv_args grants n ctx args out }"
| "hm_i_type_ftv_args grants n ctx [] out = Some (ctx, out)"
| "hm_i_type_ftv_args grants n ctx (a # as) out =
     do { (ctx, out) \<leftarrow> hm_i_type_ftv grants n ctx a out; hm_i_type_ftv_args grants n ctx as out }"

definition hm_i_var_quantified :: "tptr \<Rightarrow> hm_scheme \<Rightarrow> bool" where
  "hm_i_var_quantified v sc \<longleftrightarrow> v \<in> set (sc_vars sc)"

definition hm_i_add_free_index :: "(nat \<Rightarrow> bool) \<Rightarrow> hm_scheme \<Rightarrow> hm_i_set \<Rightarrow> nat \<Rightarrow> hm_ctx \<times> hm_i_set \<Rightarrow> hm_ctx \<times> hm_i_set" where
  "hm_i_add_free_index grants sc body i =
     (\<lambda>(ctx, out). let item = hm_i_set_at body i in
        if \<not> hm_i_var_quantified item sc then hm_i_set_add grants ctx out item else (ctx, out))"

definition hm_i_scheme_ftv :: "(nat \<Rightarrow> bool) \<Rightarrow> nat \<Rightarrow> hm_ctx \<Rightarrow> hm_scheme \<Rightarrow> hm_i_set \<Rightarrow> (hm_ctx \<times> hm_i_set) option" where
  "hm_i_scheme_ftv grants n ctx sc out =
     (case hm_i_set_new grants ctx of
        (ctx, None) \<Rightarrow> Some (ctx, out)
      | (ctx, Some body) \<Rightarrow>
          do { (ctx, body) \<leftarrow> hm_i_type_ftv grants n ctx (sc_body sc) body;
               Some (fold (hm_i_add_free_index grants sc body) [0..<hm_i_set_count body] (ctx, out)) })"

fun hm_i_scope_ftv :: "(nat \<Rightarrow> bool) \<Rightarrow> nat \<Rightarrow> hm_ctx \<Rightarrow> (string \<times> hm_scheme) list \<Rightarrow> hm_i_set \<Rightarrow> (hm_ctx \<times> hm_i_set) option" where
  "hm_i_scope_ftv grants n ctx [] out = Some (ctx, out)"
| "hm_i_scope_ftv grants n ctx (b # bs) out =
     do { (ctx, out) \<leftarrow> hm_i_scheme_ftv grants n ctx (snd b) out; hm_i_scope_ftv grants n ctx bs out }"

partial_function (option) hm_i_env_ftv :: "(nat \<Rightarrow> bool) \<Rightarrow> nat \<Rightarrow> hm_ctx \<Rightarrow> nat option \<Rightarrow> hm_i_set \<Rightarrow> (hm_ctx \<times> hm_i_set) option" where
  "hm_i_env_ftv grants n ctx env out =
     (case env of
        None \<Rightarrow> Some (ctx, out)
      | Some e \<Rightarrow>
          Option.bind (hm_i_scope_ftv grants n ctx (env_bindings (ctx_envs ctx ! e)) out)
            (\<lambda>(ctx, out). hm_i_env_ftv grants n ctx (env_parent (ctx_envs ctx ! e)) out))"

section \<open>Environments\<close>

definition hm_env_new :: "(nat \<Rightarrow> bool) \<Rightarrow> hm_ctx \<Rightarrow> hm_ctx \<times> nat option" where
  "hm_env_new grants ctx =
     (case hm_i_alloc grants ctx of (ctx, ok) \<Rightarrow>
        if \<not> ok then (ctx, None)
        else (ctx\<lparr>ctx_envs := ctx_envs ctx @ [\<lparr>env_parent = None, env_bindings = []\<rparr>]\<rparr>, Some (length (ctx_envs ctx))))"

definition hm_env_child :: "(nat \<Rightarrow> bool) \<Rightarrow> hm_ctx \<Rightarrow> nat option \<Rightarrow> hm_ctx \<times> nat option" where
  "hm_env_child grants ctx parent =
     (case hm_env_new grants ctx of
        (ctx, None) \<Rightarrow> (ctx, None)
      | (ctx, Some e) \<Rightarrow> (ctx\<lparr>ctx_envs := (ctx_envs ctx)[e := (ctx_envs ctx ! e)\<lparr>env_parent := parent\<rparr>]\<rparr>, Some e))"

definition hm_env_bind :: "(nat \<Rightarrow> bool) \<Rightarrow> hm_ctx \<Rightarrow> nat \<Rightarrow> string \<Rightarrow> hm_scheme option \<Rightarrow> hm_ctx \<times> hm_status" where
  "hm_env_bind grants ctx e name sc =
     (case sc of
        None \<Rightarrow> (ctx, HM_ERROR_INVALID)
      | Some sc \<Rightarrow>
        (case hm_i_strdup grants ctx name of
           (ctx, None) \<Rightarrow> (ctx, HM_ERROR_NOMEM)
         | (ctx, Some n) \<Rightarrow>
           (case hm_i_alloc grants ctx of (ctx, ok) \<Rightarrow>
              if \<not> ok then (ctx, HM_ERROR_NOMEM)
              else let env = ctx_envs ctx ! e in
                (ctx\<lparr>ctx_envs := (ctx_envs ctx)[e := env\<lparr>env_bindings := (n, sc) # env_bindings env\<rparr>]\<rparr>, HM_OK))))"

fun hm_i_lookup_binding :: "(string \<times> hm_scheme) list \<Rightarrow> string \<Rightarrow> hm_scheme option" where
  "hm_i_lookup_binding [] name = None"
| "hm_i_lookup_binding (b # bs) name = (if fst b = name then Some (snd b) else hm_i_lookup_binding bs name)"

text \<open>The outer \<open>None\<close> is a chain of parents that does not end.\<close>

partial_function (option) hm_env_lookup :: "hm_env list \<Rightarrow> nat option \<Rightarrow> string \<Rightarrow> hm_scheme option option" where
  "hm_env_lookup envs env name =
     (case env of
        None \<Rightarrow> Some None
      | Some e \<Rightarrow>
        (case hm_i_lookup_binding (env_bindings (envs ! e)) name of
           Some sc \<Rightarrow> Some (Some sc)
         | None \<Rightarrow> hm_env_lookup envs (env_parent (envs ! e)) name))"

section \<open>Schemes\<close>

text \<open>Whether the arena grants a scheme for \<open>count\<close> variables.\<close>

definition hm_i_scheme_alloc :: "(nat \<Rightarrow> bool) \<Rightarrow> hm_ctx \<Rightarrow> nat \<Rightarrow> hm_ctx \<times> bool" where
  "hm_i_scheme_alloc grants ctx count =
     (case hm_i_alloc grants ctx of (ctx, ok) \<Rightarrow>
        if \<not> ok then (ctx, False) else if count \<noteq> 0 then hm_i_alloc grants ctx else (ctx, True))"

definition hm_scheme_mono :: "(nat \<Rightarrow> bool) \<Rightarrow> hm_ctx \<Rightarrow> tptr \<Rightarrow> hm_ctx \<times> hm_scheme option" where
  "hm_scheme_mono grants ctx t =
     (case hm_i_scheme_alloc grants ctx 0 of (ctx, ok) \<Rightarrow> (ctx, if \<not> ok then None else Some \<lparr>sc_vars = [], sc_body = t\<rparr>))"

fun quant_index_from :: "tptr list \<Rightarrow> nat \<Rightarrow> tptr \<Rightarrow> nat option" where
  "quant_index_from [] i v = None"
| "quant_index_from (q # qs) i v = (if q = v then Some i else quant_index_from qs (Suc i) v)"

definition hm_i_quant_index :: "hm_scheme \<Rightarrow> tptr \<Rightarrow> nat option" where
  "hm_i_quant_index sc v = quant_index_from (sc_vars sc) 0 v"

definition hm_i_quant_unbound :: "hm_nodes \<Rightarrow> tptr \<Rightarrow> (hm_nodes \<times> bool) option" where
  "hm_i_quant_unbound ns v =
     do { (ns, root) \<leftarrow> hm_type_prune ns v;
          Some (ns, case ns ! root of TCon f args \<Rightarrow> False | TVar i l \<Rightarrow> root = v) }"

definition hm_i_has_dup :: "tptr list \<Rightarrow> nat \<Rightarrow> bool" where
  "hm_i_has_dup qs k \<longleftrightarrow> list_ex (\<lambda>j. qs ! j = qs ! k) [0..<k]"

fun all_unbound :: "hm_nodes \<Rightarrow> tptr list \<Rightarrow> (hm_nodes \<times> bool) option" where
  "all_unbound ns [] = Some (ns, True)"
| "all_unbound ns (q # qs) =
     do { (ns, ok) \<leftarrow> hm_i_quant_unbound ns q; if \<not> ok then Some (ns, False) else all_unbound ns qs }"

definition hm_scheme_new :: "(nat \<Rightarrow> bool) \<Rightarrow> hm_ctx \<Rightarrow> tptr list \<Rightarrow> tptr option \<Rightarrow> (hm_ctx \<times> hm_scheme option) option" where
  "hm_scheme_new grants ctx qs body =
     (case body of
        None \<Rightarrow> Some (ctx, None)
      | Some body \<Rightarrow>
          do { (ns, ok) \<leftarrow> all_unbound (ctx_nodes ctx) qs;
               let ctx = ctx\<lparr>ctx_nodes := ns\<rparr>;
               if \<not> ok then Some (ctx, None)
               else if list_ex (hm_i_has_dup qs) [0..<length qs] then Some (ctx, None)
               else case hm_i_scheme_alloc grants ctx (length qs) of (ctx, ok) \<Rightarrow>
                 Some (ctx, if \<not> ok then None else Some \<lparr>sc_vars = qs, sc_body = body\<rparr>) })"

definition hm_scheme_quantified_count :: "hm_scheme \<Rightarrow> nat" where
  "hm_scheme_quantified_count sc = length (sc_vars sc)"

definition hm_scheme_body :: "hm_scheme \<Rightarrow> tptr" where
  "hm_scheme_body sc = sc_body sc"

text \<open>
  A copy with fresh variables; a null pointer is \<open>None\<close>. The node is allocated before its arguments are
  copied and filled in afterwards; the array of the arguments, which \<open>hm_i_clone_args\<close> of the code requests
  first, is requested by its caller. All arguments are copied before any is tested.
\<close>

fun hm_i_clone_type :: "(nat \<Rightarrow> bool) \<Rightarrow> nat \<Rightarrow> hm_ctx \<Rightarrow> hm_scheme \<Rightarrow> tptr \<Rightarrow> tptr option list \<Rightarrow> (hm_ctx \<times> tptr option) option"
  and hm_i_clone_args :: "(nat \<Rightarrow> bool) \<Rightarrow> nat \<Rightarrow> hm_ctx \<Rightarrow> hm_scheme \<Rightarrow> tptr list \<Rightarrow> tptr option list \<Rightarrow> (hm_ctx \<times> tptr option list) option" where
  "hm_i_clone_type grants 0 ctx sc t fresh = None"
| "hm_i_clone_type grants (Suc n) ctx sc t fresh =
     do { (ns, p) \<leftarrow> hm_type_prune (ctx_nodes ctx) t;
          let ctx = ctx\<lparr>ctx_nodes := ns\<rparr>;
          case ns ! p of
            TVar i l \<Rightarrow> Some (ctx, case hm_i_quant_index sc p of Some idx \<Rightarrow> fresh ! idx | None \<Rightarrow> Some p)
          | TCon f args \<Rightarrow>
            (case hm_i_type_node grants ctx of
               (ctx, None) \<Rightarrow> Some (ctx, None)
             | (ctx, Some q) \<Rightarrow>
               (if args = [] then Some (set_node ctx q (TCon f []), Some q)
                else case hm_i_alloc grants ctx of (ctx, ok) \<Rightarrow>
                  if \<not> ok then Some (ctx, None)
                  else do { (ctx, as) \<leftarrow> hm_i_clone_args grants n ctx sc args fresh;
                            if None \<in> set as then Some (ctx, None)
                            else Some (set_node ctx q (TCon f (map the as)), Some q) })) }"
| "hm_i_clone_args grants n ctx sc [] fresh = Some (ctx, [])"
| "hm_i_clone_args grants n ctx sc (a # as) fresh =
     do { (ctx, x) \<leftarrow> hm_i_clone_type grants n ctx sc a fresh;
          (ctx, xs) \<leftarrow> hm_i_clone_args grants n ctx sc as fresh;
          Some (ctx, x # xs) }"

fun fresh_vars :: "(nat \<Rightarrow> bool) \<Rightarrow> nat \<Rightarrow> hm_ctx \<Rightarrow> hm_ctx \<times> tptr option list" where
  "fresh_vars grants 0 ctx = (ctx, [])"
| "fresh_vars grants (Suc k) ctx =
     (case hm_type_var grants ctx of (ctx, v) \<Rightarrow> (case fresh_vars grants k ctx of (ctx, vs) \<Rightarrow> (ctx, v # vs)))"

definition hm_instantiate :: "(nat \<Rightarrow> bool) \<Rightarrow> nat \<Rightarrow> hm_ctx \<Rightarrow> hm_scheme \<Rightarrow> (hm_ctx \<times> tptr option) option" where
  "hm_instantiate grants n ctx sc =
     (if length (sc_vars sc) = 0 then Some (ctx, Some (sc_body sc))
      else case hm_i_alloc grants ctx of (ctx, ok) \<Rightarrow>
        if \<not> ok then Some (ctx, None)
        else case fresh_vars grants (length (sc_vars sc)) ctx of (ctx, fresh) \<Rightarrow>
          hm_i_clone_type grants n ctx sc (sc_body sc) fresh)"

definition hm_i_collect_free :: "(nat \<Rightarrow> bool) \<Rightarrow> hm_i_set \<Rightarrow> hm_i_set \<Rightarrow> nat \<Rightarrow> hm_ctx \<times> hm_i_set \<Rightarrow> hm_ctx \<times> hm_i_set" where
  "hm_i_collect_free grants free_type free_env i =
     (\<lambda>(ctx, quant). let item = hm_i_set_at free_type i in
        if \<not> hm_i_set_has free_env item then hm_i_set_add grants ctx quant item else (ctx, quant))"

definition hm_generalize :: "(nat \<Rightarrow> bool) \<Rightarrow> nat \<Rightarrow> hm_ctx \<Rightarrow> nat option \<Rightarrow> tptr \<Rightarrow> (hm_ctx \<times> hm_scheme option) option" where
  "hm_generalize grants n ctx env t =
     (case hm_i_set_new grants ctx of
        (ctx, None) \<Rightarrow> Some (ctx, None)
      | (ctx, Some free_type) \<Rightarrow>
        do { (ctx, free_type) \<leftarrow> hm_i_type_ftv grants n ctx t free_type;
          (case hm_i_set_new grants ctx of
             (ctx, None) \<Rightarrow> Some (ctx, None)
           | (ctx, Some free_env) \<Rightarrow>
             do { (ctx, free_env) \<leftarrow> hm_i_env_ftv grants n ctx env free_env;
               (case hm_i_set_new grants ctx of
                  (ctx, None) \<Rightarrow> Some (ctx, None)
                | (ctx, Some quant) \<Rightarrow>
                  (case fold (hm_i_collect_free grants free_type free_env) [0..<hm_i_set_count free_type] (ctx, quant) of
                     (ctx, quant) \<Rightarrow>
                       (case hm_i_scheme_alloc grants ctx (hm_i_set_count quant) of (ctx, ok) \<Rightarrow>
                          Some (ctx, if \<not> ok then None else Some \<lparr>sc_vars = set_items quant, sc_body = t\<rparr>)))) }) })"

section \<open>Rendering\<close>

text \<open>
  The buffer grows by \<open>realloc\<close>: \<open>mems k\<close> tells whether request \<open>k\<close> of a rendering succeeds. A request that
  fails sets the flag and the characters are lost, the rendering goes on.
\<close>

record hm_i_render =
  rd_mem :: string
  rd_cap :: nat
  rd_seen :: "tptr list"
  rd_seen_cap :: nat
  rd_oom :: bool
  rd_reqs :: nat

definition hm_i_rb_reserve :: "(nat \<Rightarrow> bool) \<Rightarrow> hm_i_render \<Rightarrow> nat \<Rightarrow> hm_i_render \<times> bool" where
  "hm_i_rb_reserve mems r extra =
     (if length (rd_mem r) + extra \<le> rd_cap r then (r, True)
      else let ok = mems (rd_reqs r); r = r\<lparr>rd_reqs := Suc (rd_reqs r)\<rparr> in
        if \<not> ok then (r\<lparr>rd_oom := True\<rparr>, False)
        else (r\<lparr>rd_cap := length (rd_mem r) + extra\<rparr>, True))"

definition hm_i_rb_putn :: "(nat \<Rightarrow> bool) \<Rightarrow> hm_i_render \<Rightarrow> string \<Rightarrow> hm_i_render" where
  "hm_i_rb_putn mems r s =
     (case hm_i_rb_reserve mems r (length s) of (r, ok) \<Rightarrow> if \<not> ok then r else r\<lparr>rd_mem := rd_mem r @ s\<rparr>)"

definition hm_i_rb_putc :: "(nat \<Rightarrow> bool) \<Rightarrow> hm_i_render \<Rightarrow> char \<Rightarrow> hm_i_render" where
  "hm_i_rb_putc mems r c =
     (case hm_i_rb_reserve mems r 1 of (r, ok) \<Rightarrow> if \<not> ok then r else r\<lparr>rd_mem := rd_mem r @ [c]\<rparr>)"

definition hm_i_rb_puts :: "(nat \<Rightarrow> bool) \<Rightarrow> hm_i_render \<Rightarrow> string \<Rightarrow> hm_i_render" where
  "hm_i_rb_puts mems r s = hm_i_rb_putn mems r s"

function hm_i_rb_ulong :: "(nat \<Rightarrow> bool) \<Rightarrow> hm_i_render \<Rightarrow> nat \<Rightarrow> hm_i_render" where
  "hm_i_rb_ulong mems r v =
     (let q = v div 10; r = (if q \<noteq> 0 then hm_i_rb_ulong mems r q else r) in
      hm_i_rb_putc mems r (char_of (48 + v mod 10)))"
  by pat_completeness auto
termination by (relation "measure (\<lambda>(mems, r, v). v)") auto

definition hm_i_next_cap :: "nat \<Rightarrow> nat" where
  "hm_i_next_cap cap = (if cap = 0 then 8 else cap * 2)"

definition hm_i_grow_seen :: "(nat \<Rightarrow> bool) \<Rightarrow> hm_i_render \<Rightarrow> hm_i_render \<times> bool" where
  "hm_i_grow_seen mems r =
     (let ok = mems (rd_reqs r); r = r\<lparr>rd_reqs := Suc (rd_reqs r)\<rparr> in
      if \<not> ok then (r, False) else (r\<lparr>rd_seen_cap := hm_i_next_cap (rd_seen_cap r)\<rparr>, True))"

definition hm_i_seen_find :: "hm_i_render \<Rightarrow> tptr \<Rightarrow> nat option" where
  "hm_i_seen_find r v = quant_index_from (rd_seen r) 0 v"

definition hm_i_seen_index :: "(nat \<Rightarrow> bool) \<Rightarrow> hm_i_render \<Rightarrow> tptr \<Rightarrow> hm_i_render \<times> nat" where
  "hm_i_seen_index mems r v =
     (case hm_i_seen_find r v of
        Some idx \<Rightarrow> (r, idx)
      | None \<Rightarrow>
        (case (if length (rd_seen r) = rd_seen_cap r then hm_i_grow_seen mems r else (r, True)) of (r, ok) \<Rightarrow>
           if \<not> ok then (r\<lparr>rd_oom := True\<rparr>, 0)
           else (r\<lparr>rd_seen := rd_seen r @ [v]\<rparr>, length (rd_seen r))))"

definition hm_i_name_index :: "(nat \<Rightarrow> bool) \<Rightarrow> hm_i_render \<Rightarrow> nat \<Rightarrow> hm_i_render" where
  "hm_i_name_index mems r index =
     (let letter = index mod 26; round = index div 26; r = hm_i_rb_putc mems r (char_of (97 + letter)) in
      if round \<noteq> 0 then hm_i_rb_ulong mems r round else r)"

definition hm_i_render_var :: "(nat \<Rightarrow> bool) \<Rightarrow> hm_i_render \<Rightarrow> tptr \<Rightarrow> hm_i_render" where
  "hm_i_render_var mems r v =
     (case hm_i_seen_index mems r v of (r, idx) \<Rightarrow> hm_i_name_index mems (hm_i_rb_putc mems r (char_of (39 :: nat))) idx)"

fun hm_i_render_type :: "(nat \<Rightarrow> bool) \<Rightarrow> nat \<Rightarrow> hm_nodes \<Rightarrow> hm_i_render \<Rightarrow> tptr \<Rightarrow> (hm_nodes \<times> hm_i_render) option"
  and hm_i_render_args :: "(nat \<Rightarrow> bool) \<Rightarrow> nat \<Rightarrow> hm_nodes \<Rightarrow> hm_i_render \<Rightarrow> bool \<Rightarrow> tptr list \<Rightarrow> (hm_nodes \<times> hm_i_render) option" where
  "hm_i_render_type mems 0 ns r t = None"
| "hm_i_render_type mems (Suc n) ns r t =
     do { (ns, p) \<leftarrow> hm_type_prune ns t;
          case ns ! p of
            TVar i l \<Rightarrow> Some (ns, hm_i_render_var mems r p)
          | TCon f args \<Rightarrow>
              let r = hm_i_rb_puts mems r f in
              if args = [] then Some (ns, r)
              else do { (ns, r) \<leftarrow> hm_i_render_args mems n ns (hm_i_rb_putc mems r CHR ''('') True args;
                        Some (ns, hm_i_rb_putc mems r CHR '')'') } }"
| "hm_i_render_args mems n ns r first [] = Some (ns, r)"
| "hm_i_render_args mems n ns r first (a # as) =
     do { (ns, r) \<leftarrow> hm_i_render_type mems n ns (if first then r else hm_i_rb_putc mems r CHR '','') a;
          hm_i_render_args mems n ns r False as }"

fun render_quantified :: "(nat \<Rightarrow> bool) \<Rightarrow> hm_i_render \<Rightarrow> bool \<Rightarrow> tptr list \<Rightarrow> hm_i_render" where
  "render_quantified mems r first [] = r"
| "render_quantified mems r first (v # vs) =
     render_quantified mems (hm_i_render_var mems (if first then r else hm_i_rb_putc mems r CHR '' '') v) False vs"

definition hm_i_render_scheme :: "(nat \<Rightarrow> bool) \<Rightarrow> nat \<Rightarrow> hm_nodes \<Rightarrow> hm_i_render \<Rightarrow> hm_scheme \<Rightarrow> (hm_nodes \<times> hm_i_render) option" where
  "hm_i_render_scheme mems n ns r sc =
     (let r = (if length (sc_vars sc) \<noteq> 0
               then hm_i_rb_puts mems (render_quantified mems (hm_i_rb_puts mems r ''forall '') True (sc_vars sc)) ''. ''
               else r) in
      hm_i_render_type mems n ns r (sc_body sc))"

text \<open>The output callback gets the text; \<open>accepts\<close> is whether it returns a non-zero value.\<close>

definition hm_i_render_emit :: "hm_i_render \<Rightarrow> (string \<Rightarrow> bool) \<Rightarrow> hm_status \<times> string option" where
  "hm_i_render_emit r accepts =
     (if rd_oom r then (HM_ERROR_NOMEM, None)
      else if \<not> accepts (rd_mem r) then (HM_ERROR_INTERNAL, Some (rd_mem r)) else (HM_OK, Some (rd_mem r)))"

definition render_start :: hm_i_render where
  "render_start = \<lparr>rd_mem = [], rd_cap = 0, rd_seen = [], rd_seen_cap = 0, rd_oom = False, rd_reqs = 0\<rparr>"

definition hm_type_write :: "(nat \<Rightarrow> bool) \<Rightarrow> nat \<Rightarrow> hm_nodes \<Rightarrow> tptr \<Rightarrow> (string \<Rightarrow> bool) \<Rightarrow> (hm_nodes \<times> hm_status \<times> string option) option" where
  "hm_type_write mems n ns t accepts =
     do { (ns, r) \<leftarrow> hm_i_render_type mems n ns render_start t; Some (ns, hm_i_render_emit r accepts) }"

definition hm_scheme_write :: "(nat \<Rightarrow> bool) \<Rightarrow> nat \<Rightarrow> hm_nodes \<Rightarrow> hm_scheme \<Rightarrow> (string \<Rightarrow> bool) \<Rightarrow> (hm_nodes \<times> hm_status \<times> string option) option" where
  "hm_scheme_write mems n ns sc accepts =
     do { (ns, r) \<leftarrow> hm_i_render_scheme mems n ns render_start sc; Some (ns, hm_i_render_emit r accepts) }"

end
