(* ===== verification/Hm_Free.thy ===== *)
theory Hm_Free
  imports Hm_Unify Hm_Scheme
begin

text \<open>
  Free variables and generalisation: if memory is granted, the traversals of types, schemes and environments
  collect exactly their free variables, and generalisation quantifies those of the type that are not free
  in the environment. If it is not granted, generalisation can quantify a variable of the environment.
\<close>

section \<open>Sets\<close>

definition set_ok :: "hm_i_set \<Rightarrow> bool" where
  "set_ok s \<longleftrightarrow> length (set_items s) \<le> set_cap s \<and> distinct (set_items s)"

text \<open>Only nodes are compressed and allocations counted.\<close>

definition calm :: "hm_ctx \<Rightarrow> hm_ctx \<Rightarrow> bool" where
  "calm ctx ctx' \<longleftrightarrow> same (ctx_nodes ctx) (ctx_nodes ctx') \<and> ctx_envs ctx' = ctx_envs ctx \<and> ctx_next_id ctx' = ctx_next_id ctx"

lemma calm_refl [simp]: "calm ctx ctx"
  by (simp add: calm_def)

lemma calm_trans: "calm ctx ctx1 \<Longrightarrow> calm ctx1 ctx2 \<Longrightarrow> calm ctx ctx2"
  using same_trans by (auto simp: calm_def)

lemma calm_alloc: "hm_i_alloc g ctx = (ctx', b) \<Longrightarrow> calm ctx ctx'"
  by (auto simp: hm_i_alloc_def calm_def)

lemma set_new_granted:
  assumes "\<And>k. g k"
  obtains ctx' where "hm_i_set_new g ctx = (ctx', Some \<lparr>set_cap = 0, set_items = []\<rparr>)" "calm ctx ctx'"
  using assms by (simp add: hm_i_set_new_def hm_i_alloc_def calm_def)

lemma set_add_granted:
  assumes "\<And>k. g k" and "set_ok s"
  obtains ctx' s' where "hm_i_set_add g ctx s v = (ctx', s')" "calm ctx ctx'" "set_ok s'"
    "set (set_items s') = insert v (set (set_items s))"
proof (cases "hm_i_set_has s v")
  case True
  then show ?thesis using that [of ctx s] assms(2) by (auto simp: hm_i_set_add_def hm_i_set_has_def)
next
  case False
  let ?c = "if length (set_items s) = set_cap s then ctx\<lparr>ctx_allocs := Suc (ctx_allocs ctx)\<rparr> else ctx"
  let ?s = "s\<lparr>set_cap := (if length (set_items s) = set_cap s then hm_i_grow_cap (set_cap s) else set_cap s), set_items := set_items s @ [v]\<rparr>"
  have "hm_i_set_add g ctx s v = (?c, ?s)"
    using False assms by (simp add: hm_i_set_add_def hm_i_set_grow_def hm_i_alloc_def hm_i_grow_cap_def)
  moreover have "set_ok ?s" using False assms(2) by (auto simp: set_ok_def hm_i_grow_cap_def hm_i_set_has_def)
  moreover have "calm ctx ?c" by (simp add: calm_def)
  ultimately show ?thesis using that by simp
qed

section \<open>Free variables\<close>

definition collects :: "hm_ctx \<Rightarrow> hm_i_set \<Rightarrow> tptr set \<Rightarrow> hm_ctx \<times> hm_i_set \<Rightarrow> bool" where
  "collects ctx out A res \<longleftrightarrow> calm ctx (fst res) \<and> set_ok (snd res) \<and> set (set_items (snd res)) = set (set_items out) \<union> A"

lemma collects_nil: "set_ok out \<Longrightarrow> collects ctx out {} (ctx, out)"
  by (simp add: collects_def)

lemma collects_trans: "collects ctx out A (ctx1, out1) \<Longrightarrow> collects ctx1 out1 B res \<Longrightarrow> collects ctx out (A \<union> B) res"
  using calm_trans by (auto simp: collects_def)

lemma ftv_args:
  assumes "\<And>ctx1 x out. calm ctx ctx1 \<Longrightarrow> x \<in> set as \<Longrightarrow> set_ok out \<Longrightarrow>
       \<exists>res. returns (\<lambda>n. hm_i_type_ftv g n ctx1 x out) res \<and> collects ctx1 out (tvars (term_of (ctx_nodes ctx) x)) res"
    and "calm ctx ctx1" and "set_ok out"
  shows "\<exists>res. returns (\<lambda>n. hm_i_type_ftv_args g n ctx1 as out) res
     \<and> collects ctx1 out (\<Union>x \<in> set as. tvars (term_of (ctx_nodes ctx) x)) res"
  using assms
proof (induction as arbitrary: ctx1 out)
  case Nil
  then show ?case using collects_nil [of out ctx1] by (intro exI [of _ "(ctx1, out)"]) (simp add: returnsI)
next
  case (Cons x xs)
  obtain ctx2 out2 where r1: "returns (\<lambda>n. hm_i_type_ftv g n ctx1 x out) (ctx2, out2)"
    "collects ctx1 out (tvars (term_of (ctx_nodes ctx) x)) (ctx2, out2)"
    using Cons.prems(1) [OF Cons.prems(2) _ Cons.prems(3), of x] by auto
  have c2: "calm ctx ctx2" "set_ok out2" using r1(2) calm_trans Cons.prems(2) by (auto simp: collects_def)
  have "\<exists>res. returns (\<lambda>n. hm_i_type_ftv g n ctx1 y out) res \<and> collects ctx1 out (tvars (term_of (ctx_nodes ctx) y)) res"
    if "calm ctx ctx1" "y \<in> set xs" "set_ok out" for ctx1 y out
    using Cons.prems(1) that by simp
  then obtain res where r2: "returns (\<lambda>n. hm_i_type_ftv_args g n ctx2 xs out2) res"
    "collects ctx2 out2 (\<Union>x \<in> set xs. tvars (term_of (ctx_nodes ctx) x)) res"
    using Cons.IH [OF _ c2] by blast
  have "returns (\<lambda>n. hm_i_type_ftv_args g n ctx1 (x # xs) out) res"
    unfolding hm_i_type_ftv_args.simps by (rule bind_pair [OF r1(1)]) (use r2(1) in simp)
  then show ?case using collects_trans [OF r1(2) r2(2)] by (intro exI [of _ res]) simp
qed

lemma ftv_spec:
  assumes g: "\<And>k. g k"
  shows "wf_nodes (ctx_nodes ctx) \<Longrightarrow> t < length (ctx_nodes ctx) \<Longrightarrow> set_ok out \<Longrightarrow>
     \<exists>res. returns (\<lambda>n. hm_i_type_ftv g n ctx t out) res \<and> collects ctx out (tvars (term_of (ctx_nodes ctx) t)) res"
proof (induction "size (term_of (ctx_nodes ctx) t)" arbitrary: ctx t out rule: less_induct)
  case less
  let ?ns = "ctx_nodes ctx"
  obtain ns1 p where p: "hm_type_prune ?ns t = Some (ns1, p)" "same ?ns ns1" "root ?ns p" "term_of ?ns p = term_of ?ns t" "wf_nodes ns1"
    using prune_wf [OF less.prems(1,2)] .
  note f = same_facts [OF p(2)]
  have rp: "root ns1 p" "p < length ns1" using f p(3) by (simp_all add: root_def)
  let ?ctx = "ctx\<lparr>ctx_nodes := ns1\<rparr>"
  have cm: "calm ctx ?ctx" using p(2) by (simp add: calm_def)
  let ?rest = "\<lambda>n. case ns1 ! p of TVar i l \<Rightarrow> Some (hm_i_set_add g ?ctx out p) | TCon f args \<Rightarrow> hm_i_type_ftv_args g n ?ctx args out"
  have step: "hm_i_type_ftv g (Suc n) ctx t out = ?rest n" for n by (simp add: p(1) Let_def)
  have "\<exists>res. returns ?rest res \<and> collects ?ctx out (tvars (term_of ?ns t)) res"
  proof (cases "ns1 ! p")
    case (TVar i l)
    then have "term_of ?ns t = V p" using root_var_term p(5) rp(1) f(4) p(4) by metis
    moreover obtain ctx' s' where "hm_i_set_add g ?ctx out p = (ctx', s')" "calm ?ctx ctx'" "set_ok s'"
        "set (set_items s') = insert p (set (set_items out))"
      by (rule set_add_granted [OF g less.prems(3)])
    ultimately show ?thesis using TVar by (intro exI [of _ "(ctx', s')"]) (simp add: returnsI collects_def)
  next
    case (TCon h as)
    note c = con_term [OF p(5) rp(2) TCon]
    have ih: "\<exists>res. returns (\<lambda>n. hm_i_type_ftv g n ctx1 x out) res \<and> collects ctx1 out (tvars (term_of (ctx_nodes ?ctx) x)) res"
      if "calm ?ctx ctx1" "x \<in> set as" "set_ok out" for ctx1 x out
    proof -
      have s: "same ns1 (ctx_nodes ctx1)" using that(1) by (simp add: calm_def)
      have "size (term_of (ctx_nodes ctx1) x) < size (term_of ?ns t)"
        using arg_size [OF that(2), of "term_of ns1"] c(1) p(4) f(4) same_facts(4) [OF s] by simp
      moreover have "wf_nodes (ctx_nodes ctx1)" "x < length (ctx_nodes ctx1)"
        using same_facts [OF s] p(5) c(2) that(2) by simp_all
      ultimately show ?thesis using less.hyps [of ctx1 x out] that(3) same_facts(4) [OF s] by simp
    qed
    obtain res where res: "returns (\<lambda>n. hm_i_type_ftv_args g n ?ctx as out) res"
      "collects ?ctx out (\<Union>x \<in> set as. tvars (term_of (ctx_nodes ?ctx) x)) res"
      using ftv_args [of ?ctx as g ?ctx out, OF ih calm_refl less.prems(3)] by blast
    have "tvars (term_of ?ns t) = (\<Union>x \<in> set as. tvars (term_of ns1 x))" using c(1) p(4) f(4) by (metis (no_types, lifting) SUP_cong image_image list.set_map tvars.simps(2))
    then show ?thesis using res TCon by (intro exI [of _ res]) simp
  qed
  then obtain res where res: "returns (\<lambda>n. hm_i_type_ftv g (Suc n) ctx t out) res" "collects ?ctx out (tvars (term_of ?ns t)) res"
    unfolding step by blast
  have "collects ctx out (tvars (term_of ?ns t)) res" using res(2) calm_trans [OF cm] by (simp add: collects_def)
  then show ?case using returns_Suc [of "\<lambda>n. hm_i_type_ftv g n ctx t out"] res(1) by blast
qed

text \<open>Adding the items of a list that pass a test: the loops over the items of a set.\<close>

lemma fold_add:
  assumes g: "\<And>k. g k"
    and step: "\<And>i ctx out. i \<in> set is \<Longrightarrow> add i (ctx, out) = (if P (item i) then hm_i_set_add g ctx out (item i) else (ctx, out))"
    and "set_ok out"
  shows "collects ctx out {v \<in> item ` set is. P v} (fold add is (ctx, out))"
  using step assms(3)
proof (induction "is" arbitrary: ctx out)
  case Nil
  then show ?case by (simp add: collects_def)
next
  case (Cons i "is")
  obtain ctx1 out1 where r: "add i (ctx, out) = (ctx1, out1)" "collects ctx out {v \<in> {item i}. P v} (ctx1, out1)"
  proof (cases "P (item i)")
    case True
    obtain ctx' s' where "hm_i_set_add g ctx out (item i) = (ctx', s')" "calm ctx ctx'" "set_ok s'"
      "set (set_items s') = insert (item i) (set (set_items out))"
      by (rule set_add_granted [OF g Cons.prems(2)])
    then show ?thesis using that [of ctx' s'] Cons.prems(1) [of i ctx out] True by (auto simp: collects_def)
  next
    case False
    have "{v \<in> {item i}. P v} = {}" using False by auto
    then have "collects ctx out {v \<in> {item i}. P v} (ctx, out)" using collects_nil [OF Cons.prems(2)] by (simp only:)
    then show ?thesis using that [of ctx out] Cons.prems(1) False by simp
  qed
  have "collects ctx1 out1 {v \<in> item ` set is. P v} (fold add is (ctx1, out1))"
    using Cons.IH [of out1 ctx1] Cons.prems(1) r(2) by (simp add: collects_def)
  from collects_trans [OF r(2) this]
  have "collects ctx out ({v \<in> {item i}. P v} \<union> {v \<in> item ` set is. P v}) (fold add (i # is) (ctx, out))" by (simp add: r(1))
  moreover have "{v \<in> {item i}. P v} \<union> {v \<in> item ` set is. P v} = {v \<in> item ` set (i # is). P v}" by auto
  ultimately show ?case by simp
qed

lemma items_image: "hm_i_set_at s ` set [0..<hm_i_set_count s] = set (set_items s)"
  by (auto simp: hm_i_set_at_def hm_i_set_count_def in_set_conv_nth)

definition scheme_fv :: "hm_nodes \<Rightarrow> hm_scheme \<Rightarrow> tptr set" where
  "scheme_fv ns sc = tvars (term_of ns (sc_body sc)) - set (sc_vars sc)"

lemma scheme_ftv_spec:
  assumes g: "\<And>k. g k" and w: "wf_nodes (ctx_nodes ctx)" "sc_body sc < length (ctx_nodes ctx)" "set_ok out"
  shows "\<exists>res. returns (\<lambda>n. hm_i_scheme_ftv g n ctx sc out) res \<and> collects ctx out (scheme_fv (ctx_nodes ctx) sc) res"
proof -
  obtain ctx1 where c1: "hm_i_set_new g ctx = (ctx1, Some \<lparr>set_cap = 0, set_items = []\<rparr>)" "calm ctx ctx1"
    by (rule set_new_granted [OF g])
  have s: "same (ctx_nodes ctx) (ctx_nodes ctx1)" using c1(2) by (simp add: calm_def)
  note f = same_facts [OF s]
  have "wf_nodes (ctx_nodes ctx1)" "sc_body sc < length (ctx_nodes ctx1)" using f w by simp_all
  from ftv_spec [of g, OF g this, of "\<lparr>set_cap = 0, set_items = []\<rparr>"]
  obtain ctx2 body where b: "returns (\<lambda>n. hm_i_type_ftv g n ctx1 (sc_body sc) \<lparr>set_cap = 0, set_items = []\<rparr>) (ctx2, body)"
    "collects ctx1 \<lparr>set_cap = 0, set_items = []\<rparr> (tvars (term_of (ctx_nodes ctx1) (sc_body sc))) (ctx2, body)"
    by (auto simp: set_ok_def)
  have items: "set (set_items body) = tvars (term_of (ctx_nodes ctx) (sc_body sc))" using b(2) f(4) by (simp add: collects_def)
  let ?res = "fold (hm_i_add_free_index g sc body) [0..<hm_i_set_count body] (ctx2, out)"
  have "collects ctx2 out {v \<in> hm_i_set_at body ` set [0..<hm_i_set_count body]. v \<notin> set (sc_vars sc)} ?res"
    by (rule fold_add [OF g]) (simp_all add: hm_i_add_free_index_def hm_i_var_quantified_def Let_def w(3))
  then have "collects ctx2 out (scheme_fv (ctx_nodes ctx) sc) ?res"
    unfolding items_image items scheme_fv_def by (simp add: set_diff_eq)
  then have "collects ctx out (scheme_fv (ctx_nodes ctx) sc) ?res"
    using calm_trans [OF calm_trans [OF c1(2)]] b(2) by (auto simp: collects_def)
  moreover have "returns (\<lambda>n. hm_i_scheme_ftv g n ctx sc out) ?res"
    unfolding hm_i_scheme_ftv_def c1(1) prod.case option.case by (rule bind_pair [OF b(1)]) (simp add: returnsI)
  ultimately show ?thesis by blast
qed

lemma scope_ftv_spec:
  assumes g: "\<And>k. g k"
  shows "wf_nodes (ctx_nodes ctx) \<Longrightarrow> (\<And>b. b \<in> set bs \<Longrightarrow> sc_body (snd b) < length (ctx_nodes ctx)) \<Longrightarrow> set_ok out \<Longrightarrow>
    \<exists>res. returns (\<lambda>n. hm_i_scope_ftv g n ctx bs out) res \<and> collects ctx out (\<Union>b \<in> set bs. scheme_fv (ctx_nodes ctx) (snd b)) res"
proof (induction bs arbitrary: ctx out)
  case Nil
  then show ?case using collects_nil [of out ctx] by (intro exI [of _ "(ctx, out)"]) (simp add: returnsI)
next
  case (Cons b bs)
  obtain ctx1 out1 where r1: "returns (\<lambda>n. hm_i_scheme_ftv g n ctx (snd b) out) (ctx1, out1)"
    "collects ctx out (scheme_fv (ctx_nodes ctx) (snd b)) (ctx1, out1)"
    using scheme_ftv_spec [of g ctx "snd b" out] g Cons.prems by auto
  have s: "same (ctx_nodes ctx) (ctx_nodes ctx1)" "set_ok out1" using r1(2) by (simp_all add: collects_def calm_def)
  note f = same_facts [OF s(1)]
  obtain res where r2: "returns (\<lambda>n. hm_i_scope_ftv g n ctx1 bs out1) res"
    "collects ctx1 out1 (\<Union>b \<in> set bs. scheme_fv (ctx_nodes ctx1) (snd b)) res"
    using Cons.IH [of ctx1 out1] Cons.prems f s(2) by auto
  have "returns (\<lambda>n. hm_i_scope_ftv g n ctx (b # bs) out) res"
    unfolding hm_i_scope_ftv.simps by (rule bind_pair [OF r1(1)]) (use r2(1) in simp)
  moreover have "scheme_fv (ctx_nodes ctx1) = scheme_fv (ctx_nodes ctx)" by (intro ext) (simp add: scheme_fv_def f(4))
  ultimately show ?case using collects_trans [OF r1(2) r2(2)] by (intro exI [of _ res]) simp
qed

text \<open>The schemes an environment shows, its own and those of its parents.\<close>

inductive visible :: "hm_env list \<Rightarrow> nat option \<Rightarrow> hm_scheme \<Rightarrow> bool" for envs where
  own: "b \<in> set (env_bindings (envs ! e)) \<Longrightarrow> visible envs (Some e) (snd b)"
| inherited: "visible envs (env_parent (envs ! e)) sc \<Longrightarrow> visible envs (Some e) sc"

inductive_simps visible_iff: "visible envs None sc" "visible envs (Some e) sc"

definition env_fv :: "hm_ctx \<Rightarrow> nat option \<Rightarrow> tptr set" where
  "env_fv ctx env = (\<Union>sc \<in> {sc. visible (ctx_envs ctx) env sc}. scheme_fv (ctx_nodes ctx) sc)"

definition envs_ok :: "hm_ctx \<Rightarrow> bool" where
  "envs_ok ctx \<longleftrightarrow> (\<forall>e < length (ctx_envs ctx).
     (case env_parent (ctx_envs ctx ! e) of None \<Rightarrow> True | Some q \<Rightarrow> q < e)
   \<and> (\<forall>b \<in> set (env_bindings (ctx_envs ctx ! e)). sc_body (snd b) < length (ctx_nodes ctx)))"

lemma env_fv_simps:
  "env_fv ctx None = {}"
  "env_fv ctx (Some e) = (\<Union>b \<in> set (env_bindings (ctx_envs ctx ! e)). scheme_fv (ctx_nodes ctx) (snd b))
     \<union> env_fv ctx (env_parent (ctx_envs ctx ! e))"
  by (auto simp: env_fv_def visible_iff)

lemma calm_env: "calm ctx ctx' \<Longrightarrow> envs_ok ctx' = envs_ok ctx \<and> env_fv ctx' = env_fv ctx"
proof -
  assume c: "calm ctx ctx'"
  then have s: "same (ctx_nodes ctx) (ctx_nodes ctx')" "ctx_envs ctx' = ctx_envs ctx" by (simp_all add: calm_def)
  have "scheme_fv (ctx_nodes ctx') = scheme_fv (ctx_nodes ctx)" by (intro ext) (simp add: scheme_fv_def same_facts(4) [OF s(1)])
  then show ?thesis using s(2) same_facts(1) [OF s(1)] by (auto simp: envs_ok_def env_fv_def fun_eq_iff)
qed

lemma env_ftv_spec:
  assumes g: "\<And>k. g k"
  shows "wf_nodes (ctx_nodes ctx) \<Longrightarrow> envs_ok ctx \<Longrightarrow> (case env of None \<Rightarrow> True | Some e \<Rightarrow> e < length (ctx_envs ctx)) \<Longrightarrow> set_ok out \<Longrightarrow>
    \<exists>res. returns (\<lambda>n. hm_i_env_ftv g n ctx env out) res \<and> collects ctx out (env_fv ctx env) res"
proof (induction "case env of None \<Rightarrow> 0 | Some e \<Rightarrow> Suc e" arbitrary: ctx env out rule: less_induct)
  case less
  show ?case
  proof (cases env)
    case None
    have "hm_i_env_ftv g n ctx env out = Some (ctx, out)" for n by (subst hm_i_env_ftv.simps) (simp add: None)
    then show ?thesis using collects_nil [OF less.prems(4), of ctx] None
      by (intro exI [of _ "(ctx, out)"]) (simp add: returnsI env_fv_simps)
  next
    case (Some e)
    let ?env = "ctx_envs ctx ! e"
    have e: "e < length (ctx_envs ctx)" using less.prems(3) Some by simp
    have ok: "case env_parent ?env of None \<Rightarrow> True | Some q \<Rightarrow> q < e"
      "\<And>b. b \<in> set (env_bindings ?env) \<Longrightarrow> sc_body (snd b) < length (ctx_nodes ctx)"
      using less.prems(2) e by (auto simp: envs_ok_def)
    obtain ctx1 out1 where r1: "returns (\<lambda>n. hm_i_scope_ftv g n ctx (env_bindings ?env) out) (ctx1, out1)"
      "collects ctx out (\<Union>b \<in> set (env_bindings ?env). scheme_fv (ctx_nodes ctx) (snd b)) (ctx1, out1)"
      using scope_ftv_spec [of g ctx "env_bindings ?env" out, OF g less.prems(1) ok(2) less.prems(4)] by auto
    have c: "calm ctx ctx1" "set_ok out1" using r1(2) by (simp_all add: collects_def)
    have envs: "ctx_envs ctx1 = ctx_envs ctx" "wf_nodes (ctx_nodes ctx1)" using c(1) less.prems(1) same_facts(3) by (auto simp: calm_def)
    have "\<exists>res. returns (\<lambda>n. hm_i_env_ftv g n ctx1 (env_parent ?env) out1) res \<and> collects ctx1 out1 (env_fv ctx1 (env_parent ?env)) res"
    proof (rule less.hyps)
      show "(case env_parent ?env of None \<Rightarrow> 0 | Some e \<Rightarrow> Suc e) < (case env of None \<Rightarrow> 0 | Some e \<Rightarrow> Suc e)"
        using ok(1) Some by (simp split: option.splits)
      show "wf_nodes (ctx_nodes ctx1)" "envs_ok ctx1" "set_ok out1" using envs c less.prems(2) calm_env by simp_all
      show "case env_parent ?env of None \<Rightarrow> True | Some e \<Rightarrow> e < length (ctx_envs ctx1)"
        using ok(1) e envs by (simp split: option.splits)
    qed
    then obtain res where r2: "returns (\<lambda>n. hm_i_env_ftv g n ctx1 (env_parent ?env) out1) res"
      "collects ctx1 out1 (env_fv ctx (env_parent ?env)) res" using calm_env [OF c(1)] by auto
    have eq: "hm_i_env_ftv g n ctx (Some e) out = Option.bind (hm_i_scope_ftv g n ctx (env_bindings ?env) out)
        (\<lambda>(ctx, out). hm_i_env_ftv g n ctx (env_parent (ctx_envs ctx ! e)) out)" for n
      by (subst hm_i_env_ftv.simps) simp
    have "returns (\<lambda>n. hm_i_env_ftv g n ctx env out) res"
      unfolding Some eq by (rule bind_pair [OF r1(1)]) (use r2(1) envs(1) in simp)
    then show ?thesis using collects_trans [OF r1(2) r2(2)] Some by (intro exI [of _ res]) (simp add: env_fv_simps)
  qed
qed

section \<open>Generalisation\<close>

lemma scheme_alloc_granted:
  assumes g: "\<And>k. g k"
  obtains ctx' where "hm_i_scheme_alloc g ctx n = (ctx', True)" "calm ctx ctx'"
proof (cases "n = 0")
  case True
  then show ?thesis using that [of "ctx\<lparr>ctx_allocs := Suc (ctx_allocs ctx)\<rparr>"] g
    by (simp add: hm_i_scheme_alloc_def hm_i_alloc_def calm_def)
next
  case False
  then show ?thesis using that [of "ctx\<lparr>ctx_allocs := Suc (Suc (ctx_allocs ctx))\<rparr>"] g
    by (simp add: hm_i_scheme_alloc_def hm_i_alloc_def calm_def)
qed

lemma generalize_spec:
  assumes g: "\<And>k. g k" and w: "wf_nodes (ctx_nodes ctx)" "envs_ok ctx" "t < length (ctx_nodes ctx)"
    and e: "case env of None \<Rightarrow> True | Some e \<Rightarrow> e < length (ctx_envs ctx)"
  shows "\<exists>ctx' sc. returns (\<lambda>n. hm_generalize g n ctx env t) (ctx', Some sc) \<and> calm ctx ctx'
    \<and> sc_body sc = t \<and> distinct (sc_vars sc) \<and> set (sc_vars sc) = tvars (term_of (ctx_nodes ctx) t) - env_fv ctx env"
proof -
  let ?empty = "\<lparr>set_cap = 0, set_items = []\<rparr> :: hm_i_set"
  have empty: "set_ok ?empty" by (simp add: set_ok_def)
  obtain ctx1 where c1: "hm_i_set_new g ctx = (ctx1, Some ?empty)" "calm ctx ctx1" by (rule set_new_granted [OF g])
  have s1: "same (ctx_nodes ctx) (ctx_nodes ctx1)" using c1(2) by (simp add: calm_def)
  obtain ctx2 ft where r2: "returns (\<lambda>n. hm_i_type_ftv g n ctx1 t ?empty) (ctx2, ft)"
    "collects ctx1 ?empty (tvars (term_of (ctx_nodes ctx) t)) (ctx2, ft)"
    using ftv_spec [of g ctx1 t ?empty] g w same_facts [OF s1] empty by auto
  obtain ctx3 where c3: "hm_i_set_new g ctx2 = (ctx3, Some ?empty)" "calm ctx2 ctx3" by (rule set_new_granted [OF g])
  have c13: "calm ctx ctx3" using c1(2) c3(2) r2(2) calm_trans by (auto simp: collects_def)
  then have s3: "same (ctx_nodes ctx) (ctx_nodes ctx3)" "ctx_envs ctx3 = ctx_envs ctx" by (simp_all add: calm_def)
  have e3: "case env of None \<Rightarrow> True | Some e \<Rightarrow> e < length (ctx_envs ctx3)" using e by (simp only: s3(2))
  have w3: "wf_nodes (ctx_nodes ctx3)" "envs_ok ctx3" using w same_facts [OF s3(1)] calm_env [OF c13] by simp_all
  obtain ctx4 fe where r4: "returns (\<lambda>n. hm_i_env_ftv g n ctx3 env ?empty) (ctx4, fe)"
    "collects ctx3 ?empty (env_fv ctx env) (ctx4, fe)"
    using env_ftv_spec [of g ctx3 env ?empty, OF g w3 e3 empty] calm_env [OF c13] by auto
  obtain ctx5 where c5: "hm_i_set_new g ctx4 = (ctx5, Some ?empty)" "calm ctx4 ctx5" by (rule set_new_granted [OF g])
  let ?q = "fold (hm_i_collect_free g ft fe) [0..<hm_i_set_count ft] (ctx5, ?empty)"
  have "collects ctx5 ?empty {v \<in> hm_i_set_at ft ` set [0..<hm_i_set_count ft]. \<not> hm_i_set_has fe v} ?q"
    by (rule fold_add [OF g]) (simp_all add: hm_i_collect_free_def Let_def empty)
  then have q: "collects ctx5 ?empty (tvars (term_of (ctx_nodes ctx) t) - env_fv ctx env) ?q"
    using r2(2) r4(2) unfolding items_image by (simp add: collects_def hm_i_set_has_def set_diff_eq)
  obtain ctx6 qs where q6: "?q = (ctx6, qs)" by fastforce
  obtain ctx7 where c7: "hm_i_scheme_alloc g ctx6 (hm_i_set_count qs) = (ctx7, True)" "calm ctx6 ctx7"
    by (rule scheme_alloc_granted [OF g])
  let ?sc = "\<lparr>sc_vars = set_items qs, sc_body = t\<rparr>"
  have k: "returns (\<lambda>n. hm_generalize g n ctx env t) (ctx7, Some ?sc)"
    unfolding hm_generalize_def c1(1) prod.case option.case
    by (rule bind_pair [OF r2(1)], unfold c3(1) prod.case option.case, rule bind_pair [OF r4(1)])
      (simp add: c5(1) q6 c7(1) returnsI)
  have "calm ctx ctx7"
    using c13 r4(2) c5(2) q c7(2) unfolding q6 collects_def fst_conv by (blast intro: calm_trans)
  then show ?thesis using k q q6 by (intro exI [of _ ctx7] exI [of _ ?sc]) (auto simp: collects_def set_ok_def)
qed

end
