(* ===== verification/Hm_Poly.thy ===== *)
theory Hm_Poly
  imports Hm_Free
begin

text \<open>
  Polymorphism: generalisation and instantiation. Instantiation copies the body of a scheme; it only adds
  nodes, so every type of the graph stays what it was, and its result is the body with the quantified variables
  renamed to fresh ones. Generalisation quantifies what the environment does not have free if memory is granted, and
  more if requests are refused while the environment is traversed.
\<close>

section \<open>Adding nodes\<close>

definition extends :: "hm_nodes \<Rightarrow> hm_nodes \<Rightarrow> bool" where
  "extends ns ns' \<longleftrightarrow> wf_nodes ns' \<and> length ns \<le> length ns' \<and> (\<forall>a t. den ns a t \<longrightarrow> den ns' a t)"

lemma extends_refl: "wf_nodes ns \<Longrightarrow> extends ns ns"
  by (simp add: extends_def)

lemma extends_trans: "extends ns ns1 \<Longrightarrow> extends ns1 ns2 \<Longrightarrow> extends ns ns2"
  by (simp add: extends_def)

lemma extends_term: "extends ns ns' \<Longrightarrow> wf_nodes ns \<Longrightarrow> a < length ns \<Longrightarrow> term_of ns' a = term_of ns a \<and> a < length ns'"
  using den_term_of by (auto simp: extends_def)

lemma same_extends: "same ns ns' \<Longrightarrow> wf_nodes ns \<Longrightarrow> extends ns ns'"
  using same_facts by (simp add: extends_def)

lemma tvars_length: "den ns a t \<Longrightarrow> v \<in> tvars t \<Longrightarrow> v < length ns"
  using tvars_unbound by blast

text \<open>Filling in an unbound node with a constructor.\<close>

lemma fill_keep:
  assumes v: "ns ! v = TVar i None" and len: "v < length ns"
  shows "den ns a t \<Longrightarrow> v \<notin> tvars t \<Longrightarrow> den (ns[v := x]) a t"
proof (induction rule: den.induct)
  case (den_free a j)
  then show ?case by (auto simp: den_free_iff)
next
  case (den_link a j b t)
  then have "a \<noteq> v" using v by auto
  then show ?case using den_link by (auto intro: den.den_link)
next
  case (den_con a f as ts)
  then have "a \<noteq> v" using v by auto
  moreover have "list_all2 (den (ns[v := x])) as ts"
    using den_con(3,4) by (auto simp: list_all2_conv_all_nth)
  ultimately show ?case using den_con(1,2) by (auto intro: den.den_con)
qed

lemma fill_den:
  assumes v: "ns ! v = TVar i None" and len: "v < length ns" and u: "den (ns[v := x]) v u"
  shows "den ns a t \<Longrightarrow> den (ns[v := x]) a (inst (sub v u) t)"
proof (induction rule: den.induct)
  case (den_free a j)
  then show ?case using u by (cases "a = v") (auto simp: den_free_iff sub_def)
next
  case (den_link a j b t)
  then have "a \<noteq> v" using v by auto
  then show ?case using den_link by (auto intro: den.den_link)
next
  case (den_con a f as ts)
  then have "a \<noteq> v" using v by auto
  moreover have "list_all2 (den (ns[v := x])) as (map (inst (sub v u)) ts)"
    using den_con(3) by (auto simp: list_all2_conv_all_nth)
  ultimately show ?case using den_con(1,2) by (auto intro: den.den_con)
qed

lemma fill_con:
  assumes q: "ns ! q = TVar i None" "q < length ns" and w: "wf_nodes ns"
    and as: "list_all2 (den ns) as ts" "\<And>t. t \<in> set ts \<Longrightarrow> q \<notin> tvars t"
  shows "den (ns[q := TCon f as]) q (F f ts)" "wf_nodes (ns[q := TCon f as])"
proof -
  have "list_all2 (den (ns[q := TCon f as])) as ts"
    using as fill_keep [OF q] by (auto simp: list_all2_conv_all_nth)
  then show d: "den (ns[q := TCon f as]) q (F f ts)" using q(2) by (intro den.den_con) simp_all
  show "wf_nodes (ns[q := TCon f as])" using fill_den [OF q d] w by (fastforce simp: wf_nodes_def)
qed

text \<open>A new unbound node.\<close>

lemma append_den: "den ns a t \<Longrightarrow> den (ns @ [x]) a t"
proof (induction rule: den.induct)
  case (den_con a f as ts)
  then have "list_all2 (den (ns @ [x])) as ts" by (auto simp: list_all2_conv_all_nth)
  then show ?case using den_con(1,2) by (intro den.den_con) (auto simp: nth_append)
next
  case (den_free a i)
  then show ?case by (simp add: den_free_iff nth_append)
next
  case (den_link a i b t)
  then show ?case by (auto simp: nth_append intro: den.den_link)
qed

lemma append_free:
  assumes "wf_nodes ns"
  shows "extends ns (ns @ [TVar i None])" "den (ns @ [TVar i None]) (length ns) (V (length ns))"
proof -
  show d: "den (ns @ [TVar i None]) (length ns) (V (length ns))" by (simp add: den_free_iff [of _ _ i])
  have "\<exists>t. den (ns @ [TVar i None]) a t" if "a < length (ns @ [TVar i None])" for a
  proof (cases "a = length ns")
    case True
    then show ?thesis using d by blast
  next
    case False
    then have "a < length ns" using that by simp
    then show ?thesis using append_den [OF den_term_of [OF assms]] by blast
  qed
  then have "wf_nodes (ns @ [TVar i None])" unfolding wf_nodes_def by blast
  then show "extends ns (ns @ [TVar i None])" using append_den [of ns] unfolding extends_def by simp
qed

lemma type_node_granted:
  assumes "\<And>k. g k"
  shows "hm_i_type_node g ctx = (ctx\<lparr>ctx_allocs := Suc (ctx_allocs ctx), ctx_nodes := ctx_nodes ctx @ [TVar 0 None]\<rparr>, Some (length (ctx_nodes ctx)))"
  using assms by (simp add: hm_i_type_node_def hm_i_alloc_def)

lemma type_var_granted:
  assumes "\<And>k. g k"
  obtains ctx' i where "hm_type_var g ctx = (ctx', Some (length (ctx_nodes ctx)))" "ctx_nodes ctx' = ctx_nodes ctx @ [TVar i None]"
  using assms by (simp add: hm_type_var_def type_node_granted Let_def set_node_def)

lemma fresh_vars_granted:
  assumes g: "\<And>k. g k"
  shows "wf_nodes (ctx_nodes ctx) \<Longrightarrow> \<exists>ctx'. fresh_vars g k ctx = (ctx', map Some [length (ctx_nodes ctx)..<length (ctx_nodes ctx) + k])
    \<and> extends (ctx_nodes ctx) (ctx_nodes ctx')
    \<and> (\<forall>v \<in> {length (ctx_nodes ctx)..<length (ctx_nodes ctx) + k}. den (ctx_nodes ctx') v (V v))"
proof (induction k arbitrary: ctx)
  case 0
  then show ?case by (simp add: extends_refl)
next
  case (Suc k)
  let ?l = "length (ctx_nodes ctx)"
  obtain ctx1 i where c1: "hm_type_var g ctx = (ctx1, Some ?l)" "ctx_nodes ctx1 = ctx_nodes ctx @ [TVar i None]"
    by (rule type_var_granted [OF g])
  note a = append_free [OF Suc.prems, of i, folded c1(2)]
  obtain ctx2 where c2: "fresh_vars g k ctx1 = (ctx2, map Some [Suc ?l..<Suc ?l + k])"
    "extends (ctx_nodes ctx1) (ctx_nodes ctx2)" "\<forall>v \<in> {Suc ?l..<Suc ?l + k}. den (ctx_nodes ctx2) v (V v)"
    using Suc.IH [of ctx1] a(1) c1(2) by (auto simp: extends_def)
  have "den (ctx_nodes ctx2) v (V v)" if "v \<in> {?l..<?l + Suc k}" for v
    using that c2(2,3) a(2) by (cases "v = ?l") (auto simp: extends_def)
  moreover have "[?l..<?l + Suc k] = ?l # [Suc ?l..<Suc ?l + k]" by (simp add: upt_rec)
  ultimately show ?case using c1(1) c2(1) extends_trans [OF a(1) c2(2)] by (intro exI [of _ ctx2]) simp
qed

section \<open>Instantiation\<close>

lemma quant_index_from_spec:
  fixes qs :: "tptr list"
  shows "case quant_index_from qs i v of Some j \<Rightarrow> i \<le> j \<and> j - i < length qs \<and> qs ! (j - i) = v | None \<Rightarrow> v \<notin> set qs"
proof (induction qs i v rule: quant_index_from.induct)
  case (2 q qs i v)
  show ?case
  proof (cases "q = v")
    case False
    then show ?thesis using 2 by (auto split: option.splits simp: Suc_diff_le nth_Cons')
  qed simp
qed simp

lemma quant_index_spec:
  "case hm_i_quant_index sc v of Some j \<Rightarrow> j < length (sc_vars sc) \<and> sc_vars sc ! j = v | None \<Rightarrow> v \<notin> set (sc_vars sc)"
  using quant_index_from_spec [where qs = "sc_vars sc" and i = 0 and v = v] by (simp add: hm_i_quant_index_def split: option.splits)

definition renaming :: "hm_scheme \<Rightarrow> tptr option list \<Rightarrow> tptr \<Rightarrow> tptr" where
  "renaming sc fresh v = (case hm_i_quant_index sc v of Some i \<Rightarrow> the (fresh ! i) | None \<Rightarrow> v)"

definition fresh_ok :: "hm_nodes \<Rightarrow> hm_scheme \<Rightarrow> tptr option list \<Rightarrow> bool" where
  "fresh_ok ns sc fresh \<longleftrightarrow> length fresh = length (sc_vars sc) \<and> (\<forall>i < length fresh. \<exists>v. fresh ! i = Some v \<and> den ns v (V v))"

lemma fresh_ok_extends: "fresh_ok ns sc fresh \<Longrightarrow> extends ns ns' \<Longrightarrow> fresh_ok ns' sc fresh"
  unfolding fresh_ok_def extends_def by metis

lemma renaming_den:
  assumes "fresh_ok ns sc fresh" and "den ns v (V v)"
  shows "den ns (renaming sc fresh v) (V (renaming sc fresh v))"
    "(case hm_i_quant_index sc v of Some idx \<Rightarrow> fresh ! idx | None \<Rightarrow> Some v) = Some (renaming sc fresh v)"
  using assms quant_index_spec [where sc = sc and v = v]
  by (auto simp: renaming_def fresh_ok_def split: option.splits)

abbreviation rename :: "hm_scheme \<Rightarrow> tptr option list \<Rightarrow> hm_term \<Rightarrow> hm_term" where
  "rename sc fresh \<equiv> inst (\<lambda>v. V (renaming sc fresh v))"

lemma renamed_vars:
  assumes "fresh_ok ns sc fresh" and "den ns a t" and "v \<in> tvars (rename sc fresh t)"
  shows "v < length ns"
proof -
  have "tvars (inst th t) = (\<Union>x \<in> tvars t. tvars (th x))" for th by (induction t) auto
  then obtain x where x: "x \<in> tvars t" "v = renaming sc fresh x" using assms(3) by auto
  then have "den ns x (V x)" using tvars_unbound [OF assms(2)] by (auto intro: den_free)
  then show ?thesis using renaming_den(1) [OF assms(1)] x(2) den_length by blast
qed

text \<open>\<open>clones\<close> says what a copy of the node \<open>x\<close> has to be.\<close>

definition clones :: "hm_scheme \<Rightarrow> tptr option list \<Rightarrow> hm_term \<Rightarrow> hm_ctx \<Rightarrow> hm_ctx \<times> tptr option \<Rightarrow> bool" where
  "clones sc fresh t ctx res \<longleftrightarrow> extends (ctx_nodes ctx) (ctx_nodes (fst res))
     \<and> (\<exists>y. snd res = Some y \<and> den (ctx_nodes (fst res)) y (rename sc fresh t))"

lemma clone_args_spec:
  assumes "\<And>ctx1 x. extends ns (ctx_nodes ctx1) \<Longrightarrow> x \<in> set as \<Longrightarrow>
       \<exists>res. returns (\<lambda>n. hm_i_clone_type g n ctx1 sc x fresh) res \<and> clones sc fresh (term_of ns x) ctx1 res"
    and "extends ns (ctx_nodes ctx1)"
  shows "\<exists>ctx2 ys. returns (\<lambda>n. hm_i_clone_args g n ctx1 sc as fresh) (ctx2, map Some ys)
     \<and> extends (ctx_nodes ctx1) (ctx_nodes ctx2)
     \<and> list_all2 (den (ctx_nodes ctx2)) ys (map (\<lambda>x. rename sc fresh (term_of ns x)) as)"
  using assms
proof (induction as arbitrary: ctx1)
  case Nil
  then show ?case by (intro exI [of _ ctx1] exI [of _ "[]"]) (simp add: returnsI extends_def)
next
  case (Cons x xs)
  obtain ctx2 y where r1: "returns (\<lambda>n. hm_i_clone_type g n ctx1 sc x fresh) (ctx2, Some y)"
    "extends (ctx_nodes ctx1) (ctx_nodes ctx2)" "den (ctx_nodes ctx2) y (rename sc fresh (term_of ns x))"
    using Cons.prems(1) [OF Cons.prems(2), of x] by (auto simp: clones_def)
  have "extends ns (ctx_nodes ctx2)" using extends_trans Cons.prems(2) r1(2) by blast
  then obtain ctx3 ys where r2: "returns (\<lambda>n. hm_i_clone_args g n ctx2 sc xs fresh) (ctx3, map Some ys)"
    "extends (ctx_nodes ctx2) (ctx_nodes ctx3)"
    "list_all2 (den (ctx_nodes ctx3)) ys (map (\<lambda>x. rename sc fresh (term_of ns x)) xs)"
    using Cons.IH [of ctx2] Cons.prems(1) by fastforce
  have "returns (\<lambda>n. hm_i_clone_args g n ctx1 sc (x # xs) fresh) (ctx3, map Some (y # ys))"
    unfolding hm_i_clone_args.simps
    by (rule bind_pair [OF r1(1)], rule bind_pair [OF r2(1)]) (simp add: returnsI)
  moreover have "den (ctx_nodes ctx3) y (rename sc fresh (term_of ns x))" using r1(3) r2(2) by (simp add: extends_def)
  ultimately show ?case using r2(3) extends_trans [OF r1(2) r2(2)]
    by (intro exI [of _ ctx3] exI [of _ "y # ys"]) simp
qed

lemma clone_spec:
  assumes g: "\<And>k. g k"
  shows "wf_nodes (ctx_nodes ctx) \<Longrightarrow> t < length (ctx_nodes ctx) \<Longrightarrow> fresh_ok (ctx_nodes ctx) sc fresh \<Longrightarrow>
     \<exists>res. returns (\<lambda>n. hm_i_clone_type g n ctx sc t fresh) res \<and> clones sc fresh (term_of (ctx_nodes ctx) t) ctx res"
proof (induction "size (term_of (ctx_nodes ctx) t)" arbitrary: ctx t rule: less_induct)
  case less
  let ?ns = "ctx_nodes ctx"
  obtain ns1 p where p: "hm_type_prune ?ns t = Some (ns1, p)" "same ?ns ns1" "root ?ns p" "term_of ?ns p = term_of ?ns t" "wf_nodes ns1"
    using prune_wf [OF less.prems(1,2)] .
  note f = same_facts [OF p(2)]
  have rp: "root ns1 p" "p < length ns1" using f p(3) by (simp_all add: root_def)
  have e1: "extends ?ns ns1" using same_extends [OF p(2) less.prems(1)] .
  note fo = fresh_ok_extends [OF less.prems(3) e1]
  let ?rest = "\<lambda>n. hm_i_clone_type g (Suc n) ctx sc t fresh"
  have "\<exists>res. returns ?rest res \<and> clones sc fresh (term_of ?ns t) ctx res"
  proof (cases "ns1 ! p")
    case (TVar i l)
    then have v: "term_of ?ns t = V p" using root_var_term p(5) rp(1) f(4) p(4) by metis
    have "den ns1 p (V p)" using den_term_of [OF p(5) rp(2)] v f(4) p(4) by simp
    note r = renaming_den [OF fo this]
    have "?rest n = Some (ctx\<lparr>ctx_nodes := ns1\<rparr>, Some (renaming sc fresh p))" for n using p(1) TVar r(2) by (simp add: Let_def)
    then show ?thesis using r(1) v e1
      by (intro exI [of _ "(ctx\<lparr>ctx_nodes := ns1\<rparr>, Some (renaming sc fresh p))"]) (simp add: returnsI clones_def)
  next
    case (TCon h as)
    note c = con_term [OF p(5) rp(2) TCon]
    let ?q = "length ns1" and ?ns2 = "ns1 @ [TVar 0 None]"
    let ?c2 = "ctx\<lparr>ctx_allocs := Suc (ctx_allocs ctx), ctx_nodes := ?ns2\<rparr>"
    let ?c3 = "if as = [] then ?c2 else ?c2\<lparr>ctx_allocs := Suc (Suc (ctx_allocs ctx))\<rparr>"
    have n3: "ctx_nodes ?c3 = ?ns2" by simp
    note e2 = append_free [OF p(5), of 0]
    have e12: "extends ?ns ?ns2" using extends_trans [OF e1 e2(1)] .
    have ih: "\<exists>res. returns (\<lambda>n. hm_i_clone_type g n ctx1 sc x fresh) res \<and> clones sc fresh (term_of ns1 x) ctx1 res"
      if e: "extends ns1 (ctx_nodes ctx1)" and x: "x \<in> set as" for ctx1 x
    proof -
      note tx = extends_term [OF e p(5) c(2) [OF x]]
      have "size (term_of (ctx_nodes ctx1) x) < size (term_of ?ns t)"
        using arg_size [OF x, of "term_of ns1"] c(1) p(4) f(4) tx by simp
      then show ?thesis using less.hyps [of ctx1 x] tx fresh_ok_extends [OF fo e] e by (simp add: extends_def)
    qed
    obtain ctx4 ys where r: "returns (\<lambda>n. hm_i_clone_args g n ?c3 sc as fresh) (ctx4, map Some ys)"
      "extends ?ns2 (ctx_nodes ctx4)" "list_all2 (den (ctx_nodes ctx4)) ys (map (\<lambda>x. rename sc fresh (term_of ns1 x)) as)"
      using clone_args_spec [of ns1 as g sc fresh ?c3, OF ih, unfolded n3, OF _ _ e2(1)] by blast
    let ?res = "(set_node ctx4 ?q (TCon h ys), Some ?q)"
    have "den (ctx_nodes ctx4) ?q (V ?q)" using e2(2) r(2) by (simp add: extends_def)
    from tvars_unbound [OF this, of ?q] obtain i where q: "ctx_nodes ctx4 ! ?q = TVar i None" "?q < length (ctx_nodes ctx4)" by auto
    have "?q \<notin> tvars u" if "u \<in> set (map (\<lambda>x. rename sc fresh (term_of ns1 x)) as)" for u
      using that renamed_vars [OF fo den_term_of [OF p(5) c(2)]] by fastforce
    note fill = fill_con [OF q _ r(3) this, of h]
    have w4: "wf_nodes (ctx_nodes ctx4)" using r(2) by (simp add: extends_def)
    have "den (ctx_nodes (fst ?res)) a u" if "den ?ns a u" for a u
    proof -
      have "den ns1 a u" using that f(2) by simp
      then have "?q \<notin> tvars u" "den (ctx_nodes ctx4) a u" using tvars_length e2(1) r(2) by (auto simp: extends_def)
      then show ?thesis using fill_keep [OF q] by (simp add: set_node_def)
    qed
    moreover have "length ?ns \<le> length (ctx_nodes ctx4)" using e12 r(2) by (simp add: extends_def)
    moreover have "rename sc fresh (term_of ?ns t) = F h (map (\<lambda>x. rename sc fresh (term_of ns1 x)) as)"
      using c(1) p(4) f(4) by simp
    ultimately have "clones sc fresh (term_of ?ns t) ctx ?res"
      using fill w4 by (simp add: clones_def extends_def set_node_def)
    moreover have "returns ?rest ?res"
    proof (cases "as = []")
      case True
      then have "ctx4 = ?c3" "ys = []" using r(1,3) by (auto simp: returns_def)
      then show ?thesis using True p(1) TCon by (simp add: Let_def type_node_granted [OF g] returnsI)
    next
      case False
      then have "?rest n = Option.bind (hm_i_clone_args g n ?c3 sc as fresh)
         (\<lambda>(ctx, as). if None \<in> set as then Some (ctx, None) else Some (set_node ctx ?q (TCon h (map the as)), Some ?q))" for n
        using p(1) TCon g by (simp add: Let_def type_node_granted [OF g] hm_i_alloc_def)
      then show ?thesis by (simp only:) (rule bind_pair [OF r(1)], auto intro!: returnsI simp: comp_def)
    qed
    ultimately show ?thesis by blast
  qed
  then show ?case using returns_Suc [of "\<lambda>n. hm_i_clone_type g n ctx sc t fresh"] by blast
qed

text \<open>C13: If memory is granted, instantiating a scheme returns, and the result is the body of the scheme with the
  quantified variables renamed to distinct variables that did not exist before. No type of the graph changes:
  the variables that are not quantified are shared with the scheme.\<close>

theorem instantiate_fresh:
  assumes "\<And>k. g k" and "wf_nodes (ctx_nodes ctx)" and "sc_body sc < length (ctx_nodes ctx)"
  shows "\<exists>ctx' t fr n0. (\<forall>n \<ge> n0. hm_instantiate g n ctx sc = Some (ctx', Some t))
    \<and> wf_nodes (ctx_nodes ctx') \<and> (\<forall>a < length (ctx_nodes ctx). term_of (ctx_nodes ctx') a = term_of (ctx_nodes ctx) a)
    \<and> term_of (ctx_nodes ctx') t =
        inst (\<lambda>v. V (if v \<in> set (sc_vars sc) then fr v else v)) (term_of (ctx_nodes ctx) (sc_body sc))
    \<and> inj_on fr (set (sc_vars sc)) \<and> (\<forall>v \<in> set (sc_vars sc). length (ctx_nodes ctx) \<le> fr v)"
proof (cases "sc_vars sc = []")
  case True
  then show ?thesis using assms(2)
    by (intro exI [of _ ctx] exI [of _ "sc_body sc"] exI [of _ id] exI [of _ 0]) (simp add: hm_instantiate_def)
next
  case False
  let ?ns = "ctx_nodes ctx" and ?k = "length (sc_vars sc)" and ?c = "ctx\<lparr>ctx_allocs := Suc (ctx_allocs ctx)\<rparr>"
  let ?fresh = "map Some [length ?ns..<length ?ns + ?k]"
  let ?fr = "renaming sc ?fresh"
  obtain ctx1 where c1: "fresh_vars g ?k ?c = (ctx1, ?fresh)" "extends ?ns (ctx_nodes ctx1)"
    "\<forall>v \<in> {length ?ns..<length ?ns + ?k}. den (ctx_nodes ctx1) v (V v)"
    using fresh_vars_granted [where g = g and ctx = ?c and k = ?k, OF assms(1)] assms(2) by auto
  have fo: "fresh_ok (ctx_nodes ctx1) sc ?fresh" using c1(3) by (simp add: fresh_ok_def)
  note old = extends_term [OF c1(2) assms(2)]
  obtain ctx2 t where r: "returns (\<lambda>n. hm_i_clone_type g n ctx1 sc (sc_body sc) ?fresh) (ctx2, Some t)"
    "extends (ctx_nodes ctx1) (ctx_nodes ctx2)" "den (ctx_nodes ctx2) t (rename sc ?fresh (term_of ?ns (sc_body sc)))"
    using clone_spec [of g ctx1 "sc_body sc" sc ?fresh, OF assms(1) _ _ fo] old [OF assms(3)] c1(2)
    by (auto simp: clones_def extends_def)
  have "hm_instantiate g n ctx sc = hm_i_clone_type g n ctx1 sc (sc_body sc) ?fresh" for n
    using False assms(1) c1(1) by (simp add: hm_instantiate_def hm_i_alloc_def)
  then obtain n0 where n0: "\<forall>n \<ge> n0. hm_instantiate g n ctx sc = Some (ctx2, Some t)" using r(1) by (auto simp: returns_def)
  have idx: "\<exists>j < ?k. sc_vars sc ! j = v \<and> ?fr v = length ?ns + j" if "v \<in> set (sc_vars sc)" for v
    using that quant_index_spec [where sc = sc and v = v] by (auto simp: renaming_def split: option.splits)
  have inj: "inj_on ?fr (set (sc_vars sc))"
  proof (rule inj_onI)
    fix v w
    assume "v \<in> set (sc_vars sc)" "w \<in> set (sc_vars sc)" "?fr v = ?fr w"
    then show "v = w" using idx [of v] idx [of w] by auto
  qed
  have "?fr v = v" if "v \<notin> set (sc_vars sc)" for v
    using that quant_index_spec [where sc = sc and v = v] by (auto simp: renaming_def split: option.splits)
  then have "(\<lambda>v. V (if v \<in> set (sc_vars sc) then ?fr v else v)) = (\<lambda>v. V (?fr v))" by auto
  moreover have "\<forall>a < length ?ns. term_of (ctx_nodes ctx2) a = term_of ?ns a"
    using extends_term [OF extends_trans [OF c1(2) r(2)] assms(2)] by simp
  moreover have "\<forall>v \<in> set (sc_vars sc). length ?ns \<le> ?fr v" using idx by fastforce
  moreover have "wf_nodes (ctx_nodes ctx2)" using r(2) by (simp add: extends_def)
  ultimately show ?thesis using n0 r(3) inj
    by (intro exI [of _ ctx2] exI [of _ t] exI [of _ ?fr] exI [of _ n0]) simp
qed

theorem instantiate_fresh_witness:
  "\<exists>ctx' t v n. hm_instantiate (\<lambda>k. True) n arrows \<lparr>sc_vars = [0], sc_body = 3\<rparr> = Some (ctx', Some t)
     \<and> 5 \<le> v \<and> term_of (ctx_nodes ctx') t = F ''->'' [V v, V v] \<and> term_of (ctx_nodes ctx') 3 = F ''->'' [V 0, V 0]"
proof -
  have l: "length (ctx_nodes arrows) = 5" by (simp add: arrows_def)
  note t = arrows_den [THEN term_of_eq]
  obtain ctx' t fr n0 where r: "\<forall>n \<ge> n0. hm_instantiate (\<lambda>k. True) n arrows \<lparr>sc_vars = [0], sc_body = 3\<rparr> = Some (ctx', Some t)"
    "\<forall>a < 5. term_of (ctx_nodes ctx') a = term_of (ctx_nodes arrows) a"
    "term_of (ctx_nodes ctx') t = inst (\<lambda>v. V (if v \<in> {0} then fr v else v)) (term_of (ctx_nodes arrows) 3)" "5 \<le> fr 0"
    using instantiate_fresh [of "\<lambda>k. True" arrows "\<lparr>sc_vars = [0], sc_body = 3\<rparr>"] arrows_wf l by auto
  then show ?thesis using t by (intro exI [of _ ctx'] exI [of _ t] exI [of _ "fr 0"] exI [of _ n0]) simp
qed

section \<open>Generalisation\<close>

text \<open>C14: If memory is granted, generalising a type in an environment returns a scheme over that type whose
  quantified variables are exactly the variables of the type that no visible scheme of the environment has
  free, each once. No type of the graph changes.\<close>

theorem generalize_closed:
  assumes "\<And>k. g k" and "wf_nodes (ctx_nodes ctx)" and "envs_ok ctx" and "t < length (ctx_nodes ctx)"
    and "e < length (ctx_envs ctx)"
  shows "\<exists>ctx' sc n0. (\<forall>n \<ge> n0. hm_generalize g n ctx (Some e) t = Some (ctx', Some sc))
    \<and> term_of (ctx_nodes ctx') = term_of (ctx_nodes ctx) \<and> ctx_envs ctx' = ctx_envs ctx
    \<and> sc_body sc = t \<and> distinct (sc_vars sc)
    \<and> set (sc_vars sc) = tvars (term_of (ctx_nodes ctx) t) - env_fv ctx (Some e)"
proof -
  obtain ctx' sc where r: "returns (\<lambda>n. hm_generalize g n ctx (Some e) t) (ctx', Some sc)" "calm ctx ctx'"
    and sc: "sc_body sc = t" "distinct (sc_vars sc)" "set (sc_vars sc) = tvars (term_of (ctx_nodes ctx) t) - env_fv ctx (Some e)"
    using generalize_spec [of g ctx t "Some e"] assms by auto
  then show ?thesis using same_facts(4) unfolding returns_def calm_def by metis
qed

text \<open>The type \<open>a -> b\<close> in an environment that gives \<open>x\<close> the type \<open>a\<close>.\<close>

definition open_arrow :: hm_ctx where
  "open_arrow = \<lparr>ctx_nodes = [TVar 0 None, TVar 1 None, TCon ''->'' [0, 1]], ctx_next_id = 2, ctx_origin = None,
     ctx_envs = [\<lparr>env_parent = None, env_bindings = [(''x'', \<lparr>sc_vars = [], sc_body = 0\<rparr>)]\<rparr>], ctx_allocs = 0\<rparr>"

lemma open_arrow_den:
  "den (ctx_nodes open_arrow) 0 (V 0)" "den (ctx_nodes open_arrow) 1 (V 1)"
  "den (ctx_nodes open_arrow) 2 (F ''->'' [V 0, V 1])"
proof -
  show d: "den (ctx_nodes open_arrow) 0 (V 0)" "den (ctx_nodes open_arrow) 1 (V 1)"
    by (auto simp: open_arrow_def intro!: den_free)
  show "den (ctx_nodes open_arrow) 2 (F ''->'' [V 0, V 1])" using d by (auto simp: open_arrow_def intro!: den_con)
qed

lemma open_arrow_ok: "wf_nodes (ctx_nodes open_arrow)" "envs_ok open_arrow" "env_fv open_arrow (Some 0) = {0}"
proof -
  have "a < length (ctx_nodes open_arrow) \<Longrightarrow> a = 0 \<or> a = 1 \<or> a = 2" for a by (auto simp: open_arrow_def)
  then show "wf_nodes (ctx_nodes open_arrow)" unfolding wf_nodes_def using open_arrow_den by blast
  show "envs_ok open_arrow" by (simp add: envs_ok_def open_arrow_def)
  have "term_of (ctx_nodes open_arrow) 0 = V 0" using open_arrow_den(1) by simp
  then show "env_fv open_arrow (Some 0) = {0}"
    by (simp add: env_fv_simps scheme_fv_def) (simp add: open_arrow_def env_fv_simps)
qed

theorem generalize_closed_witness:
  "\<exists>ctx' n. hm_generalize (\<lambda>k. True) n open_arrow (Some 0) 2 = Some (ctx', Some \<lparr>sc_vars = [1], sc_body = 2\<rparr>)"
proof -
  obtain ctx' sc n0 where r: "\<forall>n \<ge> n0. hm_generalize (\<lambda>k. True) n open_arrow (Some 0) 2 = Some (ctx', Some sc)"
    and sc: "sc_body sc = 2" "distinct (sc_vars sc)" "set (sc_vars sc) = tvars (term_of (ctx_nodes open_arrow) 2) - env_fv open_arrow (Some 0)"
    using generalize_closed [of "\<lambda>k. True" open_arrow 2 0] open_arrow_ok by (auto simp: open_arrow_def)
  have tv: "tvars (term_of (ctx_nodes open_arrow) 2) = {0, 1}" unfolding term_of_eq [OF open_arrow_den(3)] by auto
  have "set (sc_vars sc) = {1}" unfolding sc(3) tv open_arrow_ok(3) by auto
  moreover from this have "length (sc_vars sc) = Suc 0" using distinct_card [OF sc(2)] by simp
  then obtain v where "sc_vars sc = [v]" by (cases "sc_vars sc") auto
  ultimately have "sc_vars sc = [1]" by simp
  then have "sc = \<lparr>sc_vars = [1], sc_body = 2\<rparr>" using sc(1) by simp
  then show ?thesis using r by blast
qed

section \<open>Requests that are refused\<close>

text \<open>An operation only asks for the requests that it counts.\<close>

definition agree :: "(nat \<Rightarrow> bool) \<Rightarrow> (nat \<Rightarrow> bool) \<Rightarrow> hm_ctx \<Rightarrow> hm_ctx \<Rightarrow> bool" where
  "agree g h ctx ctx' \<longleftrightarrow> (\<forall>k. ctx_allocs ctx \<le> k \<longrightarrow> k < ctx_allocs ctx' \<longrightarrow> g k = h k)"

lemma agree_split:
  assumes "agree g h ctx ctx'" and "ctx_allocs ctx \<le> ctx_allocs ctx1" "ctx_allocs ctx1 \<le> ctx_allocs ctx'"
  shows "agree g h ctx ctx1" "agree g h ctx1 ctx'"
  using assms by (auto simp: agree_def)

lemma set_new_local:
  assumes "hm_i_set_new g ctx = (ctx', r)"
  shows "ctx_allocs ctx \<le> ctx_allocs ctx'" "agree g h ctx ctx' \<Longrightarrow> hm_i_set_new h ctx = (ctx', r)"
  using assms by (auto simp: hm_i_set_new_def hm_i_alloc_def agree_def)

lemma scheme_alloc_local:
  assumes "hm_i_scheme_alloc g ctx n = (ctx', r)"
  shows "ctx_allocs ctx \<le> ctx_allocs ctx'" "agree g h ctx ctx' \<Longrightarrow> hm_i_scheme_alloc h ctx n = (ctx', r)"
  using assms by (auto simp: hm_i_scheme_alloc_def hm_i_alloc_def agree_def split: if_splits)

lemma set_add_local:
  assumes "hm_i_set_add g ctx s v = (ctx', s')"
  shows "ctx_allocs ctx \<le> ctx_allocs ctx'" "agree g h ctx ctx' \<Longrightarrow> hm_i_set_add h ctx s v = (ctx', s')"
  using assms by (auto simp: hm_i_set_add_def hm_i_set_grow_def hm_i_alloc_def agree_def split: if_splits)

lemma collect_local:
  "fold (hm_i_collect_free g ft fe) is (ctx, s) = (ctx', s') \<Longrightarrow>
    ctx_allocs ctx \<le> ctx_allocs ctx' \<and> (agree g h ctx ctx' \<longrightarrow> fold (hm_i_collect_free h ft fe) is (ctx, s) = (ctx', s'))"
proof (induction "is" arbitrary: ctx s)
  case (Cons i "is")
  obtain ctx1 s1 where r: "hm_i_collect_free g ft fe i (ctx, s) = (ctx1, s1)" by fastforce
  have l: "ctx_allocs ctx \<le> ctx_allocs ctx1"
    "agree g h ctx ctx1 \<Longrightarrow> hm_i_collect_free h ft fe i (ctx, s) = (ctx1, s1)"
    using r set_add_local [of g ctx s "hm_i_set_at ft i" ctx1 s1]
    by (simp_all add: hm_i_collect_free_def Let_def split: if_splits)
  from Cons.IH [of ctx1 s1] Cons.prems r l show ?case using agree_split [of g h ctx ctx' ctx1] by auto
qed simp

lemma ftv_local:
  "hm_i_type_ftv g n ctx t out = Some (ctx', out') \<Longrightarrow>
    ctx_allocs ctx \<le> ctx_allocs ctx' \<and> (agree g h ctx ctx' \<longrightarrow> hm_i_type_ftv h n ctx t out = Some (ctx', out'))"
  "hm_i_type_ftv_args g n ctx as out = Some (ctx', out') \<Longrightarrow>
    ctx_allocs ctx \<le> ctx_allocs ctx' \<and> (agree g h ctx ctx' \<longrightarrow> hm_i_type_ftv_args h n ctx as out = Some (ctx', out'))"
proof (induction g n ctx t out and g n ctx as out arbitrary: ctx' out' and ctx' out'
    rule: hm_i_type_ftv_hm_i_type_ftv_args.induct)
  case (2 g n ctx t out)
  obtain ns p where p: "hm_type_prune (ctx_nodes ctx) t = Some (ns, p)" using 2(2) by (auto split: Option.bind_splits)
  show ?case
  proof (cases "ns ! p")
    case (TVar i l)
    then show ?thesis using 2(2) p set_add_local [of g "ctx\<lparr>ctx_nodes := ns\<rparr>" out p ctx' out']
      by (auto simp: Let_def agree_def)
  next
    case (TCon f as)
    then show ?thesis using 2(2) p 2(1) [OF p refl refl TCon] by (auto simp: Let_def agree_def)
  qed
next
  case (4 g n ctx a as out)
  obtain ctx1 out1 where r: "hm_i_type_ftv g n ctx a out = Some (ctx1, out1)" using 4(3) by (auto split: Option.bind_splits)
  have "hm_i_type_ftv_args g n ctx1 as out1 = Some (ctx', out')" using 4(3) r by simp
  from 4(2) [OF r refl this] 4(1) [OF r] r show ?case
    using agree_split [of g h ctx ctx' ctx1] by auto
qed simp_all

text \<open>If the sets for the bodies of its schemes are refused, nothing of an environment is collected.\<close>

lemma scope_blind:
  assumes "\<And>k. ctx_allocs ctx \<le> k \<Longrightarrow> k < ctx_allocs ctx + length bs \<Longrightarrow> \<not> g k"
  shows "hm_i_scope_ftv g n ctx bs out = Some (ctx\<lparr>ctx_allocs := ctx_allocs ctx + length bs\<rparr>, out)"
  using assms
proof (induction bs arbitrary: ctx)
  case (Cons b bs)
  have "hm_i_scheme_ftv g n ctx (snd b) out = Some (ctx\<lparr>ctx_allocs := Suc (ctx_allocs ctx)\<rparr>, out)"
    using Cons.prems [of "ctx_allocs ctx"] by (simp add: hm_i_scheme_ftv_def hm_i_set_new_def hm_i_alloc_def)
  then show ?case using Cons.IH [of "ctx\<lparr>ctx_allocs := Suc (ctx_allocs ctx)\<rparr>"] Cons.prems by simp
qed simp

lemma env_blind:
  "envs_ok ctx \<Longrightarrow> (case env of None \<Rightarrow> True | Some e \<Rightarrow> e < length (ctx_envs ctx)) \<Longrightarrow>
    \<exists>d. \<forall>g n. (\<forall>k. ctx_allocs ctx \<le> k \<longrightarrow> k < ctx_allocs ctx + d \<longrightarrow> \<not> g k) \<longrightarrow>
      hm_i_env_ftv g n ctx env out = Some (ctx\<lparr>ctx_allocs := ctx_allocs ctx + d\<rparr>, out)"
proof (induction "case env of None \<Rightarrow> 0 | Some e \<Rightarrow> Suc e" arbitrary: ctx env rule: less_induct)
  case less
  show ?case
  proof (cases env)
    case None
    have "hm_i_env_ftv g n ctx env out = Some (ctx, out)" for g n by (subst hm_i_env_ftv.simps) (simp add: None)
    then show ?thesis by (intro exI [of _ 0]) simp
  next
    case (Some e)
    let ?env = "ctx_envs ctx ! e"
    let ?m = "length (env_bindings ?env)"
    let ?c = "ctx\<lparr>ctx_allocs := ctx_allocs ctx + ?m\<rparr>"
    have e: "e < length (ctx_envs ctx)" using less.prems(2) Some by simp
    have ok: "case env_parent ?env of None \<Rightarrow> True | Some q \<Rightarrow> q < e" using less.prems(1) e by (auto simp: envs_ok_def)
    have "\<exists>d. \<forall>g n. (\<forall>k. ctx_allocs ?c \<le> k \<longrightarrow> k < ctx_allocs ?c + d \<longrightarrow> \<not> g k) \<longrightarrow>
      hm_i_env_ftv g n ?c (env_parent ?env) out = Some (?c\<lparr>ctx_allocs := ctx_allocs ?c + d\<rparr>, out)"
    proof (rule less.hyps)
      show "(case env_parent ?env of None \<Rightarrow> 0 | Some e \<Rightarrow> Suc e) < (case env of None \<Rightarrow> 0 | Some e \<Rightarrow> Suc e)"
        using ok Some by (simp split: option.splits)
      show "envs_ok ?c" using less.prems(1) by (simp add: envs_ok_def)
      show "case env_parent ?env of None \<Rightarrow> True | Some e \<Rightarrow> e < length (ctx_envs ?c)" using ok e by (simp split: option.splits)
    qed
    then obtain d where d: "\<And>g n. (\<And>k. ctx_allocs ctx + ?m \<le> k \<Longrightarrow> k < ctx_allocs ctx + ?m + d \<Longrightarrow> \<not> g k) \<Longrightarrow>
      hm_i_env_ftv g n ?c (env_parent ?env) out = Some (ctx\<lparr>ctx_allocs := ctx_allocs ctx + ?m + d\<rparr>, out)" by auto
    have "hm_i_env_ftv g n ctx env out = Some (ctx\<lparr>ctx_allocs := ctx_allocs ctx + (?m + d)\<rparr>, out)"
      if "\<forall>k. ctx_allocs ctx \<le> k \<longrightarrow> k < ctx_allocs ctx + (?m + d) \<longrightarrow> \<not> g k" for g n
    proof -
      have "hm_i_scope_ftv g n ctx (env_bindings ?env) out = Some (?c, out)" using that by (intro scope_blind) simp
      then show ?thesis using d [of g n] that by (subst hm_i_env_ftv.simps) (simp add: Some add.assoc)
    qed
    then show ?thesis by (intro exI [of _ "?m + d"]) blast
  qed
qed

text \<open>If nothing was collected of the environment, all variables of the type are quantified.\<close>

lemma quantify_all:
  fixes ft :: hm_i_set
  obtains ctx1 ctx2 ctx3 qs where "distinct (set_items qs)" "set (set_items qs) = set (set_items ft)"
    "\<And>g. \<forall>k \<ge> ctx_allocs ctx. g k \<Longrightarrow> hm_i_set_new g ctx = (ctx1, Some \<lparr>set_cap = 0, set_items = []\<rparr>)
      \<and> fold (hm_i_collect_free g ft \<lparr>set_cap = 0, set_items = []\<rparr>) [0..<hm_i_set_count ft] (ctx1, \<lparr>set_cap = 0, set_items = []\<rparr>) = (ctx2, qs)
      \<and> hm_i_scheme_alloc g ctx2 (hm_i_set_count qs) = (ctx3, True)"
proof -
  let ?T = "\<lambda>k :: nat. True" and ?empty = "\<lparr>set_cap = 0, set_items = []\<rparr> :: hm_i_set"
  obtain ctx1 where c1: "hm_i_set_new ?T ctx = (ctx1, Some ?empty)" by (rule set_new_granted [of ?T ctx]) auto
  let ?q = "fold (hm_i_collect_free ?T ft ?empty) [0..<hm_i_set_count ft] (ctx1, ?empty)"
  have "collects ctx1 ?empty {v \<in> hm_i_set_at ft ` set [0..<hm_i_set_count ft]. \<not> hm_i_set_has ?empty v} ?q"
    by (rule fold_add [of ?T]) (simp_all add: hm_i_collect_free_def Let_def set_ok_def)
  then have q: "collects ctx1 ?empty (set (set_items ft)) ?q" unfolding items_image by (simp add: hm_i_set_has_def)
  obtain ctx2 qs where q2: "?q = (ctx2, qs)" by fastforce
  obtain ctx3 where c3: "hm_i_scheme_alloc ?T ctx2 (hm_i_set_count qs) = (ctx3, True)"
    by (rule scheme_alloc_granted [of ?T ctx2 "hm_i_set_count qs"]) auto
  have m: "ctx_allocs ctx \<le> ctx_allocs ctx1" "ctx_allocs ctx1 \<le> ctx_allocs ctx2"
    using set_new_local(1) [OF c1] collect_local [OF q2] by auto
  show thesis
  proof (rule that [of qs ctx1 ctx2 ctx3])
    show "distinct (set_items qs)" "set (set_items qs) = set (set_items ft)" using q q2 by (simp_all add: collects_def set_ok_def)
    show "hm_i_set_new g ctx = (ctx1, Some ?empty)
      \<and> fold (hm_i_collect_free g ft ?empty) [0..<hm_i_set_count ft] (ctx1, ?empty) = (ctx2, qs)
      \<and> hm_i_scheme_alloc g ctx2 (hm_i_set_count qs) = (ctx3, True)" if "\<forall>k \<ge> ctx_allocs ctx. g k" for g
      using that m set_new_local(2) [OF c1, of g] collect_local [OF q2, of g] scheme_alloc_local(2) [OF c3, of g]
      by (auto simp: agree_def)
  qed
qed

text \<open>C15: For every type and environment there is one block of requests such that, if the arena refuses these and
  grants every other, generalisation reports no failure but quantifies all variables of the type, the
  variables that the environment has free included.\<close>

theorem refused_memory_generalizes:
  assumes "wf_nodes (ctx_nodes ctx)" and "envs_ok ctx" and "t < length (ctx_nodes ctx)" and "e < length (ctx_envs ctx)"
  shows "\<exists>a d ctx' sc n0. (\<forall>n \<ge> n0. hm_generalize (\<lambda>k. k < a \<or> a + d \<le> k) n ctx (Some e) t = Some (ctx', Some sc))
    \<and> sc_body sc = t \<and> distinct (sc_vars sc) \<and> set (sc_vars sc) = tvars (term_of (ctx_nodes ctx) t)"
proof -
  let ?T = "\<lambda>k :: nat. True" and ?empty = "\<lparr>set_cap = 0, set_items = []\<rparr> :: hm_i_set"
  have empty: "set_ok ?empty" by (simp add: set_ok_def)
  obtain ctx1 where c1: "hm_i_set_new ?T ctx = (ctx1, Some ?empty)" "calm ctx ctx1" by (rule set_new_granted [of ?T ctx]) auto
  have s1: "same (ctx_nodes ctx) (ctx_nodes ctx1)" using c1(2) by (simp add: calm_def)
  obtain ctx2 ft where r2: "returns (\<lambda>n. hm_i_type_ftv ?T n ctx1 t ?empty) (ctx2, ft)"
    "collects ctx1 ?empty (tvars (term_of (ctx_nodes ctx) t)) (ctx2, ft)"
    using ftv_spec [of ?T ctx1 t ?empty] assms same_facts [OF s1] empty by auto
  obtain ctx3 where c3: "hm_i_set_new ?T ctx2 = (ctx3, Some ?empty)" "calm ctx2 ctx3" by (rule set_new_granted [of ?T ctx2]) auto
  have "calm ctx1 ctx2" using r2(2) by (simp add: collects_def)
  then have c: "calm ctx ctx3" using c1(2) c3(2) calm_trans by blast
  have "envs_ok ctx3" "e < length (ctx_envs ctx3)" using assms(2,4) calm_env [OF c] c by (simp_all add: calm_def)
  from env_blind [OF this(1), of "Some e" ?empty, unfolded option.case, OF this(2)]
  obtain d where d: "\<forall>g n. (\<forall>k. ctx_allocs ctx3 \<le> k \<longrightarrow> k < ctx_allocs ctx3 + d \<longrightarrow> \<not> g k) \<longrightarrow>
      hm_i_env_ftv g n ctx3 (Some e) ?empty = Some (ctx3\<lparr>ctx_allocs := ctx_allocs ctx3 + d\<rparr>, ?empty)" by blast
  let ?g = "\<lambda>k. k < ctx_allocs ctx3 \<or> ctx_allocs ctx3 + d \<le> k" and ?ctx4 = "ctx3\<lparr>ctx_allocs := ctx_allocs ctx3 + d\<rparr>"
  obtain ctx5 ctx6 ctx7 qs where qs: "distinct (set_items qs)" "set (set_items qs) = set (set_items ft)"
    and n5: "\<And>g. \<forall>k \<ge> ctx_allocs ?ctx4. g k \<Longrightarrow> hm_i_set_new g ?ctx4 = (ctx5, Some ?empty)
      \<and> fold (hm_i_collect_free g ft ?empty) [0..<hm_i_set_count ft] (ctx5, ?empty) = (ctx6, qs)
      \<and> hm_i_scheme_alloc g ctx6 (hm_i_set_count qs) = (ctx7, True)"
    by (rule quantify_all [of ft ?ctx4]) (rule that, assumption+)
  have run2: "returns (\<lambda>n. hm_i_type_ftv h n ctx1 t ?empty) (ctx2, ft)" if "agree ?T h ctx1 ctx2" for h
    using r2(1) ftv_local(1) that unfolding returns_def by blast
  have m: "ctx_allocs ctx1 \<le> ctx_allocs ctx2" "ctx_allocs ctx2 \<le> ctx_allocs ctx3"
    using returns_some [OF r2(1)] ftv_local(1) [of ?T _ ctx1 t ?empty ctx2 ft] set_new_local(1) [OF c3(1)] by auto
  have n1: "hm_i_set_new ?g ctx = (ctx1, Some ?empty)" and n3: "hm_i_set_new ?g ctx2 = (ctx3, Some ?empty)"
    using m set_new_local(2) [OF c1(1)] set_new_local(2) [OF c3(1)] by (auto simp: agree_def)
  note n5 = n5 [of ?g, simplified]
  have n2: "returns (\<lambda>n. hm_i_type_ftv ?g n ctx1 t ?empty) (ctx2, ft)" using m by (intro run2) (simp add: agree_def)
  have n4: "hm_i_env_ftv ?g n ctx3 (Some e) ?empty = Some (?ctx4, ?empty)" for n
    by (rule d [rule_format]) auto
  let ?sc = "\<lparr>sc_vars = set_items qs, sc_body = t\<rparr>"
  have run: "returns (\<lambda>n. hm_generalize ?g n ctx (Some e) t) (ctx7, Some ?sc)"
    unfolding hm_generalize_def n1 prod.case option.case
    by (rule bind_pair [OF n2]) (simp add: n3 n4 n5 returnsI)
  have "set (set_items qs) = tvars (term_of (ctx_nodes ctx) t)" using r2(2) qs(2) by (simp add: collects_def)
  then have "\<exists>ctx' sc n0. (\<forall>n \<ge> n0. hm_generalize ?g n ctx (Some e) t = Some (ctx', Some sc))
    \<and> sc_body sc = t \<and> distinct (sc_vars sc) \<and> set (sc_vars sc) = tvars (term_of (ctx_nodes ctx) t)"
    using run qs(1) unfolding returns_def by (intro exI [of _ ctx7] exI [of _ ?sc]) simp
  then show ?thesis by (iprover intro: exI)
qed

text \<open>In \<open>open_arrow\<close> the variable \<open>a\<close> is free in the environment, and quantified.\<close>

theorem refused_memory_generalizes_witness:
  "\<exists>a d ctx' sc n. hm_generalize (\<lambda>k. k < a \<or> a + d \<le> k) n open_arrow (Some 0) 2 = Some (ctx', Some sc)
     \<and> set (sc_vars sc) = {0, 1} \<and> env_fv open_arrow (Some 0) = {0}"
proof -
  have "tvars (term_of (ctx_nodes open_arrow) 2) = {0, 1}" unfolding term_of_eq [OF open_arrow_den(3)] by auto
  moreover have "2 < length (ctx_nodes open_arrow)" "0 < length (ctx_envs open_arrow)" by (simp_all add: open_arrow_def)
  ultimately show ?thesis
    using refused_memory_generalizes [OF open_arrow_ok(1,2), of 2 0] open_arrow_ok(3) by (metis order_refl)
qed

end
