(* ===== verification/Bwt_Sa.thy ===== *)
theory Bwt_Sa
  imports Prelude
begin

text \<open>
  \<open>libbwt89\<close>, the allocation backend (\<open>bwt89_alloc.c\<close>) and the suffix array construction by induced sorting
  (\<open>bwt89_sa.c\<close>).

  Symbols, positions and counters of the C type \<open>int\<close> that are never negative are natural numbers, an entry
  of the suffix array, which may be -1, is an integer. An array that is filled from the front with a
  counter is the list of what was written. The arithmetic that overflows \<open>int\<close> for large inputs, the
  offsets into the arena, is checked: a call that would overflow has the result \<open>None\<close>.
\<close>

section \<open>Allocation\<close>

record bwt89_globals =
  g_malloc_calls :: ulong
  g_realloc_calls :: ulong
  g_free_calls :: ulong
  g_live_allocs :: ulong
  g_alloc_ord :: ulong
  g_fail_at :: ulong
  g_bwt_calls :: ulong
  g_sais_calls :: ulong
  g_ed_insert :: ulong
  g_ed_delete :: ulong
  g_ed_substitute :: ulong
  sys_requests :: nat

text \<open>The static variables when the program starts.\<close>

definition bwt89_start :: bwt89_globals where
  "bwt89_start = \<lparr>g_malloc_calls = 0, g_realloc_calls = 0, g_free_calls = 0, g_live_allocs = 0, g_alloc_ord = 0, g_fail_at = 0,
     g_bwt_calls = 0, g_sais_calls = 0, g_ed_insert = 0, g_ed_delete = 0, g_ed_substitute = 0, sys_requests = 0\<rparr>"

definition should_fail :: "bwt89_globals \<Rightarrow> bwt89_globals \<times> bool" where
  "should_fail g =
     (if g_fail_at g = 0 then (g, False)
      else let g = g\<lparr>g_alloc_ord := g_alloc_ord g + 1\<rparr> in (g, g_alloc_ord g = g_fail_at g))"

text \<open>\<open>grants k\<close> tells whether the C library grants its request \<open>k\<close>; \<open>sys_requests\<close> counts them.\<close>

definition sys_alloc :: "(nat \<Rightarrow> bool) \<Rightarrow> bwt89_globals \<Rightarrow> bwt89_globals \<times> bool" where
  "sys_alloc grants g = (g\<lparr>sys_requests := Suc (sys_requests g)\<rparr>, grants (sys_requests g))"

definition bwt89_malloc :: "(nat \<Rightarrow> bool) \<Rightarrow> bwt89_globals \<Rightarrow> bwt89_globals \<times> bool" where
  "bwt89_malloc grants g =
     (case should_fail (g\<lparr>g_malloc_calls := g_malloc_calls g + 1\<rparr>) of (g, fail) \<Rightarrow>
        if fail then (g, False)
        else case sys_alloc grants g of (g, ok) \<Rightarrow>
          (if ok then g\<lparr>g_live_allocs := g_live_allocs g + 1\<rparr> else g, ok))"

definition bwt89_realloc :: "(nat \<Rightarrow> bool) \<Rightarrow> bwt89_globals \<Rightarrow> bool \<Rightarrow> bwt89_globals \<times> bool" where
  "bwt89_realloc grants g p =
     (case should_fail (g\<lparr>g_realloc_calls := g_realloc_calls g + 1\<rparr>) of (g, fail) \<Rightarrow>
        if fail then (g, False)
        else case sys_alloc grants g of (g, ok) \<Rightarrow>
          (if ok \<and> \<not> p then g\<lparr>g_live_allocs := g_live_allocs g + 1\<rparr> else g, ok))"

definition bwt89_free :: "bwt89_globals \<Rightarrow> bool \<Rightarrow> bwt89_globals" where
  "bwt89_free g p =
     (let g = g\<lparr>g_free_calls := g_free_calls g + 1\<rparr> in if p then g\<lparr>g_live_allocs := g_live_allocs g - 1\<rparr> else g)"

definition bwt89_note_bwt :: "bwt89_globals \<Rightarrow> bwt89_globals" where
  "bwt89_note_bwt g = g\<lparr>g_bwt_calls := g_bwt_calls g + 1\<rparr>"

definition bwt89_note_sais :: "bwt89_globals \<Rightarrow> bwt89_globals" where
  "bwt89_note_sais g = g\<lparr>g_sais_calls := g_sais_calls g + 1\<rparr>"

definition bwt89_note_edit_insert :: "bwt89_globals \<Rightarrow> bwt89_globals" where
  "bwt89_note_edit_insert g = g\<lparr>g_ed_insert := g_ed_insert g + 1\<rparr>"

definition bwt89_note_edit_delete :: "bwt89_globals \<Rightarrow> bwt89_globals" where
  "bwt89_note_edit_delete g = g\<lparr>g_ed_delete := g_ed_delete g + 1\<rparr>"

definition bwt89_note_edit_substitute :: "bwt89_globals \<Rightarrow> bwt89_globals" where
  "bwt89_note_edit_substitute g = g\<lparr>g_ed_substitute := g_ed_substitute g + 1\<rparr>"

definition bwt89_test_reset_stats :: "bwt89_globals \<Rightarrow> bwt89_globals" where
  "bwt89_test_reset_stats g =
     g\<lparr>g_malloc_calls := 0, g_realloc_calls := 0, g_free_calls := 0, g_live_allocs := 0, g_alloc_ord := 0, g_fail_at := 0,
       g_bwt_calls := 0, g_sais_calls := 0, g_ed_insert := 0, g_ed_delete := 0, g_ed_substitute := 0\<rparr>"

definition bwt89_test_fail_alloc_at :: "bwt89_globals \<Rightarrow> ulong \<Rightarrow> bwt89_globals" where
  "bwt89_test_fail_alloc_at g k = g\<lparr>g_alloc_ord := 0, g_fail_at := k\<rparr>"

definition bwt89_test_disable_alloc_failure :: "bwt89_globals \<Rightarrow> bwt89_globals" where
  "bwt89_test_disable_alloc_failure g = g\<lparr>g_fail_at := 0\<rparr>"

definition bwt89_test_alloc_calls :: "bwt89_globals \<Rightarrow> ulong" where
  "bwt89_test_alloc_calls g = g_malloc_calls g + g_realloc_calls g"

definition bwt89_test_live_allocs :: "bwt89_globals \<Rightarrow> ulong" where
  "bwt89_test_live_allocs g = g_live_allocs g"

definition bwt89_test_malloc_calls :: "bwt89_globals \<Rightarrow> ulong" where
  "bwt89_test_malloc_calls g = g_malloc_calls g"

definition bwt89_test_realloc_calls :: "bwt89_globals \<Rightarrow> ulong" where
  "bwt89_test_realloc_calls g = g_realloc_calls g"

definition bwt89_test_free_calls :: "bwt89_globals \<Rightarrow> ulong" where
  "bwt89_test_free_calls g = g_free_calls g"

definition bwt89_test_bwt_calls :: "bwt89_globals \<Rightarrow> ulong" where
  "bwt89_test_bwt_calls g = g_bwt_calls g"

definition bwt89_test_sais_calls :: "bwt89_globals \<Rightarrow> ulong" where
  "bwt89_test_sais_calls g = g_sais_calls g"

definition bwt89_test_ed_insert_steps :: "bwt89_globals \<Rightarrow> ulong" where
  "bwt89_test_ed_insert_steps g = g_ed_insert g"

definition bwt89_test_ed_delete_steps :: "bwt89_globals \<Rightarrow> ulong" where
  "bwt89_test_ed_delete_steps g = g_ed_delete g"

definition bwt89_test_ed_substitute_steps :: "bwt89_globals \<Rightarrow> ulong" where
  "bwt89_test_ed_substitute_steps g = g_ed_substitute g"

section \<open>Types of positions\<close>

datatype bwt89_sa_type = BWT89_SA_L | BWT89_SA_S

definition INT_MAX :: int where
  "INT_MAX = 2147483647"

definition classify_one :: "nat \<Rightarrow> nat \<Rightarrow> bwt89_sa_type \<Rightarrow> bwt89_sa_type" where
  "classify_one a b nb = (if a < b then BWT89_SA_S else if b < a then BWT89_SA_L else nb)"

text \<open>The array is filled from its end.\<close>

fun classify_types :: "nat list \<Rightarrow> bwt89_sa_type list" where
  "classify_types [] = []"
| "classify_types [x] = [BWT89_SA_S]"
| "classify_types (x # y # xs) = (let t = classify_types (y # xs) in classify_one x y (t ! 0) # t)"

definition lms_start :: "bwt89_sa_type list \<Rightarrow> nat \<Rightarrow> nat \<Rightarrow> bool" where
  "lms_start t n x =
     (if t ! x \<noteq> BWT89_SA_S then False
      else if x = n - 1 then True
      else if x = 0 then False
      else t ! (x - 1) = BWT89_SA_L)"

definition find_next_lms :: "bwt89_sa_type list \<Rightarrow> nat \<Rightarrow> nat \<Rightarrow> nat" where
  "find_next_lms t n start = (case List.find (lms_start t n) [start + 1..<n] of Some i \<Rightarrow> i | None \<Rightarrow> n)"

definition lms_equal :: "nat list \<Rightarrow> bwt89_sa_type list \<Rightarrow> nat \<Rightarrow> nat \<Rightarrow> nat \<Rightarrow> bool" where
  "lms_equal s t n a b =
     (let ea = find_next_lms t n a; eb = find_next_lms t n b in
      if ea - a \<noteq> eb - b then False else list_all (\<lambda>i. s ! i = s ! (b + (i - a))) [a..<ea])"

definition next_name :: "nat list \<Rightarrow> bwt89_sa_type list \<Rightarrow> nat \<Rightarrow> nat \<Rightarrow> nat \<Rightarrow> nat \<Rightarrow> nat" where
  "next_name s t n a b cur = (if lms_equal s t n a b then cur else cur + 1)"

section \<open>Buckets\<close>

definition zero_range :: "nat \<Rightarrow> nat list" where
  "zero_range len = replicate len 0"

definition fill_neg :: "nat \<Rightarrow> int list" where
  "fill_neg len = replicate len (- 1)"

definition count_symbols :: "nat list \<Rightarrow> nat list \<Rightarrow> nat list" where
  "count_symbols s cnt = fold (\<lambda>x cnt. cnt[x := cnt ! x + 1]) s cnt"

definition make_heads :: "nat list \<Rightarrow> nat \<Rightarrow> nat list" where
  "make_heads cnt K = fold (\<lambda>c bkt. bkt @ [bkt ! (c - 1) + cnt ! (c - 1)]) [1..<K + 1] [0]"

definition make_tails :: "nat list \<Rightarrow> nat \<Rightarrow> nat list" where
  "make_tails cnt K = fold (\<lambda>c bkt. bkt @ [bkt ! (c - 1) + cnt ! c]) [1..<K + 1] [cnt ! 0]"

definition place_head :: "nat \<Rightarrow> nat \<Rightarrow> int list \<times> nat list \<Rightarrow> int list \<times> nat list" where
  "place_head c val = (\<lambda>(sa, bkt). (sa[bkt ! c := int val], bkt[c := bkt ! c + 1]))"

definition place_tail :: "nat \<Rightarrow> nat \<Rightarrow> int list \<times> nat list \<Rightarrow> int list \<times> nat list" where
  "place_tail c val = (\<lambda>(sa, bkt). let j = bkt ! c - 1 in (sa[j := int val], bkt[c := j]))"

section \<open>Steps of the construction\<close>

definition place_lms :: "bwt89_sa_type list \<Rightarrow> nat \<Rightarrow> nat \<Rightarrow> nat list \<Rightarrow> nat list" where
  "place_lms t n i ls = (if lms_start t n i then ls @ [i] else ls)"

definition append_sorted :: "int list \<Rightarrow> bwt89_sa_type list \<Rightarrow> nat \<Rightarrow> nat \<Rightarrow> nat list \<Rightarrow> nat list" where
  "append_sorted sa t n i ls = (let j = sa ! i in if 0 \<le> j then place_lms t n (nat j) ls else ls)"

definition seed_one :: "nat list \<Rightarrow> bwt89_sa_type list \<Rightarrow> nat \<Rightarrow> nat \<Rightarrow> int list \<times> nat list \<Rightarrow> int list \<times> nat list" where
  "seed_one s t n i r = (if lms_start t n i then place_tail (s ! i) i r else r)"

definition induced_L_step :: "nat list \<Rightarrow> bwt89_sa_type list \<Rightarrow> nat \<Rightarrow> int list \<times> nat list \<Rightarrow> int list \<times> nat list" where
  "induced_L_step s t i r =
     (let p = fst r ! i in
      if p \<le> 0 then r
      else let prev = nat p - 1 in if t ! prev \<noteq> BWT89_SA_L then r else place_head (s ! prev) prev r)"

definition induced_S_step :: "nat list \<Rightarrow> bwt89_sa_type list \<Rightarrow> nat \<Rightarrow> int list \<times> nat list \<Rightarrow> int list \<times> nat list" where
  "induced_S_step s t i r =
     (let p = fst r ! i in
      if p \<le> 0 then r
      else let prev = nat p - 1 in if t ! prev \<noteq> BWT89_SA_S then r else place_tail (s ! prev) prev r)"

definition name_one :: "nat list \<Rightarrow> nat list \<Rightarrow> bwt89_sa_type list \<Rightarrow> nat \<Rightarrow> nat \<Rightarrow> int list \<times> nat \<Rightarrow> int list \<times> nat" where
  "name_one ls s t n i =
     (\<lambda>(sa, num). let a = ls ! (i - 1); b = ls ! i; nxt = next_name s t n a b num in (sa[b := int nxt], nxt))"

definition build_s1 :: "int list \<Rightarrow> bwt89_sa_type list \<Rightarrow> nat \<Rightarrow> nat \<Rightarrow> nat list \<Rightarrow> nat list" where
  "build_s1 sa t n i s1 = (if lms_start t n i then s1 @ [nat (sa ! i)] else s1)"

text \<open>Every entry of the array is written, so what it held before does not matter.\<close>

definition build_inverse :: "nat list \<Rightarrow> nat \<Rightarrow> int list" where
  "build_inverse s1 m = fold (\<lambda>r sa1. sa1[s1 ! r := int r]) [0..<m] (replicate m 0)"

definition final_seed_one :: "nat list \<Rightarrow> nat list \<Rightarrow> int list \<Rightarrow> nat \<Rightarrow> int list \<times> nat list \<Rightarrow> int list \<times> nat list" where
  "final_seed_one s ls sa1 rank r = (let i = ls ! nat (sa1 ! rank) in place_tail (s ! i) i r)"

section \<open>The recursive core\<close>

text \<open>The two passes that sort everything from the order of the seeds; the code has them twice.\<close>

definition induce :: "nat list \<Rightarrow> bwt89_sa_type list \<Rightarrow> nat list \<Rightarrow> nat \<Rightarrow> int list \<Rightarrow> int list" where
  "induce s t cnt K sa =
     (let n = length s;
          sa = fst (fold (induced_L_step s t) [0..<n] (sa, make_heads cnt K))
      in fst (fold (induced_S_step s t) (rev [0..<n]) (sa, make_tails cnt K)))"

definition seed_lms :: "nat list \<Rightarrow> bwt89_sa_type list \<Rightarrow> nat list \<Rightarrow> nat \<Rightarrow> int list" where
  "seed_lms s t cnt K =
     (let n = length s in fst (fold (seed_one s t n) (rev [0..<n]) (fill_neg n, make_tails cnt K)))"

definition sorted_lms :: "int list \<Rightarrow> bwt89_sa_type list \<Rightarrow> nat \<Rightarrow> nat list" where
  "sorted_lms sa t n = fold (append_sorted sa t n) [0..<n] []"

definition name_lms :: "nat list \<Rightarrow> nat list \<Rightarrow> bwt89_sa_type list \<Rightarrow> int list \<times> nat" where
  "name_lms ls s t =
     (let n = length s; m = length ls; sa = fill_neg n in
      fold (name_one ls s t n) [1..<m] (if 0 < m then sa[ls ! 0 := 0] else sa, 0))"

definition reduced_string :: "int list \<Rightarrow> bwt89_sa_type list \<Rightarrow> nat \<Rightarrow> nat list" where
  "reduced_string sa t n = fold (build_s1 sa t n) [0..<n] []"

definition lms_positions :: "bwt89_sa_type list \<Rightarrow> nat \<Rightarrow> nat list" where
  "lms_positions t n = fold (place_lms t n) [0..<n] []"

definition seed_final :: "nat list \<Rightarrow> nat list \<Rightarrow> int list \<Rightarrow> nat list \<Rightarrow> nat \<Rightarrow> int list" where
  "seed_final s ls sa1 cnt K =
     fst (fold (final_seed_one s ls sa1) (rev [0..<length ls]) (fill_neg (length s), make_tails cnt K))"

lemma reduced_string_eq: "reduced_string sa t n = map (\<lambda>i. nat (sa ! i)) (filter (lms_start t n) [0..<n])"
proof -
  have "fold (build_s1 sa t n) xs s1 = s1 @ map (\<lambda>i. nat (sa ! i)) (filter (lms_start t n) xs)" for xs s1
    by (induction xs arbitrary: s1) (simp_all add: build_s1_def)
  then show ?thesis by (simp add: reduced_string_def)
qed

lemma lms_positions_eq: "lms_positions t n = filter (lms_start t n) [0..<n]"
proof -
  have "fold (place_lms t n) xs ls = ls @ filter (lms_start t n) xs" for xs ls
    by (induction xs arbitrary: ls) (simp_all add: place_lms_def)
  then show ?thesis by (simp add: lms_positions_def)
qed

lemma few_lms: "1 < n \<Longrightarrow> length (filter (lms_start t n) [0..<n]) < n"
proof -
  assume "1 < n"
  then have "\<not> lms_start t n 0" "[0..<n] = 0 # [1..<n]" by (simp_all add: lms_start_def upt_conv_Cons)
  then show ?thesis using length_filter_le [of "lms_start t n" "[1..<n]"] \<open>1 < n\<close> by simp
qed

function sa_is_core :: "(nat \<Rightarrow> bool) \<Rightarrow> bwt89_globals \<Rightarrow> nat list \<Rightarrow> nat \<Rightarrow> (bwt89_globals \<times> int list option) option" where
  "sa_is_core grants g s K =
     (let n = length s in
      if n \<le> 1 then Some (g, Some (if n = 1 then [0] else []))
      else case bwt89_malloc grants g of (g, ok) \<Rightarrow>
        if \<not> ok then Some (g, None)
        else if INT_MAX < 4 * int n then None
        else
          let t = classify_types s;
              cnt = count_symbols s (zero_range (K + 1));
              sa = induce s t cnt K (seed_lms s t cnt K);
              (sa, num) = name_lms (sorted_lms sa t n) s t;
              s1 = reduced_string sa t n;
              m = length s1
          in
          (case (if num + 1 = m then Some (g, Some (build_inverse s1 m)) else sa_is_core grants g s1 num) of
            None \<Rightarrow> None
          | Some (g, None) \<Rightarrow> Some (bwt89_free g True, None)
          | Some (g, Some sa1) \<Rightarrow>
              Some (bwt89_free g True, Some (induce s t cnt K (seed_final s (lms_positions t n) sa1 cnt K)))))"
  by pat_completeness auto
termination
  by (relation "measure (\<lambda>(grants, g, s, K). length s)") (auto simp: reduced_string_eq few_lms)

declare sa_is_core.simps [simp del]

definition bwt89_sa_is :: "(nat \<Rightarrow> bool) \<Rightarrow> bwt89_globals \<Rightarrow> nat list \<Rightarrow> nat \<Rightarrow> (bwt89_globals \<times> int list option) option" where
  "bwt89_sa_is grants g s K = sa_is_core grants (bwt89_note_sais g) s K"

end
