(* ===== verification/Bwt_Induce.thy ===== *)
theory Bwt_Induce
  imports Bwt_Sa
begin

text \<open>
  Induced sorting. The two passes sort all positions by an order that puts a position before another if its
  symbol is smaller, a position of type L before one of type S, and otherwise compares their successors. They do
  so for any order with these laws (locale \<open>induced_order\<close>), given the positions that start an LMS substring in order.
\<close>

section \<open>Strings, types and buckets\<close>

text \<open>The contract of the construction: the last symbol is the unique least one.\<close>

definition sa_string :: "nat list \<Rightarrow> nat \<Rightarrow> bool" where
  "sa_string s K \<longleftrightarrow> s \<noteq> [] \<and> (\<forall>x \<in> set s. x \<le> K) \<and> (\<forall>i < length s. s ! i = 0 \<longleftrightarrow> i = length s - 1)"

abbreviation stype :: "nat list \<Rightarrow> nat \<Rightarrow> bwt89_sa_type" where
  "stype s i \<equiv> classify_types s ! i"

lemma length_classify [simp]: "length (classify_types s) = length s"
  by (induction s rule: classify_types.induct) (simp_all add: Let_def)

lemma typ_last: "Suc i = length s \<Longrightarrow> stype s i = BWT89_SA_S"
  by (induction s arbitrary: i rule: classify_types.induct) (auto simp: Let_def)

lemma typ_step: "Suc i < length s \<Longrightarrow> stype s i = classify_one (s ! i) (s ! Suc i) (stype s (Suc i))"
proof (induction s arbitrary: i rule: classify_types.induct)
  case (3 x y xs)
  then show ?case by (cases i) (simp_all add: Let_def)
qed simp_all

lemma typ_L_iff: "stype s i = BWT89_SA_L \<longleftrightarrow> stype s i \<noteq> BWT89_SA_S"
  by (cases "stype s i") simp_all

lemma typ_S_le: "Suc i < length s \<Longrightarrow> stype s i = BWT89_SA_S \<Longrightarrow> s ! i \<le> s ! Suc i"
  by (auto simp: typ_step classify_one_def split: if_splits)

lemma typ_L_ge: "Suc i < length s \<Longrightarrow> stype s i = BWT89_SA_L \<Longrightarrow> s ! Suc i \<le> s ! i"
  by (auto simp: typ_step classify_one_def split: if_splits)

lemma typ_eq: "Suc i < length s \<Longrightarrow> s ! i = s ! Suc i \<Longrightarrow> stype s i = stype s (Suc i)"
  by (simp add: typ_step classify_one_def)

lemma typ_L_Suc: "i < length s \<Longrightarrow> stype s i = BWT89_SA_L \<Longrightarrow> Suc i < length s"
  using typ_last [of i s] by (cases "Suc i = length s") auto

definition lms :: "nat list \<Rightarrow> nat set" where
  "lms s = {i. i < length s \<and> lms_start (classify_types s) (length s) i}"

lemma lms_S: "i \<in> lms s \<Longrightarrow> stype s i = BWT89_SA_S"
  by (simp add: lms_def lms_start_def split: if_splits)

lemma lms_after_L: "Suc i < length s \<Longrightarrow> stype s i = BWT89_SA_L \<Longrightarrow> stype s (Suc i) = BWT89_SA_S \<Longrightarrow> Suc i \<in> lms s"
  by (simp add: lms_def lms_start_def)

lemma lms_last: "s \<noteq> [] \<Longrightarrow> length s - 1 \<in> lms s"
  using typ_last [of "length s - 1" s] by (simp add: lms_def lms_start_def)

definition at_char :: "nat list \<Rightarrow> bwt89_sa_type \<Rightarrow> nat \<Rightarrow> nat set" where
  "at_char s ty c = {i. i < length s \<and> s ! i = c \<and> stype s i = ty}"

lemma finite_at_char [simp]: "finite (at_char s ty c)"
  by (rule finite_subset [of _ "{..<length s}"]) (auto simp: at_char_def)

definition bstart :: "nat list \<Rightarrow> nat \<Rightarrow> nat" where
  "bstart s c = length (filter (\<lambda>x. x < c) s)"

abbreviation bend :: "nat list \<Rightarrow> nat \<Rightarrow> nat" where
  "bend s c \<equiv> bstart s (Suc c)"

definition sstart :: "nat list \<Rightarrow> nat \<Rightarrow> nat" where
  "sstart s c = bstart s c + card (at_char s BWT89_SA_L c)"

lemma bstart_Suc: "bend s c = bstart s c + count_list s c"
  by (induction s) (auto simp: bstart_def)

lemma bstart_mono: "c \<le> d \<Longrightarrow> bstart s c \<le> bstart s d"
  by (rule lift_Suc_mono_le) (simp_all add: bstart_Suc)

lemma bstart_0 [simp]: "bstart s 0 = 0"
  by (simp add: bstart_def)

lemma bstart_le: "bstart s c \<le> length s"
  by (simp add: bstart_def)

lemma bstart_all: "(\<And>x. x \<in> set s \<Longrightarrow> x < c) \<Longrightarrow> bstart s c = length s"
  by (simp add: bstart_def)

lemma count_list_card: "count_list s c = card {i. i < length s \<and> s ! i = c}"
  by (simp add: count_list_eq_length_filter length_filter_conv_card eq_commute)

lemma bend_sstart: "bend s c = sstart s c + card (at_char s BWT89_SA_S c)"
proof -
  have "{i. i < length s \<and> s ! i = c} = at_char s BWT89_SA_L c \<union> at_char s BWT89_SA_S c"
    using bwt89_sa_type.exhaust by (auto simp: at_char_def)
  moreover have "at_char s BWT89_SA_L c \<inter> at_char s BWT89_SA_S c = {}" by (auto simp: at_char_def)
  ultimately have "count_list s c = card (at_char s BWT89_SA_L c) + card (at_char s BWT89_SA_S c)"
    unfolding count_list_card by (simp add: card_Un_disjoint)
  then show ?thesis by (simp add: bstart_Suc sstart_def)
qed

lemma bucket_below: "j < bstart s k \<Longrightarrow> \<exists>c < k. bstart s c \<le> j \<and> j < bend s c"
proof (induction k)
  case (Suc k)
  then show ?case by (cases "j < bstart s k") (auto simp: not_less intro: less_SucI)
qed simp

lemma bucket_of:
  assumes "j < length s" and "\<forall>x \<in> set s. x \<le> K"
  obtains c where "c \<le> K" "bstart s c \<le> j" "j < bend s c"
proof -
  have "j < bstart s (Suc K)" using bstart_all [of s "Suc K"] assms by (simp add: less_Suc_eq_le)
  then show ?thesis using bucket_below [of j s "Suc K"] that by (auto simp: less_Suc_eq_le)
qed

lemma bucket_unique: "bstart s c \<le> j \<Longrightarrow> j < bend s c \<Longrightarrow> bstart s d \<le> j \<Longrightarrow> j < bend s d \<Longrightarrow> c = d"
  using bstart_mono [of "Suc c" d s] bstart_mono [of "Suc d" c s] by (cases c d rule: linorder_cases) auto

lemma buckets_apart: "c < d \<Longrightarrow> bend s c \<le> bstart s d"
  by (rule bstart_mono) simp

section \<open>Counting and bucket limits\<close>

lemma length_count_symbols [simp]: "length (count_symbols s cnt) = length cnt"
  by (induction s arbitrary: cnt) (simp_all add: count_symbols_def)

lemma count_symbols_nth: "c < length cnt \<Longrightarrow> count_symbols s cnt ! c = cnt ! c + count_list s c"
  by (induction s arbitrary: cnt) (auto simp: count_symbols_def nth_list_update)

definition counts :: "nat list \<Rightarrow> nat \<Rightarrow> nat list" where
  "counts s K = count_symbols s (zero_range (K + 1))"

lemma counts_nth: "c \<le> K \<Longrightarrow> counts s K ! c = count_list s c"
  by (simp add: counts_def count_symbols_nth zero_range_def del: replicate_Suc)

lemma make_heads_nth: "length (make_heads (counts s K) K) = K + 1 \<and> (\<forall>c \<le> K. make_heads (counts s K) K ! c = bstart s c)"
proof -
  let ?f = "\<lambda>k. fold (\<lambda>c bkt. bkt @ [bkt ! (c - 1) + counts s K ! (c - 1)]) [1..<k + 1] [0]"
  have "k \<le> K \<Longrightarrow> length (?f k) = k + 1 \<and> (\<forall>c \<le> k. ?f k ! c = bstart s c)" for k
  proof (induction k)
    case (Suc k)
    then have "?f (Suc k) = ?f k @ [?f k ! k + counts s K ! k]" by simp
    then show ?case using Suc by (auto simp: nth_append le_Suc_eq counts_nth bstart_Suc)
  qed simp
  then show ?thesis by (simp add: make_heads_def)
qed

lemma make_tails_nth: "length (make_tails (counts s K) K) = K + 1 \<and> (\<forall>c \<le> K. make_tails (counts s K) K ! c = bend s c)"
proof -
  let ?f = "\<lambda>k. fold (\<lambda>c bkt. bkt @ [bkt ! (c - 1) + counts s K ! c]) [1..<k + 1] [counts s K ! 0]"
  have "k \<le> K \<Longrightarrow> length (?f k) = k + 1 \<and> (\<forall>c \<le> k. ?f k ! c = bend s c)" for k
  proof (induction k)
    case 0
    then show ?case by (simp add: counts_nth bstart_Suc)
  next
    case (Suc k)
    then have "?f (Suc k) = ?f k @ [?f k ! k + counts s K ! Suc k]" by simp
    then show ?case using Suc by (auto simp: nth_append le_Suc_eq counts_nth bstart_Suc)
  qed
  then show ?thesis by (simp add: make_tails_def)
qed

section \<open>The order laws\<close>

text \<open>Comparisons that the symbol and the type decide.\<close>

definition before :: "nat list \<Rightarrow> nat \<Rightarrow> nat \<Rightarrow> bool" where
  "before s i j \<longleftrightarrow> s ! i < s ! j \<or> s ! i = s ! j \<and> stype s i = BWT89_SA_L \<and> stype s j = BWT89_SA_S"

text \<open>
  \<open>leL\<close> orders what the first pass reads and writes, \<open>leS\<close> all positions. The first pass may look at the start
  of an LMS substring as a single symbol, the second must not.
\<close>

locale induced_order =
  fixes leL leS :: "nat list \<Rightarrow> nat \<Rightarrow> nat \<Rightarrow> bool"
  assumes L_before: "sa_string s K \<Longrightarrow> i < length s \<Longrightarrow> j < length s \<Longrightarrow> before s i j \<Longrightarrow> leL s i j"
    and L_step: "sa_string s K \<Longrightarrow> Suc i < length s \<Longrightarrow> Suc j < length s \<Longrightarrow> s ! i = s ! j \<Longrightarrow> stype s i = BWT89_SA_L
      \<Longrightarrow> stype s j = BWT89_SA_L \<Longrightarrow> leL s (Suc i) (Suc j) \<Longrightarrow> leL s i j"
    and S_before: "sa_string s K \<Longrightarrow> i < length s \<Longrightarrow> j < length s \<Longrightarrow> before s i j \<Longrightarrow> leS s i j"
    and S_step: "sa_string s K \<Longrightarrow> Suc i < length s \<Longrightarrow> Suc j < length s \<Longrightarrow> s ! i = s ! j \<Longrightarrow> stype s i = BWT89_SA_S
      \<Longrightarrow> stype s j = BWT89_SA_S \<Longrightarrow> leS s (Suc i) (Suc j) \<Longrightarrow> leS s i j"
    and S_agree: "sa_string s K \<Longrightarrow> i < length s \<Longrightarrow> j < length s \<Longrightarrow> stype s i = BWT89_SA_L \<Longrightarrow> stype s j = BWT89_SA_L
      \<Longrightarrow> leL s i j \<Longrightarrow> leS s i j"

section \<open>The array by buckets\<close>

text \<open>A list stored in the array from a position on.\<close>

definition stored :: "int list \<Rightarrow> nat \<Rightarrow> nat list \<Rightarrow> bool" where
  "stored sa a ps \<longleftrightarrow> (\<forall>k < length ps. sa ! (a + k) = int (ps ! k))"

lemma stored_nth: "stored sa a ps \<Longrightarrow> a \<le> j \<Longrightarrow> j < a + length ps \<Longrightarrow> sa ! j = int (ps ! (j - a))"
  unfolding stored_def by (metis add_diff_inverse_nat add_less_cancel_left not_less)

lemma stored_index: "stored sa a ps \<Longrightarrow> p \<in> set ps \<Longrightarrow> \<exists>j. a \<le> j \<and> j < a + length ps \<and> sa ! j = int p"
  unfolding stored_def in_set_conv_nth by (metis add_less_cancel_left le_add1)

lemma stored_update: "stored sa a ps \<Longrightarrow> k < a \<or> a + length ps \<le> k \<Longrightarrow> stored (sa[k := x]) a ps"
  by (auto simp: stored_def)

lemma stored_snoc: "stored sa a ps \<Longrightarrow> a + length ps < length sa \<Longrightarrow> stored (sa[a + length ps := int p]) a (ps @ [p])"
  by (auto simp: stored_def nth_append less_Suc_eq)

lemma stored_Cons: "stored sa (Suc a) ps \<Longrightarrow> a < length sa \<Longrightarrow> stored (sa[a := int p]) a (p # ps)"
  unfolding stored_def
proof (intro allI impI)
  fix k
  assume "\<forall>k < length ps. sa ! (Suc a + k) = int (ps ! k)" "a < length sa" "k < length (p # ps)"
  then show "sa[a := int p] ! (a + k) = int ((p # ps) ! k)" by (cases k) simp_all
qed

text \<open>The seeds: the LMS positions at the ends of their buckets, nothing else.\<close>

definition seeds :: "nat list \<Rightarrow> (nat \<Rightarrow> nat list) \<Rightarrow> bool" where
  "seeds s sd \<longleftrightarrow> (\<forall>c. distinct (sd c) \<and> set (sd c) = {p \<in> lms s. s ! p = c})"

definition seeded :: "nat list \<Rightarrow> nat \<Rightarrow> (nat \<Rightarrow> nat list) \<Rightarrow> int list \<Rightarrow> bool" where
  "seeded s K sd sa \<longleftrightarrow> length sa = length s \<and> seeds s sd
     \<and> (\<forall>c \<le> K. stored sa (bend s c - length (sd c)) (sd c)
          \<and> (\<forall>j. bstart s c \<le> j \<and> j < bend s c - length (sd c) \<longrightarrow> sa ! j = - 1))"

lemma seeds_at: "seeds s sd \<Longrightarrow> set (sd c) \<subseteq> at_char s BWT89_SA_S c"
  using lms_S by (fastforce simp: seeds_def at_char_def lms_def)

lemma length_le_at_char: "distinct ps \<Longrightarrow> set ps \<subseteq> at_char s ty c \<Longrightarrow> length ps \<le> card (at_char s ty c)"
  using card_mono [of "at_char s ty c" "set ps"] distinct_card [of ps] by simp

end
