(* ===== verification/Bwt_Pass_L.thy ===== *)
theory Bwt_Pass_L
  imports Bwt_Induce
begin

text \<open>The first pass of induced sorting: from the seeds, the positions of type L.\<close>

section \<open>The first pass\<close>

text \<open>Before index \<open>i\<close> is read, \<open>ps c\<close> is what the bucket of \<open>c\<close> holds at its front: the positions of type L
  whose successors have been read, in order.\<close>

definition L_inv :: "(nat \<Rightarrow> nat \<Rightarrow> bool) \<Rightarrow> nat list \<Rightarrow> nat \<Rightarrow> (nat \<Rightarrow> nat list) \<Rightarrow> nat \<Rightarrow> (nat \<Rightarrow> nat list) \<Rightarrow> int list \<times> nat list \<Rightarrow> bool" where
  "L_inv le s K sd i ps r \<longleftrightarrow> (case r of (sa, bkt) \<Rightarrow>
     length sa = length s \<and> length bkt = K + 1
   \<and> (\<forall>c \<le> K. bkt ! c = bstart s c + length (ps c) \<and> distinct (ps c) \<and> set (ps c) \<subseteq> at_char s BWT89_SA_L c
        \<and> sorted_wrt le (ps c) \<and> stored sa (bstart s c) (ps c) \<and> stored sa (bend s c - length (sd c)) (sd c)
        \<and> (\<forall>j. bstart s c + length (ps c) \<le> j \<and> j < bend s c - length (sd c) \<longrightarrow> sa ! j = - 1))
   \<and> (\<forall>p < length s. stype s p = BWT89_SA_L \<longrightarrow> (p \<in> set (ps (s ! p)) \<longleftrightarrow> (\<exists>j < i. sa ! j = int (Suc p)))))"

lemma L_room:
  assumes "L_inv le s K sd i ps (sa, bkt)" and "seeds s sd" and "c \<le> K"
  shows "bstart s c + length (ps c) \<le> sstart s c" "sstart s c + length (sd c) \<le> bend s c"
proof -
  have "length (ps c) \<le> card (at_char s BWT89_SA_L c)" using assms length_le_at_char by (auto simp: L_inv_def)
  then show "bstart s c + length (ps c) \<le> sstart s c" by (simp add: sstart_def)
  have "length (sd c) \<le> card (at_char s BWT89_SA_S c)" using assms(2) length_le_at_char seeds_at by (auto simp: seeds_def)
  then show "sstart s c + length (sd c) \<le> bend s c" by (simp add: bend_sstart)
qed

text \<open>What the entries of the array are.\<close>

lemma L_entry:
  assumes inv: "L_inv le s K sd i ps (sa, bkt)" and sd: "seeds s sd" and v: "sa_string s K"
    and j: "j < length s" "sa ! j = int p"
  obtains c where "c \<le> K" "bstart s c \<le> j" "j < bend s c" "p < length s" "s ! p = c"
    "stype s p = BWT89_SA_L \<and> j - bstart s c < length (ps c) \<and> p = ps c ! (j - bstart s c) \<and> j < sstart s c
     \<or> stype s p = BWT89_SA_S \<and> bend s c - length (sd c) \<le> j \<and> p = sd c ! (j - (bend s c - length (sd c))) \<and> sstart s c \<le> j"
proof -
  obtain c where c: "c \<le> K" "bstart s c \<le> j" "j < bend s c" using bucket_of j(1) v by (metis sa_string_def)
  note room = L_room [OF inv sd c(1)]
  have i: "set (ps c) \<subseteq> at_char s BWT89_SA_L c" "stored sa (bstart s c) (ps c)" "stored sa (bend s c - length (sd c)) (sd c)"
    "\<And>j. bstart s c + length (ps c) \<le> j \<Longrightarrow> j < bend s c - length (sd c) \<Longrightarrow> sa ! j = - 1"
    using inv c(1) by (auto simp: L_inv_def)
  show ?thesis
  proof (cases "j < bstart s c + length (ps c)")
    case True
    then have k: "j - bstart s c < length (ps c)" using c(2) by simp
    then have "ps c ! (j - bstart s c) \<in> at_char s BWT89_SA_L c" using i(1) nth_mem by blast
    moreover have "p = ps c ! (j - bstart s c)" using stored_nth [OF i(2) c(2) True] j(2) by simp
    ultimately show ?thesis using that [OF c] k True room by (simp add: at_char_def)
  next
    case False
    then have b: "bend s c - length (sd c) \<le> j" using i(4) [of j] j(2) by (cases "j < bend s c - length (sd c)") simp_all
    then have k: "j - (bend s c - length (sd c)) < length (sd c)" using c(3) by simp
    then have "sd c ! (j - (bend s c - length (sd c))) \<in> at_char s BWT89_SA_S c" using seeds_at [OF sd] nth_mem by blast
    moreover have "p = sd c ! (j - (bend s c - length (sd c)))" using stored_nth [OF i(3) b] c(3) j(2) room by simp
    ultimately show ?thesis using that [OF c] k b room by (simp add: at_char_def)
  qed
qed

text \<open>Writing one more position of type L at the head of its bucket.\<close>

lemma L_place:
  assumes inv: "L_inv le s K sd i ps (sa, bkt)" and sd: "seeds s sd" and i: "i < bkt ! c" and c: "c \<le> K"
    and q: "q \<in> at_char s BWT89_SA_L c" "q \<notin> set (ps c)" "sa ! i = int (Suc q)" "\<And>p. p \<in> set (ps c) \<Longrightarrow> le p q"
  shows "L_inv le s K sd (Suc i) (ps(c := ps c @ [q])) (place_head c q (sa, bkt))"
proof -
  let ?k = "bstart s c + length (ps c)"
  have len: "length sa = length s" "length bkt = K + 1" using inv by (simp_all add: L_inv_def)
  have at: "bkt ! d = bstart s d + length (ps d)" "distinct (ps d)" "set (ps d) \<subseteq> at_char s BWT89_SA_L d" "sorted_wrt le (ps d)"
    "stored sa (bstart s d) (ps d)" "stored sa (bend s d - length (sd d)) (sd d)"
    "\<And>j. bstart s d + length (ps d) \<le> j \<Longrightarrow> j < bend s d - length (sd d) \<Longrightarrow> sa ! j = - 1" if "d \<le> K" for d
    using inv that by (auto simp: L_inv_def)
  have "length (ps c @ [q]) \<le> card (at_char s BWT89_SA_L c)"
    using at(2,3) [OF c] q(1,2) by (intro length_le_at_char) auto
  then have k: "?k < sstart s c" "sstart s c + length (sd c) \<le> bend s c"
    using L_room(2) [OF inv sd c] by (simp_all add: sstart_def)
  have kn: "?k < length sa" using k bstart_le [of s "Suc c"] len(1) by linarith
  let ?sa = "sa[?k := int q]"
  let ?ps = "ps(c := ps c @ [q])"
  have other: "?k < bstart s d \<or> bend s d \<le> ?k" if "d \<noteq> c" for d
    using buckets_apart [of c d s] buckets_apart [of d c s] k that by (cases c d rule: linorder_cases) auto
  have "bkt[c := bkt ! c + 1] ! d = bstart s d + length (?ps d) \<and> distinct (?ps d) \<and> set (?ps d) \<subseteq> at_char s BWT89_SA_L d
        \<and> sorted_wrt le (?ps d) \<and> stored ?sa (bstart s d) (?ps d) \<and> stored ?sa (bend s d - length (sd d)) (sd d)
        \<and> (\<forall>j. bstart s d + length (?ps d) \<le> j \<and> j < bend s d - length (sd d) \<longrightarrow> ?sa ! j = - 1)" if d: "d \<le> K" for d
  proof (cases "d = c")
    case True
    have "stored ?sa (bstart s c) (ps c @ [q])" using at(5) [OF c] kn by (rule stored_snoc)
    moreover have "stored ?sa (bend s c - length (sd c)) (sd c)" using at(6) [OF c] k by (intro stored_update) simp_all
    moreover have "sorted_wrt le (ps c @ [q])" using at(4) [OF c] q(4) by (simp add: sorted_wrt_append)
    ultimately show ?thesis using True at [OF c] q(1,2) len c by auto
  next
    case False
    note room = L_room [OF inv sd d]
    have "stored ?sa (bstart s d) (ps d)" using at(5) [OF d] other [OF False] room by (intro stored_update) auto
    moreover have "stored ?sa (bend s d - length (sd d)) (sd d)" using at(6) [OF d] other [OF False] room by (intro stored_update) auto
    moreover have "?sa ! j = - 1" if "bstart s d + length (ps d) \<le> j" "j < bend s d - length (sd d)" for j
      using at(7) [OF d that] other [OF False] that by (cases "j = ?k") auto
    ultimately show ?thesis using False at [OF d] by simp
  qed
  moreover have "p \<in> set (?ps (s ! p)) \<longleftrightarrow> (\<exists>j < Suc i. ?sa ! j = int (Suc p))"
    if p: "p < length s" "stype s p = BWT89_SA_L" for p
  proof -
    have "(\<exists>j < Suc i. ?sa ! j = int (Suc p)) \<longleftrightarrow> (\<exists>j < i. sa ! j = int (Suc p)) \<or> sa ! i = int (Suc p)"
      using i at(1) [OF c] by (auto simp: less_Suc_eq)
    also have "\<dots> \<longleftrightarrow> p \<in> set (ps (s ! p)) \<or> p = q" using inv p q(3) by (auto simp: L_inv_def)
    finally show ?thesis using q(1) by (auto simp: at_char_def)
  qed
  ultimately show ?thesis using len at(1) [OF c] by (simp add: L_inv_def place_head_def)
qed

context induced_order
begin

lemma L_sorted:
  assumes inv: "L_inv (leL s) s K sd i ps (sa, bkt)" and sd: "seeds s sd" and v: "sa_string s K"
    and sorted: "\<And>c. sorted_wrt (leL s) (sd c)"
    and j: "j < j'" "j' < length s" "sa ! j = int p" "sa ! j' = int q"
  shows "leL s p q" "p \<noteq> q"
proof -
  obtain c where c: "c \<le> K" "bstart s c \<le> j" "j < bend s c" "p < length s" "s ! p = c"
    "stype s p = BWT89_SA_L \<and> j - bstart s c < length (ps c) \<and> p = ps c ! (j - bstart s c) \<and> j < sstart s c
     \<or> stype s p = BWT89_SA_S \<and> bend s c - length (sd c) \<le> j \<and> p = sd c ! (j - (bend s c - length (sd c))) \<and> sstart s c \<le> j"
    by (rule L_entry [OF inv sd v _ j(3)]) (use j in auto)
  obtain d where d: "d \<le> K" "bstart s d \<le> j'" "j' < bend s d" "q < length s" "s ! q = d"
    "stype s q = BWT89_SA_L \<and> j' - bstart s d < length (ps d) \<and> q = ps d ! (j' - bstart s d) \<and> j' < sstart s d
     \<or> stype s q = BWT89_SA_S \<and> bend s d - length (sd d) \<le> j' \<and> q = sd d ! (j' - (bend s d - length (sd d))) \<and> sstart s d \<le> j'"
    by (rule L_entry [OF inv sd v j(2,4)])
  have "c \<le> d" using buckets_apart [of d c s] c(2) d(3) j(1) by (cases "d < c") auto
  then consider "c < d" | "c = d" by linarith
  then have "leL s p q \<and> p \<noteq> q"
  proof cases
    case 1
    then show ?thesis using L_before [OF v c(4) d(4)] c(5) d(5) by (auto simp: before_def)
  next
    case 2
    have lists: "sorted_wrt (leL s) (ps c)" "distinct (ps c)" "distinct (sd c)" using inv sd c(1) by (auto simp: L_inv_def seeds_def)
    show ?thesis
    proof (cases "stype s p")
      case BWT89_SA_S
      then have "stype s q = BWT89_SA_S" using c(6) d(6) 2 j(1) by auto
      moreover have "length (sd c) \<le> bend s c" using L_room(2) [OF inv sd c(1)] by simp
      ultimately show ?thesis using BWT89_SA_S c(6) d(6) 2 j(1) d(3) sorted_wrt_nth_less [OF sorted [of c]] lists(3)
        by (auto simp: nth_eq_iff_index_eq)
    next
      case p: BWT89_SA_L
      show ?thesis
      proof (cases "stype s q")
        case BWT89_SA_S
        then show ?thesis using L_before [OF v c(4) d(4)] c(5) d(5) 2 p by (auto simp: before_def)
      next
        case BWT89_SA_L
        then show ?thesis using p c(2,6) d(6) 2 j(1) sorted_wrt_nth_less [OF lists(1)] lists(2) by (auto simp: nth_eq_iff_index_eq)
      qed
    qed
  qed
  then show "leL s p q" "p \<noteq> q" by simp_all
qed

lemma L_step_inv:
  assumes inv: "L_inv (leL s) s K sd i ps (sa, bkt)" and sd: "seeds s sd" and v: "sa_string s K"
    and sorted: "\<And>c. sorted_wrt (leL s) (sd c)" and i: "i < length s"
  shows "\<exists>ps'. L_inv (leL s) s K sd (Suc i) ps' (induced_L_step s (classify_types s) i (sa, bkt))"
proof (cases "\<exists>q. sa ! i = int (Suc q) \<and> stype s q = BWT89_SA_L")
  case False
  have "induced_L_step s (classify_types s) i (sa, bkt) = (sa, bkt)"
  proof (cases "sa ! i \<le> 0")
    case True
    then show ?thesis by (simp add: induced_L_step_def)
  next
    case pos: False
    then have "sa ! i = int (Suc (nat (sa ! i) - 1))" by simp
    then have "stype s (nat (sa ! i) - 1) \<noteq> BWT89_SA_L" using False by blast
    then show ?thesis by (simp add: induced_L_step_def Let_def)
  qed
  moreover have "L_inv (leL s) s K sd (Suc i) ps (sa, bkt)"
    using inv False by (auto simp: L_inv_def less_Suc_eq)
  ultimately show ?thesis by metis
next
  case True
  then obtain q where q: "sa ! i = int (Suc q)" "stype s q = BWT89_SA_L" by blast
  obtain d where d: "d \<le> K" "bstart s d \<le> i" "i < bend s d" "Suc q < length s" "s ! Suc q = d"
    "stype s (Suc q) = BWT89_SA_L \<and> i - bstart s d < length (ps d) \<and> Suc q = ps d ! (i - bstart s d) \<and> i < sstart s d
     \<or> stype s (Suc q) = BWT89_SA_S \<and> bend s d - length (sd d) \<le> i \<and> Suc q = sd d ! (i - (bend s d - length (sd d))) \<and> sstart s d \<le> i"
    by (rule L_entry [OF inv sd v i q(1)])
  let ?c = "s ! q"
  have qn: "q < length s" and c: "?c \<le> K" using d(4) v by (auto simp: sa_string_def)
  have dc: "d \<le> ?c" using typ_L_ge [OF d(4) q(2)] d(5) by simp
  have at: "bkt ! ?c = bstart s ?c + length (ps ?c)" "set (ps ?c) \<subseteq> at_char s BWT89_SA_L ?c" using inv c by (auto simp: L_inv_def)
  have placed: "p \<in> set (ps ?c) \<longleftrightarrow> (\<exists>j < i. sa ! j = int (Suc p))" if "p < length s" "stype s p = BWT89_SA_L" "s ! p = ?c" for p
    using inv that by (auto simp: L_inv_def)
  have slot: "i < bkt ! ?c"
  proof (cases "d = ?c")
    case True
    then have "stype s (Suc q) = BWT89_SA_L" using typ_eq [OF d(4)] d(5) q(2) by simp
    then show ?thesis using d(2,6) at(1) True by auto
  next
    case False
    then have "bend s d \<le> bstart s ?c" using buckets_apart dc by simp
    then show ?thesis using d(3) at(1) by simp
  qed
  have new: "q \<notin> set (ps ?c)"
    using placed [OF qn q(2) refl] L_sorted(2) [OF inv sd v sorted _ i _ q(1)] by blast
  have "leL s p q" if p: "p \<in> set (ps ?c)" for p
  proof -
    have pp: "p < length s" "s ! p = ?c" "stype s p = BWT89_SA_L" using p at(2) by (auto simp: at_char_def)
    then obtain j where j: "j < i" "sa ! j = int (Suc p)" using placed p by blast
    have "leL s (Suc p) (Suc q)" using L_sorted(1) [OF inv sd v sorted j(1) i j(2) q(1)] .
    then show ?thesis using L_step [OF v typ_L_Suc [OF pp(1,3)] d(4) pp(2,3) q(2)] by simp
  qed
  then have "L_inv (leL s) s K sd (Suc i) (ps(?c := ps ?c @ [q])) (place_head ?c q (sa, bkt))"
    using qn q by (intro L_place [OF inv sd slot c _ new q(1)]) (simp_all add: at_char_def)
  moreover have "nat (sa ! i) - 1 = q" "\<not> sa ! i \<le> 0" using q(1) by simp_all
  then have "induced_L_step s (classify_types s) i (sa, bkt) = place_head ?c q (sa, bkt)"
    using q(2) \<open>nat (sa ! i) - 1 = q\<close> \<open>\<not> sa ! i \<le> 0\<close> by (simp add: induced_L_step_def Let_def)
  ultimately show ?thesis by metis
qed

lemma L_init:
  assumes "seeded s K sd sa"
  shows "L_inv (leL s) s K sd 0 (\<lambda>_. []) (sa, make_heads (counts s K) K)"
  using assms make_heads_nth [of s K] by (simp add: L_inv_def seeded_def stored_def)

text \<open>After the pass every position of type L is in place.\<close>

lemma L_complete:
  assumes inv: "L_inv (leL s) s K sd (length s) ps (sa, bkt)" and sd: "seeds s sd" and v: "sa_string s K"
  shows "p < length s \<Longrightarrow> stype s p = BWT89_SA_L \<Longrightarrow> p \<in> set (ps (s ! p))"
proof (induction "length s - p" arbitrary: p rule: less_induct)
  case less
  have n: "Suc p < length s" using typ_L_Suc [OF less.prems] .
  let ?c = "s ! Suc p"
  have c: "?c \<le> K" using v n by (simp add: sa_string_def)
  have st: "stored sa (bstart s ?c) (ps ?c)" "stored sa (bend s ?c - length (sd ?c)) (sd ?c)" using inv c by (auto simp: L_inv_def)
  note room = L_room [OF inv sd c]
  have "\<exists>j. j < bend s ?c \<and> sa ! j = int (Suc p)"
  proof (cases "stype s (Suc p)")
    case BWT89_SA_L
    then have "Suc p \<in> set (ps ?c)" using less.hyps [of "Suc p"] n by simp
    then obtain j where "j < bstart s ?c + length (ps ?c)" "sa ! j = int (Suc p)" using stored_index [OF st(1)] by blast
    then show ?thesis using room by (intro exI [of _ j]) simp
  next
    case BWT89_SA_S
    then have "Suc p \<in> set (sd ?c)" using sd lms_after_L [OF n less.prems(2)] by (simp add: seeds_def)
    then obtain j where "j < bend s ?c - length (sd ?c) + length (sd ?c)" "sa ! j = int (Suc p)" using stored_index [OF st(2)] by blast
    then show ?thesis using room by (intro exI [of _ j]) simp
  qed
  then obtain j where "j < length s" "sa ! j = int (Suc p)" using bstart_le [of s "Suc ?c"] by (meson less_le_trans)
  then show ?case using inv less.prems unfolding L_inv_def by blast
qed

text \<open>The contract between the passes: the positions of type L are sorted at the front of their buckets, and the last
  position, which no other induces, is in its place.\<close>

definition L_placed :: "nat list \<Rightarrow> nat \<Rightarrow> (nat \<Rightarrow> nat list) \<Rightarrow> int list \<Rightarrow> bool" where
  "L_placed s K pl sa \<longleftrightarrow> length sa = length s \<and> sa ! 0 = int (length s - 1)
     \<and> (\<forall>c \<le> K. distinct (pl c) \<and> set (pl c) = at_char s BWT89_SA_L c \<and> sorted_wrt (leL s) (pl c) \<and> stored sa (bstart s c) (pl c))"

lemma L_pass:
  assumes sa: "seeded s K sd sa" and v: "sa_string s K" and sorted: "\<And>c. sorted_wrt (leL s) (sd c)"
  shows "\<exists>pl. L_placed s K pl (fst (fold (induced_L_step s (classify_types s)) [0..<length s] (sa, make_heads (counts s K) K)))"
proof -
  have sd: "seeds s sd" using sa by (simp add: seeded_def)
  let ?run = "\<lambda>k. fold (induced_L_step s (classify_types s)) [0..<k] (sa, make_heads (counts s K) K)"
  have "k \<le> length s \<Longrightarrow> \<exists>ps. L_inv (leL s) s K sd k ps (?run k)" for k
  proof (induction k)
    case 0
    then show ?case using L_init [OF sa] by auto
  next
    case (Suc k)
    then obtain ps where "L_inv (leL s) s K sd k ps (?run k)" by auto
    then show ?case using L_step_inv [OF _ sd v sorted, of k ps "fst (?run k)" "snd (?run k)"] Suc.prems by simp
  qed
  then obtain ps where run: "L_inv (leL s) s K sd (length s) ps (?run (length s))" by blast
  obtain sa' bkt' where res: "?run (length s) = (sa', bkt')" by fastforce
  have inv: "L_inv (leL s) s K sd (length s) ps (sa', bkt')" using run unfolding res .
  have "set (ps c) = at_char s BWT89_SA_L c" if "c \<le> K" for c
    using L_complete [OF inv sd v] inv that by (auto simp: L_inv_def at_char_def)
  moreover have "sa' ! 0 = int (length s - 1)"
  proof -
    have ne: "s \<noteq> []" "{p \<in> lms s. s ! p = 0} = {length s - 1}"
      using v lms_last [of s] by (auto simp: sa_string_def lms_def)
    then have "set (sd 0) = {length s - 1}" "distinct (sd 0)" using sd by (simp_all add: seeds_def)
    moreover from this have "length (sd 0) = Suc 0" using distinct_card [of "sd 0"] by simp
    ultimately have "sd 0 = [length s - 1]" by (cases "sd 0") auto
    moreover have "bend s 0 = 1"
    proof -
      have "{i. i < length s \<and> s ! i = 0} = {length s - 1}" using v by (auto simp: sa_string_def)
      then show ?thesis by (simp add: bstart_Suc count_list_card)
    qed
    moreover have "stored sa' (bend s 0 - length (sd 0)) (sd 0)" using inv by (simp add: L_inv_def)
    ultimately show ?thesis by (simp add: stored_def)
  qed
  ultimately show ?thesis using inv by (intro exI [of _ ps]) (auto simp: res L_placed_def L_inv_def)
qed

end

end
