(* ===== verification/Bwt_Pass_S.thy ===== *)
theory Bwt_Pass_S
  imports Bwt_Pass_L
begin

text \<open>
  The second pass of induced sorting, from the positions of type L the positions of type S, from the end of the
  array. It starts over the seeds that the first pass left in the array; they are overwritten before they
  are read.
\<close>

section \<open>The invariant\<close>

definition S_shape :: "(nat \<Rightarrow> nat \<Rightarrow> bool) \<Rightarrow> nat list \<Rightarrow> nat \<Rightarrow> (nat \<Rightarrow> nat list) \<Rightarrow> (nat \<Rightarrow> nat list) \<Rightarrow> int list \<Rightarrow> nat list \<Rightarrow> bool" where
  "S_shape le s K pl qs sa bkt \<longleftrightarrow> length sa = length s \<and> length bkt = K + 1 \<and> sa ! 0 = int (length s - 1)
   \<and> (\<forall>c \<le> K. stored sa (bstart s c) (pl c) \<and> set (pl c) = at_char s BWT89_SA_L c \<and> distinct (pl c)
        \<and> bkt ! c + length (qs c) = bend s c \<and> distinct (qs c) \<and> set (qs c) \<subseteq> at_char s BWT89_SA_S c - {length s - 1}
        \<and> sorted_wrt le (qs c) \<and> stored sa (bkt ! c) (qs c))"

text \<open>Every slot from \<open>i\<close> on that is reserved for type S has been written.\<close>

definition S_filled :: "nat list \<Rightarrow> nat \<Rightarrow> nat \<Rightarrow> nat list \<Rightarrow> bool" where
  "S_filled s K i bkt \<longleftrightarrow> (\<forall>c \<le> K. 0 < c \<longrightarrow> (\<forall>j. i \<le> j \<and> sstart s c \<le> j \<and> j < bend s c \<longrightarrow> bkt ! c \<le> j))"

text \<open>What has been placed is what the entries from \<open>i\<close> on induce.\<close>

definition S_induced :: "nat list \<Rightarrow> nat \<Rightarrow> (nat \<Rightarrow> nat list) \<Rightarrow> int list \<Rightarrow> bool" where
  "S_induced s i qs sa \<longleftrightarrow> (\<forall>p. Suc p < length s \<longrightarrow> stype s p = BWT89_SA_S \<longrightarrow>
     (p \<in> set (qs (s ! p)) \<longleftrightarrow> (\<exists>j. i \<le> j \<and> j < length s \<and> sa ! j = int (Suc p))))"

lemma S_shapeD:
  assumes "S_shape le s K pl qs sa bkt"
  shows "length sa = length s" "length bkt = K + 1" "sa ! 0 = int (length s - 1)"
    "c \<le> K \<Longrightarrow> stored sa (bstart s c) (pl c)" "c \<le> K \<Longrightarrow> set (pl c) = at_char s BWT89_SA_L c" "c \<le> K \<Longrightarrow> distinct (pl c)"
    "c \<le> K \<Longrightarrow> bkt ! c + length (qs c) = bend s c" "c \<le> K \<Longrightarrow> distinct (qs c)"
    "c \<le> K \<Longrightarrow> set (qs c) \<subseteq> at_char s BWT89_SA_S c - {length s - 1}" "c \<le> K \<Longrightarrow> sorted_wrt le (qs c)"
    "c \<le> K \<Longrightarrow> stored sa (bkt ! c) (qs c)"
  using assms by (simp_all add: S_shape_def)

lemma S_room:
  assumes "S_shape le s K pl qs sa bkt" and "c \<le> K"
  shows "sstart s c \<le> bkt ! c" "bkt ! c \<le> bend s c" "length (pl c) = sstart s c - bstart s c" "bstart s c \<le> sstart s c"
    "bend s c \<le> length s"
proof -
  note d = S_shapeD [OF assms(1)]
  have "length (qs c) \<le> card (at_char s BWT89_SA_S c)" using length_le_at_char d(8,9) assms(2) by blast
  then show "sstart s c \<le> bkt ! c" using d(7) [OF assms(2)] bend_sstart [of s c] by linarith
  show "bkt ! c \<le> bend s c" using d(7) [OF assms(2)] by linarith
  show "length (pl c) = sstart s c - bstart s c" using distinct_card [OF d(6)] d(5) assms(2) by (simp add: sstart_def)
  show "bstart s c \<le> sstart s c" by (simp add: sstart_def)
  show "bend s c \<le> length s" by (rule bstart_le)
qed

lemma string_facts:
  assumes "sa_string s K"
  shows "s \<noteq> []" "bend s 0 = 1" "at_char s BWT89_SA_L 0 = {}" "i < length s \<Longrightarrow> s ! i \<le> K"
    "i < length s \<Longrightarrow> s ! i = 0 \<longleftrightarrow> Suc i = length s"
proof -
  have z: "i < length s \<Longrightarrow> s ! i = 0 \<longleftrightarrow> Suc i = length s" for i using assms by (fastforce simp: sa_string_def)
  then show "i < length s \<Longrightarrow> s ! i = 0 \<longleftrightarrow> Suc i = length s" .
  show ne: "s \<noteq> []" using assms by (simp add: sa_string_def)
  have "{i. i < length s \<and> s ! i = 0} = {length s - 1}" using z ne by (auto simp: Suc_diff_Suc)
  then show "bend s 0 = 1" by (simp add: bstart_Suc count_list_card)
  show "at_char s BWT89_SA_L 0 = {}" using z typ_last [of _ s] by (auto simp: at_char_def)
  show "i < length s \<Longrightarrow> s ! i \<le> K" using assms by (simp add: sa_string_def)
qed

section \<open>Entries\<close>

lemma S_entry:
  assumes sh: "S_shape le s K pl qs sa bkt" and v: "sa_string s K" and f: "S_filled s K i bkt"
    and j: "i \<le> j" "j < length s"
  obtains c p where "c \<le> K" "bstart s c \<le> j" "j < bend s c" "sa ! j = int p" "p < length s" "s ! p = c"
    "stype s p = BWT89_SA_L \<and> j < sstart s c \<and> j - bstart s c < length (pl c) \<and> p = pl c ! (j - bstart s c)
     \<or> stype s p = BWT89_SA_S \<and> sstart s c \<le> j \<and> (0 < c \<longrightarrow> bkt ! c \<le> j \<and> j - bkt ! c < length (qs c) \<and> p = qs c ! (j - bkt ! c))"
proof -
  obtain c where c: "c \<le> K" "bstart s c \<le> j" "j < bend s c" using bucket_of j(2) v by (metis sa_string_def)
  note d = S_shapeD [OF sh] and r = S_room [OF sh c(1)] and z = string_facts [OF v]
  show ?thesis
  proof (cases "j < sstart s c")
    case True
    then have k: "j - bstart s c < length (pl c)" "j < bstart s c + length (pl c)" using c(2) r(3) by simp_all
    then have "pl c ! (j - bstart s c) \<in> at_char s BWT89_SA_L c" using d(5) c(1) nth_mem by blast
    then show ?thesis using that [OF c stored_nth [OF d(4) [OF c(1)] c(2) k(2)]] True k(1) by (simp add: at_char_def)
  next
    case False
    show ?thesis
    proof (cases "c = 0")
      case True
      then have "j = 0" using c(3) z(2) by simp
      moreover have "length s - 1 < length s" "s ! (length s - 1) = 0" using z(1) z(5) [of "length s - 1"] by simp_all
      moreover have "stype s (length s - 1) = BWT89_SA_S" using typ_last [of "length s - 1" s] z(1) by simp
      ultimately show ?thesis using that [of c "length s - 1", OF c] d(3) True False by simp
    next
      case pos: False
      then have b: "bkt ! c \<le> j" using f j c False by (auto simp: S_filled_def)
      then have k: "j - bkt ! c < length (qs c)" "j < bkt ! c + length (qs c)" using c(3) d(7) [OF c(1)] by linarith+
      then have "qs c ! (j - bkt ! c) \<in> at_char s BWT89_SA_S c" using d(9) [OF c(1)] nth_mem by blast
      then show ?thesis using that [OF c stored_nth [OF d(11) [OF c(1)] b k(2)]] b k(1) False by (simp add: at_char_def)
    qed
  qed
qed

text \<open>The next slot to be read has been written.\<close>

lemma S_filled_step:
  assumes sh: "S_shape le s K pl qs sa bkt" and v: "sa_string s K" and f: "S_filled s K (Suc x) bkt"
    and ind: "S_induced s (Suc x) qs sa"
  shows "S_filled s K x bkt"
  unfolding S_filled_def
proof (intro allI impI, elim conjE)
  fix c j
  assume c: "c \<le> K" "0 < c" and j: "x \<le> j" "sstart s c \<le> j" "j < bend s c"
  note d = S_shapeD [OF sh] and z = string_facts [OF v]
  show "bkt ! c \<le> j"
  proof (rule ccontr)
    assume no: "\<not> bkt ! c \<le> j"
    have jx: "j = x"
    proof (rule ccontr)
      assume "j \<noteq> x"
      then have "Suc x \<le> j" using j(1) by simp
      then show False using f c j(2,3) no unfolding S_filled_def by blast
    qed
    have "length (qs c) < card (at_char s BWT89_SA_S c)" using d(7) [OF c(1)] bend_sstart [of s c] no j(2) by linarith
    moreover have "length (qs c) = card (set (qs c))" using d(8) [OF c(1)] by (simp add: distinct_card)
    ultimately have "\<exists>p \<in> at_char s BWT89_SA_S c. p \<notin> set (qs c)"
      using card_mono [of "set (qs c)" "at_char s BWT89_SA_S c"] by (auto simp: subset_iff)
    then have ne: "{p \<in> at_char s BWT89_SA_S c. p \<notin> set (qs c)} \<noteq> {}" (is "?M \<noteq> {}") by blast
    have fin: "finite ?M" by simp
    let ?p = "Max ?M"
    have p: "?p < length s" "s ! ?p = c" "stype s ?p = BWT89_SA_S" "?p \<notin> set (qs c)"
      using Max_in [OF fin ne] by (simp_all add: at_char_def)
    have greatest: "q \<in> set (qs c)" if "q \<in> at_char s BWT89_SA_S c" "?p < q" for q
    proof (rule ccontr)
      assume "q \<notin> set (qs c)"
      then have "q \<in> ?M" using that(1) by blast
      then show False using Max_ge [OF fin] that(2) leD by blast
    qed
    have n: "Suc ?p < length s" using p(1,2) c(2) z(5) [OF p(1)] by linarith
    let ?d = "s ! Suc ?p"
    have dK: "?d \<le> K" and cd: "c \<le> ?d" using z(4) [OF n] typ_S_le [OF n p(3)] p(2) by simp_all
    note r = S_room [OF sh dK]
    have above: "c < ?d \<Longrightarrow> x < bstart s ?d" using buckets_apart [of c ?d s] j(3) jx by simp
    have "\<exists>k. Suc x \<le> k \<and> k < length s \<and> sa ! k = int (Suc ?p)"
    proof (cases "stype s (Suc ?p)")
      case BWT89_SA_L
      then have "c < ?d" using cd typ_eq [OF n] p(2,3) by (cases "c = ?d") auto
      have "Suc ?p \<in> set (pl ?d)" using BWT89_SA_L n d(5) [OF dK] by (simp add: at_char_def)
      then obtain k where "bstart s ?d \<le> k" "k < bstart s ?d + length (pl ?d)" "sa ! k = int (Suc ?p)"
        using stored_index [OF d(4) [OF dK]] by blast
      then show ?thesis using r above [OF \<open>c < ?d\<close>] by (intro exI [of _ k]) simp
    next
      case BWT89_SA_S
      then have at: "Suc ?p \<in> at_char s BWT89_SA_S ?d" using n by (simp add: at_char_def)
      have "Suc ?p \<in> set (qs ?d) \<and> x < bkt ! ?d"
      proof (cases "c = ?d")
        case True
        then show ?thesis using greatest [of "Suc ?p"] at no jx by simp
      next
        case False
        then have up: "x < bstart s ?d" "0 < ?d" using above cd by simp_all
        have "bkt ! ?d \<le> sstart s ?d"
        proof (cases "sstart s ?d < bend s ?d")
          case True
          then show ?thesis using f dK up r(4) by (simp add: S_filled_def)
        next
          case False
          then show ?thesis using r(2) by simp
        qed
        then have "card (at_char s BWT89_SA_S ?d) \<le> card (set (qs ?d))"
          using d(7) [OF dK] bend_sstart [of s ?d] distinct_card [OF d(8) [OF dK]] by linarith
        then have "set (qs ?d) = at_char s BWT89_SA_S ?d"
          using d(9) [OF dK] by (intro card_seteq) auto
        then show ?thesis using at up r(1,4) by simp
      qed
      then obtain k where "bkt ! ?d \<le> k" "k < bkt ! ?d + length (qs ?d)" "sa ! k = int (Suc ?p)" "x < bkt ! ?d"
        using stored_index [OF d(11) [OF dK]] by blast
      then show ?thesis using r(5) d(7) [OF dK] by (intro exI [of _ k]) simp
    qed
    then have "?p \<in> set (qs (s ! ?p))" using ind n p(3) unfolding S_induced_def by blast
    then show False using p(2,4) by simp
  qed
qed

section \<open>Placing\<close>

lemma ex_from: "(\<exists>j. x \<le> j \<and> P j) \<longleftrightarrow> P x \<or> (\<exists>j. Suc x \<le> j \<and> P j)"
  by (metis Suc_leD le_antisym not_less_eq_eq order_refl)

lemma S_place:
  assumes sh: "S_shape le s K pl qs sa bkt" and v: "sa_string s K" and c: "c \<le> K"
    and ind: "S_induced s (Suc x) qs sa" and f: "S_filled s K x bkt" and x: "bkt ! c \<le> x" "x < length s"
    and q: "q \<in> at_char s BWT89_SA_S c" "Suc q < length s" "q \<notin> set (qs c)" "sa ! x = int (Suc q)"
      "\<And>p. p \<in> set (qs c) \<Longrightarrow> le q p"
  shows "\<exists>qs' sa' bkt'. place_tail c q (sa, bkt) = (sa', bkt') \<and> S_shape le s K pl qs' sa' bkt' \<and> S_filled s K x bkt'
    \<and> S_induced s x qs' sa'"
proof -
  note d = S_shapeD [OF sh] and z = string_facts [OF v]
  let ?k = "bkt ! c - 1"
  let ?sa = "sa[?k := int q]" and ?bkt = "bkt[c := ?k]" and ?qs = "qs(c := q # qs c)"
  have qc: "q < length s" "s ! q = c" "q \<noteq> length s - 1" using q(1,2) by (auto simp: at_char_def)
  have c0: "0 < c" using z(5) [OF qc(1)] qc(2) q(2) by (cases c) auto
  have "length (q # qs c) \<le> card (at_char s BWT89_SA_S c)" using d(8,9) [OF c] q(1,3) by (intro length_le_at_char) auto
  then have k: "sstart s c \<le> ?k" "Suc ?k = bkt ! c" "?k < bend s c"
    using d(7) [OF c] bend_sstart [of s c] S_room(1) [OF sh c] by auto
  have kx: "?k < x" "?k < length sa" using k(2) x d(1) by simp_all
  have k0: "0 < ?k" using buckets_apart [OF c0, of s] z(2) S_room(4) [OF sh c] k(1) by simp
  have other: "?k < bstart s e \<or> bend s e \<le> ?k" if "e \<noteq> c" for e
    using buckets_apart [of c e s] buckets_apart [of e c s] S_room(4) [OF sh c] k that by (cases c e rule: linorder_cases) auto
  have "stored ?sa (bstart s e) (pl e) \<and> ?bkt ! e + length (?qs e) = bend s e \<and> distinct (?qs e)
      \<and> set (?qs e) \<subseteq> at_char s BWT89_SA_S e - {length s - 1} \<and> sorted_wrt le (?qs e) \<and> stored ?sa (?bkt ! e) (?qs e)" if e: "e \<le> K" for e
  proof (cases "e = c")
    case True
    have "stored sa (Suc ?k) (qs c)" using d(11) [OF c] by (simp only: k(2))
    then have "stored ?sa ?k (q # qs c)" using kx(2) by (rule stored_Cons)
    moreover have "stored ?sa (bstart s c) (pl c)" using d(4) [OF c] k(1) S_room(3,4) [OF sh c] by (intro stored_update) simp_all
    ultimately show ?thesis using True d(5-11) [OF c] c k q qc(3) d(2) by simp
  next
    case False
    note r = S_room [OF sh e]
    have "stored ?sa (bstart s e) (pl e)" using d(4) [OF e] other [OF False] r by (intro stored_update) auto
    moreover have "stored ?sa (bkt ! e) (qs e)" using d(7,11) [OF e] other [OF False] r by (intro stored_update) auto
    ultimately show ?thesis using False d(5-11) [OF e] by simp
  qed
  then have "S_shape le s K pl ?qs ?sa ?bkt" using d(1-3) d(5,6) k0 by (simp add: S_shape_def)
  moreover have "S_filled s K x ?bkt"
    using f k(2) d(2) c unfolding S_filled_def by (auto simp: nth_list_update intro: le_trans [of _ "bkt ! c"])
  moreover have "S_induced s x ?qs ?sa"
    unfolding S_induced_def
  proof (intro allI impI)
    fix p
    assume p: "Suc p < length s" "stype s p = BWT89_SA_S"
    have "(\<exists>j. x \<le> j \<and> j < length s \<and> ?sa ! j = int (Suc p)) \<longleftrightarrow> (\<exists>j. x \<le> j \<and> j < length s \<and> sa ! j = int (Suc p))"
      using kx(1) by (metis leD nth_list_update_neq)
    also have "\<dots> \<longleftrightarrow> p \<in> set (qs (s ! p)) \<or> p = q"
      unfolding ex_from [of x] using ind p x(2) q(4) by (auto simp: S_induced_def)
    finally show "p \<in> set (?qs (s ! p)) \<longleftrightarrow> (\<exists>j. x \<le> j \<and> j < length s \<and> ?sa ! j = int (Suc p))" using qc(2) by auto
  qed
  ultimately show ?thesis by (intro exI [of _ ?qs] exI [of _ ?sa] exI [of _ ?bkt]) (simp add: place_tail_def Let_def)
qed

context induced_order
begin

lemma S_sorted:
  assumes sh: "S_shape (leS s) s K pl qs sa bkt" and v: "sa_string s K" and f: "S_filled s K i bkt"
    and pl: "\<And>c. c \<le> K \<Longrightarrow> sorted_wrt (leL s) (pl c)"
    and j: "i \<le> j" "j < j'" "j' < length s" "sa ! j = int p" "sa ! j' = int q"
  shows "leS s p q" "p \<noteq> q"
proof -
  obtain c p' where c: "c \<le> K" "bstart s c \<le> j" "j < bend s c" "sa ! j = int p'" "p' < length s" "s ! p' = c"
    "stype s p' = BWT89_SA_L \<and> j < sstart s c \<and> j - bstart s c < length (pl c) \<and> p' = pl c ! (j - bstart s c)
     \<or> stype s p' = BWT89_SA_S \<and> sstart s c \<le> j \<and> (0 < c \<longrightarrow> bkt ! c \<le> j \<and> j - bkt ! c < length (qs c) \<and> p' = qs c ! (j - bkt ! c))"
    by (rule S_entry [OF sh v f j(1)]) (use j in auto)
  obtain e q' where e: "e \<le> K" "bstart s e \<le> j'" "j' < bend s e" "sa ! j' = int q'" "q' < length s" "s ! q' = e"
    "stype s q' = BWT89_SA_L \<and> j' < sstart s e \<and> j' - bstart s e < length (pl e) \<and> q' = pl e ! (j' - bstart s e)
     \<or> stype s q' = BWT89_SA_S \<and> sstart s e \<le> j' \<and> (0 < e \<longrightarrow> bkt ! e \<le> j' \<and> j' - bkt ! e < length (qs e) \<and> q' = qs e ! (j' - bkt ! e))"
    by (rule S_entry [OF sh v f _ j(3)]) (use j in auto)
  have pq: "p' = p" "q' = q" using c(4) e(4) j(4,5) by simp_all
  have "c \<le> e" using buckets_apart [of e c s] c(2) e(3) j(2) by (cases "e < c") auto
  then consider "c < e" | "c = e" by linarith
  then have "leS s p q \<and> p \<noteq> q"
  proof cases
    case 1
    then show ?thesis using S_before [OF v c(5) e(5)] c(6) e(6) pq by (auto simp: before_def)
  next
    case 2
    then have "0 < c" using c(3) e(3) string_facts(2) [OF v] j(2) by (cases c) auto
    note d = S_shapeD [OF sh]
    show ?thesis
    proof (cases "stype s p'")
      case BWT89_SA_S
      then have S: "j - bkt ! c < length (qs c)" "p' = qs c ! (j - bkt ! c)" "sstart s c \<le> j" "bkt ! c \<le> j" using c(7) \<open>0 < c\<close> by auto
      then have "j' - bkt ! c < length (qs c)" "q' = qs c ! (j' - bkt ! c)" using e(7) 2 j(2) \<open>0 < c\<close> by auto
      then show ?thesis using S j(2) sorted_wrt_nth_less [OF d(10) [OF c(1)], of "j - bkt ! c" "j' - bkt ! c"] d(8) [OF c(1)] pq
        by (auto simp: nth_eq_iff_index_eq)
    next
      case p: BWT89_SA_L
      then have L: "j - bstart s c < length (pl c)" "p' = pl c ! (j - bstart s c)" using c(7) by auto
      show ?thesis
      proof (cases "stype s q'")
        case BWT89_SA_S
        then show ?thesis using S_before [OF v c(5) e(5)] c(6) e(6) 2 p pq by (auto simp: before_def)
      next
        case q: BWT89_SA_L
        then have "j' - bstart s c < length (pl c)" "q' = pl c ! (j' - bstart s c)" using e(7) 2 by auto
        then have "leL s p q \<and> p \<noteq> q" using L c(2) j(2) sorted_wrt_nth_less [OF pl [OF c(1)], of "j - bstart s c" "j' - bstart s c"]
            d(6) [OF c(1)] pq by (auto simp: nth_eq_iff_index_eq)
        then show ?thesis using S_agree [OF v c(5) e(5) p q] pq by simp
      qed
    qed
  qed
  then show "leS s p q" "p \<noteq> q" by simp_all
qed

lemma S_step_inv:
  assumes sh: "S_shape (leS s) s K pl qs sa bkt" and v: "sa_string s K" and f: "S_filled s K (Suc x) bkt"
    and ind: "S_induced s (Suc x) qs sa" and pl: "\<And>c. c \<le> K \<Longrightarrow> sorted_wrt (leL s) (pl c)" and x: "x < length s"
  shows "\<exists>qs' sa' bkt'. induced_S_step s (classify_types s) x (sa, bkt) = (sa', bkt')
    \<and> S_shape (leS s) s K pl qs' sa' bkt' \<and> S_filled s K x bkt' \<and> S_induced s x qs' sa'"
proof -
  note fx = S_filled_step [OF sh v f ind] and z = string_facts [OF v]
  obtain d p where d: "d \<le> K" "bstart s d \<le> x" "x < bend s d" "sa ! x = int p" "p < length s" "s ! p = d"
    "stype s p = BWT89_SA_L \<and> x < sstart s d \<and> x - bstart s d < length (pl d) \<and> p = pl d ! (x - bstart s d)
     \<or> stype s p = BWT89_SA_S \<and> sstart s d \<le> x \<and> (0 < d \<longrightarrow> bkt ! d \<le> x \<and> x - bkt ! d < length (qs d) \<and> p = qs d ! (x - bkt ! d))"
    by (rule S_entry [OF sh v fx _ x]) auto
  show ?thesis
  proof (cases "0 < p \<and> stype s (p - 1) = BWT89_SA_S")
    case False
    then have "induced_S_step s (classify_types s) x (sa, bkt) = (sa, bkt)" using d(4) by (auto simp: induced_S_step_def Let_def)
    moreover have "S_induced s x qs sa"
      unfolding S_induced_def
    proof (intro allI impI)
      fix q
      assume q: "Suc q < length s" "stype s q = BWT89_SA_S"
      have "sa ! x \<noteq> int (Suc q)" using False d(4) q(2) by (cases p) auto
      then show "q \<in> set (qs (s ! q)) \<longleftrightarrow> (\<exists>j. x \<le> j \<and> j < length s \<and> sa ! j = int (Suc q))"
        unfolding ex_from [of x] using ind q by (simp add: S_induced_def)
    qed
    ultimately show ?thesis using sh fx by blast
  next
    case True
    then obtain q where q: "p = Suc q" "stype s q = BWT89_SA_S" by (cases p) auto
    have n: "Suc q < length s" using d(5) q(1) by simp
    let ?c = "s ! q"
    have c: "?c \<le> K" "?c \<le> d" using z(4) [of q] typ_S_le [OF n q(2)] n d(6) q(1) by simp_all
    have slot: "bkt ! ?c \<le> x"
    proof (cases "?c = d")
      case True
      then have "stype s p = BWT89_SA_S" using typ_eq [OF n] q d(6) by simp
      moreover have "0 < d" using True z(5) [of q] n by (cases d) auto
      ultimately show ?thesis using d(7) True by auto
    next
      case False
      then have "bend s ?c \<le> x" using buckets_apart [of ?c d s] c(2) d(2) by simp
      then show ?thesis using S_room(2) [OF sh c(1)] by simp
    qed
    have induced: "r \<in> set (qs ?c) \<longleftrightarrow> (\<exists>j. Suc x \<le> j \<and> j < length s \<and> sa ! j = int (Suc r))"
      if "Suc r < length s" "stype s r = BWT89_SA_S" "s ! r = ?c" for r
      using ind that unfolding S_induced_def by metis
    have sax: "sa ! x = int (Suc q)" using d(4) q(1) by simp
    have idx: "nat (sa ! x) - 1 = q" "\<not> sa ! x \<le> 0" using sax by simp_all
    have new: "q \<notin> set (qs ?c)"
    proof
      assume "q \<in> set (qs ?c)"
      then obtain j where "Suc x \<le> j" "j < length s" "sa ! j = int (Suc q)" using induced [OF n q(2) refl] by blast
      then show False using S_sorted(2) [OF sh v fx pl order_refl _ _ sax, of j "Suc q"] by simp
    qed
    have "leS s q r" if r: "r \<in> set (qs ?c)" for r
    proof -
      have rr: "r < length s" "s ! r = ?c" "stype s r = BWT89_SA_S" "r \<noteq> length s - 1"
        using r S_shapeD(9) [OF sh c(1)] by (auto simp: at_char_def)
      then have rn: "Suc r < length s" by simp
      then obtain j where j: "Suc x \<le> j" "j < length s" "sa ! j = int (Suc r)" using induced r rr(2,3) by blast
      have "leS s (Suc q) (Suc r)" by (rule S_sorted(1) [OF sh v fx pl order_refl _ j(2) sax j(3)]) (use j(1) in auto)
      then show ?thesis using S_step [OF v n rn _ q(2) rr(3)] rr(2) by simp
    qed
    moreover have "induced_S_step s (classify_types s) x (sa, bkt) = place_tail ?c q (sa, bkt)"
      using q(2) idx by (simp add: induced_S_step_def Let_def)
    moreover have "q \<in> at_char s BWT89_SA_S ?c" using n q(2) by (simp add: at_char_def)
    ultimately show ?thesis using S_place [OF sh v c(1) ind fx slot x _ n new sax] by simp
  qed
qed

text \<open>The passes together: all positions, in order.\<close>

theorem induce_sorts:
  assumes sa: "seeded s K sd sa" and v: "sa_string s K" and sorted: "\<And>c. sorted_wrt (leL s) (sd c)"
  shows "\<exists>ps. induce s (classify_types s) (counts s K) K sa = map int ps \<and> distinct ps \<and> set ps = {..<length s} \<and> sorted_wrt (leS s) ps"
proof -
  let ?n = "length s"
  let ?sa1 = "fst (fold (induced_L_step s (classify_types s)) [0..<?n] (sa, make_heads (counts s K) K))"
  obtain pl where pl: "L_placed s K pl ?sa1" using L_pass [OF sa v sorted] by blast
  have plS: "sorted_wrt (leL s) (pl c)" if "c \<le> K" for c using pl that by (simp add: L_placed_def)
  let ?run = "\<lambda>k. fold (induced_S_step s (classify_types s)) (rev [?n - k..<?n]) (?sa1, make_tails (counts s K) K)"
  have "k \<le> ?n \<Longrightarrow> \<exists>qs sa bkt. ?run k = (sa, bkt) \<and> S_shape (leS s) s K pl qs sa bkt \<and> S_filled s K (?n - k) bkt \<and> S_induced s (?n - k) qs sa" for k
  proof (induction k)
    case 0
    have "S_shape (leS s) s K pl (\<lambda>_. []) ?sa1 (make_tails (counts s K) K)"
      using pl make_tails_nth [of s K] by (simp add: S_shape_def L_placed_def stored_def)
    moreover have "S_filled s K ?n (make_tails (counts s K) K)" using bstart_le [of s] by (auto simp: S_filled_def dest: leD le_less_trans)
    ultimately show ?case by (intro exI [of _ "\<lambda>_. []"]) (simp add: S_induced_def)
  next
    case (Suc k)
    let ?x = "?n - Suc k"
    have x: "Suc ?x = ?n - k" "?x < ?n" using Suc.prems by simp_all
    obtain qs sa' bkt' where r: "?run k = (sa', bkt')" "S_shape (leS s) s K pl qs sa' bkt'" "S_filled s K (Suc ?x) bkt'" "S_induced s (Suc ?x) qs sa'"
      using Suc x(1) by auto
    have "[?x..<?n] = ?x # [?n - k..<?n]" using x by (simp add: upt_conv_Cons)
    then have "?run (Suc k) = induced_S_step s (classify_types s) ?x (sa', bkt')" using r(1) by simp
    then show ?case using S_step_inv [OF r(2) v r(3,4) plS x(2)] by simp
  qed
  from this [of ?n] obtain qs sa' bkt' where r: "fold (induced_S_step s (classify_types s)) (rev [0..<?n]) (?sa1, make_tails (counts s K) K) = (sa', bkt')"
    and sh: "S_shape (leS s) s K pl qs sa' bkt'" and f: "S_filled s K 0 bkt'" by auto
  have len: "length sa' = ?n" using sh by (simp add: S_shape_def)
  let ?ps = "map nat sa'"
  have entry: "sa' ! j = int (?ps ! j) \<and> ?ps ! j < ?n" if j: "j < ?n" for j
    by (rule S_entry [OF sh v f _ j]) (use len j in auto)
  have ordered: "leS s (?ps ! j) (?ps ! j') \<and> ?ps ! j \<noteq> ?ps ! j'" if "j < j'" "j' < ?n" for j j'
    using S_sorted [OF sh v f plS _ that(1,2), of "?ps ! j" "?ps ! j'"] entry that by simp
  have eq: "sa' = map int ?ps" by (rule nth_equalityI) (use entry len in auto)
  have "distinct ?ps"
    unfolding distinct_conv_nth using ordered len by (metis length_map linorder_neqE_nat)
  moreover have "set ?ps \<subseteq> {..<?n}" using entry len by (auto simp: in_set_conv_nth)
  then have "set ?ps = {..<?n}"
    using distinct_card [OF \<open>distinct ?ps\<close>] len by (intro card_subset_eq) (simp_all del: set_map)
  moreover have "sorted_wrt (leS s) ?ps" using ordered len by (simp add: sorted_wrt_iff_nth_less)
  ultimately show ?thesis using r eq by (intro exI [of _ ?ps]) (simp add: induce_def Let_def)
qed

end

end
