(* ===== verification/Bwt_Order.thy ===== *)
theory Bwt_Order
  imports Bwt_Pass_S
begin

text \<open>
  The two orders that induced sorting is used with: the LMS substrings, in the first round, and the suffixes, in the
  last one. Both obey the laws of \<open>induced_order\<close>. A comparison that the LMS substrings decide is a comparison of the
  suffixes.
\<close>

section \<open>Suffixes\<close>

definition suf :: "nat list \<Rightarrow> nat \<Rightarrow> nat \<Rightarrow> bool" where
  "suf s i j \<longleftrightarrow> ord_class.lexordp (drop i s) (drop j s)"

lemma suf_Cons: "i < length s \<Longrightarrow> j < length s \<Longrightarrow> suf s i j \<longleftrightarrow> s ! i < s ! j \<or> s ! i = s ! j \<and> suf s (Suc i) (Suc j)"
  by (auto simp: suf_def Cons_nth_drop_Suc [symmetric])

lemma suf_types:
  assumes "sa_string s K"
  shows "i < length s \<Longrightarrow> j < length s \<Longrightarrow> s ! i = s ! j \<Longrightarrow> stype s i = BWT89_SA_L \<Longrightarrow> stype s j = BWT89_SA_S \<Longrightarrow> suf s i j"
proof (induction "length s - i" arbitrary: i j rule: less_induct)
  case less
  have i: "Suc i < length s" using typ_L_Suc less.prems(1,4) .
  then have j: "Suc j < length s" using string_facts(5) [OF assms, of i] string_facts(5) [OF assms, of j] less.prems by (cases "Suc j = length s") auto
  have le: "s ! Suc i \<le> s ! i" "s ! j \<le> s ! Suc j" using typ_L_ge [OF i less.prems(4)] typ_S_le [OF j less.prems(5)] .
  show ?case
  proof (cases "s ! Suc i = s ! i \<and> s ! Suc j = s ! j")
    case True
    then have "suf s (Suc i) (Suc j)" using less i j typ_eq [OF i] typ_eq [OF j] by simp
    then show ?thesis using less.prems suf_Cons by simp
  next
    case False
    then have "s ! Suc i < s ! Suc j" using le less.prems(3) by linarith
    then show ?thesis using less.prems i j suf_Cons by simp
  qed
qed

lemma suf_before: "sa_string s K \<Longrightarrow> i < length s \<Longrightarrow> j < length s \<Longrightarrow> before s i j \<Longrightarrow> suf s i j"
  using suf_types suf_Cons by (auto simp: before_def)

interpretation suffixes: induced_order suf suf
  by unfold_locales (simp_all add: suf_before suf_Cons)

section \<open>LMS substrings\<close>

text \<open>Symbol and type as one number.\<close>

definition enc :: "nat list \<Rightarrow> nat \<Rightarrow> nat" where
  "enc s i = 2 * s ! i + (if stype s i = BWT89_SA_S then 1 else 0)"

lemma enc_less: "enc s i < enc s j \<longleftrightarrow> before s i j"
proof -
  have "stype s i = BWT89_SA_L \<or> stype s i = BWT89_SA_S" "stype s j = BWT89_SA_L \<or> stype s j = BWT89_SA_S"
    using bwt89_sa_type.exhaust by blast+
  then show ?thesis by (auto simp: enc_def before_def)
qed

lemma enc_eq: "enc s i = enc s j \<longleftrightarrow> s ! i = s ! j \<and> stype s i = stype s j"
proof -
  have "stype s i = BWT89_SA_L \<or> stype s i = BWT89_SA_S" "stype s j = BWT89_SA_L \<or> stype s j = BWT89_SA_S"
    using bwt89_sa_type.exhaust by blast+
  then show ?thesis by (auto simp: enc_def) presburger+
qed

lemma enc_cases: "enc s i \<noteq> enc s j \<Longrightarrow> before s i j \<or> before s j i"
  using enc_less by (metis linorder_neqE_nat)

text \<open>From a position up to the next start of an LMS substring, the position itself included or not.\<close>

function key :: "nat list \<Rightarrow> nat \<Rightarrow> nat list" where
  "key s i = (if i \<in> lms s \<or> length s \<le> i then [enc s i] else enc s i # key s (Suc i))"
  by pat_completeness auto
termination by (relation "measure (\<lambda>(s, i). length s - i)") (auto simp: not_le)

declare key.simps [simp del]

definition lms_key :: "nat list \<Rightarrow> nat \<Rightarrow> nat list" where
  "lms_key s i = (if length s \<le> Suc i then [enc s i] else enc s i # key s (Suc i))"

lemma key_L:
  assumes "Suc i < length s" and "stype s i = BWT89_SA_L"
  shows "key s i = enc s i # key s (Suc i)" "lms_key s i = key s i"
proof -
  have "i \<notin> lms s" using lms_S assms(2) by fastforce
  then show k: "key s i = enc s i # key s (Suc i)" using assms(1) by (subst key.simps) simp
  then show "lms_key s i = key s i" using assms(1) by (simp add: lms_key_def)
qed

text \<open>The position after one of type S starts no LMS substring.\<close>

lemma after_S:
  assumes "sa_string s K" and "Suc i < length s" and "stype s i = BWT89_SA_S"
  shows "Suc i \<notin> lms s" "Suc (Suc i) < length s"
proof -
  show n: "Suc (Suc i) < length s"
    using string_facts(5) [OF assms(1,2)] string_facts(5) [OF assms(1), of i] typ_S_le [OF assms(2,3)] assms(2) by linarith
  then show "Suc i \<notin> lms s" using assms(3) by (auto simp: lms_def lms_start_def split: if_splits)
qed

lemma lms_key_after_S:
  assumes "sa_string s K" and "Suc i < length s" and "stype s i = BWT89_SA_S"
  shows "lms_key s (Suc i) = key s (Suc i)"
proof -
  note a = after_S [OF assms]
  have "key s (Suc i) = enc s (Suc i) # key s (Suc (Suc i))" using a by (subst key.simps) simp
  then show ?thesis using a(2) by (simp add: lms_key_def)
qed

definition key_le :: "nat list \<Rightarrow> nat \<Rightarrow> nat \<Rightarrow> bool" where
  "key_le s i j \<longleftrightarrow> ord_class.lexordp_eq (key s i) (key s j)"

definition lms_le :: "nat list \<Rightarrow> nat \<Rightarrow> nat \<Rightarrow> bool" where
  "lms_le s i j \<longleftrightarrow> ord_class.lexordp_eq (lms_key s i) (lms_key s j)"

lemma key_hd: "\<exists>xs. key s i = enc s i # xs" "\<exists>xs. lms_key s i = enc s i # xs"
  by (subst key.simps, simp) (simp add: lms_key_def)

lemma key_before: "before s i j \<Longrightarrow> key_le s i j" "before s i j \<Longrightarrow> lms_le s i j"
  using key_hd [of s i] key_hd [of s j] by (auto simp: key_le_def lms_le_def enc_less)

interpretation lms_substrings: induced_order key_le lms_le
proof unfold_locales
  fix s :: "nat list" and K i j
  assume v: "sa_string s K"
  { assume "before s i j" then show "key_le s i j" "lms_le s i j" by (rule key_before)+ }
  { assume n: "Suc i < length s" "Suc j < length s" and eq: "s ! i = s ! j"
      and L: "stype s i = BWT89_SA_L" "stype s j = BWT89_SA_L" and le: "key_le s (Suc i) (Suc j)"
    show "key_le s i j"
      using le eq L unfolding key_le_def key_L(1) [OF n(1) L(1)] key_L(1) [OF n(2) L(2)] by (simp add: enc_def) }
  { assume n: "Suc i < length s" "Suc j < length s" and eq: "s ! i = s ! j"
      and S: "stype s i = BWT89_SA_S" "stype s j = BWT89_SA_S" and le: "lms_le s (Suc i) (Suc j)"
    show "lms_le s i j"
      using le eq S n unfolding lms_le_def lms_key_after_S [OF v n(1) S(1)] lms_key_after_S [OF v n(2) S(2)]
      by (simp add: lms_key_def enc_def) }
  { assume n: "i < length s" "j < length s" and L: "stype s i = BWT89_SA_L" "stype s j = BWT89_SA_L" and "key_le s i j"
    then show "lms_le s i j" using key_L(2) [OF typ_L_Suc] by (simp add: key_le_def lms_le_def) }
qed

section \<open>Comparing by LMS substrings\<close>

lemma lms_end: "Suc i = length s \<Longrightarrow> i \<in> lms s"
  using lms_last [of s] by (cases s) auto

lemma same_lms:
  assumes "sa_string s K" and "Suc i < length s" and "Suc j < length s" and "stype s i = stype s j" and "enc s (Suc i) = enc s (Suc j)"
  shows "Suc i \<in> lms s \<longleftrightarrow> Suc j \<in> lms s"
proof -
  have "Suc (Suc i) = length s \<longleftrightarrow> Suc (Suc j) = length s" "stype s (Suc i) = stype s (Suc j)"
    using string_facts(5) [OF assms(1,2)] string_facts(5) [OF assms(1,3)] assms(5) by (auto simp: enc_eq)
  then show ?thesis using assms(2-4) by (auto simp: lms_def lms_start_def)
qed

lemma key_suf:
  assumes "sa_string s K"
  shows "Suc i < length s \<Longrightarrow> Suc j < length s \<Longrightarrow> stype s i = stype s j \<Longrightarrow> ord_class.lexordp (key s (Suc i)) (key s (Suc j)) \<Longrightarrow> suf s (Suc i) (Suc j)"
proof (induction "length s - i" arbitrary: i j rule: less_induct)
  case less
  have i: "key s (Suc i) = enc s (Suc i) # (if Suc i \<in> lms s then [] else key s (Suc (Suc i)))"
    and j: "key s (Suc j) = enc s (Suc j) # (if Suc j \<in> lms s then [] else key s (Suc (Suc j)))"
    using less.prems(1,2) by (subst key.simps, simp)+
  show ?case
  proof (cases "enc s (Suc i) = enc s (Suc j)")
    case False
    then have "before s (Suc i) (Suc j)" using enc_cases [OF False] less.prems(4) unfolding i j by (auto simp: enc_less)
    then show ?thesis using suf_before [OF assms less.prems(1,2)] by simp
  next
    case True
    note l = same_lms [OF assms less.prems(1-3) True]
    have n: "Suc i \<notin> lms s" "Suc j \<notin> lms s" using less.prems(4) l True unfolding i j by (auto split: if_splits)
    then have nn: "Suc (Suc i) < length s" "Suc (Suc j) < length s"
      using lms_end [of "Suc i" s] lms_end [of "Suc j" s] less.prems(1,2) by (auto intro: Suc_lessI)
    have "ord_class.lexordp (key s (Suc (Suc i))) (key s (Suc (Suc j)))" using less.prems(4) n True unfolding i j by simp
    then have "suf s (Suc (Suc i)) (Suc (Suc j))" using less.hyps [of "Suc i" "Suc j"] nn True by (simp add: enc_eq)
    then show ?thesis using True less.prems(1,2) by (simp add: suf_Cons enc_eq)
  qed
qed

lemma lms_key_suf:
  assumes v: "sa_string s K" and n: "i < length s" "j < length s" and k: "ord_class.lexordp (lms_key s i) (lms_key s j)"
  shows "suf s i j"
proof (cases "enc s i = enc s j")
  case False
  then have "before s i j" using enc_cases [OF False] k key_hd(2) [of s i] key_hd(2) [of s j] by (auto simp: enc_less)
  then show ?thesis using suf_before [OF v n] by simp
next
  case True
  have "Suc i = length s \<longleftrightarrow> Suc j = length s" using string_facts(5) [OF v n(1)] string_facts(5) [OF v n(2)] True by (auto simp: enc_eq)
  then have "Suc i < length s" "Suc j < length s" "ord_class.lexordp (key s (Suc i)) (key s (Suc j))"
    using n k True by (auto simp: lms_key_def split: if_splits)
  then show ?thesis using key_suf [OF v] True n by (simp add: suf_Cons enc_eq)
qed

end
