(* ===== verification/Bwt_Names.thy ===== *)
theory Bwt_Names
  imports Bwt_Order
begin

text \<open>
  The reduced problem: seeding, naming the LMS substrings in their order, and the string of the names, whose suffixes
  compare as the suffixes at the LMS positions do.
\<close>

section \<open>Seeding\<close>

definition tails_hold :: "nat list \<Rightarrow> nat \<Rightarrow> nat list \<Rightarrow> int list \<Rightarrow> nat list \<Rightarrow> bool" where
  "tails_hold s K xs sa bkt \<longleftrightarrow> length sa = length s \<and> length bkt = K + 1
    \<and> (\<forall>c \<le> K. bkt ! c = bend s c - length (filter (\<lambda>i. s ! i = c) xs)
         \<and> stored sa (bkt ! c) (filter (\<lambda>i. s ! i = c) xs)
         \<and> (\<forall>j. bstart s c \<le> j \<and> j < bkt ! c \<longrightarrow> sa ! j = - 1))"

lemma seed_list:
  assumes v: "sa_string s K" and xs: "distinct xs" "set xs \<subseteq> lms s"
  shows "\<exists>sa bkt. fold (\<lambda>i. place_tail (s ! i) i) (rev xs) (fill_neg (length s), make_tails (counts s K) K) = (sa, bkt)
    \<and> tails_hold s K xs sa bkt"
  using xs
proof (induction xs)
  case Nil
  have "sa ! j = - 1" if "sa = fill_neg (length s)" "j < bend s c" for sa c j
    using that bstart_le [of s "Suc c"] by (simp add: fill_neg_def)
  then show ?case using make_tails_nth [of s K] by (auto simp: fill_neg_def stored_def tails_hold_def)
next
  case (Cons x xs)
  let ?f = "\<lambda>c xs. filter (\<lambda>i. s ! i = c) xs"
  obtain sa bkt where ih: "fold (\<lambda>i. place_tail (s ! i) i) (rev xs) (fill_neg (length s), make_tails (counts s K) K) = (sa, bkt)"
    and hold: "tails_hold s K xs sa bkt"
    using Cons by auto
  have len: "length sa = length s" "length bkt = K + 1"
    and at: "\<And>c. c \<le> K \<Longrightarrow> bkt ! c = bend s c - length (?f c xs)" "\<And>c. c \<le> K \<Longrightarrow> stored sa (bkt ! c) (?f c xs)"
    "\<And>c j. c \<le> K \<Longrightarrow> bstart s c \<le> j \<Longrightarrow> j < bkt ! c \<Longrightarrow> sa ! j = - 1"
    using hold unfolding tails_hold_def by blast+
  let ?c = "s ! x" and ?k = "bkt ! (s ! x) - 1"
  have xn: "x < length s" using Cons.prems by (simp add: lms_def)
  then have c: "?c \<le> K" using string_facts(4) [OF v] by simp
  have room: "length (?f d (x # xs)) \<le> card (at_char s BWT89_SA_S d)" for d
  proof (rule length_le_at_char)
    show "distinct (?f d (x # xs))" using Cons.prems(1) by (rule distinct_filter)
    show "set (?f d (x # xs)) \<subseteq> at_char s BWT89_SA_S d"
    proof
      fix i
      assume "i \<in> set (?f d (x # xs))"
      then have "i \<in> lms s" "s ! i = d" using Cons.prems(2) by (auto split: if_splits)
      then show "i \<in> at_char s BWT89_SA_S d" using lms_S [of i s] by (simp add: at_char_def lms_def)
    qed
  qed
  then have k: "sstart s ?c \<le> ?k" "Suc ?k = bkt ! ?c" "?k < bend s ?c"
    using at(1) [OF c] bend_sstart [of s ?c] room [of ?c] by auto
  have below: "length (?f d xs) \<le> bend s d" for d
    using room [of d] bend_sstart [of s d] by (auto split: if_splits)
  have kn: "?k < length sa" using k(3) bstart_le [of s "Suc ?c"] len(1) by linarith
  let ?sa = "sa[?k := int x]" and ?bkt = "bkt[?c := ?k]"
  have "?bkt ! d = bend s d - length (?f d (x # xs)) \<and> stored ?sa (?bkt ! d) (?f d (x # xs))
      \<and> (\<forall>j. bstart s d \<le> j \<and> j < ?bkt ! d \<longrightarrow> ?sa ! j = - 1)" if d: "d \<le> K" for d
  proof (cases "d = ?c")
    case True
    have "stored sa (Suc ?k) (?f ?c xs)" using at(2) [OF c] by (simp only: k(2))
    then have "stored ?sa ?k (?f ?c (x # xs))" using stored_Cons [OF _ kn] by simp
    moreover have "?sa ! j = - 1" if "bstart s ?c \<le> j" "j < ?k" for j using at(3) [OF c that(1)] that(2) k(2) by simp
    ultimately show ?thesis using True len(2) at(1) c k(2) by auto
  next
    case False
    have other: "?k < bstart s d \<or> bend s d \<le> ?k"
      using buckets_apart [of ?c d s] buckets_apart [of d ?c s] k False
      by (cases ?c d rule: linorder_cases) (auto simp: sstart_def)
    have "bstart s d \<le> bkt ! d" using room [of d] bend_sstart [of s d] at(1) [OF d] False by (auto simp: sstart_def)
    moreover have "bkt ! d + length (?f d xs) = bend s d" using at(1) [OF d] below by simp
    ultimately have "stored ?sa (bkt ! d) (?f d xs)" using at(2) [OF d] other by (intro stored_update) auto
    moreover have "?sa ! j = - 1" if "bstart s d \<le> j" "j < bkt ! d" for j
      using at(3) [OF d that] other that \<open>bkt ! d + length (?f d xs) = bend s d\<close> by (cases "j = ?k") auto
    ultimately show ?thesis using False at(1) [OF d] by auto
  qed
  then have "tails_hold s K (x # xs) ?sa ?bkt"
    using len unfolding tails_hold_def length_list_update by blast
  then show ?case using ih by (simp add: place_tail_def Let_def)
qed

lemma seed_list_seeded:
  assumes v: "sa_string s K" and xs: "distinct xs" "set xs = lms s"
  shows "seeded s K (\<lambda>c. filter (\<lambda>i. s ! i = c) xs)
    (fst (fold (\<lambda>i. place_tail (s ! i) i) (rev xs) (fill_neg (length s), make_tails (counts s K) K)))"
proof -
  obtain sa bkt where "fold (\<lambda>i. place_tail (s ! i) i) (rev xs) (fill_neg (length s), make_tails (counts s K) K) = (sa, bkt)"
    "tails_hold s K xs sa bkt"
    using seed_list [OF v xs(1)] xs(2) by auto
  then show ?thesis using xs by (auto simp: seeded_def seeds_def tails_hold_def)
qed

lemma fold_seed_one: "fold (seed_one s t n) xs r = fold (\<lambda>i. place_tail (s ! i) i) (filter (lms_start t n) xs) r"
  by (induction xs arbitrary: r) (simp_all add: seed_one_def)

lemma lms_list: "lms s = set (lms_positions (classify_types s) (length s))"
  by (auto simp: lms_positions_eq lms_def)

lemma seed_lms_seeded:
  assumes "sa_string s K"
  shows "seeded s K (\<lambda>c. filter (\<lambda>i. s ! i = c) (lms_positions (classify_types s) (length s)))
    (seed_lms s (classify_types s) (counts s K) K)"
proof -
  let ?xs = "lms_positions (classify_types s) (length s)"
  have "rev ?xs = filter (lms_start (classify_types s) (length s)) (rev [0..<length s])" by (simp only: lms_positions_eq rev_filter)
  then have "seed_lms s (classify_types s) (counts s K) K
      = fst (fold (\<lambda>i. place_tail (s ! i) i) (rev ?xs) (fill_neg (length s), make_tails (counts s K) K))"
    by (simp only: seed_lms_def Let_def fold_seed_one)
  moreover have "distinct ?xs" by (simp add: lms_positions_eq)
  ultimately show ?thesis using seed_list_seeded [OF assms, of ?xs] lms_list by simp
qed

lemma key_le_lms: "i \<in> lms s \<Longrightarrow> j \<in> lms s \<Longrightarrow> s ! i = s ! j \<Longrightarrow> key_le s i j"
  using lms_S by (simp add: key_le_def key.simps enc_def)

text \<open>The first round sorts all positions by their LMS substrings.\<close>

lemma first_round:
  assumes v: "sa_string s K"
  shows "\<exists>ps. induce s (classify_types s) (counts s K) K (seed_lms s (classify_types s) (counts s K) K) = map int ps
    \<and> distinct ps \<and> set ps = {..<length s} \<and> sorted_wrt (lms_le s) ps"
proof (rule lms_substrings.induce_sorts [OF seed_lms_seeded [OF v] v])
  fix c
  let ?xs = "filter (\<lambda>i. s ! i = c) (lms_positions (classify_types s) (length s))"
  have "sorted_wrt (\<lambda>_ _. True) ?xs" by simp
  then show "sorted_wrt (key_le s) ?xs"
  proof (rule sorted_wrt_mono_rel [rotated])
    fix i j
    assume "i \<in> set ?xs" "j \<in> set ?xs"
    then show "key_le s i j" using key_le_lms [of i s j] lms_list [of s] by auto
  qed
qed

lemma sorted_lms_eq: "sorted_lms (map int ps) t (length ps) = filter (lms_start t (length ps)) ps"
proof -
  have "k \<le> length ps \<Longrightarrow> fold (append_sorted (map int ps) t (length ps)) [0..<k] [] = filter (lms_start t (length ps)) (take k ps)" for k
    by (induction k) (simp_all add: append_sorted_def place_lms_def take_Suc_conv_app_nth)
  then show ?thesis by (simp add: sorted_lms_def)
qed

section \<open>Blocks\<close>

text \<open>An LMS substring without its last symbol, as \<open>lms_equal\<close> compares it.\<close>

abbreviation next_lms :: "nat list \<Rightarrow> nat \<Rightarrow> nat" where
  "next_lms s p \<equiv> find_next_lms (classify_types s) (length s) p"

definition block :: "nat list \<Rightarrow> nat \<Rightarrow> nat list" where
  "block s p = map ((!) s) [p..<next_lms s p]"

lemma next_lms_bounds: "p < length s \<Longrightarrow> p < next_lms s p \<and> next_lms s p \<le> length s"
  by (auto simp: find_next_lms_def find_Some_iff split: option.split)

lemma next_lms_lms:
  assumes "Suc p < length s"
  shows "next_lms s p \<in> lms s" "q \<in> lms s \<Longrightarrow> p < q \<Longrightarrow> next_lms s p \<le> q"
proof -
  obtain e where e: "Suc e = length s" using assms by (cases "length s") auto
  have el: "lms_start (classify_types s) (length s) e" "e \<in> set [p + 1..<length s]" using e assms lms_end [OF e] by (auto simp: lms_def)
  then obtain i where i: "List.find (lms_start (classify_types s) (length s)) [p + 1..<length s] = Some i"
    by (cases "List.find (lms_start (classify_types s) (length s)) [p + 1..<length s]") (auto simp: find_None_iff)
  then obtain k where k: "k < length [p + 1..<length s]" "lms_start (classify_types s) (length s) i" "i = [p + 1..<length s] ! k"
    "\<forall>j < k. \<not> lms_start (classify_types s) (length s) ([p + 1..<length s] ! j)"
    by (auto simp: find_Some_iff)
  have nx: "next_lms s p = i" using i by (simp add: find_next_lms_def)
  show "next_lms s p \<in> lms s" using k nx by (simp add: lms_def)
  show "next_lms s p \<le> q" if "q \<in> lms s" "p < q"
  proof (rule ccontr)
    assume "\<not> next_lms s p \<le> q"
    then have "q - Suc p < k" "[p + 1..<length s] ! (q - Suc p) = q" using nx k(1,3) that by (auto simp: lms_def)
    then show False using k(4) that(1) by (metis lms_def mem_Collect_eq)
  qed
qed

lemma next_lms_end: "Suc p = length s \<Longrightarrow> next_lms s p = length s"
  by (simp add: find_next_lms_def)

lemma lms_equal_block:
  assumes "a < length s" and "b < length s"
  shows "lms_equal s (classify_types s) (length s) a b \<longleftrightarrow> block s a = block s b"
proof -
  have ba: "a < next_lms s a" "b < next_lms s b" using next_lms_bounds assms by simp_all
  show ?thesis
  proof (cases "next_lms s a - a = next_lms s b - b")
    case False
    then have "length (block s a) \<noteq> length (block s b)" by (simp add: block_def)
    then show ?thesis using False by (auto simp: lms_equal_def Let_def)
  next
    case True
    have "block s a = block s b \<longleftrightarrow> (\<forall>k < next_lms s a - a. s ! (a + k) = s ! (b + k))"
      using True by (auto simp: block_def list_eq_iff_nth_eq)
    also have "\<dots> \<longleftrightarrow> (\<forall>i. a \<le> i \<and> i < next_lms s a \<longrightarrow> s ! i = s ! (b + (i - a)))"
    proof (intro iffI allI impI)
      fix i
      assume "\<forall>k < next_lms s a - a. s ! (a + k) = s ! (b + k)" "a \<le> i \<and> i < next_lms s a"
      then show "s ! i = s ! (b + (i - a))" by (metis add_diff_inverse_nat diff_less_mono linorder_not_less)
    next
      fix k
      assume r: "\<forall>i. a \<le> i \<and> i < next_lms s a \<longrightarrow> s ! i = s ! (b + (i - a))" "k < next_lms s a - a"
      then show "s ! (a + k) = s ! (b + k)" using spec [OF r(1), of "a + k"] by simp
    qed
    finally show ?thesis using True by (auto simp: lms_equal_def Let_def list_all_iff)
  qed
qed

text \<open>A block of two symbols or more is what the key encodes.\<close>

lemma key_upto:
  assumes "Suc p < length s"
  shows "lms_key s p = map (enc s) [p..<Suc (next_lms s p)]"
proof -
  have up: "Suc p \<le> q \<Longrightarrow> q \<le> next_lms s p \<Longrightarrow> key s q = map (enc s) [q..<Suc (next_lms s p)]" for q
  proof (induction "next_lms s p - q" arbitrary: q)
    case 0
    then have "q = next_lms s p" by simp
    then show ?case using next_lms_lms(1) [OF assms] by (simp add: key.simps)
  next
    case (Suc d)
    then have q: "q < next_lms s p" by simp
    then have "q \<notin> lms s" using next_lms_lms(2) [OF assms, of q] Suc.prems by auto
    moreover have "q < length s" using q next_lms_bounds [of p s] assms by simp
    ultimately have "key s q = enc s q # key s (Suc q)" by (subst key.simps) simp
    then show ?case using Suc q by (simp add: upt_rec [of q])
  qed
  have "p < next_lms s p" using next_lms_bounds [of p s] assms by simp
  then show ?thesis using up [of "Suc p"] assms by (simp add: lms_key_def upt_rec [of p])
qed

lemma key_block:
  assumes v: "sa_string s K" and n: "p < length s" "q < length s" and eq: "lms_key s p = lms_key s q"
  shows "block s p = block s q"
proof (cases "Suc p = length s")
  case True
  have "enc s p = enc s q" using key_hd(2) [of s p] key_hd(2) [of s q] eq by auto
  then have "q = p" using string_facts(5) [OF v n(1)] string_facts(5) [OF v n(2)] True by (simp add: enc_eq)
  then show ?thesis by simp
next
  case False
  have "enc s p = enc s q" using key_hd(2) [of s p] key_hd(2) [of s q] eq by auto
  then have "Suc q \<noteq> length s" using string_facts(5) [OF v n(1)] string_facts(5) [OF v n(2)] False by (simp add: enc_eq)
  then have sn: "Suc p < length s" "Suc q < length s" using False n by simp_all
  have b: "block s x = map (\<lambda>e. e div 2) (butlast (lms_key s x))" if "Suc x < length s" for x
    using next_lms_bounds [of x s] that unfolding key_upto [OF that] block_def by (simp add: enc_def)
  show ?thesis unfolding b [OF sn(1)] b [OF sn(2)] eq ..
qed

end
