(* ===== verification/Bwt_Sais.thy ===== *)
theory Bwt_Sais
  imports Bwt_Names
begin

text \<open>Correctness of the suffix array construction.\<close>

section \<open>Names\<close>

text \<open>The names along a list of LMS positions.\<close>

fun nm :: "nat list \<Rightarrow> nat list \<Rightarrow> nat \<Rightarrow> nat" where
  "nm s ls 0 = 0"
| "nm s ls (Suc k) = next_name s (classify_types s) (length s) (ls ! k) (ls ! Suc k) (nm s ls k)"

lemma nm_mono: "a \<le> b \<Longrightarrow> nm s ls a \<le> nm s ls b"
  by (rule lift_Suc_mono_le) (simp_all add: next_name_def)

lemma nm_le: "nm s ls k \<le> k"
  by (induction k) (simp_all add: next_name_def)

lemma name_lms_spec:
  assumes "distinct ls" and "set ls \<subseteq> {..<length s}" and "ls \<noteq> []"
  shows "\<exists>sa. name_lms ls s (classify_types s) = (sa, nm s ls (length ls - 1)) \<and> (\<forall>k < length ls. sa ! (ls ! k) = int (nm s ls k))"
proof -
  let ?run = "\<lambda>k. fold (name_one ls s (classify_types s) (length s)) [1..<Suc k] ((fill_neg (length s))[ls ! 0 := 0], 0)"
  have "k < length ls \<Longrightarrow> \<exists>sa. ?run k = (sa, nm s ls k) \<and> length sa = length s \<and> (\<forall>j \<le> k. sa ! (ls ! j) = int (nm s ls j))" for k
  proof (induction k)
    case 0
    have "ls ! 0 \<in> set ls" using assms(3) by (intro nth_mem) simp
    then have "ls ! 0 < length s" using assms(2) by blast
    then show ?case by (simp add: fill_neg_def)
  next
    case (Suc k)
    then obtain sa where sa: "?run k = (sa, nm s ls k)" "length sa = length s" "\<forall>j \<le> k. sa ! (ls ! j) = int (nm s ls j)" by auto
    let ?sa = "sa[ls ! Suc k := int (nm s ls (Suc k))]"
    have "?run (Suc k) = (?sa, nm s ls (Suc k))" using sa(1) by (simp add: name_one_def Let_def)
    moreover have "?sa ! (ls ! j) = int (nm s ls j)" if "j \<le> Suc k" for j
    proof (cases "j = Suc k")
      case True
      have "ls ! Suc k < length s" using assms(2) Suc.prems nth_mem by blast
      then show ?thesis using True sa(2) by simp
    next
      case False
      then have "ls ! j \<noteq> ls ! Suc k" using assms(1) Suc.prems that by (simp add: nth_eq_iff_index_eq)
      then show ?thesis using False that sa(3) by simp
    qed
    ultimately show ?case using sa(2) by simp
  qed
  from this [of "length ls - 1"] show ?thesis using assms(3) by (auto simp: name_lms_def Let_def)
qed

text \<open>What the first round provides: the LMS positions in the order of their substrings.\<close>

definition ranked :: "nat list \<Rightarrow> nat list \<Rightarrow> bool" where
  "ranked s ls \<longleftrightarrow> distinct ls \<and> set ls = lms s \<and> sorted_wrt (lms_le s) ls"

lemma ranked_nth: "ranked s ls \<Longrightarrow> k < length ls \<Longrightarrow> ls ! k \<in> lms s \<and> ls ! k < length s"
  using nth_mem by (fastforce simp: ranked_def lms_def)

lemma ranked_le: "ranked s ls \<Longrightarrow> a < b \<Longrightarrow> b < length ls \<Longrightarrow> lms_le s (ls ! a) (ls ! b)"
  using sorted_wrt_nth_less by (auto simp: ranked_def)

lemma nm_eq_block:
  assumes r: "ranked s ls"
  shows "a \<le> b \<Longrightarrow> b < length ls \<Longrightarrow> nm s ls a = nm s ls b \<Longrightarrow> block s (ls ! a) = block s (ls ! b)"
proof (induction b)
  case (Suc b)
  show ?case
  proof (cases "a = Suc b")
    case False
    then have ab: "a \<le> b" using Suc.prems by simp
    have eq: "nm s ls b = nm s ls (Suc b)"
      using nm_mono [OF ab, of s ls] nm_mono [of b "Suc b" s ls] Suc.prems(3) by simp
    then have "lms_equal s (classify_types s) (length s) (ls ! b) (ls ! Suc b)" by (simp add: next_name_def split: if_splits)
    then have "block s (ls ! b) = block s (ls ! Suc b)"
      using lms_equal_block ranked_nth [OF r, of b] ranked_nth [OF r, of "Suc b"] Suc.prems(2) by simp
    moreover have "nm s ls a = nm s ls b" by (rule trans [OF Suc.prems(3) eq [symmetric] ])
    ultimately show ?thesis using Suc.IH [OF ab] Suc.prems(2) by simp
  qed simp
qed simp

lemma key_eq_nm:
  assumes v: "sa_string s K" and r: "ranked s ls"
  shows "a \<le> b \<Longrightarrow> b < length ls \<Longrightarrow> lms_key s (ls ! a) = lms_key s (ls ! b) \<Longrightarrow> nm s ls a = nm s ls b"
proof (induction b)
  case (Suc b)
  show ?case
  proof (cases "a = Suc b")
    case False
    then have ab: "a \<le> b" using Suc.prems by simp
    have l1: "lms_le s (ls ! b) (ls ! Suc b)" using ranked_le [OF r] Suc.prems(2) by simp
    have l2: "lms_le s (ls ! a) (ls ! b)"
    proof (cases "a = b")
      case True
      then show ?thesis by (simp add: lms_le_def lexordp_eq_refl)
    next
      case False
      then show ?thesis using ranked_le [OF r, of a b] ab Suc.prems(2) by simp
    qed
    have eq: "lms_key s (ls ! a) = lms_key s (ls ! b)"
      by (rule lexordp_eq_antisym [OF l2 [unfolded lms_le_def] l1 [unfolded lms_le_def, folded Suc.prems(3)] ])
    have "block s (ls ! b) = block s (ls ! Suc b)"
      using key_block [OF v] ranked_nth [OF r, of b] ranked_nth [OF r, of "Suc b"] Suc.prems(2,3) eq by simp
    then have "lms_equal s (classify_types s) (length s) (ls ! b) (ls ! Suc b)"
      using lms_equal_block ranked_nth [OF r, of b] ranked_nth [OF r, of "Suc b"] Suc.prems(2) by simp
    then show ?thesis using Suc.IH [OF ab] Suc.prems(2) eq by (simp add: next_name_def)
  qed simp
qed simp

lemma nm_less_suf:
  assumes v: "sa_string s K" and r: "ranked s ls" and n: "a < length ls" "b < length ls" and less: "nm s ls a < nm s ls b"
  shows "suf s (ls ! a) (ls ! b)"
proof -
  have ab: "a < b" using nm_mono [of b a s ls] less by (cases "a < b") auto
  then have "lms_le s (ls ! a) (ls ! b)" using ranked_le [OF r] n by simp
  moreover have "lms_key s (ls ! a) \<noteq> lms_key s (ls ! b)" using key_eq_nm [OF v r less_imp_le [OF ab] n(2)] less by auto
  ultimately have "ord_class.lexordp (lms_key s (ls ! a)) (lms_key s (ls ! b))"
    unfolding lms_le_def lexordp_conv_lexordp_eq using lexordp_eq_antisym by blast
  then show ?thesis using lms_key_suf [OF v] ranked_nth [OF r] n by simp
qed

lemma block_eq_suf:
  assumes v: "sa_string s K" and n: "p < length s" "q < length s" "p \<noteq> q" and eq: "block s p = block s q"
  shows "Suc p < length s" "Suc q < length s" "suf s (next_lms s p) (next_lms s q) \<Longrightarrow> suf s p q"
proof -
  have b: "block s x = s ! x # map ((!) s) [Suc x..<next_lms s x]" if "x < length s" for x
    using next_lms_bounds [OF that] by (simp add: block_def upt_conv_Cons)
  have "s ! p = s ! q" using eq b [OF n(1)] b [OF n(2)] by simp
  then have "Suc p \<noteq> length s" "Suc q \<noteq> length s"
    using string_facts(5) [OF v n(1)] string_facts(5) [OF v n(2)] n(3) by (metis nat.inject)+
  then show "Suc p < length s" "Suc q < length s" using n by simp_all
  have d: "drop x s = block s x @ drop (next_lms s x) s" if "x < length s" for x
  proof (rule nth_equalityI)
    note nb = next_lms_bounds [OF that]
    then show "length (drop x s) = length (block s x @ drop (next_lms s x) s)" by (simp add: block_def)
    fix i
    assume "i < length (drop x s)"
    then show "drop x s ! i = (block s x @ drop (next_lms s x) s) ! i" using nb by (auto simp: block_def nth_append) (simp add: add.commute)
  qed
  show "suf s (next_lms s p) (next_lms s q) \<Longrightarrow> suf s p q"
    unfolding suf_def using d [OF n(1)] d [OF n(2)] eq by (metis lexordp_append_leftI)
qed

section \<open>The reduced string\<close>

abbreviation lmss :: "nat list \<Rightarrow> nat list" where
  "lmss s \<equiv> lms_positions (classify_types s) (length s)"

lemma lmss_sorted: "sorted_wrt (<) (lmss s)" "distinct (lmss s)"
  by (simp_all add: lms_positions_eq sorted_wrt_filter)

lemma lmss_nth: "k < length (lmss s) \<Longrightarrow> lmss s ! k \<in> lms s \<and> lmss s ! k < length s"
  using nth_mem [of k "lmss s"] unfolding lms_list [of s, symmetric] by (simp add: lms_def)

text \<open>The next LMS position is the next in the list.\<close>

lemma lmss_next:
  assumes k: "k < length (lmss s)" and n: "Suc (lmss s ! k) < length s"
  shows "Suc k < length (lmss s)" "next_lms s (lmss s ! k) = lmss s ! Suc k"
proof -
  let ?P = "lmss s" and ?q = "next_lms s (lmss s ! k)"
  note nx = next_lms_lms [OF n]
  have "?P ! k < ?q" using next_lms_bounds n by simp
  obtain j where j: "j < length ?P" "?P ! j = ?q" using nx(1) lms_list [of s] by (metis in_set_conv_nth)
  have kj: "k < j"
    using sorted_wrt_nth_less [OF lmss_sorted(1), of j k s] j k \<open>?P ! k < ?q\<close> by (cases j k rule: linorder_cases) auto
  then show l: "Suc k < length ?P" using j(1) by simp
  have "?q \<le> ?P ! Suc k" using nx(2) lmss_nth [OF l] sorted_wrt_nth_less [OF lmss_sorted(1), of k "Suc k" s] l by simp
  moreover have "?P ! Suc k \<le> ?P ! j"
    using sorted_wrt_nth_less [OF lmss_sorted(1), of "Suc k" j s] j(1) kj by (cases "j = Suc k") auto
  ultimately show "?q = ?P ! Suc k" using j(2) by simp
qed

text \<open>The name of an LMS position, wherever it is in the ranking.\<close>

lemma reduced_names:
  assumes v: "sa_string s K" and r: "ranked s ls"
  obtains sa name where "name_lms ls s (classify_types s) = (sa, nm s ls (length ls - 1))"
    "reduced_string sa (classify_types s) (length s) = map name (lmss s)"
    "\<And>k. k < length ls \<Longrightarrow> name (ls ! k) = nm s ls k"
proof -
  have "ls \<noteq> []" using r lms_end [of "length s - 1" s] string_facts(1) [OF v] by (auto simp: ranked_def)
  then obtain sa where sa: "name_lms ls s (classify_types s) = (sa, nm s ls (length ls - 1))"
    "\<forall>k < length ls. sa ! (ls ! k) = int (nm s ls k)"
    using name_lms_spec [of ls s] r by (auto simp: ranked_def lms_def)
  show ?thesis
    by (rule that [OF sa(1), of "\<lambda>i. nat (sa ! i)"]) (use sa(2) in \<open>simp_all add: reduced_string_eq lms_positions_eq\<close>)
qed

lemma length_ranked: "ranked s ls \<Longrightarrow> length ls = length (lmss s)"
  using distinct_card [of ls] distinct_card [OF lmss_sorted(2) [of s] ] lms_list [of s] by (simp add: ranked_def)

lemma reduced_contract:
  assumes v: "sa_string s K" and r: "ranked s ls" and name: "\<And>k. k < length ls \<Longrightarrow> name (ls ! k) = nm s ls k"
  shows "sa_string (map name (lmss s)) (nm s ls (length ls - 1))"
    "k < length (lmss s) \<Longrightarrow> l < length (lmss s) \<Longrightarrow> suf (map name (lmss s)) k l \<Longrightarrow> suf s (lmss s ! k) (lmss s ! l)"
    "nm s ls (length ls - 1) + 1 = length ls \<Longrightarrow> distinct (map name (lmss s))"
proof -
  let ?P = "lmss s" and ?m = "length (lmss s)"
  have len: "length ls = ?m" using length_ranked [OF r] .
  have at: "\<exists>a < length ls. p = ls ! a \<and> name p = nm s ls a" if "p \<in> lms s" for p
  proof -
    have "p \<in> set ls" using that r by (simp add: ranked_def)
    then obtain a where "a < length ls" "ls ! a = p" by (auto simp: in_set_conv_nth)
    then show ?thesis using name by metis
  qed
  have less: "suf s p q" if "p \<in> lms s" "q \<in> lms s" "name p < name q" for p q
    using at [OF that(1)] at [OF that(2)] that(3) nm_less_suf [OF v r] by auto
  have equal: "block s p = block s q" if pq: "p \<in> lms s" "q \<in> lms s" "name p = name q" for p q
  proof -
    obtain a b where ab: "a < length ls" "p = ls ! a" "name p = nm s ls a" "b < length ls" "q = ls ! b" "name q = nm s ls b"
      using at [OF pq(1)] at [OF pq(2)] by auto
    have eq: "nm s ls a = nm s ls b" using ab(3,6) pq(3) by simp
    show ?thesis unfolding ab(2,5)
    proof (cases "a \<le> b")
      case True
      then show "block s (ls ! a) = block s (ls ! b)" by (rule nm_eq_block [OF r _ ab(4) eq])
    next
      case False
      then show "block s (ls ! a) = block s (ls ! b)" using nm_eq_block [OF r _ ab(1) eq [symmetric] ] by simp
    qed
  qed
  have small: "name p \<le> nm s ls (length ls - 1)" if p: "p \<in> lms s" for p
  proof -
    obtain a where "a < length ls" "name p = nm s ls a" using at [OF p] by blast
    then show ?thesis using nm_mono [of a "length ls - 1" s ls] by simp
  qed
  obtain e where e: "Suc e = length s" using string_facts(1) [OF v] by (cases s) auto
  have el: "e \<in> lms s" using lms_end [OF e] .
  have only_end: "block s p = block s e \<Longrightarrow> p = e" if "p \<in> lms s" for p
    using block_eq_suf(2) [OF v, of p e] that e by (auto simp: lms_def)
  have m: "0 < ?m" using el lms_list [of s] by (cases "lmss s") auto
  have first: "ls ! 0 = e"
  proof (rule ccontr)
    assume no: "ls ! 0 \<noteq> e"
    obtain a where a: "a < length ls" "e = ls ! a" using at [OF el] by blast
    have "0 < a" using no a(2) by (cases a) auto
    then have "lms_le s (ls ! 0) e" using ranked_le [OF r _ a(1)] a(2) by simp
    then have "enc s (ls ! 0) \<le> enc s e" using key_hd(2) [of s "ls ! 0"] key_hd(2) [of s e] by (auto simp: lms_le_def)
    moreover have l0: "ls ! 0 < length s" "ls ! 0 \<in> lms s" using ranked_nth [OF r, of 0] len m by simp_all
    ultimately have "s ! (ls ! 0) = 0" using string_facts(5) [OF v, of e] e lms_S [OF l0(2)] lms_S [OF el] by (simp add: enc_def)
    then show False using string_facts(5) [OF v l0(1)] e no by simp
  qed
  have zero: "name p = 0 \<longleftrightarrow> p = e" if "p \<in> lms s" for p
    using equal [OF that el] only_end [OF that] name [of 0] first len m by auto
  have last: "?P ! k = e \<longleftrightarrow> k = ?m - 1" if k: "k < ?m" for k
  proof -
    obtain j where j: "j < ?m" "?P ! j = e" using el lms_list [of s] by (metis in_set_conv_nth)
    have "j = ?m - 1"
    proof (rule ccontr)
      assume "j \<noteq> ?m - 1"
      then have "Suc j < ?m" using j(1) by simp
      then show False using sorted_wrt_nth_less [OF lmss_sorted(1), of j "Suc j" s] j(2) lmss_nth [of "Suc j" s] e by simp
    qed
    then show ?thesis using j k lmss_sorted(2) [of s] by (auto simp: nth_eq_iff_index_eq)
  qed
  have "x \<le> nm s ls (length ls - 1)" if "x \<in> set (map name ?P)" for x using that small lms_list [of s] by auto
  moreover have "map name ?P ! i = 0 \<longleftrightarrow> i = ?m - 1" if i: "i < ?m" for i
    using zero [of "?P ! i"] lmss_nth [OF i] last [OF i] i by simp
  ultimately show "sa_string (map name ?P) (nm s ls (length ls - 1))" using m by (simp add: sa_string_def)
  show "k < ?m \<Longrightarrow> l < ?m \<Longrightarrow> suf (map name ?P) k l \<Longrightarrow> suf s (?P ! k) (?P ! l)"
  proof (induction "?m - k" arbitrary: k l rule: less_induct)
    case less
    note k = lmss_nth [OF less.prems(1)] and l = lmss_nth [OF less.prems(2)]
    have kl: "k \<noteq> l" using less.prems(3) lexordp_irreflexive' by (auto simp: suf_def)
    then have ne: "?P ! k \<noteq> ?P ! l" using less.prems(1,2) lmss_sorted(2) [of s] by (simp add: nth_eq_iff_index_eq)
    show ?case
    proof (cases "name (?P ! k) < name (?P ! l)")
      case True
      then show ?thesis using \<open>\<And>p q. p \<in> lms s \<Longrightarrow> q \<in> lms s \<Longrightarrow> name p < name q \<Longrightarrow> suf s p q\<close> k l by blast
    next
      case False
      then have eq: "name (?P ! k) = name (?P ! l)" "suf (map name ?P) (Suc k) (Suc l)"
        using less.prems by (simp_all add: suf_Cons)
      note b = block_eq_suf [OF v conjunct2 [OF k] conjunct2 [OF l] ne equal [OF conjunct1 [OF k] conjunct1 [OF l] eq(1)] ]
      have "suf s (?P ! Suc k) (?P ! Suc l)"
        using less.hyps [of "Suc k" "Suc l"] lmss_next(1) [OF less.prems(1) b(1)] lmss_next(1) [OF less.prems(2) b(2)] eq(2) by simp
      then show ?thesis using b(3) lmss_next(2) [OF less.prems(1) b(1)] lmss_next(2) [OF less.prems(2) b(2)] by simp
    qed
  qed
  show "distinct (map name ?P)" if all: "nm s ls (length ls - 1) + 1 = length ls"
  proof -
    have "k < length ls \<Longrightarrow> nm s ls k = k" for k
    proof -
      assume k: "k < length ls"
      have "nm s ls (k + d) \<le> nm s ls k + d" for d by (induction d) (simp_all add: next_name_def)
      from this [of "length ls - 1 - k"] show ?thesis using all k nm_le [of s ls k] by simp
    qed
    then have same: "a = b" if "a < length ls" "b < length ls" "name (ls ! a) = name (ls ! b)" for a b using that name by simp
    have "inj_on name (lms s)"
    proof (rule inj_onI)
      fix x y
      assume "x \<in> lms s" "y \<in> lms s" "name x = name y"
      then show "x = y" using at same by metis
    qed
    then show ?thesis using lmss_sorted(2) lms_list [of s] by (simp add: distinct_map)
  qed
qed

section \<open>The recursion\<close>

text \<open>The suffix array of a string.\<close>

definition suffix_array :: "nat list \<Rightarrow> nat list \<Rightarrow> bool" where
  "suffix_array s ps \<longleftrightarrow> distinct ps \<and> set ps = {..<length s} \<and> sorted_wrt (\<lambda>i j. ord_class.lexordp (drop i s) (drop j s)) ps"

lemma suffix_array_suf: "suffix_array s ps \<longleftrightarrow> distinct ps \<and> set ps = {..<length s} \<and> sorted_wrt (suf s) ps"
  by (simp add: suffix_array_def suf_def [abs_def])

lemma fold_final_seed: "fold (final_seed_one s ls (map int ps)) (rev [0..<length ps]) r
    = fold (\<lambda>i. place_tail (s ! i) i) (rev (map ((!) ls) ps)) r"
proof -
  have "k \<le> length ps \<Longrightarrow> fold (final_seed_one s ls (map int ps)) (rev [0..<k]) r = fold (\<lambda>i. place_tail (s ! i) i) (rev (map ((!) ls) (take k ps))) r" for k r
    by (induction k arbitrary: r) (simp_all add: take_Suc_conv_app_nth final_seed_one_def Let_def)
  from this [of "length ps" r] show ?thesis by simp
qed

text \<open>The last round, from the suffix array of the reduced string.\<close>

lemma last_round:
  assumes v: "sa_string s K" and sa: "suffix_array s1 ps" and len: "length s1 = length (lmss s)"
    and lift: "\<And>k l. k < length (lmss s) \<Longrightarrow> l < length (lmss s) \<Longrightarrow> suf s1 k l \<Longrightarrow> suf s (lmss s ! k) (lmss s ! l)"
  shows "\<exists>qs. induce s (classify_types s) (counts s K) K (seed_final s (lmss s) (map int ps) (counts s K) K) = map int qs \<and> suffix_array s qs"
proof -
  let ?xs = "map ((!) (lmss s)) ps"
  have ps: "distinct ps" "set ps = {..<length (lmss s)}" "sorted_wrt (suf s1) ps" using sa len by (simp_all add: suffix_array_suf)
  have plen: "length ps = length (lmss s)" using distinct_card [OF ps(1)] ps(2) by simp
  have xs: "distinct ?xs" using ps(1,2) lmss_sorted(2) [of s] by (simp add: distinct_map inj_on_def nth_eq_iff_index_eq)
  have "set ?xs = (!) (lmss s) ` {..<length (lmss s)}" by (simp only: set_map ps(2))
  also have "\<dots> = set (lmss s)" by (force simp: in_set_conv_nth)
  finally have set_xs: "set ?xs = lms s" by (simp only: lms_list)
  have sorted: "sorted_wrt (suf s) ?xs"
    unfolding sorted_wrt_map using ps(3) by (rule sorted_wrt_mono_rel [rotated]) (use lift ps(2) in auto)
  have "seed_final s (lmss s) (map int ps) (counts s K) K
      = fst (fold (\<lambda>i. place_tail (s ! i) i) (rev ?xs) (fill_neg (length s), make_tails (counts s K) K))"
    unfolding seed_final_def plen [symmetric] fold_final_seed ..
  then have "seeded s K (\<lambda>c. filter (\<lambda>i. s ! i = c) ?xs) (seed_final s (lmss s) (map int ps) (counts s K) K)"
    using seed_list_seeded [OF v xs set_xs] by simp
  from suffixes.induce_sorts [OF this v sorted_wrt_filter [OF sorted] ] show ?thesis by (auto simp: suffix_array_suf)
qed

lemma build_inverse_spec:
  assumes "distinct s1" and "\<forall>x \<in> set s1. x < length s1"
  shows "\<exists>ps. build_inverse s1 (length s1) = map int ps \<and> suffix_array s1 ps"
proof -
  let ?m = "length s1"
  let ?run = "\<lambda>k. fold (\<lambda>r sa1. sa1[s1 ! r := int r]) [0..<k] (replicate ?m 0)"
  have at: "s1 ! r < ?m" if "r < ?m" for r using assms(2) that by simp
  have "k \<le> ?m \<Longrightarrow> length (?run k) = ?m \<and> (\<forall>r < k. ?run k ! (s1 ! r) = int r)" for k
  proof (induction k)
    case (Suc k)
    then show ?case using at [of k] assms(1) by (auto simp: less_Suc_eq nth_list_update nth_eq_iff_index_eq)
  qed simp
  then have run: "length (build_inverse s1 ?m) = ?m" "\<And>r. r < ?m \<Longrightarrow> build_inverse s1 ?m ! (s1 ! r) = int r"
    by (simp_all add: build_inverse_def)
  have set1: "set s1 = {..<?m}" using assms distinct_card [of s1] by (intro card_subset_eq) auto
  have inv: "\<exists>r < ?m. s1 ! r = x \<and> build_inverse s1 ?m ! x = int r" if "x < ?m" for x
  proof -
    have "x \<in> set s1" using set1 that by simp
    then show ?thesis using run(2) by (auto simp: in_set_conv_nth)
  qed
  let ?ps = "map nat (build_inverse s1 ?m)"
  have "0 \<le> build_inverse s1 ?m ! x" if "x < ?m" for x using inv [OF that] by auto
  then have eq: "build_inverse s1 ?m = map int ?ps" by (intro nth_equalityI) (simp_all add: run(1))
  have pos: "?ps ! x < ?m \<and> s1 ! (?ps ! x) = x" if "x < ?m" for x using inv [OF that] run(1) that by auto
  have d: "distinct ?ps" unfolding distinct_conv_nth using pos run(1) by (metis length_map)
  moreover have "set ?ps \<subseteq> {..<?m}" using pos run(1) by (auto simp: in_set_conv_nth)
  then have "set ?ps = {..<?m}" using distinct_card [OF d] run(1) by (intro card_subset_eq) (simp_all del: set_map)
  moreover have "suf s1 (?ps ! x) (?ps ! y)" if "x < y" "y < ?m" for x y
    using pos [of x] pos [of y] that suf_Cons by simp
  then have "sorted_wrt (suf s1) ?ps" using run(1) by (simp add: sorted_wrt_iff_nth_less)
  ultimately show ?thesis using eq by (intro exI [of _ ?ps]) (simp add: suffix_array_suf)
qed

text \<open>Requests and releases of the backend are balanced.\<close>

lemma malloc_cases:
  assumes "bwt89_malloc grants g = (g', ok)"
  shows "g_live_allocs g' = g_live_allocs g + (if ok then 1 else 0)" "g_fail_at g' = g_fail_at g"
    "(\<forall>k. grants k) \<and> g_fail_at g = 0 \<Longrightarrow> ok"
  using assms by (auto simp: bwt89_malloc_def should_fail_def sys_alloc_def Let_def split: if_splits)

lemma free_fields [simp]: "g_live_allocs (bwt89_free g True) = g_live_allocs g - 1" "g_fail_at (bwt89_free g b) = g_fail_at g"
  by (simp_all add: bwt89_free_def Let_def)

definition sa_result :: "(nat \<Rightarrow> bool) \<Rightarrow> bwt89_globals \<Rightarrow> nat list \<Rightarrow> (bwt89_globals \<times> int list option) option \<Rightarrow> bool" where
  "sa_result grants g s res \<longleftrightarrow> (\<exists>g' r. res = Some (g', r) \<and> g_live_allocs g' = g_live_allocs g \<and> g_fail_at g' = g_fail_at g
     \<and> (\<forall>sa. r = Some sa \<longrightarrow> (\<exists>ps. sa = map int ps \<and> suffix_array s ps))
     \<and> ((\<forall>k. grants k) \<and> g_fail_at g = 0 \<longrightarrow> r \<noteq> None))"

lemma sa_result_None: "res = Some (g', None) \<Longrightarrow> g_live_allocs g' = g_live_allocs g \<Longrightarrow> g_fail_at g' = g_fail_at g
    \<Longrightarrow> \<not> ((\<forall>k. grants k) \<and> g_fail_at g = 0) \<Longrightarrow> sa_result grants g s res"
  by (simp add: sa_result_def)

lemma sa_result_Some: "res = Some (g', Some (map int ps)) \<Longrightarrow> g_live_allocs g' = g_live_allocs g \<Longrightarrow> g_fail_at g' = g_fail_at g
    \<Longrightarrow> suffix_array s ps \<Longrightarrow> sa_result grants g s res"
  unfolding sa_result_def by blast

lemma core_sorts: "sa_string s K \<Longrightarrow> 4 * int (length s) \<le> INT_MAX \<Longrightarrow> sa_result grants g s (sa_is_core grants g s K)"
proof (induction "length s" arbitrary: s K g rule: less_induct)
  case less
  note v = less.prems(1)
  show ?case
  proof (cases "length s \<le> 1")
    case True
    then have one: "length s = 1" using string_facts(1) [OF v] by (cases s) auto
    then have "sa_is_core grants g s K = Some (g, Some (map int [0]))" by (subst sa_is_core.simps) simp
    moreover have "suffix_array s [0]" using one by (auto simp: suffix_array_def)
    ultimately have "sa_is_core grants g s K = Some (g, Some (map int [0]))" "suffix_array s [0]" .
    then show ?thesis unfolding sa_result_def by blast
  next
    case n: False
    obtain g1 ok where m: "bwt89_malloc grants g = (g1, ok)" by fastforce
    note mf = malloc_cases [OF m]
    let ?t = "classify_types s" and ?cnt = "counts s K" and ?n = "length s"
    obtain ps where ps: "induce s ?t ?cnt K (seed_lms s ?t ?cnt K) = map int ps" "distinct ps" "set ps = {..<?n}" "sorted_wrt (lms_le s) ps"
      using first_round [OF v] by blast
    have plen: "length ps = ?n" using distinct_card [OF ps(2)] ps(3) by simp
    let ?ls = "sorted_lms (map int ps) ?t ?n"
    have "?ls = filter (lms_start ?t ?n) ps" using sorted_lms_eq [of ps ?t] plen by simp
    then have r: "ranked s ?ls" using ps(2-4) by (auto simp: ranked_def lms_def sorted_wrt_filter)
    obtain sa name where nm: "name_lms ?ls s ?t = (sa, nm s ?ls (length ?ls - 1))"
      "reduced_string sa ?t ?n = map name (lmss s)" "\<And>k. k < length ?ls \<Longrightarrow> name (?ls ! k) = nm s ?ls k"
      by (rule reduced_names [OF v r], rule that)
    let ?s1 = "map name (lmss s)" and ?num = "nm s ?ls (length ?ls - 1)"
    note red = reduced_contract [OF v r nm(3)]
    have len: "length ?s1 < ?n" using few_lms [of ?n ?t] n by (simp add: lms_positions_eq)
    let ?sub = "if ?num + 1 = length ?s1 then Some (g1, Some (build_inverse ?s1 (length ?s1))) else sa_is_core grants g1 ?s1 ?num"
    have cnt: "count_symbols s (zero_range (Suc K)) = ?cnt" by (simp add: counts_def)
    have step: "sa_is_core grants g s K = (if ok then
         (case ?sub of None \<Rightarrow> None | Some (g, None) \<Rightarrow> Some (bwt89_free g True, None)
          | Some (g, Some sa1) \<Rightarrow> Some (bwt89_free g True, Some (induce s ?t ?cnt K (seed_final s (lmss s) sa1 ?cnt K))))
       else Some (g1, None))"
      using n m less.prems(2) by (subst sa_is_core.simps) (simp add: Let_def cnt ps(1) nm(1,2))
    have sub: "sa_result grants g1 ?s1 ?sub"
    proof (cases "?num + 1 = length ?s1")
      case True
      have "distinct ?s1" using red(3) True length_ranked [OF r] by simp
      moreover have "\<forall>x \<in> set ?s1. x < length ?s1" using red(1) True by (auto simp: sa_string_def)
      ultimately show ?thesis using build_inverse_spec [of ?s1] True by (auto simp: sa_result_def)
    next
      case False
      then show ?thesis using less.hyps [OF len red(1)] less.prems(2) len by simp
    qed
    then obtain g2 rr where s2: "?sub = Some (g2, rr)" "g_live_allocs g2 = g_live_allocs g1" "g_fail_at g2 = g_fail_at g1"
      "\<And>sa. rr = Some sa \<Longrightarrow> \<exists>ps. sa = map int ps \<and> suffix_array ?s1 ps"
      "(\<forall>k. grants k) \<and> g_fail_at g1 = 0 \<Longrightarrow> rr \<noteq> None"
      unfolding sa_result_def by blast
    show ?thesis
    proof (cases ok)
      case False
      have "sa_is_core grants g s K = Some (g1, None)" unfolding step using False by simp
      then show ?thesis using mf(1,2) False mf(3) by (intro sa_result_None [of _ g1]) (simp, simp, simp, blast)
    next
      case ok: True
      show ?thesis
      proof (cases rr)
        case None
        have "sa_is_core grants g s K = Some (bwt89_free g2 True, None)" unfolding step s2(1) None using ok by simp
        moreover have "\<not> ((\<forall>k. grants k) \<and> g_fail_at g = 0)" using s2(5) None mf(2) by metis
        ultimately show ?thesis using s2(2,3) mf(1,2) ok by (intro sa_result_None [of _ "bwt89_free g2 True"]) simp_all
      next
        case (Some sa1)
        then obtain ps1 where ps1: "sa1 = map int ps1" "suffix_array ?s1 ps1" using s2(4) by blast
        obtain qs where qs: "induce s ?t ?cnt K (seed_final s (lmss s) sa1 ?cnt K) = map int qs" "suffix_array s qs"
          using last_round [OF v ps1(2) length_map red(2)] unfolding ps1(1) by blast
        have "sa_is_core grants g s K = Some (bwt89_free g2 True, Some (map int qs))" unfolding step s2(1) Some using ok qs(1) by simp
        then show ?thesis using qs(2) s2(2,3) mf(1,2) ok by (intro sa_result_Some [of _ "bwt89_free g2 True" qs]) simp_all
      qed
    qed
  qed
qed

text \<open>C17: For a string that ends in its only zero and whose length keeps the arena offsets within \<open>int\<close>, the
  construction returns; what it returns is the suffix array, the positions in strictly increasing order of the
  suffixes, or a refusal that is possible only when a request for memory is refused. It releases all it requested.\<close>

theorem sa_is_sorts:
  assumes "sa_string s K" and "4 * int (length s) \<le> INT_MAX"
  shows "\<exists>g' r. bwt89_sa_is grants g s K = Some (g', r) \<and> g_live_allocs g' = g_live_allocs g
    \<and> (\<forall>sa. r = Some sa \<longrightarrow> (\<exists>ps. sa = map int ps \<and> suffix_array s ps))
    \<and> ((\<forall>k. grants k) \<and> g_fail_at g = 0 \<longrightarrow> r \<noteq> None)"
proof -
  have "sa_result grants (bwt89_note_sais g) s (bwt89_sa_is grants g s K)" unfolding bwt89_sa_is_def by (rule core_sorts [OF assms])
  then show ?thesis by (auto simp: sa_result_def bwt89_note_sais_def)
qed

lemma sa_is_sorts_witness:
  "\<exists>g' ps. bwt89_sa_is (\<lambda>k. True) bwt89_start [2, 1, 3, 1, 0] 3 = Some (g', Some (map int ps)) \<and> suffix_array [2, 1, 3, 1, 0] ps"
proof -
  have "sa_string [2, 1, 3, 1, 0] 3" "4 * int (length [2, 1, 3, 1, 0 :: nat]) \<le> INT_MAX" by code_simp+
  from sa_is_sorts [OF this, of "\<lambda>k. True" bwt89_start] show ?thesis by (auto simp: bwt89_start_def)
qed

end
