(* ===== verification/Bwt_Bwt.thy ===== *)
theory Bwt_Bwt
  imports Bwt_Sais
begin

text \<open>
  \<open>libbwt89\<close>, the transform and its inverse (\<open>bwt89_bwt.c\<close>, the statuses of \<open>bwt89.h\<close>). A pointer argument
  is an option, a buffer the list of its bytes; the length \<open>n\<close> the caller passes is the length of the
  input buffer. Sizes, positions, rows and counters are natural numbers, a row of -1 is \<open>None\<close>. As in
  \<open>Bwt_Sa\<close> a call whose \<open>int\<close> arithmetic overflows has the result \<open>None\<close>.
\<close>

datatype bwt89_status =
  BWT89_OK | BWT89_NULL_ARG | BWT89_NOMEM | BWT89_BAD_INDEX | BWT89_BAD_EDIT | BWT89_TOO_LARGE | BWT89_BAD_DATA

definition BWT89_MAX_N :: nat where
  "BWT89_MAX_N = nat (INT_MAX - 1)"

definition BWT89_SENTINEL :: nat where
  "BWT89_SENTINEL = 0"

definition BWT89_ALPHA :: nat where
  "BWT89_ALPHA = 256"

definition rank_byte :: "u8 \<Rightarrow> nat" where
  "rank_byte b = unat b + 1"

definition real_slot :: "nat \<Rightarrow> nat \<Rightarrow> nat" where
  "real_slot k index = (if k < index then k else k + 1)"

definition output_slot :: "nat \<Rightarrow> nat \<Rightarrow> nat" where
  "output_slot row orig = (if row < orig then row else row - 1)"

definition lower_count :: "nat list \<Rightarrow> nat \<Rightarrow> nat" where
  "lower_count freq c = fold (\<lambda>k acc. acc + freq ! k) [0..<c] 0"

section \<open>Forward transform\<close>

definition build_symbols :: "bytes \<Rightarrow> nat list" where
  "build_symbols s = map rank_byte s @ [BWT89_SENTINEL]"

definition locate_orig :: "int list \<Rightarrow> nat \<Rightarrow> nat" where
  "locate_orig sa N = (case List.find (\<lambda>i. sa ! i = 0) [0..<N] of Some i \<Rightarrow> i | None \<Rightarrow> N)"

text \<open>The cast of \<open>c - 1\<close> to \<open>unsigned char\<close> is \<open>word_of_int\<close>.\<close>

definition emit_row :: "nat list \<Rightarrow> int \<Rightarrow> nat \<Rightarrow> nat \<Rightarrow> nat \<Rightarrow> bytes \<Rightarrow> bytes" where
  "emit_row syms p N row orig out =
     (if row = orig then out
      else let slot = output_slot row orig; c = syms ! nat ((p + int N - 1) mod int N)
           in out[slot := word_of_int (int c - 1)])"

text \<open>The offset \<open>p + N - 1\<close> is below \<open>2 * N\<close>, which the suffix array call has found to be within \<open>int\<close>.\<close>

definition bwt89_bwt :: "(nat \<Rightarrow> bool) \<Rightarrow> bwt89_globals \<Rightarrow> bytes option \<Rightarrow> nat option \<Rightarrow> bytes option
    \<Rightarrow> (bwt89_globals \<times> bwt89_status \<times> nat option \<times> bytes option) option" where
  "bwt89_bwt grants g s index out =
     (case s of None \<Rightarrow> Some (g, BWT89_NULL_ARG, index, out)
      | Some s \<Rightarrow>
     (case out of None \<Rightarrow> Some (g, BWT89_NULL_ARG, index, None)
      | Some buf \<Rightarrow>
      if index = None then Some (g, BWT89_NULL_ARG, index, out)
      else if BWT89_MAX_N < length s then Some (g, BWT89_TOO_LARGE, index, out)
      else if length s = 0 then Some (g, BWT89_OK, Some 0, out)
      else
        let N = length s + 1 in
        case bwt89_malloc grants (bwt89_note_bwt g) of (g, ok) \<Rightarrow>
          if \<not> ok then Some (g, BWT89_NOMEM, index, out)
          else
            let syms = build_symbols s in
            (case bwt89_sa_is grants g syms BWT89_ALPHA of
              None \<Rightarrow> None
            | Some (g, None) \<Rightarrow> Some (bwt89_free g True, BWT89_NOMEM, index, out)
            | Some (g, Some sa) \<Rightarrow>
                let orig = locate_orig sa N;
                    buf = fold (\<lambda>i. emit_row syms (sa ! i) N i orig) [0..<N] buf
                in Some (bwt89_free g True, BWT89_OK, Some orig, Some buf))))"

section \<open>Inverse transform\<close>

text \<open>Every entry of \<open>lst\<close> and \<open>row_of\<close> is written, so what the block held before does not matter.\<close>

definition build_last :: "bytes \<Rightarrow> nat \<Rightarrow> nat list" where
  "build_last b index =
     (let n = length b in
      fold (\<lambda>k lst. lst[real_slot k index := rank_byte (b ! k)]) [0..<n] ((replicate (n + 1) 0)[index := BWT89_SENTINEL]))"

definition tally_last :: "nat list \<Rightarrow> nat list \<Rightarrow> nat list" where
  "tally_last lst freq = fold (\<lambda>x freq. freq[x := freq ! x + 1]) lst freq"

definition build_less :: "nat list \<Rightarrow> nat \<Rightarrow> nat list" where
  "build_less freq M = map (lower_count freq) [0..<M + 1]"

definition zero_occ :: "nat \<Rightarrow> nat list" where
  "zero_occ M = replicate (M + 1) 0"

definition map_row :: "nat list \<Rightarrow> nat \<Rightarrow> nat \<Rightarrow> nat list \<times> nat list \<Rightarrow> nat list \<times> nat list" where
  "map_row lower syms i =
     (\<lambda>(occ, row_of). let r = lower ! syms + occ ! syms in (occ[syms := occ ! syms + 1], row_of[i := r]))"

definition step_peek :: "nat list \<Rightarrow> nat list \<Rightarrow> nat \<Rightarrow> nat option" where
  "step_peek row_of lst row =
     (let row = row_of ! row; c = lst ! row in if c = BWT89_SENTINEL then None else Some row)"

definition walk_row :: "nat list \<Rightarrow> nat list \<Rightarrow> nat \<Rightarrow> nat \<Rightarrow> bytes \<Rightarrow> bytes \<times> nat option" where
  "walk_row row_of lst row pos out =
     (let row = row_of ! row; c = lst ! row in
      if c = BWT89_SENTINEL then (out, None) else (out[pos := word_of_int (int c - 1)], Some row))"

text \<open>The two loops over the rows; the argument counts the rounds that are left, so it is \<open>n - i\<close>.\<close>

fun peek_rows :: "nat list \<Rightarrow> nat list \<Rightarrow> nat \<Rightarrow> nat \<Rightarrow> nat option" where
  "peek_rows row_of lst 0 row = Some row"
| "peek_rows row_of lst (Suc k) row =
     (case step_peek row_of lst row of None \<Rightarrow> None | Some row \<Rightarrow> peek_rows row_of lst k row)"

fun walk_rows :: "nat list \<Rightarrow> nat list \<Rightarrow> nat \<Rightarrow> nat \<Rightarrow> bytes \<Rightarrow> bytes" where
  "walk_rows row_of lst 0 row out = out"
| "walk_rows row_of lst (Suc k) row out =
     (case walk_row row_of lst row k out of (out, None) \<Rightarrow> out | (out, Some row) \<Rightarrow> walk_rows row_of lst k row out)"

definition rows_of :: "nat list \<Rightarrow> nat \<Rightarrow> nat list" where
  "rows_of lst M =
     (let N = length lst; lower = build_less (tally_last lst (zero_occ M)) M in
      snd (fold (\<lambda>i. map_row lower (lst ! i) i) [0..<N] (zero_occ M, replicate N 0)))"

definition bwt89_ibwt :: "(nat \<Rightarrow> bool) \<Rightarrow> bwt89_globals \<Rightarrow> bytes option \<Rightarrow> nat \<Rightarrow> bytes option
    \<Rightarrow> (bwt89_globals \<times> bwt89_status \<times> bytes option) option" where
  "bwt89_ibwt grants g b index out =
     (case b of None \<Rightarrow> Some (g, BWT89_NULL_ARG, out)
      | Some b \<Rightarrow>
     (case out of None \<Rightarrow> Some (g, BWT89_NULL_ARG, None)
      | Some buf \<Rightarrow>
      let n = length b in
      if n = 0 then (if index \<noteq> 0 then Some (g, BWT89_BAD_INDEX, out) else Some (g, BWT89_OK, out))
      else if n < index then Some (g, BWT89_BAD_INDEX, out)
      else if BWT89_MAX_N < n then Some (g, BWT89_TOO_LARGE, out)
      else
        let N = n + 1; M = BWT89_ALPHA in
        case bwt89_malloc grants g of (g, ok) \<Rightarrow>
          if \<not> ok then Some (g, BWT89_NOMEM, out)
          else if INT_MAX < 2 * int N then None
          else
            let lst = build_last b index; row_of = rows_of lst M in
            if peek_rows row_of lst n index = None then Some (bwt89_free g True, BWT89_BAD_DATA, out)
            else Some (bwt89_free g True, BWT89_OK, Some (walk_rows row_of lst n index buf))))"

end
