(* ===== verification/Bwt_Lf.thy ===== *)
theory Bwt_Lf
  imports Bwt_Bwt
begin

text \<open>The last column of the sorted rotations and the row the inverse transform follows.\<close>

section \<open>Rows of a column\<close>

text \<open>Row \<open>i\<close> comes from the occurrence of the symbol \<open>l ! i\<close> that stands in front of it.\<close>

definition lf :: "nat list \<Rightarrow> nat \<Rightarrow> nat" where
  "lf l i = bstart l (l ! i) + count_list (take i l) (l ! i)"

definition row_lt :: "nat list \<Rightarrow> nat \<Rightarrow> nat \<Rightarrow> bool" where
  "row_lt l j i \<longleftrightarrow> l ! j < l ! i \<or> l ! j = l ! i \<and> j < i"

lemma lower_count_less: "(\<And>k. k < c \<Longrightarrow> freq ! k = count_list l k) \<Longrightarrow> lower_count freq c = bstart l c"
  by (induction c) (simp_all add: lower_count_def bstart_Suc)

lemma build_less_nth: "\<forall>x \<in> set l. x \<le> M \<Longrightarrow> c \<le> M \<Longrightarrow> build_less (tally_last l (zero_occ M)) M ! c = bstart l c"
proof -
  assume "c \<le> M"
  then show ?thesis
    using count_symbols_nth [of _ "zero_occ M" l]
    by (auto simp: build_less_def tally_last_def count_symbols_def zero_occ_def simp del: upt_Suc replicate_Suc intro!: lower_count_less)
qed

lemma rows_of_nth:
  assumes "\<forall>x \<in> set l. x \<le> M"
  shows "length (rows_of l M) = length l" "i < length l \<Longrightarrow> rows_of l M ! i = lf l i"
proof -
  let ?b = "build_less (tally_last l (zero_occ M)) M"
  let ?run = "\<lambda>k. fold (\<lambda>i. map_row ?b (l ! i) i) [0..<k] (zero_occ M, replicate (length l) 0)"
  have "k \<le> length l \<Longrightarrow> \<exists>occ row_of. ?run k = (occ, row_of) \<and> length occ = M + 1 \<and> length row_of = length l
      \<and> (\<forall>c \<le> M. occ ! c = count_list (take k l) c) \<and> (\<forall>j < k. row_of ! j = lf l j)" for k
  proof (induction k)
    case 0
    then show ?case by (simp add: zero_occ_def del: replicate_Suc)
  next
    case (Suc k)
    then obtain occ row_of where r: "?run k = (occ, row_of)" "length occ = M + 1" "length row_of = length l"
      "\<forall>c \<le> M. occ ! c = count_list (take k l) c" "\<forall>j < k. row_of ! j = lf l j" by auto
    have x: "l ! k \<le> M" "l ! k < length occ" using assms Suc.prems r(2) by (simp_all add: less_Suc_eq_le)
    then have "?run (Suc k) = (occ[l ! k := occ ! (l ! k) + 1], row_of[k := lf l k])"
      using r(1,4) build_less_nth [OF assms] by (simp add: map_row_def lf_def)
    moreover have "take (Suc k) l = take k l @ [l ! k]" using Suc.prems by (simp add: take_Suc_conv_app_nth)
    ultimately show ?case using r(2-) x Suc.prems by (auto simp: nth_list_update less_Suc_eq)
  qed
  from this [of "length l"] show "length (rows_of l M) = length l" "i < length l \<Longrightarrow> rows_of l M ! i = lf l i"
    by (auto simp: rows_of_def Let_def)
qed

lemma lf_rank:
  assumes "i < length l"
  shows "lf l i = card {j. j < length l \<and> row_lt l j i}"
proof -
  have "count_list (take i l) c = card {j. j < i \<and> l ! j = c}" for c
    using assms by (simp add: count_list_card) (rule arg_cong [where f = card], auto)
  moreover have "bstart l c = card {j. j < length l \<and> l ! j < c}" for c
    by (simp add: bstart_def length_filter_conv_card)
  moreover have "{j. j < length l \<and> row_lt l j i} = {j. j < length l \<and> l ! j < l ! i} \<union> {j. j < i \<and> l ! j = l ! i}"
    using assms by (auto simp: row_lt_def)
  ultimately show ?thesis by (simp add: lf_def card_Un_disjoint disjoint_iff)
qed

lemma lf_mono: "i < length l \<Longrightarrow> j < length l \<Longrightarrow> row_lt l j i \<Longrightarrow> lf l j < lf l i"
  unfolding lf_rank by (rule psubset_card_mono) (auto simp: row_lt_def)

lemma lf_less: "i < length l \<Longrightarrow> lf l i < length l"
proof -
  assume "i < length l"
  then have "card {j. j < length l \<and> row_lt l j i} < card {..<length l}" by (intro psubset_card_mono) (auto simp: row_lt_def)
  then show ?thesis using \<open>i < length l\<close> by (simp add: lf_rank)
qed

lemma row_lt_linear: "row_lt l i j \<or> i = j \<or> row_lt l j i"
  by (auto simp: row_lt_def)

lemma lf_inj: "i < length l \<Longrightarrow> j < length l \<Longrightarrow> lf l i = lf l j \<Longrightarrow> i = j"
  using row_lt_linear [of l i j] lf_mono [of i l j] lf_mono [of j l i] by auto

lemma lf_mono_iff: "i < length l \<Longrightarrow> j < length l \<Longrightarrow> lf l j < lf l i \<longleftrightarrow> row_lt l j i"
  using row_lt_linear [of l i j] lf_mono [of i l j] lf_mono [of j l i] by auto

section \<open>The last column\<close>

definition prv :: "nat \<Rightarrow> nat \<Rightarrow> nat" where
  "prv n p = (p + n - 1) mod n"

lemma prv_0: "0 < n \<Longrightarrow> prv n 0 = n - 1"
  by (simp add: prv_def)

lemma prv_Suc: "p < n \<Longrightarrow> prv n (Suc p) = p"
  by (simp add: prv_def)

lemma prv_less: "0 < n \<Longrightarrow> prv n p < n"
  by (simp add: prv_def)

lemma prv_inj: "p < n \<Longrightarrow> q < n \<Longrightarrow> prv n p = prv n q \<Longrightarrow> p = q"
  by (cases p; cases q) (auto simp: prv_0 prv_Suc)

definition last_col :: "nat list \<Rightarrow> nat list \<Rightarrow> nat list" where
  "last_col s ps = map (\<lambda>p. s ! prv (length s) p) ps"

lemma array_length: "suffix_array s ps \<Longrightarrow> length ps = length s"
  using distinct_card by (fastforce simp: suffix_array_def)

lemma array_nth: "suffix_array s ps \<Longrightarrow> i < length s \<Longrightarrow> ps ! i < length s"
  using nth_mem [of i ps] array_length [of s ps] by (simp add: suffix_array_def)

lemma array_index: "suffix_array s ps \<Longrightarrow> p < length s \<Longrightarrow> \<exists>r < length s. ps ! r = p"
  using array_length [of s ps] in_set_conv_nth [of p ps] by (auto simp: suffix_array_def)

lemma array_inj: "suffix_array s ps \<Longrightarrow> i < length s \<Longrightarrow> j < length s \<Longrightarrow> ps ! i = ps ! j \<longleftrightarrow> i = j"
  using array_length [of s ps] by (simp add: suffix_array_def nth_eq_iff_index_eq)

lemma suf_irrefl: "\<not> suf s i i" and suf_asym: "suf s i j \<Longrightarrow> \<not> suf s j i"
  by (auto simp: suf_def lexordp_irreflexive' dest: lexordp_antisym)

lemma array_less:
  assumes "suffix_array s ps" and "a < length s" and "b < length s"
  shows "suf s (ps ! a) (ps ! b) \<longleftrightarrow> a < b"
proof -
  have "x < y \<Longrightarrow> y < length s \<Longrightarrow> suf s (ps ! x) (ps ! y)" for x y
    using assms(1) array_length [OF assms(1)] by (simp add: suffix_array_suf sorted_wrt_iff_nth_less)
  then show ?thesis using assms(2,3) suf_irrefl suf_asym by (metis linorder_neqE_nat)
qed

lemma array_rank:
  assumes "suffix_array s ps" and "r < length s"
  shows "card {p. p < length s \<and> suf s p (ps ! r)} = r"
proof -
  have "{p. p < length s \<and> suf s p (ps ! r)} = (!) ps ` {..<r}"
  proof (intro set_eqI iffI)
    fix p
    assume p: "p \<in> {p. p < length s \<and> suf s p (ps ! r)}"
    then obtain k where "k < length s" "ps ! k = p" using array_index [OF assms(1)] by auto
    then show "p \<in> (!) ps ` {..<r}" using p array_less [OF assms(1) _ assms(2)] by auto
  next
    fix p
    assume "p \<in> (!) ps ` {..<r}"
    then show "p \<in> {p. p < length s \<and> suf s p (ps ! r)}" using assms(2) array_less [OF assms(1) _ assms(2)] array_nth [OF assms(1)] by auto
  qed
  moreover have "inj_on ((!) ps) {..<r}" using assms(2) array_inj [OF assms(1)] by (auto simp: inj_on_def)
  ultimately show ?thesis by (simp add: card_image)
qed

lemma last_col_nth:
  assumes "suffix_array s ps" and "i < length s"
  shows "last_col s ps ! i = s ! prv (length s) (ps ! i)"
  using assms array_length by (simp add: last_col_def)

lemma suf_prv:
  assumes v: "sa_string s K" and a: "suffix_array s ps" and n: "i < length s" "j < length s"
  shows "suf s (prv (length s) (ps ! j)) (prv (length s) (ps ! i)) \<longleftrightarrow> row_lt (last_col s ps) j i"
proof -
  let ?p = "prv (length s) (ps ! j)" and ?q = "prv (length s) (ps ! i)"
  have "0 < length s" using n by linarith
  then have pq: "?p < length s" "?q < length s" by (simp_all add: prv_less)
  have at: "ps ! j < length s" "ps ! i < length s" using array_nth [OF a] n by simp_all
  show ?thesis
  proof (cases "s ! ?p = s ! ?q \<and> i \<noteq> j")
    case True
    have "?p \<noteq> ?q" using True prv_inj [OF at] array_inj [OF a] n by auto
    moreover have z: "s ! x = 0 \<longleftrightarrow> x = length s - 1" if "x < length s" for x using v that by (simp add: sa_string_def)
    ultimately have "?p \<noteq> length s - 1" "?q \<noteq> length s - 1" using True z [OF pq(1)] z [OF pq(2)] by auto
    then have "ps ! j \<noteq> 0" "ps ! i \<noteq> 0" using prv_0 [OF \<open>0 < length s\<close>] by (metis, metis)
    then have "Suc ?p = ps ! j" "Suc ?q = ps ! i" using at by (auto simp: gr0_conv_Suc prv_Suc)
    then show ?thesis using True pq suf_Cons [of ?p s ?q] array_less [OF a n(2,1)] last_col_nth [OF a] n by (simp add: row_lt_def)
  next
    case False
    then show ?thesis using pq suf_Cons [of ?p s ?q] suf_irrefl last_col_nth [OF a] n by (auto simp: row_lt_def)
  qed
qed

theorem lf_suffix:
  assumes v: "sa_string s K" and a: "suffix_array s ps" and i: "i < length s"
  shows "ps ! lf (last_col s ps) i = prv (length s) (ps ! i)"
proof -
  let ?q = "prv (length s) (ps ! i)"
  let ?f = "\<lambda>j. prv (length s) (ps ! j)"
  obtain r where r: "r < length s" "ps ! r = ?q" using array_index [OF a prv_less] i by (metis gr_implies_not0 gr0I)
  have len: "length (last_col s ps) = length s" using array_length [OF a] by (simp add: last_col_def)
  have inj: "inj_on ?f {..<length s}"
  proof (rule inj_onI)
    fix x y
    assume xy: "x \<in> {..<length s}" "y \<in> {..<length s}" and eq: "?f x = ?f y"
    then have "ps ! x = ps ! y" using array_nth [OF a] by (intro prv_inj [OF _ _ eq]) simp_all
    then show "x = y" using array_inj [OF a] xy by simp
  qed
  have "prv (length s) p < length s" for p using i by (intro prv_less) linarith
  then have "?f ` {..<length s} = {..<length s}" using inj by (intro endo_inj_surj) auto
  then have "{p. p < length s \<and> suf s p ?q} = ?f ` {j. j < length s \<and> suf s (?f j) ?q}" by (auto simp: image_iff)
  then have "{p. p < length s \<and> suf s p ?q} = ?f ` {j. j < length s \<and> row_lt (last_col s ps) j i}"
    using suf_prv [OF v a i] by (auto intro!: arg_cong [where f = "image ?f"])
  moreover have "inj_on ?f {j. j < length s \<and> row_lt (last_col s ps) j i}" using inj by (rule inj_on_subset) auto
  ultimately have "card {p. p < length s \<and> suf s p ?q} = lf (last_col s ps) i" using i len by (simp add: lf_rank card_image)
  then show ?thesis using array_rank [OF a r(1)] r(2) by simp
qed

end
