(* ===== verification/Bwt_Round.thy ===== *)
theory Bwt_Round
  imports Bwt_Lf
begin

text \<open>The transform computes the last column of the suffix order, and the inverse recovers the text from it.\<close>

section \<open>The symbols of a text\<close>

definition unrank :: "nat \<Rightarrow> u8" where
  "unrank c = word_of_int (int c - 1)"

lemma unrank_rank [simp]: "unrank (rank_byte b) = b"
  by (simp add: unrank_def rank_byte_def)

lemma rank_unrank: "0 < c \<Longrightarrow> c \<le> 256 \<Longrightarrow> rank_byte (unrank c) = c"
  by (cases c) (simp_all add: unrank_def rank_byte_def unsigned_of_nat take_bit_nat_eq_self)

lemma rank_bounds: "0 < rank_byte b" "rank_byte b \<le> 256"
  using unsigned_less [of b, where 'a = nat] by (simp_all add: rank_byte_def)

lemma length_symbols [simp]: "length (build_symbols t) = length t + 1"
  by (simp add: build_symbols_def)

lemma symbols_nth: "k < length t \<Longrightarrow> build_symbols t ! k = rank_byte (t ! k)"
  by (simp add: build_symbols_def nth_append)

lemma symbols_last: "build_symbols t ! length t = 0"
  by (simp add: build_symbols_def nth_append BWT89_SENTINEL_def)

lemma symbols_string: "sa_string (build_symbols t) BWT89_ALPHA"
  using rank_bounds by (auto simp: sa_string_def build_symbols_def nth_append BWT89_ALPHA_def BWT89_SENTINEL_def less_Suc_eq)

section \<open>Dropping and restoring the sentinel's row\<close>

lemma slot_real: "output_slot (real_slot k orig) orig = k" "real_slot k orig \<noteq> orig"
  by (simp_all add: output_slot_def real_slot_def)

lemma real_output: "row \<noteq> orig \<Longrightarrow> real_slot (output_slot row orig) orig = row"
  by (auto simp: output_slot_def real_slot_def)

lemma slot_less: "k < n \<Longrightarrow> orig \<le> n \<Longrightarrow> real_slot k orig < n + 1"
  "row \<noteq> orig \<Longrightarrow> row < n + 1 \<Longrightarrow> orig \<le> n \<Longrightarrow> output_slot row orig < n"
  by (auto simp: output_slot_def real_slot_def)

definition without_row :: "nat list \<Rightarrow> nat \<Rightarrow> bytes" where
  "without_row l orig = map (\<lambda>k. unrank (l ! real_slot k orig)) [0..<length l - 1]"

lemma emit_rows:
  assumes len: "length out = n" and orig: "orig \<le> n" and l: "length l = n + 1"
    and row: "\<And>i buf. i \<le> n \<Longrightarrow> i \<noteq> orig \<Longrightarrow> emit i buf = buf[output_slot i orig := unrank (l ! i)]"
    and none: "\<And>buf. emit orig buf = buf"
  shows "fold emit [0..<n + 1] out = without_row l orig"
proof -
  have "m \<le> n + 1 \<Longrightarrow> length (fold emit [0..<m] out) = n \<and>
      (\<forall>k < n. real_slot k orig < m \<longrightarrow> fold emit [0..<m] out ! k = unrank (l ! real_slot k orig))" for m
  proof (induction m)
    case 0
    then show ?case using len by simp
  next
    case (Suc m)
    show ?case
    proof (cases "m = orig")
      case True
      then show ?thesis using Suc slot_real(2) none by (auto simp: less_Suc_eq)
    next
      case False
      then have "output_slot m orig < n" using slot_less(2) Suc.prems orig by simp
      then show ?thesis using Suc row [of m] False real_output [OF False] slot_real(1) by (auto simp: less_Suc_eq nth_list_update)
    qed
  qed
  from this [of "n + 1"] show ?thesis
    using slot_less(1) orig l by (intro nth_equalityI) (auto simp: without_row_def)
qed

lemma build_last_length [simp]: "length (build_last b index) = length b + 1"
proof -
  have "length (fold (\<lambda>k l. l[f k := h k]) ks (l :: nat list)) = length l" for f and h :: "nat \<Rightarrow> nat" and ks l
    by (induction ks arbitrary: l) simp_all
  then show ?thesis by (simp add: build_last_def Let_def del: replicate_Suc)
qed

lemma build_last_nth:
  assumes "index \<le> length b"
  shows "build_last b index ! index = 0" "k < length b \<Longrightarrow> build_last b index ! real_slot k index = rank_byte (b ! k)"
proof -
  let ?run = "\<lambda>m. fold (\<lambda>k l. l[real_slot k index := rank_byte (b ! k)]) [0..<m] ((replicate (length b + 1) 0)[index := BWT89_SENTINEL])"
  have "m \<le> length b \<Longrightarrow> length (?run m) = length b + 1 \<and> ?run m ! index = 0 \<and> (\<forall>k < m. ?run m ! real_slot k index = rank_byte (b ! k))" for m
  proof (induction m)
    case 0
    then show ?case using assms by (simp add: BWT89_SENTINEL_def del: replicate_Suc)
  next
    case (Suc m)
    have "real_slot m index < length b + 1" using slot_less(1) Suc.prems assms by simp
    moreover have "real_slot k index = real_slot m index \<Longrightarrow> k = m" for k using slot_real(1) by metis
    ultimately show ?case using Suc slot_real(2) by (auto simp: less_Suc_eq nth_list_update)
  qed
  from this [of "length b"] show "build_last b index ! index = 0"
    "k < length b \<Longrightarrow> build_last b index ! real_slot k index = rank_byte (b ! k)"
    by (simp_all add: build_last_def Let_def)
qed

lemma build_last_without:
  assumes "orig < length l" and "l ! orig = 0" and "\<And>i. i < length l \<Longrightarrow> i \<noteq> orig \<Longrightarrow> 0 < l ! i \<and> l ! i \<le> 256"
  shows "build_last (without_row l orig) orig = l"
proof -
  let ?b = "without_row l orig"
  have b: "length ?b + 1 = length l" "orig \<le> length ?b" using assms(1) by (auto simp: without_row_def)
  show ?thesis
  proof (rule nth_equalityI)
    show "length (build_last ?b orig) = length l" using b by simp
    fix i
    assume "i < length (build_last ?b orig)"
    then have i: "i < length ?b + 1" by simp
    show "build_last ?b orig ! i = l ! i"
    proof (cases "i = orig")
      case True
      then show ?thesis using build_last_nth(1) [OF b(2)] assms(2) by simp
    next
      case False
      let ?k = "output_slot i orig"
      have "?k < length ?b" using slot_less(2) [OF False i b(2)] .
      then have "build_last ?b orig ! i = rank_byte (unrank (l ! i))"
        using build_last_nth(2) [OF b(2), of ?k] real_output [OF False] by (simp add: without_row_def)
      then show ?thesis using assms(3) [of i] i b False rank_unrank by simp
    qed
  qed
qed

end
