(* ===== verification/Bwt_Text.thy ===== *)
theory Bwt_Text
  imports Bwt_Round
begin

text \<open>The results of the two entry points of \<open>bwt89_bwt.c\<close>.\<close>

section \<open>The column of a text\<close>

text \<open>The suffix array is unique, so the transform is a function of the text.\<close>

lemma array_unique:
  assumes "suffix_array s ps" and "suffix_array s qs"
  shows "ps = qs"
proof (rule nth_equalityI)
  show "length ps = length qs" using array_length assms by simp
  fix i
  assume "i < length ps"
  then have i: "i < length s" using array_length assms(1) by simp
  then obtain r where r: "r < length s" "qs ! r = ps ! i" using array_index [OF assms(2)] array_nth [OF assms(1)] by blast
  have "i = r" using array_rank [OF assms(1) i] array_rank [OF assms(2) r(1)] r(2) by simp
  then show "ps ! i = qs ! i" using r(2) by simp
qed

definition bwt_image :: "bytes \<Rightarrow> nat \<Rightarrow> bytes \<Rightarrow> bool" where
  "bwt_image t orig b \<longleftrightarrow> (\<exists>ps. suffix_array (build_symbols t) ps \<and> orig < length ps \<and> ps ! orig = 0
     \<and> b = without_row (last_col (build_symbols t) ps) orig)"

lemma column_length: "suffix_array s ps \<Longrightarrow> length (last_col s ps) = length s"
  using array_length by (simp add: last_col_def)

lemma column_orig:
  assumes a: "suffix_array (build_symbols t) ps" and i: "i < length t + 1"
  shows "last_col (build_symbols t) ps ! i = 0 \<longleftrightarrow> ps ! i = 0" "last_col (build_symbols t) ps ! i \<le> 256"
proof -
  have p: "ps ! i < length t + 1" using array_nth [OF a] i by simp
  then have "last_col (build_symbols t) ps ! i = (if ps ! i = 0 then 0 else rank_byte (t ! (ps ! i - 1)))"
    using last_col_nth [OF a] i by (cases "ps ! i") (simp_all add: prv_0 prv_Suc symbols_nth symbols_last)
  then show "last_col (build_symbols t) ps ! i = 0 \<longleftrightarrow> ps ! i = 0" "last_col (build_symbols t) ps ! i \<le> 256"
    using rank_bounds by (simp_all add: neq0_conv [symmetric] del: neq0_conv)
qed

lemma image_facts:
  assumes "bwt_image t orig b"
  obtains ps where "suffix_array (build_symbols t) ps" "orig \<le> length t" "ps ! orig = 0" "length b = length t"
    "build_last b orig = last_col (build_symbols t) ps"
proof -
  from assms obtain ps where ps: "suffix_array (build_symbols t) ps" "orig < length ps" "ps ! orig = 0"
    "b = without_row (last_col (build_symbols t) ps) orig" unfolding bwt_image_def by blast
  let ?l = "last_col (build_symbols t) ps"
  have len: "length ps = length t + 1" "length ?l = length t + 1" using array_length [OF ps(1)] column_length [OF ps(1)] by simp_all
  have "build_last b orig = ?l"
    unfolding ps(4)
  proof (rule build_last_without)
    show "orig < length ?l" using ps(2) len by simp
    show "?l ! orig = 0" using column_orig(1) [OF ps(1)] ps(2,3) len by simp
    fix i
    assume i: "i < length ?l" "i \<noteq> orig"
    then have "ps ! i \<noteq> 0" using array_inj [OF ps(1), of i orig] ps(2,3) len by simp
    then show "0 < ?l ! i \<and> ?l ! i \<le> 256" using column_orig [OF ps(1), of i] i len by simp
  qed
  moreover have "length b = length t" using ps(4) len by (simp add: without_row_def)
  moreover have "orig \<le> length t" using ps(2) len by simp
  ultimately show ?thesis using ps(1,3) that by blast
qed

section \<open>The walk\<close>

lemma walk_text:
  assumes a: "suffix_array (build_symbols t) ps" and l: "l = last_col (build_symbols t) ps" and rows: "\<And>i. i < length l \<Longrightarrow> rows ! i = lf l i"
  shows "row < length t + 1 \<Longrightarrow> prv (length t + 1) (ps ! row) = k \<Longrightarrow> k \<le> length t \<Longrightarrow> length out = length t
    \<Longrightarrow> peek_rows rows l k row \<noteq> None \<and> walk_rows rows l k row out = take k t @ drop k out"
proof (induction k arbitrary: row out)
  case (Suc k)
  let ?row = "rows ! row"
  have len: "length l = length t + 1" using column_length [OF a] l by simp
  have row: "?row = lf l row" using rows Suc.prems(1) len by simp
  then have less: "?row < length t + 1" using lf_less [of row l] Suc.prems(1) len by simp
  have "ps ! ?row = Suc k" using lf_suffix [OF symbols_string a] Suc.prems(1,2) l row by simp
  then have next_row: "prv (length t + 1) (ps ! ?row) = k" using Suc.prems(3) by (simp add: prv_Suc)
  have "l ! ?row = rank_byte (t ! k)" using last_col_nth [OF a] l less next_row Suc.prems(3) by (simp add: symbols_nth)
  then have c: "l ! ?row = rank_byte (t ! k)" "l ! ?row \<noteq> BWT89_SENTINEL" using rank_bounds by (simp_all add: BWT89_SENTINEL_def)
  have ih: "peek_rows rows l k ?row \<noteq> None" "walk_rows rows l k ?row (out[k := t ! k]) = take k t @ drop k (out[k := t ! k])"
    using Suc.IH [OF less next_row] Suc.prems(3,4) by simp_all
  have "take (Suc k) t @ drop (Suc k) out = take k t @ drop k (out[k := t ! k])"
    using Suc.prems(3,4) by (simp add: take_Suc_conv_app_nth Cons_nth_drop_Suc [symmetric])
  moreover have "word_of_int (int (l ! ?row) - 1) = t ! k" using c(1) unrank_rank [of "t ! k"] by (simp add: unrank_def)
  ultimately show ?case using ih c(2) by (simp add: step_peek_def walk_row_def Let_def)
qed simp

end
