(* ===== verification/Bwt_Exact.thy ===== *)
theory Bwt_Exact
  imports Bwt_Text
begin

text \<open>The pairs of bytes and index the inverse transform accepts are exactly the transforms of texts.\<close>

section \<open>One cycle through all rows\<close>

lemma orbit:
  fixes f :: "nat \<Rightarrow> nat"
  assumes inj: "\<And>i j. i < n + 1 \<Longrightarrow> j < n + 1 \<Longrightarrow> f i = f j \<Longrightarrow> i = j" and into: "\<And>i. i < n + 1 \<Longrightarrow> f i < n + 1"
    and x: "x < n + 1" and away: "\<And>i. 0 < i \<Longrightarrow> i \<le> n \<Longrightarrow> (f ^^ i) x \<noteq> x"
  shows "bij_betw (\<lambda>i. (f ^^ i) x) {..<n + 1} {..<n + 1}" "(f ^^ (n + 1)) x = x"
proof -
  have less: "(f ^^ i) x < n + 1" for i by (induction i) (use x into in simp_all)
  have cancel: "(f ^^ i) x = (f ^^ (i + d)) x \<Longrightarrow> x = (f ^^ d) x" for i d
  proof (induction i)
    case (Suc i)
    then have "f ((f ^^ i) x) = f ((f ^^ (i + d)) x)" by simp
    then show ?case using inj [OF less less] Suc.IH by blast
  qed simp
  have "inj_on (\<lambda>i. (f ^^ i) x) {..<n + 1}"
  proof (rule linorder_inj_onI)
    fix i j
    assume ij: "i < j" "i \<in> {..<n + 1}" "j \<in> {..<n + 1}"
    then have "i + (j - i) = j" "(f ^^ (j - i)) x \<noteq> x" using away [of "j - i"] by simp_all
    then show "(f ^^ i) x \<noteq> (f ^^ j) x" using cancel [of i "j - i"] by metis
  qed auto
  moreover have "(\<lambda>i. (f ^^ i) x) ` {..<n + 1} \<subseteq> {..<n + 1}" using less by auto
  ultimately show bij: "bij_betw (\<lambda>i. (f ^^ i) x) {..<n + 1} {..<n + 1}"
    unfolding bij_betw_def by (intro conjI endo_inj_surj) simp_all
  then have "(f ^^ (n + 1)) x \<in> (\<lambda>i. (f ^^ i) x) ` {..<n + 1}" using less by (simp only: bij_betw_def lessThan_iff)
  then obtain j where j: "j < n + 1" "(f ^^ (n + 1)) x = (f ^^ j) x" by auto
  then have "x = (f ^^ (n + 1 - j)) x" using cancel [of j "n + 1 - j"] by simp
  moreover have "j \<noteq> 0 \<Longrightarrow> (f ^^ (n + 1 - j)) x \<noteq> x" using away [of "n + 1 - j"] j(1) by simp
  ultimately have "j = 0" by metis
  then show "(f ^^ (n + 1)) x = x" using j(2) by simp
qed

lemma peek_orbit:
  assumes "\<And>i. i < length l \<Longrightarrow> rows ! i = lf l i"
  shows "row < length l \<Longrightarrow> peek_rows rows l k row \<noteq> None \<longleftrightarrow> (\<forall>i. 0 < i \<and> i \<le> k \<longrightarrow> l ! ((lf l ^^ i) row) \<noteq> 0)"
proof (induction k arbitrary: row)
  case (Suc k)
  have swap: "(lf l ^^ Suc m) row = (lf l ^^ m) (lf l row)" for m by (simp only: funpow_Suc_right o_apply)
  have "lf l row < length l" using lf_less [OF Suc.prems] .
  then have "peek_rows rows l (Suc k) row \<noteq> None \<longleftrightarrow>
      l ! lf l row \<noteq> 0 \<and> (\<forall>i. 0 < i \<and> i \<le> k \<longrightarrow> l ! ((lf l ^^ i) (lf l row)) \<noteq> 0)"
    using Suc.IH assms [OF Suc.prems] by (simp add: step_peek_def BWT89_SENTINEL_def Let_def)
  also have "\<dots> \<longleftrightarrow> (\<forall>i. 0 < i \<and> i \<le> Suc k \<longrightarrow> l ! ((lf l ^^ i) row) \<noteq> 0)" (is "?left \<longleftrightarrow> ?right")
  proof
    assume left: ?left
    show ?right
    proof (intro allI impI)
      fix i
      assume i: "0 < i \<and> i \<le> Suc k"
      then obtain j where "i = Suc j" by (cases i) auto
      then have at: "(lf l ^^ i) row = (lf l ^^ j) (lf l row)" by (simp only: swap)
      show "l ! ((lf l ^^ i) row) \<noteq> 0"
      proof (cases "j = 0")
        case True
        then show ?thesis using left at by simp
      next
        case False
        then show ?thesis unfolding at using left i \<open>i = Suc j\<close> by simp
      qed
    qed
  next
    assume right: ?right
    have "l ! ((lf l ^^ Suc i) row) \<noteq> 0" if "i \<le> k" for i using right [rule_format, of "Suc i"] that by simp
    from this [of 0] this show ?left unfolding swap [symmetric] by simp
  qed
  finally show ?case .
qed auto

lemma walk_orbit:
  assumes "\<And>i. i < length l \<Longrightarrow> rows ! i = lf l i"
  shows "row < length l \<Longrightarrow> \<forall>i. 0 < i \<and> i \<le> k \<longrightarrow> l ! ((lf l ^^ i) row) \<noteq> 0 \<Longrightarrow> k \<le> length out
    \<Longrightarrow> walk_rows rows l k row out = map (\<lambda>j. unrank (l ! ((lf l ^^ (k - j)) row))) [0..<k] @ drop k out"
proof (induction k arbitrary: row out)
  case (Suc k)
  let ?row = "lf l row"
  have swap: "(lf l ^^ m) ?row = (lf l ^^ Suc m) row" for m by (simp add: funpow_swap1)
  have "l ! ?row \<noteq> 0" using Suc.prems(2) [rule_format, of 1] by simp
  then have "walk_rows rows l (Suc k) row out = walk_rows rows l k ?row (out[k := unrank (l ! ?row)])"
    using assms [OF Suc.prems(1)] by (simp add: walk_row_def BWT89_SENTINEL_def unrank_def Let_def)
  also have "\<dots> = map (\<lambda>j. unrank (l ! ((lf l ^^ (k - j)) ?row))) [0..<k] @ drop k (out[k := unrank (l ! ?row)])"
  proof (rule Suc.IH)
    show "\<forall>i. 0 < i \<and> i \<le> k \<longrightarrow> l ! ((lf l ^^ i) ?row) \<noteq> 0"
    proof (intro allI impI)
      fix i
      assume "0 < i \<and> i \<le> k"
      then show "l ! ((lf l ^^ i) ?row) \<noteq> 0" unfolding swap using Suc.prems(2) [rule_format, of "Suc i"] by simp
    qed
  qed (use Suc.prems(3) lf_less [OF Suc.prems(1)] in simp_all)
  also have "\<dots> = map (\<lambda>j. unrank (l ! ((lf l ^^ (Suc k - j)) row))) [0..<Suc k] @ drop (Suc k) out"
    using Suc.prems(3) by (simp add: swap Suc_diff_le Cons_nth_drop_Suc [symmetric])
  finally show ?case .
qed simp

section \<open>A column with one cycle is a last column\<close>

lemma column_sorted:
  assumes v: "sa_string s K" and len: "length l = length s"
    and bij: "bij_betw pos {..<length s} {..<length s}"
    and turn: "\<And>r. r < length s \<Longrightarrow> pos (lf l r) = prv (length s) (pos r)"
    and col: "\<And>r. r < length s \<Longrightarrow> s ! prv (length s) (pos r) = l ! r"
  shows "suffix_array s (map pos [0..<length s])" "last_col s (map pos [0..<length s]) = l"
proof -
  have less: "pos r < length s" if "r < length s" for r using bij that by (auto simp: bij_betw_def)
  have inj: "pos a = pos b \<Longrightarrow> a < length s \<Longrightarrow> b < length s \<Longrightarrow> a = b" for a b using bij by (auto simp: bij_betw_def inj_on_def)
  have "inj_on (lf l) {..<length l}" by (rule inj_onI) (simp add: lf_inj)
  moreover have "lf l ` {..<length l} \<subseteq> {..<length l}" using lf_less by auto
  ultimately have im: "lf l ` {..<length s} = {..<length s}" unfolding len by (simp add: endo_inj_surj)
  have pre: "\<exists>x < length s. lf l x = a" if "a < length s" for a
  proof -
    have "a \<in> lf l ` {..<length s}" using that unfolding im by simp
    then show ?thesis by blast
  qed
  have zero: "pos x \<noteq> 0 \<and> Suc (prv (length s) (pos x)) = pos x" if "x < length s" "l ! x \<noteq> 0" for x
  proof -
    have "0 < length s" using that(1) by linarith
    moreover have "s ! (length s - 1) = 0" using v calculation by (simp add: sa_string_def)
    ultimately have "pos x \<noteq> 0" using col [OF that(1)] that(2) prv_0 [of "length s"] by metis
    then show ?thesis using less [OF that(1)] by (cases "pos x") (simp_all add: prv_Suc)
  qed
  have one: "x = y" if "x < length s" "y < length s" "l ! x = 0" "l ! y = 0" for x y
  proof -
    have n: "0 < length s" using that(1) by linarith
    have "prv (length s) (pos x) = length s - 1" "prv (length s) (pos y) = length s - 1"
      using v col that prv_less [OF n] by (metis sa_string_def)+
    then show ?thesis using prv_inj [OF less less] inj that by metis
  qed
  have "a < b \<Longrightarrow> b < length s \<Longrightarrow> suf s (pos a) (pos b)" for a b
  proof (induction "length s - pos a" arbitrary: a b rule: less_induct)
    case less: less
    obtain x y where x: "x < length s" "lf l x = a" and y: "y < length s" "lf l y = b" using pre less.prems by (meson less_trans)
    have lt: "row_lt l x y" using lf_mono_iff [of y l x] x y less.prems len by simp
    have at: "s ! pos a = l ! x" "s ! pos b = l ! y" using turn col x y by metis+
    have ab: "pos a < length s" "pos b < length s" using \<open>\<And>r. r < length s \<Longrightarrow> pos r < length s\<close> less.prems by simp_all
    show ?case
    proof (cases "l ! x < l ! y")
      case True
      then show ?thesis using suf_Cons [OF ab] at by simp
    next
      case False
      then have eq: "l ! x = l ! y" "x < y" using lt by (auto simp: row_lt_def)
      then have "l ! x \<noteq> 0" "l ! y \<noteq> 0" using one [OF x(1) y(1)] by auto
      then have up: "Suc (pos a) = pos x" "Suc (pos b) = pos y" using zero x y turn by metis+
      then have "suf s (pos x) (pos y)" using less.hyps [of x y] eq(2) y(1) ab by simp
      then show ?thesis using suf_Cons [OF ab] at eq(1) up by simp
    qed
  qed
  moreover have "distinct (map pos [0..<length s])" "set (map pos [0..<length s]) = {..<length s}"
    using bij by (auto simp: distinct_map bij_betw_def atLeast0LessThan)
  ultimately show "suffix_array s (map pos [0..<length s])" by (simp add: suffix_array_suf sorted_wrt_map sorted_wrt_iff_nth_less)
  show "last_col s (map pos [0..<length s]) = l" using col len by (intro nth_equalityI) (simp_all add: last_col_def)
qed

end
