(* ===== verification/Bwt_Inverse.thy ===== *)
theory Bwt_Inverse
  imports Bwt_Exact
begin

text \<open>What \<open>bwt89_bwt\<close> and \<open>bwt89_ibwt\<close> return, on every branch.\<close>

section \<open>An accepted pair is a transform\<close>

lemma without_build_last: "index \<le> length b \<Longrightarrow> without_row (build_last b index) index = b"
  using build_last_nth(2) [of index b] by (intro nth_equalityI) (simp_all add: without_row_def)

lemma build_last_bound:
  assumes "index \<le> length b" and "i < length b + 1"
  shows "build_last b index ! i \<le> 256" "build_last b index ! i = 0 \<longleftrightarrow> i = index"
proof -
  have "i \<noteq> index \<Longrightarrow> build_last b index ! i = rank_byte (b ! output_slot i index)"
    using build_last_nth(2) [OF assms(1), of "output_slot i index"] slot_less(2) [OF _ assms(2,1)] real_output [of i index] by simp
  then show "build_last b index ! i \<le> 256" "build_last b index ! i = 0 \<longleftrightarrow> i = index"
    using build_last_nth(1) [OF assms(1)] rank_bounds [of "b ! output_slot i index"] by (cases "i = index"; simp)+
qed

lemma prv_back: "i \<le> n \<Longrightarrow> prv (n + 1) ((n + 1 - i) mod (n + 1)) = n - i"
proof (cases i)
  case (Suc k)
  assume "i \<le> n"
  then have "n + 1 - i = Suc (n - i)" "n - i < n + 1" using Suc by simp_all
  then show ?thesis using Suc \<open>i \<le> n\<close> prv_Suc [of "n - i" "n + 1"] by simp
qed (simp add: prv_0)

lemma accepted:
  assumes ix: "index \<le> length b" and l: "l = build_last b index" and rows: "\<And>i. i < length l \<Longrightarrow> rows ! i = lf l i"
    and peek: "peek_rows rows l (length b) index \<noteq> None" and out: "length out = length b"
  shows "bwt_image (walk_rows rows l (length b) index out) index b"
proof -
  let ?n = "length b"
  let ?N = "?n + 1"
  define t where "t = walk_rows rows l ?n index out"
  define r where "r = (\<lambda>i. (lf l ^^ i) index)"
  have len: "length l = ?N" using l by simp
  have nz: "l ! r i \<noteq> 0" if "0 < i" "i \<le> ?n" for i
    using peek_orbit [OF rows, of index ?n] peek that ix len by (simp add: r_def)
  have "l ! index = 0" using build_last_nth(1) [OF ix] l by simp
  then have away: "(lf l ^^ i) index \<noteq> index" if "0 < i" "i \<le> ?n" for i using nz [OF that] unfolding r_def by metis
  note cyc = orbit [where f = "lf l" and n = ?n and x = index, OF _ _ _ away]
  have cyc: "bij_betw r {..<?N} {..<?N}" "r ?N = r 0"
    using cyc lf_inj [of _ l] lf_less [of _ l] ix unfolding len r_def by simp_all
  have r_less: "i < ?N \<Longrightarrow> r i < ?N" and r_inj: "i < ?N \<Longrightarrow> j < ?N \<Longrightarrow> r i = r j \<Longrightarrow> i = j" for i j
    using cyc(1) by (auto simp: bij_betw_def inj_on_def)
  have r_all: "\<exists>i < ?N. row = r i" if "row < ?N" for row
  proof -
    have "row \<in> r ` {..<?N}" using cyc(1) that unfolding bij_betw_def by simp
    then show ?thesis by blast
  qed
  define pos where "pos = (\<lambda>row. (?N - inv_into {..<?N} r row) mod ?N)"
  have pos: "pos (r i) = (?N - i) mod ?N" if "i < ?N" for i
    using inv_into_f_f [of r "{..<?N}" i] cyc(1) that by (simp add: pos_def bij_betw_def)
  have pos_end: "pos (r ?N) = 0" using pos [of 0] cyc(2) by simp
  have t: "t = map (\<lambda>j. unrank (l ! r (?n - j))) [0..<?n]"
    unfolding t_def r_def using walk_orbit [OF rows, of index ?n out] nz ix len out by (simp add: r_def)
  have prv_pos: "prv ?N (pos (r i)) = ?n - i" if "i < ?N" for i using pos [OF that] prv_back [of i ?n] that by simp
  have col: "build_symbols t ! prv ?N (pos (r i)) = l ! r i" if i: "i < ?N" for i
  proof (cases i)
    case 0
    then show ?thesis using prv_pos [of 0] symbols_last [of t] t \<open>l ! index = 0\<close> by (simp add: r_def)
  next
    case (Suc j)
    then have "?n - i < length t" "?n - (?n - i) = i" using i t by simp_all
    then have "build_symbols t ! (?n - i) = rank_byte (unrank (l ! r i))" using symbols_nth [of "?n - i" t] t by simp
    also have "\<dots> = l ! r i"
      using nz [of i] build_last_bound(1) [OF ix, of "r i"] r_less [OF i] i Suc l by (intro rank_unrank) simp_all
    finally show ?thesis using prv_pos [OF i] by simp
  qed
  have turn: "pos (lf l (r i)) = prv ?N (pos (r i))" if i: "i < ?N" for i
  proof -
    have "lf l (r i) = r (Suc i)" by (simp add: r_def)
    moreover have "pos (r (Suc i)) = ?n - i" using pos [of "Suc i"] pos_end i by (cases "Suc i = ?N") simp_all
    ultimately show ?thesis using prv_pos [OF i] by simp
  qed
  have bij: "bij_betw pos {..<?N} {..<?N}"
  proof -
    have "inj_on pos {..<?N}"
    proof (rule inj_onI)
      fix x y
      assume xy: "x \<in> {..<?N}" "y \<in> {..<?N}" "pos x = pos y"
      then obtain i j where ij: "i < ?N" "x = r i" "j < ?N" "y = r j"
        using r_all [of x] r_all [of y] unfolding lessThan_iff by blast
      then have "?n - i = ?n - j" using prv_pos xy(3) by metis
      then have "i = j" using ij(1,3) by linarith
      then show "x = y" using ij by simp
    qed
    moreover have "pos ` {..<?N} \<subseteq> {..<?N}" by (auto simp: pos_def)
    ultimately show ?thesis unfolding bij_betw_def by (intro conjI endo_inj_surj) simp_all
  qed
  have tn: "length t = ?n" using t by simp
  have turn': "pos (lf l row) = prv ?N (pos row)" and col': "build_symbols t ! prv ?N (pos row) = l ! row" if "row < ?N" for row
    using turn col r_all [OF that] by blast+
  have "suffix_array (build_symbols t) (map pos [0..<length (build_symbols t)])"
    "last_col (build_symbols t) (map pos [0..<length (build_symbols t)]) = l"
    using column_sorted [OF symbols_string, of l t pos] tn len bij turn' col' by simp_all
  moreover have "pos index = 0" using pos [of 0] by (simp add: r_def)
  ultimately have "bwt_image t index b"
    unfolding bwt_image_def using ix tn without_build_last [OF ix] l by (intro exI [of _ "map pos [0..<?N]"]) (simp add: nth_append del: upt_Suc)
  then show ?thesis by (simp add: t_def)
qed

section \<open>Results\<close>

lemma image_unique: "bwt_image t orig b \<Longrightarrow> bwt_image t orig' b' \<Longrightarrow> orig = orig' \<and> b = b'"
  unfolding bwt_image_def using array_unique array_inj array_length by (metis (no_types, lifting))

lemma image_walk:
  assumes "bwt_image t index b" and l: "l = build_last b index" and rows: "\<And>i. i < length l \<Longrightarrow> rows ! i = lf l i" and out: "length out = length b"
  shows "peek_rows rows l (length b) index \<noteq> None" "walk_rows rows l (length b) index out = t"
proof -
  obtain ps where ps: "suffix_array (build_symbols t) ps" "index \<le> length t" "ps ! index = 0" "length b = length t"
    "build_last b index = last_col (build_symbols t) ps" by (rule image_facts [OF assms(1)])
  have "prv (length t + 1) (ps ! index) = length t" using ps(3) by (simp add: prv_0)
  then show "peek_rows rows l (length b) index \<noteq> None" "walk_rows rows l (length b) index out = t"
    using walk_text [OF ps(1), of l rows index "length t" out] ps l rows out by simp_all
qed

text \<open>The shape of an inverse that has its memory.\<close>

lemma ibwt_run:
  assumes b: "b \<noteq> []" "index \<le> length b" "2 * (int (length b) + 1) \<le> INT_MAX" and m: "bwt89_malloc grants g = (g1, True)"
  shows "bwt89_ibwt grants g (Some b) index (Some out) =
    (let l = build_last b index; rows = rows_of l BWT89_ALPHA in
     if peek_rows rows l (length b) index = None then Some (bwt89_free g1 True, BWT89_BAD_DATA, Some out)
     else Some (bwt89_free g1 True, BWT89_OK, Some (walk_rows rows l (length b) index out)))"
proof -
  have "\<not> BWT89_MAX_N < length b" using b(3) by (simp add: BWT89_MAX_N_def INT_MAX_def nat_le_iff not_less le_nat_iff)
  then show ?thesis using assms by (simp add: bwt89_ibwt_def Let_def)
qed

lemma rows_of_last:
  assumes "index \<le> length b" and "i < length (build_last b index)"
  shows "rows_of (build_last b index) BWT89_ALPHA ! i = lf (build_last b index) i"
proof -
  have "\<forall>x \<in> set (build_last b index). x \<le> BWT89_ALPHA"
    using build_last_bound(1) [OF assms(1)] by (auto simp: in_set_conv_nth BWT89_ALPHA_def)
  then show ?thesis using rows_of_nth(2) assms(2) by blast
qed

lemma ibwt_of_image:
  assumes "bwt_image t index b" and "b \<noteq> []" "2 * (int (length b) + 1) \<le> INT_MAX" and m: "bwt89_malloc grants g = (g1, True)"
    and out: "length out = length b"
  shows "bwt89_ibwt grants g (Some b) index (Some out) = Some (bwt89_free g1 True, BWT89_OK, Some t)"
proof -
  have ix: "index \<le> length b" using image_facts [OF assms(1)] by metis
  show ?thesis
    using image_walk [OF assms(1) refl rows_of_last [OF ix] out] unfolding ibwt_run [OF assms(2) ix assms(3) m] by (simp add: Let_def)
qed

lemma malloc_True: "\<forall>k. grants k \<Longrightarrow> g_fail_at g = 0 \<Longrightarrow> bwt89_malloc grants g = (fst (bwt89_malloc grants g), True)"
  by (rule prod_eqI) (use malloc_cases(3) [of grants g "fst (bwt89_malloc grants g)" "snd (bwt89_malloc grants g)"] in simp_all)

lemma fits_cap: "4 * (int n + 1) \<le> INT_MAX \<Longrightarrow> \<not> BWT89_MAX_N < n"
  by (simp add: BWT89_MAX_N_def INT_MAX_def)

lemma locate_orig_map:
  assumes "suffix_array s ps" and "0 < length s"
  shows "locate_orig (map int ps) (length s) < length s \<and> ps ! locate_orig (map int ps) (length s) = 0"
proof -
  obtain r where "r < length s" "ps ! r = 0" using array_index [OF assms(1,2)] by blast
  then have "List.find (\<lambda>i. map int ps ! i = 0) [0..<length s] \<noteq> None"
    using array_length [OF assms(1)] by (simp add: find_None_iff) metis
  then show ?thesis
    using array_length [OF assms(1)] by (auto simp: locate_orig_def find_Some_iff split: option.split)
qed

lemma emit_image:
  assumes a: "suffix_array (build_symbols t) ps" and o: "length out = length t" and orig: "orig < length t + 1" "ps ! orig = 0"
  shows "bwt_image t orig (fold (\<lambda>i. emit_row (build_symbols t) (map int ps ! i) (length t + 1) i orig) [0..<length t + 1] out)"
proof -
  have len: "length ps = length t + 1" using array_length [OF a] by simp
  have wrap: "nat ((int p + int n - 1) mod int n) = prv n p" if "0 < n" for p n
  proof -
    have "int p + int n - 1 = int (p + n - 1)" using that by simp
    then show ?thesis by (metis prv_def nat_int zmod_int)
  qed
  have "fold (\<lambda>i. emit_row (build_symbols t) (map int ps ! i) (length t + 1) i orig) [0..<length t + 1] out
      = without_row (last_col (build_symbols t) ps) orig"
  proof (rule emit_rows [OF o])
    show "length (last_col (build_symbols t) ps) = length t + 1" using column_length [OF a] by simp
    fix i buf
    assume "i \<le> length t" "i \<noteq> orig"
    then show "emit_row (build_symbols t) (map int ps ! i) (length t + 1) i orig buf
        = buf[output_slot i orig := unrank (last_col (build_symbols t) ps ! i)]"
      using len wrap [of "length t + 1" "ps ! i"] by (simp add: emit_row_def Let_def unrank_def last_col_def)
  qed (use orig in \<open>simp_all add: emit_row_def\<close>)
  then show ?thesis unfolding bwt_image_def using a orig len by auto
qed

theorem bwt_computes:
  assumes "t \<noteq> []" and "length out = length t" and "4 * (int (length t) + 1) \<le> INT_MAX"
  shows "\<exists>g'. g_live_allocs g' = g_live_allocs g \<and>
    (bwt89_bwt grants g (Some t) (Some ix) (Some out) = Some (g', BWT89_NOMEM, Some ix, Some out) \<and> \<not> ((\<forall>k. grants k) \<and> g_fail_at g = 0) \<or>
     (\<exists>orig b. bwt89_bwt grants g (Some t) (Some ix) (Some out) = Some (g', BWT89_OK, Some orig, Some b) \<and> bwt_image t orig b))"
proof -
  obtain g1 ok where m: "bwt89_malloc grants (bwt89_note_bwt g) = (g1, ok)" by fastforce
  note mf = malloc_cases [OF m]
  have nt: "g_live_allocs (bwt89_note_bwt g) = g_live_allocs g" "g_fail_at (bwt89_note_bwt g) = g_fail_at g" by (simp_all add: bwt89_note_bwt_def)
  show ?thesis
  proof (cases ok)
    case False
    then have "bwt89_bwt grants g (Some t) (Some ix) (Some out) = Some (g1, BWT89_NOMEM, Some ix, Some out)"
      using m fits_cap [OF assms(3)] assms(1) by (simp add: bwt89_bwt_def)
    then show ?thesis using mf nt False by auto
  next
    case True
    have "4 * int (length (build_symbols t)) \<le> INT_MAX" using assms(3) by simp
    from sa_is_sorts [OF symbols_string this, of grants g1] obtain g2 r where
      r: "bwt89_sa_is grants g1 (build_symbols t) BWT89_ALPHA = Some (g2, r)" "g_live_allocs g2 = g_live_allocs g1"
        "\<And>sa. r = Some sa \<Longrightarrow> \<exists>ps. sa = map int ps \<and> suffix_array (build_symbols t) ps"
        "(\<forall>k. grants k) \<and> g_fail_at g1 = 0 \<Longrightarrow> r \<noteq> None" by blast
    show ?thesis
    proof (cases r)
      case None
      then have "bwt89_bwt grants g (Some t) (Some ix) (Some out) = Some (bwt89_free g2 True, BWT89_NOMEM, Some ix, Some out)"
        using m True r(1) fits_cap [OF assms(3)] assms(1) by (simp add: bwt89_bwt_def Let_def)
      moreover have "\<not> ((\<forall>k. grants k) \<and> g_fail_at g = 0)" using r(4) None mf(2) nt by auto
      ultimately show ?thesis using mf nt True r(2) by (intro exI [of _ "bwt89_free g2 True"]) simp
    next
      case (Some sa)
      then obtain ps where ps: "sa = map int ps" "suffix_array (build_symbols t) ps" using r(3) by blast
      let ?orig = "locate_orig sa (length t + 1)"
      have orig: "?orig < length t + 1" "ps ! ?orig = 0" using locate_orig_map [OF ps(2)] ps(1) by simp_all
      let ?b = "fold (\<lambda>i. emit_row (build_symbols t) (sa ! i) (length t + 1) i ?orig) [0..<length t + 1] out"
      have "bwt89_bwt grants g (Some t) (Some ix) (Some out) = Some (bwt89_free g2 True, BWT89_OK, Some ?orig, Some ?b)"
        using m True r(1) Some fits_cap [OF assms(3)] assms(1) by (simp add: bwt89_bwt_def Let_def)
      moreover have "bwt_image t ?orig ?b" using emit_image [OF ps(2) assms(2) orig] ps(1) by simp
      ultimately show ?thesis using mf nt True r(2) by (intro exI [of _ "bwt89_free g2 True"]) auto
    qed
  qed
qed

end
