(* ===== verification/Bwt_Correct.thy ===== *)
theory Bwt_Correct
  imports Bwt_Inverse
begin

text \<open>The contract of \<open>bwt89_bwt\<close> and \<open>bwt89_ibwt\<close> stated by \<open>bwt89.h\<close>.\<close>

text \<open>C16: The inverse of a transform gives the text back, with its memory granted and for texts whose scratch
  offsets are within \<open>int\<close>; the two calls need not share any state.\<close>

theorem bwt_roundtrip:
  assumes "4 * (int (length t) + 1) \<le> INT_MAX" and "length out = length t" and "length dest = length t"
    and "bwt89_bwt grants g (Some t) (Some ix) (Some out) = Some (g1, BWT89_OK, Some orig, Some b)"
    and "\<forall>k. grants' k" and "g_fail_at g2 = 0"
  shows "\<exists>g3. bwt89_ibwt grants' g2 (Some b) orig (Some dest) = Some (g3, BWT89_OK, Some t) \<and> g_live_allocs g3 = g_live_allocs g2"
proof (cases "t = []")
  case True
  then show ?thesis using assms by (auto simp: bwt89_bwt_def bwt89_ibwt_def BWT89_MAX_N_def)
next
  case False
  have im: "bwt_image t orig b" using bwt_computes [OF False assms(2,1), of g grants ix] assms(4) by auto
  then have len: "length b = length t" using image_facts by metis
  have m: "bwt89_malloc grants' g2 = (fst (bwt89_malloc grants' g2), True)" using malloc_True assms(5,6) .
  have "bwt89_ibwt grants' g2 (Some b) orig (Some dest) = Some (bwt89_free (fst (bwt89_malloc grants' g2)) True, BWT89_OK, Some t)"
    using len assms(1,3) False by (intro ibwt_of_image [OF im _ _ m]) auto
  then show ?thesis using malloc_cases(1) [OF m] by auto
qed

lemma bwt_roundtrip_witness:
  "\<exists>g1 orig b g3. bwt89_bwt (\<lambda>k. True) bwt89_start (Some [98, 97, 110, 97]) (Some 0) (Some [0, 0, 0, 0]) = Some (g1, BWT89_OK, Some orig, Some b)
    \<and> bwt89_ibwt (\<lambda>k. True) bwt89_start (Some b) orig (Some [7, 7, 7, 7]) = Some (g3, BWT89_OK, Some [98, 97, 110, 97])"
proof -
  have f: "g_fail_at bwt89_start = 0" "4 * (int (length [98, 97, 110, 97 :: u8]) + 1) \<le> INT_MAX" by (simp_all add: bwt89_start_def INT_MAX_def)
  from bwt_computes [OF _ _ f(2), of "[0, 0, 0, 0]" bwt89_start "\<lambda>k. True" 0] f(1) obtain g1 orig b where
    "bwt89_bwt (\<lambda>k. True) bwt89_start (Some [98, 97, 110, 97]) (Some 0) (Some [0, 0, 0, 0]) = Some (g1, BWT89_OK, Some orig, Some b)" by auto
  with bwt_roundtrip [OF f(2) _ _ this _ f(1), of "[7, 7, 7, 7]" "\<lambda>k. True"] show ?thesis by auto
qed

text \<open>C18: With its memory granted the inverse accepts exactly the pairs of bytes and index that are the transform of some
  text, and then gives that text; any other pair is refused as \<open>BWT89_BAD_DATA\<close> with the output untouched. All memory is released.\<close>

theorem ibwt_exact:
  assumes "b \<noteq> []" and "index \<le> length b" and "2 * (int (length b) + 1) \<le> INT_MAX" and "length out = length b"
    and "\<forall>k. grants k" and "g_fail_at g = 0"
  shows "\<exists>g'. g_live_allocs g' = g_live_allocs g \<and>
    ((\<exists>t. bwt_image t index b \<and> bwt89_ibwt grants g (Some b) index (Some out) = Some (g', BWT89_OK, Some t)) \<or>
     (\<nexists>t. bwt_image t index b) \<and> bwt89_ibwt grants g (Some b) index (Some out) = Some (g', BWT89_BAD_DATA, Some out))"
proof -
  let ?l = "build_last b index" and ?g = "bwt89_free (fst (bwt89_malloc grants g)) True"
  have m: "bwt89_malloc grants g = (fst (bwt89_malloc grants g), True)" using malloc_True assms(5,6) .
  have live: "g_live_allocs ?g = g_live_allocs g" using malloc_cases(1) [OF m] by simp
  note run = ibwt_run [OF assms(1-3) m, of out]
  show ?thesis
  proof (cases "peek_rows (rows_of ?l BWT89_ALPHA) ?l (length b) index = None")
    case True
    have "\<not> bwt_image t index b" for t
      using image_walk(1) [of t index b ?l "rows_of ?l BWT89_ALPHA" out] rows_of_last [OF assms(2)] assms(4) True by auto
    then show ?thesis using True run live by (intro exI [of _ ?g]) (simp add: Let_def)
  next
    case False
    then have "bwt_image (walk_rows (rows_of ?l BWT89_ALPHA) ?l (length b) index out) index b"
      using accepted [OF assms(2) refl rows_of_last [OF assms(2)] _ assms(4)] by simp
    then show ?thesis using False run live by (intro exI [of _ ?g]) (auto simp: Let_def)
  qed
qed

lemma ibwt_exact_witness:
  "\<exists>g'. (\<exists>t. bwt_image t 1 [97, 98] \<and> bwt89_ibwt (\<lambda>k. True) bwt89_start (Some [97, 98]) 1 (Some [0, 0]) = Some (g', BWT89_OK, Some t)) \<or>
    (\<nexists>t. bwt_image t 1 [97, 98]) \<and> bwt89_ibwt (\<lambda>k. True) bwt89_start (Some [97, 98]) 1 (Some [0, 0]) = Some (g', BWT89_BAD_DATA, Some [0, 0])"
  using ibwt_exact [of "[97, 98]" 1 "[0, 0]" "\<lambda>k. True" bwt89_start] by (auto simp: bwt89_start_def INT_MAX_def)

text \<open>A call of the transform or of the inverse that fails leaves the buffers of its caller as they were.\<close>

theorem failed_calls_write_nothing:
  assumes "st \<noteq> BWT89_OK"
  shows "(bwt89_bwt grants g s ix out = Some (g', st, ix', out') \<longrightarrow> ix' = ix \<and> out' = out)
    \<and> (bwt89_ibwt grants g s index out = Some (g', st, out') \<longrightarrow> out' = out)"
  using assms by (auto simp: bwt89_bwt_def bwt89_ibwt_def Let_def split: option.splits if_splits prod.splits)

lemma failed_calls_write_nothing_witness:
  "\<exists>g' st ix' out'. bwt89_bwt (\<lambda>k. False) bwt89_start (Some [97]) (Some 5) (Some [7]) = Some (g', st, ix', out')
    \<and> ix' = Some 5 \<and> out' = Some [7]"
proof -
  obtain g' where r: "bwt89_bwt (\<lambda>k. False) bwt89_start (Some [97]) (Some 5) (Some [7]) = Some (g', BWT89_NOMEM, Some 5, Some [7])"
    by (simp add: bwt89_bwt_def bwt89_malloc_def should_fail_def sys_alloc_def bwt89_start_def bwt89_note_bwt_def BWT89_MAX_N_def INT_MAX_def)
  then show ?thesis
    using failed_calls_write_nothing [of BWT89_NOMEM "\<lambda>k. False" bwt89_start "Some [97]" "Some 5" "Some [7]" g' "Some 5" "Some [7]"] by blast
qed

text \<open>C26: Every length from 536870911 up to the cap of the public header is accepted although the offsets into the
  arena of the suffix array construction are then larger than \<open>INT_MAX\<close>, so that with memory granted the call overflows.\<close>

theorem cap_admits_overflow:
  assumes "length t \<le> BWT89_MAX_N" and "INT_MAX < 4 * (int (length t) + 1)" and "\<forall>k. grants k" and "g_fail_at g = 0"
  shows "bwt89_bwt grants g (Some t) (Some ix) (Some out) = None"
proof -
  let ?g = "bwt89_note_bwt g"
  have n: "t \<noteq> []" using assms(2) by (auto simp: INT_MAX_def)
  have f: "g_fail_at ?g = 0" using assms(4) by (simp add: bwt89_note_bwt_def)
  obtain g1 where m: "bwt89_malloc grants ?g = (g1, True)" using malloc_True [OF assms(3) f] by metis
  have "g_fail_at (bwt89_note_sais g1) = 0" using malloc_cases(2) [OF m] f by (simp add: bwt89_note_sais_def)
  then obtain g2 where m2: "bwt89_malloc grants (bwt89_note_sais g1) = (g2, True)" using malloc_True [OF assms(3)] by metis
  have "bwt89_sa_is grants g1 (build_symbols t) BWT89_ALPHA = None"
    unfolding bwt89_sa_is_def using m2 assms(2) n by (subst sa_is_core.simps) (simp add: Let_def)
  then show ?thesis using assms(1) n m by (simp add: bwt89_bwt_def Let_def)
qed

lemma cap_admits_overflow_witness:
  "bwt89_bwt (\<lambda>k. True) bwt89_start (Some (replicate 536870911 0)) (Some 0) (Some []) = None"
  by (rule cap_admits_overflow) (simp_all only: length_replicate, simp_all add: BWT89_MAX_N_def INT_MAX_def bwt89_start_def)

end
