(* ===== verification/Bwt_Dyn.thy ===== *)
theory Bwt_Dyn
  imports Bwt_Correct
begin

text \<open>
  \<open>libbwt89\<close>, the editor (\<open>bwt89_dyn.c\<close>). \<open>ed_t\<close> holds the \<open>ed_cap\<close> bytes of the store; \<open>junk\<close> tells what memory
  that was just allocated holds. A handle that was published has a store: \<open>bwt89_ed_open\<close> and \<open>grow_to\<close> assign
  \<open>t\<close> only a pointer that is not null.
\<close>

section \<open>The editor\<close>

record bwt89_ed =
  ed_t :: bytes
  ed_len :: nat
  ed_cap :: nat

definition SIZE_MAX :: nat where
  "SIZE_MAX = 2 ^ 64 - 1"

definition next_cap :: "nat \<Rightarrow> nat \<Rightarrow> nat" where
  "next_cap cap need =
     (if need \<le> cap then cap else if SIZE_MAX div 2 < cap then need else if cap * 2 < need then need else cap * 2)"

definition grow_to :: "(nat \<Rightarrow> bool) \<Rightarrow> (nat \<Rightarrow> u8) \<Rightarrow> bwt89_globals \<Rightarrow> bwt89_ed \<Rightarrow> nat \<Rightarrow> bwt89_globals \<times> bwt89_ed \<times> bwt89_status" where
  "grow_to grants junk g e need =
     (if need \<le> ed_cap e then (g, e, BWT89_OK)
      else let nc = next_cap (ed_cap e) need in
        case bwt89_realloc grants g True of (g, ok) \<Rightarrow>
          if \<not> ok then (g, e, BWT89_NOMEM)
          else (g, e\<lparr>ed_t := ed_t e @ map junk [ed_cap e..<nc], ed_cap := nc\<rparr>, BWT89_OK))"

text \<open>\<open>memmove(t + dst, t + src, n)\<close>.\<close>

definition move_bytes :: "bytes \<Rightarrow> nat \<Rightarrow> nat \<Rightarrow> nat \<Rightarrow> bytes" where
  "move_bytes t dst src n = take dst t @ take n (drop src t) @ drop (dst + n) t"

definition open_slot :: "bytes \<Rightarrow> nat \<Rightarrow> nat \<Rightarrow> bytes" where
  "open_slot t pos n = (if pos < n then move_bytes t (pos + 1) pos (n - pos) else t)"

definition close_slot :: "bytes \<Rightarrow> nat \<Rightarrow> nat \<Rightarrow> bytes" where
  "close_slot t pos n = (if pos + 1 < n then move_bytes t pos (pos + 1) (n - pos - 1) else t)"

text \<open>The handle the caller's variable \<open>ed\<close> points to is an option in the option for the pointer itself.\<close>

definition bwt89_ed_open :: "(nat \<Rightarrow> bool) \<Rightarrow> (nat \<Rightarrow> u8) \<Rightarrow> bwt89_globals \<Rightarrow> bwt89_ed option option \<Rightarrow> bytes option
    \<Rightarrow> bwt89_globals \<times> bwt89_ed option option \<times> bwt89_status" where
  "bwt89_ed_open grants junk g ed s =
     (case ed of None \<Rightarrow> (g, ed, BWT89_NULL_ARG)
      | Some _ \<Rightarrow>
     (case s of None \<Rightarrow> (g, ed, BWT89_NULL_ARG)
      | Some s \<Rightarrow>
      let n = length s in
      if BWT89_MAX_N < n then (g, ed, BWT89_TOO_LARGE)
      else case bwt89_malloc grants g of (g, ok) \<Rightarrow>
        if \<not> ok then (g, ed, BWT89_NOMEM)
        else case bwt89_malloc grants g of (g, ok) \<Rightarrow>
          if \<not> ok then (bwt89_free g True, ed, BWT89_NOMEM)
          else (g, Some (Some \<lparr>ed_t = s @ [junk n], ed_len = n, ed_cap = n + 1\<rparr>), BWT89_OK)))"

definition bwt89_ed_insert :: "(nat \<Rightarrow> bool) \<Rightarrow> (nat \<Rightarrow> u8) \<Rightarrow> bwt89_globals \<Rightarrow> bwt89_ed option \<Rightarrow> nat \<Rightarrow> u8
    \<Rightarrow> bwt89_globals \<times> bwt89_ed option \<times> bwt89_status" where
  "bwt89_ed_insert grants junk g ed pos c =
     (case ed of None \<Rightarrow> (g, ed, BWT89_NULL_ARG)
      | Some e \<Rightarrow>
      if ed_len e < pos then (g, ed, BWT89_BAD_EDIT)
      else if BWT89_MAX_N \<le> ed_len e then (g, ed, BWT89_TOO_LARGE)
      else case grow_to grants junk g e (ed_len e + 1) of (g, e, st) \<Rightarrow>
        if st \<noteq> BWT89_OK then (g, Some e, st)
        else
          let t = open_slot (ed_t e) pos (ed_len e); e = e\<lparr>ed_t := t[pos := c], ed_len := ed_len e + 1\<rparr>
          in (bwt89_note_edit_insert g, Some e, BWT89_OK))"

definition bwt89_ed_delete :: "bwt89_globals \<Rightarrow> bwt89_ed option \<Rightarrow> nat \<Rightarrow> bwt89_globals \<times> bwt89_ed option \<times> bwt89_status" where
  "bwt89_ed_delete g ed pos =
     (case ed of None \<Rightarrow> (g, ed, BWT89_NULL_ARG)
      | Some e \<Rightarrow>
      if ed_len e = 0 then (g, ed, BWT89_BAD_EDIT)
      else if ed_len e \<le> pos then (g, ed, BWT89_BAD_EDIT)
      else
        let e = e\<lparr>ed_t := close_slot (ed_t e) pos (ed_len e), ed_len := ed_len e - 1\<rparr>
        in (bwt89_note_edit_delete g, Some e, BWT89_OK))"

definition bwt89_ed_substitute :: "bwt89_globals \<Rightarrow> bwt89_ed option \<Rightarrow> nat \<Rightarrow> u8 \<Rightarrow> bwt89_globals \<times> bwt89_ed option \<times> bwt89_status" where
  "bwt89_ed_substitute g ed pos c =
     (case ed of None \<Rightarrow> (g, ed, BWT89_NULL_ARG)
      | Some e \<Rightarrow>
      if ed_len e = 0 then (g, ed, BWT89_BAD_EDIT)
      else if ed_len e \<le> pos then (g, ed, BWT89_BAD_EDIT)
      else (bwt89_note_edit_substitute g, Some (e\<lparr>ed_t := (ed_t e)[pos := c]\<rparr>), BWT89_OK))"

definition bwt89_test_ed_check :: "bwt89_ed option \<Rightarrow> bool" where
  "bwt89_test_ed_check ed = (case ed of None \<Rightarrow> False | Some e \<Rightarrow> if ed_cap e < ed_len e then False else True)"

definition bwt89_ed_length :: "bwt89_ed option \<Rightarrow> nat option \<Rightarrow> bwt89_status \<times> nat option" where
  "bwt89_ed_length ed len =
     (case ed of None \<Rightarrow> (BWT89_NULL_ARG, len)
      | Some e \<Rightarrow> if len = None then (BWT89_NULL_ARG, len) else (BWT89_OK, Some (ed_len e)))"

definition bwt89_ed_bwt :: "(nat \<Rightarrow> bool) \<Rightarrow> bwt89_globals \<Rightarrow> bwt89_ed option \<Rightarrow> nat option \<Rightarrow> bytes option
    \<Rightarrow> (bwt89_globals \<times> bwt89_status \<times> nat option \<times> bytes option) option" where
  "bwt89_ed_bwt grants g ed index out =
     (case ed of None \<Rightarrow> Some (g, BWT89_NULL_ARG, index, out)
      | Some e \<Rightarrow>
      if index = None then Some (g, BWT89_NULL_ARG, index, out)
      else if out = None then Some (g, BWT89_NULL_ARG, index, out)
      else bwt89_bwt grants g (Some (take (ed_len e) (ed_t e))) index out)"

definition bwt89_ed_close :: "bwt89_globals \<Rightarrow> bwt89_ed option \<Rightarrow> bwt89_globals \<times> bwt89_status" where
  "bwt89_ed_close g ed =
     (case ed of None \<Rightarrow> (g, BWT89_NULL_ARG)
      | Some e \<Rightarrow> (bwt89_free (bwt89_free g True) True, BWT89_OK))"

section \<open>The text of an editor\<close>

text \<open>Calls on a handle, and what each does to the text.\<close>

datatype ed_call = Ed_Insert nat u8 | Ed_Delete nat | Ed_Substitute nat u8

definition ed_step :: "(nat \<Rightarrow> bool) \<Rightarrow> (nat \<Rightarrow> u8) \<Rightarrow> bwt89_globals \<Rightarrow> bwt89_ed option \<Rightarrow> ed_call \<Rightarrow> bwt89_globals \<times> bwt89_ed option \<times> bwt89_status" where
  "ed_step grants junk g ed k =
     (case k of Ed_Insert pos c \<Rightarrow> bwt89_ed_insert grants junk g ed pos c
      | Ed_Delete pos \<Rightarrow> bwt89_ed_delete g ed pos
      | Ed_Substitute pos c \<Rightarrow> bwt89_ed_substitute g ed pos c)"

definition edit_text :: "bytes \<Rightarrow> ed_call \<Rightarrow> bytes option" where
  "edit_text t k =
     (case k of Ed_Insert pos c \<Rightarrow> if pos \<le> length t \<and> length t < BWT89_MAX_N then Some (take pos t @ c # drop pos t) else None
      | Ed_Delete pos \<Rightarrow> if pos < length t then Some (take pos t @ drop (Suc pos) t) else None
      | Ed_Substitute pos c \<Rightarrow> if pos < length t then Some (t[pos := c]) else None)"

definition ed_text :: "bwt89_ed \<Rightarrow> bytes" where
  "ed_text e = take (ed_len e) (ed_t e)"

definition ed_ok :: "bwt89_ed \<Rightarrow> bool" where
  "ed_ok e \<longleftrightarrow> length (ed_t e) = ed_cap e \<and> ed_len e \<le> ed_cap e \<and> ed_len e \<le> BWT89_MAX_N"

lemma text_length [simp]: "ed_ok e \<Longrightarrow> length (ed_text e) = ed_len e"
  by (simp add: ed_ok_def ed_text_def)

lemma next_cap_enough: "need \<le> next_cap cap need" "cap \<le> next_cap cap need"
  by (auto simp: next_cap_def)

lemma grow_keeps:
  assumes "ed_ok e" and "grow_to grants junk g e (ed_len e + 1) = (g', e', st)"
  shows "ed_ok e'" "ed_text e' = ed_text e" "ed_len e' = ed_len e" "st = BWT89_OK \<Longrightarrow> ed_len e < ed_cap e'"
    "st = BWT89_OK \<or> st = BWT89_NOMEM" "g_live_allocs g' = g_live_allocs g" "g_fail_at g' = g_fail_at g"
    "(\<forall>k. grants k) \<and> g_fail_at g = 0 \<Longrightarrow> st = BWT89_OK"
  using assms next_cap_enough [of "ed_len e + 1" "ed_cap e"]
  by (auto simp: grow_to_def bwt89_realloc_def should_fail_def sys_alloc_def Let_def ed_ok_def ed_text_def split: if_splits prod.splits)

lemma split_at:
  assumes "pos \<le> n" and "n \<le> length t"
  obtains a b r where "t = a @ b @ r" "length a = pos" "n = pos + length b"
proof
  have "drop pos t = take (n - pos) (drop pos t) @ drop (n - pos) (drop pos t)" by (rule append_take_drop_id [symmetric])
  then show "t = take pos t @ take (n - pos) (drop pos t) @ drop (n - pos) (drop pos t)" by (metis append_take_drop_id)
qed (use assms in simp_all)

lemma text_open:
  assumes "n < length t" and "pos \<le> n"
  shows "take (n + 1) ((open_slot t pos n)[pos := c]) = take pos (take n t) @ c # drop pos (take n t)"
proof -
  obtain a b r where t: "t = a @ b @ r" "length a = pos" "n = pos + length b" using split_at [OF assms(2)] assms(1) by (metis less_imp_le)
  then obtain y r' where r: "r = y # r'" using assms(1) by (cases r) auto
  show ?thesis using t(2,3) by (cases b) (simp_all add: open_slot_def move_bytes_def t(1) r list_update_append)
qed

lemma text_close:
  assumes "n \<le> length t" and "pos < n"
  shows "take (n - 1) (close_slot t pos n) = take pos (take n t) @ drop (Suc pos) (take n t)"
proof -
  obtain a b r where t: "t = a @ b @ r" "length a = pos" "n = pos + length b" using split_at [OF less_imp_le [OF assms(2)] assms(1)] by metis
  then obtain y b' where b: "b = y # b'" using assms(2) by (cases b) auto
  show ?thesis using t(2,3) by (cases b') (simp_all add: close_slot_def move_bytes_def t(1) b)
qed

lemma slot_lengths:
  "n < length t \<Longrightarrow> length (open_slot t pos n) = length t" "n \<le> length t \<Longrightarrow> length (close_slot t pos n) = length t"
  by (auto simp: open_slot_def close_slot_def move_bytes_def)

section \<open>Refinement\<close>

lemma step_fields [simp]:
  "g_live_allocs (bwt89_note_edit_insert g) = g_live_allocs g" "g_fail_at (bwt89_note_edit_insert g) = g_fail_at g"
  "g_live_allocs (bwt89_note_edit_delete g) = g_live_allocs g" "g_fail_at (bwt89_note_edit_delete g) = g_fail_at g"
  "g_live_allocs (bwt89_note_edit_substitute g) = g_live_allocs g" "g_fail_at (bwt89_note_edit_substitute g) = g_fail_at g"
  by (simp_all add: bwt89_note_edit_insert_def bwt89_note_edit_delete_def bwt89_note_edit_substitute_def)

definition ed_contract :: "(nat \<Rightarrow> bool) \<Rightarrow> bwt89_globals \<Rightarrow> bwt89_ed \<Rightarrow> ed_call \<Rightarrow> bwt89_globals \<times> bwt89_ed option \<times> bwt89_status \<Rightarrow> bool" where
  "ed_contract grants g e k res \<longleftrightarrow> (\<exists>g' e' st. res = (g', Some e', st) \<and> ed_ok e' \<and> g_live_allocs g' = g_live_allocs g \<and> g_fail_at g' = g_fail_at g
     \<and> (case edit_text (ed_text e) k of
          Some t \<Rightarrow> st = BWT89_OK \<and> ed_text e' = t
            \<or> st = BWT89_NOMEM \<and> ed_text e' = ed_text e \<and> \<not> ((\<forall>k. grants k) \<and> g_fail_at g = 0)
        | None \<Rightarrow> st \<noteq> BWT89_OK \<and> ed_text e' = ed_text e))"

lemma insert_refines:
  assumes e: "ed_ok e"
  shows "ed_contract grants g e (Ed_Insert pos c) (bwt89_ed_insert grants junk g (Some e) pos c)"
proof (cases "pos \<le> ed_len e \<and> ed_len e < BWT89_MAX_N")
  case True
  obtain g1 e1 st where r: "grow_to grants junk g e (ed_len e + 1) = (g1, e1, st)" by (metis prod_cases3)
  note k = grow_keeps [OF e r]
  have spec: "edit_text (ed_text e) (Ed_Insert pos c) = Some (take pos (ed_text e) @ c # drop pos (ed_text e))"
    using e True by (simp add: edit_text_def)
  show ?thesis
  proof (cases "st = BWT89_OK")
    case ok: True
    let ?e = "e1\<lparr>ed_t := (open_slot (ed_t e1) pos (ed_len e1))[pos := c], ed_len := ed_len e1 + 1\<rparr>"
    have n: "ed_len e1 < length (ed_t e1)" using k(1,3) k(4) [OF ok] by (simp add: ed_ok_def)
    have "bwt89_ed_insert grants junk g (Some e) pos c = (bwt89_note_edit_insert g1, Some ?e, BWT89_OK)"
      using True r ok by (simp add: bwt89_ed_insert_def Let_def)
    moreover have "ed_text ?e = take pos (ed_text e) @ c # drop pos (ed_text e)"
      using text_open [OF n, of pos c] True k(2,3) unfolding ed_text_def [symmetric] by (simp add: ed_text_def [of "_\<lparr>ed_len := _\<rparr>"])
    moreover have "ed_ok ?e" using k(1,3) True n slot_lengths(1) [OF n] by (simp add: ed_ok_def)
    ultimately show ?thesis using spec k(6,7) unfolding ed_contract_def by simp
  next
    case False
    then have "bwt89_ed_insert grants junk g (Some e) pos c = (g1, Some e1, BWT89_NOMEM)"
      using True r k(5) by (simp add: bwt89_ed_insert_def)
    then show ?thesis using spec k(1,2,6,7) k(8) False unfolding ed_contract_def by auto
  qed
next
  case False
  then show ?thesis using e by (auto simp: ed_contract_def bwt89_ed_insert_def edit_text_def)
qed

lemma delete_refines:
  assumes e: "ed_ok e"
  shows "ed_contract grants g e (Ed_Delete pos) (bwt89_ed_delete g (Some e) pos)"
proof (cases "pos < ed_len e")
  case True
  have n: "ed_len e \<le> length (ed_t e)" using e by (simp add: ed_ok_def)
  have "ed_ok (e\<lparr>ed_t := close_slot (ed_t e) pos (ed_len e), ed_len := ed_len e - 1\<rparr>)"
    using e slot_lengths(2) [OF n] by (auto simp: ed_ok_def)
  then show ?thesis
    using True text_close [OF n True] e by (simp add: ed_contract_def bwt89_ed_delete_def edit_text_def Let_def) (simp add: ed_text_def)
qed (use e in \<open>simp add: ed_contract_def bwt89_ed_delete_def edit_text_def\<close>)

lemma substitute_refines:
  assumes e: "ed_ok e"
  shows "ed_contract grants g e (Ed_Substitute pos c) (bwt89_ed_substitute g (Some e) pos c)"
proof (cases "pos < ed_len e")
  case True
  have "ed_ok (e\<lparr>ed_t := (ed_t e)[pos := c]\<rparr>)" using e by (simp add: ed_ok_def)
  moreover have "ed_text (e\<lparr>ed_t := (ed_t e)[pos := c]\<rparr>) = (ed_text e)[pos := c]" by (simp add: ed_text_def take_update_swap)
  ultimately show ?thesis using True e by (simp add: ed_contract_def bwt89_ed_substitute_def edit_text_def)
qed (use e in \<open>simp add: ed_contract_def bwt89_ed_substitute_def edit_text_def\<close>)

lemma step_refines: "ed_ok e \<Longrightarrow> ed_contract grants g e k (ed_step grants junk g (Some e) k)"
  by (cases k) (simp_all add: ed_step_def insert_refines delete_refines substitute_refines)

text \<open>A sequence of calls; a call that is refused leaves the text as it was.\<close>

fun ed_steps :: "(nat \<Rightarrow> bool) \<Rightarrow> (nat \<Rightarrow> u8) \<Rightarrow> bwt89_globals \<Rightarrow> bwt89_ed option \<Rightarrow> ed_call list \<Rightarrow> bwt89_globals \<times> bwt89_ed option" where
  "ed_steps grants junk g ed [] = (g, ed)"
| "ed_steps grants junk g ed (k # ks) = (case ed_step grants junk g ed k of (g, ed, st) \<Rightarrow> ed_steps grants junk g ed ks)"

definition edit_texts :: "bytes \<Rightarrow> ed_call list \<Rightarrow> bytes" where
  "edit_texts t ks = foldl (\<lambda>t k. case edit_text t k of None \<Rightarrow> t | Some t \<Rightarrow> t) t ks"

lemma steps_refine:
  assumes "\<forall>k. grants k"
  shows "ed_ok e \<Longrightarrow> g_fail_at g = 0 \<Longrightarrow> \<exists>g' e'. ed_steps grants junk g (Some e) ks = (g', Some e') \<and> ed_ok e'
    \<and> ed_text e' = edit_texts (ed_text e) ks \<and> g_live_allocs g' = g_live_allocs g \<and> g_fail_at g' = 0"
proof (induction ks arbitrary: g e)
  case (Cons k ks)
  from step_refines [OF Cons.prems(1), of grants g k junk] obtain g1 e1 st where
    s: "ed_step grants junk g (Some e) k = (g1, Some e1, st)" "ed_ok e1" "g_live_allocs g1 = g_live_allocs g" "g_fail_at g1 = g_fail_at g"
      "ed_text e1 = (case edit_text (ed_text e) k of None \<Rightarrow> ed_text e | Some t \<Rightarrow> t)"
    using assms Cons.prems(2) unfolding ed_contract_def by (auto split: option.splits)
  then show ?case using Cons.IH [OF s(2), of g1] Cons.prems(2) by (simp add: edit_texts_def)
qed (simp add: edit_texts_def)

text \<open>C19: After any sequence of calls on an editor that was opened on a text, the transform it shows is the transform
  of the text with the insertions, deletions and substitutions applied one after the other (refused ones skipped), its
  length is the length of that text, the handle is consistent, and closing it releases all it holds.\<close>

theorem editor_shows_bwt:
  assumes "\<forall>k. grants k" and "g_fail_at g = 0" and "bwt89_ed_open grants junk g (Some h) (Some s) = (g1, Some ed, BWT89_OK)"
    and "ed_steps grants junk g1 ed ks = (g2, ed2)"
  shows "bwt89_ed_bwt grants g2 ed2 (Some ix) (Some out) = bwt89_bwt grants g2 (Some (edit_texts s ks)) (Some ix) (Some out)
    \<and> bwt89_ed_length ed2 (Some n) = (BWT89_OK, Some (length (edit_texts s ks)))
    \<and> bwt89_test_ed_check ed2
    \<and> g_live_allocs (fst (bwt89_ed_close g2 ed2)) = g_live_allocs g"
proof -
  obtain ga gb oka okb where m: "bwt89_malloc grants g = (ga, oka)" "bwt89_malloc grants ga = (gb, okb)" by (metis surj_pair)
  note mf = malloc_cases [OF m(1)] malloc_cases [OF m(2)]
  have ok: oka okb using mf(2,3,6) assms(1,2) by auto
  let ?e = "\<lparr>ed_t = s @ [junk (length s)], ed_len = length s, ed_cap = length s + 1\<rparr>"
  have o: "g1 = gb" "ed = Some ?e" "\<not> BWT89_MAX_N < length s"
    using assms(3) m ok by (auto simp: bwt89_ed_open_def Let_def split: if_splits)
  have e: "ed_ok ?e" "ed_text ?e = s" using o(3) by (simp_all add: ed_ok_def ed_text_def)
  have "g_fail_at gb = 0" using mf(2,5) assms(2) by simp
  from steps_refine [OF assms(1) e(1) this, of junk ks] obtain e2 where
    r: "ed2 = Some e2" "ed_ok e2" "ed_text e2 = edit_texts s ks" "g_live_allocs g2 = g_live_allocs gb"
    using assms(4) e(2) o by auto
  have "length (edit_texts s ks) = ed_len e2" using text_length [OF r(2)] r(3) by simp
  moreover have "g_live_allocs g2 = g_live_allocs g + 2" using mf(1,4) ok r(4) by simp
  ultimately show ?thesis
    using r by (simp add: bwt89_ed_bwt_def bwt89_ed_length_def bwt89_test_ed_check_def bwt89_ed_close_def ed_text_def ed_ok_def)
qed

lemma editor_shows_bwt_witness:
  "\<exists>g1 ed g2 ed2. bwt89_ed_open (\<lambda>k. True) (\<lambda>k. 0) bwt89_start (Some None) (Some [97]) = (g1, Some ed, BWT89_OK)
    \<and> ed_steps (\<lambda>k. True) (\<lambda>k. 0) g1 ed [Ed_Insert 1 98, Ed_Delete 5, Ed_Substitute 0 99] = (g2, ed2)
    \<and> bwt89_ed_bwt (\<lambda>k. True) g2 ed2 (Some 0) (Some [0, 0]) = bwt89_bwt (\<lambda>k. True) g2 (Some [99, 98]) (Some 0) (Some [0, 0])"
proof -
  obtain g1 ed where o: "bwt89_ed_open (\<lambda>k. True) (\<lambda>k. 0) bwt89_start (Some None) (Some [97]) = (g1, Some ed, BWT89_OK)"
    by (simp add: bwt89_ed_open_def bwt89_malloc_def should_fail_def sys_alloc_def bwt89_start_def BWT89_MAX_N_def INT_MAX_def)
  obtain g2 ed2 where s: "ed_steps (\<lambda>k. True) (\<lambda>k. 0) g1 ed [Ed_Insert 1 98, Ed_Delete 5, Ed_Substitute 0 99] = (g2, ed2)" by fastforce
  have "edit_texts [97] [Ed_Insert 1 98, Ed_Delete 5, Ed_Substitute 0 99] = [99, 98]"
    by (simp add: edit_texts_def edit_text_def BWT89_MAX_N_def INT_MAX_def)
  then show ?thesis using editor_shows_bwt [OF _ _ o s, of 0 "[0, 0]"] o s by (auto simp: bwt89_start_def)
qed

end
