(* ===== verification/Adt_Type.thy ===== *)
theory Adt_Type
  imports Hm_Scheme
begin

text \<open>
  \<open>libadt89\<close>, declarations and constructor patterns (\<open>adt_ctx.c\<close>, \<open>adt_error.c\<close>, \<open>adt_type.c\<close>, \<open>adt_ctor.c\<close>, \<open>adt_scheme.c\<close>,
  \<open>adt_bind.c\<close>, \<open>adt_pattern.c\<close>), over the model of \<open>libhm89\<close>.

  A pointer to a datatype is its position in the list of its context, a pointer to a constructor the pair of
  the position of its owner and its own position there. Patterns do not change once they are made and are
  values. A null context, on which every call returns at once, is not represented; a call that takes no context
  runs in the one of its type or constructor. \<open>ag\<close> tells which requests to the allocator of the context are granted, \<open>hg\<close> which of \<open>libhm89\<close>;
  \<open>ax_next_id\<close> is the counter of the process. Recursions over types take the depth of calls they may use.
\<close>

section \<open>Data\<close>

datatype adt_status = ADT_OK | ADT_ERROR_NOMEM | ADT_ERROR_INVALID | ADT_ERROR_DUPLICATE_TYPE | ADT_ERROR_DUPLICATE_CTOR
  | ADT_ERROR_WRONG_ARITY | ADT_ERROR_UNSEALED | ADT_ERROR_SEALED | ADT_ERROR_UNKNOWN_CTOR | ADT_ERROR_PATTERN_ARITY
  | ADT_ERROR_TYPE | ADT_ERROR_INTERNAL

datatype adt_error_kind = ADT_ERR_NONE | ADT_ERR_DUPLICATE_TYPE | ADT_ERR_DUPLICATE_CTOR | ADT_ERR_WRONG_TYPE_ARITY
  | ADT_ERR_WRONG_PATTERN_ARITY | ADT_ERR_UNSEALED | ADT_ERR_SEALED | ADT_ERR_HM | ADT_ERR_INVALID

datatype adt_match_result = ADT_MATCH_EXHAUSTIVE | ADT_MATCH_NONEXHAUSTIVE

type_synonym tref = nat
type_synonym cref = "nat \<times> nat"

text \<open>A subpattern may be a null pointer, which is read as a wildcard.\<close>

datatype adt_pattern = ADT_PATTERN_WILDCARD | ADT_PATTERN_CTOR cref "adt_pattern option list"

text \<open>A type or scheme that is built node by node: absent, whole, or not null with a null pointer somewhere inside.\<close>

datatype 'a built = Absent | Whole 'a | Holed

record adt_ctor =
  ac_owner :: tref
  ac_name :: string
  ac_fields :: "tptr list"
  ac_scheme :: "hm_scheme built"
  ac_origin :: "nat option"

record adt_type =
  ay_name :: string
  ay_hm_name :: string
  ay_params :: "tptr list"
  ay_ctors :: "adt_ctor list"
  ay_ctor_cap :: nat
  ay_sealed :: bool
  ay_origin :: "nat option"

record adt_error =
  ae_kind :: adt_error_kind
  ae_message :: "string option"
  ae_type :: "tref option"
  ae_ctor :: "cref option"
  ae_hm :: "hm_error option"
  ae_origin :: "nat option"

record adt_ctx =
  ax_hm :: hm_ctx
  ax_types :: "adt_type list"
  ax_type_cap :: nat
  ax_patterns :: "adt_pattern list"
  ax_pattern_cap :: nat
  ax_origin :: "nat option"
  ax_last_error :: "adt_error option"
  ax_next_id :: ulong
  ax_allocs :: nat

abbreviation the_type :: "adt_ctx \<Rightarrow> tref \<Rightarrow> adt_type" where
  "the_type ctx ty \<equiv> ax_types ctx ! ty"

abbreviation the_ctor :: "adt_ctx \<Rightarrow> cref \<Rightarrow> adt_ctor" where
  "the_ctor ctx c \<equiv> ay_ctors (the_type ctx (fst c)) ! snd c"

definition set_type :: "adt_ctx \<Rightarrow> tref \<Rightarrow> adt_type \<Rightarrow> adt_ctx" where
  "set_type ctx ty d = ctx\<lparr>ax_types := (ax_types ctx)[ty := d]\<rparr>"

section \<open>Contexts\<close>

definition adt_i_ctx_new :: "(nat \<Rightarrow> bool) \<Rightarrow> ulong \<Rightarrow> hm_ctx option \<Rightarrow> adt_ctx option" where
  "adt_i_ctx_new ag next_id hm =
     (case hm of None \<Rightarrow> None
      | Some hm \<Rightarrow>
        if \<not> ag 0 then None
        else Some \<lparr>ax_hm = hm, ax_types = [], ax_type_cap = 0, ax_patterns = [], ax_pattern_cap = 0, ax_origin = None,
                   ax_last_error = None, ax_next_id = next_id, ax_allocs = 1\<rparr>)"

definition adt_ctx_new :: "(nat \<Rightarrow> bool) \<Rightarrow> ulong \<Rightarrow> hm_ctx option \<Rightarrow> adt_ctx option" where
  "adt_ctx_new ag next_id hm = adt_i_ctx_new ag next_id hm"

definition adt_ctx_new_with_allocator :: "(nat \<Rightarrow> bool) \<Rightarrow> ulong \<Rightarrow> hm_ctx option \<Rightarrow> adt_ctx option" where
  "adt_ctx_new_with_allocator ag next_id hm = adt_i_ctx_new ag next_id hm"

definition adt_ctx_set_origin :: "adt_ctx option \<Rightarrow> nat option \<Rightarrow> adt_ctx option" where
  "adt_ctx_set_origin ctx org = (case ctx of None \<Rightarrow> None | Some ctx \<Rightarrow> Some (ctx\<lparr>ax_origin := org\<rparr>))"

definition adt_ctx_error :: "adt_ctx option \<Rightarrow> adt_error option" where
  "adt_ctx_error ctx = (case ctx of None \<Rightarrow> None | Some ctx \<Rightarrow> ax_last_error ctx)"

definition adt_i_alloc :: "(nat \<Rightarrow> bool) \<Rightarrow> adt_ctx \<Rightarrow> adt_ctx \<times> bool" where
  "adt_i_alloc ag ctx = (ctx\<lparr>ax_allocs := Suc (ax_allocs ctx)\<rparr>, ag (ax_allocs ctx))"

definition adt_i_strdup :: "(nat \<Rightarrow> bool) \<Rightarrow> adt_ctx \<Rightarrow> string \<Rightarrow> adt_ctx \<times> string option" where
  "adt_i_strdup ag ctx src = (case adt_i_alloc ag ctx of (ctx, ok) \<Rightarrow> (ctx, if \<not> ok then None else Some src))"

definition adt_i_grow_capacity :: "nat \<Rightarrow> nat" where
  "adt_i_grow_capacity capacity = (if capacity = 0 then 4 else capacity * 2)"

text \<open>The new capacity of an array of \<open>count\<close> pointers that must hold one more.\<close>

definition adt_i_grow :: "(nat \<Rightarrow> bool) \<Rightarrow> adt_ctx \<Rightarrow> nat \<Rightarrow> nat \<Rightarrow> adt_ctx \<times> nat option" where
  "adt_i_grow ag ctx count capacity =
     (if count < capacity then (ctx, Some capacity)
      else case adt_i_alloc ag ctx of (ctx, ok) \<Rightarrow> (ctx, if \<not> ok then None else Some (adt_i_grow_capacity capacity)))"

definition adt_i_register_type :: "(nat \<Rightarrow> bool) \<Rightarrow> adt_ctx \<Rightarrow> adt_type \<Rightarrow> adt_ctx \<times> bool" where
  "adt_i_register_type ag ctx d =
     (case adt_i_grow ag ctx (length (ax_types ctx)) (ax_type_cap ctx) of
        (ctx, None) \<Rightarrow> (ctx, False)
      | (ctx, Some cap) \<Rightarrow> (ctx\<lparr>ax_type_cap := cap, ax_types := ax_types ctx @ [d]\<rparr>, True))"

definition adt_i_register_pattern :: "(nat \<Rightarrow> bool) \<Rightarrow> adt_ctx \<Rightarrow> adt_pattern \<Rightarrow> adt_ctx \<times> bool" where
  "adt_i_register_pattern ag ctx p =
     (case adt_i_grow ag ctx (length (ax_patterns ctx)) (ax_pattern_cap ctx) of
        (ctx, None) \<Rightarrow> (ctx, False)
      | (ctx, Some cap) \<Rightarrow> (ctx\<lparr>ax_pattern_cap := cap, ax_patterns := ax_patterns ctx @ [p]\<rparr>, True))"

definition adt_i_fail :: "(nat \<Rightarrow> bool) \<Rightarrow> adt_ctx \<Rightarrow> adt_status \<Rightarrow> adt_error_kind \<Rightarrow> string \<Rightarrow> tref option \<Rightarrow> cref option \<Rightarrow> hm_error option
    \<Rightarrow> adt_ctx \<times> adt_status" where
  "adt_i_fail ag ctx status knd msg ty ctor hm_err =
     (case adt_i_alloc ag (ctx\<lparr>ax_last_error := None\<rparr>) of (ctx, ok) \<Rightarrow>
        if \<not> ok then (ctx, status)
        else (ctx\<lparr>ax_last_error := Some \<lparr>ae_kind = knd, ae_message = Some msg, ae_type = ty, ae_ctor = ctor, ae_hm = hm_err,
                    ae_origin = ax_origin ctx\<rparr>\<rparr>, status))"

definition adt_i_ctor_name_taken :: "adt_type \<Rightarrow> string \<Rightarrow> bool" where
  "adt_i_ctor_name_taken d name = list_ex (\<lambda>c. ac_name c = name) (ay_ctors d)"

definition adt_i_ctx_has_ctor_name :: "adt_ctx \<Rightarrow> string \<Rightarrow> bool" where
  "adt_i_ctx_has_ctor_name ctx name = list_ex (\<lambda>d. adt_i_ctor_name_taken d name) (ax_types ctx)"

section \<open>Errors\<close>

definition adt_error_kind_of :: "adt_error option \<Rightarrow> adt_error_kind" where
  "adt_error_kind_of e = (case e of None \<Rightarrow> ADT_ERR_NONE | Some e \<Rightarrow> ae_kind e)"

definition adt_error_message :: "adt_error option \<Rightarrow> string" where
  "adt_error_message e = (case e of None \<Rightarrow> [] | Some e \<Rightarrow> (case ae_message e of None \<Rightarrow> [] | Some m \<Rightarrow> m))"

definition adt_error_type :: "adt_error option \<Rightarrow> tref option" where
  "adt_error_type e = (case e of None \<Rightarrow> None | Some e \<Rightarrow> ae_type e)"

definition adt_error_ctor :: "adt_error option \<Rightarrow> cref option" where
  "adt_error_ctor e = (case e of None \<Rightarrow> None | Some e \<Rightarrow> ae_ctor e)"

definition adt_error_hm :: "adt_error option \<Rightarrow> hm_error option" where
  "adt_error_hm e = (case e of None \<Rightarrow> None | Some e \<Rightarrow> ae_hm e)"

definition adt_error_origin :: "adt_error option \<Rightarrow> nat option" where
  "adt_error_origin e = (case e of None \<Rightarrow> None | Some e \<Rightarrow> ae_origin e)"

section \<open>Datatypes\<close>

definition adt_i_next_type_id :: "adt_ctx \<Rightarrow> adt_ctx \<times> ulong" where
  "adt_i_next_type_id ctx = (let i = ax_next_id ctx + 1 in (ctx\<lparr>ax_next_id := i\<rparr>, i))"

function adt_i_append_ulong :: "string \<Rightarrow> nat \<Rightarrow> string" where
  "adt_i_append_ulong buf v =
     (let buf = (if 10 \<le> v then adt_i_append_ulong buf (v div 10) else buf) in buf @ [char_of (48 + v mod 10)])"
  by pat_completeness auto
termination by (relation "measure snd") auto

declare adt_i_append_ulong.simps [simp del]

definition adt_i_make_hm_name :: "(nat \<Rightarrow> bool) \<Rightarrow> adt_ctx \<Rightarrow> ulong \<Rightarrow> adt_ctx \<times> string option" where
  "adt_i_make_hm_name ag ctx i = adt_i_strdup ag ctx (adt_i_append_ulong ''adt_'' (unat i))"

fun adt_i_type_fill_params :: "(nat \<Rightarrow> bool) \<Rightarrow> adt_ctx \<Rightarrow> nat \<Rightarrow> adt_ctx \<times> tptr list option" where
  "adt_i_type_fill_params hg ctx 0 = (ctx, Some [])"
| "adt_i_type_fill_params hg ctx (Suc k) =
     (case hm_type_var hg (ax_hm ctx) of
        (hm, None) \<Rightarrow> (ctx\<lparr>ax_hm := hm\<rparr>, None)
      | (hm, Some p) \<Rightarrow>
        (case adt_i_type_fill_params hg (ctx\<lparr>ax_hm := hm\<rparr>) k of
           (ctx, None) \<Rightarrow> (ctx, None)
         | (ctx, Some ps) \<Rightarrow> (ctx, Some (p # ps))))"

definition adt_i_type_alloc_params :: "(nat \<Rightarrow> bool) \<Rightarrow> (nat \<Rightarrow> bool) \<Rightarrow> adt_ctx \<Rightarrow> nat \<Rightarrow> adt_ctx \<times> tptr list option" where
  "adt_i_type_alloc_params ag hg ctx count =
     (if count = 0 then (ctx, Some [])
      else case adt_i_alloc ag ctx of (ctx, ok) \<Rightarrow> if \<not> ok then (ctx, None) else adt_i_type_fill_params hg ctx count)"

definition adt_i_oom_none :: "(nat \<Rightarrow> bool) \<Rightarrow> adt_ctx \<Rightarrow> adt_ctx" where
  "adt_i_oom_none ag ctx = fst (adt_i_fail ag ctx ADT_ERROR_NOMEM ADT_ERR_INVALID ''out of memory'' None None None)"

definition adt_type_new :: "(nat \<Rightarrow> bool) \<Rightarrow> (nat \<Rightarrow> bool) \<Rightarrow> adt_ctx \<Rightarrow> string option \<Rightarrow> nat \<Rightarrow> adt_ctx \<times> tref option" where
  "adt_type_new ag hg ctx name parameter_count =
     (case name of None \<Rightarrow> (ctx, None)
      | Some name \<Rightarrow>
      case adt_i_next_type_id ctx of (ctx, i) \<Rightarrow>
     (case adt_i_strdup ag ctx name of
        (ctx, None) \<Rightarrow> (adt_i_oom_none ag ctx, None)
      | (ctx, Some n) \<Rightarrow>
     (case adt_i_make_hm_name ag ctx i of
        (ctx, None) \<Rightarrow> (adt_i_oom_none ag ctx, None)
      | (ctx, Some hm_name) \<Rightarrow>
     (case adt_i_alloc ag ctx of (ctx, ok) \<Rightarrow>
        if \<not> ok then (adt_i_oom_none ag ctx, None)
        else
          let org = ax_origin ctx in
          (case adt_i_type_alloc_params ag hg ctx parameter_count of
             (ctx, None) \<Rightarrow> (adt_i_oom_none ag ctx, None)
           | (ctx, Some params) \<Rightarrow>
          (case adt_i_register_type ag ctx \<lparr>ay_name = n, ay_hm_name = hm_name, ay_params = params, ay_ctors = [],
                  ay_ctor_cap = 0, ay_sealed = False, ay_origin = org\<rparr> of (ctx, reg) \<Rightarrow>
             if \<not> reg then (adt_i_oom_none ag ctx, None) else (ctx, Some (length (ax_types ctx) - 1))))))))"

definition adt_type_name :: "adt_ctx \<Rightarrow> tref option \<Rightarrow> string" where
  "adt_type_name ctx ty = (case ty of None \<Rightarrow> [] | Some ty \<Rightarrow> ay_name (the_type ctx ty))"

definition adt_type_parameter_count :: "adt_ctx \<Rightarrow> tref option \<Rightarrow> nat" where
  "adt_type_parameter_count ctx ty = (case ty of None \<Rightarrow> 0 | Some ty \<Rightarrow> length (ay_params (the_type ctx ty)))"

definition adt_type_parameter :: "adt_ctx \<Rightarrow> tref option \<Rightarrow> nat \<Rightarrow> tptr option" where
  "adt_type_parameter ctx ty index =
     (case ty of None \<Rightarrow> None
      | Some ty \<Rightarrow> let ps = ay_params (the_type ctx ty) in if length ps \<le> index then None else Some (ps ! index))"

definition adt_i_args_arity :: "(nat \<Rightarrow> bool) \<Rightarrow> adt_ctx \<Rightarrow> tref \<Rightarrow> nat \<Rightarrow> adt_ctx \<times> adt_status" where
  "adt_i_args_arity ag ctx ty count =
     (if count = length (ay_params (the_type ctx ty)) then (ctx, ADT_OK)
      else adt_i_fail ag ctx ADT_ERROR_WRONG_ARITY ADT_ERR_WRONG_TYPE_ARITY ''wrong type-application arity'' (Some ty) None None)"

definition adt_i_args_present :: "(nat \<Rightarrow> bool) \<Rightarrow> adt_ctx \<Rightarrow> tref \<Rightarrow> nat \<Rightarrow> tptr option list option \<Rightarrow> adt_ctx \<times> adt_status" where
  "adt_i_args_present ag ctx ty count args =
     (if args \<noteq> None then (ctx, ADT_OK) else if count = 0 then (ctx, ADT_OK)
      else adt_i_fail ag ctx ADT_ERROR_INVALID ADT_ERR_INVALID ''null arguments'' (Some ty) None None)"

definition adt_i_args_elements :: "(nat \<Rightarrow> bool) \<Rightarrow> adt_ctx \<Rightarrow> tref \<Rightarrow> tptr option list \<Rightarrow> adt_ctx \<times> adt_status" where
  "adt_i_args_elements ag ctx ty args =
     (if list_ex (\<lambda>a. a = None) args
      then adt_i_fail ag ctx ADT_ERROR_INVALID ADT_ERR_INVALID ''null argument'' (Some ty) None None
      else (ctx, ADT_OK))"

text \<open>The elements of an argument array; the array may be null when there are none.\<close>

definition elements :: "'a list option \<Rightarrow> 'a list" where
  "elements xs = (case xs of None \<Rightarrow> [] | Some xs \<Rightarrow> xs)"

definition adt_i_check_args :: "(nat \<Rightarrow> bool) \<Rightarrow> adt_ctx \<Rightarrow> tref \<Rightarrow> nat \<Rightarrow> tptr option list option \<Rightarrow> adt_ctx \<times> adt_status" where
  "adt_i_check_args ag ctx ty count args =
     seq_ok ADT_OK (adt_i_args_arity ag ctx ty count) (\<lambda>ctx.
     seq_ok ADT_OK (adt_i_args_present ag ctx ty count args) (\<lambda>ctx.
     adt_i_args_elements ag ctx ty (elements args)))"

definition adt_type_apply :: "(nat \<Rightarrow> bool) \<Rightarrow> (nat \<Rightarrow> bool) \<Rightarrow> adt_ctx \<Rightarrow> tref option \<Rightarrow> nat \<Rightarrow> tptr option list option
    \<Rightarrow> adt_ctx \<times> tptr option" where
  "adt_type_apply ag hg ctx ty count args =
     (case ty of None \<Rightarrow> (ctx, None)
      | Some ty \<Rightarrow>
      case adt_i_check_args ag ctx ty count args of (ctx, st) \<Rightarrow>
        if st \<noteq> ADT_OK then (ctx, None)
        else case hm_type_con hg (ax_hm ctx) (ay_hm_name (the_type ctx ty)) (map the (elements args)) of
          (hm, t) \<Rightarrow> (ctx\<lparr>ax_hm := hm\<rparr>, t))"

definition adt_type_sealed :: "adt_ctx \<Rightarrow> tref option \<Rightarrow> bool" where
  "adt_type_sealed ctx ty = (case ty of None \<Rightarrow> False | Some ty \<Rightarrow> ay_sealed (the_type ctx ty))"

definition adt_type_ctor_count :: "adt_ctx \<Rightarrow> tref option \<Rightarrow> nat" where
  "adt_type_ctor_count ctx ty = (case ty of None \<Rightarrow> 0 | Some ty \<Rightarrow> length (ay_ctors (the_type ctx ty)))"

definition adt_type_ctor :: "adt_ctx \<Rightarrow> tref option \<Rightarrow> nat \<Rightarrow> cref option" where
  "adt_type_ctor ctx ty index =
     (case ty of None \<Rightarrow> None
      | Some ty \<Rightarrow> if length (ay_ctors (the_type ctx ty)) \<le> index then None else Some (ty, index))"

end
