(* ===== verification/Adt_Decl.thy ===== *)
theory Adt_Decl
  imports Adt_Type
begin

text \<open>
  \<open>libadt89\<close>, constructors, sealing and patterns (\<open>adt_ctor.c\<close>, \<open>adt_scheme.c\<close>, \<open>adt_bind.c\<close>, \<open>adt_pattern.c\<close>).
\<close>

section \<open>Constructors\<close>

definition adt_i_fields_valid :: "(nat \<Rightarrow> bool) \<Rightarrow> adt_ctx \<Rightarrow> tref \<Rightarrow> nat \<Rightarrow> tptr option list option \<Rightarrow> adt_ctx \<times> bool" where
  "adt_i_fields_valid ag ctx owner count fts =
     (if count = 0 then (ctx, True)
      else case fts of
        None \<Rightarrow> (fst (adt_i_fail ag ctx ADT_ERROR_INVALID ADT_ERR_INVALID ''null field types'' (Some owner) None None), False)
      | Some fs \<Rightarrow>
          if list_ex (\<lambda>f. f = None) fs
          then (fst (adt_i_fail ag ctx ADT_ERROR_INVALID ADT_ERR_INVALID ''null field type'' (Some owner) None None), False)
          else (ctx, True))"

definition adt_i_ctor_copy_fields :: "(nat \<Rightarrow> bool) \<Rightarrow> adt_ctx \<Rightarrow> nat \<Rightarrow> tptr option list option \<Rightarrow> adt_ctx \<times> tptr list option" where
  "adt_i_ctor_copy_fields ag ctx count fts =
     (if count = 0 then (ctx, Some [])
      else case adt_i_alloc ag ctx of (ctx, ok) \<Rightarrow> (ctx, if \<not> ok then None else Some (map the (elements fts))))"

definition adt_i_ctor_append :: "(nat \<Rightarrow> bool) \<Rightarrow> adt_ctx \<Rightarrow> tref \<Rightarrow> adt_ctor \<Rightarrow> adt_ctx \<times> bool" where
  "adt_i_ctor_append ag ctx owner c =
     (let d = the_type ctx owner in
      case adt_i_grow ag ctx (length (ay_ctors d)) (ay_ctor_cap d) of
        (ctx, None) \<Rightarrow> (ctx, False)
      | (ctx, Some cap) \<Rightarrow> (set_type ctx owner (d\<lparr>ay_ctor_cap := cap, ay_ctors := ay_ctors d @ [c]\<rparr>), True))"

definition adt_ctor_add :: "(nat \<Rightarrow> bool) \<Rightarrow> adt_ctx \<Rightarrow> tref option \<Rightarrow> string option \<Rightarrow> nat \<Rightarrow> tptr option list option
    \<Rightarrow> adt_ctx \<times> cref option" where
  "adt_ctor_add ag ctx owner name count fts =
     (case owner of None \<Rightarrow> (ctx, None)
      | Some owner \<Rightarrow>
     (case name of None \<Rightarrow> (ctx, None)
      | Some name \<Rightarrow>
      if ay_sealed (the_type ctx owner)
      then (fst (adt_i_fail ag ctx ADT_ERROR_SEALED ADT_ERR_SEALED ''cannot add a constructor to a sealed type'' (Some owner) None None), None)
      else if adt_i_ctx_has_ctor_name ctx name
      then (fst (adt_i_fail ag ctx ADT_ERROR_DUPLICATE_CTOR ADT_ERR_DUPLICATE_CTOR ''duplicate constructor name'' (Some owner) None None), None)
      else case adt_i_fields_valid ag ctx owner count fts of (ctx, valid) \<Rightarrow>
        if \<not> valid then (ctx, None)
        else case adt_i_alloc ag ctx of (ctx, ok) \<Rightarrow>
          if \<not> ok then (fst (adt_i_fail ag ctx ADT_ERROR_NOMEM ADT_ERR_INVALID ''out of memory'' (Some owner) None None), None)
          else
            let org = ax_origin ctx in
            (case adt_i_strdup ag ctx name of
               (ctx, None) \<Rightarrow> (ctx, None)
             | (ctx, Some n) \<Rightarrow>
            (case adt_i_ctor_copy_fields ag ctx count fts of
               (ctx, None) \<Rightarrow> (ctx, None)
             | (ctx, Some fs) \<Rightarrow>
            (case adt_i_ctor_append ag ctx owner \<lparr>ac_owner = owner, ac_name = n, ac_fields = fs, ac_scheme = Absent, ac_origin = org\<rparr> of
               (ctx, app) \<Rightarrow>
                 if \<not> app then (ctx, None) else (ctx, Some (owner, length (ay_ctors (the_type ctx owner)) - 1)))))))"

definition adt_ctor_name :: "adt_ctx \<Rightarrow> cref option \<Rightarrow> string" where
  "adt_ctor_name ctx c = (case c of None \<Rightarrow> [] | Some c \<Rightarrow> ac_name (the_ctor ctx c))"

definition adt_ctor_owner :: "adt_ctx \<Rightarrow> cref option \<Rightarrow> tref option" where
  "adt_ctor_owner ctx c = (case c of None \<Rightarrow> None | Some c \<Rightarrow> Some (ac_owner (the_ctor ctx c)))"

definition adt_ctor_field_count :: "adt_ctx \<Rightarrow> cref option \<Rightarrow> nat" where
  "adt_ctor_field_count ctx c = (case c of None \<Rightarrow> 0 | Some c \<Rightarrow> length (ac_fields (the_ctor ctx c)))"

definition adt_ctor_field_type :: "adt_ctx \<Rightarrow> cref option \<Rightarrow> nat \<Rightarrow> tptr option" where
  "adt_ctor_field_type ctx c index =
     (case c of None \<Rightarrow> None
      | Some c \<Rightarrow> let fs = ac_fields (the_ctor ctx c) in if length fs \<le> index then None else Some (fs ! index))"

section \<open>Sealing\<close>

definition adt_i_find_parameter :: "adt_type \<Rightarrow> tptr \<Rightarrow> adt_status" where
  "adt_i_find_parameter d v = (if list_ex (\<lambda>p. p = v) (ay_params d) then ADT_OK else ADT_ERROR_TYPE)"

definition adt_i_check_var :: "(nat \<Rightarrow> bool) \<Rightarrow> adt_ctx \<Rightarrow> tref \<Rightarrow> tptr \<Rightarrow> adt_ctx \<times> adt_status" where
  "adt_i_check_var ag ctx ty p =
     (let st = adt_i_find_parameter (the_type ctx ty) p in
      if st \<noteq> ADT_OK
      then (fst (adt_i_fail ag ctx ADT_ERROR_TYPE ADT_ERR_INVALID
              ''field type has a free variable outside the datatype parameters'' (Some ty) None None), st)
      else (ctx, ADT_OK))"

text \<open>The arguments of a pruned node are read where it lies: pruning it again changes nothing.\<close>

fun adt_i_check_node :: "(nat \<Rightarrow> bool) \<Rightarrow> nat \<Rightarrow> adt_ctx \<Rightarrow> tref \<Rightarrow> tptr \<Rightarrow> (adt_ctx \<times> adt_status) option"
  and adt_i_check_con :: "(nat \<Rightarrow> bool) \<Rightarrow> nat \<Rightarrow> adt_ctx \<Rightarrow> tref \<Rightarrow> tptr list \<Rightarrow> (adt_ctx \<times> adt_status) option" where
  "adt_i_check_node ag 0 ctx ty t = None"
| "adt_i_check_node ag (Suc n) ctx ty t =
     do { (ns, p) \<leftarrow> hm_type_prune (ctx_nodes (ax_hm ctx)) t;
          let ctx = ctx\<lparr>ax_hm := (ax_hm ctx)\<lparr>ctx_nodes := ns\<rparr>\<rparr>;
          case ns ! p of
            TVar i l \<Rightarrow> Some (adt_i_check_var ag ctx ty p)
          | TCon f args \<Rightarrow> adt_i_check_con ag n ctx ty args }"
| "adt_i_check_con ag n ctx ty [] = Some (ctx, ADT_OK)"
| "adt_i_check_con ag n ctx ty (a # as) =
     do { (ctx, st) \<leftarrow> adt_i_check_node ag n ctx ty a;
          if st \<noteq> ADT_OK then Some (ctx, st) else adt_i_check_con ag n ctx ty as }"

definition adt_i_check_ctor :: "(nat \<Rightarrow> bool) \<Rightarrow> nat \<Rightarrow> adt_ctx \<Rightarrow> tref \<Rightarrow> adt_ctor \<Rightarrow> (adt_ctx \<times> adt_status) option" where
  "adt_i_check_ctor ag n ctx ty c = adt_i_check_con ag n ctx ty (ac_fields c)"

fun adt_i_validate :: "(nat \<Rightarrow> bool) \<Rightarrow> nat \<Rightarrow> adt_ctx \<Rightarrow> tref \<Rightarrow> adt_ctor list \<Rightarrow> (adt_ctx \<times> adt_status) option" where
  "adt_i_validate ag n ctx ty [] = Some (ctx, ADT_OK)"
| "adt_i_validate ag n ctx ty (c # cs) =
     do { (ctx, st) \<leftarrow> adt_i_check_ctor ag n ctx ty c;
          if st \<noteq> ADT_OK then Some (ctx, st) else adt_i_validate ag n ctx ty cs }"

definition adt_i_make_result :: "(nat \<Rightarrow> bool) \<Rightarrow> (nat \<Rightarrow> bool) \<Rightarrow> adt_ctx \<Rightarrow> tref \<Rightarrow> adt_ctx \<times> tptr option" where
  "adt_i_make_result ag hg ctx ty =
     (let ps = ay_params (the_type ctx ty) in
      adt_type_apply ag hg ctx (Some ty) (length ps) (if ps = [] then None else Some (map Some ps)))"

text \<open>
  A function type whose result is a null pointer is not null itself. Its node is given its argument only;
  it is not referred to by any type that is whole.
\<close>

definition adt_i_fold_field :: "(nat \<Rightarrow> bool) \<Rightarrow> tptr \<Rightarrow> adt_ctx \<times> tptr built \<Rightarrow> adt_ctx \<times> tptr built" where
  "adt_i_fold_field hg field =
     (\<lambda>(ctx, body). case body of
        Whole b \<Rightarrow> (case hm_type_fun hg (ax_hm ctx) field b of
            (hm, None) \<Rightarrow> (ctx\<lparr>ax_hm := hm\<rparr>, Absent) | (hm, Some t) \<Rightarrow> (ctx\<lparr>ax_hm := hm\<rparr>, Whole t))
      | _ \<Rightarrow> (case hm_type_con hg (ax_hm ctx) ''->'' [field] of
            (hm, None) \<Rightarrow> (ctx\<lparr>ax_hm := hm\<rparr>, Absent) | (hm, Some t) \<Rightarrow> (ctx\<lparr>ax_hm := hm\<rparr>, Holed)))"

definition adt_i_make_body :: "(nat \<Rightarrow> bool) \<Rightarrow> adt_ctx \<Rightarrow> tptr \<Rightarrow> adt_ctor \<Rightarrow> adt_ctx \<times> tptr built" where
  "adt_i_make_body hg ctx res c = fold (adt_i_fold_field hg) (rev (ac_fields c)) (ctx, Whole res)"

definition set_scheme :: "adt_ctx \<Rightarrow> cref \<Rightarrow> hm_scheme built \<Rightarrow> adt_ctx" where
  "set_scheme ctx c sc =
     (let d = the_type ctx (fst c)
      in set_type ctx (fst c) (d\<lparr>ay_ctors := (ay_ctors d)[snd c := (ay_ctors d ! snd c)\<lparr>ac_scheme := sc\<rparr>]\<rparr>))"

definition adt_i_gen_one :: "(nat \<Rightarrow> bool) \<Rightarrow> (nat \<Rightarrow> bool) \<Rightarrow> adt_ctx \<Rightarrow> cref \<Rightarrow> tptr \<Rightarrow> (adt_ctx \<times> adt_status) option" where
  "adt_i_gen_one ag hg ctx c res =
     (let ty = fst c in
      case adt_i_make_body hg ctx res (the_ctor ctx c) of (ctx, body) \<Rightarrow>
        if body = Absent
        then Some (fst (adt_i_fail ag ctx ADT_ERROR_NOMEM ADT_ERR_INVALID ''out of memory'' (Some ty) (Some c) None), ADT_ERROR_NOMEM)
        else do { (hm, sc) \<leftarrow> hm_scheme_new hg (ax_hm ctx) (ay_params (the_type ctx ty)) (Some (case body of Whole b \<Rightarrow> b | _ \<Rightarrow> 0));
                  let ctx = ctx\<lparr>ax_hm := hm\<rparr>;
                  Some (case sc of
                    None \<Rightarrow> (fst (adt_i_fail ag ctx ADT_ERROR_NOMEM ADT_ERR_INVALID ''scheme generation failed'' (Some ty) (Some c) None),
                             ADT_ERROR_NOMEM)
                  | Some sc \<Rightarrow> (set_scheme ctx c (case body of Whole b \<Rightarrow> Whole sc | _ \<Rightarrow> Holed), ADT_OK)) })"

fun adt_i_generate :: "(nat \<Rightarrow> bool) \<Rightarrow> (nat \<Rightarrow> bool) \<Rightarrow> adt_ctx \<Rightarrow> tref \<Rightarrow> tptr \<Rightarrow> nat list \<Rightarrow> (adt_ctx \<times> adt_status) option" where
  "adt_i_generate ag hg ctx ty res [] = Some (ctx, ADT_OK)"
| "adt_i_generate ag hg ctx ty res (i # is) =
     do { (ctx, st) \<leftarrow> adt_i_gen_one ag hg ctx (ty, i) res;
          if st \<noteq> ADT_OK then Some (ctx, st) else adt_i_generate ag hg ctx ty res is }"

definition adt_type_seal :: "(nat \<Rightarrow> bool) \<Rightarrow> (nat \<Rightarrow> bool) \<Rightarrow> nat \<Rightarrow> adt_ctx \<Rightarrow> tref option \<Rightarrow> (adt_ctx \<times> adt_status) option" where
  "adt_type_seal ag hg n ctx ty =
     (case ty of None \<Rightarrow> Some (ctx, ADT_ERROR_INVALID)
      | Some ty \<Rightarrow>
      if ay_sealed (the_type ctx ty) then Some (ctx, ADT_OK)
      else do { (ctx, st) \<leftarrow> adt_i_validate ag n ctx ty (ay_ctors (the_type ctx ty));
                if st \<noteq> ADT_OK then Some (ctx, st)
                else case adt_i_make_result ag hg ctx ty of
                  (ctx, None) \<Rightarrow> Some (ctx, ADT_ERROR_NOMEM)
                | (ctx, Some res) \<Rightarrow>
                  do { (ctx, st) \<leftarrow> adt_i_generate ag hg ctx ty res [0..<length (ay_ctors (the_type ctx ty))];
                       if st \<noteq> ADT_OK then Some (ctx, st)
                       else Some (set_type ctx ty ((the_type ctx ty)\<lparr>ay_sealed := True\<rparr>), ADT_OK) } })"

definition adt_ctor_scheme :: "adt_ctx \<Rightarrow> cref option \<Rightarrow> hm_scheme built" where
  "adt_ctor_scheme ctx c = (case c of None \<Rightarrow> Absent | Some c \<Rightarrow> ac_scheme (the_ctor ctx c))"

section \<open>Environments\<close>

definition adt_i_translate :: "hm_status \<Rightarrow> adt_status" where
  "adt_i_translate st = (if st = HM_OK then ADT_OK else if st = HM_ERROR_NOMEM then ADT_ERROR_NOMEM else ADT_ERROR_INVALID)"

definition adt_i_bind_fail :: "(nat \<Rightarrow> bool) \<Rightarrow> adt_ctx \<Rightarrow> cref \<Rightarrow> hm_status \<Rightarrow> adt_ctx \<times> adt_status" where
  "adt_i_bind_fail ag ctx c st =
     (let ast = adt_i_translate st
      in (fst (adt_i_fail ag ctx ast ADT_ERR_INVALID ''environment bind failed'' (Some (fst c)) (Some c) None), ast))"

text \<open>An environment that holds a scheme with a null pointer inside has no model: \<open>None\<close>.\<close>

definition adt_i_bind_one :: "(nat \<Rightarrow> bool) \<Rightarrow> (nat \<Rightarrow> bool) \<Rightarrow> adt_ctx \<Rightarrow> cref \<Rightarrow> nat \<Rightarrow> (adt_ctx \<times> adt_status) option" where
  "adt_i_bind_one ag hg ctx c env =
     (case ac_scheme (the_ctor ctx c) of
        Holed \<Rightarrow> None
      | sc \<Rightarrow>
        (case hm_env_bind hg (ax_hm ctx) env (ac_name (the_ctor ctx c)) (case sc of Whole s \<Rightarrow> Some s | _ \<Rightarrow> None) of
           (hm, st) \<Rightarrow>
             let ctx = ctx\<lparr>ax_hm := hm\<rparr> in
             Some (if st \<noteq> HM_OK then adt_i_bind_fail ag ctx c st else (ctx, ADT_OK))))"

fun bind_ctors :: "(nat \<Rightarrow> bool) \<Rightarrow> (nat \<Rightarrow> bool) \<Rightarrow> adt_ctx \<Rightarrow> tref \<Rightarrow> nat \<Rightarrow> nat list \<Rightarrow> (adt_ctx \<times> adt_status) option" where
  "bind_ctors ag hg ctx ty env [] = Some (ctx, ADT_OK)"
| "bind_ctors ag hg ctx ty env (i # is) =
     do { (ctx, st) \<leftarrow> adt_i_bind_one ag hg ctx (ty, i) env;
          if st \<noteq> ADT_OK then Some (ctx, st) else bind_ctors ag hg ctx ty env is }"

definition adt_type_bind :: "(nat \<Rightarrow> bool) \<Rightarrow> (nat \<Rightarrow> bool) \<Rightarrow> adt_ctx \<Rightarrow> tref option \<Rightarrow> nat option \<Rightarrow> (adt_ctx \<times> adt_status) option" where
  "adt_type_bind ag hg ctx ty env =
     (case ty of None \<Rightarrow> Some (ctx, ADT_ERROR_INVALID)
      | Some ty \<Rightarrow>
     (case env of
        None \<Rightarrow> Some (fst (adt_i_fail ag ctx ADT_ERROR_INVALID ADT_ERR_INVALID ''null environment'' (Some ty) None None), ADT_ERROR_INVALID)
      | Some env \<Rightarrow>
        if \<not> ay_sealed (the_type ctx ty)
        then Some (fst (adt_i_fail ag ctx ADT_ERROR_UNSEALED ADT_ERR_UNSEALED ''cannot bind an unsealed type'' (Some ty) None None), ADT_ERROR_UNSEALED)
        else bind_ctors ag hg ctx ty env [0..<length (ay_ctors (the_type ctx ty))]))"

fun bind_types :: "(nat \<Rightarrow> bool) \<Rightarrow> (nat \<Rightarrow> bool) \<Rightarrow> adt_ctx \<Rightarrow> nat option \<Rightarrow> tref list \<Rightarrow> (adt_ctx \<times> adt_status) option" where
  "bind_types ag hg ctx env [] = Some (ctx, ADT_OK)"
| "bind_types ag hg ctx env (ty # tys) =
     do { (ctx, st) \<leftarrow> adt_type_bind ag hg ctx (Some ty) env;
          if st \<noteq> ADT_OK then Some (ctx, st) else bind_types ag hg ctx env tys }"

definition adt_ctx_bind_all :: "(nat \<Rightarrow> bool) \<Rightarrow> (nat \<Rightarrow> bool) \<Rightarrow> adt_ctx \<Rightarrow> nat option \<Rightarrow> (adt_ctx \<times> adt_status) option" where
  "adt_ctx_bind_all ag hg ctx env = bind_types ag hg ctx env [0..<length (ax_types ctx)]"

section \<open>Typing of constructor patterns\<close>

definition adt_i_is_fun :: "adt_ctx \<Rightarrow> tptr \<Rightarrow> (adt_ctx \<times> (tptr \<times> tptr) option) option" where
  "adt_i_is_fun ctx node =
     do { (ns, p) \<leftarrow> hm_type_prune (ctx_nodes (ax_hm ctx)) node;
          Some (ctx\<lparr>ax_hm := (ax_hm ctx)\<lparr>ctx_nodes := ns\<rparr>\<rparr>,
                case ns ! p of
                  TVar i l \<Rightarrow> None
                | TCon f args \<Rightarrow> if f \<noteq> ''->'' then None else (case args of [a, b] \<Rightarrow> Some (a, b) | _ \<Rightarrow> None)) }"

text \<open>One field per constructor field; the rest is the result type.\<close>

fun adt_i_decompose :: "(nat \<Rightarrow> bool) \<Rightarrow> adt_ctx \<Rightarrow> cref \<Rightarrow> tptr \<Rightarrow> nat \<Rightarrow> (adt_ctx \<times> adt_status \<times> tptr list \<times> tptr) option" where
  "adt_i_decompose ag ctx c cur 0 = Some (ctx, ADT_OK, [], cur)"
| "adt_i_decompose ag ctx c cur (Suc k) =
     do { (ctx, f) \<leftarrow> adt_i_is_fun ctx cur;
          case f of
            None \<Rightarrow> Some (fst (adt_i_fail ag ctx ADT_ERROR_TYPE ADT_ERR_INVALID ''constructor scheme is not a function'' (Some (fst c)) (Some c) None),
                          ADT_ERROR_TYPE, [], cur)
          | Some (a, b) \<Rightarrow>
              do { (ctx, st, fs, res) \<leftarrow> adt_i_decompose ag ctx c b k; Some (ctx, st, a # fs, res) } }"

definition adt_i_pattern_check :: "(nat \<Rightarrow> bool) \<Rightarrow> adt_ctx \<Rightarrow> cref option \<Rightarrow> tptr option \<Rightarrow> nat \<Rightarrow> adt_ctx \<times> adt_status" where
  "adt_i_pattern_check ag ctx ctor scrutinee count =
     (case ctor of
        None \<Rightarrow> adt_i_fail ag ctx ADT_ERROR_INVALID ADT_ERR_INVALID ''null constructor or scrutinee'' None None None
      | Some c \<Rightarrow>
        if scrutinee = None
        then adt_i_fail ag ctx ADT_ERROR_INVALID ADT_ERR_INVALID ''null constructor or scrutinee'' None None None
        else if count \<noteq> length (ac_fields (the_ctor ctx c))
        then adt_i_fail ag ctx ADT_ERROR_PATTERN_ARITY ADT_ERR_WRONG_PATTERN_ARITY ''wrong constructor-pattern arity'' (Some (fst c)) (Some c) None
        else if \<not> ay_sealed (the_type ctx (fst c))
        then adt_i_fail ag ctx ADT_ERROR_UNSEALED ADT_ERR_UNSEALED ''cannot pattern-match an unsealed type'' (Some (fst c)) (Some c) None
        else (ctx, ADT_OK))"

fun adt_i_prune_fields :: "adt_ctx \<Rightarrow> tptr list \<Rightarrow> (adt_ctx \<times> tptr list) option" where
  "adt_i_prune_fields ctx [] = Some (ctx, [])"
| "adt_i_prune_fields ctx (f # fs) =
     do { (ns, p) \<leftarrow> hm_type_prune (ctx_nodes (ax_hm ctx)) f;
          (ctx, ps) \<leftarrow> adt_i_prune_fields (ctx\<lparr>ax_hm := (ax_hm ctx)\<lparr>ctx_nodes := ns\<rparr>\<rparr>) fs;
          Some (ctx, p # ps) }"

text \<open>
  The fields are \<open>[]\<close> when the code leaves the array of its caller unfinished. Instantiating a scheme with a
  null pointer inside is undefined, \<open>None\<close>. \<open>want\<close> tells whether the caller passed a place for the error.
\<close>

definition adt_pattern_types :: "(nat \<Rightarrow> bool) \<Rightarrow> (nat \<Rightarrow> bool) \<Rightarrow> nat \<Rightarrow> adt_ctx \<Rightarrow> cref option \<Rightarrow> tptr option \<Rightarrow> nat \<Rightarrow> bool
    \<Rightarrow> (adt_ctx \<times> adt_status \<times> tptr list \<times> hm_error option) option" where
  "adt_pattern_types ag hg n ctx ctor scrutinee count want =
     (case adt_i_pattern_check ag ctx ctor scrutinee count of (ctx, st) \<Rightarrow>
        if st \<noteq> ADT_OK then Some (ctx, st, [], None)
        else let c = the ctor; fail = (\<lambda>ctx status knd msg e. fst (adt_i_fail ag ctx status knd msg (Some (fst c)) (Some c) e)) in
          case ac_scheme (the_ctor ctx c) of
            Whole sc \<Rightarrow>
              do { (hm, inst) \<leftarrow> hm_instantiate hg n (ax_hm ctx) sc;
                   let ctx = ctx\<lparr>ax_hm := hm\<rparr>;
                   case inst of
                     None \<Rightarrow> Some (fail ctx ADT_ERROR_NOMEM ADT_ERR_INVALID ''out of memory'' None, ADT_ERROR_NOMEM, [], None)
                   | Some t \<Rightarrow>
                     do { (ctx, st, fs, res) \<leftarrow> adt_i_decompose ag ctx c t (length (ac_fields (the_ctor ctx c)));
                          if st \<noteq> ADT_OK then Some (ctx, st, [], None)
                          else do { (hm, hst, e) \<leftarrow> hm_unify hg n (ax_hm ctx) res (the scrutinee) want;
                                    let ctx = ctx\<lparr>ax_hm := hm\<rparr>;
                                    if hst \<noteq> HM_OK
                                    then Some (fail ctx ADT_ERROR_TYPE ADT_ERR_HM ''pattern type mismatch'' e, ADT_ERROR_TYPE, [], e)
                                    else do { (ctx, fs) \<leftarrow> adt_i_prune_fields ctx fs; Some (ctx, ADT_OK, fs, e) } } } }
          | _ \<Rightarrow> None)"

section \<open>Patterns\<close>

definition adt_pattern_wildcard :: "(nat \<Rightarrow> bool) \<Rightarrow> adt_ctx \<Rightarrow> adt_ctx \<times> adt_pattern option" where
  "adt_pattern_wildcard ag ctx =
     (case adt_i_alloc ag ctx of (ctx, ok) \<Rightarrow>
        if \<not> ok then (ctx, None)
        else case adt_i_register_pattern ag ctx ADT_PATTERN_WILDCARD of (ctx, reg) \<Rightarrow>
          (ctx, if \<not> reg then None else Some ADT_PATTERN_WILDCARD))"

definition adt_i_ctor_pattern_args :: "(nat \<Rightarrow> bool) \<Rightarrow> adt_ctx \<Rightarrow> nat \<Rightarrow> adt_pattern option list option \<Rightarrow> adt_ctx \<times> adt_pattern option list option" where
  "adt_i_ctor_pattern_args ag ctx count args =
     (if count = 0 then (ctx, Some [])
      else case adt_i_alloc ag ctx of (ctx, ok) \<Rightarrow> (ctx, if \<not> ok then None else Some (elements args)))"

definition adt_pattern_ctor :: "(nat \<Rightarrow> bool) \<Rightarrow> adt_ctx \<Rightarrow> cref option \<Rightarrow> nat \<Rightarrow> adt_pattern option list option \<Rightarrow> adt_ctx \<times> adt_pattern option" where
  "adt_pattern_ctor ag ctx ctor count args =
     (case ctor of None \<Rightarrow> (ctx, None)
      | Some c \<Rightarrow>
      if \<not> ay_sealed (the_type ctx (fst c))
      then (fst (adt_i_fail ag ctx ADT_ERROR_UNSEALED ADT_ERR_UNSEALED ''cannot pattern-match an unsealed type'' (Some (fst c)) (Some c) None), None)
      else if count \<noteq> length (ac_fields (the_ctor ctx c))
      then (fst (adt_i_fail ag ctx ADT_ERROR_PATTERN_ARITY ADT_ERR_WRONG_PATTERN_ARITY ''wrong constructor-pattern arity'' (Some (fst c)) (Some c) None), None)
      else if args = None \<and> count \<noteq> 0
      then (fst (adt_i_fail ag ctx ADT_ERROR_INVALID ADT_ERR_INVALID ''null pattern arguments'' (Some (fst c)) (Some c) None), None)
      else case adt_i_alloc ag ctx of (ctx, ok) \<Rightarrow>
        if \<not> ok then (ctx, None)
        else
          (case adt_i_ctor_pattern_args ag ctx count args of
             (ctx, None) \<Rightarrow> (ctx, None)
           | (ctx, Some as) \<Rightarrow>
             let p = ADT_PATTERN_CTOR c as in
             (case adt_i_register_pattern ag ctx p of (ctx, reg) \<Rightarrow> (ctx, if \<not> reg then None else Some p))))"

end
