(* ===== verification/Adt_Match.thy ===== *)
theory Adt_Match
  imports Adt_Decl
begin

text \<open>
  \<open>libadt89\<close>, exhaustiveness and redundancy (\<open>adt_match.c\<close>). A row is the list of its columns, a column a pattern
  that may be null; \<open>-1\<close>, \<open>0\<close> and \<open>1\<close> are out of memory, useless and useful, as in the code. The recursion takes the
  depth of calls it may use and is \<open>None\<close> when it would go deeper.
\<close>

type_synonym adt_i_row = "adt_pattern option list"

definition adt_i_wc :: "adt_pattern option \<Rightarrow> bool" where
  "adt_i_wc p = (case p of None \<Rightarrow> True | Some ADT_PATTERN_WILDCARD \<Rightarrow> True | Some (ADT_PATTERN_CTOR c as) \<Rightarrow> False)"

text \<open>The constructor and the arguments of a pattern that is no wildcard.\<close>

definition pat_ctor :: "adt_pattern option \<Rightarrow> cref" where
  "pat_ctor p = (case p of Some (ADT_PATTERN_CTOR c as) \<Rightarrow> c | _ \<Rightarrow> (0, 0))"

definition pat_args :: "adt_pattern option \<Rightarrow> adt_pattern option list" where
  "pat_args p = (case p of Some (ADT_PATTERN_CTOR c as) \<Rightarrow> as | _ \<Rightarrow> [])"

definition adt_i_temp_alloc :: "(nat \<Rightarrow> bool) \<Rightarrow> adt_ctx \<Rightarrow> adt_ctx \<times> bool" where
  "adt_i_temp_alloc ag ctx = (ctx\<lparr>ax_allocs := Suc (ax_allocs ctx)\<rparr>, ag (ax_allocs ctx))"

definition adt_i_row_all_wild :: "adt_i_row \<Rightarrow> bool" where
  "adt_i_row_all_wild row = list_all adt_i_wc row"

definition adt_i_name_matches :: "adt_type \<Rightarrow> string \<Rightarrow> bool" where
  "adt_i_name_matches d name \<longleftrightarrow> ay_hm_name d = name"

definition adt_i_family_for_name :: "adt_ctx \<Rightarrow> string \<Rightarrow> tref option" where
  "adt_i_family_for_name ctx name = List.find (\<lambda>i. adt_i_name_matches (the_type ctx i) name) [0..<length (ax_types ctx)]"

definition adt_i_field_family :: "adt_ctx \<Rightarrow> cref \<Rightarrow> nat \<Rightarrow> (adt_ctx \<times> tref option) option" where
  "adt_i_field_family ctx ctor index =
     do { (ns, p) \<leftarrow> hm_type_prune (ctx_nodes (ax_hm ctx)) (ac_fields (the_ctor ctx ctor) ! index);
          let ctx = ctx\<lparr>ax_hm := (ax_hm ctx)\<lparr>ctx_nodes := ns\<rparr>\<rparr>;
          Some (ctx, case ns ! p of TVar i l \<Rightarrow> None | TCon name args \<Rightarrow> adt_i_family_for_name ctx name) }"

section \<open>Specialisation\<close>

definition adt_i_head_val :: "bool \<Rightarrow> adt_i_row \<Rightarrow> nat \<Rightarrow> adt_pattern option" where
  "adt_i_head_val head_wild src k = (if head_wild then None else pat_args (src ! 0) ! k)"

definition adt_i_tail_val :: "adt_i_row \<Rightarrow> nat \<Rightarrow> nat \<Rightarrow> adt_pattern option" where
  "adt_i_tail_val src head_len k = (let t = k - head_len in src ! (t + 1))"

definition adt_i_fill_cell :: "adt_ctx \<Rightarrow> adt_i_row \<Rightarrow> cref \<Rightarrow> bool \<Rightarrow> nat \<Rightarrow> adt_pattern option" where
  "adt_i_fill_cell ctx src ctor head_wild k =
     (let head_len = length (ac_fields (the_ctor ctx ctor)) in
      if k < head_len then adt_i_head_val head_wild src k else adt_i_tail_val src head_len k)"

definition adt_i_fill_row :: "adt_ctx \<Rightarrow> nat \<Rightarrow> adt_i_row \<Rightarrow> cref \<Rightarrow> bool \<Rightarrow> adt_i_row" where
  "adt_i_fill_row ctx width src ctor head_wild = map (adt_i_fill_cell ctx src ctor head_wild) [0..<width]"

definition adt_i_spec_row :: "(nat \<Rightarrow> bool) \<Rightarrow> adt_ctx \<Rightarrow> cref \<Rightarrow> adt_i_row \<Rightarrow> adt_ctx \<times> adt_i_row option" where
  "adt_i_spec_row ag ctx ctor src =
     (case adt_i_temp_alloc ag ctx of (ctx, ok) \<Rightarrow>
        if \<not> ok then (ctx, None)
        else
          let head_wild = adt_i_wc (src ! 0) in
          if \<not> head_wild \<and> ctor \<noteq> pat_ctor (src ! 0) then (ctx, None)
          else
            let width = length (ac_fields (the_ctor ctx ctor)) + length src - 1 in
            (case adt_i_temp_alloc ag ctx of (ctx, ok) \<Rightarrow>
               if \<not> ok then (ctx, None) else (ctx, Some (adt_i_fill_row ctx width src ctor head_wild))))"

fun adt_i_spec_collect :: "(nat \<Rightarrow> bool) \<Rightarrow> adt_ctx \<Rightarrow> cref \<Rightarrow> adt_i_row list \<Rightarrow> adt_ctx \<times> adt_i_row list" where
  "adt_i_spec_collect ag ctx ctor [] = (ctx, [])"
| "adt_i_spec_collect ag ctx ctor (src # rows) =
     (case adt_i_spec_row ag ctx ctor src of (ctx, r) \<Rightarrow>
     (case adt_i_spec_collect ag ctx ctor rows of (ctx, dst) \<Rightarrow>
        (ctx, case r of None \<Rightarrow> dst | Some row \<Rightarrow> row # dst)))"

definition adt_i_specialize :: "(nat \<Rightarrow> bool) \<Rightarrow> adt_ctx \<Rightarrow> adt_i_row list \<Rightarrow> cref \<Rightarrow> adt_ctx \<times> adt_i_row list option" where
  "adt_i_specialize ag ctx rows ctor =
     (case adt_i_temp_alloc ag ctx of (ctx, ok) \<Rightarrow>
        if \<not> ok then (ctx, None)
        else case adt_i_spec_collect ag ctx ctor rows of (ctx, dst) \<Rightarrow> (ctx, Some dst))"

fun adt_i_fams_head :: "adt_ctx \<Rightarrow> cref \<Rightarrow> nat list \<Rightarrow> (adt_ctx \<times> tref option list) option" where
  "adt_i_fams_head ctx ctor [] = Some (ctx, [])"
| "adt_i_fams_head ctx ctor (i # is) =
     do { (ctx, f) \<leftarrow> adt_i_field_family ctx ctor i;
          (ctx, fs) \<leftarrow> adt_i_fams_head ctx ctor is;
          Some (ctx, f # fs) }"

definition adt_i_concat_fams :: "(nat \<Rightarrow> bool) \<Rightarrow> adt_ctx \<Rightarrow> cref \<Rightarrow> tref option list \<Rightarrow> (adt_ctx \<times> tref option list option) option" where
  "adt_i_concat_fams ag ctx ctor fams =
     (case adt_i_temp_alloc ag ctx of (ctx, ok) \<Rightarrow>
        if \<not> ok then Some (ctx, None)
        else do { (ctx, fs) \<leftarrow> adt_i_fams_head ctx ctor [0..<length (ac_fields (the_ctor ctx ctor))];
                  Some (ctx, Some (fs @ tl fams)) })"

definition adt_i_make_qcols :: "(nat \<Rightarrow> bool) \<Rightarrow> adt_ctx \<Rightarrow> cref \<Rightarrow> adt_i_row \<Rightarrow> bool \<Rightarrow> adt_ctx \<times> adt_i_row option" where
  "adt_i_make_qcols ag ctx ctor q head_wild =
     (let qwidth = length (ac_fields (the_ctor ctx ctor)) + length q - 1 in
      case adt_i_temp_alloc ag ctx of (ctx, ok) \<Rightarrow>
        (ctx, if \<not> ok then None else Some (adt_i_fill_row ctx qwidth q ctor head_wild)))"

section \<open>Usefulness\<close>

definition adt_i_ctor_covered :: "adt_i_row list \<Rightarrow> bool" where
  "adt_i_ctor_covered rows = list_ex adt_i_row_all_wild rows"

type_synonym usefulness = "adt_ctx \<Rightarrow> adt_i_row list \<Rightarrow> adt_i_row \<Rightarrow> tref option list \<Rightarrow> (adt_ctx \<times> int) option"

text \<open>
  The mutual recursion of the code is opened up: \<open>useful\<close> is the call of \<open>adt_i_useful\<close> that the functions below it make.
  \<open>adt_i_useful_dispatch\<close> and \<open>adt_i_useful_wild_ctor\<close> of the code are calls of \<open>adt_i_useful_ctor\<close>.
\<close>

definition adt_i_useful_abstract :: "usefulness \<Rightarrow> usefulness" where
  "adt_i_useful_abstract useful ctx rows q fams = useful ctx (map tl rows) (tl q) (tl fams)"

definition adt_i_useful_ctor :: "(nat \<Rightarrow> bool) \<Rightarrow> usefulness \<Rightarrow> adt_ctx \<Rightarrow> adt_i_row list \<Rightarrow> adt_i_row \<Rightarrow> tref option list \<Rightarrow> cref \<Rightarrow> bool
    \<Rightarrow> (adt_ctx \<times> int) option" where
  "adt_i_useful_ctor ag useful ctx rows q fams ctor head_wild =
     (case adt_i_specialize ag ctx rows ctor of
        (ctx, None) \<Rightarrow> Some (ctx, -1)
      | (ctx, Some spec) \<Rightarrow>
        (case adt_i_make_qcols ag ctx ctor q head_wild of
           (ctx, None) \<Rightarrow> Some (ctx, -1)
         | (ctx, Some q2) \<Rightarrow>
             do { (ctx, nfams) \<leftarrow> adt_i_concat_fams ag ctx ctor fams;
                  case nfams of None \<Rightarrow> Some (ctx, -1) | Some nfams \<Rightarrow> useful ctx spec q2 nfams }))"

fun adt_i_useful_enumerate :: "(nat \<Rightarrow> bool) \<Rightarrow> usefulness \<Rightarrow> adt_ctx \<Rightarrow> adt_i_row list \<Rightarrow> adt_i_row \<Rightarrow> tref option list \<Rightarrow> cref list
    \<Rightarrow> (adt_ctx \<times> int) option" where
  "adt_i_useful_enumerate ag useful ctx rows q fams [] = Some (ctx, 0)"
| "adt_i_useful_enumerate ag useful ctx rows q fams (c # cs) =
     do { (ctx, r) \<leftarrow> adt_i_useful_ctor ag useful ctx rows q fams c True;
          if r = 1 then Some (ctx, 1) else if r < 0 then Some (ctx, r)
          else adt_i_useful_enumerate ag useful ctx rows q fams cs }"

fun adt_i_useful :: "(nat \<Rightarrow> bool) \<Rightarrow> nat \<Rightarrow> usefulness" where
  "adt_i_useful ag 0 ctx rows q fams = None"
| "adt_i_useful ag (Suc n) ctx rows q fams =
     (if adt_i_ctor_covered rows then Some (ctx, 0)
      else if q = [] then Some (ctx, 1)
      else if \<not> adt_i_wc (hd q) then adt_i_useful_ctor ag (adt_i_useful ag n) ctx rows q fams (pat_ctor (hd q)) False
      else case hd fams of
        None \<Rightarrow> adt_i_useful_abstract (adt_i_useful ag n) ctx rows q fams
      | Some fam \<Rightarrow> adt_i_useful_enumerate ag (adt_i_useful ag n) ctx rows q fams
                      (map (Pair fam) [0..<length (ay_ctors (the_type ctx fam))]))"

section \<open>Entry points\<close>

definition adt_i_row_of_type :: "adt_ctx \<Rightarrow> adt_pattern \<Rightarrow> tref \<Rightarrow> bool" where
  "adt_i_row_of_type ctx p ty =
     (if adt_i_wc (Some p) then False else if ac_owner (the_ctor ctx (pat_ctor (Some p))) \<noteq> ty then False else True)"

fun match_patterns_ok :: "adt_ctx \<Rightarrow> tref \<Rightarrow> adt_pattern option list \<Rightarrow> bool" where
  "match_patterns_ok ctx ty [] = True"
| "match_patterns_ok ctx ty (p # ps) =
     (case p of None \<Rightarrow> False
      | Some p \<Rightarrow> if \<not> adt_i_row_of_type ctx p ty \<and> \<not> adt_i_wc (Some p) then False else match_patterns_ok ctx ty ps)"

text \<open>\<open>res\<close> is what the place for the result holds; the types of a context share its state.\<close>

definition adt_match_exhaustive :: "(nat \<Rightarrow> bool) \<Rightarrow> nat \<Rightarrow> adt_ctx \<Rightarrow> tref option \<Rightarrow> adt_pattern option list \<Rightarrow> adt_match_result option
    \<Rightarrow> (adt_ctx \<times> adt_status \<times> adt_match_result option) option" where
  "adt_match_exhaustive ag n ctx ty ps res =
     (case ty of None \<Rightarrow> Some (ctx, ADT_ERROR_INVALID, res)
      | Some ty \<Rightarrow>
      if res = None then Some (ctx, ADT_ERROR_INVALID, res)
      else if \<not> ay_sealed (the_type ctx ty)
      then Some (fst (adt_i_fail ag ctx ADT_ERROR_UNSEALED ADT_ERR_UNSEALED ''cannot analyze an unsealed type'' (Some ty) None None), ADT_ERROR_UNSEALED, res)
      else if \<not> match_patterns_ok ctx ty ps
      then Some (fst (adt_i_fail ag ctx ADT_ERROR_INVALID ADT_ERR_INVALID ''pattern does not belong to the analyzed type'' (Some ty) None None),
                 ADT_ERROR_INVALID, res)
      else case adt_i_temp_alloc ag ctx of (ctx, ok) \<Rightarrow> if \<not> ok then Some (ctx, ADT_ERROR_NOMEM, res)
      else case adt_i_temp_alloc ag ctx of (ctx, ok) \<Rightarrow> if \<not> ok then Some (ctx, ADT_ERROR_NOMEM, res)
      else case adt_i_temp_alloc ag ctx of (ctx, ok) \<Rightarrow> if \<not> ok then Some (ctx, ADT_ERROR_NOMEM, res)
      else do { (ctx, useful) \<leftarrow> adt_i_useful ag n ctx (map (\<lambda>p. [p]) ps) [None] [Some ty];
                Some (if useful < 0 then (ctx, ADT_ERROR_NOMEM, res)
                      else (ctx, ADT_OK, Some (if useful = 0 then ADT_MATCH_EXHAUSTIVE else ADT_MATCH_NONEXHAUSTIVE))) })"

definition adt_i_family_from :: "adt_ctx \<Rightarrow> adt_pattern option \<Rightarrow> tref option" where
  "adt_i_family_from ctx p = (if adt_i_wc p then None else Some (ac_owner (the_ctor ctx (pat_ctor p))))"

fun adt_i_take_ctor_family :: "adt_ctx \<Rightarrow> adt_pattern option list \<Rightarrow> tref option" where
  "adt_i_take_ctor_family ctx [] = None"
| "adt_i_take_ctor_family ctx (p # ps) =
     (case adt_i_family_from ctx p of None \<Rightarrow> adt_i_take_ctor_family ctx ps | Some fam \<Rightarrow> Some fam)"

text \<open>The first cell is written also when there are no patterns: \<open>None\<close> if there is no such cell.\<close>

definition adt_i_mark_after_first :: "nat \<Rightarrow> bool list \<Rightarrow> bool list option" where
  "adt_i_mark_after_first count redundant =
     (if redundant = [] then None else Some (fold (\<lambda>i red. red[i := True]) [1..<count] (redundant[0 := False])))"

definition adt_i_useful_prefix :: "(nat \<Rightarrow> bool) \<Rightarrow> nat \<Rightarrow> adt_ctx \<Rightarrow> tref \<Rightarrow> adt_pattern option list \<Rightarrow> nat \<Rightarrow> (adt_ctx \<times> int) option" where
  "adt_i_useful_prefix ag n ctx fam ps up_to =
     (case adt_i_temp_alloc ag ctx of (ctx, ok) \<Rightarrow> if \<not> ok then Some (ctx, -1)
      else case adt_i_temp_alloc ag ctx of (ctx, ok) \<Rightarrow> if \<not> ok then Some (ctx, -1)
      else adt_i_useful ag n ctx (map (\<lambda>j. [ps ! j]) [0..<up_to]) [ps ! up_to] [Some fam])"

fun mark_redundant :: "(nat \<Rightarrow> bool) \<Rightarrow> nat \<Rightarrow> adt_ctx \<Rightarrow> tref \<Rightarrow> adt_pattern option list \<Rightarrow> nat list \<Rightarrow> bool list
    \<Rightarrow> (adt_ctx \<times> adt_status \<times> bool list) option" where
  "mark_redundant ag n ctx fam ps [] red = Some (ctx, ADT_OK, red)"
| "mark_redundant ag n ctx fam ps (i # is) red =
     do { (ctx, r) \<leftarrow> adt_i_useful_prefix ag n ctx fam ps i;
          if r < 0 then Some (ctx, ADT_ERROR_NOMEM, red)
          else mark_redundant ag n ctx fam ps is (red[i := (r = 0)]) }"

definition adt_match_redundant :: "(nat \<Rightarrow> bool) \<Rightarrow> nat \<Rightarrow> adt_ctx \<Rightarrow> adt_pattern option list option \<Rightarrow> bool list option
    \<Rightarrow> (adt_ctx \<times> adt_status \<times> bool list option) option" where
  "adt_match_redundant ag n ctx ps out =
     (case ps of None \<Rightarrow> Some (ctx, ADT_ERROR_INVALID, out)
      | Some ps \<Rightarrow>
     (case out of None \<Rightarrow> Some (ctx, ADT_ERROR_INVALID, None)
      | Some red \<Rightarrow>
     (case adt_i_take_ctor_family ctx ps of
        None \<Rightarrow> do { red \<leftarrow> adt_i_mark_after_first (length ps) red; Some (ctx, ADT_OK, Some red) }
      | Some fam \<Rightarrow>
          do { (ctx, st, red) \<leftarrow> mark_redundant ag n ctx fam ps [0..<length ps] red; Some (ctx, st, Some red) })))"

end
