(* ===== verification/Adt_Sound.thy ===== *)
theory Adt_Sound
  imports Adt_Match Hm_Unify
begin

text \<open>What usefulness means: values, the patterns that match them, and the families of the columns.\<close>

section \<open>Values and families\<close>

text \<open>A value of a type that is no datatype of the context is opaque.\<close>

datatype adt_value = Con cref "adt_value list" | Opaque nat

fun pmatch :: "adt_pattern option \<Rightarrow> adt_value \<Rightarrow> bool"
  and pmatches :: "adt_pattern option list \<Rightarrow> adt_value list \<Rightarrow> bool" where
  "pmatch None v = True"
| "pmatch (Some ADT_PATTERN_WILDCARD) v = True"
| "pmatch (Some (ADT_PATTERN_CTOR c ps)) (Con d vs) = (c = d \<and> pmatches ps vs)"
| "pmatch (Some (ADT_PATTERN_CTOR c ps)) (Opaque k) = False"
| "pmatches (p # ps) (v # vs) = (pmatch p v \<and> pmatches ps vs)"
| "pmatches [] [] = True"
| "pmatches _ _ = False"

lemma pmatches_iff: "pmatches ps vs \<longleftrightarrow> list_all2 pmatch ps vs"
  by (induction ps arbitrary: vs) (case_tac vs; simp)+

abbreviation adt_nodes :: "adt_ctx \<Rightarrow> hm_nodes" where
  "adt_nodes ctx \<equiv> ctx_nodes (ax_hm ctx)"

definition family_of :: "adt_ctx \<Rightarrow> tptr \<Rightarrow> tref option" where
  "family_of ctx t = (case term_of (adt_nodes ctx) t of V v \<Rightarrow> None | F name ts \<Rightarrow> adt_i_family_for_name ctx name)"

definition fams_of :: "adt_ctx \<Rightarrow> cref \<Rightarrow> tref option list" where
  "fams_of ctx c = map (family_of ctx) (ac_fields (the_ctor ctx c))"

definition valid_ctor :: "adt_ctx \<Rightarrow> cref \<Rightarrow> bool" where
  "valid_ctor ctx c \<longleftrightarrow> fst c < length (ax_types ctx) \<and> snd c < length (ay_ctors (the_type ctx (fst c)))"

inductive typed :: "adt_ctx \<Rightarrow> tref option \<Rightarrow> adt_value \<Rightarrow> bool" for ctx where
  typed_opaque: "typed ctx None v"
| typed_con: "valid_ctor ctx (f, k) \<Longrightarrow> list_all2 (typed ctx) (fams_of ctx (f, k)) vs \<Longrightarrow> typed ctx (Some f) (Con (f, k) vs)"

inductive_simps typed_iff: "typed ctx None v" "typed ctx (Some f) v"

text \<open>A pattern suits a family when its constructors are those of the families they stand at.\<close>

inductive suits :: "adt_ctx \<Rightarrow> tref option \<Rightarrow> adt_pattern option \<Rightarrow> bool" for ctx where
  suits_null: "suits ctx f None"
| suits_wild: "suits ctx f (Some ADT_PATTERN_WILDCARD)"
| suits_ctor: "valid_ctor ctx (f, k) \<Longrightarrow> list_all2 (suits ctx) (fams_of ctx (f, k)) ps
    \<Longrightarrow> suits ctx (Some f) (Some (ADT_PATTERN_CTOR (f, k) ps))"

inductive_simps suits_iff: "suits ctx None p" "suits ctx f (Some (ADT_PATTERN_CTOR c ps))"

definition adt_ok :: "adt_ctx \<Rightarrow> bool" where
  "adt_ok ctx \<longleftrightarrow> wf_nodes (adt_nodes ctx) \<and> (\<forall>c. valid_ctor ctx c \<longrightarrow> set (ac_fields (the_ctor ctx c)) \<subseteq> {..<length (adt_nodes ctx)})"

text \<open>What the analysis may change: links between nodes, and the count of requests.\<close>

definition steady :: "adt_ctx \<Rightarrow> adt_ctx \<Rightarrow> bool" where
  "steady ctx ctx' \<longleftrightarrow> same (adt_nodes ctx) (adt_nodes ctx') \<and> ax_types ctx' = ax_types ctx"

lemma steady_refl [simp]: "steady ctx ctx"
  by (simp add: steady_def)

lemma steady_trans: "steady ctx ctx1 \<Longrightarrow> steady ctx1 ctx2 \<Longrightarrow> steady ctx ctx2"
  using same_trans by (auto simp: steady_def)

lemma steady_facts:
  assumes "steady ctx ctx'"
  shows "ax_types ctx' = ax_types ctx" "adt_ok ctx' \<longleftrightarrow> adt_ok ctx" "fams_of ctx' = fams_of ctx" "valid_ctor ctx' = valid_ctor ctx"
proof -
  show t: "ax_types ctx' = ax_types ctx" using assms by (simp add: steady_def)
  then show v: "valid_ctor ctx' = valid_ctor ctx" by (simp add: valid_ctor_def fun_eq_iff)
  have n: "same (adt_nodes ctx) (adt_nodes ctx')" using assms by (simp add: steady_def)
  show "adt_ok ctx' \<longleftrightarrow> adt_ok ctx" using same_facts(1,3) [OF n] by (simp add: adt_ok_def t v)
  have fam: "adt_i_family_for_name ctx' = adt_i_family_for_name ctx" by (simp add: adt_i_family_for_name_def fun_eq_iff t)
  have "family_of ctx' = family_of ctx" unfolding family_of_def [abs_def] fam same_facts(4) [OF n] ..
  then show "fams_of ctx' = fams_of ctx" by (simp add: fams_of_def fun_eq_iff t)
qed

lemma typed_cong:
  assumes "fams_of ctx' = fams_of ctx" and "valid_ctor ctx' = valid_ctor ctx"
  shows "typed ctx f v \<Longrightarrow> typed ctx' f v"
proof (induction rule: typed.induct)
  case (typed_con f k vs)
  then have "list_all2 (typed ctx') (fams_of ctx' (f, k)) vs" unfolding assms by (elim list_all2_mono) simp
  then show ?case using typed_con.hyps(1) by (intro typed.typed_con) (simp_all add: assms)
qed (rule typed.typed_opaque)

lemma suits_cong:
  assumes "fams_of ctx' = fams_of ctx" and "valid_ctor ctx' = valid_ctor ctx"
  shows "suits ctx f p \<Longrightarrow> suits ctx' f p"
proof (induction rule: suits.induct)
  case (suits_ctor f k ps)
  then have "list_all2 (suits ctx') (fams_of ctx' (f, k)) ps" unfolding assms by (elim list_all2_mono) simp
  then show ?case using suits_ctor.hyps(1) by (intro suits.suits_ctor) (simp_all add: assms)
qed (rule suits.intros)+

lemma steady_typed:
  assumes "steady ctx ctx'"
  shows "typed ctx' = typed ctx" "suits ctx' = suits ctx"
  using steady_facts(3,4) [OF assms] typed_cong [of ctx ctx'] typed_cong [of ctx' ctx] suits_cong [of ctx ctx'] suits_cong [of ctx' ctx]
  by (auto simp: fun_eq_iff)

section \<open>Families of fields\<close>

lemma field_family:
  assumes ok: "adt_ok ctx" and c: "valid_ctor ctx c" and i: "i < length (ac_fields (the_ctor ctx c))"
  shows "\<exists>ctx'. adt_i_field_family ctx c i = Some (ctx', fams_of ctx c ! i) \<and> steady ctx ctx'"
proof -
  let ?t = "ac_fields (the_ctor ctx c) ! i"
  have wf: "wf_nodes (adt_nodes ctx)" "?t < length (adt_nodes ctx)" using ok c nth_mem [OF i] unfolding adt_ok_def by blast+
  obtain ns r where r: "hm_type_prune (adt_nodes ctx) ?t = Some (ns, r)" "same (adt_nodes ctx) ns" "root (adt_nodes ctx) r"
    "term_of (adt_nodes ctx) r = term_of (adt_nodes ctx) ?t" "wf_nodes ns" by (rule prune_wf [OF wf])
  let ?ctx = "ctx\<lparr>ax_hm := (ax_hm ctx)\<lparr>ctx_nodes := ns\<rparr>\<rparr>"
  note s = same_facts [OF r(2)]
  have rl: "r < length ns" using r(3) s(1) by (simp add: root_def)
  have "(case ns ! r of TVar i l \<Rightarrow> None | TCon name args \<Rightarrow> adt_i_family_for_name ctx name) = fams_of ctx c ! i"
  proof (cases "ns ! r")
    case (TVar j l)
    then have "l = None" using r(3) s(5,6) [of r] by (simp add: root_def)
    then have "term_of ns r = V r" using free_term [OF rl] TVar by simp
    then show ?thesis using TVar r(4) s(4) i by (simp add: fams_of_def family_of_def)
  next
    case (TCon name args)
    then show ?thesis using con_term(1) [OF r(5) rl TCon] r(4) s(4) i by (simp add: fams_of_def family_of_def)
  qed
  moreover have "adt_i_family_for_name ?ctx = adt_i_family_for_name ctx" by (simp add: fun_eq_iff adt_i_family_for_name_def)
  ultimately have "adt_i_field_family ctx c i = Some (?ctx, fams_of ctx c ! i)" using r(1) by (cases "ns ! r") (simp_all add: adt_i_field_family_def Let_def)
  moreover have "steady ctx ?ctx" using r(2) by (simp add: steady_def)
  ultimately show ?thesis by blast
qed

lemma fams_head:
  assumes "adt_ok ctx" and "valid_ctor ctx c" and "set is \<subseteq> {..<length (ac_fields (the_ctor ctx c))}"
  shows "\<exists>ctx'. adt_i_fams_head ctx c is = Some (ctx', map ((!) (fams_of ctx c)) is) \<and> steady ctx ctx'"
  using assms
proof (induction "is" arbitrary: ctx)
  case (Cons i "is")
  obtain ctx1 where f: "adt_i_field_family ctx c i = Some (ctx1, fams_of ctx c ! i)" "steady ctx ctx1"
    using field_family [of ctx c i] Cons.prems by auto
  note s = steady_facts [OF f(2)]
  obtain ctx2 where "adt_i_fams_head ctx1 c is = Some (ctx2, map ((!) (fams_of ctx c)) is)" "steady ctx1 ctx2"
    using Cons.IH [of ctx1] Cons.prems s by auto
  then show ?case using f steady_trans by auto
qed simp

lemma steady_allocs [simp]: "steady ctx (ctx\<lparr>ax_allocs := k\<rparr>)"
  by (simp add: steady_def)

lemma concat_fams:
  assumes "adt_ok ctx" and "valid_ctor ctx c" and "\<forall>k. ag k"
  shows "\<exists>ctx'. adt_i_concat_fams ag ctx c fams = Some (ctx', Some (fams_of ctx c @ tl fams)) \<and> steady ctx ctx'"
proof -
  let ?ctx = "ctx\<lparr>ax_allocs := Suc (ax_allocs ctx)\<rparr>"
  have st: "steady ctx ?ctx" by simp
  note s = steady_facts [OF st]
  obtain ctx1 where "adt_i_fams_head ?ctx c [0..<length (ac_fields (the_ctor ctx c))]
      = Some (ctx1, map ((!) (fams_of ctx c)) [0..<length (ac_fields (the_ctor ctx c))])" "steady ?ctx ctx1"
    using fams_head [of ?ctx c "[0..<length (ac_fields (the_ctor ctx c))]"] assms s by (auto simp: atLeast0LessThan)
  moreover have "map ((!) (fams_of ctx c)) [0..<length (ac_fields (the_ctor ctx c))] = fams_of ctx c"
    using map_nth [of "fams_of ctx c"] by (simp add: fams_of_def)
  ultimately show ?thesis
    using assms(3) steady_trans [OF steady_allocs] by (auto simp: adt_i_concat_fams_def adt_i_temp_alloc_def)
qed

end
