(* ===== verification/Adt_Useful.thy ===== *)
theory Adt_Useful
  imports Adt_Sound
begin

text \<open>
  The usefulness recursion decides whether a value is left that the query matches and no row does, where it reads
  a constructor of a row in a column without a family as a wildcard (\<open>seen\<close>).
\<close>

section \<open>Specialised rows\<close>

definition spec_cols :: "adt_ctx \<Rightarrow> cref \<Rightarrow> adt_i_row \<Rightarrow> adt_i_row" where
  "spec_cols ctx c row = (if adt_i_wc (hd row) then replicate (length (fams_of ctx c)) None else pat_args (hd row)) @ tl row"

definition spec_fits :: "cref \<Rightarrow> adt_i_row \<Rightarrow> bool" where
  "spec_fits c row \<longleftrightarrow> adt_i_wc (hd row) \<or> c = pat_ctor (hd row)"

lemma wc_cases:
  obtains "adt_i_wc p" "p = None \<or> p = Some ADT_PATTERN_WILDCARD" | c ps where "\<not> adt_i_wc p" "p = Some (ADT_PATTERN_CTOR c ps)"
proof (cases p)
  case (Some x)
  then show ?thesis using that by (cases x) (auto simp: adt_i_wc_def)
qed (use that in \<open>auto simp: adt_i_wc_def\<close>)

lemma wc_suits: "adt_i_wc p \<Longrightarrow> suits ctx f p"
  by (cases p rule: wc_cases) (auto intro: suits.intros)

lemma wc_pmatch: "adt_i_wc p \<Longrightarrow> pmatch p v"
  by (cases p rule: wc_cases) auto

lemma fill_row:
  assumes "row \<noteq> []" and "\<not> hw \<Longrightarrow> length (pat_args (hd row)) = length (fams_of ctx c)"
  shows "adt_i_fill_row ctx (length (ac_fields (the_ctor ctx c)) + length row - 1) row c hw
    = (if hw then replicate (length (fams_of ctx c)) None else pat_args (hd row)) @ tl row"
proof -
  obtain p ps where row: "row = p # ps" using assms(1) by (cases row) auto
  show ?thesis
    using assms(2) unfolding row
    by (intro nth_equalityI)
      (auto simp: adt_i_fill_row_def adt_i_fill_cell_def adt_i_head_val_def adt_i_tail_val_def fams_of_def nth_append Let_def)
qed

lemma fill_row_types: "ax_types ctx' = ax_types ctx \<Longrightarrow> adt_i_fill_row ctx' = adt_i_fill_row ctx"
  by (simp add: adt_i_fill_row_def [abs_def] adt_i_fill_cell_def [abs_def])

lemma suits_args:
  assumes "suits ctx f p" and "\<not> adt_i_wc p"
  shows "f = Some (fst (pat_ctor p))" "valid_ctor ctx (pat_ctor p)" "list_all2 (suits ctx) (fams_of ctx (pat_ctor p)) (pat_args p)"
proof -
  obtain c ps where p: "p = Some (ADT_PATTERN_CTOR c ps)" using assms(2) by (cases p rule: wc_cases) auto
  then show "f = Some (fst (pat_ctor p))" "valid_ctor ctx (pat_ctor p)" "list_all2 (suits ctx) (fams_of ctx (pat_ctor p)) (pat_args p)"
    using assms(1) by (auto simp: suits_iff pat_ctor_def pat_args_def)
qed

lemma spec_suits:
  assumes "list_all2 (suits ctx) fams row" and "row \<noteq> []" and "spec_fits c row"
  shows "list_all2 (suits ctx) (fams_of ctx c @ tl fams) (spec_cols ctx c row)"
proof -
  obtain p ps f fs where row: "row = p # ps" "fams = f # fs" "suits ctx f p" "list_all2 (suits ctx) fs ps"
    using assms(1,2) by (cases row; cases fams) auto
  show ?thesis
  proof (cases "adt_i_wc p")
    case True
    have "list_all2 (suits ctx) (fams_of ctx c) (replicate (length (fams_of ctx c)) None)" by (auto simp: list_all2_conv_all_nth intro: suits.intros)
    then show ?thesis using True row by (auto simp: spec_cols_def intro: list_all2_appendI)
  next
    case False
    then show ?thesis using suits_args(3) [OF row(3) False] assms(3) row
      by (auto simp: spec_cols_def spec_fits_def intro: list_all2_appendI)
  qed
qed

text \<open>
  What the analysis sees of a pattern: in a column that has no family it sees no constructor. Rows are of the
  right width when the arguments of the head they are specialised by are as many as its fields.
\<close>

fun seen :: "adt_ctx \<Rightarrow> tref option \<Rightarrow> adt_pattern option \<Rightarrow> adt_pattern option"
  and seen_row :: "adt_ctx \<Rightarrow> tref option list \<Rightarrow> adt_i_row \<Rightarrow> adt_i_row" where
  "seen ctx None p = (if adt_i_wc p then p else None)"
| "seen ctx (Some f) (Some (ADT_PATTERN_CTOR c ps)) = Some (ADT_PATTERN_CTOR c (seen_row ctx (fams_of ctx c) ps))"
| "seen ctx (Some f) p = p"
| "seen_row ctx (f # fs) (p # ps) = seen ctx f p # seen_row ctx fs ps"
| "seen_row ctx fs ps = ps"

abbreviation seen_rows :: "adt_ctx \<Rightarrow> tref option list \<Rightarrow> adt_i_row list \<Rightarrow> adt_i_row list" where
  "seen_rows ctx fams rows \<equiv> map (seen_row ctx fams) rows"

lemma seen_wc: "adt_i_wc p \<Longrightarrow> seen ctx f p = p"
  by (cases f; cases p rule: wc_cases) auto

lemma wc_seen: "adt_i_wc (seen ctx (Some f) p) \<longleftrightarrow> adt_i_wc p"
  by (cases p rule: wc_cases) (auto simp: adt_i_wc_def)

lemma length_seen_row [simp]: "length (seen_row ctx fs ps) = length ps"
  by (induction ps arbitrary: fs) (case_tac fs; simp)+

lemma seen_row_append: "length xs = length as \<Longrightarrow> seen_row ctx (xs @ ys) (as @ bs) = seen_row ctx xs as @ seen_row ctx ys bs"
  by (induction xs as rule: list_induct2) simp_all

lemma seen_row_wild: "list_all adt_i_wc row \<Longrightarrow> seen_row ctx fs row = row"
  by (induction row arbitrary: fs) (case_tac fs; simp add: seen_wc)+

lemma seen_row_suits: "list_all2 (\<lambda>f p. seen ctx f p = p) fs row \<Longrightarrow> seen_row ctx fs row = row"
  by (induction rule: list_all2_induct) simp_all

lemma seen_suits: "suits ctx f p \<Longrightarrow> seen ctx f p = p"
proof (induction rule: suits.induct)
  case (suits_ctor f k ps)
  then have "list_all2 (\<lambda>f p. seen ctx f p = p) (fams_of ctx (f, k)) ps" by (elim list_all2_mono) simp
  then show ?case by (simp add: seen_row_suits)
qed (simp_all add: seen_wc adt_i_wc_def)

lemma seen_cong:
  shows "fams_of ctx' = fams_of ctx \<Longrightarrow> seen ctx' f p = seen ctx f p"
    "fams_of ctx' = fams_of ctx \<Longrightarrow> seen_row ctx' fs ps = seen_row ctx fs ps"
  by (induction ctx f p and ctx fs ps rule: seen_seen_row.induct) simp_all

definition sized :: "adt_ctx \<Rightarrow> cref \<Rightarrow> adt_i_row \<Rightarrow> bool" where
  "sized ctx c row \<longleftrightarrow> row \<noteq> [] \<and> (spec_fits c row \<longrightarrow> \<not> adt_i_wc (hd row) \<longrightarrow> length (pat_args (hd row)) = length (fams_of ctx c))"

lemma seen_head:
  assumes "fams = Some f # fs" and "row \<noteq> []"
  shows "seen_row ctx fams row = seen ctx (Some f) (hd row) # seen_row ctx fs (tl row)"
    "adt_i_wc (seen ctx (Some f) (hd row)) \<longleftrightarrow> adt_i_wc (hd row)" "spec_fits c (seen_row ctx fams row) \<longleftrightarrow> spec_fits c row"
    "\<not> adt_i_wc (hd row) \<Longrightarrow> pat_args (seen ctx (Some f) (hd row)) = seen_row ctx (fams_of ctx (pat_ctor (hd row))) (pat_args (hd row))"
proof -
  obtain p ps where row: "row = p # ps" using assms(2) by (cases row) auto
  show "seen_row ctx fams row = seen ctx (Some f) (hd row) # seen_row ctx fs (tl row)"
    "adt_i_wc (seen ctx (Some f) (hd row)) \<longleftrightarrow> adt_i_wc (hd row)" by (simp_all add: assms(1) row wc_seen)
  have "spec_fits c (seen ctx (Some f) p # qs) \<longleftrightarrow> spec_fits c (p # ps)" for qs
    by (cases p rule: wc_cases) (auto simp: spec_fits_def adt_i_wc_def pat_ctor_def)
  then show "spec_fits c (seen_row ctx fams row) \<longleftrightarrow> spec_fits c row" by (simp add: row assms(1))
  show "pat_args (seen ctx (Some f) (hd row)) = seen_row ctx (fams_of ctx (pat_ctor (hd row))) (pat_args (hd row))" if "\<not> adt_i_wc (hd row)"
    using that by (cases p rule: wc_cases) (simp_all add: row pat_ctor_def pat_args_def)
qed

lemma seen_sized:
  assumes "list_all2 (suits ctx) (Some f # fs) (seen_row ctx (Some f # fs) row)"
  shows "sized ctx c row"
proof -
  have row: "row \<noteq> []" using assms list_all2_lengthD by fastforce
  note h = seen_head [OF refl row]
  have s: "suits ctx (Some f) (seen ctx (Some f) (hd row))" using assms h(1) by simp
  have "length (pat_args (hd row)) = length (fams_of ctx c)" if "spec_fits c row" "\<not> adt_i_wc (hd row)"
  proof -
    have c: "c = pat_ctor (hd row)" using that by (simp add: spec_fits_def)
    have "pat_ctor (seen ctx (Some f) (hd row)) = pat_ctor (hd row)"
      by (cases "hd row" rule: wc_cases) (auto simp: pat_ctor_def)
    then have "length (pat_args (seen ctx (Some f) (hd row))) = length (fams_of ctx c)"
      using suits_args(3) [OF s] h(2) that(2) c list_all2_lengthD by metis
    then show ?thesis using h(4) [OF that(2)] by simp
  qed
  then show ?thesis using row by (simp add: sized_def)
qed

lemma suits_sized:
  assumes "list_all2 (suits ctx) fams row" and "row \<noteq> []"
  shows "sized ctx c row"
proof -
  obtain f fs p ps where "fams = f # fs" "row = p # ps" "suits ctx f p" using assms by (cases fams; cases row) auto
  then show ?thesis using suits_args(3) [of ctx f p] list_all2_lengthD [of "suits ctx" "fams_of ctx c" "pat_args p"]
    by (auto simp: sized_def spec_fits_def)
qed

lemma spec_seen:
  assumes "fams = Some f # fs" and "sized ctx c row" and "spec_fits c row"
  shows "seen_row ctx (fams_of ctx c @ fs) (spec_cols ctx c row) = spec_cols ctx c (seen_row ctx fams row)"
proof -
  have row: "row \<noteq> []" using assms(2) by (simp add: sized_def)
  note h = seen_head [OF assms(1) row]
  show ?thesis
  proof (cases "adt_i_wc (hd row)")
    case True
    have "seen_row ctx (fams_of ctx c) (replicate (length (fams_of ctx c)) None) = replicate (length (fams_of ctx c)) None"
      by (rule seen_row_wild) (simp add: list_all_iff adt_i_wc_def)
    then show ?thesis using True h(1,2) by (simp add: spec_cols_def seen_row_append)
  next
    case False
    then have "c = pat_ctor (hd row)" "length (pat_args (hd row)) = length (fams_of ctx c)"
      using assms(2,3) by (auto simp: sized_def spec_fits_def)
    then show ?thesis using False h(1,2,4) by (simp add: spec_cols_def seen_row_append)
  qed
qed

lemma specs_seen:
  assumes "fams = Some f # fs" and "\<forall>row \<in> set rows. sized ctx c row"
  shows "seen_rows ctx (fams_of ctx c @ fs) (map (spec_cols ctx c) (filter (spec_fits c) rows))
    = map (spec_cols ctx c) (filter (spec_fits c) (seen_rows ctx fams rows))"
  using assms(2)
proof (induction rows)
  case (Cons row rows)
  then have "row \<noteq> []" by (simp add: sized_def)
  from seen_head(3) [OF assms(1) this] spec_seen [OF assms(1), of ctx c row] show ?case using Cons by simp
qed simp

lemma spec_row_granted:
  assumes "sized ctx c row" and "\<forall>k. ag k"
  shows "\<exists>k. adt_i_spec_row ag ctx c row = (ctx\<lparr>ax_allocs := k\<rparr>, if spec_fits c row then Some (spec_cols ctx c row) else None)"
proof -
  have row: "row \<noteq> []" using assms(1) by (simp add: sized_def)
  then have hd: "row ! 0 = hd row" by (simp add: hd_conv_nth)
  show ?thesis
  proof (cases "spec_fits c row")
    case True
    have "length (pat_args (hd row)) = length (fams_of ctx c)" if "\<not> adt_i_wc (hd row)"
      using assms(1) that True by (simp add: sized_def)
    from fill_row [OF row, of "adt_i_wc (hd row)", OF this]
    have fr: "adt_i_fill_row ctx (length (ac_fields (the_ctor ctx c)) + length row - 1) row c (adt_i_wc (hd row)) = spec_cols ctx c row"
      unfolding spec_cols_def .
    have al: "adt_i_fill_row (ctx\<lparr>ax_allocs := k\<rparr>) = adt_i_fill_row ctx" for k by (rule fill_row_types) simp
    have "\<not> (\<not> adt_i_wc (hd row) \<and> c \<noteq> pat_ctor (hd row))" using True by (auto simp: spec_fits_def)
    then have "adt_i_spec_row ag ctx c row = (ctx\<lparr>ax_allocs := Suc (Suc (ax_allocs ctx))\<rparr>, Some (spec_cols ctx c row))"
      using assms(2) hd fr al by (simp add: adt_i_spec_row_def adt_i_temp_alloc_def Let_def)
    then show ?thesis using True by auto
  next
    case False
    then show ?thesis using assms(2) hd by (auto simp: adt_i_spec_row_def adt_i_temp_alloc_def spec_fits_def Let_def)
  qed
qed

lemma allocs_facts: "fams_of (ctx\<lparr>ax_allocs := k\<rparr>) = fams_of ctx" "suits (ctx\<lparr>ax_allocs := k\<rparr>) = suits ctx"
  "spec_cols (ctx\<lparr>ax_allocs := k\<rparr>) = spec_cols ctx"
  using steady_facts(3) [OF steady_allocs] steady_typed(2) [OF steady_allocs] by (simp_all add: spec_cols_def fun_eq_iff)

definition rows_suit :: "adt_ctx \<Rightarrow> tref option list \<Rightarrow> adt_i_row list \<Rightarrow> bool" where
  "rows_suit ctx fams rows \<longleftrightarrow> (\<forall>row \<in> set rows. list_all2 (suits ctx) fams row)"

lemma sized_allocs: "sized (ctx\<lparr>ax_allocs := k\<rparr>) = sized ctx"
  by (simp add: sized_def fun_eq_iff allocs_facts)

lemma spec_collect:
  assumes "\<forall>k. ag k"
  shows "\<forall>row \<in> set rows. sized ctx c row
    \<Longrightarrow> \<exists>k. adt_i_spec_collect ag ctx c rows = (ctx\<lparr>ax_allocs := k\<rparr>, map (spec_cols ctx c) (filter (spec_fits c) rows))"
proof (induction rows arbitrary: ctx)
  case Nil
  show ?case by (rule exI [of _ "ax_allocs ctx"]) simp
next
  case (Cons row rows)
  then have row: "sized ctx c row" by simp
  obtain k where k: "adt_i_spec_row ag ctx c row = (ctx\<lparr>ax_allocs := k\<rparr>, if spec_fits c row then Some (spec_cols ctx c row) else None)"
    using spec_row_granted [OF row assms] by blast
  have "\<forall>row \<in> set rows. sized (ctx\<lparr>ax_allocs := k\<rparr>) c row" using Cons.prems by (simp add: sized_allocs)
  from Cons.IH [OF this] obtain j where "adt_i_spec_collect ag (ctx\<lparr>ax_allocs := k\<rparr>) c rows
      = (ctx\<lparr>ax_allocs := j\<rparr>, map (spec_cols ctx c) (filter (spec_fits c) rows))" by (auto simp: allocs_facts)
  then show ?case using k by auto
qed

lemma ctor_step_sized:
  assumes ok: "adt_ok ctx" and c: "valid_ctor ctx c" and ag: "\<forall>k. ag k" and rows: "\<forall>row \<in> set rows. sized ctx c row"
    and q: "list_all2 (suits ctx) fams q" "q \<noteq> []" "spec_fits c q"
  shows "\<exists>ctx'. steady ctx ctx' \<and> adt_i_useful_ctor ag useful ctx rows q fams c (adt_i_wc (hd q))
    = useful ctx' (map (spec_cols ctx c) (filter (spec_fits c) rows)) (spec_cols ctx c q) (fams_of ctx c @ tl fams)"
proof -
  have fams: "fams \<noteq> []" using q(1,2) by auto
  let ?c1 = "ctx\<lparr>ax_allocs := Suc (ax_allocs ctx)\<rparr>"
  have "\<forall>row \<in> set rows. sized ?c1 c row" using rows by (simp add: sized_allocs)
  then obtain k where "adt_i_spec_collect ag ?c1 c rows
      = (ctx\<lparr>ax_allocs := k\<rparr>, map (spec_cols ctx c) (filter (spec_fits c) rows))"
    using spec_collect [OF ag, of rows ?c1 c] by (auto simp: allocs_facts)
  then have sp: "adt_i_specialize ag ctx rows c = (ctx\<lparr>ax_allocs := k\<rparr>, Some (map (spec_cols ctx c) (filter (spec_fits c) rows)))"
    using ag by (simp add: adt_i_specialize_def adt_i_temp_alloc_def)
  have "length (pat_args (hd q)) = length (fams_of ctx c)" if "\<not> adt_i_wc (hd q)"
    using suits_args(3) [of ctx "hd fams" "hd q"] q that by (cases q; cases fams) (auto simp: spec_fits_def dest: list_all2_lengthD)
  from fill_row [OF q(2), of "adt_i_wc (hd q)", OF this]
  have "adt_i_fill_row ctx (length (ac_fields (the_ctor ctx c)) + length q - 1) q c (adt_i_wc (hd q)) = spec_cols ctx c q"
    unfolding spec_cols_def .
  moreover have "adt_i_fill_row (ctx\<lparr>ax_allocs := j\<rparr>) = adt_i_fill_row ctx" for j by (rule fill_row_types) simp
  ultimately have qc: "adt_i_make_qcols ag (ctx\<lparr>ax_allocs := k\<rparr>) c q (adt_i_wc (hd q)) = (ctx\<lparr>ax_allocs := Suc k\<rparr>, Some (spec_cols ctx c q))"
    using ag by (simp add: adt_i_make_qcols_def adt_i_temp_alloc_def Let_def)
  let ?c3 = "ctx\<lparr>ax_allocs := Suc k\<rparr>"
  have st: "steady ctx ?c3" by simp
  note s = steady_facts [OF st]
  obtain c4 where "adt_i_concat_fams ag ?c3 c fams = Some (c4, Some (fams_of ctx c @ tl fams))" "steady ?c3 c4"
    using concat_fams [of ?c3 c ag fams] ok c ag s by auto
  then show ?thesis using sp qc steady_trans [OF st] by (auto simp: adt_i_useful_ctor_def)
qed

lemma ctor_step:
  assumes "adt_ok ctx" and "valid_ctor ctx c" and "\<forall>k. ag k" and "rows_suit ctx fams rows"
    and "list_all2 (suits ctx) fams q" and "q \<noteq> []" and "spec_fits c q"
  shows "\<exists>ctx'. steady ctx ctx' \<and> adt_i_useful_ctor ag useful ctx rows q fams c (adt_i_wc (hd q))
    = useful ctx' (map (spec_cols ctx c) (filter (spec_fits c) rows)) (spec_cols ctx c q) (fams_of ctx c @ tl fams)"
proof (rule ctor_step_sized [OF assms(1-3) _ assms(5-7)])
  have "fams \<noteq> []" using assms(5,6) by auto
  then show "\<forall>row \<in> set rows. sized ctx c row" using assms(4) suits_sized [of ctx fams _ c] by (fastforce simp: rows_suit_def)
qed

section \<open>What is left\<close>

text \<open>A vector of values that the query matches and no row does.\<close>

definition left :: "adt_ctx \<Rightarrow> adt_i_row list \<Rightarrow> adt_i_row \<Rightarrow> tref option list \<Rightarrow> adt_value list \<Rightarrow> bool" where
  "left ctx rows q fams vs \<longleftrightarrow> list_all2 (typed ctx) fams vs \<and> pmatches q vs \<and> \<not> (\<exists>row \<in> set rows. pmatches row vs)"

lemma spec_match:
  assumes "list_all2 (suits ctx) fams row" and "row \<noteq> []" and "length args = length (fams_of ctx c)"
  shows "pmatches row (Con c args # vs) \<longleftrightarrow> spec_fits c row \<and> pmatches (spec_cols ctx c row) (args @ vs)"
proof -
  obtain p ps f fs where row: "row = p # ps" "fams = f # fs" "suits ctx f p" using assms(1,2) by (cases row; cases fams) auto
  have wild: "pmatches (replicate (length args) None @ ps) (args @ vs) \<longleftrightarrow> pmatches ps vs" for args
    by (induction args) simp_all
  show ?thesis
  proof (cases p rule: wc_cases)
    case 1
    then show ?thesis using row wild [of args] wc_pmatch [of p] unfolding assms(3) by (simp add: spec_fits_def spec_cols_def)
  next
    case (2 d ds)
    have "length ds = length (fams_of ctx d)" using suits_args(3) [OF row(3) 2(1)] 2(2) by (auto simp: pat_ctor_def pat_args_def dest: list_all2_lengthD)
    then have "d = c \<Longrightarrow> pmatches (ds @ ps) (args @ vs) \<longleftrightarrow> pmatches ds args \<and> pmatches ps vs"
      using assms(3) by (simp add: pmatches_iff list_all2_append)
    then show ?thesis using row 2 by (auto simp: spec_fits_def spec_cols_def pat_ctor_def pat_args_def)
  qed
qed

lemma left_spec:
  assumes rows: "rows_suit ctx fams rows" and q: "list_all2 (suits ctx) fams q" "q \<noteq> []" "spec_fits c q"
    and c: "valid_ctor ctx c" "hd fams = Some (fst c)" and args: "length args = length (fams_of ctx c)"
  shows "left ctx (map (spec_cols ctx c) (filter (spec_fits c) rows)) (spec_cols ctx c q) (fams_of ctx c @ tl fams) (args @ vs)
    \<longleftrightarrow> left ctx rows q fams (Con c args # vs)"
proof -
  obtain fs where fams: "fams = Some (fst c) # fs" using q(1,2) c(2) by (cases fams) auto
  have "typed ctx (Some (fst c)) (Con c args) \<longleftrightarrow> list_all2 (typed ctx) (fams_of ctx c) args"
    using c(1) by (cases c) (auto simp: typed_iff)
  moreover have "list_all2 (typed ctx) (fams_of ctx c @ fs) (args @ vs) \<longleftrightarrow> list_all2 (typed ctx) (fams_of ctx c) args \<and> list_all2 (typed ctx) fs vs"
    using args by (simp add: list_all2_append)
  moreover have "pmatches row (Con c args # vs) \<longleftrightarrow> spec_fits c row \<and> pmatches (spec_cols ctx c row) (args @ vs)" if "row \<in> set rows" for row
    using that rows fams by (intro spec_match [OF _ _ args, of fams]) (auto simp: rows_suit_def)
  ultimately show ?thesis using spec_match [OF q(1,2) args] q(3) fams by (auto simp: left_def)
qed

lemma left_ctor:
  assumes rows: "rows_suit ctx fams rows" and q: "list_all2 (suits ctx) fams q" "q \<noteq> []" "spec_fits c q"
    and c: "valid_ctor ctx c" "hd fams = Some (fst c)"
  shows "(\<exists>vs. left ctx (map (spec_cols ctx c) (filter (spec_fits c) rows)) (spec_cols ctx c q) (fams_of ctx c @ tl fams) vs)
    \<longleftrightarrow> (\<exists>args vs. left ctx rows q fams (Con c args # vs))" (is "?L \<longleftrightarrow> ?R")
proof
  assume ?L
  then obtain ws where ws: "left ctx (map (spec_cols ctx c) (filter (spec_fits c) rows)) (spec_cols ctx c q) (fams_of ctx c @ tl fams) ws" ..
  then obtain args vs where "ws = args @ vs" "list_all2 (typed ctx) (fams_of ctx c) args"
    by (auto simp: left_def list_all2_append1)
  then have "left ctx rows q fams (Con c args # vs)" using ws left_spec [OF rows q c, of args vs] list_all2_lengthD by metis
  then show ?R by blast
next
  assume ?R
  then obtain args vs where l: "left ctx rows q fams (Con c args # vs)" by blast
  then have "typed ctx (Some (fst c)) (Con c args)" using q(1,2) c(2) by (cases fams) (auto simp: left_def)
  then have "length args = length (fams_of ctx c)" by (cases c) (auto simp: typed_iff dest: list_all2_lengthD)
  then show ?L using l left_spec [OF rows q c, of args vs] by blast
qed

lemma left_steady: "steady ctx ctx' \<Longrightarrow> left ctx' = left ctx"
  unfolding left_def [abs_def] by (simp add: steady_typed)

lemma all_wild_matches: "adt_i_row_all_wild row \<Longrightarrow> length row = length vs \<Longrightarrow> pmatches row vs"
  by (induction row arbitrary: vs) (case_tac vs; simp add: adt_i_row_all_wild_def wc_pmatch)+

lemma covered_left:
  assumes "rows_suit ctx fams rows" and "adt_i_ctor_covered rows"
  shows "\<not> left ctx rows q fams vs"
proof -
  obtain row where row: "row \<in> set rows" "adt_i_row_all_wild row" using assms(2) by (auto simp: adt_i_ctor_covered_def list_ex_iff)
  then have "length row = length fams" using assms(1) list_all2_lengthD [of "suits ctx" fams row] by (simp add: rows_suit_def)
  then show ?thesis using row all_wild_matches [of row vs] by (auto simp: left_def dest: list_all2_lengthD)
qed

text \<open>The families of the columns are types of the context.\<close>

definition fams_valid :: "adt_ctx \<Rightarrow> tref option list \<Rightarrow> bool" where
  "fams_valid ctx fams \<longleftrightarrow> (\<forall>f. Some f \<in> set fams \<longrightarrow> f < length (ax_types ctx))"

lemma family_for_name_valid: "adt_i_family_for_name ctx name = Some f \<Longrightarrow> f < length (ax_types ctx)"
  by (auto simp: adt_i_family_for_name_def find_Some_iff)

lemma fams_of_valid: "fams_valid ctx (fams_of ctx c)"
proof -
  have "family_of ctx t = Some f \<Longrightarrow> f < length (ax_types ctx)" for t f
    by (cases "term_of (adt_nodes ctx) t") (auto simp: family_of_def dest: family_for_name_valid)
  then show ?thesis by (fastforce simp: fams_valid_def fams_of_def)
qed

lemma fams_valid_append: "fams_valid ctx (xs @ ys) \<longleftrightarrow> fams_valid ctx xs \<and> fams_valid ctx ys"
  by (auto simp: fams_valid_def)

lemma fams_valid_tl: "fams_valid ctx fams \<Longrightarrow> fams_valid ctx (tl fams)"
  by (cases fams) (auto simp: fams_valid_def)

text \<open>What a call of the recursion is right about: the columns it is asked for, and the rows as it sees them.\<close>

definition proper :: "adt_ctx \<Rightarrow> adt_i_row list \<Rightarrow> adt_i_row \<Rightarrow> tref option list \<Rightarrow> bool" where
  "proper ctx rows q fams \<longleftrightarrow> adt_ok ctx \<and> rows_suit ctx fams rows \<and> list_all2 (suits ctx) fams q \<and> fams_valid ctx fams"

definition answers :: "adt_ctx \<Rightarrow> adt_i_row list \<Rightarrow> adt_i_row \<Rightarrow> tref option list \<Rightarrow> adt_ctx \<times> int \<Rightarrow> bool" where
  "answers ctx rows q fams res \<longleftrightarrow> steady ctx (fst res) \<and> snd res = of_bool (\<exists>vs. left ctx rows q fams vs)"

definition sound :: "usefulness \<Rightarrow> bool" where
  "sound useful \<longleftrightarrow> (\<forall>ctx rows q fams res. proper ctx (seen_rows ctx fams rows) q fams
    \<longrightarrow> useful ctx rows q fams = Some res \<longrightarrow> answers ctx (seen_rows ctx fams rows) q fams res)"

lemma proper_steady: "steady ctx ctx' \<Longrightarrow> proper ctx' rows q fams \<longleftrightarrow> proper ctx rows q fams"
  using steady_facts [of ctx ctx'] steady_typed [of ctx ctx'] by (simp add: proper_def rows_suit_def fams_valid_def)

lemma proper_spec:
  assumes "proper ctx rows q fams" and "q \<noteq> []" and "spec_fits c q"
  shows "proper ctx (map (spec_cols ctx c) (filter (spec_fits c) rows)) (spec_cols ctx c q) (fams_of ctx c @ tl fams)"
proof -
  have "fams \<noteq> []" using assms by (auto simp: proper_def)
  then have "\<And>row. row \<in> set rows \<Longrightarrow> row \<noteq> []" using assms(1) by (auto simp: proper_def rows_suit_def)
  then show ?thesis using assms spec_suits [of ctx fams _ c]
    by (auto simp: proper_def rows_suit_def fams_valid_append fams_of_valid fams_valid_tl)
qed

lemma seen_steady:
  assumes "steady ctx ctx'"
  shows "seen_row ctx' = seen_row ctx"
  using seen_cong(2) [OF steady_facts(3) [OF assms]] by (simp add: fun_eq_iff)

lemma proper_seen: "proper ctx rows q fams \<Longrightarrow> seen_rows ctx fams rows = rows"
proof -
  assume p: "proper ctx rows q fams"
  have "seen_row ctx fams row = row" if "row \<in> set rows" for row
  proof -
    have "list_all2 (suits ctx) fams row" using p that by (simp add: proper_def rows_suit_def)
    from list_all2_mono [OF this seen_suits] show ?thesis by (intro seen_row_suits) simp
  qed
  then show ?thesis by (simp add: map_idI)
qed

text \<open>A call on specialised columns, where the rows may have constructors in columns without a family.\<close>

lemma ctor_call:
  assumes ag: "\<forall>k. ag k" and p: "proper ctx (seen_rows ctx fams rows) q fams" and q: "q \<noteq> []" "spec_fits c q"
    and c: "valid_ctor ctx c" "hd fams = Some (fst c)"
  obtains ctx' rows' q' fams' where "steady ctx ctx'" "adt_i_useful_ctor ag useful ctx rows q fams c (adt_i_wc (hd q)) = useful ctx' rows' q' fams'"
    "proper ctx' (seen_rows ctx' fams' rows') q' fams'" "fams' = fams_of ctx c @ tl fams"
    "(\<exists>ws. left ctx' (seen_rows ctx' fams' rows') q' fams' ws)
      \<longleftrightarrow> (\<exists>args vs. left ctx (seen_rows ctx fams rows) q fams (Con c args # vs))"
proof -
  have p': "adt_ok ctx" "rows_suit ctx fams (seen_rows ctx fams rows)" "list_all2 (suits ctx) fams q" using p by (simp_all add: proper_def)
  obtain fs where fams: "fams = Some (fst c) # fs" using p'(3) q(1) c(2) by (cases fams) auto
  have sz: "\<forall>row \<in> set rows. sized ctx c row" using p'(2) seen_sized [of ctx "fst c" fs] by (simp add: rows_suit_def fams)
  obtain ctx' where st: "steady ctx ctx'" and eq: "adt_i_useful_ctor ag useful ctx rows q fams c (adt_i_wc (hd q))
    = useful ctx' (map (spec_cols ctx c) (filter (spec_fits c) rows)) (spec_cols ctx c q) (fams_of ctx c @ tl fams)"
    using ctor_step_sized [OF p'(1) c(1) ag sz p'(3) q] by blast
  have sn: "seen_rows ctx' (fams_of ctx c @ tl fams) (map (spec_cols ctx c) (filter (spec_fits c) rows))
    = map (spec_cols ctx c) (filter (spec_fits c) (seen_rows ctx fams rows))"
    using specs_seen [OF fams sz] unfolding seen_steady [OF st] by (simp add: fams)
  show thesis
  proof (rule that [OF st eq _ refl])
    show "proper ctx' (seen_rows ctx' (fams_of ctx c @ tl fams) (map (spec_cols ctx c) (filter (spec_fits c) rows)))
        (spec_cols ctx c q) (fams_of ctx c @ tl fams)"
      using proper_spec [OF p q] proper_steady [OF st] unfolding sn by simp
    show "(\<exists>ws. left ctx' (seen_rows ctx' (fams_of ctx c @ tl fams) (map (spec_cols ctx c) (filter (spec_fits c) rows)))
        (spec_cols ctx c q) (fams_of ctx c @ tl fams) ws)
      \<longleftrightarrow> (\<exists>args vs. left ctx (seen_rows ctx fams rows) q fams (Con c args # vs))"
      using left_ctor [OF p'(2,3) q c] unfolding sn left_steady [OF st] .
  qed
qed

lemma ctor_sound:
  assumes s: "sound useful" and ag: "\<forall>k. ag k" and p: "proper ctx (seen_rows ctx fams rows) q fams" and q: "q \<noteq> []" "spec_fits c q"
    and c: "valid_ctor ctx c" "hd fams = Some (fst c)"
    and r: "adt_i_useful_ctor ag useful ctx rows q fams c (adt_i_wc (hd q)) = Some res"
  shows "steady ctx (fst res)" "snd res = of_bool (\<exists>args vs. left ctx (seen_rows ctx fams rows) q fams (Con c args # vs))"
proof -
  obtain ctx' rows' q' fams' where st: "steady ctx ctx'"
    and eq: "adt_i_useful_ctor ag useful ctx rows q fams c (adt_i_wc (hd q)) = useful ctx' rows' q' fams'"
    and p': "proper ctx' (seen_rows ctx' fams' rows') q' fams'"
    and l: "(\<exists>ws. left ctx' (seen_rows ctx' fams' rows') q' fams' ws)
      \<longleftrightarrow> (\<exists>args vs. left ctx (seen_rows ctx fams rows) q fams (Con c args # vs))"
    by (rule ctor_call [OF ag p q c])
  have "answers ctx' (seen_rows ctx' fams' rows') q' fams' res" using s r p' unfolding eq sound_def by blast
  then show "steady ctx (fst res)" "snd res = of_bool (\<exists>args vs. left ctx (seen_rows ctx fams rows) q fams (Con c args # vs))"
    using steady_trans [OF st] l unfolding answers_def by simp_all
qed

lemma enumerate_sound:
  assumes s: "sound useful" and ag: "\<forall>k. ag k" and q: "q \<noteq> []" "adt_i_wc (hd q)"
  shows "proper ctx (seen_rows ctx fams rows) q fams \<Longrightarrow> \<forall>c \<in> set cs. valid_ctor ctx c \<and> hd fams = Some (fst c)
    \<Longrightarrow> adt_i_useful_enumerate ag useful ctx rows q fams cs = Some res
    \<Longrightarrow> steady ctx (fst res) \<and> snd res = of_bool (\<exists>c \<in> set cs. \<exists>args vs. left ctx (seen_rows ctx fams rows) q fams (Con c args # vs))"
proof (induction cs arbitrary: ctx)
  case (Cons c cs)
  have fits: "spec_fits c q" using q(2) by (simp add: spec_fits_def)
  have c: "valid_ctor ctx c" "hd fams = Some (fst c)" using Cons.prems(2) by simp_all
  obtain ctx1 r where r: "adt_i_useful_ctor ag useful ctx rows q fams c True = Some (ctx1, r)"
    using Cons.prems(3) by (cases "adt_i_useful_ctor ag useful ctx rows q fams c True") auto
  then have cs: "steady ctx ctx1" "r = of_bool (\<exists>args vs. left ctx (seen_rows ctx fams rows) q fams (Con c args # vs))"
    using ctor_sound [OF s ag Cons.prems(1) q(1) fits c, of "(ctx1, r)"] q(2) by simp_all
  show ?case
  proof (cases "\<exists>args vs. left ctx (seen_rows ctx fams rows) q fams (Con c args # vs)")
    case True
    then show ?thesis using r cs Cons.prems(3) by auto
  next
    case False
    then have "adt_i_useful_enumerate ag useful ctx1 rows q fams cs = Some res" using r cs Cons.prems(3) by simp
    from Cons.IH [OF _ _ this] have "steady ctx1 (fst res) \<and> snd res = of_bool (\<exists>c \<in> set cs. \<exists>args vs. left ctx (seen_rows ctx fams rows) q fams (Con c args # vs))"
      using Cons.prems(1,2) proper_steady [OF cs(1)] steady_facts(4) [OF cs(1)] left_steady [OF cs(1)] seen_steady [OF cs(1)] by simp
    then show ?thesis using False steady_trans [OF cs(1)] by auto
  qed
qed auto

text \<open>A column whose values are opaque: the values are matched by wildcards only.\<close>

lemma opaque_wild: "suits ctx None p \<Longrightarrow> adt_i_wc p"
  by (auto simp: suits_iff adt_i_wc_def split: adt_pattern.splits)

lemma opaque_match:
  assumes "list_all2 (suits ctx) (None # fs) row"
  shows "pmatches row (v # vs) \<longleftrightarrow> pmatches (tl row) vs"
  using assms by (cases row) (auto dest: opaque_wild wc_pmatch)

lemma left_opaque:
  assumes "rows_suit ctx (None # fs) rows" and "list_all2 (suits ctx) (None # fs) q"
  shows "left ctx rows q (None # fs) (v # vs) \<longleftrightarrow> left ctx (map tl rows) (tl q) fs vs"
  using opaque_match [OF assms(2), of v vs] opaque_match [of ctx fs _ v vs] assms(1)
  by (simp add: left_def rows_suit_def typed_iff)

lemma proper_opaque: "proper ctx rows q (None # fs) \<Longrightarrow> proper ctx (map tl rows) (tl q) fs"
  by (auto simp: proper_def rows_suit_def fams_valid_def list_all2_Cons1)

lemma seen_opaque: "\<forall>row \<in> set rows. row \<noteq> [] \<Longrightarrow> map tl (seen_rows ctx (None # fs) rows) = seen_rows ctx fs (map tl rows)"
  by (induction rows) (auto simp: neq_Nil_conv)

lemma covered_seen: "adt_i_ctor_covered rows \<Longrightarrow> adt_i_ctor_covered (seen_rows ctx fams rows)"
  unfolding adt_i_ctor_covered_def list_ex_iff adt_i_row_all_wild_def
  by (metis (no_types, lifting) image_eqI list.set_map seen_row_wild)

theorem useful_sound:
  assumes ag: "\<forall>k. ag k"
  shows "sound (adt_i_useful ag n)"
proof (induction n)
  case (Suc n)
  show ?case
    unfolding sound_def
  proof (intro allI impI)
    fix ctx rows q fams res
    let ?rows = "seen_rows ctx fams rows"
    assume p: "proper ctx ?rows q fams" and r: "adt_i_useful ag (Suc n) ctx rows q fams = Some res"
    have suit: "rows_suit ctx fams ?rows" "list_all2 (suits ctx) fams q" using p by (simp_all add: proper_def)
    consider (covered) "adt_i_ctor_covered rows" | (nocol) "\<not> adt_i_ctor_covered rows" "q = []"
      | (ctor) "\<not> adt_i_ctor_covered rows" "q \<noteq> []" "\<not> adt_i_wc (hd q)"
      | (wild) "\<not> adt_i_ctor_covered rows" "q \<noteq> []" "adt_i_wc (hd q)" by blast
    then show "answers ctx ?rows q fams res"
    proof cases
      case covered
      then show ?thesis using r covered_left [OF suit(1) covered_seen [OF covered]] by (auto simp: answers_def)
    next
      case nocol
      have "rows = []"
      proof (rule ccontr)
        assume "rows \<noteq> []"
        then obtain row where "row \<in> set rows" by (cases rows) auto
        then have "[] \<in> set rows" using suit nocol by (fastforce simp: rows_suit_def)
        then show False using nocol(1) by (auto simp: adt_i_ctor_covered_def list_ex_iff adt_i_row_all_wild_def)
      qed
      then have "left ctx ?rows q fams []" using suit nocol by (simp add: left_def)
      then show ?thesis using r nocol by (auto simp: answers_def)
    next
      case ctor
      obtain f fs x xs where fq: "fams = f # fs" "q = x # xs" "suits ctx f x" using suit(2) ctor(2) by (cases fams; cases q) auto
      let ?c = "pat_ctor (hd q)"
      have c: "valid_ctor ctx ?c" "hd fams = Some (fst ?c)" "spec_fits ?c q"
        using suits_args(1,2) [OF fq(3)] ctor(3) fq by (simp_all add: spec_fits_def)
      have "adt_i_useful_ctor ag (adt_i_useful ag n) ctx rows q fams ?c (adt_i_wc (hd q)) = Some res" using r ctor by simp
      note cs = ctor_sound [OF Suc ag p ctor(2) c(3) c(1,2) this]
      have "(\<exists>ws. left ctx ?rows q fams ws) \<longleftrightarrow> (\<exists>args vs. left ctx ?rows q fams (Con ?c args # vs))"
      proof
        assume "\<exists>ws. left ctx ?rows q fams ws"
        then obtain ws where ws: "left ctx ?rows q fams ws" ..
        then obtain v vs where v: "ws = v # vs" "pmatch x v" using fq by (cases ws) (auto simp: left_def)
        then obtain args where "v = Con ?c args" using ctor(3) fq(2) by (cases x rule: wc_cases; cases v) (auto simp: pat_ctor_def)
        then show "\<exists>args vs. left ctx ?rows q fams (Con ?c args # vs)" using ws v by blast
      qed blast
      then show ?thesis using cs by (simp add: answers_def)
    next
      case wild
      show ?thesis
      proof (cases "hd fams")
        case None
        then obtain fs where fams: "fams = None # fs" using suit(2) wild(2) by (cases fams) auto
        have "adt_i_useful ag n ctx (map tl rows) (tl q) fs = Some res" using r wild None fams by (simp add: adt_i_useful_abstract_def)
        moreover have "\<forall>row \<in> set rows. row \<noteq> []" using suit(1) fams by (fastforce simp: rows_suit_def)
        note sn = seen_opaque [OF this, of ctx fs, folded fams]
        have "proper ctx (seen_rows ctx fs (map tl rows)) (tl q) fs" using p proper_opaque [of ctx ?rows q fs] unfolding sn by (simp only: fams)
        ultimately have "answers ctx (seen_rows ctx fs (map tl rows)) (tl q) fs res" using Suc unfolding sound_def by blast
        then have a: "answers ctx (map tl ?rows) (tl q) fs res" unfolding sn .
        have "(\<exists>ws. left ctx ?rows q fams ws) \<longleftrightarrow> (\<exists>vs. left ctx (map tl ?rows) (tl q) fs vs)"
        proof
          assume "\<exists>ws. left ctx ?rows q fams ws"
          then obtain ws where ws: "left ctx ?rows q fams ws" ..
          then obtain v vs where "ws = v # vs" using fams by (cases ws) (auto simp: left_def)
          then show "\<exists>vs. left ctx (map tl ?rows) (tl q) fs vs" using ws left_opaque [of ctx fs ?rows q v vs] suit by (metis fams)
        next
          assume "\<exists>vs. left ctx (map tl ?rows) (tl q) fs vs"
          then obtain vs where "left ctx ?rows q fams (Opaque 0 # vs)" using left_opaque [of ctx fs ?rows q] suit by (metis fams)
          then show "\<exists>ws. left ctx ?rows q fams ws" ..
        qed
        then show ?thesis using a by (simp add: answers_def)
      next
        case (Some fam)
        let ?cs = "map (Pair fam) [0..<length (ay_ctors (the_type ctx fam))]"
        obtain fs where fams: "fams = Some fam # fs" using suit(2) wild(2) Some by (cases fams) auto
        have "fam < length (ax_types ctx)" using p fams by (auto simp: proper_def fams_valid_def)
        then have cs: "set ?cs = {c. valid_ctor ctx c \<and> fst c = fam}" by (auto simp: valid_ctor_def)
        have e: "adt_i_useful_enumerate ag (adt_i_useful ag n) ctx rows q fams ?cs = Some res" using r wild Some by simp
        have "\<forall>c \<in> set ?cs. valid_ctor ctx c \<and> hd fams = Some (fst c)" unfolding cs fams by simp
        note en = enumerate_sound [OF Suc ag wild(2,3) p this e]
        have "(\<exists>ws. left ctx ?rows q fams ws) \<longleftrightarrow> (\<exists>c \<in> set ?cs. \<exists>args vs. left ctx ?rows q fams (Con c args # vs))"
        proof
          assume "\<exists>ws. left ctx ?rows q fams ws"
          then obtain ws where ws: "left ctx ?rows q fams ws" ..
          then obtain v vs where v: "ws = v # vs" "typed ctx (Some fam) v" using fams by (cases ws) (auto simp: left_def)
          then obtain k args where "v = Con (fam, k) args" "valid_ctor ctx (fam, k)" by (auto simp: typed_iff)
          then show "\<exists>c \<in> set ?cs. \<exists>args vs. left ctx ?rows q fams (Con c args # vs)" using ws v unfolding cs by auto
        qed blast
        then show ?thesis using en by (simp add: answers_def)
      qed
    qed
  qed
qed (simp add: sound_def)

end
