(* ===== verification/Adt_Stable.thy ===== *)
theory Adt_Stable
  imports Adt_Match
begin

text \<open>What no operation of \<open>libadt89\<close> changes: the declarations of sealed types and the names of constructors.\<close>

section \<open>Operations that leave the declarations alone\<close>

lemma alloc_types: "ax_types (fst (adt_i_alloc ag ctx)) = ax_types ctx" "ax_types (fst (adt_i_temp_alloc ag ctx)) = ax_types ctx"
  by (simp_all add: adt_i_alloc_def adt_i_temp_alloc_def)

lemma fail_types [simp]: "ax_types (fst (adt_i_fail ag ctx st knd msg ty c e)) = ax_types ctx"
  by (simp add: adt_i_fail_def adt_i_alloc_def)

lemma fail_pair: "adt_i_fail ag ctx st knd msg ty c e = (ctx', st') \<Longrightarrow> ax_types ctx' = ax_types ctx \<and> st' = st"
  by (auto simp: adt_i_fail_def adt_i_alloc_def split: if_splits)

lemma register_types: "adt_i_register_pattern ag ctx p = (ctx', b) \<Longrightarrow> ax_types ctx' = ax_types ctx"
  by (auto simp: adt_i_register_pattern_def adt_i_grow_def adt_i_alloc_def split: if_splits)

lemma wildcard_types: "adt_pattern_wildcard ag ctx = (ctx', r) \<Longrightarrow> ax_types ctx' = ax_types ctx"
  by (auto simp: adt_pattern_wildcard_def adt_i_alloc_def dest!: register_types split: if_splits prod.splits)

lemma pattern_ctor_types: "adt_pattern_ctor ag ctx c count args = (ctx', r) \<Longrightarrow> ax_types ctx' = ax_types ctx"
  unfolding adt_pattern_ctor_def adt_i_ctor_pattern_args_def Let_def
  by (auto simp: adt_i_alloc_def dest!: register_types split: if_splits option.splits prod.splits)

lemma check_args_types: "adt_i_check_args ag ctx ty count args = (ctx', st) \<Longrightarrow> ax_types ctx' = ax_types ctx"
  by (auto simp: adt_i_check_args_def adt_i_args_arity_def adt_i_args_present_def adt_i_args_elements_def seq_ok_def
    split: if_splits prod.splits dest!: fail_pair)

lemma apply_types: "adt_type_apply ag hg ctx ty count args = (ctx', r) \<Longrightarrow> ax_types ctx' = ax_types ctx"
  by (auto simp: adt_type_apply_def split: option.splits prod.splits if_splits dest!: check_args_types)

text \<open>A loop that goes on while the status is \<open>ADT_OK\<close>.\<close>

lemma loop_types:
  assumes "(r \<bind> (\<lambda>(ctx, st). if st \<noteq> ADT_OK then Some (ctx, st) else k ctx)) = Some (ctx', st')"
    and "\<And>ctx1 st1. r = Some (ctx1, st1) \<Longrightarrow> ax_types ctx1 = ax_types ctx"
    and "\<And>ctx1. k ctx1 = Some (ctx', st') \<Longrightarrow> ax_types ctx' = ax_types ctx1"
  shows "ax_types ctx' = ax_types ctx"
  using assms(1) assms(2,3) by (cases r) (auto split: if_splits)

lemma check_con_types:
  assumes "\<And>ctx t ctx' st. adt_i_check_node ag n ctx ty t = Some (ctx', st) \<Longrightarrow> ax_types ctx' = ax_types ctx"
  shows "adt_i_check_con ag n ctx ty as = Some (ctx', st) \<Longrightarrow> ax_types ctx' = ax_types ctx"
proof (induction "as" arbitrary: ctx)
  case (Cons a as)
  show ?case by (rule loop_types [OF Cons.prems [unfolded adt_i_check_con.simps] assms Cons.IH])
qed simp

lemma check_node_types: "adt_i_check_node ag n ctx ty t = Some (ctx', st) \<Longrightarrow> ax_types ctx' = ax_types ctx"
proof (induction n arbitrary: ctx t ctx' st)
  case (Suc n)
  obtain ns p where p: "hm_type_prune (ctx_nodes (ax_hm ctx)) t = Some (ns, p)" using Suc.prems by (auto split: bind_splits)
  show ?case
  proof (cases "ns ! p")
    case (TVar i l)
    then show ?thesis using Suc.prems p by (auto simp: adt_i_check_var_def Let_def split: if_splits)
  next
    case (TCon f as)
    then have "adt_i_check_con ag n (ctx\<lparr>ax_hm := (ax_hm ctx)\<lparr>ctx_nodes := ns\<rparr>\<rparr>) ty as = Some (ctx', st)" using Suc.prems p by simp
    from check_con_types [OF Suc.IH this] show ?thesis by simp
  qed
qed simp

lemmas check_types = check_con_types [OF check_node_types]

lemma validate_types: "adt_i_validate ag n ctx ty cs = Some (ctx', st) \<Longrightarrow> ax_types ctx' = ax_types ctx"
proof (induction cs arbitrary: ctx)
  case (Cons c cs)
  show ?case by (rule loop_types [OF Cons.prems [unfolded adt_i_validate.simps adt_i_check_ctor_def] check_types Cons.IH])
qed simp

lemma bind_ctors_types: "bind_ctors ag hg ctx ty env is = Some (ctx', st) \<Longrightarrow> ax_types ctx' = ax_types ctx"
proof (induction "is" arbitrary: ctx)
  case (Cons i "is")
  have one: "adt_i_bind_one ag hg ctx (ty, i) env = Some (ctx1, st1) \<Longrightarrow> ax_types ctx1 = ax_types ctx" for ctx1 st1
    by (auto simp: adt_i_bind_one_def adt_i_bind_fail_def Let_def split: built.splits prod.splits if_splits)
  show ?case by (rule loop_types [OF Cons.prems [unfolded bind_ctors.simps] one Cons.IH])
qed simp

lemma type_bind_types: "adt_type_bind ag hg ctx ty env = Some (ctx', st) \<Longrightarrow> ax_types ctx' = ax_types ctx"
  by (auto simp: adt_type_bind_def split: option.splits if_splits dest!: bind_ctors_types)

lemma bind_types_types: "bind_types ag hg ctx env tys = Some (ctx', st) \<Longrightarrow> ax_types ctx' = ax_types ctx"
proof (induction tys arbitrary: ctx)
  case (Cons ty tys)
  show ?case by (rule loop_types [OF Cons.prems [unfolded bind_types.simps] type_bind_types Cons.IH])
qed simp

lemma decompose_types: "adt_i_decompose ag ctx c cur k = Some (ctx', st, fs, res) \<Longrightarrow> ax_types ctx' = ax_types ctx"
proof (induction k arbitrary: ctx cur fs st res)
  case (Suc k)
  have one: "adt_i_is_fun ctx cur = Some (ctx1, f) \<Longrightarrow> ax_types ctx1 = ax_types ctx" for ctx1 f
    by (auto simp: adt_i_is_fun_def split: bind_splits)
  show ?case using Suc by (auto split: bind_splits option.splits dest!: one)
qed simp

lemma prune_fields_types: "adt_i_prune_fields ctx fs = Some (ctx', ps) \<Longrightarrow> ax_types ctx' = ax_types ctx"
  by (induction fs arbitrary: ctx ps) (fastforce split: bind_splits)+

lemma pattern_types_types:
  assumes "adt_pattern_types ag hg n ctx c scrutinee count want = Some (ctx', st, fs, e)"
  shows "ax_types ctx' = ax_types ctx"
proof -
  have check: "adt_i_pattern_check ag ctx c scrutinee count = (ctx1, st1) \<Longrightarrow> ax_types ctx1 = ax_types ctx" for ctx1 st1
    by (auto simp: adt_i_pattern_check_def split: option.splits if_splits dest!: fail_pair)
  show ?thesis using assms unfolding adt_pattern_types_def Let_def
    by (auto split: prod.splits if_splits option.splits built.splits bind_splits dest!: check decompose_types prune_fields_types)
qed

lemma spec_collect_types: "adt_i_spec_collect ag ctx c rows = (ctx', dst) \<Longrightarrow> ax_types ctx' = ax_types ctx"
proof (induction rows arbitrary: ctx ctx' dst)
  case (Cons row rows)
  have one: "ax_types (fst (adt_i_spec_row ag ctx c row)) = ax_types ctx"
    by (simp add: adt_i_spec_row_def adt_i_temp_alloc_def Let_def)
  obtain ctx1 r where r: "adt_i_spec_row ag ctx c row = (ctx1, r)" by (cases "adt_i_spec_row ag ctx c row")
  obtain ctx2 dst2 where d: "adt_i_spec_collect ag ctx1 c rows = (ctx2, dst2)" by (cases "adt_i_spec_collect ag ctx1 c rows")
  show ?case using Cons.prems Cons.IH [OF d] one r d by simp
qed simp

lemma fams_head_types: "adt_i_fams_head ctx c is = Some (ctx', fs) \<Longrightarrow> ax_types ctx' = ax_types ctx"
proof (induction "is" arbitrary: ctx fs)
  case (Cons i "is")
  have one: "adt_i_field_family ctx c i = Some (ctx1, f) \<Longrightarrow> ax_types ctx1 = ax_types ctx" for ctx1 f
    by (auto simp: adt_i_field_family_def Let_def split: bind_splits)
  show ?case using Cons by (auto split: bind_splits dest!: one)
qed simp

definition keeping :: "usefulness \<Rightarrow> bool" where
  "keeping useful \<longleftrightarrow> (\<forall>ctx rows q fams ctx' r. useful ctx rows q fams = Some (ctx', r) \<longrightarrow> ax_types ctx' = ax_types ctx)"

lemma useful_ctor_types:
  assumes "keeping useful" and r: "adt_i_useful_ctor ag useful ctx rows q fams c w = Some (ctx', r)"
  shows "ax_types ctx' = ax_types ctx"
proof -
  have sp: "adt_i_specialize ag ctx rows c = (ctx1, o1) \<Longrightarrow> ax_types ctx1 = ax_types ctx" for ctx1 o1
    by (auto simp: adt_i_specialize_def adt_i_temp_alloc_def split: if_splits prod.splits dest!: spec_collect_types)
  have q: "adt_i_make_qcols ag ctx1 c q w = (ctx2, o2) \<Longrightarrow> ax_types ctx2 = ax_types ctx1" for ctx1 ctx2 o2
    by (auto simp: adt_i_make_qcols_def adt_i_temp_alloc_def Let_def)
  have f: "adt_i_concat_fams ag ctx2 c fams = Some (ctx3, o3) \<Longrightarrow> ax_types ctx3 = ax_types ctx2" for ctx2 ctx3 o3
    by (auto simp: adt_i_concat_fams_def adt_i_temp_alloc_def split: if_splits bind_splits dest!: fams_head_types)
  have u: "useful ctx3 rows' q' fams' = Some (ctx', r) \<Longrightarrow> ax_types ctx' = ax_types ctx3" for ctx3 rows' q' fams'
    using assms(1) unfolding keeping_def by blast
  show ?thesis using r unfolding adt_i_useful_ctor_def
    by (auto split: prod.splits option.splits bind_splits dest!: sp q f u)
qed

lemma enumerate_types:
  assumes "keeping useful"
  shows "adt_i_useful_enumerate ag useful ctx rows q fams cs = Some (ctx', r) \<Longrightarrow> ax_types ctx' = ax_types ctx"
proof (induction cs arbitrary: ctx)
  case (Cons c cs)
  show ?case using Cons by (auto split: bind_splits if_splits dest!: useful_ctor_types [OF assms])
qed simp

lemma useful_types: "keeping (adt_i_useful ag n)"
proof (induction n)
  case (Suc n)
  have "adt_i_useful_abstract (adt_i_useful ag n) ctx rows q fams = Some (ctx', r) \<Longrightarrow> ax_types ctx' = ax_types ctx" for ctx rows q fams ctx' r
    using Suc unfolding adt_i_useful_abstract_def keeping_def by blast
  then show ?case unfolding keeping_def
    by (auto split: if_splits option.splits dest!: useful_ctor_types [OF Suc] enumerate_types [OF Suc])
qed (simp add: keeping_def)

lemmas useful_keeps = useful_types [unfolded keeping_def, rule_format]

lemma exhaustive_types: "adt_match_exhaustive ag n ctx ty ps res = Some (ctx', st, res') \<Longrightarrow> ax_types ctx' = ax_types ctx"
  unfolding adt_match_exhaustive_def adt_i_temp_alloc_def
  by (auto split: option.splits if_splits bind_splits dest!: useful_keeps)

lemma mark_types: "mark_redundant ag n ctx fam ps is red = Some (ctx', st, red') \<Longrightarrow> ax_types ctx' = ax_types ctx"
proof (induction "is" arbitrary: ctx red)
  case (Cons i "is")
  have one: "adt_i_useful_prefix ag n ctx fam ps i = Some (ctx1, r) \<Longrightarrow> ax_types ctx1 = ax_types ctx" for ctx1 r
    by (auto simp: adt_i_useful_prefix_def adt_i_temp_alloc_def split: if_splits dest!: useful_keeps)
  show ?case using Cons by (auto split: bind_splits if_splits dest!: one)
qed simp

lemma redundant_types: "adt_match_redundant ag n ctx ps out = Some (ctx', st, out') \<Longrightarrow> ax_types ctx' = ax_types ctx"
  by (auto simp: adt_match_redundant_def split: option.splits bind_splits dest!: mark_types)

section \<open>How declarations grow\<close>

definition sig :: "adt_ctor \<Rightarrow> tref \<times> string \<times> tptr list" where
  "sig c = (ac_owner c, ac_name c, ac_fields c)"

text \<open>Types are only added, constructors only appended, and a sealed type is what it was.\<close>

definition grown :: "adt_type \<Rightarrow> adt_type \<Rightarrow> bool" where
  "grown d d' \<longleftrightarrow> ay_name d' = ay_name d \<and> ay_hm_name d' = ay_hm_name d \<and> ay_params d' = ay_params d
    \<and> (\<exists>cs. map sig (ay_ctors d') = map sig (ay_ctors d) @ cs) \<and> (ay_sealed d \<longrightarrow> d' = d)"

definition evolves :: "adt_ctx \<Rightarrow> adt_ctx \<Rightarrow> bool" where
  "evolves ctx ctx' \<longleftrightarrow> length (ax_types ctx) \<le> length (ax_types ctx')
    \<and> (\<forall>ty < length (ax_types ctx). grown (the_type ctx ty) (the_type ctx' ty))"

lemma grown_refl [simp]: "grown d d"
  by (simp add: grown_def)

lemma grown_trans: "grown d d1 \<Longrightarrow> grown d1 d2 \<Longrightarrow> grown d d2"
  by (auto simp: grown_def)

lemma evolves_refl: "ax_types ctx' = ax_types ctx \<Longrightarrow> evolves ctx ctx'"
  by (simp add: evolves_def)

lemma evolves_trans: "evolves ctx ctx1 \<Longrightarrow> evolves ctx1 ctx2 \<Longrightarrow> evolves ctx ctx2"
  unfolding evolves_def by (meson grown_trans le_trans less_le_trans)

lemma evolves_set: "grown (the_type ctx ty) d \<Longrightarrow> evolves ctx (set_type ctx ty d)"
  by (cases "ty < length (ax_types ctx)") (auto simp: evolves_def set_type_def nth_list_update list_update_beyond)

text \<open>Constructors know their owner, and no two constructors of a context have the same name.\<close>

definition owned :: "adt_ctx \<Rightarrow> bool" where
  "owned ctx \<longleftrightarrow> (\<forall>ty < length (ax_types ctx). \<forall>k < length (ay_ctors (the_type ctx ty)). ac_owner (the_ctor ctx (ty, k)) = ty)"

definition ctor_names :: "adt_ctx \<Rightarrow> string list" where
  "ctor_names ctx = concat (map (\<lambda>d. map ac_name (ay_ctors d)) (ax_types ctx))"

definition tidy :: "adt_ctx \<Rightarrow> bool" where
  "tidy ctx \<longleftrightarrow> owned ctx \<and> distinct (ctor_names ctx)"

lemma tidy_types: "ax_types ctx' = ax_types ctx \<Longrightarrow> tidy ctx' = tidy ctx"
  by (simp add: tidy_def owned_def ctor_names_def)

lemma tidy_set:
  assumes "tidy ctx" and "map sig (ay_ctors d) = map sig (ay_ctors (the_type ctx ty))"
  shows "tidy (set_type ctx ty d)"
proof (cases "ty < length (ax_types ctx)")
  case True
  have n: "map ac_name cs = map (fst \<circ> snd) (map sig cs)" "map ac_owner cs = map fst (map sig cs)" for cs by (simp_all add: sig_def)
  have "map ac_name (ay_ctors d) = map ac_name (ay_ctors (the_type ctx ty))" "map ac_owner (ay_ctors d) = map ac_owner (ay_ctors (the_type ctx ty))"
    unfolding n using assms(2) by simp_all
  moreover from this have "\<forall>k < length (ay_ctors d). ac_owner (ay_ctors d ! k) = ac_owner (the_ctor ctx (ty, k))"
    by (metis fst_conv length_map nth_map snd_conv)
  moreover from assms(2) have "length (ay_ctors d) = length (ay_ctors (the_type ctx ty))" by (metis length_map)
  moreover have "map (\<lambda>d. map ac_name (ay_ctors d)) ((ax_types ctx)[ty := d]) = map (\<lambda>d. map ac_name (ay_ctors d)) (ax_types ctx)"
    using calculation(1) True by (simp add: map_update list_update_same_conv)
  ultimately show ?thesis using assms(1) True by (auto simp: tidy_def owned_def ctor_names_def set_type_def nth_list_update)
next
  case False
  then show ?thesis using assms(1) by (simp add: set_type_def list_update_beyond)
qed

lemma type_new_evolves:
  assumes "adt_type_new ag hg ctx name k = (ctx', r)"
  shows "evolves ctx ctx' \<and> (tidy ctx \<longrightarrow> tidy ctx')"
proof -
  have dup: "adt_i_strdup ag ctx1 s = (ctx2, o1) \<Longrightarrow> ax_types ctx2 = ax_types ctx1" for ctx1 s ctx2 o1
    by (auto simp: adt_i_strdup_def adt_i_alloc_def)
  have hn: "adt_i_make_hm_name ag ctx1 i = (ctx2, o1) \<Longrightarrow> ax_types ctx2 = ax_types ctx1" for ctx1 i ctx2 o1
    by (auto simp: adt_i_make_hm_name_def dest: dup)
  have fill: "adt_i_type_fill_params hg ctx1 j = (ctx2, o1) \<Longrightarrow> ax_types ctx2 = ax_types ctx1" for ctx1 j ctx2 o1
    by (induction j arbitrary: ctx1 ctx2 o1) (simp, fastforce split: prod.splits option.splits)
  have ps: "adt_i_type_alloc_params ag hg ctx1 j = (ctx2, o1) \<Longrightarrow> ax_types ctx2 = ax_types ctx1" for ctx1 j ctx2 o1
    by (auto simp: adt_i_type_alloc_params_def adt_i_alloc_def split: if_splits dest!: fill)
  have oom: "ax_types (adt_i_oom_none ag ctx1) = ax_types ctx1" for ctx1 by (simp add: adt_i_oom_none_def)
  have reg: "adt_i_register_type ag ctx1 d = (ctx2, b) \<Longrightarrow> ax_types ctx2 = ax_types ctx1 @ (if b then [d] else [])" for ctx1 d ctx2 b
    by (auto simp: adt_i_register_type_def adt_i_grow_def adt_i_alloc_def split: if_splits)
  have "ax_types ctx' = ax_types ctx \<or> (\<exists>d. ax_types ctx' = ax_types ctx @ [d] \<and> ay_ctors d = [])"
    using assms unfolding adt_type_new_def adt_i_next_type_id_def adt_i_alloc_def Let_def
    by (auto split: option.splits prod.splits if_splits dest!: dup hn ps reg simp: oom)
  then show ?thesis
    by (auto simp: evolves_def tidy_def owned_def ctor_names_def nth_append less_Suc_eq)
qed

lemma names_update:
  "i < length xs \<Longrightarrow> f y = f (xs ! i) @ [n] \<Longrightarrow> n \<notin> set (concat (map f xs)) \<Longrightarrow> distinct (concat (map f xs))
   \<Longrightarrow> distinct (concat (map f (xs[i := y]))) \<and> set (concat (map f (xs[i := y]))) = insert n (set (concat (map f xs)))"
proof (induction xs arbitrary: i)
  case (Cons x xs)
  show ?case
  proof (cases i)
    case 0
    then show ?thesis using Cons.prems by auto
  next
    case (Suc j)
    have p: "j < length xs" "f y = f (xs ! j) @ [n]" "n \<notin> set (concat (map f xs))" "distinct (concat (map f xs))" using Cons.prems Suc by auto
    then show ?thesis using Cons.IH [OF p] Cons.prems Suc by auto
  qed
qed simp

text \<open>\<open>d'\<close> is \<open>d\<close> with a constructor more.\<close>

definition one_more :: "adt_type \<Rightarrow> adt_ctor \<Rightarrow> adt_type \<Rightarrow> bool" where
  "one_more d c d' \<longleftrightarrow> ay_ctors d' = ay_ctors d @ [c] \<and> ay_name d' = ay_name d \<and> ay_hm_name d' = ay_hm_name d \<and> ay_params d' = ay_params d"

lemma ctor_add_evolves:
  assumes "adt_ctor_add ag ctx ty name k fts = (ctx', r)" and "tidy ctx"
  shows "evolves ctx ctx' \<and> tidy ctx'"
proof -
  have valid: "adt_i_fields_valid ag ctx1 t k fts = (ctx2, b) \<Longrightarrow> ax_types ctx2 = ax_types ctx1" for ctx1 t ctx2 b
    by (auto simp: adt_i_fields_valid_def split: if_splits option.splits)
  have dup: "adt_i_strdup ag ctx1 s = (ctx2, o1) \<Longrightarrow> ax_types ctx2 = ax_types ctx1 \<and> (\<forall>n. o1 = Some n \<longrightarrow> n = s)" for ctx1 s ctx2 o1
    by (auto simp: adt_i_strdup_def adt_i_alloc_def split: if_splits)
  have copy: "adt_i_ctor_copy_fields ag ctx1 k fts = (ctx2, o1) \<Longrightarrow> ax_types ctx2 = ax_types ctx1" for ctx1 ctx2 o1
    by (auto simp: adt_i_ctor_copy_fields_def adt_i_alloc_def split: if_splits)
  have app: "adt_i_ctor_append ag ctx1 t c = (ctx2, b) \<Longrightarrow> ax_types ctx2 = ax_types ctx1
      \<or> (\<exists>d. ax_types ctx2 = (ax_types ctx1)[t := d] \<and> one_more (the_type ctx1 t) c d)"
    for ctx1 t c ctx2 b
    unfolding adt_i_ctor_append_def adt_i_grow_def adt_i_alloc_def set_type_def Let_def one_more_def
    by (cases "ax_types ctx2 = ax_types ctx1") (auto split: if_splits)
  have cases: "ax_types ctx' = ax_types ctx
      \<or> (\<exists>t c d. ax_types ctx' = (ax_types ctx)[t := d] \<and> one_more (the_type ctx t) c d
          \<and> \<not> ay_sealed (the_type ctx t) \<and> ac_owner c = t \<and> \<not> adt_i_ctx_has_ctor_name ctx (ac_name c))"
  proof (cases "ty = None \<or> name = None")
    case True
    then show ?thesis using assms(1) by (cases ty) (auto simp: adt_ctor_add_def)
  next
    case False
    then obtain t s where ty: "ty = Some t" "name = Some s" by auto
    have "ax_types ctx' = ax_types ctx \<or> (\<not> ay_sealed (the_type ctx t) \<and> \<not> adt_i_ctx_has_ctor_name ctx s
      \<and> (\<exists>fs org d. ax_types ctx' = (ax_types ctx)[t := d]
          \<and> one_more (the_type ctx t) \<lparr>ac_owner = t, ac_name = s, ac_fields = fs, ac_scheme = Absent, ac_origin = org\<rparr> d))"
      using assms(1) unfolding adt_ctor_add_def ty adt_i_alloc_def Let_def
      by (simp split: if_splits prod.splits option.splits) (auto dest!: valid dup copy app)
    then show ?thesis by (metis adt_ctor.select_convs(1,2))
  qed
  show ?thesis
  proof (cases "ax_types ctx' = ax_types ctx")
    case True
    then show ?thesis using assms(2) evolves_refl tidy_types by blast
  next
    case False
    then obtain t c d where t: "ax_types ctx' = (ax_types ctx)[t := d]"
      "\<not> ay_sealed (the_type ctx t)" "ac_owner c = t" "\<not> adt_i_ctx_has_ctor_name ctx (ac_name c)" and d: "one_more (the_type ctx t) c d"
      using cases by blast
    have l: "t < length (ax_types ctx)" using t(1) False by (metis list_update_beyond not_le)
    have "ac_name c \<notin> set (ctor_names ctx)"
      using t(4) unfolding ctor_names_def adt_i_ctx_has_ctor_name_def adt_i_ctor_name_taken_def list_ex_iff
      by (simp add: image_iff) metis
    then have "distinct (ctor_names ctx')"
      using names_update [OF l, of "\<lambda>d. map ac_name (ay_ctors d)" _ "ac_name c"] assms(2) d
      unfolding tidy_def ctor_names_def t(1) one_more_def by simp
    moreover have "owned ctx'" using assms(2) t(3) l d by (auto simp: tidy_def owned_def t(1) one_more_def nth_list_update nth_append less_Suc_eq)
    moreover have "evolves ctx ctx'" using t(2) l d by (auto simp: evolves_def t(1) one_more_def nth_list_update grown_def)
    ultimately show ?thesis by (simp add: tidy_def)
  qed
qed

text \<open>While a type is sealed only the schemes of its constructors change.\<close>

definition sealing :: "tref \<Rightarrow> adt_ctx \<Rightarrow> adt_ctx \<Rightarrow> bool" where
  "sealing ty ctx ctx' \<longleftrightarrow> (\<exists>d. ax_types ctx' = (ax_types ctx)[ty := d] \<and> ay_name d = ay_name (the_type ctx ty)
     \<and> ay_hm_name d = ay_hm_name (the_type ctx ty) \<and> ay_params d = ay_params (the_type ctx ty)
     \<and> map sig (ay_ctors d) = map sig (ay_ctors (the_type ctx ty)))"

lemma sealing_types: "ax_types ctx' = ax_types ctx \<Longrightarrow> sealing ty ctx ctx'"
  unfolding sealing_def by (intro exI [of _ "the_type ctx ty"]) simp

lemma sealing_trans: "sealing ty ctx ctx1 \<Longrightarrow> sealing ty ctx1 ctx2 \<Longrightarrow> sealing ty ctx ctx2"
  unfolding sealing_def by (cases "ty < length (ax_types ctx)") (auto simp: list_update_beyond)

lemma sealing_evolves:
  assumes "sealing ty ctx ctx'" and "\<not> ay_sealed (the_type ctx ty)"
  shows "evolves ctx ctx' \<and> (tidy ctx \<longrightarrow> tidy ctx')"
proof -
  obtain d where d: "ax_types ctx' = ax_types (set_type ctx ty d)" "grown (the_type ctx ty) d" "map sig (ay_ctors d) = map sig (ay_ctors (the_type ctx ty))"
    using assms by (auto simp: sealing_def set_type_def grown_def)
  have "evolves ctx ctx'" using evolves_set [OF d(2)] d(1) by (simp add: evolves_def)
  then show ?thesis using tidy_set [OF _ d(3)] tidy_types [OF d(1)] by blast
qed

lemma set_scheme_sealing: "sealing (fst c) ctx (set_scheme ctx c sc)"
proof -
  have "map sig ((ay_ctors d)[k := (ay_ctors d ! k)\<lparr>ac_scheme := sc\<rparr>]) = map sig (ay_ctors d)" for d k
    by (cases "k < length (ay_ctors d)") (simp_all add: map_update list_update_same_conv list_update_beyond sig_def)
  then show ?thesis unfolding sealing_def set_scheme_def set_type_def Let_def by (intro exI) auto
qed

lemma gen_one_sealing: "adt_i_gen_one ag hg ctx c res = Some (ctx', st) \<Longrightarrow> sealing (fst c) ctx ctx'"
proof -
  assume r: "adt_i_gen_one ag hg ctx c res = Some (ctx', st)"
  have body: "fold (adt_i_fold_field hg) fs (ctx1, b1) = (ctx2, b2) \<Longrightarrow> ax_types ctx2 = ax_types ctx1" for fs ctx1 b1 ctx2 b2
  proof (induction fs arbitrary: ctx1 b1)
    case (Cons f fs)
    have "ax_types (fst (adt_i_fold_field hg f (ctx1, b1))) = ax_types ctx1"
      by (auto simp: adt_i_fold_field_def split: built.splits prod.splits option.splits)
    then show ?case using Cons.IH [of "fst (adt_i_fold_field hg f (ctx1, b1))" "snd (adt_i_fold_field hg f (ctx1, b1))"] Cons.prems by simp
  qed simp
  obtain ctx1 b1 where b: "adt_i_make_body hg ctx res (the_ctor ctx c) = (ctx1, b1)" by (cases "adt_i_make_body hg ctx res (the_ctor ctx c)")
  have t1: "ax_types ctx1 = ax_types ctx" using body b by (simp add: adt_i_make_body_def)
  show ?thesis
  proof (cases "ax_types ctx' = ax_types ctx")
    case True
    then show ?thesis by (rule sealing_types)
  next
    case False
    have whole: "b1 \<noteq> Absent" using False r b t1 by (auto simp: adt_i_gen_one_def Let_def)
    then obtain hm o1 where s: "hm_scheme_new hg (ax_hm ctx1) (ay_params (the_type ctx1 (fst c))) (Some (case b1 of Whole b \<Rightarrow> b | _ \<Rightarrow> 0)) = Some (hm, o1)"
      using r b unfolding adt_i_gen_one_def Let_def by (auto split: bind_splits)
    have eq: "(ctx', st) = (case o1 of
        None \<Rightarrow> (fst (adt_i_fail ag (ctx1\<lparr>ax_hm := hm\<rparr>) ADT_ERROR_NOMEM ADT_ERR_INVALID ''scheme generation failed'' (Some (fst c)) (Some c) None), ADT_ERROR_NOMEM)
      | Some sc \<Rightarrow> (set_scheme (ctx1\<lparr>ax_hm := hm\<rparr>) c (case b1 of Whole b \<Rightarrow> Whole sc | _ \<Rightarrow> Holed), ADT_OK))"
      using r whole by (simp add: adt_i_gen_one_def Let_def b s)
    have "o1 \<noteq> None" using eq False t1 by (cases o1) auto
    then obtain sc where "ctx' = set_scheme (ctx1\<lparr>ax_hm := hm\<rparr>) c sc" using eq by auto
    then have "sealing (fst c) (ctx1\<lparr>ax_hm := hm\<rparr>) ctx'" by (simp only: set_scheme_sealing)
    moreover have "sealing (fst c) ctx (ctx1\<lparr>ax_hm := hm\<rparr>)" by (rule sealing_types) (simp add: t1)
    ultimately show ?thesis by (rule sealing_trans [rotated])
  qed
qed

lemma generate_sealing: "adt_i_generate ag hg ctx ty res is = Some (ctx', st) \<Longrightarrow> sealing ty ctx ctx'"
proof (induction "is" arbitrary: ctx)
  case (Cons i "is")
  obtain ctx1 st1 where g: "adt_i_gen_one ag hg ctx (ty, i) res = Some (ctx1, st1)" using Cons.prems by (auto split: bind_splits)
  show ?case
  proof (cases "st1 = ADT_OK")
    case True
    then have "adt_i_generate ag hg ctx1 ty res is = Some (ctx', st)" using Cons.prems g by simp
    from Cons.IH [OF this] show ?thesis using sealing_trans gen_one_sealing [OF g] by simp
  next
    case False
    then show ?thesis using Cons.prems g gen_one_sealing [OF g] by simp
  qed
qed (simp add: sealing_types)

lemma seal_sealing:
  assumes "adt_type_seal ag hg n ctx (Some ty) = Some (ctx', st)"
  shows "sealing ty ctx ctx'"
proof (cases "ay_sealed (the_type ctx ty)")
  case True
  then show ?thesis using assms by (simp add: adt_type_seal_def sealing_types)
next
  case False
  obtain ctx1 st1 where v: "adt_i_validate ag n ctx ty (ay_ctors (the_type ctx ty)) = Some (ctx1, st1)"
    using assms False by (auto simp: adt_type_seal_def split: bind_splits)
  note t1 = validate_types [OF v]
  show ?thesis
  proof (cases "st1 = ADT_OK")
    case ok: True
    obtain ctx2 r where m: "adt_i_make_result ag hg ctx1 ty = (ctx2, r)" by (cases "adt_i_make_result ag hg ctx1 ty")
    have t2: "ax_types ctx2 = ax_types ctx1" using m by (auto simp: adt_i_make_result_def Let_def dest: apply_types)
    show ?thesis
    proof (cases r)
      case None
      then show ?thesis using assms False v ok m t1 t2 by (simp add: adt_type_seal_def sealing_types)
    next
      case (Some res)
      obtain ctx3 st3 where g: "adt_i_generate ag hg ctx2 ty res [0..<length (ay_ctors (the_type ctx2 ty))] = Some (ctx3, st3)"
        using assms False v ok m Some by (auto simp: adt_type_seal_def split: bind_splits)
      have "sealing ty ctx ctx3" using sealing_trans [OF sealing_types generate_sealing [OF g]] t1 t2 by simp
      moreover have "sealing ty ctx3 (set_type ctx3 ty ((the_type ctx3 ty)\<lparr>ay_sealed := True\<rparr>))"
        unfolding sealing_def set_type_def by (intro exI) auto
      moreover have "ctx' = ctx3 \<or> ctx' = set_type ctx3 ty ((the_type ctx3 ty)\<lparr>ay_sealed := True\<rparr>)"
        using assms False v ok m Some g by (auto simp: adt_type_seal_def split: if_splits)
      ultimately show ?thesis using sealing_trans by blast
    qed
  next
    case bad: False
    then show ?thesis using assms False v t1 by (simp add: adt_type_seal_def sealing_types)
  qed
qed

lemma seal_evolves:
  assumes "adt_type_seal ag hg n ctx (Some ty) = Some (ctx', st)"
  shows "evolves ctx ctx' \<and> (tidy ctx \<longrightarrow> tidy ctx')"
proof (cases "ay_sealed (the_type ctx ty)")
  case True
  then show ?thesis using assms by (simp add: adt_type_seal_def evolves_refl)
next
  case False
  then show ?thesis using sealing_evolves [OF seal_sealing [OF assms]] by blast
qed

section \<open>Any use of a context\<close>

text \<open>A step is one call of the library, with any arguments, that returns; or the client of \<open>libhm89\<close> changes the
  graph of types in any way.\<close>

inductive adt_step :: "(nat \<Rightarrow> bool) \<Rightarrow> (nat \<Rightarrow> bool) \<Rightarrow> adt_ctx \<Rightarrow> adt_ctx \<Rightarrow> bool" for ag hg where
  step_type: "adt_type_new ag hg ctx name k = (ctx', r) \<Longrightarrow> adt_step ag hg ctx ctx'"
| step_ctor: "adt_ctor_add ag ctx ty name k fts = (ctx', r) \<Longrightarrow> adt_step ag hg ctx ctx'"
| step_seal: "adt_type_seal ag hg n ctx (Some ty) = Some (ctx', st) \<Longrightarrow> adt_step ag hg ctx ctx'"
| step_apply: "adt_type_apply ag hg ctx ty count args = (ctx', t) \<Longrightarrow> adt_step ag hg ctx ctx'"
| step_bind: "adt_type_bind ag hg ctx ty env = Some (ctx', st) \<Longrightarrow> adt_step ag hg ctx ctx'"
| step_bind_all: "adt_ctx_bind_all ag hg ctx env = Some (ctx', st) \<Longrightarrow> adt_step ag hg ctx ctx'"
| step_types: "adt_pattern_types ag hg n ctx c scrutinee count want = Some (ctx', st, fs, e) \<Longrightarrow> adt_step ag hg ctx ctx'"
| step_wildcard: "adt_pattern_wildcard ag ctx = (ctx', p) \<Longrightarrow> adt_step ag hg ctx ctx'"
| step_pattern: "adt_pattern_ctor ag ctx c count ps = (ctx', p) \<Longrightarrow> adt_step ag hg ctx ctx'"
| step_exhaustive: "adt_match_exhaustive ag n ctx ty pats res = Some (ctx', st, res') \<Longrightarrow> adt_step ag hg ctx ctx'"
| step_redundant: "adt_match_redundant ag n ctx pats' out = Some (ctx', st, out') \<Longrightarrow> adt_step ag hg ctx ctx'"
| step_origin: "adt_ctx_set_origin (Some ctx) org = Some ctx' \<Longrightarrow> adt_step ag hg ctx ctx'"
| step_client: "adt_step ag hg ctx (ctx\<lparr>ax_hm := hm\<rparr>)"

lemma quiet: "ax_types ctx' = ax_types ctx \<Longrightarrow> tidy ctx \<Longrightarrow> evolves ctx ctx' \<and> tidy ctx'"
  using evolves_refl tidy_types by blast

lemma step_keeps: "adt_step ag hg ctx ctx' \<Longrightarrow> tidy ctx \<Longrightarrow> evolves ctx ctx' \<and> tidy ctx'"
proof (induction rule: adt_step.induct)
  case step_type
  then show ?case using type_new_evolves by blast
next
  case step_ctor
  then show ?case using ctor_add_evolves by blast
next
  case step_seal
  then show ?case using seal_evolves by blast
next
  case step_origin
  then show ?case by (intro quiet) (auto simp: adt_ctx_set_origin_def)
next
  case (step_bind_all ctx env ctx' st)
  from bind_types_types [OF step_bind_all.hyps [unfolded adt_ctx_bind_all_def]] show ?case by (rule quiet) (rule step_bind_all.prems)
next
  case (step_client ctx hm)
  then show ?case by (intro quiet) simp_all
qed (rule quiet,
  erule apply_types type_bind_types pattern_types_types wildcard_types pattern_ctor_types exhaustive_types redundant_types, assumption)+

lemma steps_keep: "(adt_step ag hg)\<^sup>*\<^sup>* ctx ctx' \<Longrightarrow> tidy ctx \<Longrightarrow> evolves ctx ctx' \<and> tidy ctx'"
proof (induction rule: rtranclp_induct)
  case base
  then show ?case by (simp add: evolves_refl)
next
  case (step ctx1 ctx2)
  then show ?case using step_keeps evolves_trans by blast
qed

text \<open>C25: Whatever is called on a context from its creation on, whatever requests for memory are refused: every
  constructor knows its owner, no two constructors of the context have the same name, declarations only
  grow, and a sealed type never changes again.\<close>

theorem declarations_stable:
  assumes new: "adt_ctx_new ag i (Some hm) = Some ctx0" and s1: "(adt_step ag hg)\<^sup>*\<^sup>* ctx0 ctx1" and s2: "(adt_step ag hg)\<^sup>*\<^sup>* ctx1 ctx2"
  shows "tidy ctx1 \<and> evolves ctx1 ctx2"
proof -
  have "tidy ctx0" using new by (auto simp: adt_ctx_new_def adt_i_ctx_new_def tidy_def owned_def ctor_names_def split: if_splits)
  then have "tidy ctx1" using steps_keep [OF s1] by blast
  then show ?thesis using steps_keep [OF s2] by blast
qed

text \<open>A type \<open>bool\<close> is declared, and a constructor each time the state is looked at again.\<close>

theorem declarations_stable_witness:
  "\<exists>ctx1 ctx2. ctor_names ctx1 = [''True''] \<and> ctor_names ctx2 = [''True'', ''False''] \<and> tidy ctx1 \<and> evolves ctx1 ctx2"
proof -
  let ?t = "\<lambda>k :: nat. True" and ?hm = "\<lparr>ctx_nodes = [], ctx_next_id = 0, ctx_origin = None, ctx_envs = [], ctx_allocs = 0\<rparr>"
  let ?c0 = "the (adt_ctx_new ?t 0 (Some ?hm))"
  let ?c1 = "fst (adt_type_new ?t ?t ?c0 (Some ''bool'') 0)"
  let ?c2 = "fst (adt_ctor_add ?t ?c1 (Some 0) (Some ''True'') 0 None)"
  let ?c3 = "fst (adt_ctor_add ?t ?c2 (Some 0) (Some ''False'') 0 None)"
  have "adt_ctx_new ?t 0 (Some ?hm) = Some ?c0" by (simp add: adt_ctx_new_def adt_i_ctx_new_def)
  moreover have "adt_step ?t ?t ?c0 ?c1" by (rule step_type) (rule prod.collapse [symmetric])
  moreover have "adt_step ?t ?t ?c1 ?c2" by (rule step_ctor) (rule prod.collapse [symmetric])
  moreover have "adt_step ?t ?t ?c2 ?c3" by (rule step_ctor) (rule prod.collapse [symmetric])
  ultimately have "tidy ?c2 \<and> evolves ?c2 ?c3"
    using declarations_stable [of ?t 0 ?hm ?c0 ?t ?c2 ?c3] by (meson converse_rtranclp_into_rtranclp rtranclp.rtrancl_refl)
  moreover have "ctor_names ?c2 = [''True'']" by code_simp
  moreover have "ctor_names ?c3 = [''True'', ''False'']" by code_simp
  ultimately show ?thesis by blast
qed

end
