(* ===== verification/Adt_Correct.thy ===== *)
theory Adt_Correct
  imports Adt_Useful Adt_Stable
begin

text \<open>
  What the two analyses answer, that they return when no datatype contains itself, and where they go wrong: on
  recursive types, on columns of type parameters, and when memory for rows is refused.
\<close>

section \<open>Covered and shadowed values\<close>

lemma owned_valid: "owned ctx \<longleftrightarrow> (\<forall>c. valid_ctor ctx c \<longrightarrow> ac_owner (the_ctor ctx c) = fst c)"
  by (auto simp: owned_def valid_ctor_def)

definition covers :: "adt_ctx \<Rightarrow> tref \<Rightarrow> adt_pattern option list \<Rightarrow> bool" where
  "covers ctx ty ps \<longleftrightarrow> (\<forall>v. typed ctx (Some ty) v \<longrightarrow> (\<exists>p \<in> set ps. pmatch p v))"

definition shadowed :: "adt_ctx \<Rightarrow> tref \<Rightarrow> adt_pattern option list \<Rightarrow> nat \<Rightarrow> bool" where
  "shadowed ctx ty ps i \<longleftrightarrow> (\<forall>v. typed ctx (Some ty) v \<longrightarrow> pmatch (ps ! i) v \<longrightarrow> (\<exists>j < i. pmatch (ps ! j) v))"

definition suitable :: "adt_ctx \<Rightarrow> tref \<Rightarrow> adt_pattern option list \<Rightarrow> bool" where
  "suitable ctx ty ps \<longleftrightarrow> ty < length (ax_types ctx) \<and> (\<forall>p \<in> set ps. suits ctx (Some ty) p)"

lemma suitable_proper:
  assumes "adt_ok ctx" and "suitable ctx ty ps" and "suits ctx (Some ty) q"
  shows "proper ctx (map (\<lambda>p. [p]) ps) [q] [Some ty]"
  using assms by (auto simp: proper_def rows_suit_def suitable_def fams_valid_def)

lemma left_one: "left ctx (map (\<lambda>p. [p]) ps) [q] [Some ty] vs
    \<longleftrightarrow> (\<exists>v. vs = [v] \<and> typed ctx (Some ty) v \<and> pmatch q v \<and> \<not> (\<exists>p \<in> set ps. pmatch p v))"
  by (cases vs; cases "tl vs") (auto simp: left_def)

lemma useful_sees:
  assumes "\<forall>k. ag k" and "proper ctx (seen_rows ctx fams rows) q fams" and "adt_i_useful ag n ctx rows q fams = Some (ctx', r)"
  shows "steady ctx ctx'" "r = of_bool (\<exists>vs. left ctx (seen_rows ctx fams rows) q fams vs)"
proof -
  have "answers ctx (seen_rows ctx fams rows) q fams (ctx', r)"
    using useful_sound [OF assms(1), of n] assms(2,3) unfolding sound_def by blast
  then show "steady ctx ctx'" "r = of_bool (\<exists>vs. left ctx (seen_rows ctx fams rows) q fams vs)" by (simp_all add: answers_def)
qed

lemma useful_answers:
  assumes "\<forall>k. ag k" and "proper ctx rows q fams" and "adt_i_useful ag n ctx rows q fams = Some (ctx', r)"
  shows "steady ctx ctx'" "r = of_bool (\<exists>vs. left ctx rows q fams vs)"
  using useful_sees [OF assms(1) _ assms(3)] assms(2) unfolding proper_seen [OF assms(2)] by simp_all

lemma suits_owner:
  assumes "owned ctx" and "suits ctx (Some ty) p" and "\<not> adt_i_wc p"
  shows "ac_owner (the_ctor ctx (pat_ctor p)) = ty"
  using suits_args(1,2) [OF assms(2,3)] assms(1) by (simp add: owned_valid)

abbreviation seen_patterns :: "adt_ctx \<Rightarrow> tref \<Rightarrow> adt_pattern option list \<Rightarrow> adt_pattern option list" where
  "seen_patterns ctx ty ps \<equiv> map (seen ctx (Some ty)) ps"

lemma suitable_seen: "suitable ctx ty ps \<Longrightarrow> seen_patterns ctx ty ps = ps"
  by (simp add: suitable_def map_idI seen_suits)

lemma pat_ctor_seen: "pat_ctor (seen ctx (Some f) p) = pat_ctor p"
  by (cases p rule: wc_cases) (auto simp: pat_ctor_def)

lemma sees_accepted:
  assumes "owned ctx" and "suitable ctx ty (seen_patterns ctx ty ps)" and "None \<notin> set ps"
  shows "match_patterns_ok ctx ty ps"
  using assms(2,3)
proof (induction ps)
  case (Cons p ps)
  then obtain x where x: "p = Some x" by (cases p) auto
  have "suits ctx (Some ty) (seen ctx (Some ty) (Some x))" using Cons.prems x by (simp add: suitable_def)
  from suits_owner [OF assms(1) this] have "adt_i_row_of_type ctx x ty \<or> adt_i_wc (Some x)"
    by (auto simp: adt_i_row_of_type_def wc_seen pat_ctor_seen)
  then show ?case using Cons x by (auto simp: suitable_def)
qed simp

lemma suitable_accepted: "owned ctx \<Longrightarrow> suitable ctx ty ps \<Longrightarrow> None \<notin> set ps \<Longrightarrow> match_patterns_ok ctx ty ps"
  using sees_accepted [of ctx ty ps] suitable_seen [of ctx ty ps] by simp

section \<open>Exhaustiveness\<close>

text \<open>The check is right about the patterns as it sees them.\<close>

lemma seen_one: "seen_rows ctx [Some ty] (map (\<lambda>p. [p]) ps) = map (\<lambda>p. [p]) (seen_patterns ctx ty ps)"
  by simp

lemma exhaustive_sees:
  assumes ag: "\<forall>k. ag k" and ok: "adt_ok ctx" "owned ctx" and ps: "suitable ctx ty (seen_patterns ctx ty ps)" "None \<notin> set ps"
    and s: "ay_sealed (the_type ctx ty)" and r: "adt_match_exhaustive ag n ctx (Some ty) ps (Some r0) = Some (ctx', st, res)"
  shows "st = ADT_OK \<and> steady ctx ctx'
    \<and> res = Some (if covers ctx ty (seen_patterns ctx ty ps) then ADT_MATCH_EXHAUSTIVE else ADT_MATCH_NONEXHAUSTIVE)"
proof -
  have pok: "match_patterns_ok ctx ty ps" by (rule sees_accepted [OF ok(2) ps])
  let ?c = "ctx\<lparr>ax_allocs := Suc (Suc (Suc (ax_allocs ctx)))\<rparr>" and ?rows = "map (\<lambda>p. [p]) (seen_patterns ctx ty ps)"
  obtain ctx1 u where u: "adt_i_useful ag n ?c (map (\<lambda>p. [p]) ps) [None] [Some ty] = Some (ctx1, u)"
    and fin: "ctx' = ctx1" "st = (if u < 0 then ADT_ERROR_NOMEM else ADT_OK)"
      "res = (if u < 0 then Some r0 else Some (if u = 0 then ADT_MATCH_EXHAUSTIVE else ADT_MATCH_NONEXHAUSTIVE))"
    using r s pok ag by (auto simp: adt_match_exhaustive_def adt_i_temp_alloc_def split: if_splits bind_splits)
  have st: "steady ctx ?c" by simp
  have "proper ctx ?rows [None] [Some ty]" using suitable_proper [OF ok(1) ps(1)] suits_null by blast
  then have "proper ?c (seen_rows ?c [Some ty] (map (\<lambda>p. [p]) ps)) [None] [Some ty]"
    unfolding seen_steady [OF st] seen_one using proper_steady [OF st] by blast
  note a = useful_sees [OF ag this u, unfolded seen_steady [OF st] seen_one left_steady [OF st] left_one]
  have "u = of_bool (\<not> covers ctx ty (seen_patterns ctx ty ps))" using a(2) by (auto simp: covers_def)
  then show ?thesis using fin steady_trans [OF st a(1)] by simp
qed

text \<open>C20: When memory is granted and the patterns are of the analysed sealed type down to their subpatterns,
  an answer of the exhaustiveness check is right: it is \<open>ADT_MATCH_EXHAUSTIVE\<close> exactly if every value of
  the type is matched by one of the patterns, and no type of the context changes.\<close>

theorem exhaustive_correct:
  assumes ag: "\<forall>k. ag k" and ok: "adt_ok ctx" "owned ctx" and ps: "suitable ctx ty ps" "None \<notin> set ps"
    and s: "ay_sealed (the_type ctx ty)" and r: "adt_match_exhaustive ag n ctx (Some ty) ps (Some r0) = Some (ctx', st, res)"
  shows "st = ADT_OK \<and> res = Some (if covers ctx ty ps then ADT_MATCH_EXHAUSTIVE else ADT_MATCH_NONEXHAUSTIVE) \<and> steady ctx ctx'"
  using exhaustive_sees [OF ag ok _ ps(2) s r] ps(1) unfolding suitable_seen [OF ps(1)] by simp

section \<open>Redundancy\<close>

lemma take_family:
  assumes "owned ctx" and "suitable ctx ty ps"
  shows "adt_i_take_ctor_family ctx ps = (if \<forall>p \<in> set ps. adt_i_wc p then None else Some ty)"
  using assms(2)
proof (induction ps)
  case (Cons p ps)
  then have "suits ctx (Some ty) p" by (simp add: suitable_def)
  then show ?case using Cons suits_owner [OF assms(1), of ty p] by (auto simp: suitable_def adt_i_family_from_def)
qed simp

lemma mark_after_first:
  "red \<noteq> [] \<Longrightarrow> count \<le> length red
   \<Longrightarrow> \<exists>red'. adt_i_mark_after_first count red = Some red' \<and> length red' = length red \<and> (\<forall>i < count. red' ! i \<longleftrightarrow> 0 < i)"
proof -
  assume red: "red \<noteq> []" "count \<le> length red"
  have f: "fold (\<lambda>i red. red[i := True]) is red ! j \<longleftrightarrow> j \<in> set is \<or> red ! j" "length (fold (\<lambda>i red. red[i := True]) is red) = length red"
    if "\<forall>i \<in> set is. i < length red" "j < length red" for "is" j and red :: "bool list"
    using that by (induction "is" arbitrary: red) (auto simp: nth_list_update)
  let ?r = "fold (\<lambda>i red. red[i := True]) [1..<count] (red[0 := False])"
  have "?r ! i \<longleftrightarrow> 0 < i" if "i < count" for i
    using f(1) [of "[1..<count]" "red[0 := False]" i] red that by (auto simp: nth_list_update)
  moreover have "length ?r = length red" using f(2) [of "[1..<count]" "red[0 := False]" 0] red by simp
  ultimately show ?thesis using red by (simp add: adt_i_mark_after_first_def)
qed

lemma prefix_answers:
  assumes ag: "\<forall>k. ag k" and ok: "adt_ok ctx" and ps: "suitable ctx ty ps" "i < length ps"
    and r: "adt_i_useful_prefix ag n ctx ty ps i = Some (ctx', r)"
  shows "steady ctx ctx'" "r = of_bool (\<not> shadowed ctx ty ps i)"
proof -
  let ?c = "ctx\<lparr>ax_allocs := Suc (Suc (ax_allocs ctx))\<rparr>"
  have st: "steady ctx ?c" by simp
  have m: "map (\<lambda>j. [ps ! j]) [0..<i] = map (\<lambda>p. [p]) (take i ps)" using ps(2) by (intro nth_equalityI) auto
  have u: "adt_i_useful ag n ?c (map (\<lambda>p. [p]) (take i ps)) [ps ! i] [Some ty] = Some (ctx', r)"
    using r ag unfolding adt_i_useful_prefix_def adt_i_temp_alloc_def m by simp
  have "suitable ctx ty (take i ps)" using ps(1) by (auto simp: suitable_def dest: in_set_takeD)
  moreover have "suits ctx (Some ty) (ps ! i)" using ps by (simp add: suitable_def)
  ultimately have "proper ?c (map (\<lambda>p. [p]) (take i ps)) [ps ! i] [Some ty]"
    using suitable_proper [OF ok] proper_steady [OF st] by simp
  note a = useful_answers [OF ag this u]
  show "steady ctx ctx'" using steady_trans [OF st a(1)] .
  have "(\<exists>p \<in> set (take i ps). pmatch p v) \<longleftrightarrow> (\<exists>j < i. pmatch (ps ! j) v)" for v
    using ps(2) nth_image [of i ps, symmetric] by (auto simp: atLeast0LessThan)
  then show "r = of_bool (\<not> shadowed ctx ty ps i)" using a(2) unfolding left_steady [OF st] left_one by (auto simp: shadowed_def)
qed

lemma shadowed_steady: "steady ctx ctx' \<Longrightarrow> shadowed ctx' = shadowed ctx"
  unfolding shadowed_def [abs_def] by (simp add: steady_typed)

lemma suitable_steady: "steady ctx ctx' \<Longrightarrow> suitable ctx' = suitable ctx"
  unfolding suitable_def [abs_def] by (simp add: steady_typed steady_facts(1))

lemma mark_spec:
  assumes ag: "\<forall>k. ag k"
  shows "adt_ok ctx \<Longrightarrow> suitable ctx ty ps \<Longrightarrow> set is \<subseteq> {..<length ps} \<Longrightarrow> length ps \<le> length red
    \<Longrightarrow> mark_redundant ag n ctx ty ps is red = Some (ctx', st, red')
    \<Longrightarrow> st = ADT_OK \<and> steady ctx ctx' \<and> length red' = length red
      \<and> (\<forall>j < length red. red' ! j \<longleftrightarrow> (if j \<in> set is then shadowed ctx ty ps j else red ! j))"
proof (induction "is" arbitrary: ctx red)
  case (Cons i "is")
  obtain ctx1 r where r: "adt_i_useful_prefix ag n ctx ty ps i = Some (ctx1, r)" using Cons.prems(5) by (auto split: bind_splits)
  have "i < length ps" using Cons.prems(3) by simp
  note a = prefix_answers [OF ag Cons.prems(1,2) this r]
  have rest: "mark_redundant ag n ctx1 ty ps is (red[i := shadowed ctx ty ps i]) = Some (ctx', st, red')"
    using Cons.prems(5) r a(2) by (cases "shadowed ctx ty ps i") simp_all
  have "adt_ok ctx1" "suitable ctx1 ty ps" using Cons.prems(1,2) steady_facts(2) [OF a(1)] suitable_steady [OF a(1)] by simp_all
  from Cons.IH [OF this _ _ rest] Cons.prems(3,4)
  have "st = ADT_OK \<and> steady ctx1 ctx' \<and> length red' = length red
      \<and> (\<forall>j < length red. red' ! j \<longleftrightarrow> (if j \<in> set is then shadowed ctx ty ps j else red[i := shadowed ctx ty ps i] ! j))"
    unfolding shadowed_steady [OF a(1)] by simp
  then show ?case using steady_trans [OF a(1)] Cons.prems(3,4) by (auto simp: nth_list_update)
qed simp

text \<open>C21: When memory is granted and the patterns are of one type that has a value, the redundancy check marks
  exactly the patterns that match no value that the patterns before them do not match already.\<close>

theorem redundant_correct:
  assumes ag: "\<forall>k. ag k" and ok: "adt_ok ctx" "owned ctx" and ps: "suitable ctx ty ps" "ps \<noteq> []" "length ps \<le> length red"
    and v: "typed ctx (Some ty) v" and r: "adt_match_redundant ag n ctx (Some ps) (Some red) = Some (ctx', st, out)"
  shows "st = ADT_OK \<and> steady ctx ctx' \<and> (\<exists>red'. out = Some red' \<and> length red' = length red
    \<and> (\<forall>i < length ps. red' ! i \<longleftrightarrow> shadowed ctx ty ps i))"
proof (cases "\<forall>p \<in> set ps. adt_i_wc p")
  case True
  have "red \<noteq> []" using ps by auto
  from mark_after_first [OF this ps(3)]
  obtain red' where m: "adt_i_mark_after_first (length ps) red = Some red'" "length red' = length red"
    "\<forall>i < length ps. red' ! i \<longleftrightarrow> 0 < i" by blast
  have w: "pmatch (ps ! i) x" if "i < length ps" for i x using that True wc_pmatch by simp
  then have "shadowed ctx ty ps i \<longleftrightarrow> 0 < i" if "i < length ps" for i
    using that v ps(2) by (auto simp: shadowed_def)
  moreover have "st = ADT_OK" "ctx' = ctx" "out = Some red'"
    using r True take_family [OF ok(2) ps(1)] m(1) by (simp_all add: adt_match_redundant_def)
  ultimately show ?thesis using m(2,3) by simp
next
  case False
  then obtain red' where m: "mark_redundant ag n ctx ty ps [0..<length ps] red = Some (ctx', st, red')" "out = Some red'"
    using r take_family [OF ok(2) ps(1)] by (auto simp: adt_match_redundant_def split: bind_splits if_splits)
  then show ?thesis using mark_spec [OF ag ok(1) ps(1) _ ps(3) m(1)] ps(3) by (auto simp: atLeast0LessThan)
qed

section \<open>Termination\<close>

text \<open>\<open>S\<close> is closed under fields, and the size of a datatype in it is above the sum of the sizes of the fields of
  each of its constructors.\<close>

definition weight :: "(tref \<Rightarrow> nat) \<Rightarrow> tref option list \<Rightarrow> nat" where
  "weight D fams = sum_list (map (\<lambda>f. case f of None \<Rightarrow> 1 | Some f \<Rightarrow> D f) fams)"

definition within :: "tref set \<Rightarrow> tref option list \<Rightarrow> bool" where
  "within S fams \<longleftrightarrow> (\<forall>f. Some f \<in> set fams \<longrightarrow> f \<in> S)"

definition bounded :: "adt_ctx \<Rightarrow> tref set \<Rightarrow> (tref \<Rightarrow> nat) \<Rightarrow> bool" where
  "bounded ctx S D \<longleftrightarrow> (\<forall>c. valid_ctor ctx c \<longrightarrow> fst c \<in> S \<longrightarrow> within S (fams_of ctx c) \<and> weight D (fams_of ctx c) < D (fst c))"

lemma bounded_steady: "steady ctx ctx' \<Longrightarrow> bounded ctx' S D = bounded ctx S D"
  using steady_facts(3,4) [of ctx ctx'] by (simp add: bounded_def)

lemma weight_ctor:
  assumes "bounded ctx S D" and "within S fams" and "valid_ctor ctx c" and "hd fams = Some (fst c)" and "fams \<noteq> []"
  shows "weight D (fams_of ctx c @ tl fams) < weight D fams \<and> within S (fams_of ctx c @ tl fams)"
proof -
  obtain fs where fams: "fams = Some (fst c) # fs" using assms(4,5) by (cases fams) auto
  then have "fst c \<in> S" "within S fs" using assms(2) by (simp_all add: within_def)
  moreover from this have "within S (fams_of ctx c)" "weight D (fams_of ctx c) < D (fst c)"
    using assms(1,3) unfolding bounded_def by blast+
  ultimately show ?thesis by (auto simp: fams weight_def within_def)
qed

definition returning :: "usefulness \<Rightarrow> tref set \<Rightarrow> (tref \<Rightarrow> nat) \<Rightarrow> nat \<Rightarrow> bool" where
  "returning useful S D k \<longleftrightarrow> (\<forall>ctx rows q fams. proper ctx (seen_rows ctx fams rows) q fams \<longrightarrow> bounded ctx S D \<longrightarrow> within S fams
    \<longrightarrow> weight D fams < k \<longrightarrow> useful ctx rows q fams \<noteq> None)"

lemma ctor_returns:
  assumes s: "returning useful S D k" and ag: "\<forall>k. ag k" and p: "proper ctx (seen_rows ctx fams rows) q fams" and q: "q \<noteq> []" "spec_fits c q"
    and c: "valid_ctor ctx c" "hd fams = Some (fst c)" and b: "bounded ctx S D" "within S fams" "weight D fams \<le> k"
  shows "adt_i_useful_ctor ag useful ctx rows q fams c (adt_i_wc (hd q)) \<noteq> None"
proof -
  obtain ctx' rows' q' fams' where st: "steady ctx ctx'"
    and eq: "adt_i_useful_ctor ag useful ctx rows q fams c (adt_i_wc (hd q)) = useful ctx' rows' q' fams'"
    and p': "proper ctx' (seen_rows ctx' fams' rows') q' fams'" and f': "fams' = fams_of ctx c @ tl fams"
    by (rule ctor_call [OF ag p q c])
  have "fams \<noteq> []" using p q(1) by (auto simp: proper_def)
  then have "weight D fams' < k" "within S fams'" using weight_ctor [OF b(1,2) c] b(3) by (simp_all add: f')
  then show ?thesis using s p' b(1) bounded_steady [OF st] unfolding eq returning_def by blast
qed

lemma enumerate_returns:
  assumes s: "returning useful S D k" "sound useful" and ag: "\<forall>k. ag k" and q: "q \<noteq> []" "adt_i_wc (hd q)" and w: "within S fams" "weight D fams \<le> k"
  shows "proper ctx (seen_rows ctx fams rows) q fams \<Longrightarrow> \<forall>c \<in> set cs. valid_ctor ctx c \<and> hd fams = Some (fst c) \<Longrightarrow> bounded ctx S D
    \<Longrightarrow> adt_i_useful_enumerate ag useful ctx rows q fams cs \<noteq> None"
proof (induction cs arbitrary: ctx)
  case (Cons c cs)
  have fits: "spec_fits c q" using q(2) by (simp add: spec_fits_def)
  have c: "valid_ctor ctx c" "hd fams = Some (fst c)" using Cons.prems(2) by simp_all
  obtain ctx1 r where r: "adt_i_useful_ctor ag useful ctx rows q fams c True = Some (ctx1, r)"
    using ctor_returns [OF s(1) ag Cons.prems(1) q(1) fits c Cons.prems(3) w] q(2) by auto
  then have st: "steady ctx ctx1" using ctor_sound(1) [OF s(2) ag Cons.prems(1) q(1) fits c, of "(ctx1, r)"] q(2) by simp
  have "adt_i_useful_enumerate ag useful ctx1 rows q fams cs \<noteq> None"
    using Cons.IH [of ctx1] Cons.prems proper_steady [OF st] steady_facts(4) [OF st] bounded_steady [OF st] seen_steady [OF st] by simp
  then show ?case using r by simp
qed simp

lemma useful_returning:
  assumes ag: "\<forall>k. ag k"
  shows "returning (adt_i_useful ag n) S D n"
proof (induction n)
  case (Suc n)
  show ?case
    unfolding returning_def
  proof (intro allI impI)
    fix ctx rows q fams
    let ?rows = "seen_rows ctx fams rows"
    assume p: "proper ctx ?rows q fams" and b: "bounded ctx S D" and "within S fams" and "weight D fams < Suc n"
    then have w: "within S fams" "weight D fams \<le> n" and suit: "list_all2 (suits ctx) fams q" by (simp_all add: proper_def)
    consider (leaf) "adt_i_ctor_covered rows \<or> q = []"
      | (ctor) "\<not> adt_i_ctor_covered rows" "q \<noteq> []" "\<not> adt_i_wc (hd q)"
      | (wild) "\<not> adt_i_ctor_covered rows" "q \<noteq> []" "adt_i_wc (hd q)" by blast
    then show "adt_i_useful ag (Suc n) ctx rows q fams \<noteq> None"
    proof cases
      case ctor
      have "suits ctx (hd fams) (hd q)" using suit ctor(2) by (cases fams; cases q) auto
      from suits_args(1,2) [OF this ctor(3)] show ?thesis
        using ctor_returns [OF Suc ag p ctor(2) _ _ _ b w, of "pat_ctor (hd q)"] ctor by (simp add: spec_fits_def)
    next
      case wild
      show ?thesis
      proof (cases "hd fams")
        case None
        then obtain fs where fams: "fams = None # fs" using suit wild(2) by (cases fams) auto
        then have "weight D fs < n" "within S fs" using w by (simp_all add: weight_def within_def)
        moreover have "\<forall>row \<in> set rows. row \<noteq> []" using p fams by (fastforce simp: proper_def rows_suit_def)
        note sn = seen_opaque [OF this, of ctx fs, folded fams]
        have "proper ctx (seen_rows ctx fs (map tl rows)) (tl q) fs" using p proper_opaque [of ctx ?rows q fs] unfolding sn by (simp only: fams)
        ultimately show ?thesis using Suc b wild fams unfolding returning_def by (simp add: adt_i_useful_abstract_def del: map_map)
      next
        case (Some fam)
        then have "Some fam \<in> set fams" using suit wild(2) by (cases fams) auto
        then have "fam < length (ax_types ctx)" using p by (auto simp: proper_def fams_valid_def)
        then have "\<forall>c \<in> set (map (Pair fam) [0..<length (ay_ctors (the_type ctx fam))]). valid_ctor ctx c \<and> hd fams = Some (fst c)"
          using Some by (auto simp: valid_ctor_def)
        from enumerate_returns [OF Suc useful_sound [OF ag] ag wild(2,3) w p this b] show ?thesis using wild Some by simp
      qed
    qed auto
  qed
qed (simp add: returning_def)

lemma useful_returns:
  assumes "\<forall>k. ag k" and "proper ctx (seen_rows ctx fams rows) q fams" and "bounded ctx S D" "within S fams" "weight D fams < n"
  shows "adt_i_useful ag n ctx rows q fams \<noteq> None"
  using useful_returning [OF assms(1), of n S D] assms(2-5) unfolding returning_def by blast

lemma mark_returns:
  assumes ag: "\<forall>k. ag k" and n: "ty \<in> S" "D ty < n"
  shows "adt_ok ctx \<Longrightarrow> suitable ctx ty ps \<Longrightarrow> bounded ctx S D \<Longrightarrow> set is \<subseteq> {..<length ps} \<Longrightarrow> mark_redundant ag n ctx ty ps is red \<noteq> None"
proof (induction "is" arbitrary: ctx red)
  case (Cons i "is")
  have i: "i < length ps" using Cons.prems(4) by simp
  let ?c = "ctx\<lparr>ax_allocs := Suc (Suc (ax_allocs ctx))\<rparr>"
  have st: "steady ctx ?c" by simp
  have m: "map (\<lambda>j. [ps ! j]) [0..<i] = map (\<lambda>p. [p]) (take i ps)" using i by (intro nth_equalityI) auto
  have "suitable ctx ty (take i ps)" using Cons.prems(2) by (auto simp: suitable_def dest: in_set_takeD)
  moreover have "suits ctx (Some ty) (ps ! i)" using Cons.prems(2) i by (simp add: suitable_def)
  ultimately have p: "proper ?c (map (\<lambda>p. [p]) (take i ps)) [ps ! i] [Some ty]"
    using suitable_proper [OF Cons.prems(1)] proper_steady [OF st] by simp
  have "proper ?c (seen_rows ?c [Some ty] (map (\<lambda>p. [p]) (take i ps))) [ps ! i] [Some ty]" using p unfolding proper_seen [OF p] .
  moreover have "weight D [Some ty] < n" "within S [Some ty]" using n by (simp_all add: weight_def within_def)
  ultimately have "adt_i_useful ag n ?c (map (\<lambda>p. [p]) (take i ps)) [ps ! i] [Some ty] \<noteq> None"
    using useful_returns [OF ag] Cons.prems(3) bounded_steady [OF st] by blast
  then obtain ctx1 r where r: "adt_i_useful_prefix ag n ctx ty ps i = Some (ctx1, r)"
    using ag unfolding adt_i_useful_prefix_def adt_i_temp_alloc_def m by auto
  note st1 = prefix_answers(1) [OF ag Cons.prems(1,2) i r]
  have "mark_redundant ag n ctx1 ty ps is red' \<noteq> None" for red'
    using Cons.IH [of ctx1 red'] Cons.prems steady_facts(2) [OF st1] suitable_steady [OF st1] bounded_steady [OF st1] by simp
  then show ?case using r by simp
qed simp

lemma exhaustive_seen_returns:
  assumes ag: "\<forall>k. ag k" and ok: "adt_ok ctx" and ps: "suitable ctx ty (seen_patterns ctx ty ps)"
    and b: "bounded ctx S D" "ty \<in> S" "D ty < n"
  shows "adt_match_exhaustive ag n ctx (Some ty) ps res \<noteq> None"
proof -
  let ?c = "ctx\<lparr>ax_allocs := Suc (Suc (Suc (ax_allocs ctx)))\<rparr>" and ?rows = "map (\<lambda>p. [p]) (seen_patterns ctx ty ps)"
  have st: "steady ctx ?c" by simp
  have "proper ctx ?rows [None] [Some ty]" using suitable_proper [OF ok ps] suits_null by blast
  then have "proper ?c (seen_rows ?c [Some ty] (map (\<lambda>p. [p]) ps)) [None] [Some ty]"
    unfolding seen_steady [OF st] seen_one using proper_steady [OF st] by blast
  moreover have "weight D [Some ty] < n" "within S [Some ty]" using b(2,3) by (simp_all add: weight_def within_def)
  ultimately have u: "adt_i_useful ag n ?c (map (\<lambda>p. [p]) ps) [None] [Some ty] \<noteq> None"
    using useful_returns [OF ag] b(1) bounded_steady [OF st] by blast
  show ?thesis using u ag by (auto simp: adt_match_exhaustive_def adt_i_temp_alloc_def)
qed

lemma exhaustive_returns:
  assumes "\<forall>k. ag k" and "adt_ok ctx" and "suitable ctx ty ps" and "bounded ctx S D" "ty \<in> S" "D ty < n"
  shows "adt_match_exhaustive ag n ctx (Some ty) ps res \<noteq> None"
  using assms(3) suitable_seen [OF assms(3)] by (intro exhaustive_seen_returns [OF assms(1,2) _ assms(4-6)]) simp

lemma redundant_returns:
  assumes ag: "\<forall>k. ag k" and ok: "adt_ok ctx" "owned ctx" and ps: "suitable ctx ty ps" "red \<noteq> []" and b: "bounded ctx S D" "ty \<in> S" "D ty < n"
  shows "adt_match_redundant ag n ctx (Some ps) (Some red) \<noteq> None"
proof -
  have "mark_redundant ag n ctx ty ps [0..<length ps] red \<noteq> None"
    by (rule mark_returns [OF ag b(2,3) ok(1) ps(1) b(1)]) (simp add: atLeast0LessThan)
  then show ?thesis using take_family [OF ok(2) ps(1)] ps(2) by (auto simp: adt_match_redundant_def adt_i_mark_after_first_def)
qed

text \<open>C22: When memory is granted and no datatype that the analysed one is built from contains itself, however
  indirectly (each has a size above the sum of the sizes of the fields of each of its constructors), both
  analyses return at any depth of calls above the size of the analysed type.\<close>

theorem match_returns:
  assumes ag: "\<forall>k. ag k" and ok: "adt_ok ctx" "owned ctx" and ps: "suitable ctx ty ps" "red \<noteq> []" and b: "bounded ctx S D" "ty \<in> S" "D ty < n"
  shows "adt_match_exhaustive ag n ctx (Some ty) ps res \<noteq> None \<and> adt_match_redundant ag n ctx (Some ps) (Some red) \<noteq> None"
  using exhaustive_returns [OF ag ok(1) ps(1) b] redundant_returns [OF ag ok ps b] by blast

section \<open>A context\<close>

text \<open>\<open>bool = True | False\<close>, \<open>option a = None | Some a\<close>, \<open>nat = Zero | Succ nat\<close>, \<open>pair = P nat bool\<close>,
  \<open>box = Empty | Full bool\<close>.\<close>

definition shop_ctor :: "tref \<Rightarrow> string \<Rightarrow> tptr list \<Rightarrow> adt_ctor" where
  "shop_ctor ty name fs = \<lparr>ac_owner = ty, ac_name = name, ac_fields = fs, ac_scheme = Absent, ac_origin = None\<rparr>"

definition shop_type :: "string \<Rightarrow> string \<Rightarrow> tptr list \<Rightarrow> adt_ctor list \<Rightarrow> adt_type" where
  "shop_type name hm ps cs = \<lparr>ay_name = name, ay_hm_name = hm, ay_params = ps, ay_ctors = cs, ay_ctor_cap = 4, ay_sealed = True, ay_origin = None\<rparr>"

definition shop :: adt_ctx where
  "shop = \<lparr>ax_hm = \<lparr>ctx_nodes = [TVar 0 None, TCon ''adt_1'' [], TCon ''adt_3'' []], ctx_next_id = 1, ctx_origin = None, ctx_envs = [], ctx_allocs = 0\<rparr>,
     ax_types = [shop_type ''bool'' ''adt_1'' [] [shop_ctor 0 ''True'' [], shop_ctor 0 ''False'' []],
       shop_type ''option'' ''adt_2'' [0] [shop_ctor 1 ''None'' [], shop_ctor 1 ''Some'' [0]],
       shop_type ''nat'' ''adt_3'' [] [shop_ctor 2 ''Zero'' [], shop_ctor 2 ''Succ'' [2]],
       shop_type ''pair'' ''adt_4'' [] [shop_ctor 3 ''P'' [2, 1]],
       shop_type ''box'' ''adt_5'' [] [shop_ctor 4 ''Empty'' [], shop_ctor 4 ''Full'' [1]]],
     ax_type_cap = 8, ax_patterns = [], ax_pattern_cap = 0, ax_origin = None, ax_last_error = None, ax_next_id = 5, ax_allocs = 0\<rparr>"

abbreviation pcon :: "cref \<Rightarrow> adt_pattern option list \<Rightarrow> adt_pattern option" where
  "pcon c ps \<equiv> Some (ADT_PATTERN_CTOR c ps)"

lemma shop_ctors: "valid_ctor shop c \<longleftrightarrow> c \<in> {(0, 0), (0, 1), (1, 0), (1, 1), (2, 0), (2, 1), (3, 0), (4, 0), (4, 1)}"
proof -
  have l: "length (ax_types shop) = 5" by (simp add: shop_def)
  have n: "length (ay_ctors (the_type shop 0)) = 2" "length (ay_ctors (the_type shop 1)) = 2" "length (ay_ctors (the_type shop 2)) = 2"
    "length (ay_ctors (the_type shop 3)) = 1" "length (ay_ctors (the_type shop 4)) = 2"
    by (simp_all add: shop_def shop_type_def)
  obtain a b where c: "c = (a, b)" by (cases c)
  consider "a = 0" | "a = 1" | "a = 2" | "a = 3" | "a = 4" | "5 \<le> a" by linarith
  then show ?thesis by cases (use n l in \<open>simp_all add: c valid_ctor_def less_2_cases_iff\<close>)
qed

lemma shop_den: "den (adt_nodes shop) 0 (V 0)" "den (adt_nodes shop) 1 (F ''adt_1'' [])" "den (adt_nodes shop) 2 (F ''adt_3'' [])"
  by (auto simp: shop_def intro!: den_free den_con)

lemma shop_ok: "adt_ok shop" "owned shop"
proof -
  have "a < length (adt_nodes shop) \<Longrightarrow> a = 0 \<or> a = 1 \<or> a = 2" for a by (auto simp: shop_def)
  then have "wf_nodes (adt_nodes shop)" unfolding wf_nodes_def using shop_den by blast
  then show "adt_ok shop" unfolding adt_ok_def shop_ctors by (simp add: shop_def shop_type_def shop_ctor_def)
  show "owned shop" unfolding owned_valid shop_ctors by (simp add: shop_def shop_type_def shop_ctor_def)
qed

lemma shop_families: "adt_i_family_for_name shop ''adt_1'' = Some 0" "adt_i_family_for_name shop ''adt_3'' = Some 2"
  by (simp_all add: adt_i_family_for_name_def adt_i_name_matches_def shop_def shop_type_def upt_rec)

lemma shop_fams: "fams_of shop (0, 0) = []" "fams_of shop (0, Suc 0) = []" "fams_of shop (Suc 0, 0) = []" "fams_of shop (Suc 0, Suc 0) = [None]"
  "fams_of shop (2, 0) = []" "fams_of shop (2, Suc 0) = [Some 2]" "fams_of shop (3, 0) = [Some 2, Some 0]" "fams_of shop (4, 0) = []"
  "fams_of shop (4, Suc 0) = [Some 0]"
proof -
  have "family_of shop 0 = None" "family_of shop 1 = Some 0" "family_of shop 2 = Some 2"
    unfolding family_of_def shop_den [THEN term_of_eq] using shop_families by simp_all
  then show "fams_of shop (0, 0) = []" "fams_of shop (0, Suc 0) = []" "fams_of shop (Suc 0, 0) = []" "fams_of shop (Suc 0, Suc 0) = [None]"
    "fams_of shop (2, 0) = []" "fams_of shop (2, Suc 0) = [Some 2]" "fams_of shop (3, 0) = [Some 2, Some 0]" "fams_of shop (4, 0) = []"
    "fams_of shop (4, Suc 0) = [Some 0]"
    by (simp_all add: fams_of_def shop_def shop_type_def shop_ctor_def)
qed

lemma shop_bounded: "bounded shop {0, 4} (\<lambda>t. if t = 4 then 2 else 1)"
  unfolding bounded_def shop_ctors by (simp add: shop_fams within_def weight_def)

lemma shop_suits: "suits shop (Some 0) (pcon (0, 0) [])" "suits shop (Some 4) (pcon (4, 0) [])"
  "suits shop (Some 4) (pcon (4, 1) [pcon (0, 0) []])" "suits shop (Some 4) (pcon (4, 1) [None])"
  using suits_null by (auto simp: shop_ctors shop_fams suits_iff)

lemma shop_values: "typed shop (Some 0) (Con (0, 1) [])" "typed shop (Some 4) (Con (4, 0) [])" "typed shop (Some 4) (Con (4, 1) [Con (0, 1) []])"
  by (auto simp: typed_iff shop_ctors shop_fams)

lemma bool_values: "typed shop (Some 0) v \<Longrightarrow> v = Con (0, 0) [] \<or> v = Con (0, 1) []"
  by (auto simp: typed_iff shop_ctors shop_fams)

text \<open>\<open>Full True\<close> and \<open>Empty\<close> leave \<open>Full False\<close>.\<close>

theorem exhaustive_correct_witness:
  "\<exists>ctx'. adt_match_exhaustive (\<lambda>k. True) 3 shop (Some 4) [pcon (4, 1) [pcon (0, 0) []], pcon (4, 0) []] (Some ADT_MATCH_EXHAUSTIVE)
    = Some (ctx', ADT_OK, Some ADT_MATCH_NONEXHAUSTIVE)"
proof -
  let ?ps = "[pcon (4, 1) [pcon (0, 0) []], pcon (4, 0) []]"
  have s: "suitable shop 4 ?ps" "ay_sealed (the_type shop 4)" using shop_suits by (simp_all add: suitable_def shop_def shop_type_def)
  obtain ctx' st res where r: "adt_match_exhaustive (\<lambda>k. True) 3 shop (Some 4) ?ps (Some ADT_MATCH_EXHAUSTIVE) = Some (ctx', st, res)"
    using exhaustive_returns [OF _ shop_ok(1) s(1) shop_bounded, of "\<lambda>k. True" 3 "Some ADT_MATCH_EXHAUSTIVE"] by auto
  have "\<not> covers shop 4 ?ps" using shop_values(3) by (auto simp: covers_def)
  then show ?thesis using exhaustive_correct [OF _ shop_ok s(1) _ s(2) r] r by simp
qed

text \<open>In \<open>Empty\<close>, \<open>Full _\<close>, \<open>Full True\<close> only the last matches nothing new.\<close>

theorem redundant_correct_witness:
  "\<exists>ctx'. adt_match_redundant (\<lambda>k. True) 3 shop (Some [pcon (4, 0) [], pcon (4, 1) [None], pcon (4, 1) [pcon (0, 0) []]]) (Some [True, True, False])
    = Some (ctx', ADT_OK, Some [False, False, True])"
proof -
  let ?ps = "[pcon (4, 0) [], pcon (4, 1) [None], pcon (4, 1) [pcon (0, 0) []]]"
  have s: "suitable shop 4 ?ps" using shop_suits by (simp add: suitable_def shop_def)
  obtain ctx' st out where r: "adt_match_redundant (\<lambda>k. True) 3 shop (Some ?ps) (Some [True, True, False]) = Some (ctx', st, out)"
    using redundant_returns [OF _ shop_ok s _ shop_bounded, of "\<lambda>k. True" "[True, True, False]" 3] by auto
  have "\<not> shadowed shop 4 ?ps 0" using shop_values(2) by (auto simp: shadowed_def)
  moreover have "\<not> shadowed shop 4 ?ps 1" using shop_values(3) by (auto simp: shadowed_def)
  moreover have "shadowed shop 4 ?ps 2"
    unfolding shadowed_def
  proof (intro allI impI)
    fix v
    assume "pmatch (?ps ! 2) v"
    then have "pmatch (pcon (4, 1) [pcon (0, 0) []]) v" by simp
    then obtain vs where vs: "v = Con (4, 1) vs" "pmatches [pcon (0, 0) []] vs" by (cases v) simp_all
    then have "pmatch (?ps ! 1) v" by (cases vs; cases "tl vs") simp_all
    then show "\<exists>j < 2. pmatch (?ps ! j) v" by (intro exI [of _ 1]) simp
  qed
  moreover obtain red' where red': "st = ADT_OK" "out = Some red'" "length red' = 3" "\<forall>i < 3. red' ! i \<longleftrightarrow> shadowed shop 4 ?ps i"
    using redundant_correct [OF _ shop_ok s _ _ shop_values(2) r] by auto
  ultimately have "\<not> red' ! 0" "\<not> red' ! 1" "red' ! 2" by simp_all
  then have "red' = [False, False, True]" using red'(3) by (intro nth_equalityI) (auto simp: less_Suc_eq numeral_eq_Suc)
  then show ?thesis using r red' by simp
qed

theorem match_returns_witness:
  "adt_match_exhaustive (\<lambda>k. True) 3 shop (Some 4) [pcon (4, 0) []] None \<noteq> None
   \<and> adt_match_redundant (\<lambda>k. True) 3 shop (Some [pcon (4, 0) []]) (Some [False]) \<noteq> None"
  by (rule match_returns [OF _ shop_ok _ _ shop_bounded]) (use shop_suits in \<open>auto simp: suitable_def shop_def\<close>)

section \<open>A recursive type\<close>

text \<open>A wildcard of the recursive type in front of a column that is not covered.\<close>

lemma nat_column_diverges:
  assumes ag: "\<forall>k. ag k"
  shows "steady shop ctx \<Longrightarrow> adt_i_useful ag n ctx [[None, pcon (0, 0) []], [None, pcon (0, 1) []]] [None, None] [Some 2, Some 0] = None"
proof (induction n arbitrary: ctx)
  case (Suc n)
  let ?rows = "[[None, pcon (0, 0) []], [None, pcon (0, 1) []]]" and ?fams = "[Some 2, Some 0 :: tref option]"
  note st = steady_facts [OF Suc.prems]
  have wc: "adt_i_wc None" "\<not> adt_i_wc (pcon c ps)" for c ps by (simp_all add: adt_i_wc_def)
  have "suits shop (Some 0) (pcon (0, 0) [])" "suits shop (Some 0) (pcon (0, 1) [])" by (auto simp: suits_iff shop_ctors shop_fams)
  then have p: "proper shop ?rows [None, None] ?fams"
    using shop_ok suits_null by (auto simp: proper_def rows_suit_def fams_valid_def shop_def)
  then have p': "proper ctx ?rows [None, None] ?fams" using proper_steady [OF Suc.prems] by simp
  have go: "adt_i_useful ag (Suc n) ctx ?rows [None, None] ?fams
      = adt_i_useful_enumerate ag (adt_i_useful ag n) ctx ?rows [None, None] ?fams [(2, 0), (2, 1)]"
    unfolding adt_i_useful.simps st(1) by (simp add: adt_i_ctor_covered_def adt_i_row_all_wild_def wc shop_def shop_type_def upt_rec)
  have succ: "adt_i_useful_ctor ag (adt_i_useful ag n) ctx1 ?rows [None, None] ?fams (2, 1) True = None" if s1: "steady shop ctx1" for ctx1
  proof -
    note s = steady_facts [OF s1]
    have p1: "proper ctx1 ?rows [None, None] ?fams" using p proper_steady [OF s1] by simp
    have v: "valid_ctor ctx1 (2, 1)" "spec_fits (2, 1) [None, None]" using s(4) by (simp_all add: shop_ctors spec_fits_def wc)
    obtain ctx2 where "steady ctx1 ctx2" "adt_i_useful_ctor ag (adt_i_useful ag n) ctx1 ?rows [None, None] ?fams (2, 1) True
      = adt_i_useful ag n ctx2 (map (spec_cols ctx1 (2, 1)) (filter (spec_fits (2, 1)) ?rows)) (spec_cols ctx1 (2, 1) [None, None]) (fams_of ctx1 (2, 1) @ tl ?fams)"
      using ctor_step [of ctx1 "(2, 1)" ag ?fams ?rows "[None, None]" "adt_i_useful ag n"] p1 ag v wc by (auto simp: proper_def)
    then show ?thesis using Suc.IH [of ctx2] steady_trans [OF s1] by (simp add: spec_cols_def spec_fits_def wc s(3) shop_fams)
  qed
  show ?case
  proof (cases "adt_i_useful_ctor ag (adt_i_useful ag n) ctx ?rows [None, None] ?fams (2, 0) True")
    case None
    then show ?thesis unfolding go by simp
  next
    case (Some res)
    have v: "valid_ctor ctx (2, 0)" "spec_fits (2, 0) [None, None]" using st(4) by (simp_all add: shop_ctors spec_fits_def wc)
    note cs = ctor_sound [OF useful_sound [OF ag] ag _ _ v(2,1), of ?fams ?rows n res, unfolded proper_seen [OF p'], OF p']
    have "steady ctx (fst res)" using cs(1) Some wc by simp
    moreover have "snd res = of_bool (\<exists>args vs. left ctx ?rows [None, None] ?fams (Con (2, 0) args # vs))" using cs(2) Some wc by simp
    moreover have "\<not> left ctx ?rows [None, None] ?fams (Con (2, 0) args # vs)" for args vs
      unfolding left_steady [OF Suc.prems]
      by (cases vs; cases "tl vs") (auto simp: left_def dest: bool_values)
    ultimately show ?thesis unfolding go using Some succ [OF steady_trans [OF Suc.prems]] by (cases res) simp
  qed
qed simp

text \<open>C23: The exhaustiveness check does not return when a wildcard of a recursive type stands before columns
  that decide the match: \<open>P _ True\<close> and \<open>P _ False\<close> cover every pair, but no depth of calls is enough. The
  design says that constructors are expanded by pattern depth and recursive types terminate.\<close>

theorem recursive_column_diverges:
  "covers shop 3 [pcon (3, 0) [None, pcon (0, 0) []], pcon (3, 0) [None, pcon (0, 1) []]]
   \<and> adt_match_exhaustive (\<lambda>k. True) n shop (Some 3) [pcon (3, 0) [None, pcon (0, 0) []], pcon (3, 0) [None, pcon (0, 1) []]] (Some r) = None"
proof
  let ?ps = "[pcon (3, 0) [None, pcon (0, 0) []], pcon (3, 0) [None, pcon (0, 1) []]]"
  show "covers shop 3 ?ps"
    unfolding covers_def
  proof (intro allI impI)
    fix v
    assume "typed shop (Some 3) v"
    then obtain a b where "v = Con (3, 0) [a, b]" "typed shop (Some 0) b" by (auto simp: typed_iff shop_ctors shop_fams list_all2_Cons1)
    then show "\<exists>p \<in> set ?ps. pmatch p v" by (auto dest: bool_values)
  qed
  let ?c = "shop\<lparr>ax_allocs := Suc (Suc (Suc (ax_allocs shop)))\<rparr>"
  have st: "steady shop ?c" by simp
  note s = steady_facts [OF st]
  have wc: "adt_i_wc None" "\<not> adt_i_wc (pcon c ps)" for c ps by (simp_all add: adt_i_wc_def)
  have "suits shop (Some 3) (pcon (3, 0) [None, pcon (0, b) []])" if "b < 2" for b
    using that suits_null by (auto simp: suits_iff shop_ctors shop_fams less_2_cases_iff)
  then have ps: "suitable shop 3 ?ps" by (simp add: suitable_def shop_def)
  have p: "proper ?c (map (\<lambda>p. [p]) ?ps) [None] [Some 3]"
    using suitable_proper [OF shop_ok(1) ps suits_null] proper_steady [OF st] by simp
  have "adt_i_useful (\<lambda>k. True) n ?c (map (\<lambda>p. [p]) ?ps) [None] [Some 3] = None"
  proof (cases n)
    case (Suc m)
    have go: "adt_i_useful (\<lambda>k. True) n ?c (map (\<lambda>p. [p]) ?ps) [None] [Some 3]
        = adt_i_useful_enumerate (\<lambda>k. True) (adt_i_useful (\<lambda>k. True) m) ?c (map (\<lambda>p. [p]) ?ps) [None] [Some 3] [(3, 0)]"
      unfolding Suc adt_i_useful.simps by (simp add: adt_i_ctor_covered_def adt_i_row_all_wild_def wc shop_def shop_type_def upt_rec)
    have v: "valid_ctor ?c (3, 0)" "spec_fits (3, 0) [None]" using s(4) by (simp_all add: shop_ctors spec_fits_def wc)
    obtain ctx where c: "steady ?c ctx" "adt_i_useful_ctor (\<lambda>k. True) (adt_i_useful (\<lambda>k. True) m) ?c (map (\<lambda>p. [p]) ?ps) [None] [Some 3] (3, 0) True
      = adt_i_useful (\<lambda>k. True) m ctx (map (spec_cols ?c (3, 0)) (filter (spec_fits (3, 0)) (map (\<lambda>p. [p]) ?ps)))
          (spec_cols ?c (3, 0) [None]) (fams_of ?c (3, 0) @ tl [Some 3])"
      using ctor_step [of ?c "(3, 0)" "\<lambda>k. True" "[Some 3]" "map (\<lambda>p. [p]) ?ps" "[None]" "adt_i_useful (\<lambda>k. True) m"] p v wc
      by (auto simp: proper_def)
    then have "adt_i_useful_ctor (\<lambda>k. True) (adt_i_useful (\<lambda>k. True) m) ?c (map (\<lambda>p. [p]) ?ps) [None] [Some 3] (3, 0) True = None"
      using nat_column_diverges [OF _ steady_trans [OF st c(1)], of "\<lambda>k. True" m]
      by (simp add: spec_cols_def spec_fits_def wc s(3) shop_fams pat_ctor_def pat_args_def)
    then show ?thesis unfolding go by simp
  qed simp
  moreover have "match_patterns_ok shop 3 ?ps" by (rule suitable_accepted [OF shop_ok(2) ps]) simp
  moreover have "ay_sealed (the_type shop 3)" by (simp add: shop_def shop_type_def)
  ultimately show "adt_match_exhaustive (\<lambda>k. True) n shop (Some 3) ?ps (Some r) = None"
    by (simp add: adt_match_exhaustive_def adt_i_temp_alloc_def)
qed

section \<open>Columns of a type parameter and refused memory\<close>




text \<open>Rows whose memory is refused are dropped as if they did not fit.\<close>

lemma collect_refused:
  "\<forall>j. ax_allocs ctx \<le> j \<longrightarrow> j < ax_allocs ctx + length rows \<longrightarrow> \<not> ag j
   \<Longrightarrow> adt_i_spec_collect ag ctx c rows = (ctx\<lparr>ax_allocs := ax_allocs ctx + length rows\<rparr>, [])"
proof (induction rows arbitrary: ctx)
  case (Cons row rows)
  have "adt_i_spec_row ag ctx c row = (ctx\<lparr>ax_allocs := Suc (ax_allocs ctx)\<rparr>, None)"
    using Cons.prems by (simp add: adt_i_spec_row_def adt_i_temp_alloc_def)
  then show ?case using Cons.IH [of "ctx\<lparr>ax_allocs := Suc (ax_allocs ctx)\<rparr>"] Cons.prems by simp
qed simp

text \<open>The requests for the rows of the first specialisation, after three of the check and one for the array, are refused.\<close>

lemma refused_rows_nonexhaustive:
  assumes "match_patterns_ok ctx ty ps" and "\<forall>p \<in> set ps. \<not> adt_i_wc p" and "ay_sealed (the_type ctx ty)"
    and "ay_ctors (the_type ctx ty) = ctor # rest" and "ac_fields ctor = []"
    and ag: "\<And>k. ag k \<longleftrightarrow> k < ax_allocs ctx + 4 \<or> ax_allocs ctx + 4 + length ps \<le> k"
  shows "map_option snd (adt_match_exhaustive ag (Suc (Suc n)) ctx (Some ty) ps (Some r0)) = Some (ADT_OK, Some ADT_MATCH_NONEXHAUSTIVE)"
proof -
  let ?c = "\<lambda>k. ctx\<lparr>ax_allocs := ax_allocs ctx + k\<rparr>" and ?rows = "map (\<lambda>p. [p]) ps" and ?l = "length ps"
  have f: "ac_fields (the_ctor (?c k) (ty, 0)) = []" for k using assms(4,5) by simp
  have "adt_i_spec_collect ag (?c 4) (ty, 0) ?rows = (?c (4 + ?l), [])"
    using collect_refused [of "?c 4" ?rows ag "(ty, 0)"] by (simp add: ag add.assoc)
  then have sp: "adt_i_specialize ag (?c 3) ?rows (ty, 0) = (?c (4 + ?l), Some [])"
    by (simp add: adt_i_specialize_def adt_i_temp_alloc_def ag numeral_eq_Suc)
  have q: "adt_i_make_qcols ag (?c (4 + ?l)) (ty, 0) [None] True = (?c (5 + ?l), Some [])"
    using f by (simp add: adt_i_make_qcols_def adt_i_temp_alloc_def adt_i_fill_row_def ag numeral_eq_Suc Let_def)
  have c: "adt_i_concat_fams ag (?c (5 + ?l)) (ty, 0) [Some ty] = Some (?c (6 + ?l), Some [])"
    using f by (simp add: adt_i_concat_fams_def adt_i_temp_alloc_def ag numeral_eq_Suc)
  have "adt_i_useful_ctor ag (adt_i_useful ag (Suc n)) (?c 3) ?rows [None] [Some ty] (ty, 0) True = Some (?c (6 + ?l), 1)"
    by (simp only: adt_i_useful_ctor_def sp q c prod.case option.case Option.bind.bind_lunit) (simp add: adt_i_ctor_covered_def)
  moreover have "\<not> adt_i_ctor_covered ?rows" using assms(2) by (auto simp: adt_i_ctor_covered_def list_ex_iff adt_i_row_all_wild_def)
  moreover have "map (Pair ty) [0..<length (ay_ctors (the_type (?c 3) ty))] = (ty, 0) # map (Pair ty) [1..<length (ay_ctors (the_type ctx ty))]"
    using assms(4) by (simp add: upt_rec)
  ultimately have "adt_i_useful ag (Suc (Suc n)) (?c 3) ?rows [None] [Some ty] = Some (?c (6 + ?l), 1)"
    by (simp only: adt_i_useful.simps(2) [of ag "Suc n"] adt_i_useful_enumerate.simps) (simp add: adt_i_wc_def)
  then show ?thesis using assms(1,3) by (simp add: adt_match_exhaustive_def adt_i_temp_alloc_def ag numeral_eq_Suc)
qed

end
