(* ===== verification/Spec2Isabelle.thy ===== *)
theory Spec2Isabelle
  imports Raft_Config Raft_Cluster Raft_Rules Fsm89 Cksum_Correct Utf8_Correct Str89_Text Bpf_Alu Bpf_Sandbox Hm_Poly Bwt_Dyn Adt_Correct
begin

text \<open>
  A verification development for the \<open>eightynine\<close> repository, a family of strict C89 libraries under
  \<open>src/\<close>. Nine of them are modelled, each translated from its C files function by function:

    \<^item> \<open>libraft89\<close>, a deterministic Raft consensus node without I/O of its own;
    \<^item> \<open>libbpf\<close>, a loader and a sandboxed machine for RFC 9669 (BPF) programs;
    \<^item> \<open>libhm89\<close>, Hindley-Milner types: unification, environments, schemes;
    \<^item> \<open>libadt89\<close>, algebraic datatypes on top of it: declarations, constructor patterns, exhaustiveness;
    \<^item> \<open>libbwt89\<close>, the Burrows-Wheeler transform over a linear-time suffix array, and an editor for it;
    \<^item> \<open>libstr89\<close>, UTF-8 views, strings and editable buffers over a caller's allocator;
    \<^item> \<open>libu89\<close>, its UTF-8 and UTF-16 core;
    \<^item> \<open>libcksum89\<close>, three CRCs and the Internet checksum;
    \<^item> \<open>libfsm89\<close>, table-driven finite state machines.

  Conventions. Definitions keep the names of the C functions; a loop or a block that a C function has
  inside is a definition of its own. A machine integer is a word of its width, of an LP64 target
  (\<open>unsigned long\<close> and \<open>size_t\<close> have 64 bits; the one that would differ elsewhere is the growth limit of
  \<open>libstr89\<close>). A structure is a record, an enumeration a datatype, a null pointer the value \<open>None\<close>. A
  function that mutates its argument returns it updated with the return code; one with an out parameter
  returns a sum of code and value. Code outside the library, that is the log store and the random source
  of a Raft node, the allocator, what uninitialised memory holds, is an argument of the definitions
  (\<open>host\<close>, \<open>grants\<close>, \<open>junk\<close>); a property that relies on how it behaves says so in a hypothesis.
  Releasing memory is modelled where the library lets it be observed, in \<open>libstr89\<close> and by the counters of
  \<open>libbwt89\<close>; elsewhere blocks are values and the destroy functions have no counterpart.

  Prelude. \<open>Prelude\<close> has the integer types, the sequencing of calls with early returns, arithmetic that
  does not wrap, and majorities: \<open>quorum_system\<close> is what elections need of quorums, and the majorities
  of a membership list are its interpretation.

  Consensus (\<open>src/libraft89/src\<close>). \<open>Raft_Types\<close> (\<open>raft89.h\<close>, \<open>raft89_u64.c\<close>), \<open>Raft_Node\<close>
  (\<open>raft89_internal.h\<close>, \<open>raft89_node.c\<close>, \<open>raft89_action.c\<close>, \<open>raft89_timer.c\<close>, \<open>raft89_config.c\<close>), \<open>Raft_Message\<close>,
  \<open>Raft_Log\<close>, \<open>Raft_Leader\<close>, \<open>Raft_Election\<close>, \<open>Raft_Replication\<close> (the file of the same name each) and \<open>Raft_Api\<close>
  (the entry points \<open>raft89_tick\<close>, \<open>raft89_recv\<close>, \<open>raft89_action_done\<close>, \<open>raft89_proposev\<close>). A node does one thing at
  a time: a call leaves at most one action for the host, and the field \<open>step\<close> names the
  continuation that its acknowledgement resumes. Proofs:
  \<open>Raft_Frame\<close> and \<open>Raft_Quiet\<close> say which fields an operation leaves alone; \<open>Raft_Vote\<close> is the invariant of one
  node on votes; \<open>Raft_Cluster\<close> composes nodes over a network that loses, delays, duplicates and reorders, with
  crashes, restarts, failing allocations and an arbitrary log store, as the step relation \<open>reachable\<close>, and
  proves election safety there by rule induction. \<open>Raft_Order\<close> is the order of application,
  commitment and log of one node over any sequence of calls; \<open>Raft_Rules\<close> has the behaviour of single
  calls (commit rule, batches, proposals, refusals, bounds); \<open>Raft_Config\<close> characterises valid configurations.

  Programs and their machine (\<open>src/libbpf/src\<close>). \<open>Bpf_Program\<close> has \<open>decode.c\<close>, \<open>validate.c\<close> and \<open>program.c\<close>: bytes to
  instructions, the forms each class may have, slots, and the resolution of branches. \<open>Bpf_Load\<close> proves
  that what is loaded encodes its bytes and that targets are where the distances point. \<open>Bpf_Eval\<close> is \<open>eval.c\<close>:
  arithmetic, conditions, the machine over one flat memory. \<open>Bpf_Alu\<close> compares the arithmetic with one
  reference on numbers for every word length. \<open>Bpf_Vm\<close> has \<open>mem.c\<close>, \<open>cap.c\<close> and \<open>vm.c\<close>: regions with
  permissions, capabilities, and the machine that the host steps, completes and refuels. A
  host pointer is a region and an offset in it. \<open>Bpf_Memory\<close> proves what loads and stores do to each
  byte; its locale \<open>guarded_memory\<close> is what the machine needs of a memory, and the regions are its
  interpretation. \<open>Bpf_Sandbox\<close> proves what no sequence of host calls (\<open>host_op\<close>, \<open>vm_reach\<close>) changes, and what a
  budget bounds.

  Text (\<open>src/libu89/src/u89_utf8.c\<close>, \<open>src/libstr89/src\<close>). \<open>Utf8\<close> and \<open>Utf8_Correct\<close>: decoding, encoding, validation
  and backward iteration, against concatenations of encoded scalars. \<open>Str89\<close> runs over an explicit memory of
  blocks, since sources may lie inside the buffer they are inserted into; \<open>Str89_Correct\<close> proves the edits
  (also for such sources) and that failures change nothing, \<open>Str89_Text\<close> that text stays text, when operations
  succeed, and what views and search give.

  Types (\<open>src/libhm89/src\<close>). \<open>Hm_Type\<close> (\<open>hm_ctx.c\<close>, \<open>hm_type.c\<close>, \<open>hm_error.c\<close>, \<open>hm_unify.c\<close>) and \<open>Hm_Scheme\<close> (\<open>hm_ftv.c\<close>,
  \<open>hm_env.c\<close>, \<open>hm_scheme.c\<close>, \<open>hm_print.c\<close>). A type is a position in the list of the nodes of its context; links
  and path compression update that list. \<open>Hm_Unify\<close> reads a node as a term (\<open>den\<close>, \<open>term_of\<close>) and
  proves that unification computes most general unifiers and keeps the graph acyclic (\<open>wf_nodes\<close>); \<open>Hm_Free\<close> proves what
  the traversals collect, \<open>Hm_Poly\<close> what instantiation and generalisation give, and that it quantifies
  variables of the environment when requests are refused at the wrong time.

  Datatypes (\<open>src/libadt89/src\<close>). \<open>Adt_Type\<close> (\<open>adt_ctx.c\<close>, \<open>adt_error.c\<close>, \<open>adt_type.c\<close>), \<open>Adt_Decl\<close> (\<open>adt_ctor.c\<close>, \<open>adt_scheme.c\<close>,
  \<open>adt_bind.c\<close>, \<open>adt_pattern.c\<close>) and \<open>Adt_Match\<close> (\<open>adt_match.c\<close>); the context holds the \<open>libhm89\<close> context its types live in.
  \<open>Adt_Stable\<close> proves over every sequence of calls (\<open>adt_step\<close>) what declarations promise. \<open>Adt_Sound\<close> has the values of a
  datatype and what patterns match, \<open>Adt_Useful\<close> that the usefulness recursion answers whether a value is left (reading constructors in columns of
  type parameters as wildcards), \<open>Adt_Correct\<close> that the two analyses are right, when they return, and where they go wrong.

  Transforms (\<open>src/libbwt89/src\<close>). \<open>Bwt_Sa\<close> (\<open>bwt89_alloc.c\<close>, \<open>bwt89_sa.c\<close>), \<open>Bwt_Bwt\<close> (\<open>bwt89_bwt.c\<close>), \<open>Bwt_Dyn\<close> (\<open>bwt89_dyn.c\<close>
  and its proofs). The suffix array is built by induced sorting. \<open>Bwt_Induce\<close> states what one round of it needs of an
  order on positions as the locale \<open>induced_order\<close>; \<open>Bwt_Pass_L\<close> and \<open>Bwt_Pass_S\<close> prove inside it that the two passes
  sort all positions from sorted seeds; \<open>Bwt_Order\<close> interprets it twice, by the order of suffixes and by the order of
  LMS substrings, which are the two rounds of the code; \<open>Bwt_Names\<close> and \<open>Bwt_Sais\<close> put naming and recursion around
  them. \<open>Bwt_Lf\<close> is the row the inverse follows, \<open>Bwt_Round\<close> and \<open>Bwt_Text\<close> the columns of a text, \<open>Bwt_Exact\<close> that a
  column whose rows form one cycle is the column of a text, \<open>Bwt_Inverse\<close> and \<open>Bwt_Correct\<close> the results of the calls.

  Checksums (\<open>src/libcksum89/src\<close>). \<open>Cksum_Tables\<close> and \<open>Cksum89\<close> are the code, the tables entry by entry.
  \<open>Cksum_Crc\<close> and \<open>Cksum_Correct\<close> prove it equal to the bit-by-bit parametrised CRC and to the sum of RFC 1071; the locales
  \<open>streaming\<close> and \<open>reflected_crc\<close> are interpreted on all four algorithms and all three CRCs.

  State machines (\<open>src/libfsm89/src\<close>). \<open>Fsm89\<close>: the table functions, the validator, and what validated tables promise.

  Bounds and fuel. Loops are structural recursions or have a measure: the searches of the leader run over the
  distance of two indices, decoding over the bytes that remain. \<open>grow_loop\<close> of \<open>libstr89\<close> is a
  \<open>partial_function\<close>, which is proved to return. In \<open>libhm89\<close> a cyclic graph would not let a call return:
  following links and parents are \<open>partial_function\<close>s, and the recursions over types take the depth of
  calls they may use (\<open>hm_type_equal\<close>, \<open>hm_i_occurs\<close>, \<open>hm_unify\<close>, \<open>hm_i_type_ftv\<close>, \<open>hm_i_clone_type\<close>,
  \<open>hm_i_render_type\<close>); the theorems say that on every acyclic graph all depths from some one on give the
  same result. So does \<open>adt_i_useful\<close>: a depth above the size of the analysed datatype is enough, and a
  recursive datatype may need more than any. In \<open>libbwt89\<close> the recursion of \<open>sa_is_core\<close> is on a shorter string; arithmetic in \<open>int\<close> that
  overflows for lengths the library accepts makes a call \<open>None\<close>. \<open>vm_run\<close> and \<open>fsm_reach\<close> count steps of the client, not of the code.

  Not modelled. The disassembler, the C function interface and the command line program of \<open>libbpf\<close>
  (text formatting, I/O); the generated property tables of \<open>libu89\<close> and the functions over them; the client
  \<open>libfx89\<close> of \<open>libhm89\<close>, the bijective transform of \<open>libbwt89\<close>, \<open>libcat89\<close>, \<open>libdl89\<close>, \<open>libj89\<close>, \<open>libjrpc89\<close>, \<open>libledger89\<close>,
  \<open>libsyntax89\<close> and \<open>wasm89\<close>, of which no modelled library uses anything; \<open>librepl89\<close> (terminal) and \<open>llm89\<close> (network).
\<close>

end
